(* ===== verification/Idio_Prelude.thy ===== *)
theory Idio_Prelude
  imports Main "HOL-Library.Word" "HOL-Library.Signed_Division"
begin

text \<open>
  What the component theories share: the errors the C code raises, a result
  type, C's signed arithmetic at its width, and a few lemmas on lists and
  integers.

  The model is that of the release build on an LP64 system: the macros
  \<^verbatim>\<open>IDIO_C_ASSERT\<close>, \<^verbatim>\<open>IDIO_ASSERT\<close> and \<^verbatim>\<open>IDIO_TYPE_ASSERT\<close> of \<^verbatim>\<open>src/src/idio.h\<close>
  expand to nothing there, \<^verbatim>\<open>IDIO_USER_TYPE_ASSERT\<close> and \<^verbatim>\<open>IDIO_ASSERT_NOT_CONST\<close>
  stay.
\<close>

section \<open>Errors and results\<close>

text \<open>
  A raised condition ends the C function (\<^verbatim>\<open>idio_error_raise_cont\<close> does not
  return), so a fallible operation returns a sum: \<open>Inl\<close> the condition that was
  raised, \<open>Inr\<close> the value.
\<close>

datatype idio_error =
    Fixnum_conversion_error int          \<comment> \<open>\<^verbatim>\<open>idio_fixnum_conversion_error\<close>\<close>
  | Divide_by_zero_error                 \<comment> \<open>\<^verbatim>\<open>idio_error_divide_by_zero\<close>\<close>
  | Param_type_error string              \<comment> \<open>\<^verbatim>\<open>idio_error_param_type\<close>: the type wanted\<close>
  | Param_value_error string string      \<comment> \<open>\<^verbatim>\<open>idio_error_param_value_*\<close>: function, parameter\<close>
  | Param_nil_error string string        \<comment> \<open>\<^verbatim>\<open>idio_error_param_nil\<close>\<close>
  | Const_param_error string             \<comment> \<open>\<^verbatim>\<open>IDIO_ASSERT_NOT_CONST\<close>\<close>
  | Bignum_conversion_error string       \<comment> \<open>\<^verbatim>\<open>idio_bignum_conversion_error\<close>\<close>
  | Array_length_error int               \<comment> \<open>\<^verbatim>\<open>idio_array_length_error\<close>\<close>
  | Array_bounds_error int nat           \<comment> \<open>\<^verbatim>\<open>idio_array_bounds_error\<close>: index, size\<close>
  | Bitset_bounds_error nat nat          \<comment> \<open>\<^verbatim>\<open>idio_bitset_bounds_error\<close>: bit, size\<close>
  | Bitset_size_mismatch_error nat nat   \<comment> \<open>\<^verbatim>\<open>idio_bitset_size_mismatch_error\<close>\<close>
  | Hash_error string                    \<comment> \<open>\<^verbatim>\<open>idio_hash_error\<close>\<close>
  | Hash_key_not_found_error             \<comment> \<open>\<^verbatim>\<open>idio_hash_key_not_found_error\<close>\<close>
  | String_error string                  \<comment> \<open>\<^verbatim>\<open>idio_string_error\<close>: what the message starts with\<close>
  | Evaluation_error string              \<comment> \<open>\<^verbatim>\<open>idio_meaning_evaluation_error\<close> and its kin\<close>
  | Coding_error string                  \<comment> \<open>\<^verbatim>\<open>idio_coding_error_C\<close>\<close>
  | Vm_panic string                      \<comment> \<open>\<^verbatim>\<open>idio_vm_panic\<close>: the VM cannot go on\<close>
  | Function_error string                \<comment> \<open>\<^verbatim>\<open>idio_vm_error_function_invoke\<close>\<close>
  | Arity_error int int                  \<comment> \<open>\<^verbatim>\<open>idio_vm_error_arity\<close>: given, wanted\<close>
  | Arity_varargs_error int int          \<comment> \<open>\<^verbatim>\<open>idio_vm_error_arity_varargs\<close>\<close>
  | Dynamic_unbound_error nat            \<comment> \<open>\<^verbatim>\<open>idio_error_dynamic_unbound\<close>\<close>
  | Environ_unbound_error nat            \<comment> \<open>\<^verbatim>\<open>idio_error_environ_unbound\<close>\<close>
  | Runtime_unbound_error nat            \<comment> \<open>\<^verbatim>\<open>idio_error_runtime_unbound\<close>\<close>
  | Symbol_unbound_error                 \<comment> \<open>\<^verbatim>\<open>idio_module_unbound_error\<close> and its kin\<close>
  | Vm_error string                      \<comment> \<open>\<^verbatim>\<open>idio_vm_error\<close>\<close>
  | Computed_error string                \<comment> \<open>\<^verbatim>\<open>idio_vm_error_computed\<close>\<close>
  | Siglongjmp                           \<comment> \<open>\<^verbatim>\<open>siglongjmp\<close> to the loop of \<^verbatim>\<open>idio_vm_run\<close>\<close>
  | Diverges                             \<comment> \<open>no condition: the C function does not return\<close>
  | Segmentation_fault                   \<comment> \<open>memory outside any allocation is accessed\<close>
  | Process_exit int                     \<comment> \<open>\<^verbatim>\<open>exit\<close>\<close>

type_synonym 'a result = "idio_error + 'a"

definition bind_result :: "'a result \<Rightarrow> ('a \<Rightarrow> 'b result) \<Rightarrow> 'b result" where
  "bind_result r f = (case r of Inl e \<Rightarrow> Inl e | Inr x \<Rightarrow> f x)"

definition map_result :: "('a \<Rightarrow> 'b) \<Rightarrow> 'a result \<Rightarrow> 'b result" where
  "map_result f r = (case r of Inl e \<Rightarrow> Inl e | Inr x \<Rightarrow> Inr (f x))"

lemma bind_result_simps [simp]:
  "bind_result (Inl e) f = Inl e"
  "bind_result (Inr x) f = f x"
  by (simp_all add: bind_result_def)

lemma map_result_simps [simp]:
  "map_result f (Inl e) = Inl e"
  "map_result f (Inr x) = Inr (f x)"
  by (simp_all add: map_result_def)

lemma bind_result_Inr_conv [simp]:
  "bind_result r f = Inr y \<longleftrightarrow> (\<exists>x. r = Inr x \<and> f x = Inr y)"
  by (cases r) simp_all

lemma map_result_Inr_conv [simp]:
  "map_result f r = Inr y \<longleftrightarrow> (\<exists>x. r = Inr x \<and> y = f x)"
  by (cases r) auto

text \<open>
  \<open>fold_result f xs s\<close>: a counted C loop over the values \<open>xs\<close> of its index, that
  ends with the first condition its body raises.
\<close>

fun fold_result :: "('i \<Rightarrow> 's \<Rightarrow> 's result) \<Rightarrow> 'i list \<Rightarrow> 's \<Rightarrow> 's result" where
  "fold_result f [] s = Inr s"
| "fold_result f (i # is) s = bind_result (f i s) (fold_result f is)"

lemma fold_result_append [simp]:
  "fold_result f (is @ js) s = bind_result (fold_result f is s) (fold_result f js)"
proof (induction "is" arbitrary: s)
  case (Cons i "is")
  then show ?case by (cases "f i s") simp_all
qed simp

lemma fold_result_upt:
  assumes "lo \<le> hi" and "\<And>j. lo \<le> j \<Longrightarrow> j < hi \<Longrightarrow> f j (S j) = Inr (S (Suc j))"
  shows "fold_result f [lo..<hi] (S lo) = Inr (S hi)"
  using assms
proof (induction "hi - lo" arbitrary: lo)
  case (Suc d)
  then have "lo < hi" by simp
  then show ?case using Suc.hyps(1) [of "Suc lo"] Suc.hyps(2) Suc.prems by (simp add: upt_conv_Cons)
qed simp

lemma fold_result_downt:
  assumes "\<And>j. j < n \<Longrightarrow> f (Suc j) (S (Suc j)) = Inr (S j)"
  shows "fold_result f (rev [1..<Suc n]) (S n) = Inr (S 0)"
  using assms by (induction n) simp_all

section \<open>Signed C arithmetic\<close>

text \<open>
  \<^verbatim>\<open>intptr_t\<close>, \<^verbatim>\<open>intmax_t\<close> and \<^verbatim>\<open>IDIO_BS_T\<close> are 64 bits wide and \<^verbatim>\<open>IDIO_BE_T\<close>
  is 32. Their values are integers; an operation that may leave the range is
  followed by \<open>wrap64\<close> or \<open>wrap32\<close>, the two's complement wrap-around the compiled
  code shows. \<open>INTPTR_MAX\<close> and \<open>INTPTR_MIN\<close> bound the range.
\<close>

definition INTPTR_MAX :: int where "INTPTR_MAX = 9223372036854775807"
definition INTPTR_MIN :: int where "INTPTR_MIN = - 9223372036854775808"

definition wrap64 :: "int \<Rightarrow> int" where
  "wrap64 i = (i + 9223372036854775808) mod 18446744073709551616 - 9223372036854775808"

definition wrap32 :: "int \<Rightarrow> int" where
  "wrap32 i = (i + 2147483648) mod 4294967296 - 2147483648"

definition in_intptr :: "int \<Rightarrow> bool" where
  "in_intptr i \<longleftrightarrow> INTPTR_MIN \<le> i \<and> i \<le> INTPTR_MAX"

text \<open>
  The range of a fixnum (\<^verbatim>\<open>src/src/gc.h\<close>): \<^verbatim>\<open>intptr_t\<close> shifted right by the two
  type bits.
\<close>

definition FIXNUM_MIN :: int where "FIXNUM_MIN = INTPTR_MIN div 4"
definition FIXNUM_MAX :: int where "FIXNUM_MAX = INTPTR_MAX div 4"

definition in_fixnum :: "int \<Rightarrow> bool" where
  "in_fixnum i \<longleftrightarrow> FIXNUM_MIN \<le> i \<and> i \<le> FIXNUM_MAX"

lemma FIXNUM_bounds: "FIXNUM_MIN = - 2305843009213693952" "FIXNUM_MAX = 2305843009213693951"
  by (simp_all add: FIXNUM_MIN_def FIXNUM_MAX_def INTPTR_MIN_def INTPTR_MAX_def)

lemmas in_fixnum_iff = in_fixnum_def [unfolded FIXNUM_bounds]

lemmas intptr_defs = INTPTR_MAX_def INTPTR_MIN_def in_intptr_def

lemma wrap64_id [simp]: "in_intptr i \<Longrightarrow> wrap64 i = i"
  by (simp add: wrap64_def intptr_defs)

lemma wrap64_0_1 [simp]: "wrap64 0 = 0" "wrap64 1 = 1"
  by (simp_all add: wrap64_def)

lemma wrap64_in_intptr [simp]: "in_intptr (wrap64 i)"
proof -
  have "0 \<le> (i + 9223372036854775808) mod 18446744073709551616"
    and "(i + 9223372036854775808) mod 18446744073709551616 < 18446744073709551616"
    by simp_all
  then show ?thesis by (simp add: wrap64_def intptr_defs del: pos_mod_sign pos_mod_bound)
qed

lemma wrap32_id: "- 2147483648 \<le> i \<Longrightarrow> i \<le> 2147483647 \<Longrightarrow> wrap32 i = i"
  by (simp add: wrap32_def)

text \<open>
  C's \<^verbatim>\<open>/\<close> and \<^verbatim>\<open>%\<close> truncate towards zero: \<open>sdiv\<close> and \<open>smod\<close> of
  \<^theory_text>\<open>HOL-Library.Signed_Division\<close>. On non-negative operands they are \<open>div\<close> and \<open>mod\<close>.
\<close>

lemma sdiv_nonneg [simp]: "0 \<le> a \<Longrightarrow> 0 < b \<Longrightarrow> (a::int) sdiv b = a div b"
  by (cases "a = 0") (simp_all add: signed_divide_int_def)

lemma smod_nonneg [simp]: "0 \<le> a \<Longrightarrow> 0 < b \<Longrightarrow> (a::int) smod b = a mod b"
  by (cases "a = 0") (simp_all add: signed_modulo_int_def)

lemma int_div_less:
  assumes "0 < c" "x < k * c"
  shows "(x::int) div c < k"
proof (rule ccontr)
  assume "\<not> x div c < k"
  then have "k * c \<le> x div c * c" using assms(1) by (intro mult_right_mono) simp_all
  then show False
    using div_mult_mod_eq [of x c] pos_mod_sign [OF assms(1), of x] assms(2) by linarith
qed

lemma int_div_le: "0 \<le> x \<Longrightarrow> 0 < c \<Longrightarrow> (x::int) div c \<le> x"
  using zdiv_mono2 [of x 1 c] by simp

end
