(* ===== verification/Idio_Value.thy ===== *)
theory Idio_Value
  imports Idio_Prelude
begin

text \<open>
  Values as tagged 64-bit words (\<^verbatim>\<open>src/src/gc.h\<close>, \<^verbatim>\<open>src/src/idio.h\<close>): two bits tell
  pointers, fixnums, constants and placeholders apart, three more bits tell the
  kinds of constant apart. The theorems show that the tags keep the values apart,
  so that C's \<^verbatim>\<open>==\<close> on the words is equality of the values they stand for: the other
  theories work with the values.
\<close>

unbundle bit_operations_syntax

section \<open>Values\<close>

text \<open>A pointer stands for the address of an object, a multiple of four.\<close>

datatype idio_value =
    V_fixnum int
  | V_constant int
  | V_token int
  | V_i_code int
  | V_unicode int
  | V_pointer nat

definition IDIO_TYPE_MASK :: "64 word" where "IDIO_TYPE_MASK = 0x3"
definition IDIO_TYPE_CONSTANT_MASK :: "64 word" where "IDIO_TYPE_CONSTANT_MASK = 0x1f"
definition IDIO_TYPE_POINTER_MARK :: "64 word" where "IDIO_TYPE_POINTER_MARK = 0"
definition IDIO_TYPE_FIXNUM_MARK :: "64 word" where "IDIO_TYPE_FIXNUM_MARK = 1"
definition IDIO_TYPE_CONSTANT_MARK :: "64 word" where "IDIO_TYPE_CONSTANT_MARK = 2"

definition constant_mark :: "64 word \<Rightarrow> 64 word" where
  "constant_mark n = push_bit 2 n OR IDIO_TYPE_CONSTANT_MARK"

text \<open>\<^verbatim>\<open>IDIO_FIXNUM\<close> and \<^verbatim>\<open>IDIO_FIXNUM_VAL\<close>: the shift to the right is arithmetic.\<close>

definition IDIO_FIXNUM :: "int \<Rightarrow> 64 word" where
  "IDIO_FIXNUM i = push_bit 2 (word_of_int i) OR IDIO_TYPE_FIXNUM_MARK"

definition IDIO_FIXNUM_VAL :: "64 word \<Rightarrow> int" where
  "IDIO_FIXNUM_VAL w = sint (signed_drop_bit 2 w)"

definition IDIO_TYPE_FIXNUMP :: "64 word \<Rightarrow> bool" where
  "IDIO_TYPE_FIXNUMP w \<longleftrightarrow> w AND IDIO_TYPE_MASK = IDIO_TYPE_FIXNUM_MARK"

definition IDIO_TYPE_POINTERP :: "64 word \<Rightarrow> bool" where
  "IDIO_TYPE_POINTERP w \<longleftrightarrow> w AND IDIO_TYPE_MASK = IDIO_TYPE_POINTER_MARK"

definition IDIO_TYPE_CONSTANTP :: "64 word \<Rightarrow> bool" where
  "IDIO_TYPE_CONSTANTP w \<longleftrightarrow> w AND IDIO_TYPE_MASK = IDIO_TYPE_CONSTANT_MARK"

text \<open>
  \<^verbatim>\<open>IDIO_CONSTANT_IDIO\<close>, \<^verbatim>\<open>IDIO_CONSTANT_TOKEN\<close>, \<^verbatim>\<open>IDIO_CONSTANT_I_CODE\<close> and
  \<^verbatim>\<open>IDIO_UNICODE\<close> are one macro with four marks.
\<close>

definition IDIO_CONSTANT :: "64 word \<Rightarrow> int \<Rightarrow> 64 word" where
  "IDIO_CONSTANT kind i = push_bit 5 (word_of_int i) OR constant_mark kind"

definition IDIO_CONSTANT_VAL :: "64 word \<Rightarrow> int" where
  "IDIO_CONSTANT_VAL w = sint (signed_drop_bit 5 w)"

definition encode_value :: "idio_value \<Rightarrow> 64 word" where
  "encode_value v =
    (case v of
       V_fixnum i \<Rightarrow> IDIO_FIXNUM i
     | V_constant i \<Rightarrow> IDIO_CONSTANT 0 i
     | V_token i \<Rightarrow> IDIO_CONSTANT 1 i
     | V_i_code i \<Rightarrow> IDIO_CONSTANT 2 i
     | V_unicode i \<Rightarrow> IDIO_CONSTANT 3 i
     | V_pointer a \<Rightarrow> word_of_nat a)"

text \<open>
  The tests of the C code in the order of \<^verbatim>\<open>switch ((intptr_t) o & IDIO_TYPE_MASK)\<close>; a
  placeholder and an unused constant mark are no value.
\<close>

definition decode_value :: "64 word \<Rightarrow> idio_value option" where
  "decode_value w =
    (if IDIO_TYPE_POINTERP w then Some (V_pointer (unat w))
     else if IDIO_TYPE_FIXNUMP w then Some (V_fixnum (IDIO_FIXNUM_VAL w))
     else if IDIO_TYPE_CONSTANTP w then
       (let m = w AND IDIO_TYPE_CONSTANT_MASK; i = IDIO_CONSTANT_VAL w in
        if m = constant_mark 0 then Some (V_constant i)
        else if m = constant_mark 1 then Some (V_token i)
        else if m = constant_mark 2 then Some (V_i_code i)
        else if m = constant_mark 3 then Some (V_unicode i)
        else None)
     else None)"

text \<open>The values a word holds: 62 bits for a fixnum, 59 for a constant, aligned pointers.\<close>

definition in_constant :: "int \<Rightarrow> bool" where
  "in_constant i \<longleftrightarrow> - (2 ^ 58) \<le> i \<and> i < 2 ^ 58"

definition value_ok :: "idio_value \<Rightarrow> bool" where
  "value_ok v =
    (case v of
       V_fixnum i \<Rightarrow> in_fixnum i
     | V_constant i \<Rightarrow> in_constant i
     | V_token i \<Rightarrow> in_constant i
     | V_i_code i \<Rightarrow> in_constant i
     | V_unicode i \<Rightarrow> in_constant i
     | V_pointer a \<Rightarrow> a < 2 ^ 64 \<and> 4 dvd a)"

section \<open>The constants the C code names\<close>

abbreviation (input) idio_S_nil where "idio_S_nil \<equiv> V_constant 0"
abbreviation (input) idio_S_undef where "idio_S_undef \<equiv> V_constant 1"
abbreviation (input) idio_S_unspec where "idio_S_unspec \<equiv> V_constant 2"
abbreviation (input) idio_S_true where "idio_S_true \<equiv> V_constant 4"
abbreviation (input) idio_S_false where "idio_S_false \<equiv> V_constant 5"
abbreviation (input) idio_SM_preserve_state where "idio_SM_preserve_state \<equiv> V_constant 20"
abbreviation (input) idio_SM_preserve_all_state where "idio_SM_preserve_all_state \<equiv> V_constant 21"
abbreviation (input) idio_SM_trap where "idio_SM_trap \<equiv> V_constant 22"
abbreviation (input) idio_SM_escaper where "idio_SM_escaper \<equiv> V_constant 23"
abbreviation (input) idio_SM_return where "idio_SM_return \<equiv> V_constant 25"
abbreviation (input) idio_SM_dynamic where "idio_SM_dynamic \<equiv> V_constant 26"
abbreviation (input) idio_SM_environ where "idio_SM_environ \<equiv> V_constant 27"
abbreviation (input) idio_SM_abort where "idio_SM_abort \<equiv> V_constant 28"

section \<open>The tags keep the values apart\<close>

text \<open>A word shifted to the left by \<open>n\<close> with a mark of \<open>n\<close> bits: both parts can be read back.\<close>

lemma shifted_mark:
  fixes x m :: "64 word"
  assumes "\<And>k. bit m k \<Longrightarrow> k < n" "n < 64"
  shows "(push_bit n x OR m) AND mask n = m"
    "signed_drop_bit n (push_bit n x OR m) = signed_drop_bit n (push_bit n x)"
proof -
  show "(push_bit n x OR m) AND mask n = m"
    using assms by (auto intro!: bit_word_eqI simp: bit_simps)
  have m: "\<not> bit m k" if "n \<le> k" for k using assms(1) [of k] that by auto
  have "\<not> bit m 63" "\<not> bit m (n + k)" for k using m assms(2) by simp_all
  then show "signed_drop_bit n (push_bit n x OR m) = signed_drop_bit n (push_bit n x)"
    by (intro bit_word_eqI) (simp add: bit_simps)
qed

lemma shifted_value:
  assumes "n < 64" "- (2 ^ (63 - n)) \<le> i" "i < 2 ^ (63 - n)"
  shows "sint (signed_drop_bit n (push_bit n (word_of_int i) :: 64 word)) = i"
proof -
  have s: "signed_take_bit 63 (i * 2 ^ n) = i * 2 ^ n"
  proof (rule signed_take_bit_int_eq_self)
    have p: "2 ^ (63 - n) * 2 ^ n = (2 ^ 63 :: int)" using assms(1) by (simp add: power_add [symmetric])
    have "- (2 ^ (63 - n)) * 2 ^ n \<le> i * 2 ^ n" using assms(2) by (rule mult_right_mono) simp
    then show "- (2 ^ 63) \<le> i * 2 ^ n" by (simp only: minus_mult_left [symmetric] p)
    have "i * 2 ^ n < 2 ^ (63 - n) * 2 ^ n" using assms(3) by simp
    then show "i * 2 ^ n < 2 ^ 63" by (simp only: p)
  qed
  have "push_bit n (word_of_int i) = (word_of_int (i * 2 ^ n) :: 64 word)"
    by (simp add: push_bit_eq_mult)
  moreover have "sint (word_of_int (i * 2 ^ n) :: 64 word) = i * 2 ^ n"
    using s unfolding signed_of_int by simp
  ultimately have "sint (signed_drop_bit n (push_bit n (word_of_int i) :: 64 word)) = drop_bit n (i * 2 ^ n)"
    by (simp only: sint_signed_drop_bit_eq)
  then show ?thesis by (simp add: drop_bit_eq_div)
qed

lemma small_mark:
  fixes m :: "64 word"
  assumes "m AND mask n = m"
  shows "bit m k \<Longrightarrow> k < n"
proof -
  assume "bit m k"
  then have "bit (m AND mask n) k" using assms by simp
  then show "k < n" by (simp add: bit_simps)
qed

lemma fixnum_tag:
  "IDIO_TYPE_FIXNUMP (IDIO_FIXNUM i)" "\<not> IDIO_TYPE_POINTERP (IDIO_FIXNUM i)"
  "in_fixnum i \<Longrightarrow> IDIO_FIXNUM_VAL (IDIO_FIXNUM i) = i"
proof -
  have m: "bit (1 :: 64 word) k \<Longrightarrow> k < 2" for k by (simp add: bit_1_iff)
  have "IDIO_FIXNUM i AND IDIO_TYPE_MASK = IDIO_TYPE_FIXNUM_MARK"
    using shifted_mark(1) [of 1 2 "word_of_int i", OF m]
    by (simp add: IDIO_FIXNUM_def IDIO_TYPE_MASK_def IDIO_TYPE_FIXNUM_MARK_def mask_eq_exp_minus_1)
  then show "IDIO_TYPE_FIXNUMP (IDIO_FIXNUM i)" "\<not> IDIO_TYPE_POINTERP (IDIO_FIXNUM i)"
    by (simp_all add: IDIO_TYPE_FIXNUMP_def IDIO_TYPE_POINTERP_def IDIO_TYPE_FIXNUM_MARK_def IDIO_TYPE_POINTER_MARK_def)
  show "IDIO_FIXNUM_VAL (IDIO_FIXNUM i) = i" if "in_fixnum i"
    using that shifted_value [of 2 i] shifted_mark(2) [of 1 2 "word_of_int i", OF m]
    by (simp add: IDIO_FIXNUM_VAL_def IDIO_FIXNUM_def IDIO_TYPE_FIXNUM_MARK_def in_fixnum_iff)
qed

lemma constant_tag:
  assumes "kind \<in> {0, 1, 2, 3}"
  shows "IDIO_TYPE_CONSTANTP (IDIO_CONSTANT kind i)" "\<not> IDIO_TYPE_FIXNUMP (IDIO_CONSTANT kind i)"
    "\<not> IDIO_TYPE_POINTERP (IDIO_CONSTANT kind i)"
    "IDIO_CONSTANT kind i AND IDIO_TYPE_CONSTANT_MASK = constant_mark kind"
    "in_constant i \<Longrightarrow> IDIO_CONSTANT_VAL (IDIO_CONSTANT kind i) = i"
proof -
  have c: "constant_mark kind AND mask 5 = constant_mark kind" "constant_mark kind AND 3 = 2"
    using assms by (auto simp: constant_mark_def IDIO_TYPE_CONSTANT_MARK_def mask_eq_exp_minus_1)
  note m = small_mark [OF c(1)]
  show k: "IDIO_CONSTANT kind i AND IDIO_TYPE_CONSTANT_MASK = constant_mark kind"
    using shifted_mark(1) [of "constant_mark kind" 5 "word_of_int i", OF m]
    by (simp add: IDIO_CONSTANT_def IDIO_TYPE_CONSTANT_MASK_def mask_eq_exp_minus_1)
  have "IDIO_TYPE_MASK = IDIO_TYPE_CONSTANT_MASK AND IDIO_TYPE_MASK"
    by (simp add: IDIO_TYPE_MASK_def IDIO_TYPE_CONSTANT_MASK_def)
  then have "IDIO_CONSTANT kind i AND IDIO_TYPE_MASK = constant_mark kind AND IDIO_TYPE_MASK"
    by (metis k and.assoc)
  then have "IDIO_CONSTANT kind i AND IDIO_TYPE_MASK = 2" using c(2) by (simp add: IDIO_TYPE_MASK_def)
  then show "IDIO_TYPE_CONSTANTP (IDIO_CONSTANT kind i)" "\<not> IDIO_TYPE_FIXNUMP (IDIO_CONSTANT kind i)"
    "\<not> IDIO_TYPE_POINTERP (IDIO_CONSTANT kind i)"
    by (simp_all add: IDIO_TYPE_CONSTANTP_def IDIO_TYPE_FIXNUMP_def IDIO_TYPE_POINTERP_def
        IDIO_TYPE_CONSTANT_MARK_def IDIO_TYPE_FIXNUM_MARK_def IDIO_TYPE_POINTER_MARK_def)
  show "IDIO_CONSTANT_VAL (IDIO_CONSTANT kind i) = i" if "in_constant i"
    using that shifted_value [of 5 i] shifted_mark(2) [of "constant_mark kind" 5 "word_of_int i", OF m]
    by (simp add: IDIO_CONSTANT_VAL_def IDIO_CONSTANT_def in_constant_def)
qed

lemma pointer_tag:
  assumes "a < 2 ^ 64" "4 dvd a"
  shows "IDIO_TYPE_POINTERP (word_of_nat a)" "unat (word_of_nat a :: 64 word) = a"
proof -
  have "(word_of_nat a :: 64 word) AND mask 2 = word_of_nat (take_bit 2 a)"
    by (simp add: take_bit_eq_mask [symmetric] take_bit_of_nat)
  then show "IDIO_TYPE_POINTERP (word_of_nat a)"
    using assms(2) by (simp add: IDIO_TYPE_POINTERP_def IDIO_TYPE_MASK_def IDIO_TYPE_POINTER_MARK_def
        mask_eq_exp_minus_1 take_bit_eq_mod)
  show "unat (word_of_nat a :: 64 word) = a"
    using assms(1) by (simp add: unsigned_of_nat take_bit_nat_eq_self)
qed

lemma constant_marks_differ:
  "constant_mark 0 = 2" "constant_mark 1 = 6" "constant_mark 2 = 10" "constant_mark 3 = 14"
  by (simp_all add: constant_mark_def IDIO_TYPE_CONSTANT_MARK_def)

theorem decode_encode: "value_ok v \<Longrightarrow> decode_value (encode_value v) = Some v"
  by (cases v)
    (simp_all add: encode_value_def decode_value_def value_ok_def fixnum_tag constant_tag pointer_tag constant_marks_differ Let_def)

text \<open>C's \<^verbatim>\<open>==\<close> on two words is equality of the values.\<close>

theorem encode_inject: "value_ok v \<Longrightarrow> value_ok w \<Longrightarrow> encode_value v = encode_value w \<longleftrightarrow> v = w"
  using decode_encode by (metis option.inject)

end
