(* ===== verification/Byte_Code.thy ===== *)
theory Byte_Code
  imports Idio_Value
begin

text \<open>
  Instruction arrays and the integers in them: the buffers of
  \<^verbatim>\<open>src/src/codegen.c\<close> and the variable-length (SQLite4) and fixed-length
  encodings it writes, with the functions of \<^verbatim>\<open>src/src/vm.c\<close> that read them back.
\<close>

unbundle bit_operations_syntax

type_synonym byte = "8 word"

section \<open>Instruction arrays\<close>

text \<open>
  \<open>ia_ae\<close> holds the used bytes, \<open>ia_asize\<close> is the allocated size: a byte written
  beyond it is not in any allocation.
\<close>

record idio_ia =
  ia_asize :: nat
  ia_ae :: "byte list"

definition ia_usize :: "idio_ia \<Rightarrow> nat" where
  "ia_usize ia = length (ia_ae ia)"

definition idio_ia_new :: "nat \<Rightarrow> idio_ia" where
  "idio_ia_new asize = \<lparr>ia_asize = (if asize = 0 then 100 else asize), ia_ae = []\<rparr>"

definition idio_ia_resize_by :: "idio_ia \<Rightarrow> nat \<Rightarrow> idio_ia" where
  "idio_ia_resize_by ia n = ia\<lparr>ia_asize := ia_asize ia + n\<rparr>"

definition idio_ia_resize :: "idio_ia \<Rightarrow> idio_ia" where
  "idio_ia_resize ia = idio_ia_resize_by ia (ia_asize ia div 2)"

text \<open>One store at the index \<^verbatim>\<open>usize\<close>, that is then incremented.\<close>

definition ia_store :: "idio_ia \<Rightarrow> byte \<Rightarrow> idio_ia result" where
  "ia_store ia b =
    (if ia_usize ia < ia_asize ia then Inr (ia\<lparr>ia_ae := ia_ae ia @ [b]\<rparr>) else Inl Segmentation_fault)"

definition idio_ia_push :: "idio_ia \<Rightarrow> byte \<Rightarrow> idio_ia result" where
  "idio_ia_push ia b = ia_store (if ia_asize ia \<le> ia_usize ia then idio_ia_resize ia else ia) b"

definition idio_ia_append :: "idio_ia \<Rightarrow> idio_ia option \<Rightarrow> idio_ia result" where
  "idio_ia_append ia1 ia2 =
    (case ia2 of None \<Rightarrow> Inr ia1
     | Some ia2 \<Rightarrow>
        fold_result (\<lambda>b ia. ia_store ia b) (ia_ae ia2)
          (if ia_asize ia1 - ia_usize ia1 < ia_usize ia2 then idio_ia_resize_by ia1 (ia_usize ia2) else ia1))"

definition idio_ia_copy :: "idio_ia \<Rightarrow> idio_ia \<Rightarrow> idio_ia" where
  "idio_ia_copy iad ias =
    (if ia_asize iad < ia_usize ias then idio_ia_resize_by iad (ia_usize ias - ia_asize iad) else iad)
      \<lparr>ia_ae := ia_ae ias\<rparr>"

text \<open>
  The buffers hold what was pushed. A buffer of at least two bytes never overflows;
  one of a single byte does at the second push, since half of one is nothing.
\<close>

definition ia_ok :: "idio_ia \<Rightarrow> bool" where
  "ia_ok ia \<longleftrightarrow> 2 \<le> ia_asize ia \<and> ia_usize ia \<le> ia_asize ia"

lemma ia_push_ok:
  assumes "ia_ok ia"
  obtains ia' where "idio_ia_push ia b = Inr ia'" "ia_ok ia'" "ia_ae ia' = ia_ae ia @ [b]"
proof -
  let ?ia = "if ia_asize ia \<le> ia_usize ia then idio_ia_resize ia else ia"
  have r: "ia_usize ?ia < ia_asize ?ia" "ia_ae ?ia = ia_ae ia" "2 \<le> ia_asize ?ia"
    using assms by (auto simp: idio_ia_resize_def idio_ia_resize_by_def ia_usize_def ia_ok_def)
  have "idio_ia_push ia b = Inr (?ia\<lparr>ia_ae := ia_ae ia @ [b]\<rparr>)"
    unfolding idio_ia_push_def ia_store_def if_P [OF r(1)] r(2) ..
  moreover have "ia_ok (?ia\<lparr>ia_ae := ia_ae ia @ [b]\<rparr>)" using r by (simp add: ia_ok_def ia_usize_def)
  ultimately show thesis using that by simp
qed

lemma fold_store:
  assumes "ia_usize ia + length bs \<le> ia_asize ia"
  shows "fold_result (\<lambda>b ia. ia_store ia b) bs ia = Inr (ia\<lparr>ia_ae := ia_ae ia @ bs\<rparr>)"
  using assms by (induction bs arbitrary: ia) (simp_all add: ia_store_def ia_usize_def)

lemma ia_append_ok:
  assumes "ia_ok ia" "ia_ok ia2"
  obtains ia' where "idio_ia_append ia (Some ia2) = Inr ia'" "ia_ok ia'" "ia_ae ia' = ia_ae ia @ ia_ae ia2"
proof -
  let ?ia = "if ia_asize ia - ia_usize ia < ia_usize ia2 then idio_ia_resize_by ia (ia_usize ia2) else ia"
  have r: "ia_usize ?ia + length (ia_ae ia2) \<le> ia_asize ?ia" "ia_ae ?ia = ia_ae ia" "2 \<le> ia_asize ?ia"
    using assms by (auto simp: idio_ia_resize_by_def ia_usize_def ia_ok_def)
  have "idio_ia_append ia (Some ia2) = Inr (?ia\<lparr>ia_ae := ia_ae ia @ ia_ae ia2\<rparr>)"
    using fold_store [OF r(1)] r(2) by (simp add: idio_ia_append_def)
  moreover have "ia_ok (?ia\<lparr>ia_ae := ia_ae ia @ ia_ae ia2\<rparr>)"
    using r by (simp add: ia_ok_def ia_usize_def)
  ultimately show thesis using that by simp
qed

lemma single_byte_overflow:
  "idio_ia_push \<lparr>ia_asize = 1, ia_ae = [b]\<rparr> b' = Inl Segmentation_fault"
  by (simp add: idio_ia_push_def idio_ia_resize_def idio_ia_resize_by_def ia_store_def ia_usize_def)

section \<open>Integers in the byte code\<close>

text \<open>A value stored into a byte keeps its low eight bits.\<close>

definition IDIO_I :: "nat \<Rightarrow> byte" where
  "IDIO_I n = word_of_nat n"

text \<open>The loop that stores the bytes of a number from the last to the first.\<close>

fun be_bytes :: "nat \<Rightarrow> nat \<Rightarrow> byte list" where
  "be_bytes 0 off = []"
| "be_bytes (Suc n) off = be_bytes n (off div 256) @ [IDIO_I (off mod 256)]"

definition IDIO_IA_VARUINT_1BYTE :: nat where "IDIO_IA_VARUINT_1BYTE = 240"
definition IDIO_IA_VARUINT_2BYTES :: nat where "IDIO_IA_VARUINT_2BYTES = 2287"
definition IDIO_IA_VARUINT_3BYTES :: nat where "IDIO_IA_VARUINT_3BYTES = 67823"

definition idio_ia_compute_varuint :: "nat \<Rightarrow> byte list" where
  "idio_ia_compute_varuint offset =
    (if offset \<le> IDIO_IA_VARUINT_1BYTE then [IDIO_I offset]
     else if offset \<le> IDIO_IA_VARUINT_2BYTES
     then [IDIO_I ((offset - 240) div 256 + 241), IDIO_I ((offset - 240) mod 256)]
     else if offset \<le> IDIO_IA_VARUINT_3BYTES
     then [IDIO_I 249, IDIO_I ((offset - 2288) div 256), IDIO_I ((offset - 2288) mod 256)]
     else if offset \<le> 16777215 then IDIO_I 250 # be_bytes 3 offset
     else if offset \<le> 4294967295 then IDIO_I 251 # be_bytes 4 offset
     else if offset \<le> 1099511627775 then IDIO_I 252 # be_bytes 5 offset
     else if offset \<le> 281474976710655 then IDIO_I 253 # be_bytes 6 offset
     else if offset \<le> 72057594037927935 then IDIO_I 254 # be_bytes 7 offset
     else IDIO_I 255 # be_bytes 8 offset)"

text \<open>
  The check that nothing is left of the number is an assertion the release build
  does not have.
\<close>

definition idio_ia_compute_fixuint :: "nat \<Rightarrow> nat \<Rightarrow> byte list" where
  "idio_ia_compute_fixuint n offset = be_bytes n offset"

definition idio_ia_compute_8uint :: "nat \<Rightarrow> byte list" where
  "idio_ia_compute_8uint offset = idio_ia_compute_fixuint 1 offset"

definition idio_ia_compute_16uint :: "nat \<Rightarrow> byte list" where
  "idio_ia_compute_16uint offset = idio_ia_compute_fixuint 2 offset"

definition idio_ia_compute_32uint :: "nat \<Rightarrow> byte list" where
  "idio_ia_compute_32uint offset = idio_ia_compute_fixuint 4 offset"

definition idio_ia_compute_64uint :: "nat \<Rightarrow> byte list" where
  "idio_ia_compute_64uint offset = idio_ia_compute_fixuint 8 offset"

section \<open>Reading them back\<close>

text \<open>A reader takes the code and the program counter and returns the new one.\<close>

type_synonym 'a reader = "byte list \<Rightarrow> nat \<Rightarrow> ('a \<times> nat) result"

definition IDIO_IA_GET_NEXT :: "nat reader" where
  "IDIO_IA_GET_NEXT bc pc = (if pc < length bc then Inr (unat (bc ! pc), pc + 1) else Inl Segmentation_fault)"

text \<open>The loop \<^verbatim>\<open>r <<= 8; r |= byte\<close> on 64 bits.\<close>

fun get_bytes :: "nat \<Rightarrow> nat \<Rightarrow> nat reader" where
  "get_bytes 0 r bc pc = Inr (r, pc)"
| "get_bytes (Suc n) r bc pc =
    bind_result (IDIO_IA_GET_NEXT bc pc) (\<lambda>(b, pc).
      get_bytes n (r * 256 mod 18446744073709551616 + b) bc pc)"

definition idio_vm_get_varuint :: "nat reader" where
  "idio_vm_get_varuint bc pc =
    bind_result (IDIO_IA_GET_NEXT bc pc) (\<lambda>(i, pc).
      if i \<le> 240 then Inr (i, pc)
      else if i \<le> 248 then
        bind_result (IDIO_IA_GET_NEXT bc pc) (\<lambda>(j, pc). Inr (240 + 256 * (i - 241) + j, pc))
      else if i = 249 then
        bind_result (IDIO_IA_GET_NEXT bc pc) (\<lambda>(j, pc).
        bind_result (IDIO_IA_GET_NEXT bc pc) (\<lambda>(k, pc). Inr (2288 + 256 * j + k, pc)))
      else get_bytes (i - 250 + 3) 0 bc pc)"

definition idio_vm_get_fixuint :: "nat \<Rightarrow> nat reader" where
  "idio_vm_get_fixuint n bc pc = get_bytes n 0 bc pc"

definition idio_vm_get_8uint :: "nat reader" where "idio_vm_get_8uint = idio_vm_get_fixuint 1"
definition idio_vm_get_16uint :: "nat reader" where "idio_vm_get_16uint = idio_vm_get_fixuint 2"
definition idio_vm_get_32uint :: "nat reader" where "idio_vm_get_32uint = idio_vm_get_fixuint 4"
definition idio_vm_get_64uint :: "nat reader" where "idio_vm_get_64uint = idio_vm_get_fixuint 8"

section \<open>Round trips\<close>

text \<open>\<open>reads r bs x\<close>: wherever the bytes \<open>bs\<close> stand in the code, \<open>r\<close> reads \<open>x\<close> and steps over them.\<close>

definition reads :: "'a reader \<Rightarrow> byte list \<Rightarrow> 'a \<Rightarrow> bool" where
  "reads r bs x \<longleftrightarrow> (\<forall>pre post. r (pre @ bs @ post) (length pre) = Inr (x, length pre + length bs))"

lemma readsI:
  "(\<And>pre post. r (pre @ bs @ post) (length pre) = Inr (x, length pre + length bs)) \<Longrightarrow> reads r bs x"
  by (simp add: reads_def)

lemma readsD:
  "reads r bs x \<Longrightarrow> r (pre @ bs @ post) (length pre) = Inr (x, length pre + length bs)"
  by (simp add: reads_def)

text \<open>The same where the code is given by the bytes from the program counter on.\<close>

lemma readsD_at:
  assumes "reads r bs x" "take (length bs) (drop pc bc) = bs" "pc \<le> length bc"
  shows "r bc pc = Inr (x, pc + length bs)"
proof -
  have "bc = take pc bc @ bs @ drop (length bs) (drop pc bc)"
    by (metis append_take_drop_id assms(2))
  then show ?thesis using readsD [OF assms(1), of "take pc bc" "drop (length bs) (drop pc bc)"] assms(3)
    by (metis length_take min.absorb2)
qed

text \<open>Reading in sequence.\<close>

lemma reads_bind:
  assumes "reads r bs x" "reads (f x) cs y"
  shows "reads (\<lambda>bc pc. bind_result (r bc pc) (\<lambda>(x, pc). f x bc pc)) (bs @ cs) y"
proof (rule readsI)
  fix pre post
  have "r (pre @ (bs @ cs) @ post) (length pre) = Inr (x, length pre + length bs)"
    using readsD [OF assms(1), of pre "cs @ post"] by simp
  moreover have "f x (pre @ (bs @ cs) @ post) (length pre + length bs) = Inr (y, length pre + length (bs @ cs))"
    using readsD [OF assms(2), of "pre @ bs" post] by simp
  ultimately show "bind_result (r (pre @ (bs @ cs) @ post) (length pre)) (\<lambda>(x, pc). f x (pre @ (bs @ cs) @ post) pc) =
    Inr (y, length pre + length (bs @ cs))" by simp
qed

lemma reads_map:
  assumes "reads r bs x"
  shows "reads (\<lambda>bc pc. bind_result (r bc pc) (\<lambda>(x, pc). Inr (h x, pc))) bs (h x)"
  using assms by (simp add: reads_def)

lemma get_next: "reads IDIO_IA_GET_NEXT [b] (unat b)"
  by (simp add: reads_def IDIO_IA_GET_NEXT_def nth_append)

lemma unat_IDIO_I [simp]: "n < 256 \<Longrightarrow> unat (IDIO_I n) = n"
  by (simp add: IDIO_I_def unsigned_of_nat take_bit_nat_eq_self)

lemma length_be_bytes [simp]: "length (be_bytes n off) = n"
  by (induction n arbitrary: off) simp_all

text \<open>What a loop over the bytes leaves in the 64-bit accumulator.\<close>

definition be_value :: "nat \<Rightarrow> byte list \<Rightarrow> nat" where
  "be_value r bs = fold (\<lambda>b r. r * 256 mod 18446744073709551616 + unat b) bs r"

lemma get_bytes_reads: "reads (get_bytes (length bs) r) bs (be_value r bs)"
proof (induction bs arbitrary: r)
  case Nil
  then show ?case by (simp add: reads_def be_value_def)
next
  case (Cons b bs)
  have "reads (\<lambda>bc pc. bind_result (IDIO_IA_GET_NEXT bc pc) (\<lambda>(b, pc).
      get_bytes (length bs) (r * 256 mod 18446744073709551616 + b) bc pc)) ([b] @ bs) (be_value r (b # bs))"
    by (rule reads_bind [OF get_next]) (use Cons.IH in \<open>simp add: be_value_def\<close>)
  then show ?case by (simp add: reads_def)
qed

lemma be_value_be_bytes: "n \<le> 8 \<Longrightarrow> be_value 0 (be_bytes n off) = off mod 256 ^ n"
proof (induction n arbitrary: off)
  case (Suc n)
  have p: "(256::nat) ^ n * 256 \<le> 18446744073709551616"
  proof -
    have "(256::nat) ^ Suc n \<le> 256 ^ 8" using Suc.prems by (intro power_increasing) simp_all
    then show ?thesis by (simp add: mult.commute)
  qed
  have "off div 256 mod 256 ^ n * 256 < 18446744073709551616"
    using p mod_less_divisor [of "256 ^ n" "off div 256"] by (meson less_le_trans mult_less_mono1 zero_less_numeral zero_less_power)
  then have "be_value 0 (be_bytes (Suc n) off) = off div 256 mod 256 ^ n * 256 + off mod 256"
    using Suc by (simp add: be_value_def)
  also have "\<dots> = off mod 256 ^ Suc n" by (simp add: mod_mult2_eq mult.commute)
  finally show ?case .
qed (simp add: be_value_def)

lemma be_bytes_reads: "n \<le> 8 \<Longrightarrow> reads (get_bytes n 0) (be_bytes n off) (off mod 256 ^ n)"
  using get_bytes_reads [of "be_bytes n off" 0] be_value_be_bytes [of n off] by simp

theorem fixuint_roundtrip:
  "n \<le> 8 \<Longrightarrow> reads (idio_vm_get_fixuint n) (idio_ia_compute_fixuint n off) (off mod 256 ^ n)"
  using be_bytes_reads by (simp add: idio_vm_get_fixuint_def [abs_def] idio_ia_compute_fixuint_def reads_def)

lemma uint16_roundtrip:
  "reads idio_vm_get_16uint (idio_ia_compute_16uint off) (off mod 65536)"
  using fixuint_roundtrip [of 2 off] by (simp add: idio_vm_get_16uint_def idio_ia_compute_16uint_def)

text \<open>The branches of the variable-length reader.\<close>

lemma varuint_1: "n \<le> 240 \<Longrightarrow> reads idio_vm_get_varuint [IDIO_I n] n"
  using readsD [OF get_next [of "IDIO_I n"]] by (intro readsI) (simp add: idio_vm_get_varuint_def)

lemma varuint_2:
  assumes "240 < n" "n \<le> 2287"
  shows "reads idio_vm_get_varuint [IDIO_I ((n - 240) div 256 + 241), IDIO_I ((n - 240) mod 256)] n"
proof (rule readsI)
  fix pre post
  let ?q = "(n - 240) div 256" and ?r = "(n - 240) mod 256"
  have q: "?q \<le> 7" using assms by (simp add: div_le_mono [of "n - 240" 2047 256, simplified])
  have "?q * 256 + ?r = n - 240" by (rule div_mult_mod_eq)
  then have "240 + 256 * ?q + ?r = n" using assms(1) by simp
  then show "idio_vm_get_varuint (pre @ [IDIO_I (?q + 241), IDIO_I ?r] @ post) (length pre) =
      Inr (n, length pre + length [IDIO_I (?q + 241), IDIO_I ?r])"
    using q readsD [OF get_next [of "IDIO_I (?q + 241)"], of pre "IDIO_I ?r # post"]
      readsD [OF get_next [of "IDIO_I ?r"], of "pre @ [IDIO_I (?q + 241)]" post]
    by (simp add: idio_vm_get_varuint_def)
qed

lemma varuint_3:
  assumes "2287 < n" "n \<le> 67823"
  shows "reads idio_vm_get_varuint [IDIO_I 249, IDIO_I ((n - 2288) div 256), IDIO_I ((n - 2288) mod 256)] n"
proof (rule readsI)
  fix pre post
  let ?q = "(n - 2288) div 256" and ?r = "(n - 2288) mod 256"
  have q: "?q \<le> 255" using assms by (simp add: div_le_mono [of "n - 2288" 65535 256, simplified])
  have "?q * 256 + ?r = n - 2288" by (rule div_mult_mod_eq)
  then have "2288 + 256 * ?q + ?r = n" using assms(1) by simp
  then show "idio_vm_get_varuint (pre @ [IDIO_I 249, IDIO_I ?q, IDIO_I ?r] @ post) (length pre) =
      Inr (n, length pre + length [IDIO_I 249, IDIO_I ?q, IDIO_I ?r])"
    using q readsD [OF get_next [of "IDIO_I 249"], of pre "IDIO_I ?q # IDIO_I ?r # post"]
      readsD [OF get_next [of "IDIO_I ?q"], of "pre @ [IDIO_I 249]" "IDIO_I ?r # post"]
      readsD [OF get_next [of "IDIO_I ?r"], of "pre @ [IDIO_I 249, IDIO_I ?q]" post]
    by (simp add: idio_vm_get_varuint_def)
qed

lemma varuint_n:
  assumes "3 \<le> k" "k \<le> 8" "n < 256 ^ k"
  shows "reads idio_vm_get_varuint (IDIO_I (k + 247) # be_bytes k n) n"
proof (rule readsI)
  fix pre post
  have "get_bytes k 0 ((pre @ [IDIO_I (k + 247)]) @ be_bytes k n @ post) (length (pre @ [IDIO_I (k + 247)])) =
      Inr (n, length (pre @ [IDIO_I (k + 247)]) + k)"
    using readsD [OF be_bytes_reads [OF assms(2), of n], of "pre @ [IDIO_I (k + 247)]" post] assms(3) by simp
  then show "idio_vm_get_varuint (pre @ (IDIO_I (k + 247) # be_bytes k n) @ post) (length pre) =
      Inr (n, length pre + length (IDIO_I (k + 247) # be_bytes k n))"
    using assms(1,2) readsD [OF get_next [of "IDIO_I (k + 247)"], of pre "be_bytes k n @ post"]
    by (simp add: idio_vm_get_varuint_def)
qed

theorem varuint_roundtrip:
  assumes "n < 2 ^ 64"
  shows "reads idio_vm_get_varuint (idio_ia_compute_varuint n) n"
proof -
  note defs = idio_ia_compute_varuint_def IDIO_IA_VARUINT_1BYTE_def IDIO_IA_VARUINT_2BYTES_def
    IDIO_IA_VARUINT_3BYTES_def
  consider "n \<le> 240" | "240 < n" "n \<le> 2287" | "2287 < n" "n \<le> 67823" | "67823 < n" "n \<le> 16777215"
    | "16777215 < n" "n \<le> 4294967295" | "4294967295 < n" "n \<le> 1099511627775"
    | "1099511627775 < n" "n \<le> 281474976710655" | "281474976710655 < n" "n \<le> 72057594037927935"
    | "72057594037927935 < n" by linarith
  then show ?thesis
  proof cases
    case 1 then show ?thesis using varuint_1 by (simp add: defs)
  next
    case 2 then show ?thesis using varuint_2 by (simp add: defs)
  next
    case 3 then show ?thesis using varuint_3 by (simp add: defs)
  next
    case 4 then show ?thesis using varuint_n [of 3 n] by (simp add: defs del: be_bytes.simps)
  next
    case 5 then show ?thesis using varuint_n [of 4 n] by (simp add: defs del: be_bytes.simps)
  next
    case 6 then show ?thesis using varuint_n [of 5 n] by (simp add: defs del: be_bytes.simps)
  next
    case 7 then show ?thesis using varuint_n [of 6 n] by (simp add: defs del: be_bytes.simps)
  next
    case 8 then show ?thesis using varuint_n [of 7 n] by (simp add: defs del: be_bytes.simps)
  next
    case 9 then show ?thesis using varuint_n [of 8 n] assms by (simp add: defs del: be_bytes.simps)
  qed
qed

lemma varuint_length: "1 \<le> length (idio_ia_compute_varuint n)" "length (idio_ia_compute_varuint n) \<le> 9"
  by (simp_all add: idio_ia_compute_varuint_def del: be_bytes.simps)

lemma varuint_length_1:
  "n \<le> IDIO_IA_VARUINT_1BYTE \<Longrightarrow> idio_ia_compute_varuint n = [IDIO_I n]"
  by (simp add: idio_ia_compute_varuint_def)

end
