(* ===== verification/Vm_Asm.thy ===== *)
theory Vm_Asm
  imports Byte_Code
begin

text \<open>
  The VM's instructions (\<^verbatim>\<open>src/src/vm-asm.h\<close>): an opcode and operands, each of which is
  a variable-length integer, a 16-bit reference or a byte. The formats are those that
  \<^verbatim>\<open>idio_vm_run1\<close> reads.
\<close>

section \<open>Opcodes\<close>

abbreviation (input) IDIO_A_SHALLOW_ARGUMENT_REF0 :: nat where "IDIO_A_SHALLOW_ARGUMENT_REF0 \<equiv> 0"
abbreviation (input) IDIO_A_SHALLOW_ARGUMENT_REF1 :: nat where "IDIO_A_SHALLOW_ARGUMENT_REF1 \<equiv> 1"
abbreviation (input) IDIO_A_SHALLOW_ARGUMENT_REF2 :: nat where "IDIO_A_SHALLOW_ARGUMENT_REF2 \<equiv> 2"
abbreviation (input) IDIO_A_SHALLOW_ARGUMENT_REF3 :: nat where "IDIO_A_SHALLOW_ARGUMENT_REF3 \<equiv> 3"
abbreviation (input) IDIO_A_SHALLOW_ARGUMENT_REF :: nat where "IDIO_A_SHALLOW_ARGUMENT_REF \<equiv> 4"
abbreviation (input) IDIO_A_DEEP_ARGUMENT_REF :: nat where "IDIO_A_DEEP_ARGUMENT_REF \<equiv> 5"
abbreviation (input) IDIO_A_SHALLOW_ARGUMENT_SET0 :: nat where "IDIO_A_SHALLOW_ARGUMENT_SET0 \<equiv> 6"
abbreviation (input) IDIO_A_SHALLOW_ARGUMENT_SET1 :: nat where "IDIO_A_SHALLOW_ARGUMENT_SET1 \<equiv> 7"
abbreviation (input) IDIO_A_SHALLOW_ARGUMENT_SET2 :: nat where "IDIO_A_SHALLOW_ARGUMENT_SET2 \<equiv> 8"
abbreviation (input) IDIO_A_SHALLOW_ARGUMENT_SET3 :: nat where "IDIO_A_SHALLOW_ARGUMENT_SET3 \<equiv> 9"
abbreviation (input) IDIO_A_SHALLOW_ARGUMENT_SET :: nat where "IDIO_A_SHALLOW_ARGUMENT_SET \<equiv> 10"
abbreviation (input) IDIO_A_DEEP_ARGUMENT_SET :: nat where "IDIO_A_DEEP_ARGUMENT_SET \<equiv> 11"
abbreviation (input) IDIO_A_SYM_REF :: nat where "IDIO_A_SYM_REF \<equiv> 12"
abbreviation (input) IDIO_A_FUNCTION_SYM_REF :: nat where "IDIO_A_FUNCTION_SYM_REF \<equiv> 13"
abbreviation (input) IDIO_A_CONSTANT_REF :: nat where "IDIO_A_CONSTANT_REF \<equiv> 14"
abbreviation (input) IDIO_A_COMPUTED_SYM_REF :: nat where "IDIO_A_COMPUTED_SYM_REF \<equiv> 15"
abbreviation (input) IDIO_A_SYM_DEF :: nat where "IDIO_A_SYM_DEF \<equiv> 16"
abbreviation (input) IDIO_A_SYM_SET :: nat where "IDIO_A_SYM_SET \<equiv> 17"
abbreviation (input) IDIO_A_COMPUTED_SYM_SET :: nat where "IDIO_A_COMPUTED_SYM_SET \<equiv> 18"
abbreviation (input) IDIO_A_COMPUTED_SYM_DEF :: nat where "IDIO_A_COMPUTED_SYM_DEF \<equiv> 19"
abbreviation (input) IDIO_A_VAL_SET :: nat where "IDIO_A_VAL_SET \<equiv> 20"
abbreviation (input) IDIO_A_PREDEFINED0 :: nat where "IDIO_A_PREDEFINED0 \<equiv> 21"
abbreviation (input) IDIO_A_PREDEFINED1 :: nat where "IDIO_A_PREDEFINED1 \<equiv> 22"
abbreviation (input) IDIO_A_PREDEFINED2 :: nat where "IDIO_A_PREDEFINED2 \<equiv> 23"
abbreviation (input) IDIO_A_PREDEFINED3 :: nat where "IDIO_A_PREDEFINED3 \<equiv> 24"
abbreviation (input) IDIO_A_PREDEFINED4 :: nat where "IDIO_A_PREDEFINED4 \<equiv> 25"
abbreviation (input) IDIO_A_PREDEFINED5 :: nat where "IDIO_A_PREDEFINED5 \<equiv> 26"
abbreviation (input) IDIO_A_PREDEFINED6 :: nat where "IDIO_A_PREDEFINED6 \<equiv> 27"
abbreviation (input) IDIO_A_PREDEFINED7 :: nat where "IDIO_A_PREDEFINED7 \<equiv> 28"
abbreviation (input) IDIO_A_PREDEFINED8 :: nat where "IDIO_A_PREDEFINED8 \<equiv> 29"
abbreviation (input) IDIO_A_PREDEFINED :: nat where "IDIO_A_PREDEFINED \<equiv> 30"
abbreviation (input) IDIO_A_LONG_GOTO :: nat where "IDIO_A_LONG_GOTO \<equiv> 31"
abbreviation (input) IDIO_A_LONG_JUMP_FALSE :: nat where "IDIO_A_LONG_JUMP_FALSE \<equiv> 32"
abbreviation (input) IDIO_A_LONG_JUMP_TRUE :: nat where "IDIO_A_LONG_JUMP_TRUE \<equiv> 33"
abbreviation (input) IDIO_A_SHORT_GOTO :: nat where "IDIO_A_SHORT_GOTO \<equiv> 34"
abbreviation (input) IDIO_A_SHORT_JUMP_FALSE :: nat where "IDIO_A_SHORT_JUMP_FALSE \<equiv> 35"
abbreviation (input) IDIO_A_SHORT_JUMP_TRUE :: nat where "IDIO_A_SHORT_JUMP_TRUE \<equiv> 36"
abbreviation (input) IDIO_A_PUSH_VALUE :: nat where "IDIO_A_PUSH_VALUE \<equiv> 37"
abbreviation (input) IDIO_A_POP_VALUE :: nat where "IDIO_A_POP_VALUE \<equiv> 38"
abbreviation (input) IDIO_A_POP_REG1 :: nat where "IDIO_A_POP_REG1 \<equiv> 39"
abbreviation (input) IDIO_A_POP_REG2 :: nat where "IDIO_A_POP_REG2 \<equiv> 40"
abbreviation (input) IDIO_A_SRC_EXPR :: nat where "IDIO_A_SRC_EXPR \<equiv> 41"
abbreviation (input) IDIO_A_POP_FUNCTION :: nat where "IDIO_A_POP_FUNCTION \<equiv> 42"
abbreviation (input) IDIO_A_PRESERVE_STATE :: nat where "IDIO_A_PRESERVE_STATE \<equiv> 43"
abbreviation (input) IDIO_A_RESTORE_STATE :: nat where "IDIO_A_RESTORE_STATE \<equiv> 44"
abbreviation (input) IDIO_A_RESTORE_ALL_STATE :: nat where "IDIO_A_RESTORE_ALL_STATE \<equiv> 45"
abbreviation (input) IDIO_A_CREATE_FUNCTION :: nat where "IDIO_A_CREATE_FUNCTION \<equiv> 46"
abbreviation (input) IDIO_A_CREATE_CLOSURE :: nat where "IDIO_A_CREATE_CLOSURE \<equiv> 47"
abbreviation (input) IDIO_A_FUNCTION_INVOKE :: nat where "IDIO_A_FUNCTION_INVOKE \<equiv> 48"
abbreviation (input) IDIO_A_FUNCTION_GOTO :: nat where "IDIO_A_FUNCTION_GOTO \<equiv> 49"
abbreviation (input) IDIO_A_RETURN :: nat where "IDIO_A_RETURN \<equiv> 50"
abbreviation (input) IDIO_A_FINISH :: nat where "IDIO_A_FINISH \<equiv> 51"
abbreviation (input) IDIO_A_PUSH_ABORT :: nat where "IDIO_A_PUSH_ABORT \<equiv> 52"
abbreviation (input) IDIO_A_POP_ABORT :: nat where "IDIO_A_POP_ABORT \<equiv> 53"
abbreviation (input) IDIO_A_ALLOCATE_FRAME1 :: nat where "IDIO_A_ALLOCATE_FRAME1 \<equiv> 54"
abbreviation (input) IDIO_A_ALLOCATE_FRAME2 :: nat where "IDIO_A_ALLOCATE_FRAME2 \<equiv> 55"
abbreviation (input) IDIO_A_ALLOCATE_FRAME3 :: nat where "IDIO_A_ALLOCATE_FRAME3 \<equiv> 56"
abbreviation (input) IDIO_A_ALLOCATE_FRAME4 :: nat where "IDIO_A_ALLOCATE_FRAME4 \<equiv> 57"
abbreviation (input) IDIO_A_ALLOCATE_FRAME5 :: nat where "IDIO_A_ALLOCATE_FRAME5 \<equiv> 58"
abbreviation (input) IDIO_A_ALLOCATE_FRAME :: nat where "IDIO_A_ALLOCATE_FRAME \<equiv> 59"
abbreviation (input) IDIO_A_ALLOCATE_DOTTED_FRAME :: nat where "IDIO_A_ALLOCATE_DOTTED_FRAME \<equiv> 60"
abbreviation (input) IDIO_A_REUSE_FRAME :: nat where "IDIO_A_REUSE_FRAME \<equiv> 61"
abbreviation (input) IDIO_A_POP_FRAME0 :: nat where "IDIO_A_POP_FRAME0 \<equiv> 62"
abbreviation (input) IDIO_A_POP_FRAME1 :: nat where "IDIO_A_POP_FRAME1 \<equiv> 63"
abbreviation (input) IDIO_A_POP_FRAME2 :: nat where "IDIO_A_POP_FRAME2 \<equiv> 64"
abbreviation (input) IDIO_A_POP_FRAME3 :: nat where "IDIO_A_POP_FRAME3 \<equiv> 65"
abbreviation (input) IDIO_A_POP_FRAME :: nat where "IDIO_A_POP_FRAME \<equiv> 66"
abbreviation (input) IDIO_A_LINK_FRAME :: nat where "IDIO_A_LINK_FRAME \<equiv> 67"
abbreviation (input) IDIO_A_UNLINK_FRAME :: nat where "IDIO_A_UNLINK_FRAME \<equiv> 68"
abbreviation (input) IDIO_A_PACK_FRAME :: nat where "IDIO_A_PACK_FRAME \<equiv> 69"
abbreviation (input) IDIO_A_POP_LIST_FRAME :: nat where "IDIO_A_POP_LIST_FRAME \<equiv> 70"
abbreviation (input) IDIO_A_EXTEND_FRAME :: nat where "IDIO_A_EXTEND_FRAME \<equiv> 71"
abbreviation (input) IDIO_A_ARITY1P :: nat where "IDIO_A_ARITY1P \<equiv> 72"
abbreviation (input) IDIO_A_ARITY2P :: nat where "IDIO_A_ARITY2P \<equiv> 73"
abbreviation (input) IDIO_A_ARITY3P :: nat where "IDIO_A_ARITY3P \<equiv> 74"
abbreviation (input) IDIO_A_ARITY4P :: nat where "IDIO_A_ARITY4P \<equiv> 75"
abbreviation (input) IDIO_A_ARITYEQP :: nat where "IDIO_A_ARITYEQP \<equiv> 76"
abbreviation (input) IDIO_A_ARITYGEP :: nat where "IDIO_A_ARITYGEP \<equiv> 77"
abbreviation (input) IDIO_A_SHORT_NUMBER :: nat where "IDIO_A_SHORT_NUMBER \<equiv> 78"
abbreviation (input) IDIO_A_SHORT_NEG_NUMBER :: nat where "IDIO_A_SHORT_NEG_NUMBER \<equiv> 79"
abbreviation (input) IDIO_A_CONSTANT_0 :: nat where "IDIO_A_CONSTANT_0 \<equiv> 80"
abbreviation (input) IDIO_A_CONSTANT_1 :: nat where "IDIO_A_CONSTANT_1 \<equiv> 81"
abbreviation (input) IDIO_A_CONSTANT_2 :: nat where "IDIO_A_CONSTANT_2 \<equiv> 82"
abbreviation (input) IDIO_A_CONSTANT_3 :: nat where "IDIO_A_CONSTANT_3 \<equiv> 83"
abbreviation (input) IDIO_A_CONSTANT_4 :: nat where "IDIO_A_CONSTANT_4 \<equiv> 84"
abbreviation (input) IDIO_A_FIXNUM :: nat where "IDIO_A_FIXNUM \<equiv> 85"
abbreviation (input) IDIO_A_NEG_FIXNUM :: nat where "IDIO_A_NEG_FIXNUM \<equiv> 86"
abbreviation (input) IDIO_A_CONSTANT :: nat where "IDIO_A_CONSTANT \<equiv> 87"
abbreviation (input) IDIO_A_NEG_CONSTANT :: nat where "IDIO_A_NEG_CONSTANT \<equiv> 88"
abbreviation (input) IDIO_A_UNICODE :: nat where "IDIO_A_UNICODE \<equiv> 89"
abbreviation (input) IDIO_A_NOP :: nat where "IDIO_A_NOP \<equiv> 90"
abbreviation (input) IDIO_A_PRIMCALL0 :: nat where "IDIO_A_PRIMCALL0 \<equiv> 91"
abbreviation (input) IDIO_A_PRIMCALL1 :: nat where "IDIO_A_PRIMCALL1 \<equiv> 92"
abbreviation (input) IDIO_A_PRIMCALL2 :: nat where "IDIO_A_PRIMCALL2 \<equiv> 93"
abbreviation (input) IDIO_A_SUPPRESS_RCSE :: nat where "IDIO_A_SUPPRESS_RCSE \<equiv> 94"
abbreviation (input) IDIO_A_POP_RCSE :: nat where "IDIO_A_POP_RCSE \<equiv> 95"
abbreviation (input) IDIO_A_NOT :: nat where "IDIO_A_NOT \<equiv> 96"
abbreviation (input) IDIO_A_EXPANDER :: nat where "IDIO_A_EXPANDER \<equiv> 97"
abbreviation (input) IDIO_A_INFIX_OPERATOR :: nat where "IDIO_A_INFIX_OPERATOR \<equiv> 98"
abbreviation (input) IDIO_A_POSTFIX_OPERATOR :: nat where "IDIO_A_POSTFIX_OPERATOR \<equiv> 99"
abbreviation (input) IDIO_A_PUSH_DYNAMIC :: nat where "IDIO_A_PUSH_DYNAMIC \<equiv> 100"
abbreviation (input) IDIO_A_POP_DYNAMIC :: nat where "IDIO_A_POP_DYNAMIC \<equiv> 101"
abbreviation (input) IDIO_A_DYNAMIC_SYM_REF :: nat where "IDIO_A_DYNAMIC_SYM_REF \<equiv> 102"
abbreviation (input) IDIO_A_DYNAMIC_FUNCTION_SYM_REF :: nat where "IDIO_A_DYNAMIC_FUNCTION_SYM_REF \<equiv> 103"
abbreviation (input) IDIO_A_PUSH_ENVIRON :: nat where "IDIO_A_PUSH_ENVIRON \<equiv> 104"
abbreviation (input) IDIO_A_POP_ENVIRON :: nat where "IDIO_A_POP_ENVIRON \<equiv> 105"
abbreviation (input) IDIO_A_ENVIRON_SYM_REF :: nat where "IDIO_A_ENVIRON_SYM_REF \<equiv> 106"
abbreviation (input) IDIO_A_NON_CONT_ERR :: nat where "IDIO_A_NON_CONT_ERR \<equiv> 107"
abbreviation (input) IDIO_A_PUSH_TRAP :: nat where "IDIO_A_PUSH_TRAP \<equiv> 108"
abbreviation (input) IDIO_A_POP_TRAP :: nat where "IDIO_A_POP_TRAP \<equiv> 109"
abbreviation (input) IDIO_A_PUSH_ESCAPER :: nat where "IDIO_A_PUSH_ESCAPER \<equiv> 110"
abbreviation (input) IDIO_A_POP_ESCAPER :: nat where "IDIO_A_POP_ESCAPER \<equiv> 111"
abbreviation (input) IDIO_A_ESCAPER_LABEL_REF :: nat where "IDIO_A_ESCAPER_LABEL_REF \<equiv> 112"

section \<open>Operands\<close>

datatype operand = Varuint | Ref | Byte

definition operand_table :: "(nat \<times> operand list) list" where
  "operand_table =
    [(IDIO_A_SHALLOW_ARGUMENT_REF, [Varuint]), (IDIO_A_DEEP_ARGUMENT_REF, [Varuint, Varuint]),
     (IDIO_A_SHALLOW_ARGUMENT_SET, [Varuint]), (IDIO_A_DEEP_ARGUMENT_SET, [Varuint, Varuint]),
     (IDIO_A_SYM_REF, [Ref]), (IDIO_A_FUNCTION_SYM_REF, [Ref]), (IDIO_A_CONSTANT_REF, [Varuint]),
     (IDIO_A_COMPUTED_SYM_REF, [Ref]), (IDIO_A_SYM_DEF, [Ref, Varuint]), (IDIO_A_SYM_SET, [Ref]),
     (IDIO_A_COMPUTED_SYM_SET, [Ref]), (IDIO_A_COMPUTED_SYM_DEF, [Ref]), (IDIO_A_VAL_SET, [Ref]),
     (IDIO_A_PREDEFINED, [Varuint]), (IDIO_A_LONG_GOTO, [Varuint]), (IDIO_A_LONG_JUMP_FALSE, [Varuint]),
     (IDIO_A_LONG_JUMP_TRUE, [Varuint]), (IDIO_A_SHORT_GOTO, [Byte]), (IDIO_A_SHORT_JUMP_FALSE, [Byte]),
     (IDIO_A_SHORT_JUMP_TRUE, [Byte]), (IDIO_A_SRC_EXPR, [Varuint]),
     (IDIO_A_CREATE_FUNCTION, [Varuint, Varuint, Varuint, Varuint, Varuint, Varuint]),
     (IDIO_A_CREATE_CLOSURE, [Ref]), (IDIO_A_PUSH_ABORT, [Varuint]), (IDIO_A_ALLOCATE_FRAME, [Varuint]),
     (IDIO_A_ALLOCATE_DOTTED_FRAME, [Varuint]), (IDIO_A_REUSE_FRAME, [Varuint]), (IDIO_A_POP_FRAME, [Varuint]),
     (IDIO_A_LINK_FRAME, [Varuint, Varuint]), (IDIO_A_PACK_FRAME, [Varuint]), (IDIO_A_POP_LIST_FRAME, [Varuint]),
     (IDIO_A_EXTEND_FRAME, [Varuint, Varuint]), (IDIO_A_ARITYEQP, [Varuint]), (IDIO_A_ARITYGEP, [Varuint]),
     (IDIO_A_FIXNUM, [Varuint]), (IDIO_A_NEG_FIXNUM, [Varuint]), (IDIO_A_CONSTANT, [Varuint]),
     (IDIO_A_NEG_CONSTANT, [Varuint]), (IDIO_A_UNICODE, [Varuint]), (IDIO_A_PRIMCALL0, [Varuint]),
     (IDIO_A_PRIMCALL1, [Varuint]), (IDIO_A_PRIMCALL2, [Varuint]), (IDIO_A_EXPANDER, [Ref]),
     (IDIO_A_INFIX_OPERATOR, [Ref, Varuint]), (IDIO_A_POSTFIX_OPERATOR, [Ref, Varuint]), (IDIO_A_PUSH_DYNAMIC, [Ref]),
     (IDIO_A_DYNAMIC_SYM_REF, [Ref]), (IDIO_A_DYNAMIC_FUNCTION_SYM_REF, [Ref]), (IDIO_A_PUSH_ENVIRON, [Ref]),
     (IDIO_A_ENVIRON_SYM_REF, [Ref]), (IDIO_A_PUSH_TRAP, [Ref]), (IDIO_A_PUSH_ESCAPER, [Ref, Varuint]),
     (IDIO_A_ESCAPER_LABEL_REF, [Ref])]"

definition operands :: "nat \<Rightarrow> operand list" where
  "operands ins = (case map_of operand_table ins of None \<Rightarrow> [] | Some os \<Rightarrow> os)"

fun get_operand :: "operand \<Rightarrow> nat reader" where
  "get_operand Varuint = idio_vm_get_varuint"
| "get_operand Ref = idio_vm_get_16uint"
| "get_operand Byte = IDIO_IA_GET_NEXT"

fun get_operands :: "operand list \<Rightarrow> nat list reader" where
  "get_operands [] bc pc = Inr ([], pc)"
| "get_operands (p # ps) bc pc =
    bind_result (get_operand p bc pc) (\<lambda>(n, pc).
    bind_result (get_operands ps bc pc) (\<lambda>(ns, pc). Inr (n # ns, pc)))"

text \<open>The instruction at the program counter.\<close>

definition fetch :: "(nat \<times> nat list) reader" where
  "fetch bc pc =
    bind_result (IDIO_IA_GET_NEXT bc pc) (\<lambda>(ins, pc).
    bind_result (get_operands (operands ins) bc pc) (\<lambda>(ns, pc). Inr ((ins, ns), pc)))"

text \<open>The operands of every instruction.\<close>

lemma operands_simps [simp]:
  "operands 0 = []" "operands (Suc 0) = []" "operands 1 = []" "operands 2 = []" "operands 3 = []"
  "operands 4 = [Varuint]" "operands 5 = [Varuint, Varuint]" "operands 6 = []" "operands 7 = []" "operands 8 = []"
  "operands 9 = []" "operands 10 = [Varuint]" "operands 11 = [Varuint, Varuint]" "operands 12 = [Ref]"
  "operands 13 = [Ref]" "operands 14 = [Varuint]" "operands 15 = [Ref]" "operands 16 = [Ref, Varuint]"
  "operands 17 = [Ref]" "operands 18 = [Ref]" "operands 19 = [Ref]" "operands 20 = [Ref]" "operands 21 = []"
  "operands 22 = []" "operands 23 = []" "operands 24 = []" "operands 25 = []" "operands 26 = []" "operands 27 = []"
  "operands 28 = []" "operands 29 = []" "operands 30 = [Varuint]" "operands 31 = [Varuint]"
  "operands 32 = [Varuint]" "operands 33 = [Varuint]" "operands 34 = [Byte]" "operands 35 = [Byte]"
  "operands 36 = [Byte]" "operands 37 = []" "operands 38 = []" "operands 39 = []" "operands 40 = []"
  "operands 41 = [Varuint]" "operands 42 = []" "operands 43 = []" "operands 44 = []" "operands 45 = []"
  "operands 46 = [Varuint, Varuint, Varuint, Varuint, Varuint, Varuint]" "operands 47 = [Ref]" "operands 48 = []"
  "operands 49 = []" "operands 50 = []" "operands 51 = []" "operands 52 = [Varuint]" "operands 53 = []"
  "operands 54 = []" "operands 55 = []" "operands 56 = []" "operands 57 = []" "operands 58 = []"
  "operands 59 = [Varuint]" "operands 60 = [Varuint]" "operands 61 = [Varuint]" "operands 62 = []"
  "operands 63 = []" "operands 64 = []" "operands 65 = []" "operands 66 = [Varuint]"
  "operands 67 = [Varuint, Varuint]" "operands 68 = []" "operands 69 = [Varuint]" "operands 70 = [Varuint]"
  "operands 71 = [Varuint, Varuint]" "operands 72 = []" "operands 73 = []" "operands 74 = []" "operands 75 = []"
  "operands 76 = [Varuint]" "operands 77 = [Varuint]" "operands 78 = []" "operands 79 = []" "operands 80 = []"
  "operands 81 = []" "operands 82 = []" "operands 83 = []" "operands 84 = []" "operands 85 = [Varuint]"
  "operands 86 = [Varuint]" "operands 87 = [Varuint]" "operands 88 = [Varuint]" "operands 89 = [Varuint]"
  "operands 90 = []" "operands 91 = [Varuint]" "operands 92 = [Varuint]" "operands 93 = [Varuint]"
  "operands 94 = []" "operands 95 = []" "operands 96 = []" "operands 97 = [Ref]" "operands 98 = [Ref, Varuint]"
  "operands 99 = [Ref, Varuint]" "operands 100 = [Ref]" "operands 101 = []" "operands 102 = [Ref]"
  "operands 103 = [Ref]" "operands 104 = [Ref]" "operands 105 = []" "operands 106 = [Ref]" "operands 107 = []"
  "operands 108 = [Ref]" "operands 109 = []" "operands 110 = [Ref, Varuint]" "operands 111 = []"
  "operands 112 = [Ref]"
  by (simp_all add: operands_def operand_table_def)

section \<open>The bytes of an instruction\<close>

fun put_operand :: "operand \<Rightarrow> nat \<Rightarrow> byte list" where
  "put_operand Varuint n = idio_ia_compute_varuint n"
| "put_operand Ref n = idio_ia_compute_16uint n"
| "put_operand Byte n = [IDIO_I n]"

definition asm :: "nat \<Rightarrow> nat list \<Rightarrow> byte list" where
  "asm ins ns = IDIO_I ins # concat (map2 put_operand (operands ins) ns)"

fun operand_ok :: "operand \<Rightarrow> nat \<Rightarrow> bool" where
  "operand_ok Varuint n \<longleftrightarrow> n < 2 ^ 64"
| "operand_ok Ref n \<longleftrightarrow> n < 65536"
| "operand_ok Byte n \<longleftrightarrow> n < 256"

definition instruction_ok :: "nat \<Rightarrow> nat list \<Rightarrow> bool" where
  "instruction_ok ins ns \<longleftrightarrow> ins < 256 \<and> list_all2 operand_ok (operands ins) ns"

lemma operand_reads: "operand_ok p n \<Longrightarrow> reads (get_operand p) (put_operand p n) n"
  using varuint_roundtrip [of n] uint16_roundtrip [of n] get_next [of "IDIO_I n"] by (cases p) simp_all

lemma reads_operands_Cons:
  assumes "reads (get_operand p) b n" "reads (get_operands ps) bs ns"
  shows "reads (get_operands (p # ps)) (b @ bs) (n # ns)"
proof -
  have tail: "reads (\<lambda>bc pc. bind_result (get_operands ps bc pc) (\<lambda>(ns, pc). Inr (n # ns, pc))) bs (n # ns)"
    using reads_map [OF assms(2), of "(#) n"] .
  have "reads (\<lambda>bc pc. bind_result (get_operand p bc pc) (\<lambda>(n, pc).
      bind_result (get_operands ps bc pc) (\<lambda>(ns, pc). Inr (n # ns, pc)))) (b @ bs) (n # ns)"
    by (rule reads_bind [OF assms(1)]) (rule tail)
  then show ?thesis by (simp add: reads_def)
qed

lemma operands_read:
  "list_all2 operand_ok ps ns \<Longrightarrow> reads (get_operands ps) (concat (map2 put_operand ps ns)) ns"
proof (induction rule: list_all2_induct)
  case (Cons p ps n ns)
  show ?case using reads_operands_Cons [OF operand_reads [OF Cons.hyps(1)] Cons.IH] by (simp del: get_operands.simps)
qed (simp add: reads_def)

theorem fetch_asm:
  assumes "instruction_ok ins ns"
  shows "reads fetch (asm ins ns) (ins, ns)"
proof -
  have i: "ins < 256" "list_all2 operand_ok (operands ins) ns" using assms by (simp_all add: instruction_ok_def)
  have tail: "reads (\<lambda>bc pc. bind_result (get_operands (operands (unat (IDIO_I ins))) bc pc)
      (\<lambda>(ns, pc). Inr ((unat (IDIO_I ins), ns), pc))) (concat (map2 put_operand (operands ins) ns)) (ins, ns)"
    using reads_map [OF operands_read [OF i(2)], of "Pair ins"] i(1) by simp
  have "reads (\<lambda>bc pc. bind_result (IDIO_IA_GET_NEXT bc pc) (\<lambda>(ins, pc).
      bind_result (get_operands (operands ins) bc pc) (\<lambda>(ns, pc). Inr ((ins, ns), pc))))
      ([IDIO_I ins] @ concat (map2 put_operand (operands ins) ns)) (ins, ns)"
    by (rule reads_bind [OF get_next]) (rule tail)
  then show ?thesis by (simp add: reads_def fetch_def asm_def)
qed

lemma length_asm: "1 \<le> length (asm ins ns)"
  by (simp add: asm_def)

end
