(* ===== verification/Codegen.thy ===== *)
theory Codegen
  imports Vm_Asm
begin

text \<open>
  The code generator (\<^verbatim>\<open>src/src/codegen.c\<close>): \<open>idio_codegen_compile\<close> turns the
  evaluator's intermediate code into bytes, extends the tables of constants and
  source expressions of the evaluation environment and, for functions, its byte code.

  An intermediate instruction is a list in C. That it has the operands of its code,
  and that those which are numbers or code are, holds here by the type of the
  datatype; the checks of everything else (a name, a kind of variable, a constant, at
  least one instruction in a sequence) are made. Source expressions, names and lists of
  formals are values; whether a value is a pair or a symbol, the length of a list, the
  symbols of the kinds of variables and the properties of a source expression are found
  in the heap and given by the record \<open>codegen_ctx\<close>.
\<close>

section \<open>Intermediate code\<close>

text \<open>The operand named \<open>src\<close> or \<open>e\<close> in C is the source expression; \<open>ms\<close> are several instructions.\<close>

datatype (plugins only: code size) icode =
    I_SHALLOW_ARGUMENT_REF int
  | I_DEEP_ARGUMENT_REF int int
  | I_SHALLOW_ARGUMENT_SET int icode
  | I_DEEP_ARGUMENT_SET int int icode
  | I_SYM_REF int
  | I_FUNCTION_SYM_REF int
  | I_CONSTANT_REF idio_value
  | I_COMPUTED_SYM_REF int
  | I_SYM_DEF idio_value idio_value int
  | I_SYM_SET idio_value int icode
  | I_COMPUTED_SYM_SET int icode
  | I_COMPUTED_SYM_DEF int icode
  | I_VAL_REF
  | I_FUNCTION_VAL_REF
  | I_VAL_SET idio_value int icode
  | I_PREDEFINED int
  | I_ALTERNATIVE idio_value icode icode icode
  | I_SEQUENCE icode icode
  | I_TR_FIX_LET icode icode idio_value idio_value
  | I_FIX_LET icode icode idio_value idio_value
  | I_LOCAL idio_value int icode icode idio_value
  | I_PRIMCALL0 idio_value int
  | I_PRIMCALL1 idio_value icode int
  | I_PRIMCALL2 idio_value icode icode int
  | I_TR_REGULAR_CALL idio_value icode icode
  | I_REGULAR_CALL idio_value icode icode
  | I_FIX_CLOSURE icode idio_value int idio_value idio_value idio_value int
  | I_NARY_CLOSURE icode idio_value int idio_value idio_value idio_value int
  | I_STORE_ARGUMENT icode icode int
  | I_LIST_ARGUMENT icode icode int
  | I_ALLOCATE_FRAME int
  | I_ALLOCATE_DOTTED_FRAME int
  | I_REUSE_FRAME int
  | I_PUSH_DYNAMIC int icode
  | I_POP_DYNAMIC
  | I_DYNAMIC_SYM_REF int
  | I_DYNAMIC_FUNCTION_SYM_REF int
  | I_PUSH_ENVIRON int icode
  | I_POP_ENVIRON
  | I_ENVIRON_SYM_REF int
  | I_PUSH_TRAP int
  | I_POP_TRAP
  | I_PUSH_ESCAPER int icode
  | I_POP_ESCAPER
  | I_ESCAPER_LABEL_REF int icode
  | I_AND bool icode "icode list"
  | I_OR bool icode "icode list"
  | I_BEGIN "icode list"
  | I_NOT bool icode
  | I_EXPANDER int icode
  | I_INFIX_OPERATOR int int icode
  | I_POSTFIX_OPERATOR int int icode
  | I_RETURN
  | I_FINISH
  | I_PUSH_ABORT icode
  | I_POP_ABORT
  | I_NOP
  | I_list "icode list"

record codegen_ctx =
  cx_isa_pair :: "idio_value \<Rightarrow> bool"
  cx_isa_symbol :: "idio_value \<Rightarrow> bool"
  cx_S_scopes :: "idio_value list"   \<comment> \<open>\<^verbatim>\<open>idio_S_predef\<close>, \<^verbatim>\<open>toplevel\<close>, \<^verbatim>\<open>dynamic\<close>, \<^verbatim>\<open>environ\<close>, \<^verbatim>\<open>computed\<close>\<close>
  cx_list_length :: "idio_value \<Rightarrow> nat"
  cx_src_properties :: "idio_value \<Rightarrow> (idio_value \<times> idio_value) option"

section \<open>The evaluation environment\<close>

text \<open>
  Constants with the map from a constant to its index, source expressions with
  their properties (the index of the file name and the line), byte code and program
  counters.
\<close>

record eenv =
  ee_cs :: "idio_value list"
  ee_ch :: "idio_value \<rightharpoonup> nat"
  ee_ses :: "idio_value list"
  ee_sps :: "(nat \<times> idio_value) option list"
  ee_byte_code :: "byte list"
  ee_pcs :: "nat list"

definition idio_codegen_extend_constants :: "eenv \<Rightarrow> idio_value \<Rightarrow> nat \<times> eenv" where
  "idio_codegen_extend_constants ee v =
    (let ci = length (ee_cs ee); ee = ee\<lparr>ee_cs := ee_cs ee @ [v]\<rparr>
     in (ci, if v \<noteq> idio_S_nil then ee\<lparr>ee_ch := (ee_ch ee)(v \<mapsto> ci)\<rparr> else ee))"

text \<open>\<^verbatim>\<open>idio_array_find_eqp\<close> from index 0; \<open>None\<close> is the result -1.\<close>

fun find_eqp :: "idio_value list \<Rightarrow> idio_value \<Rightarrow> nat \<Rightarrow> nat option" where
  "find_eqp [] v i = None"
| "find_eqp (c # cs) v i = (if c = v then Some i else find_eqp cs v (i + 1))"

definition idio_codegen_constants_lookup :: "eenv \<Rightarrow> idio_value \<Rightarrow> nat option" where
  "idio_codegen_constants_lookup ee v =
    (if v \<noteq> idio_S_nil then ee_ch ee v else find_eqp (ee_cs ee) v 0)"

definition idio_codegen_constants_lookup_or_extend :: "eenv \<Rightarrow> idio_value \<Rightarrow> nat \<times> eenv" where
  "idio_codegen_constants_lookup_or_extend ee v =
    (case idio_codegen_constants_lookup ee v of
       Some ci \<Rightarrow> (ci, ee)
     | None \<Rightarrow> idio_codegen_extend_constants ee v)"

definition idio_codegen_extend_src_exprs :: "codegen_ctx \<Rightarrow> eenv \<Rightarrow> idio_value \<Rightarrow> nat \<times> eenv" where
  "idio_codegen_extend_src_exprs cx ee src =
    (let sci = length (ee_ses ee); ee = ee\<lparr>ee_ses := ee_ses ee @ [src]\<rparr>;
         (sp, ee) =
           (if cx_isa_pair cx src
            then (case cx_src_properties cx src of
                None \<Rightarrow> (None, ee)
              | Some (name, line) \<Rightarrow>
                  let (ci, ee) = idio_codegen_constants_lookup_or_extend ee name in (Some (ci, line), ee))
            else (None, ee))
     in (sci, ee\<lparr>ee_sps := ee_sps ee @ [sp]\<rparr>))"

section \<open>Emitting code\<close>

text \<open>
  A piece of the generator appends bytes to the buffer it is given and changes the
  environment: a function from the environment to the bytes and the new environment.
\<close>

type_synonym codegen = "eenv \<Rightarrow> (byte list \<times> eenv) result"

text \<open>A signed operand converted to \<^verbatim>\<open>uint64_t\<close>.\<close>

definition u64 :: "int \<Rightarrow> nat" where
  "u64 i = nat (i mod 18446744073709551616)"

definition emit :: "byte list \<Rightarrow> codegen" where
  "emit bs ee = Inr (bs, ee)"

definition bind_cg :: "codegen \<Rightarrow> (byte list \<Rightarrow> codegen) \<Rightarrow> codegen" where
  "bind_cg m f ee = bind_result (m ee) (\<lambda>(bs, ee). f bs ee)"

definition seq_cg :: "codegen \<Rightarrow> codegen \<Rightarrow> codegen" where
  "seq_cg m1 m2 ee = bind_result (m1 ee) (\<lambda>(bs, ee). bind_result (m2 ee) (\<lambda>(cs, ee). Inr (bs @ cs, ee)))"

fun seqs :: "codegen list \<Rightarrow> codegen" where
  "seqs [] = emit []"
| "seqs (m # ms) = seq_cg m (seqs ms)"

definition IDIO_IA_PUSH1 :: "nat \<Rightarrow> byte list" where "IDIO_IA_PUSH1 i = [IDIO_I i]"
definition IDIO_IA_PUSH_VARUINT :: "int \<Rightarrow> byte list" where
  "IDIO_IA_PUSH_VARUINT n = idio_ia_compute_varuint (u64 n)"
definition IDIO_IA_PUSH_REF :: "int \<Rightarrow> byte list" where
  "IDIO_IA_PUSH_REF n = idio_ia_compute_16uint (u64 n)"

text \<open>An index of the environment as an operand.\<close>

definition with_constant :: "idio_value \<Rightarrow> (int \<Rightarrow> codegen) \<Rightarrow> codegen" where
  "with_constant v f ee = (let (ci, ee) = idio_codegen_constants_lookup_or_extend ee v in f (int ci) ee)"

definition with_src_expr :: "codegen_ctx \<Rightarrow> idio_value \<Rightarrow> (int \<Rightarrow> codegen) \<Rightarrow> codegen" where
  "with_src_expr cx src f ee = (let (sei, ee) = idio_codegen_extend_src_exprs cx ee src in f (int sei) ee)"

definition IDIO_CODEGEN_SRC_EXPR :: "codegen_ctx \<Rightarrow> idio_value \<Rightarrow> codegen" where
  "IDIO_CODEGEN_SRC_EXPR cx e =
    (if cx_isa_pair cx e
     then with_src_expr cx e (\<lambda>sei. emit (IDIO_IA_PUSH1 IDIO_A_SRC_EXPR @ IDIO_IA_PUSH_VARUINT sei))
     else emit [])"

section \<open>The pieces of single instructions\<close>

definition cg_shallow :: "nat \<Rightarrow> nat \<Rightarrow> int \<Rightarrow> byte list" where
  "cg_shallow op0 op j =
    (if j = 0 then IDIO_IA_PUSH1 op0
     else if j = 1 then IDIO_IA_PUSH1 (op0 + 1)
     else if j = 2 then IDIO_IA_PUSH1 (op0 + 2)
     else if j = 3 then IDIO_IA_PUSH1 (op0 + 3)
     else IDIO_IA_PUSH1 op @ IDIO_IA_PUSH_VARUINT j)"

definition cg_constant :: "idio_value \<Rightarrow> codegen" where
  "cg_constant c =
    (case c of
       V_fixnum v \<Rightarrow>
        if v = 0 then emit (IDIO_IA_PUSH1 IDIO_A_CONSTANT_0)
        else if v = 1 then emit (IDIO_IA_PUSH1 IDIO_A_CONSTANT_1)
        else if v = 2 then emit (IDIO_IA_PUSH1 IDIO_A_CONSTANT_2)
        else if v = 3 then emit (IDIO_IA_PUSH1 IDIO_A_CONSTANT_3)
        else if v = 4 then emit (IDIO_IA_PUSH1 IDIO_A_CONSTANT_4)
        else if 0 \<le> v then emit (IDIO_IA_PUSH1 IDIO_A_FIXNUM @ IDIO_IA_PUSH_VARUINT v)
        else emit (IDIO_IA_PUSH1 IDIO_A_NEG_FIXNUM @ IDIO_IA_PUSH_VARUINT (- v))
     | V_constant cv \<Rightarrow>
        if c = idio_S_true then emit (IDIO_IA_PUSH1 IDIO_A_PREDEFINED0)
        else if c = idio_S_false then emit (IDIO_IA_PUSH1 IDIO_A_PREDEFINED1)
        else if c = idio_S_nil then emit (IDIO_IA_PUSH1 IDIO_A_PREDEFINED2)
        else if 0 \<le> cv then emit (IDIO_IA_PUSH1 IDIO_A_CONSTANT @ IDIO_IA_PUSH_VARUINT cv)
        else emit (IDIO_IA_PUSH1 IDIO_A_NEG_CONSTANT @ IDIO_IA_PUSH_VARUINT (- cv))
     | V_unicode v \<Rightarrow> emit (IDIO_IA_PUSH1 IDIO_A_UNICODE @ IDIO_IA_PUSH_VARUINT v)
     | V_pointer _ \<Rightarrow>
        with_constant c (\<lambda>ci. emit (IDIO_IA_PUSH1 IDIO_A_CONSTANT_REF @ IDIO_IA_PUSH_VARUINT ci))
     | _ \<Rightarrow> (\<lambda>ee. Inl (Coding_error ''unexpected constant/CONSTANT/??'')))"

text \<open>
  \<^verbatim>\<open>ALTERNATIVE\<close>: the jumps need the lengths of the two branches, which are compiled
  into buffers of their own.
\<close>

definition jump :: "nat \<Rightarrow> nat \<Rightarrow> nat \<Rightarrow> byte list" where
  "jump short long l =
    (if l \<le> IDIO_IA_VARUINT_1BYTE then IDIO_IA_PUSH1 short @ IDIO_IA_PUSH1 l
     else IDIO_IA_PUSH1 long @ idio_ia_compute_varuint l)"

definition alternative_code :: "byte list \<Rightarrow> byte list \<Rightarrow> byte list" where
  "alternative_code ia_m2 ia_m3 =
    (let g7_len = (if length ia_m3 \<le> IDIO_IA_VARUINT_1BYTE then 1 + 1
                   else 1 + length (idio_ia_compute_varuint (length ia_m3)));
         jf6_off = length ia_m2 + g7_len
     in jump IDIO_A_SHORT_JUMP_FALSE IDIO_A_LONG_JUMP_FALSE jf6_off @ ia_m2 @
        jump IDIO_A_SHORT_GOTO IDIO_A_LONG_GOTO (length ia_m3) @ ia_m3)"

text \<open>\<^verbatim>\<open>SUPPRESS_RCSE\<close> and \<^verbatim>\<open>POP_RCSE\<close> around code whose failure is not an error.\<close>

definition rcse :: "bool \<Rightarrow> codegen \<Rightarrow> codegen" where
  "rcse b m = (if b then seqs [emit (IDIO_IA_PUSH1 IDIO_A_SUPPRESS_RCSE), m, emit (IDIO_IA_PUSH1 IDIO_A_POP_RCSE)] else m)"

definition cg_alternative :: "codegen \<Rightarrow> codegen \<Rightarrow> codegen \<Rightarrow> codegen \<Rightarrow> codegen" where
  "cg_alternative src m1 m2 m3 =
    seqs [src, rcse True m1, bind_cg m2 (\<lambda>ia_m2. bind_cg m3 (\<lambda>ia_m3. emit (alternative_code ia_m2 ia_m3)))]"

text \<open>
  \<^verbatim>\<open>AND\<close> and \<^verbatim>\<open>OR\<close>: every clause but the first is compiled into a buffer, then the
  jumps to the end are put before them from the last to the first.
\<close>

fun clauses :: "bool \<Rightarrow> codegen list \<Rightarrow> eenv \<Rightarrow> (byte list list \<times> eenv) result" where
  "clauses tailp [] ee = Inr ([], ee)"
| "clauses tailp (m # ms) ee =
    bind_result (rcse (ms \<noteq> [] \<or> \<not> tailp) m ee) (\<lambda>(iac, ee).
    bind_result (clauses tailp ms ee) (\<lambda>(iacs, ee). Inr (iac # iacs, ee)))"

fun link_clauses :: "nat \<Rightarrow> nat \<Rightarrow> byte list list \<Rightarrow> byte list" where
  "link_clauses short long [] = []"
| "link_clauses short long (iac # iacs) =
    (let iar = link_clauses short long iacs in jump short long (length iac + length iar) @ iac @ iar)"

definition cg_and_or :: "nat \<Rightarrow> nat \<Rightarrow> bool \<Rightarrow> codegen \<Rightarrow> codegen list \<Rightarrow> codegen" where
  "cg_and_or short long tailp m1 ms =
    seq_cg (rcse (ms \<noteq> [] \<or> \<not> tailp) m1)
      (\<lambda>ee. bind_result (clauses tailp ms ee) (\<lambda>(iacs, ee). Inr (link_clauses short long iacs, ee)))"

text \<open>
  The two kinds of closure: the function's code, after the check of the number of
  arguments, goes to the environment's byte code with the instructions that create
  the function and set the value \<open>vi\<close>; in place of the expression a closure of that
  value is created.
\<close>

definition cg_arity_eq :: "int \<Rightarrow> byte list" where
  "cg_arity_eq arityp1 =
    (if arityp1 = 1 then IDIO_IA_PUSH1 IDIO_A_ARITY1P
     else if arityp1 = 2 then IDIO_IA_PUSH1 IDIO_A_ARITY2P
     else if arityp1 = 3 then IDIO_IA_PUSH1 IDIO_A_ARITY3P
     else if arityp1 = 4 then IDIO_IA_PUSH1 IDIO_A_ARITY4P
     else IDIO_IA_PUSH1 IDIO_A_ARITYEQP @ IDIO_IA_PUSH_VARUINT arityp1)"

definition cg_arity_ge :: "int \<Rightarrow> byte list" where
  "cg_arity_ge arity =
    IDIO_IA_PUSH1 IDIO_A_ARITYGEP @ IDIO_IA_PUSH_VARUINT (arity + 1) @
    IDIO_IA_PUSH1 IDIO_A_PACK_FRAME @ IDIO_IA_PUSH_VARUINT arity"

definition function_code :: "byte list \<Rightarrow> int \<Rightarrow> int \<Rightarrow> int \<Rightarrow> int \<Rightarrow> byte list" where
  "function_code ia_tf nci fci dsci sei =
    (let code_len = length ia_tf;
         features = IDIO_IA_PUSH_VARUINT (int code_len) @ IDIO_IA_PUSH_VARUINT nci @ IDIO_IA_PUSH_VARUINT fci @
           IDIO_IA_PUSH_VARUINT dsci @ IDIO_IA_PUSH_VARUINT sei
     in (if code_len \<le> IDIO_IA_VARUINT_1BYTE
         then IDIO_IA_PUSH1 IDIO_A_CREATE_FUNCTION @ IDIO_IA_PUSH1 2 @ features @
           IDIO_IA_PUSH1 IDIO_A_SHORT_GOTO @ IDIO_IA_PUSH1 code_len
         else let g5 = idio_ia_compute_varuint code_len
           in IDIO_IA_PUSH1 IDIO_A_CREATE_FUNCTION @ IDIO_IA_PUSH1 (1 + length g5) @ features @
             IDIO_IA_PUSH1 IDIO_A_LONG_GOTO @ g5) @
        ia_tf)"

definition append_byte_code :: "byte list \<Rightarrow> codegen" where
  "append_byte_code bs ee = Inr ([], ee\<lparr>ee_byte_code := ee_byte_code ee @ bs\<rparr>)"

definition cg_closure ::
  "codegen_ctx \<Rightarrow> byte list \<Rightarrow> codegen \<Rightarrow> idio_value \<Rightarrow> idio_value \<Rightarrow> idio_value \<Rightarrow> idio_value \<Rightarrow> int \<Rightarrow> codegen" where
  "cg_closure cx arity_check mp name formals docstr src vi =
    with_constant name (\<lambda>nci. with_constant formals (\<lambda>fci. with_constant docstr (\<lambda>dsci.
    with_src_expr cx src (\<lambda>sei.
    bind_cg
      (seqs [emit (arity_check @ IDIO_IA_PUSH1 IDIO_A_LINK_FRAME @ IDIO_IA_PUSH_VARUINT fci @ IDIO_IA_PUSH_VARUINT sei),
         mp, emit (IDIO_IA_PUSH1 IDIO_A_RETURN)]) (\<lambda>ia_tf.
    seq_cg
      (append_byte_code (function_code ia_tf nci fci dsci sei @ IDIO_IA_PUSH1 IDIO_A_VAL_SET @ IDIO_IA_PUSH_REF vi))
      (emit (IDIO_IA_PUSH1 IDIO_A_CREATE_CLOSURE @ IDIO_IA_PUSH_REF vi)))))))"

definition cg_allocate :: "int \<Rightarrow> byte list" where
  "cg_allocate arity =
    (if arity = 0 then IDIO_IA_PUSH1 IDIO_A_ALLOCATE_FRAME1
     else if arity = 1 then IDIO_IA_PUSH1 IDIO_A_ALLOCATE_FRAME2
     else if arity = 2 then IDIO_IA_PUSH1 IDIO_A_ALLOCATE_FRAME3
     else if arity = 3 then IDIO_IA_PUSH1 IDIO_A_ALLOCATE_FRAME4
     else if arity = 4 then IDIO_IA_PUSH1 IDIO_A_ALLOCATE_FRAME5
     else IDIO_IA_PUSH1 IDIO_A_ALLOCATE_FRAME @ IDIO_IA_PUSH_VARUINT (arity + 1))"

section \<open>The compiler\<close>

definition op_ref :: "nat \<Rightarrow> int \<Rightarrow> codegen" where
  "op_ref op si = emit (IDIO_IA_PUSH1 op @ IDIO_IA_PUSH_REF si)"

definition op_varuint :: "nat \<Rightarrow> int \<Rightarrow> codegen" where
  "op_varuint op n = emit (IDIO_IA_PUSH1 op @ IDIO_IA_PUSH_VARUINT n)"

definition op_only :: "nat \<Rightarrow> codegen" where
  "op_only op = emit (IDIO_IA_PUSH1 op)"

primrec idio_codegen_compile :: "codegen_ctx \<Rightarrow> icode \<Rightarrow> codegen" where
  "idio_codegen_compile cx (I_SHALLOW_ARGUMENT_REF j) =
    emit (cg_shallow IDIO_A_SHALLOW_ARGUMENT_REF0 IDIO_A_SHALLOW_ARGUMENT_REF j)"
| "idio_codegen_compile cx (I_DEEP_ARGUMENT_REF i j) =
    emit (IDIO_IA_PUSH1 IDIO_A_DEEP_ARGUMENT_REF @ IDIO_IA_PUSH_VARUINT i @ IDIO_IA_PUSH_VARUINT j)"
| "idio_codegen_compile cx (I_SHALLOW_ARGUMENT_SET j m1) =
    seqs [idio_codegen_compile cx m1,
      emit (cg_shallow IDIO_A_SHALLOW_ARGUMENT_SET0 IDIO_A_SHALLOW_ARGUMENT_SET j)]"
| "idio_codegen_compile cx (I_DEEP_ARGUMENT_SET i j m1) =
    seqs [idio_codegen_compile cx m1,
      emit (IDIO_IA_PUSH1 IDIO_A_DEEP_ARGUMENT_SET @ IDIO_IA_PUSH_VARUINT i @ IDIO_IA_PUSH_VARUINT j)]"
| "idio_codegen_compile cx (I_SYM_REF si) = op_ref IDIO_A_SYM_REF si"
| "idio_codegen_compile cx (I_FUNCTION_SYM_REF si) = op_ref IDIO_A_FUNCTION_SYM_REF si"
| "idio_codegen_compile cx (I_CONSTANT_REF c) = cg_constant c"
| "idio_codegen_compile cx (I_COMPUTED_SYM_REF si) = op_ref IDIO_A_COMPUTED_SYM_REF si"
| "idio_codegen_compile cx (I_SYM_DEF name kind si) =
    (if \<not> cx_isa_symbol cx name then (\<lambda>ee. Inl (Param_type_error ''symbol''))
     else if kind \<notin> set (cx_S_scopes cx)
     then (\<lambda>ee. Inl (Param_type_error ''symbol predef|toplevel|dynamic|environ|computed''))
     else with_constant kind (\<lambda>kci.
       emit (IDIO_IA_PUSH1 IDIO_A_SYM_DEF @ IDIO_IA_PUSH_REF si @ IDIO_IA_PUSH_VARUINT kci)))"
| "idio_codegen_compile cx (I_SYM_SET e si m1) =
    seqs [idio_codegen_compile cx m1, IDIO_CODEGEN_SRC_EXPR cx e, op_ref IDIO_A_SYM_SET si]"
| "idio_codegen_compile cx (I_COMPUTED_SYM_SET si m1) =
    seqs [idio_codegen_compile cx m1, op_ref IDIO_A_COMPUTED_SYM_SET si]"
| "idio_codegen_compile cx (I_COMPUTED_SYM_DEF si m1) =
    seqs [idio_codegen_compile cx m1, op_ref IDIO_A_COMPUTED_SYM_DEF si]"
| "idio_codegen_compile cx I_VAL_REF = (\<lambda>ee. Inl (Coding_error ''bad instruction''))"
| "idio_codegen_compile cx I_FUNCTION_VAL_REF = (\<lambda>ee. Inl (Coding_error ''bad instruction''))"
| "idio_codegen_compile cx (I_VAL_SET e vi m1) =
    seqs [idio_codegen_compile cx m1, IDIO_CODEGEN_SRC_EXPR cx e, op_ref IDIO_A_VAL_SET vi]"
| "idio_codegen_compile cx (I_PREDEFINED vi) = op_varuint IDIO_A_PREDEFINED vi"
| "idio_codegen_compile cx (I_ALTERNATIVE src m1 m2 m3) =
    cg_alternative (IDIO_CODEGEN_SRC_EXPR cx src)
      (idio_codegen_compile cx m1) (idio_codegen_compile cx m2) (idio_codegen_compile cx m3)"
| "idio_codegen_compile cx (I_SEQUENCE m1 mp) = seqs [idio_codegen_compile cx m1, idio_codegen_compile cx mp]"
| "idio_codegen_compile cx (I_TR_FIX_LET ms mp formals src) =
    with_constant formals (\<lambda>fci. with_src_expr cx src (\<lambda>sei.
      seqs [idio_codegen_compile cx ms,
        emit (IDIO_IA_PUSH1 IDIO_A_LINK_FRAME @ IDIO_IA_PUSH_VARUINT fci @ IDIO_IA_PUSH_VARUINT sei),
        idio_codegen_compile cx mp]))"
| "idio_codegen_compile cx (I_FIX_LET ms mp formals src) =
    with_constant formals (\<lambda>fci. with_src_expr cx src (\<lambda>sei.
      seqs [idio_codegen_compile cx ms,
        emit (IDIO_IA_PUSH1 IDIO_A_LINK_FRAME @ IDIO_IA_PUSH_VARUINT fci @ IDIO_IA_PUSH_VARUINT sei),
        idio_codegen_compile cx mp, op_only IDIO_A_UNLINK_FRAME]))"
| "idio_codegen_compile cx (I_LOCAL e i m1 mp formals) =
    with_constant formals (\<lambda>fci.
      seqs [idio_codegen_compile cx m1, IDIO_CODEGEN_SRC_EXPR cx e,
        emit (IDIO_IA_PUSH1 IDIO_A_EXTEND_FRAME @ IDIO_IA_PUSH_VARUINT (int (cx_list_length cx formals)) @
          IDIO_IA_PUSH_VARUINT fci),
        op_varuint IDIO_A_SHALLOW_ARGUMENT_SET i,
        idio_codegen_compile cx mp])"
| "idio_codegen_compile cx (I_PRIMCALL0 e pd) =
    seqs [IDIO_CODEGEN_SRC_EXPR cx e,
      emit (IDIO_IA_PUSH_VARUINT (int IDIO_A_PRIMCALL0) @ IDIO_IA_PUSH_VARUINT pd)]"
| "idio_codegen_compile cx (I_PRIMCALL1 e m1 pd) =
    seqs [idio_codegen_compile cx m1, IDIO_CODEGEN_SRC_EXPR cx e,
      emit (IDIO_IA_PUSH_VARUINT (int IDIO_A_PRIMCALL1) @ IDIO_IA_PUSH_VARUINT pd)]"
| "idio_codegen_compile cx (I_PRIMCALL2 e m1 m2 pd) =
    seqs [idio_codegen_compile cx m1, op_only IDIO_A_PUSH_VALUE, idio_codegen_compile cx m2,
      op_only IDIO_A_POP_REG1, IDIO_CODEGEN_SRC_EXPR cx e,
      emit (IDIO_IA_PUSH_VARUINT (int IDIO_A_PRIMCALL2) @ IDIO_IA_PUSH_VARUINT pd)]"
| "idio_codegen_compile cx (I_TR_REGULAR_CALL e m1 ms) =
    seqs [idio_codegen_compile cx m1, op_only IDIO_A_PUSH_VALUE, idio_codegen_compile cx ms,
      IDIO_CODEGEN_SRC_EXPR cx e, op_only IDIO_A_POP_FUNCTION, op_only IDIO_A_FUNCTION_GOTO]"
| "idio_codegen_compile cx (I_REGULAR_CALL e m1 ms) =
    seqs [idio_codegen_compile cx m1, op_only IDIO_A_PUSH_VALUE, idio_codegen_compile cx ms,
      IDIO_CODEGEN_SRC_EXPR cx e, op_only IDIO_A_POP_FUNCTION, op_only IDIO_A_PRESERVE_STATE,
      op_only IDIO_A_FUNCTION_INVOKE, op_only IDIO_A_RESTORE_STATE]"
| "idio_codegen_compile cx (I_FIX_CLOSURE mp name arity formals docstr src vi) =
    cg_closure cx (cg_arity_eq (arity + 1)) (idio_codegen_compile cx mp) name formals docstr src vi"
| "idio_codegen_compile cx (I_NARY_CLOSURE mp name arity formals docstr src vi) =
    cg_closure cx (cg_arity_ge arity) (idio_codegen_compile cx mp) name formals docstr src vi"
| "idio_codegen_compile cx (I_STORE_ARGUMENT m1 ms rank) =
    seqs [idio_codegen_compile cx m1, op_only IDIO_A_PUSH_VALUE, idio_codegen_compile cx ms,
      emit (cg_shallow IDIO_A_POP_FRAME0 IDIO_A_POP_FRAME rank)]"
| "idio_codegen_compile cx (I_LIST_ARGUMENT m1 ms arity) =
    seqs [idio_codegen_compile cx m1, op_only IDIO_A_PUSH_VALUE, idio_codegen_compile cx ms,
      op_varuint IDIO_A_POP_LIST_FRAME arity]"
| "idio_codegen_compile cx (I_ALLOCATE_FRAME arity) = emit (cg_allocate arity)"
| "idio_codegen_compile cx (I_ALLOCATE_DOTTED_FRAME arity) = op_varuint IDIO_A_ALLOCATE_DOTTED_FRAME (arity + 1)"
| "idio_codegen_compile cx (I_REUSE_FRAME arity) = op_varuint IDIO_A_REUSE_FRAME (arity + 1)"
| "idio_codegen_compile cx (I_PUSH_DYNAMIC si m1) =
    seqs [idio_codegen_compile cx m1, op_ref IDIO_A_PUSH_DYNAMIC si]"
| "idio_codegen_compile cx I_POP_DYNAMIC = op_only IDIO_A_POP_DYNAMIC"
| "idio_codegen_compile cx (I_DYNAMIC_SYM_REF si) = op_ref IDIO_A_DYNAMIC_SYM_REF si"
| "idio_codegen_compile cx (I_DYNAMIC_FUNCTION_SYM_REF si) = op_ref IDIO_A_DYNAMIC_FUNCTION_SYM_REF si"
| "idio_codegen_compile cx (I_PUSH_ENVIRON si m1) =
    seqs [idio_codegen_compile cx m1, op_ref IDIO_A_PUSH_ENVIRON si]"
| "idio_codegen_compile cx I_POP_ENVIRON = op_only IDIO_A_POP_ENVIRON"
| "idio_codegen_compile cx (I_ENVIRON_SYM_REF si) = op_ref IDIO_A_ENVIRON_SYM_REF si"
| "idio_codegen_compile cx (I_PUSH_TRAP si) = op_ref IDIO_A_PUSH_TRAP si"
| "idio_codegen_compile cx I_POP_TRAP = op_only IDIO_A_POP_TRAP"
| "idio_codegen_compile cx (I_PUSH_ESCAPER ci mp) =
    bind_cg (idio_codegen_compile cx mp) (\<lambda>ia_m.
      emit (IDIO_IA_PUSH1 IDIO_A_PUSH_ESCAPER @ IDIO_IA_PUSH_REF ci @ IDIO_IA_PUSH_VARUINT (int (length ia_m)) @ ia_m))"
| "idio_codegen_compile cx I_POP_ESCAPER = op_only IDIO_A_POP_ESCAPER"
| "idio_codegen_compile cx (I_ESCAPER_LABEL_REF ci mp) =
    seqs [idio_codegen_compile cx mp, op_ref IDIO_A_ESCAPER_LABEL_REF ci]"
| "idio_codegen_compile cx (I_AND tailp m1 ms) =
    cg_and_or IDIO_A_SHORT_JUMP_FALSE IDIO_A_LONG_JUMP_FALSE tailp (idio_codegen_compile cx m1)
      (map (idio_codegen_compile cx) ms)"
| "idio_codegen_compile cx (I_OR tailp m1 ms) =
    cg_and_or IDIO_A_SHORT_JUMP_TRUE IDIO_A_LONG_JUMP_TRUE tailp (idio_codegen_compile cx m1)
      (map (idio_codegen_compile cx) ms)"
| "idio_codegen_compile cx (I_BEGIN ms) =
    (if ms = [] then (\<lambda>ee. Inl (Coding_error ''BEGIN tail? m+'')) else seqs (map (idio_codegen_compile cx) ms))"
| "idio_codegen_compile cx (I_NOT tailp m1) =
    seqs [rcse (\<not> tailp) (idio_codegen_compile cx m1), op_only IDIO_A_NOT]"
| "idio_codegen_compile cx (I_EXPANDER si m1) = seqs [idio_codegen_compile cx m1, op_ref IDIO_A_EXPANDER si]"
| "idio_codegen_compile cx (I_INFIX_OPERATOR oi pri m1) =
    seqs [idio_codegen_compile cx m1,
      emit (IDIO_IA_PUSH1 IDIO_A_INFIX_OPERATOR @ IDIO_IA_PUSH_REF oi @ IDIO_IA_PUSH_VARUINT pri)]"
| "idio_codegen_compile cx (I_POSTFIX_OPERATOR oi pri m1) =
    seqs [idio_codegen_compile cx m1,
      emit (IDIO_IA_PUSH1 IDIO_A_POSTFIX_OPERATOR @ IDIO_IA_PUSH_REF oi @ IDIO_IA_PUSH_VARUINT pri)]"
| "idio_codegen_compile cx I_RETURN = op_only IDIO_A_RETURN"
| "idio_codegen_compile cx I_FINISH = op_only IDIO_A_FINISH"
| "idio_codegen_compile cx (I_PUSH_ABORT m1) =
    bind_cg (idio_codegen_compile cx m1) (\<lambda>ia_m1.
      emit (IDIO_IA_PUSH1 IDIO_A_PUSH_ABORT @ IDIO_IA_PUSH_VARUINT (int (length ia_m1)) @ ia_m1))"
| "idio_codegen_compile cx I_POP_ABORT = op_only IDIO_A_POP_ABORT"
| "idio_codegen_compile cx I_NOP = op_only IDIO_A_NOP"
| "idio_codegen_compile cx (I_list ms) =
    (if ms = [] then (\<lambda>ee. Inl (Param_type_error ''pair''))
     else if hd ms = I_list [] then (\<lambda>ee. Inl (Coding_error ''unknown I-code''))
     else seqs (map (idio_codegen_compile cx) ms))"

text \<open>The code every execution environment starts with.\<close>

definition idio_codegen_code_prologue :: "byte list" where
  "idio_codegen_code_prologue =
    IDIO_IA_PUSH1 IDIO_A_FINISH @ IDIO_IA_PUSH1 IDIO_A_NON_CONT_ERR @
    IDIO_IA_PUSH1 IDIO_A_POP_TRAP @ IDIO_IA_PUSH1 IDIO_A_RESTORE_STATE @ IDIO_IA_PUSH1 IDIO_A_RETURN @
    IDIO_IA_PUSH1 IDIO_A_POP_TRAP @ IDIO_IA_PUSH1 IDIO_A_RESTORE_ALL_STATE @ IDIO_IA_PUSH1 IDIO_A_RETURN"

definition idio_vm_FINISH_pc :: nat where "idio_vm_FINISH_pc = 0"
definition idio_vm_NCE_pc :: nat where "idio_vm_NCE_pc = 1"
definition idio_vm_CHR_pc :: nat where "idio_vm_CHR_pc = 2"
definition idio_vm_AR_pc :: nat where "idio_vm_AR_pc = 5 - 2"
definition idio_vm_RETURN_pc :: nat where "idio_vm_RETURN_pc = 5 - 1"
definition idio_vm_IHR_pc :: nat where "idio_vm_IHR_pc = 5"

definition idio_codegen :: "codegen_ctx \<Rightarrow> icode \<Rightarrow> eenv \<Rightarrow> (nat \<times> eenv) result" where
  "idio_codegen cx m ee =
    (let PC0 = length (ee_byte_code ee)
     in bind_result (idio_codegen_compile cx m ee) (\<lambda>(ia, ee).
       let ia = (if ia = [] then IDIO_IA_PUSH1 IDIO_A_NOP else ia)
       in Inr (PC0, ee\<lparr>ee_byte_code := ee_byte_code ee @ ia, ee_pcs := PC0 # ee_pcs ee\<rparr>)))"

end
