(* ===== verification/Bignum_Sig.thy ===== *)
theory Bignum_Sig
  imports Idio_Prelude
begin

text \<open>
  The significand arrays of \<^verbatim>\<open>src/src/bignum.c\<close> and the integer arithmetic on
  them. An \<^verbatim>\<open>IDIO_BSA\<close> is a list of segments of 18 decimal digits, least
  significant first; for an integer the most significant segment carries the
  sign. The reference for all of it is \<open>sig_of i\<close>, the one well-formed array of
  the integer \<open>i\<close>: each operation is shown to be a homomorphism on it, which is
  functional correctness, preservation of the representation invariant,
  termination and absence of \<^verbatim>\<open>intptr_t\<close> overflow in one equation.

  An operation has the result \<open>None\<close> where the C code delivers no number: its
  loop does not end, or it raises the coding error \<^verbatim>\<open>idio_bignum_error\<close>.
\<close>

section \<open>Segments and the integers they stand for\<close>

type_synonym bsa = "int list"

abbreviation (input) IDIO_BIGNUM_DPW :: nat where "IDIO_BIGNUM_DPW \<equiv> 18"
abbreviation (input) INT_SEG_LIMIT :: int where "INT_SEG_LIMIT \<equiv> 1000000000000000000"
abbreviation (input) IDIO_BIGNUM_SIG_MAX_DIGITS :: int where "IDIO_BIGNUM_SIG_MAX_DIGITS \<equiv> 18"

text \<open>The most significant segment, and writing it back.\<close>

definition mss :: "bsa \<Rightarrow> int" where
  "mss xs = (if xs = [] then 0 else last xs)"

definition set_mss :: "int \<Rightarrow> bsa \<Rightarrow> bsa" where
  "set_mss v xs = (if xs = [] then [] else butlast xs @ [v])"

text \<open>\<open>segs0 v\<close>: the segments of \<open>v \<ge> 0\<close>, none for 0.\<close>

function segs0 :: "int \<Rightarrow> bsa" where
  "segs0 v = (if v \<le> 0 then [] else (v mod INT_SEG_LIMIT) # segs0 (v div INT_SEG_LIMIT))"
  by pat_completeness auto
termination
  by (relation "measure nat") (auto simp: nat_less_iff intro: order_le_less_trans)

declare segs0.simps [simp del]

definition pos_segs :: "int \<Rightarrow> bsa" where
  "pos_segs v = (if v = 0 then [0] else segs0 v)"

definition sig_of :: "int \<Rightarrow> bsa" where
  "sig_of i = (if i < 0 then set_mss (- mss (segs0 (- i))) (segs0 (- i)) else pos_segs i)"

text \<open>The value of any array, and the representation invariant.\<close>

fun segs_val :: "bsa \<Rightarrow> int" where
  "segs_val [] = 0"
| "segs_val (x # xs) = x + INT_SEG_LIMIT * segs_val xs"

definition sig_val :: "bsa \<Rightarrow> int" where
  "sig_val xs = (if mss xs < 0 then - segs_val (set_mss (- mss xs) xs) else segs_val xs)"

definition sig_wf :: "bsa \<Rightarrow> bool" where
  "sig_wf xs \<longleftrightarrow> xs \<noteq> [] \<and> (\<forall>x \<in> set (butlast xs). 0 \<le> x \<and> x < INT_SEG_LIMIT) \<and>
     \<bar>mss xs\<bar> < INT_SEG_LIMIT \<and> (1 < length xs \<longrightarrow> mss xs \<noteq> 0)"

lemma segs0_0 [simp]: "segs0 0 = []"
  by (simp add: segs0.simps)

lemma segs0_nonpos [simp]: "v \<le> 0 \<Longrightarrow> segs0 v = []"
  by (simp add: segs0.simps)

lemma segs0_pos: "0 < v \<Longrightarrow> segs0 v = (v mod INT_SEG_LIMIT) # segs0 (v div INT_SEG_LIMIT)"
  by (simp add: segs0.simps [of v])

lemma segs0_eq_Nil [simp]: "segs0 v = [] \<longleftrightarrow> v \<le> 0"
  by (simp add: segs0.simps [of v])

lemma segs0_single: "0 < v \<Longrightarrow> v < INT_SEG_LIMIT \<Longrightarrow> segs0 v = [v]"
  by (simp add: segs0_pos)

lemma segs0_mss_pos: "0 < v \<Longrightarrow> 0 < mss (segs0 v) \<and> mss (segs0 v) < INT_SEG_LIMIT"
proof (induction v rule: segs0.induct)
  case (1 v)
  show ?case
  proof (cases "v div INT_SEG_LIMIT = 0")
    case True
    then have "v < INT_SEG_LIMIT" using 1(2) by (simp add: zdiv_eq_0_iff)
    then show ?thesis using 1(2) by (simp add: segs0_single mss_def)
  next
    case False
    then have "0 < v div INT_SEG_LIMIT" using 1(2) by (simp add: order_less_le pos_imp_zdiv_nonneg_iff)
    then show ?thesis using 1 by (simp add: segs0_pos mss_def)
  qed
qed

lemma segs0_range: "x \<in> set (segs0 v) \<Longrightarrow> 0 \<le> x \<and> x < INT_SEG_LIMIT"
proof (induction v rule: segs0.induct)
  case (1 v)
  then show ?case by (cases "v \<le> 0") (auto simp: segs0_pos not_le)
qed

lemma segs_val_segs0: "0 \<le> v \<Longrightarrow> segs_val (segs0 v) = v"
proof (induction v rule: segs0.induct)
  case (1 v)
  then show ?case
    using mult_div_mod_eq [of INT_SEG_LIMIT v]
    by (cases "v = 0") (simp_all add: segs0_pos pos_imp_zdiv_nonneg_iff del: mult_div_mod_eq)
qed

text \<open>The digits of an array in range, and what they determine.\<close>

definition segs_ok :: "bsa \<Rightarrow> bool" where
  "segs_ok xs \<longleftrightarrow> (\<forall>x \<in> set xs. 0 \<le> x \<and> x < INT_SEG_LIMIT)"

lemma segs_ok_simps [simp]:
  "segs_ok []"
  "segs_ok (x # xs) \<longleftrightarrow> 0 \<le> x \<and> x < INT_SEG_LIMIT \<and> segs_ok xs"
  "segs_ok (xs @ ys) \<longleftrightarrow> segs_ok xs \<and> segs_ok ys"
  by (auto simp: segs_ok_def)

lemma segs_ok_segs0 [simp]: "segs_ok (segs0 v)"
  using segs0_range by (auto simp: segs_ok_def)

lemma segs_val_append: "segs_val (xs @ ys) = segs_val xs + INT_SEG_LIMIT ^ length xs * segs_val ys"
  by (induction xs) (simp_all add: algebra_simps)

lemma segs_val_nonneg: "segs_ok xs \<Longrightarrow> 0 \<le> segs_val xs"
  by (induction xs) simp_all

lemma segs_val_less: "segs_ok xs \<Longrightarrow> segs_val xs < INT_SEG_LIMIT ^ length xs"
proof (induction xs)
  case (Cons x xs)
  then have "segs_val xs + 1 \<le> INT_SEG_LIMIT ^ length xs" and "x < INT_SEG_LIMIT" by simp_all
  then have "x + INT_SEG_LIMIT * segs_val xs < INT_SEG_LIMIT * (segs_val xs + 1)" by simp
  also have "\<dots> \<le> INT_SEG_LIMIT * INT_SEG_LIMIT ^ length xs"
    using \<open>segs_val xs + 1 \<le> _\<close> by (intro mult_left_mono) simp_all
  finally show ?case by simp
qed simp

lemma mss_simps [simp]: "mss [] = 0" "mss [x] = x" "xs \<noteq> [] \<Longrightarrow> mss (x # xs) = mss xs"
    "mss (xs @ [x]) = x"
  by (simp_all add: mss_def)

lemma segs0_segs_val: "segs_ok xs \<Longrightarrow> xs = [] \<or> mss xs \<noteq> 0 \<Longrightarrow> segs0 (segs_val xs) = xs"
proof (induction xs)
  case (Cons x xs)
  let ?v = "x + INT_SEG_LIMIT * segs_val xs"
  have xs: "segs0 (segs_val xs) = xs"
    using Cons by (cases "xs = []") simp_all
  have "0 \<le> segs_val xs" using Cons.prems by (simp add: segs_val_nonneg)
  moreover have "xs \<noteq> [] \<Longrightarrow> segs_val xs \<noteq> 0" using xs by auto
  moreover have "xs = [] \<Longrightarrow> x \<noteq> 0" using Cons.prems by simp
  ultimately have pos: "0 < ?v" using Cons.prems by (cases "xs = []") auto
  have m: "?v mod INT_SEG_LIMIT = x" and d: "?v div INT_SEG_LIMIT = segs_val xs"
    using Cons.prems by simp_all
  show ?case unfolding segs_val.simps segs0_pos [OF pos] m d xs ..
qed simp

lemma pos_segs_segs_val:
  assumes "segs_ok xs" "xs \<noteq> []" "1 < length xs \<Longrightarrow> mss xs \<noteq> 0"
  shows "pos_segs (segs_val xs) = xs"
proof (cases "mss xs = 0")
  case True
  then obtain x where "xs = [x]" using assms by (cases xs) (auto split: if_splits)
  then show ?thesis using True by (simp add: pos_segs_def)
next
  case False
  then have "segs0 (segs_val xs) = xs" using assms by (simp add: segs0_segs_val)
  then show ?thesis using assms by (auto simp: pos_segs_def)
qed

lemma pos_segs_Cons: "0 \<le> v \<Longrightarrow> pos_segs v = (v mod INT_SEG_LIMIT) # segs0 (v div INT_SEG_LIMIT)"
  by (cases "v = 0") (simp_all add: pos_segs_def segs0_pos)

lemma pos_segs_not_Nil [simp]: "0 \<le> v \<Longrightarrow> pos_segs v \<noteq> []"
  by (simp add: pos_segs_Cons)

lemma segs_ok_pos_segs [simp]: "segs_ok (pos_segs v)"
  by (simp add: pos_segs_def)

lemma segs_val_pos_segs [simp]: "0 \<le> v \<Longrightarrow> segs_val (pos_segs v) = v"
  by (simp add: pos_segs_def segs_val_segs0)

lemma mss_pos_segs [simp]:
  assumes "0 \<le> v"
  shows "\<not> mss (pos_segs v) < 0" "0 < mss (pos_segs v) \<longleftrightarrow> 0 < v" "mss (pos_segs v) = 0 \<longleftrightarrow> v = 0"
  using segs0_mss_pos [of v] assms by (auto simp: pos_segs_def)

lemma mss_pos_segs_less: "0 \<le> v \<Longrightarrow> mss (pos_segs v) < INT_SEG_LIMIT"
  using segs0_mss_pos [of v] by (auto simp: pos_segs_def)

lemma sig_of_nonneg: "0 \<le> v \<Longrightarrow> sig_of v = pos_segs v"
  by (simp add: sig_of_def)

section \<open>Sign, zero, order and equality\<close>

definition sig_negative_p :: "bsa \<Rightarrow> bool" where
  "sig_negative_p xs \<longleftrightarrow> mss xs < 0"

definition sig_abs :: "bsa \<Rightarrow> bsa" where
  "sig_abs xs = set_mss \<bar>mss xs\<bar> xs"

definition sig_negate :: "bsa \<Rightarrow> bsa" where
  "sig_negate xs = set_mss (- mss xs) xs"

definition sig_zero_p :: "bsa \<Rightarrow> bool" where
  "sig_zero_p xs \<longleftrightarrow> length xs = 1 \<and> hd xs = 0"

text \<open>The digit loop of \<^verbatim>\<open>idio_bignum_lt_p\<close> runs from the most significant segment.\<close>

fun lt_loop :: "bool \<Rightarrow> bsa \<Rightarrow> bsa \<Rightarrow> bool" where
  "lt_loop na (x # xs) (y # ys) =
     (if x < y then \<not> na else if y < x then na else lt_loop na xs ys)"
| "lt_loop na _ _ = False"

definition sig_lt :: "bsa \<Rightarrow> bsa \<Rightarrow> bool" where
  "sig_lt a b =
    (let na = sig_negative_p a; nb = sig_negative_p b in
     if na \<and> \<not> nb then True
     else if \<not> na \<and> nb then False
     else if length a < length b then \<not> na
     else if length b < length a then na
     else lt_loop na (rev (sig_abs a)) (rev (sig_abs b)))"

fun equal_loop :: "bsa \<Rightarrow> bsa \<Rightarrow> bool" where
  "equal_loop (x # xs) (y # ys) = (if x \<noteq> y then False else equal_loop xs ys)"
| "equal_loop _ _ = True"

definition sig_equal :: "bsa \<Rightarrow> bsa \<Rightarrow> bool" where
  "sig_equal a b = (if length a \<noteq> length b then False else equal_loop a b)"

lemma mss_set_mss [simp]: "xs \<noteq> [] \<Longrightarrow> mss (set_mss v xs) = v"
  by (simp add: set_mss_def)

lemma set_mss_set_mss [simp]: "set_mss v (set_mss w xs) = set_mss v xs"
  by (simp add: set_mss_def)

lemma length_set_mss [simp]: "length (set_mss v xs) = length xs"
  by (simp add: set_mss_def)

lemma set_mss_eq_Nil [simp]: "set_mss v xs = [] \<longleftrightarrow> xs = []"
  by (simp add: set_mss_def)

lemma set_mss_mss [simp]: "set_mss (mss xs) xs = xs"
  by (simp add: set_mss_def mss_def)

lemma length_sig_abs [simp]: "length (sig_abs xs) = length xs"
  by (simp add: sig_abs_def)

lemma mss_sig_abs [simp]: "mss (sig_abs xs) = \<bar>mss xs\<bar>"
  by (cases "xs = []") (simp_all add: sig_abs_def set_mss_def)

lemma mss_sig_negate [simp]: "mss (sig_negate xs) = - mss xs"
  by (cases "xs = []") (simp_all add: sig_negate_def set_mss_def)

lemma sig_negate_negate [simp]: "sig_negate (sig_negate xs) = xs"
  by (cases "xs = []") (simp_all add: sig_negate_def)

lemma sig_abs_negate [simp]: "sig_abs (sig_negate xs) = sig_abs xs"
  by (cases "xs = []") (simp_all add: sig_negate_def sig_abs_def set_mss_def)

lemma sig_abs_id: "\<not> sig_negative_p xs \<Longrightarrow> sig_abs xs = xs"
  by (simp add: sig_abs_def sig_negative_p_def)

text \<open>The canonical array of a negative integer is that of its absolute value, negated.\<close>

lemma sig_of_neg: "0 < v \<Longrightarrow> sig_of (- v) = sig_negate (pos_segs v)"
  by (simp add: sig_of_def sig_negate_def pos_segs_def)

lemma sig_of_cases:
  obtains (nonneg) v where "0 \<le> v" "i = v" "sig_of i = pos_segs v"
  | (neg) v where "0 < v" "i = - v" "sig_of i = sig_negate (pos_segs v)"
  by (metis neg_0_less_iff_less not_le minus_minus sig_of_neg sig_of_nonneg)

lemma sig_of_not_Nil [simp]: "sig_of i \<noteq> []"
  by (cases i rule: sig_of_cases) (simp_all add: sig_negate_def)

lemma sig_negative_p_pos_segs [simp]: "0 \<le> v \<Longrightarrow> \<not> sig_negative_p (pos_segs v)"
  by (simp add: sig_negative_p_def)

lemma sig_negative_p_sig_of [simp]: "sig_negative_p (sig_of i) \<longleftrightarrow> i < 0"
  by (cases i rule: sig_of_cases) (simp_all add: sig_negative_p_def)

lemma sig_abs_pos_segs [simp]: "0 \<le> v \<Longrightarrow> sig_abs (pos_segs v) = pos_segs v"
  by (simp add: sig_abs_def order.strict_implies_not_eq abs_of_nonneg leI)

lemma sig_abs_sig_of [simp]: "sig_abs (sig_of i) = sig_of \<bar>i\<bar>"
  by (cases i rule: sig_of_cases) (simp_all add: sig_of_nonneg)

lemma sig_negate_sig_of [simp]: "sig_negate (sig_of i) = sig_of (- i)"
proof (cases i rule: sig_of_cases)
  case (nonneg v)
  then show ?thesis
    by (cases "v = 0") (simp_all add: sig_of_neg sig_of_nonneg sig_negate_def pos_segs_def set_mss_def)
qed (simp add: sig_of_neg sig_of_nonneg)

lemma sig_val_sig_of [simp]: "sig_val (sig_of i) = i"
  by (cases i rule: sig_of_cases) (simp_all add: sig_val_def sig_negate_def)

lemma sig_of_eq_iff [simp]: "sig_of i = sig_of j \<longleftrightarrow> i = j"
  by (metis sig_val_sig_of)

lemma length_sig_of [simp]: "length (sig_of i) = length (pos_segs \<bar>i\<bar>)"
  by (metis length_sig_abs sig_abs_sig_of sig_of_nonneg abs_ge_zero)

lemma sig_zero_p_sig_of [simp]: "sig_zero_p (sig_of i) \<longleftrightarrow> i = 0"
proof
  assume z: "sig_zero_p (sig_of i)"
  then have "sig_of i = [0]" by (cases "sig_of i") (auto simp: sig_zero_p_def)
  also have "[0] = sig_of 0" by (simp add: sig_of_nonneg pos_segs_def)
  finally show "i = 0" unfolding sig_of_eq_iff .
qed (simp add: sig_zero_p_def sig_of_nonneg pos_segs_def)

lemma sig_equal_sig_of [simp]: "sig_equal (sig_of i) (sig_of j) \<longleftrightarrow> i = j"
proof -
  have "length xs = length ys \<Longrightarrow> equal_loop xs ys \<longleftrightarrow> xs = ys" for xs ys
    by (induction xs ys rule: equal_loop.induct) (auto simp: neq_Nil_conv)
  then have "sig_equal xs ys \<longleftrightarrow> xs = ys" for xs ys
    by (auto simp: sig_equal_def)
  then show ?thesis by simp
qed

text \<open>The order on arrays is the order on the integers.\<close>

lemma lt_loop_segs_val:
  "length xs = length ys \<Longrightarrow> segs_ok xs \<Longrightarrow> segs_ok ys \<Longrightarrow>
   lt_loop na (rev xs) (rev ys) \<longleftrightarrow> (if na then segs_val ys < segs_val xs else segs_val xs < segs_val ys)"
proof (induction xs arbitrary: ys rule: rev_induct)
  case (snoc x xs)
  then obtain ys' y where ys: "ys = ys' @ [y]" "length ys' = length xs"
    by (cases ys rule: rev_cases) auto
  let ?P = "INT_SEG_LIMIT ^ length xs"
  have bnd: "0 \<le> segs_val xs" "segs_val xs < ?P" "0 \<le> segs_val ys'" "segs_val ys' < ?P"
    using snoc.prems ys segs_val_nonneg segs_val_less [of xs] segs_val_less [of ys'] by auto
  have big: "segs_val zs + ?P * a < segs_val zs' + ?P * b"
    if "a < b" "segs_val zs < ?P" "0 \<le> segs_val zs'" for a b zs zs'
  proof -
    have "?P * a + ?P \<le> ?P * b"
      using mult_left_mono [of "a + 1" b ?P] that(1) by (simp add: algebra_simps)
    then show ?thesis using that by simp
  qed
  have "x < y \<Longrightarrow> segs_val xs + ?P * x < segs_val ys' + ?P * y"
    and "y < x \<Longrightarrow> segs_val ys' + ?P * y < segs_val xs + ?P * x"
    using big [of x y xs ys'] big [of y x ys' xs] bnd by simp_all
  then show ?case
    using snoc ys by (cases x y rule: linorder_cases) (auto simp: segs_val_append)
qed simp

lemma segs0_length_bound: "0 < v \<Longrightarrow> INT_SEG_LIMIT ^ (length (segs0 v) - 1) \<le> v"
proof (induction v rule: segs0.induct)
  case (1 v)
  show ?case
  proof (cases "0 < v div INT_SEG_LIMIT")
    case True
    let ?d = "v div INT_SEG_LIMIT"
    have "INT_SEG_LIMIT ^ (length (segs0 ?d) - 1) \<le> ?d" using 1 True by simp
    then have "INT_SEG_LIMIT * INT_SEG_LIMIT ^ (length (segs0 ?d) - 1) \<le> INT_SEG_LIMIT * ?d"
      by (rule mult_left_mono) simp
    also have "\<dots> \<le> v" by (simp add: mult.commute div_times_less_eq_dividend)
    finally have "INT_SEG_LIMIT ^ Suc (length (segs0 ?d) - 1) \<le> v" by simp
    moreover have "Suc (length (segs0 ?d) - 1) = length (segs0 ?d)" using True by simp
    moreover have "length (segs0 v) - 1 = length (segs0 ?d)" using 1(2) by (simp add: segs0_pos)
    ultimately show ?thesis by (simp only:)
  next
    case False
    then show ?thesis using 1(2) by (simp add: segs0_pos)
  qed
qed

lemma pos_segs_length_less:
  assumes "length (pos_segs x) < length (pos_segs y)" "0 \<le> x" "0 \<le> y"
  shows "x < y"
proof -
  have "y \<noteq> 0" using assms pos_segs_not_Nil [of x] by (auto simp: pos_segs_def split: if_splits)
  then have y: "0 < y" "pos_segs y = segs0 y" using assms by (simp_all add: pos_segs_def)
  have "x < INT_SEG_LIMIT ^ length (pos_segs x)"
    using segs_val_less [of "pos_segs x"] assms by simp
  also have "\<dots> \<le> INT_SEG_LIMIT ^ (length (segs0 y) - 1)"
    using assms y by (intro power_increasing) simp_all
  also have "\<dots> \<le> y" using segs0_length_bound y by simp
  finally show ?thesis .
qed

theorem sig_lt_sig_of [simp]: "sig_lt (sig_of i) (sig_of j) \<longleftrightarrow> i < j"
proof -
  let ?a = "pos_segs \<bar>i\<bar>" and ?b = "pos_segs \<bar>j\<bar>"
  have "length ?a < length ?b \<Longrightarrow> \<bar>i\<bar> < \<bar>j\<bar>" "length ?b < length ?a \<Longrightarrow> \<bar>j\<bar> < \<bar>i\<bar>"
    using pos_segs_length_less by simp_all
  moreover have "length ?a = length ?b \<Longrightarrow>
      lt_loop na (rev ?a) (rev ?b) \<longleftrightarrow> (if na then \<bar>j\<bar> < \<bar>i\<bar> else \<bar>i\<bar> < \<bar>j\<bar>)" for na
    by (simp add: lt_loop_segs_val)
  ultimately show ?thesis
    by (cases "i < 0"; cases "j < 0"; cases "length ?a" "length ?b" rule: linorder_cases)
      (auto simp: sig_lt_def Let_def sig_of_nonneg)
qed

text \<open>The representation invariant holds of the canonical arrays and of no others.\<close>

lemma sig_wf_sig_of: "sig_wf (sig_of i)"
proof -
  have "segs_ok xs \<Longrightarrow> \<forall>x \<in> set (butlast xs). 0 \<le> x \<and> x < INT_SEG_LIMIT" for xs
    by (auto simp: segs_ok_def dest: in_set_butlastD)
  from this [OF segs_ok_pos_segs] have b: "\<forall>x \<in> set (butlast (pos_segs \<bar>i\<bar>)). 0 \<le> x \<and> x < INT_SEG_LIMIT" .
  have "1 < length (pos_segs \<bar>i\<bar>) \<Longrightarrow> i \<noteq> 0" by (auto simp: pos_segs_def)
  moreover have "butlast (sig_of i) = butlast (pos_segs \<bar>i\<bar>)" "\<bar>mss (sig_of i)\<bar> = mss (pos_segs \<bar>i\<bar>)"
    by (cases i rule: sig_of_cases; simp add: sig_negate_def set_mss_def abs_of_nonneg leI)+
  ultimately show ?thesis
    using b mss_pos_segs_less [of "\<bar>i\<bar>"] mss_pos_segs(3) [of "\<bar>i\<bar>"] by (auto simp: sig_wf_def)
qed

lemma sig_wf_iff: "sig_wf xs \<longleftrightarrow> xs = sig_of (sig_val xs)"
proof
  assume wf: "sig_wf xs"
  let ?ys = "sig_abs xs"
  have "segs_ok (butlast xs @ [\<bar>mss xs\<bar>])" using wf by (auto simp: sig_wf_def segs_ok_def)
  then have ok: "segs_ok ?ys" using wf by (simp add: sig_wf_def sig_abs_def set_mss_def)
  have "pos_segs (segs_val ?ys) = ?ys"
    using wf by (intro pos_segs_segs_val ok) (simp_all add: sig_wf_def sig_abs_def)
  moreover have "0 \<le> segs_val ?ys" using ok by (rule segs_val_nonneg)
  ultimately have abs: "sig_of (segs_val ?ys) = ?ys" by (simp add: sig_of_nonneg)
  show "xs = sig_of (sig_val xs)"
  proof (cases "mss xs < 0")
    case True
    then have "?ys = sig_negate xs" by (simp add: sig_abs_def sig_negate_def)
    then have "xs = sig_negate (sig_of (segs_val ?ys))" unfolding abs by (simp only: sig_negate_negate)
    also have "\<dots> = sig_of (- segs_val ?ys)" by (rule sig_negate_sig_of)
    also have "- segs_val ?ys = sig_val xs" using True by (simp add: sig_val_def sig_abs_def)
    finally show ?thesis .
  next
    case False
    then have "?ys = xs" by (simp add: sig_abs_def)
    then show ?thesis using abs False by (simp add: sig_val_def)
  qed
next
  assume "xs = sig_of (sig_val xs)"
  then show "sig_wf xs" by (metis sig_wf_sig_of)
qed

section \<open>Addition and subtraction\<close>

text \<open>
  The digit loops. Each runs while either operand has a segment or a carry (a
  borrow) is left. A borrow left over after both operands would be kept for
  ever, so \<open>sub_loop\<close> has no result then.
\<close>

definition get_seg :: "bsa \<Rightarrow> int" where
  "get_seg xs = (if xs = [] then 0 else hd xs)"

lemma length_tl_less:
  "xs \<noteq> [] \<or> ys \<noteq> [] \<Longrightarrow> length (tl xs) + length (tl ys) < length xs + length ys"
  by (cases xs; cases ys) simp_all

lemma carry_not_Nil:
  "INT_SEG_LIMIT \<le> wrap64 (get_seg xs + get_seg ys + of_bool c) \<Longrightarrow> xs \<noteq> [] \<or> ys \<noteq> []"
  by (cases "xs = [] \<and> ys = []"; cases c) (auto simp: get_seg_def)

function add_loop :: "bool \<Rightarrow> bsa \<Rightarrow> bsa \<Rightarrow> bsa" where
  "add_loop carry xs ys =
    (if xs = [] \<and> ys = [] \<and> \<not> carry then []
     else let ir = wrap64 (get_seg xs + get_seg ys + of_bool carry) in
       if INT_SEG_LIMIT \<le> ir then (ir - INT_SEG_LIMIT) # add_loop True (tl xs) (tl ys)
       else ir # add_loop False (tl xs) (tl ys))"
  by pat_completeness auto
termination
proof (relation "measure (\<lambda>(c, xs, ys). 2 * (length xs + length ys) + of_bool c)")
  fix c :: bool and xs ys :: bsa and ir
  assume ir: "ir = wrap64 (get_seg xs + get_seg ys + of_bool c)"
  show "((True, tl xs, tl ys), c, xs, ys)
      \<in> measure (\<lambda>(c, xs, ys). 2 * (length xs + length ys) + of_bool c)" if "INT_SEG_LIMIT \<le> ir"
    using length_tl_less [OF carry_not_Nil] that unfolding ir by (cases c) force+
  show "((False, tl xs, tl ys), c, xs, ys)
      \<in> measure (\<lambda>(c, xs, ys). 2 * (length xs + length ys) + of_bool c)"
    if "\<not> (xs = [] \<and> ys = [] \<and> \<not> c)"
    using length_tl_less [of xs ys] that by (cases c) auto
qed simp

function sub_loop :: "bool \<Rightarrow> bsa \<Rightarrow> bsa \<Rightarrow> bsa option" where
  "sub_loop borrow xs ys =
    (if xs = [] \<and> ys = [] then if borrow then None else Some []
     else let ir = wrap64 (get_seg xs - get_seg ys - of_bool borrow) in
       if ir < 0 then map_option ((#) (ir + INT_SEG_LIMIT)) (sub_loop True (tl xs) (tl ys))
       else map_option ((#) ir) (sub_loop False (tl xs) (tl ys)))"
  by pat_completeness auto
termination
  by (relation "measure (\<lambda>(c, xs, ys). length xs + length ys)") (auto simp: neq_Nil_conv)

declare add_loop.simps [simp del] sub_loop.simps [simp del]

function drop_leading_zeroes :: "bsa \<Rightarrow> bsa" where
  "drop_leading_zeroes xs =
    (if mss xs = 0 \<and> 1 < length xs then drop_leading_zeroes (butlast xs) else xs)"
  by pat_completeness auto
termination
  by (relation "measure length") auto

declare drop_leading_zeroes.simps [simp del]

lemma get_seg_segs [simp]:
  "0 \<le> v \<Longrightarrow> get_seg (segs0 v) = v mod INT_SEG_LIMIT"
  "0 \<le> v \<Longrightarrow> get_seg (pos_segs v) = v mod INT_SEG_LIMIT"
  by (cases "v = 0"; simp add: get_seg_def segs0_pos pos_segs_def)+

lemma tl_segs [simp]:
  "0 \<le> v \<Longrightarrow> tl (segs0 v) = segs0 (v div INT_SEG_LIMIT)"
  "0 \<le> v \<Longrightarrow> tl (pos_segs v) = segs0 (v div INT_SEG_LIMIT)"
  by (cases "v = 0"; simp add: segs0_pos pos_segs_def)+

lemma add_segs_div_mod:
  fixes x y :: int and c :: bool
  assumes "0 \<le> x" "0 \<le> y"
  defines "m \<equiv> x mod INT_SEG_LIMIT + y mod INT_SEG_LIMIT + of_bool c"
  shows "(x + y + of_bool c) mod INT_SEG_LIMIT = (if INT_SEG_LIMIT \<le> m then m - INT_SEG_LIMIT else m)"
    and "(x + y + of_bool c) div INT_SEG_LIMIT =
      x div INT_SEG_LIMIT + y div INT_SEG_LIMIT + of_bool (INT_SEG_LIMIT \<le> m)"
    and "wrap64 m = m"
proof -
  have r: "0 \<le> x mod INT_SEG_LIMIT" "x mod INT_SEG_LIMIT < INT_SEG_LIMIT"
    "0 \<le> y mod INT_SEG_LIMIT" "y mod INT_SEG_LIMIT < INT_SEG_LIMIT" by simp_all
  let ?q = "x div INT_SEG_LIMIT + y div INT_SEG_LIMIT + of_bool (INT_SEG_LIMIT \<le> m)"
  let ?r = "if INT_SEG_LIMIT \<le> m then m - INT_SEG_LIMIT else m"
  have m: "0 \<le> m" "m < 2 * INT_SEG_LIMIT" using r unfolding m_def by (cases c; simp)+
  have "x + y + of_bool c = INT_SEG_LIMIT * ?q + ?r"
    using mult_div_mod_eq [of INT_SEG_LIMIT x] mult_div_mod_eq [of INT_SEG_LIMIT y]
    by (simp add: m_def)
  moreover have "0 \<le> ?r" "?r < INT_SEG_LIMIT" using m by simp_all
  ultimately show "(x + y + of_bool c) mod INT_SEG_LIMIT = ?r"
    and "(x + y + of_bool c) div INT_SEG_LIMIT = ?q"
    by (rule int_mod_pos_eq, rule int_div_pos_eq)
  show "wrap64 m = m" using m by (simp add: intptr_defs)
qed

lemma add_loop_step:
  assumes "\<not> (xs = [] \<and> ys = [] \<and> \<not> c)" "get_seg xs + get_seg ys + of_bool c = m" "wrap64 m = m"
  shows "add_loop c xs ys = (if INT_SEG_LIMIT \<le> m then m - INT_SEG_LIMIT else m) #
    add_loop (INT_SEG_LIMIT \<le> m) (tl xs) (tl ys)"
  unfolding add_loop.simps [of c xs ys] assms(2,3) Let_def using assms(1) by auto

lemma add_loop_segs0:
  "0 \<le> x \<Longrightarrow> 0 \<le> y \<Longrightarrow> add_loop c (segs0 x) (segs0 y) = segs0 (x + y + of_bool c)"
proof (induction "x + y + of_bool c" arbitrary: x y c rule: segs0.induct)
  case 1
  define m where "m = x mod INT_SEG_LIMIT + y mod INT_SEG_LIMIT + of_bool c"
  note dm = add_segs_div_mod [OF 1(2,3), of c, folded m_def]
  show ?case
  proof (cases "x + y + of_bool c \<le> 0")
    case True
    then have "x = 0" "y = 0" "\<not> c" using 1(2,3) by (auto simp: of_bool_def split: if_splits)
    then show ?thesis by (simp add: add_loop.simps)
  next
    case False
    then have "\<not> (segs0 x = [] \<and> segs0 y = [] \<and> \<not> c)" by (cases c) auto
    then have "add_loop c (segs0 x) (segs0 y) = (x + y + of_bool c) mod INT_SEG_LIMIT #
        add_loop (INT_SEG_LIMIT \<le> m) (segs0 (x div INT_SEG_LIMIT)) (segs0 (y div INT_SEG_LIMIT))"
      using 1(2,3) by (subst add_loop_step [where m = m]) (simp_all add: m_def dm(3) [unfolded m_def] dm(1) [unfolded m_def])
    also have "\<dots> = (x + y + of_bool c) mod INT_SEG_LIMIT # segs0 ((x + y + of_bool c) div INT_SEG_LIMIT)"
      unfolding dm(2) using 1(2,3) False
      by (subst 1(1)) (simp_all only: dm(2) pos_imp_zdiv_nonneg_iff zero_less_numeral simp_thms)
    finally show ?thesis using False by (simp add: segs0_pos)
  qed
qed

lemma add_loop_pos_segs:
  assumes "0 \<le> x" "0 \<le> y"
  shows "add_loop False (pos_segs x) (pos_segs y) = pos_segs (x + y)"
proof -
  define m where "m = x mod INT_SEG_LIMIT + y mod INT_SEG_LIMIT + of_bool False"
  note dm = add_segs_div_mod [OF assms, of False, folded m_def]
  have "add_loop False (pos_segs x) (pos_segs y) = (x + y + of_bool False) mod INT_SEG_LIMIT #
      add_loop (INT_SEG_LIMIT \<le> m) (segs0 (x div INT_SEG_LIMIT)) (segs0 (y div INT_SEG_LIMIT))"
    unfolding dm(1)
    by (subst add_loop_step [where m = m]) (use assms dm(3) in \<open>simp_all add: m_def\<close>)
  then show ?thesis
    using assms dm(2) by (simp add: pos_segs_Cons [of "x + y"] add_loop_segs0 pos_imp_zdiv_nonneg_iff)
qed

lemma sub_loop_segs_val:
  "segs_ok xs \<Longrightarrow> segs_ok ys \<Longrightarrow> segs_val ys + of_bool b \<le> segs_val xs \<Longrightarrow>
   \<exists>zs. sub_loop b xs ys = Some zs \<and> segs_ok zs \<and> length zs = max (length xs) (length ys) \<and>
     segs_val zs = segs_val xs - segs_val ys - of_bool b"
proof (induction b xs ys rule: sub_loop.induct)
  case (1 b xs ys)
  have decomp: "segs_val zs = get_seg zs + INT_SEG_LIMIT * segs_val (tl zs)"
    "segs_ok zs \<Longrightarrow> 0 \<le> get_seg zs \<and> get_seg zs < INT_SEG_LIMIT \<and> segs_ok (tl zs)" for zs
    by (cases zs; simp add: get_seg_def)+
  define ir where "ir = get_seg xs - get_seg ys - of_bool b"
  have r: "- INT_SEG_LIMIT \<le> ir" "ir < INT_SEG_LIMIT"
    using decomp(2) [OF 1(3)] decomp(2) [OF 1(4)] unfolding ir_def of_bool_def by auto
  then have w: "wrap64 (get_seg xs - get_seg ys - of_bool b) = ir"
    by (simp add: ir_def [symmetric] intptr_defs)
  have le: "segs_val (tl ys) + of_bool (ir < 0) \<le> segs_val (tl xs)"
  proof -
    have "INT_SEG_LIMIT * segs_val (tl ys) \<le> INT_SEG_LIMIT * segs_val (tl xs) + ir"
      using 1(5) decomp(1) [of xs] decomp(1) [of ys] by (simp add: ir_def)
    then show ?thesis using r by (simp split: if_splits add: of_bool_def)
  qed
  show ?case
  proof (cases "xs = [] \<and> ys = []")
    case True
    then show ?thesis using 1(5) by (cases b) (simp_all add: sub_loop.simps)
  next
    case False
    have len: "max (length xs) (length ys) = Suc (max (length (tl xs)) (length (tl ys)))"
      using False by (cases xs; cases ys) simp_all
    have "\<exists>zs. sub_loop (ir < 0) (tl xs) (tl ys) = Some zs \<and> segs_ok zs \<and>
        length zs = max (length (tl xs)) (length (tl ys)) \<and>
        segs_val zs = segs_val (tl xs) - segs_val (tl ys) - of_bool (ir < 0)"
      using 1(1) [OF False] 1(2) [OF False] decomp(2) 1(3,4) le by (cases "ir < 0") (simp_all add: w)
    then obtain zs where zs: "sub_loop (ir < 0) (tl xs) (tl ys) = Some zs" "segs_ok zs"
        "length zs = max (length (tl xs)) (length (tl ys))"
        "segs_val zs = segs_val (tl xs) - segs_val (tl ys) - of_bool (ir < 0)" by blast
    let ?d = "if ir < 0 then ir + INT_SEG_LIMIT else ir"
    have "sub_loop b xs ys = Some (?d # zs)"
      using False zs(1) by (cases "ir < 0") (simp_all add: sub_loop.simps [of b xs] w Let_def)
    moreover have "segs_val (?d # zs) = segs_val xs - segs_val ys - of_bool b"
      using zs(4) decomp(1) [of xs] decomp(1) [of ys] by (simp add: ir_def)
    ultimately show ?thesis using zs len r by auto
  qed
qed

lemma drop_leading_zeroes_segs:
  "segs_ok xs \<Longrightarrow> xs \<noteq> [] \<Longrightarrow> drop_leading_zeroes xs = pos_segs (segs_val xs)"
proof (induction xs rule: rev_induct)
  case (snoc x xs)
  show ?case
  proof (cases "x = 0 \<and> xs \<noteq> []")
    case True
    then show ?thesis
      using snoc by (cases xs) (simp_all add: drop_leading_zeroes.simps [of "xs @ [x]"] segs_val_append
          drop_leading_zeroes.simps [of "_ # _ @ [0]"])
  next
    case False
    then show ?thesis
      using snoc.prems pos_segs_segs_val [of "xs @ [x]"]
      by (auto simp: drop_leading_zeroes.simps [of "xs @ [x]"])
  qed
qed simp

text \<open>
  \<^verbatim>\<open>idio_bignum_add\<close> and \<^verbatim>\<open>idio_bignum_subtract\<close>: the mutual recursion that turns
  every case into a digit loop on non-negative operands.
\<close>

lemma sig_lt_asym: "sig_lt a b \<Longrightarrow> \<not> sig_negative_p a \<Longrightarrow> \<not> sig_negative_p b \<Longrightarrow> \<not> sig_lt b a"
proof -
  have "lt_loop False xs ys \<Longrightarrow> \<not> lt_loop False ys xs" for xs ys
    by (induction False xs ys rule: lt_loop.induct) (auto split: if_splits)
  then show "sig_lt a b \<Longrightarrow> \<not> sig_negative_p a \<Longrightarrow> \<not> sig_negative_p b \<Longrightarrow> ?thesis"
    by (auto simp: sig_lt_def split: if_splits)
qed

lemma not_sig_negative_p_abs [simp]: "\<not> sig_negative_p (sig_abs xs)"
  by (simp add: sig_negative_p_def)

function sig_add :: "bsa \<Rightarrow> bsa \<Rightarrow> bsa option"
  and sig_subtract :: "bsa \<Rightarrow> bsa \<Rightarrow> bsa option" where
  "sig_add a b =
    (if sig_negative_p a then
       if sig_negative_p b then map_option sig_negate (sig_add (sig_abs a) (sig_abs b))
       else sig_subtract b (sig_abs a)
     else if sig_negative_p b then sig_subtract a (sig_abs b)
     else Some (add_loop False a b))"
| "sig_subtract a b =
    (if sig_negative_p a then
       if sig_negative_p b then sig_subtract (sig_abs b) (sig_abs a)
       else map_option sig_negate (sig_add (sig_abs a) b)
     else if sig_negative_p b then sig_add a (sig_abs b)
     else if sig_lt a b then map_option sig_negate (sig_subtract b a)
     else map_option drop_leading_zeroes (sub_loop False a b))"
  by pat_completeness auto
termination
  by (relation "measure (case_sum
        (\<lambda>(a, b). 3 * of_bool (sig_negative_p a) + 3 * of_bool (sig_negative_p b))
        (\<lambda>(a, b). 3 * of_bool (sig_negative_p a) + 3 * of_bool (sig_negative_p b) + of_bool (sig_lt a b)))")
    (auto simp: sig_lt_asym)

declare sig_add.simps [simp del] sig_subtract.simps [simp del]

lemma sig_subtract_nonneg:
  assumes "0 \<le> x" "0 \<le> y"
  shows "sig_subtract (sig_of x) (sig_of y) = Some (sig_of (x - y))"
proof -
  have lt: "sig_lt (pos_segs x) (pos_segs y) \<longleftrightarrow> x < y" if "0 \<le> x" "0 \<le> y" for x y
    using sig_lt_sig_of [of x y] that by (simp only: sig_of_nonneg)
  have ge: "sig_subtract (pos_segs x) (pos_segs y) = Some (pos_segs (x - y))"
    if xy: "0 \<le> y" "y \<le> x" for x y
  proof -
    have "segs_val (pos_segs y) + of_bool False \<le> segs_val (pos_segs x)" using xy by simp
    then obtain zs where zs: "sub_loop False (pos_segs x) (pos_segs y) = Some zs" "segs_ok zs"
        "length zs = max (length (pos_segs x)) (length (pos_segs y))"
        "segs_val zs = segs_val (pos_segs x) - segs_val (pos_segs y) - of_bool False"
      using sub_loop_segs_val by (metis segs_ok_pos_segs)
    have "segs_val zs = x - y" using zs(4) xy by simp
    moreover have "zs \<noteq> []" using zs(3) xy pos_segs_not_Nil [of y] by (metis le_zero_eq length_0_conv max.cobounded2)
    ultimately show ?thesis
      using zs(1,2) xy lt [of x y]
      by (simp add: sig_subtract.simps [of "pos_segs x"] drop_leading_zeroes_segs)
  qed
  show ?thesis
  proof (cases "x < y")
    case True
    then have "sig_subtract (pos_segs x) (pos_segs y) = Some (sig_negate (pos_segs (y - x)))"
      using assms lt ge [of x y] by (simp add: sig_subtract.simps [of "pos_segs x"])
    also have "\<dots> = Some (sig_of (- (y - x)))" using True by (simp only: sig_of_neg)
    finally show ?thesis using assms by (simp add: sig_of_nonneg)
  next
    case False
    then show ?thesis using ge assms by (simp add: sig_of_nonneg)
  qed
qed

lemma sig_add_nonneg:
  "0 \<le> x \<Longrightarrow> 0 \<le> y \<Longrightarrow> sig_add (sig_of x) (sig_of y) = Some (sig_of (x + y))"
  by (simp add: sig_add.simps [of "sig_of x"]) (simp add: sig_of_nonneg add_loop_pos_segs)

lemma sig_add_sig_of [simp]: "sig_add (sig_of i) (sig_of j) = Some (sig_of (i + j))"
proof (cases "i < 0 \<or> j < 0")
  case True
  then show ?thesis
    by (cases "i < 0"; cases "j < 0")
      (simp_all add: sig_add.simps [of "sig_of i"] sig_add_nonneg sig_subtract_nonneg add.commute)
qed (simp add: sig_add_nonneg)

lemma sig_subtract_sig_of [simp]: "sig_subtract (sig_of i) (sig_of j) = Some (sig_of (i - j))"
proof (cases "i < 0 \<or> j < 0")
  case True
  then show ?thesis
    by (cases "i < 0"; cases "j < 0")
      (simp_all add: sig_subtract.simps [of "sig_of i"] sig_subtract_nonneg add.commute)
qed (simp add: sig_subtract_nonneg)

end
