(* ===== verification/Bignum_Mul_Div.thy ===== *)
theory Bignum_Mul_Div
  imports Bignum_Sig "HOL-Library.Monad_Syntax"
begin

text \<open>
  Multiplication and division on significand arrays (\<^verbatim>\<open>src/src/bignum.c\<close>), built
  as the C code builds them from shifts by a decimal digit, addition,
  subtraction and the order. The loops of \<^verbatim>\<open>idio_bignum_multiply\<close>,
  \<^verbatim>\<open>idio_bignum_equalize\<close> and \<^verbatim>\<open>idio_bignum_divide\<close> end by the size of what they
  shift, not by a bound in the code: they are partial functions here, and the
  theorems say that they end, with the product, the quotient and the remainder.
\<close>

section \<open>Shifting by a decimal digit\<close>

text \<open>
  \<^verbatim>\<open>idio_bignum_shift_left\<close>: times ten, with a digit shifted in. Its coding error
  \<^verbatim>\<open>non-last bignum segment < 0\<close> is \<open>None\<close>.
\<close>

fun shift_left_loop :: "int \<Rightarrow> bsa \<Rightarrow> bsa option" where
  "shift_left_loop carry [] = Some (if carry \<noteq> 0 then [carry] else [])"
| "shift_left_loop carry (i # is) =
    (if is \<noteq> [] \<and> i < 0 then None
     else if INT_SEG_LIMIT div 10 \<le> i then
       map_option ((#) (i smod (INT_SEG_LIMIT div 10) * 10 + carry))
         (shift_left_loop (i sdiv (INT_SEG_LIMIT div 10)) is)
     else map_option ((#) (wrap64 (i * 10 + carry))) (shift_left_loop 0 is))"

definition sig_shift_left :: "bsa \<Rightarrow> int \<Rightarrow> bsa option" where
  "sig_shift_left a fill = shift_left_loop fill a"

text \<open>
  \<^verbatim>\<open>idio_bignum_shift_right\<close>: the quotient by ten and the digit shifted out. The
  loop runs from the most significant segment, so the recursion does the tail
  first.
\<close>

fun shift_right_loop :: "bsa \<Rightarrow> bsa \<times> int" where
  "shift_right_loop [] = ([], 0)"
| "shift_right_loop (i # is) =
    (let (rs, carry) = shift_right_loop is;
         c = i smod 10;
         r = i sdiv 10 + carry * (INT_SEG_LIMIT div 10)
     in (r # rs, c))"

text \<open>An empty array is given the segment 0 first.\<close>

definition sig_shift_right :: "bsa \<Rightarrow> bsa \<times> int" where
  "sig_shift_right a =
    (let a' = (if a = [] then [0] else a);
         (ra, carry) = shift_right_loop a'
     in (if 1 < length a' \<and> mss ra = 0 then butlast ra else ra, carry))"

lemma shift_left_div_mod:
  assumes "0 \<le> (x::int)" "0 \<le> c" "c < 10"
  defines "i \<equiv> x mod INT_SEG_LIMIT"
  shows "INT_SEG_LIMIT div 10 \<le> i \<Longrightarrow> (10 * x + c) mod INT_SEG_LIMIT = i mod (INT_SEG_LIMIT div 10) * 10 + c"
    and "INT_SEG_LIMIT div 10 \<le> i \<Longrightarrow>
      (10 * x + c) div INT_SEG_LIMIT = 10 * (x div INT_SEG_LIMIT) + i div (INT_SEG_LIMIT div 10)"
    and "i < INT_SEG_LIMIT div 10 \<Longrightarrow> (10 * x + c) mod INT_SEG_LIMIT = i * 10 + c"
    and "i < INT_SEG_LIMIT div 10 \<Longrightarrow> (10 * x + c) div INT_SEG_LIMIT = 10 * (x div INT_SEG_LIMIT)"
    and "0 \<le> i" and "i div (INT_SEG_LIMIT div 10) < 10"
proof -
  let ?T = "100000000000000000 :: int"
  have i: "0 \<le> i" "i < INT_SEG_LIMIT" by (simp_all add: i_def)
  have x: "x = INT_SEG_LIMIT * (x div INT_SEG_LIMIT) + i"
    using mult_div_mod_eq [of INT_SEG_LIMIT x] unfolding i_def by simp
  have q: "i = ?T * (i div ?T) + i mod ?T" "0 \<le> i mod ?T" "i mod ?T < ?T" by simp_all
  show "0 \<le> i" by (rule i)
  show "i div (INT_SEG_LIMIT div 10) < 10" using i by (simp add: div_less_iff_less_mult)
  have big: "10 * x + c = INT_SEG_LIMIT * (10 * (x div INT_SEG_LIMIT) + i div ?T) + (i mod ?T * 10 + c)"
  proof -
    have "10 * (INT_SEG_LIMIT * X + (?T * Q + R)) + c = INT_SEG_LIMIT * (10 * X + Q) + (R * 10 + c)"
      for X Q R by simp
    then show ?thesis using x q(1) by metis
  qed
  have T: "INT_SEG_LIMIT div 10 = ?T" by simp
  have "0 \<le> R \<Longrightarrow> R < ?T \<Longrightarrow> 0 \<le> R * 10 + c \<and> R * 10 + c < INT_SEG_LIMIT" for R
    using assms(2,3) by simp
  from this [OF q(2,3)] have r: "0 \<le> i mod ?T * 10 + c" "i mod ?T * 10 + c < INT_SEG_LIMIT" by auto
  show "(10 * x + c) mod INT_SEG_LIMIT = i mod (INT_SEG_LIMIT div 10) * 10 + c"
    unfolding T by (rule int_mod_pos_eq [OF big r])
  show "(10 * x + c) div INT_SEG_LIMIT = 10 * (x div INT_SEG_LIMIT) + i div (INT_SEG_LIMIT div 10)"
    unfolding T by (rule int_div_pos_eq [OF big r])
  have small: "10 * x + c = INT_SEG_LIMIT * (10 * (x div INT_SEG_LIMIT)) + (i * 10 + c)"
  proof -
    have "10 * (INT_SEG_LIMIT * X + I) + c = INT_SEG_LIMIT * (10 * X) + (I * 10 + c)" for X I by simp
    then show ?thesis using x by metis
  qed
  show "(10 * x + c) mod INT_SEG_LIMIT = i * 10 + c" if "i < INT_SEG_LIMIT div 10"
    using int_mod_pos_eq [OF small] that i assms by simp
  show "(10 * x + c) div INT_SEG_LIMIT = 10 * (x div INT_SEG_LIMIT)" if "i < INT_SEG_LIMIT div 10"
    using int_div_pos_eq [OF small] that i assms by simp
qed

lemma shift_left_loop_segs0:
  "0 \<le> x \<Longrightarrow> 0 \<le> c \<Longrightarrow> c < 10 \<Longrightarrow> shift_left_loop c (segs0 x) = Some (segs0 (10 * x + c))"
proof (induction x arbitrary: c rule: segs0.induct)
  case (1 x)
  show ?case
  proof (cases "0 < x")
    case False
    then show ?thesis using 1 by (simp add: segs0_single)
  next
    case True
    let ?i = "x mod INT_SEG_LIMIT" and ?T = "INT_SEG_LIMIT div 10"
    note dm = shift_left_div_mod [OF 1(2,3,4)]
    have x': "0 \<le> x div INT_SEG_LIMIT" using 1(2) by (simp add: pos_imp_zdiv_nonneg_iff)
    have IH: "shift_left_loop c' (segs0 (x div INT_SEG_LIMIT)) = Some (segs0 (10 * (x div INT_SEG_LIMIT) + c'))"
      if "0 \<le> c'" "c' < 10" for c'
      using 1(1) True x' that by simp
    have R: "segs0 (10 * x + c) = (10 * x + c) mod INT_SEG_LIMIT # segs0 ((10 * x + c) div INT_SEG_LIMIT)"
      using True 1(3) by (intro segs0_pos) simp
    show ?thesis
    proof (cases "?T \<le> ?i")
      case T: True
      have "0 \<le> ?i div ?T" by (simp add: pos_imp_zdiv_nonneg_iff)
      then have "shift_left_loop (?i sdiv ?T) (segs0 (x div INT_SEG_LIMIT)) =
          Some (segs0 (10 * (x div INT_SEG_LIMIT) + ?i div ?T))"
        using IH [of "?i div ?T"] dm(6) by simp
      then show ?thesis
        unfolding R dm(1,2) [OF T] using True T dm(5) by (simp add: segs0_pos)
    next
      case T: False
      then have T': "?i < ?T" by simp
      have "?i * 10 + c < INT_SEG_LIMIT" using T' 1(4) by simp
      then have "wrap64 (?i * 10 + c) = ?i * 10 + c" using 1(3) by (simp add: intptr_defs)
      then show ?thesis
        unfolding R dm(3,4) [OF T'] using True T dm(5) IH [of 0] by (auto simp: segs0_pos)
    qed
  qed
qed

lemma sig_shift_left_sig_of [simp]:
  assumes "0 \<le> v" "0 \<le> fill" "fill < 10 \<or> v = 0 \<and> fill = 10"
  shows "sig_shift_left (sig_of v) fill = Some (sig_of (10 * v + fill))"
proof (cases "v = 0")
  case True
  then show ?thesis using assms by (auto simp: sig_shift_left_def sig_of_nonneg pos_segs_def segs0_single intptr_defs)
next
  case False
  then show ?thesis using assms
    by (simp add: sig_shift_left_def sig_of_nonneg pos_segs_def shift_left_loop_segs0)
qed

lemma shift_right_loop_segs0:
  "0 \<le> x \<Longrightarrow> \<exists>n \<le> 1. shift_right_loop (segs0 x) = (segs0 (x div 10) @ replicate n 0, x mod 10)"
proof (induction x rule: segs0.induct)
  case (1 x)
  show ?case
  proof (cases "0 < x")
    case False
    then show ?thesis using 1(2) by (intro exI [of _ 0]) simp
  next
    case True
    define X i where "X = x div INT_SEG_LIMIT" and "i = x mod INT_SEG_LIMIT"
    have x: "x = INT_SEG_LIMIT * X + i" using mult_div_mod_eq [of INT_SEG_LIMIT x] by (simp add: X_def i_def)
    have X: "0 \<le> X" using 1(2) by (simp add: X_def pos_imp_zdiv_nonneg_iff)
    have i: "0 \<le> i" "i < INT_SEG_LIMIT" by (simp_all add: i_def)
    obtain n where n: "n \<le> 1" "shift_right_loop (segs0 X) = (segs0 (X div 10) @ replicate n 0, X mod 10)"
      using 1(1) True X by (auto simp: X_def)
    define r where "r = i div 10 + X mod 10 * (INT_SEG_LIMIT div 10)"
    have r: "0 \<le> r" "r < INT_SEG_LIMIT" using i by (auto simp: r_def)
    have "INT_SEG_LIMIT * (10 * a + b) + i = 10 * (INT_SEG_LIMIT * a + 100000000000000000 * b) + i" for a b
      by simp
    from this [of "X div 10" "X mod 10"] obtain K where K: "K = INT_SEG_LIMIT * (X div 10) + 100000000000000000 * (X mod 10)"
        "x = i + 10 * K"
      using x by simp
    have d10: "x div 10 = INT_SEG_LIMIT * (X div 10) + r" and m10: "x mod 10 = i mod 10"
      by (simp_all add: K(2)) (simp add: K(1) r_def)
    have dL: "x div 10 div INT_SEG_LIMIT = X div 10" and mL: "x div 10 mod INT_SEG_LIMIT = r"
      using int_div_pos_eq [OF d10 r] int_mod_pos_eq [OF d10 r] by simp_all
    have L: "shift_right_loop (segs0 x) = (r # segs0 (X div 10) @ replicate n 0, x mod 10)"
      using n(2) i by (simp add: segs0_pos [OF True] m10 r_def flip: X_def i_def)
    show ?thesis
    proof (cases "0 < x div 10")
      case True
      then show ?thesis using L n(1) by (intro exI [of _ n]) (simp add: segs0_pos [OF True] dL mL)
    next
      case False
      then have "x < 10" by simp
      then have "X = 0" using 1(2) by (simp add: X_def zdiv_eq_0_iff)
      then have "n = 0" "r = 0" using n(2) i \<open>x < 10\<close> x by (simp_all add: r_def)
      then show ?thesis using L False \<open>X = 0\<close> by (intro exI [of _ 1]) simp
    qed
  qed
qed

lemma sig_shift_right_sig_of [simp]:
  assumes "0 \<le> x"
  shows "sig_shift_right (sig_of x) = (sig_of (x div 10), x mod 10)"
proof (cases "x = 0")
  case True
  then show ?thesis by (simp add: sig_shift_right_def sig_of_nonneg pos_segs_def)
next
  case False
  then have x: "0 < x" "0 \<le> x div 10" using assms by (simp_all add: pos_imp_zdiv_nonneg_iff)
  obtain n where n: "n \<le> 1" "shift_right_loop (segs0 x) = (segs0 (x div 10) @ replicate n 0, x mod 10)"
    using shift_right_loop_segs0 assms by blast
  let ?ra = "segs0 (x div 10) @ replicate n 0"
  have len: "length (segs0 x) = length ?ra"
  proof -
    have "length (fst (shift_right_loop xs)) = length xs" for xs
      by (induction xs) (simp_all add: case_prod_beta Let_def)
    from this [of "segs0 x"] show ?thesis using n(2) by simp
  qed
  have "(if 1 < length ?ra \<and> mss ?ra = 0 then butlast ?ra else ?ra) = pos_segs (x div 10)"
  proof (cases "x div 10 = 0")
    case True
    then have "length ?ra = 1" "x div 10 = 0" using n(1) len x by (auto simp: segs0_single)
    then show ?thesis by (cases n) (simp_all add: pos_segs_def)
  next
    case False
    then have "0 < x div 10" using x by simp
    then have "0 < mss (segs0 (x div 10))" "segs0 (x div 10) \<noteq> []" using segs0_mss_pos by auto
    moreover have "n = 0 \<or> n = 1" using n(1) by auto
    ultimately show ?thesis using False by (auto simp: pos_segs_def)
  qed
  then show ?thesis
    using x n(2) len by (simp add: sig_shift_right_def sig_of_nonneg pos_segs_def)
qed

section \<open>Multiplication\<close>

text \<open>
  \<^verbatim>\<open>while (i) { r = r + ab; i--; }\<close>: a negative digit would count down through
  the whole of \<^verbatim>\<open>int64_t\<close>.
\<close>

function add_times :: "int \<Rightarrow> bsa \<Rightarrow> bsa \<Rightarrow> bsa option" where
  "add_times i r ab =
    (if i = 0 then Some r
     else if i < 0 then None
     else Option.bind (sig_add r ab) (\<lambda>r'. add_times (i - 1) r' ab))"
  by pat_completeness auto
termination
  by (relation "measure (\<lambda>(i, r, ab). nat i)") auto

declare add_times.simps [simp del]

partial_function (option) mul_loop :: "bsa \<Rightarrow> bsa \<Rightarrow> bsa \<Rightarrow> bsa option" where
  "mul_loop aa ab r =
    (if sig_zero_p aa then Some r
     else let (aa', i) = sig_shift_right aa in
       Option.bind (add_times i r ab) (\<lambda>r'.
       Option.bind (sig_shift_left ab 0) (\<lambda>ab'. mul_loop aa' ab' r')))"

definition sig_multiply :: "bsa \<Rightarrow> bsa \<Rightarrow> bsa option" where
  "sig_multiply a b =
    (let neg = (sig_negative_p a \<noteq> sig_negative_p b) in
     map_option (\<lambda>r. if neg then sig_negate r else r)
       (mul_loop (sig_abs a) (sig_abs b) (sig_of 0)))"

lemma add_times_sig_of [simp]:
  "0 \<le> i \<Longrightarrow> add_times i (sig_of r) (sig_of b) = Some (sig_of (r + i * b))"
proof (induction "nat i" arbitrary: i r)
  case (Suc n)
  then have i: "0 < i" "n = nat (i - 1)" by simp_all
  then have "add_times i (sig_of r) (sig_of b) = Some (sig_of (r + b + (i - 1) * b))"
    using Suc(1) [of "i - 1" "r + b"] by (simp add: add_times.simps [of i])
  then show ?case by (simp add: algebra_simps)
qed (simp add: add_times.simps)

lemma mul_loop_sig_of:
  "0 \<le> x \<Longrightarrow> 0 \<le> y \<Longrightarrow> mul_loop (sig_of x) (sig_of y) (sig_of r) = Some (sig_of (r + x * y))"
proof (induction "nat x" arbitrary: x y r rule: less_induct)
  case less
  show ?case
  proof (cases "x = 0")
    case True
    then show ?thesis by (simp add: mul_loop.simps)
  next
    case False
    have "mul_loop (sig_of (x div 10)) (sig_of (10 * y)) (sig_of (r + x mod 10 * y)) =
        Some (sig_of (r + x mod 10 * y + x div 10 * (10 * y)))"
      using less.prems False by (intro less.hyps) simp_all
    also have "r + x mod 10 * y + x div 10 * (10 * y) = r + x * y"
    proof -
      have "x = 10 * d + m \<Longrightarrow> r + m * y + d * (10 * y) = r + x * y" for d m
        by (simp add: algebra_simps)
      then show ?thesis by (metis mult_div_mod_eq)
    qed
    finally show ?thesis
      using less.prems False by (simp add: mul_loop.simps [of "sig_of x"])
  qed
qed

lemma sig_multiply_sig_of [simp]: "sig_multiply (sig_of i) (sig_of j) = Some (sig_of (i * j))"
  by (cases "i < 0"; cases "j < 0") (simp_all add: sig_multiply_def mul_loop_sig_of)

section \<open>Division\<close>

text \<open>
  \<^verbatim>\<open>idio_bignum_equalize\<close>: the divisor times the greatest power of ten that keeps
  it below \<open>a\<close>, and that power.
\<close>

partial_function (option) eq_loop :: "bsa \<Rightarrow> bsa \<Rightarrow> bsa \<Rightarrow> bsa \<Rightarrow> bsa \<Rightarrow> (bsa \<times> bsa) option" where
  "eq_loop a rp fp rn fn =
    (if sig_lt rn a then
       Option.bind (sig_shift_left rn 0) (\<lambda>rn'.
       Option.bind (sig_shift_left fn 0) (\<lambda>fn'. eq_loop a rn fn rn' fn'))
     else Some (rp, fp))"

definition sig_equalize :: "bsa \<Rightarrow> bsa \<Rightarrow> (bsa \<times> bsa) option" where
  "sig_equalize a b = (let fp = sig_of 1 in eq_loop a b fp b fp)"

text \<open>
  One digit of the quotient: \<open>c\<close> runs over the multiples of the scaled divisor
  \<open>sd\<close>, \<open>c0\<close> is the last one not above \<open>r_mod\<close> and \<open>i\<close> counts the steps.
\<close>

partial_function (option) div_inner :: "bsa \<Rightarrow> bsa \<Rightarrow> bsa \<Rightarrow> bsa \<Rightarrow> int \<Rightarrow> (bsa \<times> int) option" where
  "div_inner r_mod sd c c0 i =
    (if \<not> sig_lt r_mod c then
       Option.bind (sig_add c sd) (\<lambda>c'. div_inner r_mod sd c' c (i + 1))
     else Some (c0, i))"

partial_function (option) div_outer :: "bsa \<Rightarrow> bsa \<Rightarrow> bsa \<Rightarrow> bsa \<Rightarrow> (bsa \<times> bsa) option" where
  "div_outer r_div r_mod sf sd =
    (if sig_zero_p sf then Some (r_div, r_mod)
     else Option.bind (div_inner r_mod sd (sig_of 0) (sig_of 0) 0) (\<lambda>(c0, i).
       Option.bind (sig_shift_left r_div (i - 1)) (\<lambda>r_div'.
       Option.bind (sig_subtract r_mod c0) (\<lambda>r_mod'.
       div_outer r_div' r_mod' (fst (sig_shift_right sf)) (fst (sig_shift_right sd))))))"

text \<open>
  \<^verbatim>\<open>idio_bignum_divide\<close>. The early return for a dividend smaller than the divisor
  is taken for a negative dividend only.
\<close>

definition sig_divide :: "bsa \<Rightarrow> bsa \<Rightarrow> (bsa \<times> bsa) result option" where
  "sig_divide a b =
    (if sig_zero_p b then Some (Inl Divide_by_zero_error)
     else
       let na = sig_negative_p a;
           neg = (na \<noteq> sig_negative_p b);
           aa = sig_abs a;
           ab = sig_abs b;
           r_div = sig_of 0
       in if sig_lt aa ab \<and> na then Some (Inr (r_div, a))
          else Option.bind (sig_equalize aa ab) (\<lambda>(sd, sf).
            map_option (\<lambda>(r_div, r_mod).
                Inr (if neg then sig_negate r_div else r_div, if na then sig_negate r_mod else r_mod))
              (div_outer r_div aa sf sd)))"

lemma eq_loop_sig_of:
  assumes "0 < b" "0 \<le> a"
  shows "\<exists>m. eq_loop (sig_of a) (sig_of (b * 10 ^ (k - 1))) (sig_of (10 ^ (k - 1)))
      (sig_of (b * 10 ^ k)) (sig_of (10 ^ k)) = Some (sig_of (b * 10 ^ m), sig_of (10 ^ m)) \<and>
    a \<le> 10 * (b * 10 ^ m)"
proof (induction "nat (a - b * 10 ^ k)" arbitrary: k rule: less_induct)
  case less
  show ?case
  proof (cases "b * 10 ^ k < a")
    case True
    have "b * 10 ^ k < b * 10 ^ Suc k" using assms by simp
    then obtain m where "eq_loop (sig_of a) (sig_of (b * 10 ^ (Suc k - 1))) (sig_of (10 ^ (Suc k - 1)))
        (sig_of (b * 10 ^ Suc k)) (sig_of (10 ^ Suc k)) = Some (sig_of (b * 10 ^ m), sig_of (10 ^ m))"
        "a \<le> 10 * (b * 10 ^ m)"
      using less.hyps [of "Suc k"] True by auto
    moreover have "sig_shift_left (sig_of (b * 10 ^ k)) 0 = Some (sig_of (b * 10 ^ Suc k))"
      using assms by (subst sig_shift_left_sig_of) (simp_all add: mult.left_commute)
    ultimately show ?thesis
      using True by (intro exI [of _ m]) (simp add: eq_loop.simps [of _ _ _ "sig_of (b * 10 ^ k)"])
  next
    case False
    have "10 * (b * 10 ^ (k - 1)) \<ge> b * 10 ^ k" using assms by (cases k) simp_all
    then show ?thesis
      using False by (intro exI [of _ "k - 1"]) (simp add: eq_loop.simps)
  qed
qed

lemma sig_equalize_sig_of:
  assumes "0 < b" "0 \<le> a"
  obtains m where "sig_equalize (sig_of a) (sig_of b) = Some (sig_of (b * 10 ^ m), sig_of (10 ^ m))"
    "a \<le> 10 * (b * 10 ^ m)"
  using eq_loop_sig_of [OF assms, of 0] by (auto simp: sig_equalize_def)

lemma div_inner_sig_of:
  "0 < sd \<Longrightarrow> 0 \<le> r \<Longrightarrow> 0 \<le> i \<Longrightarrow> i \<le> r div sd \<Longrightarrow>
   div_inner (sig_of r) (sig_of sd) (sig_of (sd * i)) c0 i =
     Some (sig_of (sd * (r div sd)), r div sd + 1)"
proof (induction "nat (r div sd - i)" arbitrary: i c0)
  case 0
  then have i: "i = r div sd" by simp
  have "\<not> r < sd * (r div sd)"
    using 0 pos_mod_sign [of sd r] mult_div_mod_eq [of sd r] by linarith
  moreover have "r < sd * (r div sd) + sd"
    using 0 pos_mod_bound [of sd r] mult_div_mod_eq [of sd r] by linarith
  ultimately show ?case
    unfolding i by (simp add: div_inner.simps [of _ _ "sig_of (sd * (r div sd))"]
        div_inner.simps [of _ _ "sig_of (sd * (r div sd) + sd)"])
next
  case (Suc n)
  then have i: "i + 1 \<le> r div sd" by simp
  have "sd * i \<le> sd * (r div sd)" using Suc by (intro mult_left_mono) simp_all
  also have "\<dots> \<le> r" using Suc pos_mod_sign [of sd r] mult_div_mod_eq [of sd r] by linarith
  finally have "\<not> r < sd * i" by simp
  moreover have "div_inner (sig_of r) (sig_of sd) (sig_of (sd * (i + 1))) (sig_of (sd * i)) (i + 1) =
      Some (sig_of (sd * (r div sd)), r div sd + 1)"
    using Suc i by (intro Suc(1)) simp_all
  ultimately show ?case
    by (simp add: div_inner.simps [of _ _ "sig_of (sd * i)"] distrib_left)
qed

lemma div_outer_step:
  assumes "0 < sd" "0 \<le> q" "0 \<le> r" "r div sd < 10 \<or> q = 0 \<and> r div sd = 10" "0 < sf"
  shows "div_outer (sig_of q) (sig_of r) (sig_of sf) (sig_of sd) =
    div_outer (sig_of (10 * q + r div sd)) (sig_of (r mod sd)) (sig_of (sf div 10)) (sig_of (sd div 10))"
proof -
  have "0 \<le> r div sd" using assms by (simp add: pos_imp_zdiv_nonneg_iff)
  moreover have "r - sd * (r div sd) = r mod sd" by (simp add: minus_mult_div_eq_mod)
  ultimately show ?thesis
    using assms div_inner_sig_of [of sd r 0 "sig_of 0"] by (simp add: div_outer.simps [of "sig_of q"])
qed

lemma div_outer_sig_of:
  "0 < b \<Longrightarrow> 0 \<le> q \<Longrightarrow> 0 \<le> r \<Longrightarrow>
   r div (b * 10 ^ m) < 10 \<or> q = 0 \<and> r div (b * 10 ^ m) = 10 \<Longrightarrow>
   div_outer (sig_of q) (sig_of r) (sig_of (10 ^ m)) (sig_of (b * 10 ^ m)) =
     Some (sig_of (10 ^ Suc m * q + r div b), sig_of (r mod b))"
proof (induction m arbitrary: q r)
  case 0
  then show ?case using div_outer_step [of b q r 1] by (simp add: div_outer.simps)
next
  case (Suc m)
  let ?s = "b * 10 ^ m" and ?q = "r div (b * 10 ^ Suc m)" and ?r = "r mod (b * 10 ^ Suc m)"
  have s: "0 < ?s" "b * 10 ^ Suc m = ?s * 10" using Suc.prems by simp_all
  have r: "0 \<le> ?r" "?r < ?s * 10" unfolding s(2) using s by simp_all
  have "?r div ?s < 10" using int_div_less [OF s(1), of ?r 10] r(2) by (simp only: mult.commute)
  moreover have "0 \<le> 10 * q + ?q" using Suc.prems s by (simp add: pos_imp_zdiv_nonneg_iff)
  ultimately have "div_outer (sig_of (10 * q + ?q)) (sig_of ?r) (sig_of (10 ^ m)) (sig_of ?s) =
      Some (sig_of (10 ^ Suc m * (10 * q + ?q) + ?r div b), sig_of (?r mod b))"
    using Suc.prems r by (intro Suc.IH) simp_all
  moreover have "?r mod b = r mod b" by (simp add: mod_mod_cancel)
  moreover have "10 ^ Suc m * ?q + ?r div b = r div b"
  proof -
    have "r = ?r + b * (10 ^ Suc m * ?q)"
      using mult_div_mod_eq [of "b * 10 ^ Suc m" r] by (simp add: ac_simps)
    then have "r div b = (?r + b * (10 ^ Suc m * ?q)) div b" by simp
    then show ?thesis using Suc.prems by simp
  qed
  moreover have "div_outer (sig_of q) (sig_of r) (sig_of (10 ^ Suc m)) (sig_of (b * 10 ^ Suc m)) =
      div_outer (sig_of (10 * q + ?q)) (sig_of ?r) (sig_of (10 ^ m)) (sig_of ?s)"
    using div_outer_step [of "b * 10 ^ Suc m" q r "10 ^ Suc m"] Suc.prems by simp
  ultimately show ?case by (simp add: algebra_simps)
qed

lemma sig_divide_nonneg:
  assumes "0 < b" "0 \<le> a"
  obtains sd sf where "sig_equalize (sig_of a) (sig_of b) = Some (sd, sf)"
    "div_outer (sig_of 0) (sig_of a) sf sd = Some (sig_of (a div b), sig_of (a mod b))"
proof -
  obtain m where m: "sig_equalize (sig_of a) (sig_of b) = Some (sig_of (b * 10 ^ m), sig_of (10 ^ m))"
    "a \<le> 10 * (b * 10 ^ m)" using sig_equalize_sig_of assms by blast
  have "a div (b * 10 ^ m) \<le> (10 * (b * 10 ^ m)) div (b * 10 ^ m)"
    using m(2) assms by (intro zdiv_mono1) simp_all
  also have "\<dots> = 10" using assms by simp
  finally have "a div (b * 10 ^ m) < 10 \<or> a div (b * 10 ^ m) = 10" by auto
  then show thesis using that m(1) div_outer_sig_of [of b 0 a m] assms by auto
qed

lemma sig_divide_sig_of [simp]:
  "sig_divide (sig_of i) (sig_of j) =
     Some (if j = 0 then Inl Divide_by_zero_error else Inr (sig_of (i sdiv j), sig_of (i smod j)))"
proof (cases "j = 0")
  case False
  then have "0 < \<bar>j\<bar>" "0 \<le> \<bar>i\<bar>" by simp_all
  then obtain sd sf where d: "sig_equalize (sig_of \<bar>i\<bar>) (sig_of \<bar>j\<bar>) = Some (sd, sf)"
    "div_outer (sig_of 0) (sig_of \<bar>i\<bar>) sf sd = Some (sig_of (\<bar>i\<bar> div \<bar>j\<bar>), sig_of (\<bar>i\<bar> mod \<bar>j\<bar>))"
    using sig_divide_nonneg by metis
  have sd: "i sdiv j = (if (i < 0) \<noteq> (j < 0) then - (\<bar>i\<bar> div \<bar>j\<bar>) else \<bar>i\<bar> div \<bar>j\<bar>)"
    using False by (auto simp: signed_divide_int_def sgn_if)
  have sm: "i smod j = (if i < 0 then - (\<bar>i\<bar> mod \<bar>j\<bar>) else \<bar>i\<bar> mod \<bar>j\<bar>)"
    by (auto simp: signed_modulo_int_def sgn_if)
  show ?thesis
  proof (cases "\<bar>i\<bar> < \<bar>j\<bar> \<and> i < 0")
    case True
    then have "\<bar>i\<bar> div \<bar>j\<bar> = 0" "\<bar>i\<bar> mod \<bar>j\<bar> = \<bar>i\<bar>" by auto
    then have "i sdiv j = 0" "i smod j = i" unfolding sd sm using True by auto
    then show ?thesis using True False by (auto simp: sig_divide_def Let_def)
  next
    case neg: False
    then show ?thesis using False d by (auto simp: sig_divide_def sd sm)
  qed
qed (simp add: sig_divide_def)

end
