(* ===== verification/Bignum_Num.thy ===== *)
theory Bignum_Num
  imports Bignum_Mul_Div
begin

text \<open>
  The bignum object of \<^verbatim>\<open>src/src/gc.h\<close> and \<^verbatim>\<open>src/src/bignum.c\<close>: its construction
  from C integers and its conversions to a fixnum and to the C integer types.
\<close>

section \<open>Computations that may not end\<close>

text \<open>
  Bignum operations may raise a condition and, on arrays that no operation
  builds, run forever: \<open>None\<close> is a loop that does not end or the coding error of
  \<open>shift_left_loop\<close>, \<open>Some (Inl e)\<close> a raised condition.
\<close>

type_synonym 'a comp = "'a result option"

definition ret :: "'a \<Rightarrow> 'a comp" where
  "ret x = Some (Inr x)"

definition raise :: "idio_error \<Rightarrow> 'a comp" where
  "raise e = Some (Inl e)"

definition bind_comp :: "'a comp \<Rightarrow> ('a \<Rightarrow> 'b comp) \<Rightarrow> 'b comp" where
  "bind_comp m f = (case m of None \<Rightarrow> None | Some (Inl e) \<Rightarrow> Some (Inl e) | Some (Inr x) \<Rightarrow> f x)"

definition of_opt :: "'a option \<Rightarrow> 'a comp" where
  "of_opt m = map_option Inr m"

lemma comp_simps [simp]:
  "bind_comp (ret x) f = f x" "bind_comp (raise e) f = raise e" "bind_comp None f = None"
  "of_opt (Some x) = ret x" "of_opt None = None"
  by (simp_all add: bind_comp_def ret_def raise_def of_opt_def)

lemma ret_raise_eq [simp]:
  "ret x = ret y \<longleftrightarrow> x = y" "raise e = raise e' \<longleftrightarrow> e = e'" "ret x \<noteq> raise e" "raise e \<noteq> ret x"
  "ret x \<noteq> None" "None \<noteq> ret x" "raise e \<noteq> None" "None \<noteq> raise e"
  by (simp_all add: ret_def raise_def)

lemma Some_result [simp]: "Some (Inr x) = ret x" "Some (Inl e) = raise e"
  by (simp_all add: ret_def raise_def)

lemma bind_comp_assoc: "bind_comp (bind_comp m f) g = bind_comp m (\<lambda>x. bind_comp (f x) g)"
proof (cases m)
  case (Some r)
  then show ?thesis by (cases r) simp_all
qed simp

lemma comp_cases:
  obtains "m = None" | e where "m = raise e" | x where "m = ret x"
  by (metis Some_result option.exhaust sum.exhaust)

text \<open>A counted loop whose body is such a computation.\<close>

fun fold_comp :: "('i \<Rightarrow> 's \<Rightarrow> 's comp) \<Rightarrow> 'i list \<Rightarrow> 's \<Rightarrow> 's comp" where
  "fold_comp f [] s = ret s"
| "fold_comp f (i # is) s = bind_comp (f i s) (fold_comp f is)"

lemma fold_comp_append: "fold_comp f (xs @ ys) w = bind_comp (fold_comp f xs w) (fold_comp f ys)"
proof (induction xs arbitrary: w)
  case (Cons x xs)
  then have IH: "fold_comp f (xs @ ys) = (\<lambda>w. bind_comp (fold_comp f xs w) (fold_comp f ys))" by blast
  show ?case by (simp add: IH bind_comp_assoc)
qed simp

lemma bind_comp_cong_ret:
  assumes "\<And>x. m = ret x \<Longrightarrow> f x = g x"
  shows "bind_comp m f = bind_comp m g"
  using assms by (cases m rule: comp_cases) auto

lemma bind_comp_ret_cases:
  assumes "bind_comp m f = ret y"
  obtains x where "m = ret x" "f x = ret y"
  using assms by (cases m rule: comp_cases) auto

lemma fold_comp_keeps:
  assumes "\<And>k w w'. f k w = ret w' \<Longrightarrow> B w' = B w"
  shows "fold_comp f ks w = ret w' \<Longrightarrow> B w' = B w"
proof (induction ks arbitrary: w)
  case (Cons k ks)
  then obtain w1 where w1: "f k w = ret w1" "fold_comp f ks w1 = ret w'"
    using bind_comp_ret_cases [of "f k w" "fold_comp f ks" w'] by auto
  show ?case using Cons.IH [OF w1(2)] assms [OF w1(1)] by simp
qed simp

section \<open>The bignum object\<close>

text \<open>The flags \<^verbatim>\<open>IDIO_BIGNUM_FLAG_*\<close>, each a bit in \<^verbatim>\<open>tflags\<close>.\<close>

record bn_flags =
  flag_integer :: bool
  flag_real :: bool
  flag_real_negative :: bool
  flag_real_inexact :: bool
  flag_nan :: bool

record bignum =
  bn_flags :: bn_flags
  bn_exp :: int
  bn_sig :: bsa

definition FLAG_NONE :: bn_flags where
  "FLAG_NONE = \<lparr>flag_integer = False, flag_real = False, flag_real_negative = False,
     flag_real_inexact = False, flag_nan = False\<rparr>"

definition idio_bignum :: "bn_flags \<Rightarrow> int \<Rightarrow> bsa \<Rightarrow> bignum" where
  "idio_bignum flags exp sig = \<lparr>bn_flags = flags, bn_exp = exp, bn_sig = sig\<rparr>"

definition bignum_integer :: "bsa \<Rightarrow> bignum" where
  "bignum_integer sig = idio_bignum (FLAG_NONE\<lparr>flag_integer := True\<rparr>) 0 sig"

definition integer_p :: "bignum \<Rightarrow> bool" where
  "integer_p bn = flag_integer (bn_flags bn)"

text \<open>\<open>bn_of i\<close>: the integer bignum of \<open>i\<close>.\<close>

definition bn_of :: "int \<Rightarrow> bignum" where
  "bn_of i = bignum_integer (sig_of i)"

text \<open>
  \<^verbatim>\<open>idio_bignum_integer_intmax_t\<close>. \<^verbatim>\<open>INTMAX_MIN\<close> has no absolute value in
  \<^verbatim>\<open>intmax_t\<close>, so its loop runs on \<^verbatim>\<open>INTMAX_MAX\<close> with a carry.
\<close>

lemma intmax_step_less:
  "i \<noteq> 0 \<Longrightarrow> nat \<bar>(i - i smod INT_SEG_LIMIT) sdiv INT_SEG_LIMIT\<bar> < nat \<bar>i\<bar>"
proof -
  assume i: "i \<noteq> 0"
  have "0 \<le> \<bar>i\<bar> mod INT_SEG_LIMIT" "\<bar>i\<bar> mod INT_SEG_LIMIT \<le> \<bar>i\<bar>"
    by (simp_all add: zmod_le_nonneg_dividend)
  then have m: "\<bar>i - i smod INT_SEG_LIMIT\<bar> \<le> \<bar>i\<bar>"
    unfolding signed_modulo_int_def sgn_if by auto
  have "\<bar>(i - i smod INT_SEG_LIMIT) sdiv INT_SEG_LIMIT\<bar> \<le> \<bar>i - i smod INT_SEG_LIMIT\<bar> div INT_SEG_LIMIT"
    unfolding signed_divide_int_def by (simp add: abs_mult sgn_if pos_imp_zdiv_nonneg_iff)
  also have "\<dots> \<le> \<bar>i\<bar> div INT_SEG_LIMIT" using m by (rule zdiv_mono1) simp
  also have "\<dots> < \<bar>i\<bar>" using i by (intro int_div_less_self) simp_all
  finally show ?thesis by simp
qed

function intmax_loop :: "bool \<Rightarrow> int \<Rightarrow> bsa" where
  "intmax_loop carry i =
    (if i = 0 then []
     else let m = i smod INT_SEG_LIMIT;
              v0 = (if carry then m + 1 else m);
              carry' = (carry \<and> v0 = INT_SEG_LIMIT);
              v = (if carry' then 0 else v0)
          in v # intmax_loop carry' ((i - m) sdiv INT_SEG_LIMIT))"
  by pat_completeness auto
termination
  by (relation "measure (\<lambda>(c, i). nat \<bar>i\<bar>)") (use intmax_step_less in \<open>auto simp: Let_def\<close>)

declare intmax_loop.simps [simp del]

definition intmax_segs :: "bool \<Rightarrow> int \<Rightarrow> bsa" where
  "intmax_segs carry i = (if INT_SEG_LIMIT \<le> i then intmax_loop carry i else [i])"

definition bignum_integer_intmax_t :: "int \<Rightarrow> bignum" where
  "bignum_integer_intmax_t i0 =
    (let neg = (i0 < 0);
         carry = (i0 = INTPTR_MIN);
         i = (if carry then INTPTR_MAX else if neg then - i0 else i0);
         sig = intmax_segs carry i
     in bignum_integer (if neg then set_mss (- mss sig) sig else sig))"

function uintmax_loop :: "int \<Rightarrow> bsa" where
  "uintmax_loop ui =
    (if ui = 0 then []
     else let m = ui smod INT_SEG_LIMIT in m # uintmax_loop ((ui - m) sdiv INT_SEG_LIMIT))"
  by pat_completeness auto
termination
  by (relation "measure (\<lambda>i. nat \<bar>i\<bar>)") (use intmax_step_less in \<open>auto simp: Let_def\<close>)

declare uintmax_loop.simps [simp del]

definition bignum_integer_uintmax_t :: "int \<Rightarrow> bignum" where
  "bignum_integer_uintmax_t ui =
    bignum_integer (if INT_SEG_LIMIT \<le> ui then uintmax_loop ui else [ui])"

lemma sub_mod_sdiv: "0 \<le> i \<Longrightarrow> (i - i mod INT_SEG_LIMIT) sdiv INT_SEG_LIMIT = i div INT_SEG_LIMIT"
  by (subst sdiv_nonneg) (simp_all add: zmod_le_nonneg_dividend minus_mod_eq_mult_div)

lemma intmax_loop_segs0: "0 \<le> i \<Longrightarrow> intmax_loop False i = segs0 i"
proof (induction i rule: segs0.induct)
  case (1 i)
  then show ?case
    by (cases "i = 0") (simp_all add: intmax_loop.simps [of False i] intmax_loop.simps [of False 0] segs0_pos
        sub_mod_sdiv Let_def pos_imp_zdiv_nonneg_iff)
qed

lemma uintmax_loop_segs0: "0 \<le> i \<Longrightarrow> uintmax_loop i = segs0 i"
proof (induction i rule: segs0.induct)
  case (1 i)
  then show ?case
    by (cases "i = 0") (simp_all add: uintmax_loop.simps [of i] uintmax_loop.simps [of 0] segs0_pos
        sub_mod_sdiv Let_def pos_imp_zdiv_nonneg_iff)
qed

lemma pos_segs_small: "0 \<le> i \<Longrightarrow> i < INT_SEG_LIMIT \<Longrightarrow> pos_segs i = [i]"
  by (simp add: pos_segs_def segs0_single)

lemma segs0_two:
  "INT_SEG_LIMIT \<le> i \<Longrightarrow> i div INT_SEG_LIMIT < INT_SEG_LIMIT \<Longrightarrow>
   segs0 i = [i mod INT_SEG_LIMIT, i div INT_SEG_LIMIT]"
  by (simp add: segs0_pos segs0_single pos_imp_zdiv_pos_iff)

lemma bignum_integer_intmax_t_eq: "in_intptr i \<Longrightarrow> bignum_integer_intmax_t i = bn_of i"
proof (cases "i = INTPTR_MIN")
  case True
  have "intmax_loop True INTPTR_MAX = segs0 (INTPTR_MAX + 1)"
    by (simp add: intptr_defs segs0_two intmax_loop.simps [of _ 0] intmax_loop.simps [of _ 9]
        intmax_loop.simps [of _ 9223372036854775807])
  then show ?thesis
    by (simp add: True bignum_integer_intmax_t_def intmax_segs_def bn_of_def sig_of_def
        intptr_defs Let_def)
next
  case False
  have L: "intmax_segs False v = pos_segs v" if "0 \<le> v" for v
    using that by (simp add: intmax_segs_def intmax_loop_segs0 pos_segs_def segs0_single)
  show ?thesis
  proof (cases "i < 0")
    case True
    then have "bn_of i = bignum_integer (sig_negate (pos_segs (- i)))"
      using sig_of_neg [of "- i"] by (simp add: bn_of_def)
    then show ?thesis
      using False True L [of "- i"] by (simp add: bignum_integer_intmax_t_def sig_negate_def Let_def)
  next
    case nonneg: False
    then show ?thesis
      using False L [of i] by (simp add: bignum_integer_intmax_t_def bn_of_def sig_of_nonneg Let_def)
  qed
qed

lemma bignum_integer_uintmax_t_eq: "0 \<le> ui \<Longrightarrow> bignum_integer_uintmax_t ui = bn_of ui"
  by (simp add: bignum_integer_uintmax_t_def bn_of_def sig_of_nonneg pos_segs_def uintmax_loop_segs0
      segs0_single)

section \<open>Integer operations on bignums\<close>

definition bignum_abs :: "bignum \<Rightarrow> bignum" where
  "bignum_abs bn = bn\<lparr>bn_sig := sig_abs (bn_sig bn)\<rparr>"

definition bignum_negate :: "bignum \<Rightarrow> bignum" where
  "bignum_negate bn = bn\<lparr>bn_sig := sig_negate (bn_sig bn)\<rparr>"

definition bignum_negative_p :: "bignum \<Rightarrow> bool" where
  "bignum_negative_p bn = sig_negative_p (bn_sig bn)"

definition bignum_zero_p :: "bignum \<Rightarrow> bool" where
  "bignum_zero_p bn = sig_zero_p (bn_sig bn)"

definition bignum_lt_p :: "bignum \<Rightarrow> bignum \<Rightarrow> bool" where
  "bignum_lt_p a b = sig_lt (bn_sig a) (bn_sig b)"

definition bignum_equal_p :: "bignum \<Rightarrow> bignum \<Rightarrow> bool" where
  "bignum_equal_p a b = sig_equal (bn_sig a) (bn_sig b)"

text \<open>
  The recursive calls of \<^verbatim>\<open>idio_bignum_add\<close> and \<^verbatim>\<open>idio_bignum_subtract\<close> pass
  through \<^verbatim>\<open>idio_bignum_abs\<close>, which keeps flags, and end in \<^verbatim>\<open>idio_bignum_integer\<close>,
  which sets them: the arithmetic is that of the arrays.
\<close>

definition bignum_add :: "bignum \<Rightarrow> bignum \<Rightarrow> bignum comp" where
  "bignum_add a b = of_opt (map_option bignum_integer (sig_add (bn_sig a) (bn_sig b)))"

definition bignum_subtract :: "bignum \<Rightarrow> bignum \<Rightarrow> bignum comp" where
  "bignum_subtract a b = of_opt (map_option bignum_integer (sig_subtract (bn_sig a) (bn_sig b)))"

definition bignum_shift_left :: "bignum \<Rightarrow> int \<Rightarrow> bignum comp" where
  "bignum_shift_left a fill = of_opt (map_option bignum_integer (sig_shift_left (bn_sig a) fill))"

definition bignum_shift_right :: "bignum \<Rightarrow> bignum \<times> bignum" where
  "bignum_shift_right a =
    (let (ra, carry) = sig_shift_right (bn_sig a)
     in (bignum_integer ra, bignum_integer_intmax_t carry))"

definition bignum_multiply :: "bignum \<Rightarrow> bignum \<Rightarrow> bignum comp" where
  "bignum_multiply a b = of_opt (map_option bignum_integer (sig_multiply (bn_sig a) (bn_sig b)))"

definition bignum_divide :: "bignum \<Rightarrow> bignum \<Rightarrow> (bignum \<times> bignum) comp" where
  "bignum_divide a b =
    map_option (map_result (map_prod bignum_integer bignum_integer)) (sig_divide (bn_sig a) (bn_sig b))"

lemma bn_sig_bn_of [simp]: "bn_sig (bn_of i) = sig_of i" "bn_exp (bn_of i) = 0"
    "bn_flags (bn_of i) = FLAG_NONE\<lparr>flag_integer := True\<rparr>" "integer_p (bn_of i)"
    "bn_sig (bignum_integer s) = s"
  by (simp_all add: bn_of_def bignum_integer_def idio_bignum_def integer_p_def)

lemma bn_of_eq_iff [simp]: "bn_of i = bn_of j \<longleftrightarrow> i = j"
  by (metis bn_sig_bn_of(1) sig_of_eq_iff)

lemma bignum_integer_sig_of [simp]: "bignum_integer (sig_of i) = bn_of i"
  by (simp add: bn_of_def)

lemma bignum_ops [simp]:
  "bignum_abs (bn_of i) = bn_of \<bar>i\<bar>" "bignum_negate (bn_of i) = bn_of (- i)"
  "bignum_negative_p (bn_of i) \<longleftrightarrow> i < 0" "bignum_zero_p (bn_of i) \<longleftrightarrow> i = 0"
  "bignum_lt_p (bn_of i) (bn_of j) \<longleftrightarrow> i < j" "bignum_equal_p (bn_of i) (bn_of j) \<longleftrightarrow> i = j"
  "bignum_add (bn_of i) (bn_of j) = ret (bn_of (i + j))"
  "bignum_subtract (bn_of i) (bn_of j) = ret (bn_of (i - j))"
  "bignum_multiply (bn_of i) (bn_of j) = ret (bn_of (i * j))"
  by (simp_all add: bignum_abs_def bignum_negate_def bignum_negative_p_def bignum_zero_p_def
      bignum_lt_p_def bignum_equal_p_def bignum_add_def bignum_subtract_def bignum_multiply_def
      del: bignum_integer_sig_of bn_sig_bn_of(1-3))
    (simp_all add: bn_of_def bignum_integer_def idio_bignum_def)

lemma bignum_divide_bn_of [simp]:
  "bignum_divide (bn_of i) (bn_of j) =
    (if j = 0 then raise Divide_by_zero_error else ret (bn_of (i sdiv j), bn_of (i smod j)))"
  by (simp add: bignum_divide_def raise_def ret_def del: Some_result)

section \<open>Counting digits\<close>

text \<open>\<^verbatim>\<open>while (v) { v /= 10; d++; }\<close>\<close>

lemma sdiv_10_less: "v \<noteq> 0 \<Longrightarrow> nat \<bar>v sdiv 10\<bar> < nat \<bar>v\<bar>"
proof -
  assume "v \<noteq> 0"
  then have "\<bar>v\<bar> div 10 < \<bar>v\<bar>" by (intro int_div_less_self) simp_all
  moreover have "\<bar>v sdiv 10\<bar> = \<bar>v\<bar> div 10"
    unfolding signed_divide_int_def by (simp add: sgn_if pos_imp_zdiv_nonneg_iff)
  ultimately show ?thesis by simp
qed

function seg_digits :: "int \<Rightarrow> int" where
  "seg_digits v = (if v = 0 then 0 else 1 + seg_digits (v sdiv 10))"
  by pat_completeness auto
termination
  by (relation "measure (\<lambda>v. nat \<bar>v\<bar>)") (use sdiv_10_less in auto)

declare seg_digits.simps [simp del]

definition count_digits :: "bsa \<Rightarrow> int" where
  "count_digits sig =
    (let d = seg_digits (mss sig)
     in (if d = 0 then d + 1 else d) + (int (length sig) - 1) * int IDIO_BIGNUM_DPW)"

text \<open>The specification: the number of decimal digits of the absolute value, 1 for zero.\<close>

fun dec_digits_of :: "nat \<Rightarrow> nat" where
  "dec_digits_of n = (if n < 10 then 1 else 1 + dec_digits_of (n div 10))"

declare dec_digits_of.simps [simp del]

definition digits_of :: "int \<Rightarrow> int" where
  "digits_of i = int (dec_digits_of (nat \<bar>i\<bar>))"

lemma dec_digits_of_mult: "0 < n \<Longrightarrow> dec_digits_of (n * 10 ^ k + r) = k + dec_digits_of n" if "r < 10 ^ k"
  using that
proof (induction k arbitrary: r)
  case (Suc k)
  have q: "(n * 10 ^ Suc k + r) div 10 = n * 10 ^ k + r div 10" "r div 10 < 10 ^ k"
    using Suc.prems(2) by (auto simp: less_mult_imp_div_less)
  have "10 \<le> n * 10 ^ Suc k + r" using Suc.prems(1) by (simp add: trans_le_add1)
  then show ?case
    unfolding dec_digits_of.simps [of "n * 10 ^ Suc k + r"] q(1)
    using Suc.IH [of "r div 10"] Suc.prems q(2) by simp
qed simp

lemma seg_digits_pos: "0 < v \<Longrightarrow> seg_digits v = int (dec_digits_of (nat v))"
proof (induction "nat v" arbitrary: v rule: less_induct)
  case less
  then show ?case
    by (cases "v < 10")
      (simp_all add: seg_digits.simps [of v] seg_digits.simps [of 0] dec_digits_of.simps [of "nat v"]
        nat_less_iff nat_div_distrib pos_imp_zdiv_pos_iff)
qed

lemma seg_digits_minus [simp]: "seg_digits (- v) = seg_digits v"
proof (induction v rule: seg_digits.induct)
  case (1 v)
  moreover have "(- v) sdiv 10 = - (v sdiv 10)" by simp
  ultimately show ?case by (simp add: seg_digits.simps [of v] seg_digits.simps [of "- v"])
qed

lemma digits_of_seg:
  assumes "0 < q" "0 \<le> r" "r < INT_SEG_LIMIT"
  shows "digits_of (INT_SEG_LIMIT * q + r) = 18 + digits_of q"
proof -
  have "\<bar>INT_SEG_LIMIT * q + r\<bar> = int (nat q * 10 ^ 18 + nat r)" using assms(1,2) by simp
  then have "nat \<bar>INT_SEG_LIMIT * q + r\<bar> = nat q * 10 ^ 18 + nat r" by (simp only: nat_int)
  moreover have "int (nat r) < int (10 ^ 18)" using assms(2,3) by simp
  then have "nat r < 10 ^ 18" by (simp only: of_nat_less_iff)
  ultimately show ?thesis
    using dec_digits_of_mult [of "nat r" 18 "nat q"] assms(1) by (simp only: digits_of_def) simp
qed

lemma count_digits_segs0:
  "0 < v \<Longrightarrow> seg_digits (mss (segs0 v)) + (int (length (segs0 v)) - 1) * 18 = digits_of v"
proof (induction v rule: segs0.induct)
  case (1 v)
  show ?case
  proof (cases "v < INT_SEG_LIMIT")
    case True
    then show ?thesis using 1(2) by (simp add: segs0_single seg_digits_pos digits_of_def)
  next
    case False
    then have X: "0 < v div INT_SEG_LIMIT" by (simp add: pos_imp_zdiv_pos_iff)
    obtain q where q: "v div INT_SEG_LIMIT = q" by blast
    have "digits_of v = 18 + digits_of q"
      using digits_of_seg [OF X, of "v mod INT_SEG_LIMIT"] unfolding q [symmetric] by simp
    moreover have "seg_digits (mss (segs0 q)) + (int (length (segs0 q)) - 1) * 18 = digits_of q"
      using 1(1) 1(2) X unfolding q by simp
    moreover have "mss (segs0 v) = mss (segs0 q)" "length (segs0 v) = Suc (length (segs0 q))"
      using X unfolding q segs0_pos [OF 1(2)] by simp_all
    ultimately show ?thesis by simp
  qed
qed

lemma count_digits_sig_of [simp]: "count_digits (sig_of v) = digits_of v"
proof (cases "v = 0")
  case True
  then show ?thesis
    by (simp add: count_digits_def sig_of_nonneg pos_segs_def seg_digits.simps [of 0] digits_of_def
        dec_digits_of.simps)
next
  case False
  have "mss (sig_of v) = mss (segs0 \<bar>v\<bar>) \<or> mss (sig_of v) = - mss (segs0 \<bar>v\<bar>)"
    using False by (auto simp: sig_of_def pos_segs_def)
  moreover have "length (sig_of v) = length (segs0 \<bar>v\<bar>)" using False by (simp add: pos_segs_def)
  moreover have "seg_digits (mss (segs0 \<bar>v\<bar>)) \<noteq> 0"
    using segs0_mss_pos [of "\<bar>v\<bar>"] False by (simp add: seg_digits_pos dec_digits_of.simps)
  ultimately show ?thesis
    using count_digits_segs0 [of "\<bar>v\<bar>"] False by (auto simp: count_digits_def digits_of_def)
qed

end
