(* ===== verification/Bignum_Real.thy ===== *)
theory Bignum_Real
  imports Complex_Main Bignum_Num
begin

text \<open>
  Real bignums (\<^verbatim>\<open>src/src/bignum.c\<close>): a significand of at most 18 decimal digits,
  a 32-bit decimal exponent, and the sign in a flag. The definitions follow the C
  functions; the value of a real is the rational \<open>bn_val\<close>, and the theorems say
  what each operation does to it.
\<close>

section \<open>Reals and their flags\<close>

abbreviation (input) BE_MAX :: int where "BE_MAX \<equiv> 2147483647"
abbreviation (input) BE_MIN :: int where "BE_MIN \<equiv> - 2147483648"

definition bignum_real :: "bn_flags \<Rightarrow> int \<Rightarrow> bsa \<Rightarrow> bignum" where
  "bignum_real flags be sig =
    idio_bignum (flags\<lparr>flag_integer := False, flag_real := True\<rparr>) be sig"

definition real_zero_p :: "bignum \<Rightarrow> bool" where
  "real_zero_p a = (if 1 < length (bn_sig a) then False else get_seg (bn_sig a) = 0)"

definition real_negative_p :: "bignum \<Rightarrow> bool" where
  "real_negative_p bn \<longleftrightarrow> flag_real_negative (bn_flags bn) \<and> \<not> real_zero_p bn"

definition real_positive_p :: "bignum \<Rightarrow> bool" where
  "real_positive_p bn \<longleftrightarrow> \<not> real_negative_p bn"

definition real_inexact_p :: "bignum \<Rightarrow> bool" where
  "real_inexact_p bn = flag_real_inexact (bn_flags bn)"

definition copy_to_integer :: "bignum \<Rightarrow> bignum" where
  "copy_to_integer bn = bignum_integer (bn_sig bn)"

definition real_to_inexact :: "bignum \<Rightarrow> bignum" where
  "real_to_inexact bn = bignum_real (bn_flags bn\<lparr>flag_real_inexact := True\<rparr>) (bn_exp bn) (bn_sig bn)"

definition real_to_exact :: "bignum \<Rightarrow> bignum" where
  "real_to_exact bn = bignum_real (bn_flags bn\<lparr>flag_real_inexact := False\<rparr>) (bn_exp bn) (bn_sig bn)"

definition real_negate :: "bignum \<Rightarrow> bignum" where
  "real_negate bn =
    bignum_real
      (if real_negative_p bn then bn_flags bn\<lparr>flag_real_negative := False\<rparr>
       else bn_flags bn\<lparr>flag_real_negative := True\<rparr>)
      (bn_exp bn) (bn_sig bn)"

definition real_abs :: "bignum \<Rightarrow> bignum" where
  "real_abs bn =
    (if integer_p bn then bignum_abs bn
     else if real_negative_p bn then real_negate bn else bn)"

section \<open>Normalisation\<close>

text \<open>Its first loop drops digits beyond the 18th, its second the trailing zeroes.\<close>

function trunc_loop :: "int \<Rightarrow> int \<Rightarrow> bignum \<Rightarrow> (int \<times> bignum) comp" where
  "trunc_loop digits be bn_s =
    (if IDIO_BIGNUM_SIG_MAX_DIGITS < digits then
       let ibsr = bignum_shift_right bn_s in
       if be = BE_MAX then raise (Bignum_conversion_error ''exponent overflow'')
       else trunc_loop (digits - 1) (be + 1) (fst ibsr)
     else ret (be, bn_s))"
  by pat_completeness auto
termination
  by (relation "measure (\<lambda>(d, e, b). nat (d - IDIO_BIGNUM_SIG_MAX_DIGITS))") auto

declare trunc_loop.simps [simp del]

partial_function (option) strip_loop :: "int \<Rightarrow> bignum \<Rightarrow> (int \<times> bignum) comp" where
  "strip_loop be bn_s =
    (if bignum_zero_p bn_s then Some (Inr (be, bn_s))
     else let ibsr = bignum_shift_right bn_s in
       if \<not> bignum_zero_p (snd ibsr) then Some (Inr (be, bn_s))
       else if be = BE_MAX then Some (Inl (Bignum_conversion_error ''exponent overflow''))
       else strip_loop (be + 1) (fst ibsr))"

definition bignum_normalize :: "bignum \<Rightarrow> bignum comp" where
  "bignum_normalize bn =
    bind_comp (trunc_loop (count_digits (bn_sig bn)) (bn_exp bn) bn) (\<lambda>(exp1, bn1).
    bind_comp (strip_loop exp1 bn1) (\<lambda>(exp2, bn2).
    ret (bignum_real (bn_flags bn) (if bignum_zero_p bn2 then 0 else exp2) (bn_sig bn2))))"

text \<open>
  \<^verbatim>\<open>idio_bignum_to_real\<close>: digits beyond the 18th go before \<open>bignum_normalize\<close>
  counts them.
\<close>

function to_real_loop :: "int \<Rightarrow> int \<Rightarrow> bignum \<Rightarrow> int \<times> bignum" where
  "to_real_loop digits be bnc =
    (if IDIO_BIGNUM_SIG_MAX_DIGITS < digits
     then to_real_loop (digits - 1) (be + 1) (fst (bignum_shift_right bnc))
     else (be, bnc))"
  by pat_completeness auto
termination
  by (relation "measure (\<lambda>(d, e, b). nat (d - IDIO_BIGNUM_SIG_MAX_DIGITS))") auto

declare to_real_loop.simps [simp del]

definition bignum_to_real :: "bignum \<Rightarrow> bignum comp" where
  "bignum_to_real bn =
    (let bnc = bignum_abs bn;
         (be, bnc) = (if 1 < length (bn_sig bnc) then to_real_loop (count_digits (bn_sig bnc)) 0 bnc
                       else (0, bnc));
         flags = (if bignum_negative_p bn then FLAG_NONE\<lparr>flag_real_negative := True\<rparr> else FLAG_NONE)
     in bignum_normalize (bignum_real flags be (bn_sig bnc)))"

section \<open>Scaling, and integers among the reals\<close>

text \<open>
  \<^verbatim>\<open>idio_bignum_scale_significand\<close>: \<open>None\<close> is \<^verbatim>\<open>#n\<close>, no room. The exponents are
  \<^verbatim>\<open>int32_t\<close>, and so is their difference.
\<close>

function scale_loop :: "int \<Rightarrow> int \<Rightarrow> bignum \<Rightarrow> (int \<times> bignum) comp" where
  "scale_loop desired_exp be bnc =
    (if desired_exp < be then
       bind_comp (bignum_shift_left bnc 0) (\<lambda>bnc'.
       if be = BE_MIN then raise (Bignum_conversion_error ''exponent underflow'')
       else scale_loop desired_exp (be - 1) bnc')
     else ret (be, bnc))"
  by pat_completeness auto
termination
  by (relation "measure (\<lambda>(d, e, b). nat (e - d))") auto

declare scale_loop.simps [simp del]

definition scale_significand :: "bignum \<Rightarrow> int \<Rightarrow> int \<Rightarrow> bignum option comp" where
  "scale_significand bn desired_exp max_digits =
    (if max_digits - count_digits (bn_sig bn) < wrap32 (bn_exp bn - desired_exp) then ret None
     else bind_comp (scale_loop desired_exp (bn_exp bn) bn) (\<lambda>(be, bnc).
       ret (Some (bignum_real (bn_flags bn) be (bn_sig bnc)))))"

definition real_to_integer :: "bignum \<Rightarrow> bignum option comp" where
  "real_to_integer bn =
    (if 0 \<le> bn_exp bn then
       bind_comp (scale_significand bn 0 IDIO_BIGNUM_SIG_MAX_DIGITS) (\<lambda>bns.
         case bns of None \<Rightarrow> ret None
         | Some bns \<Rightarrow>
             let bn_i = copy_to_integer bns
             in ret (Some (if real_negative_p bn then bignum_negate bn_i else bn_i)))
     else ret None)"

definition integer_argument :: "bignum \<Rightarrow> bignum option comp" where
  "integer_argument bn =
    (if integer_p bn then ret (Some bn)
     else bind_comp (real_to_integer bn) (\<lambda>bn_i.
       ret (if real_inexact_p bn then None else bn_i)))"

definition isa_integer_bignum :: "bignum \<Rightarrow> bool comp" where
  "isa_integer_bignum bn =
    (if integer_p bn then ret True
     else bind_comp (real_to_integer bn) (\<lambda>i. ret (i \<noteq> None)))"

text \<open>An integer operand of a real operation.\<close>

definition as_real :: "bignum \<Rightarrow> bignum comp" where
  "as_real a = (if integer_p a then bignum_to_real a else ret a)"

section \<open>Comparison\<close>

definition real_equal_p :: "bignum \<Rightarrow> bignum \<Rightarrow> bool comp" where
  "real_equal_p a b =
    (if integer_p a \<and> integer_p b then ret (bignum_equal_p a b)
     else bind_comp (as_real a) (\<lambda>ra. bind_comp (as_real b) (\<lambda>rb. ret (
       if real_inexact_p ra \<noteq> real_inexact_p rb then False
       else if bn_exp ra \<noteq> bn_exp rb then False
       else if real_zero_p ra \<and> real_zero_p rb then True
       else if real_negative_p ra \<noteq> real_negative_p rb then False
       else if length (bn_sig ra) \<noteq> length (bn_sig rb) then False
       else equal_loop (rev (bn_sig ra)) (rev (bn_sig rb))))))"

text \<open>
  \<^verbatim>\<open>idio_bignum_real_lt_p\<close> on two reals: signs, zeroes, the position of the most
  significant digit, then the digits at the same exponent.
\<close>

definition real_lt_digits :: "bool \<Rightarrow> bignum \<Rightarrow> bignum \<Rightarrow> bool" where
  "real_lt_digits na ra1 rb1 =
    (if length (bn_sig ra1) < length (bn_sig rb1) then True
     else if length (bn_sig rb1) < length (bn_sig ra1) then False
     else lt_loop na (rev (bn_sig ra1)) (rev (bn_sig rb1)))"

definition real_lt_scaled :: "bool \<Rightarrow> bignum \<Rightarrow> bignum \<Rightarrow> bool comp" where
  "real_lt_scaled na ra0 rb0 =
    bind_comp (if bn_exp ra0 < bn_exp rb0
               then scale_significand rb0 (bn_exp ra0) IDIO_BIGNUM_SIG_MAX_DIGITS
               else ret (Some rb0)) (\<lambda>rb1.
      case rb1 of None \<Rightarrow> ret (\<not> na)
      | Some rb1 \<Rightarrow>
          bind_comp (if bn_exp rb1 < bn_exp ra0
                     then scale_significand ra0 (bn_exp rb1) IDIO_BIGNUM_SIG_MAX_DIGITS
                     else ret (Some ra0)) (\<lambda>ra1.
            case ra1 of None \<Rightarrow> ret (\<not> na)
            | Some ra1 \<Rightarrow> ret (real_lt_digits na ra1 rb1)))"

definition real_lt_reals :: "bignum \<Rightarrow> bignum \<Rightarrow> bool comp" where
  "real_lt_reals ra0 rb0 =
    (let na = real_negative_p ra0;
         nb = real_negative_p rb0;
         dpa = count_digits (bn_sig ra0) + bn_exp ra0;
         dpb = count_digits (bn_sig rb0) + bn_exp rb0
     in if na \<and> \<not> nb then ret True
        else if nb \<and> \<not> na then ret False
        else if real_positive_p ra0 \<and> real_zero_p rb0 then ret False
        else if real_zero_p ra0 \<and> real_positive_p rb0 then ret True
        else if dpa < dpb then ret (\<not> na)
        else if dpb < dpa then ret na
        else real_lt_scaled na ra0 rb0)"

definition real_lt_p :: "bignum \<Rightarrow> bignum \<Rightarrow> bool comp" where
  "real_lt_p a b =
    (if integer_p a \<and> integer_p b then ret (bignum_lt_p a b)
     else bind_comp (as_real a) (\<lambda>ra0. bind_comp (as_real b) (\<lambda>rb0. real_lt_reals ra0 rb0)))"

section \<open>Arithmetic\<close>

definition signed_integer :: "bignum \<Rightarrow> bignum" where
  "signed_integer r = (if real_negative_p r then bignum_negate (copy_to_integer r) else copy_to_integer r)"

text \<open>
  When there is no room to bring the operands to one exponent the sum is the
  operand with the greater absolute value.
\<close>

definition real_add :: "bignum \<Rightarrow> bignum \<Rightarrow> bignum comp" where
  "real_add a b =
    (if integer_p a \<and> integer_p b then bignum_add a b
     else bind_comp (as_real a) (\<lambda>ra0. bind_comp (as_real b) (\<lambda>rb0.
       if real_zero_p ra0 then ret rb0
       else if real_zero_p rb0 then ret ra0
       else bind_comp (if bn_exp rb0 < bn_exp ra0
                       then scale_significand ra0 (bn_exp rb0) (IDIO_BIGNUM_SIG_MAX_DIGITS * 2)
                       else ret (Some ra0)) (\<lambda>ra1.
         bind_comp (if bn_exp ra0 < bn_exp rb0
                    then scale_significand rb0 (bn_exp ra0) (IDIO_BIGNUM_SIG_MAX_DIGITS * 2)
                    else ret (Some rb0)) (\<lambda>rb1.
           case (ra1, rb1) of
             (Some ra1, Some rb1) \<Rightarrow>
               bind_comp (bignum_add (signed_integer ra1) (signed_integer rb1)) (\<lambda>r_i.
                 bignum_normalize (bignum_real
                   (if bignum_negative_p r_i then FLAG_NONE\<lparr>flag_real_negative := True\<rparr> else FLAG_NONE)
                   (bn_exp ra1) (bn_sig (bignum_abs r_i))))
           | _ \<Rightarrow> bind_comp (real_lt_p (real_abs ra0) (real_abs rb0)) (\<lambda>lt.
                   ret (if lt then b else a)))))))"

definition real_subtract :: "bignum \<Rightarrow> bignum \<Rightarrow> bignum comp" where
  "real_subtract a b = real_add a (if integer_p b then bignum_negate b else real_negate b)"

text \<open>The exponent of a product and of a quotient, with its check against \<^verbatim>\<open>int32_t\<close>.\<close>

definition mul_exp :: "int \<Rightarrow> int \<Rightarrow> int comp" where
  "mul_exp expa expb =
    (if 0 < expb then
       if BE_MAX < expb \<or> 0 < expa \<and> BE_MAX - expa < expb
       then raise (Bignum_conversion_error ''exponent overflow'') else ret (wrap32 (expa + expb))
     else if expb < 0 then
       if expb < BE_MIN \<or> expa < 0 \<and> \<bar>BE_MIN - expa\<bar> < \<bar>expb\<bar>
       then raise (Bignum_conversion_error ''exponent underflow'') else ret (wrap32 (expa + expb))
     else ret expa)"

definition div_exp :: "int \<Rightarrow> int \<Rightarrow> int comp" where
  "div_exp expa expb =
    (if 0 < expb then
       if BE_MAX < expb then raise (Bignum_conversion_error ''exponent overflow'')
       else if expa < 0 \<and> \<bar>BE_MIN - expa\<bar> < expb
       then raise (Bignum_conversion_error ''exponent underflow'') else ret (wrap32 (expa - expb))
     else if expb < 0 then
       if expb < BE_MIN then raise (Bignum_conversion_error ''exponent underflow'')
       else if 0 < expa \<and> BE_MAX - expa < \<bar>expb\<bar>
       then raise (Bignum_conversion_error ''exponent overflow'') else ret (wrap32 (expa - expb))
     else ret expa)"

definition real_multiply :: "bignum \<Rightarrow> bignum \<Rightarrow> bignum comp" where
  "real_multiply a b =
    (if integer_p a \<and> integer_p b then bignum_multiply a b
     else bind_comp (as_real a) (\<lambda>ra.
       if real_zero_p ra then ret ra
       else bind_comp (as_real b) (\<lambda>rb.
         if real_zero_p rb then ret rb
         else let neg = (real_negative_p ra \<noteq> real_negative_p rb) in
           bind_comp (mul_exp (bn_exp ra) (bn_exp rb)) (\<lambda>expa.
           bind_comp (bignum_multiply (copy_to_integer ra) (copy_to_integer rb)) (\<lambda>r_i.
             bignum_normalize (bignum_real (FLAG_NONE\<lparr>flag_real_negative := neg\<rparr>) expa (bn_sig r_i)))))))"

text \<open>
  The dividend is given 18 digits more than the divisor has; \<open>None\<close> is the symbol
  \<^verbatim>\<open>NaN\<close>.
\<close>

function div_scale_loop :: "int \<Rightarrow> int \<Rightarrow> int \<Rightarrow> bignum \<Rightarrow> (int \<times> bignum) comp" where
  "div_scale_loop nd dd expa ra_i =
    (if nd < dd then
       bind_comp (bignum_shift_left ra_i 0) (\<lambda>ra_i'.
       if expa = BE_MIN then raise (Bignum_conversion_error ''exponent underflow'')
       else div_scale_loop (nd + 1) dd (expa - 1) ra_i')
     else ret (expa, ra_i))"
  by pat_completeness auto
termination
  by (relation "measure (\<lambda>(n, d, e, b). nat (d - n))") auto

declare div_scale_loop.simps [simp del]

definition real_divide :: "bignum \<Rightarrow> bignum \<Rightarrow> bignum option comp" where
  "real_divide a b =
    bind_comp (as_real a) (\<lambda>ra.
      if real_zero_p ra then ret (Some (bignum_real FLAG_NONE 0 (bn_sig (bignum_integer_intmax_t 0))))
      else bind_comp (as_real b) (\<lambda>rb.
        if bignum_zero_p rb then ret None
        else let neg = (real_negative_p ra \<noteq> real_negative_p rb);
                 nd = count_digits (bn_sig ra);
                 dd = IDIO_BIGNUM_SIG_MAX_DIGITS + count_digits (bn_sig rb)
             in bind_comp (div_scale_loop nd dd (bn_exp ra) (copy_to_integer ra)) (\<lambda>(expa, ra_i).
               bind_comp (div_exp expa (bn_exp rb)) (\<lambda>expa.
               bind_comp (bignum_divide ra_i (copy_to_integer rb)) (\<lambda>(r_i, m).
               bind_comp (bignum_normalize (bignum_real (FLAG_NONE\<lparr>flag_real_negative := neg\<rparr>) expa
                   (bn_sig r_i))) (\<lambda>r. ret (Some r)))))))"

end
