(* ===== verification/Bignum_Real_Props.thy ===== *)
theory Bignum_Real_Props
  imports Bignum_Real
begin

text \<open>
  What the real operations do, over the rational value \<open>bn_val\<close> of a bignum:
  normalisation and scaling as closed formulas, the order and equality on
  normalised reals as those of the rationals, sums and products as exact as 18
  digits allow.
\<close>

section \<open>Loops as formulas\<close>

text \<open>Trailing zeroes.\<close>

function tz :: "int \<Rightarrow> nat" where
  "tz v = (if v = 0 \<or> v mod 10 \<noteq> 0 then 0 else Suc (tz (v div 10)))"
  by pat_completeness auto
termination
  by (relation "measure (\<lambda>v. nat \<bar>v\<bar>)") auto

declare tz.simps [simp del]

lemma tz_0 [simp]: "tz 0 = 0"
  by (simp add: tz.simps)

lemma tz_dvd: "10 ^ tz v dvd v"
proof (induction v rule: tz.induct)
  case (1 v)
  then show ?case
    by (cases "v = 0 \<or> v mod 10 \<noteq> 0") (auto simp: tz.simps [of v] dvd_div_iff_mult)
qed

lemma tz_not_dvd: "v \<noteq> 0 \<Longrightarrow> v div 10 ^ tz v mod 10 \<noteq> 0"
proof (induction v rule: tz.induct)
  case (1 v)
  show ?case
  proof (cases "v mod 10 = 0")
    case True
    then have "v div 10 \<noteq> 0" using 1(2) by (auto simp: zdiv_eq_0_iff)
    then show ?thesis using 1(1) True 1(2) by (simp add: tz.simps [of v] zdiv_zmult2_eq)
  qed (simp add: tz.simps [of v])
qed

lemma bignum_real_simps [simp]:
  "bn_sig (bignum_real f e s) = s" "bn_exp (bignum_real f e s) = e" "\<not> integer_p (bignum_real f e s)"
  "bn_flags (bignum_real f e s) = f\<lparr>flag_integer := False, flag_real := True\<rparr>"
  "bignum_real (f\<lparr>flag_integer := i, flag_real := r\<rparr>) e s = bignum_real f e s"
  by (simp_all add: bignum_real_def idio_bignum_def integer_p_def)

lemma bignum_shift_right_sig:
  "bn_sig bn = sig_of v \<Longrightarrow> 0 \<le> v \<Longrightarrow> bignum_shift_right bn = (bn_of (v div 10), bn_of (v mod 10))"
  using pos_mod_bound [of 10 v] pos_mod_sign [of 10 v]
  by (simp add: bignum_shift_right_def bignum_integer_intmax_t_eq intptr_defs del: pos_mod_bound pos_mod_sign)

lemma bignum_shift_left_sig:
  "bn_sig bn = sig_of v \<Longrightarrow> 0 \<le> v \<Longrightarrow> bignum_shift_left bn 0 = ret (bn_of (10 * v))"
  by (simp add: bignum_shift_left_def)

lemma bignum_zero_p_sig: "bn_sig bn = sig_of v \<Longrightarrow> bignum_zero_p bn \<longleftrightarrow> v = 0"
  by (simp add: bignum_zero_p_def)

lemma trunc_loop_eq:
  "bn_sig bn = sig_of v \<Longrightarrow> 0 \<le> v \<Longrightarrow> e \<le> BE_MAX \<Longrightarrow> d = 18 + int n \<Longrightarrow>
   trunc_loop d e bn =
     (if BE_MAX < e + int n then raise (Bignum_conversion_error ''exponent overflow'')
      else ret (e + int n, if n = 0 then bn else bn_of (v div 10 ^ n)))"
proof (induction n arbitrary: d e bn v)
  case 0
  then show ?case by (simp add: trunc_loop.simps)
next
  case (Suc n)
  have v: "0 \<le> v div 10" using Suc.prems by (simp add: pos_imp_zdiv_nonneg_iff)
  show ?case
  proof (cases "e = BE_MAX")
    case True
    then show ?thesis using Suc.prems by (simp add: trunc_loop.simps)
  next
    case False
    then have "trunc_loop (d - 1) (e + 1) (bn_of (v div 10)) =
        (if BE_MAX < e + 1 + int n then raise (Bignum_conversion_error ''exponent overflow'')
         else ret (e + 1 + int n, if n = 0 then bn_of (v div 10) else bn_of (v div 10 div 10 ^ n)))"
      using Suc.prems v by (intro Suc.IH) simp_all
    moreover have "trunc_loop d e bn = trunc_loop (d - 1) (e + 1) (bn_of (v div 10))"
      using Suc.prems False by (subst trunc_loop.simps) (simp add: bignum_shift_right_sig)
    ultimately show ?thesis by (simp add: zdiv_zmult2_eq)
  qed
qed

lemma trunc_loop_few: "d \<le> 18 \<Longrightarrow> trunc_loop d e bn = ret (e, bn)"
  by (simp add: trunc_loop.simps)

lemma to_real_loop_eq:
  "bn_sig bn = sig_of v \<Longrightarrow> 0 \<le> v \<Longrightarrow> d = 18 + int n \<Longrightarrow>
   to_real_loop d e bn = (e + int n, if n = 0 then bn else bn_of (v div 10 ^ n))"
proof (induction n arbitrary: d e bn v)
  case 0
  then show ?case by (simp add: to_real_loop.simps)
next
  case (Suc n)
  have v: "0 \<le> v div 10" using Suc.prems by (simp add: pos_imp_zdiv_nonneg_iff)
  have "to_real_loop (d - 1) (e + 1) (bn_of (v div 10)) =
      (e + 1 + int n, if n = 0 then bn_of (v div 10) else bn_of (v div 10 div 10 ^ n))"
    using Suc.prems v by (intro Suc.IH) simp_all
  moreover have "to_real_loop d e bn = to_real_loop (d - 1) (e + 1) (bn_of (v div 10))"
    using Suc.prems by (subst to_real_loop.simps) (simp add: bignum_shift_right_sig)
  ultimately show ?case by (simp add: zdiv_zmult2_eq)
qed

lemma strip_loop_eq:
  "bn_sig bn = sig_of v \<Longrightarrow> 0 \<le> v \<Longrightarrow> e \<le> BE_MAX \<Longrightarrow>
   strip_loop e bn =
     (if BE_MAX < e + int (tz v) then raise (Bignum_conversion_error ''exponent overflow'')
      else ret (e + int (tz v), if tz v = 0 then bn else bn_of (v div 10 ^ tz v)))"
proof (induction v arbitrary: e bn rule: tz.induct)
  case (1 v)
  show ?case
  proof (cases "v = 0 \<or> v mod 10 \<noteq> 0")
    case True
    then show ?thesis
      using 1(2-4)
      by (subst strip_loop.simps)
        (auto simp: bignum_zero_p_sig bignum_shift_right_sig tz.simps [of v] Let_def)
  next
    case False
    have v: "0 \<le> v div 10" using 1(3) by (simp add: pos_imp_zdiv_nonneg_iff)
    have step: "strip_loop e bn = (if e = BE_MAX then raise (Bignum_conversion_error ''exponent overflow'')
        else strip_loop (e + 1) (bn_of (v div 10)))"
      using False 1(2,3)
      by (subst strip_loop.simps)
        (simp add: bignum_zero_p_sig bignum_shift_right_sig Let_def bignum_zero_p_sig [of _ "v mod 10"])
    show ?thesis
    proof (cases "e = BE_MAX")
      case True
      then show ?thesis using False unfolding step by (simp add: tz.simps [of v])
    next
      case e: False
      then have "strip_loop (e + 1) (bn_of (v div 10)) =
          (if BE_MAX < e + 1 + int (tz (v div 10)) then raise (Bignum_conversion_error ''exponent overflow'')
           else ret (e + 1 + int (tz (v div 10)), if tz (v div 10) = 0 then bn_of (v div 10)
             else bn_of (v div 10 div 10 ^ tz (v div 10))))"
        using False v 1(4) by (intro 1(1)) simp_all
      then show ?thesis
        using False e unfolding step by (simp add: tz.simps [of v] zdiv_zmult2_eq)
    qed
  qed
qed

section \<open>Normalisation\<close>

text \<open>
  The significand and exponent \<open>normal_form\<close> gives for \<open>v * 10 ^ e\<close>: the 18
  leading digits, less their trailing zeroes.
\<close>

definition excess :: "int \<Rightarrow> nat" where
  "excess v = nat (digits_of v - IDIO_BIGNUM_SIG_MAX_DIGITS)"

definition normal_form :: "int \<Rightarrow> int \<Rightarrow> int \<times> int" where
  "normal_form v e =
    (let v1 = v div 10 ^ excess v;
         k = tz v1
     in if v = 0 then (0, 0) else (v1 div 10 ^ k, e + int (excess v) + int k))"

lemma digits_of_ge_1: "1 \<le> digits_of v"
  by (simp add: digits_of_def dec_digits_of.simps)

lemma excess_0 [simp]: "excess 0 = 0"
  by (simp add: excess_def digits_of_def dec_digits_of.simps)

lemma dec_digits_of_bounds: "0 < n \<Longrightarrow> 10 ^ (dec_digits_of n - 1) \<le> n \<and> n < 10 ^ dec_digits_of n"
proof (induction n rule: dec_digits_of.induct)
  case (1 n)
  show ?case
  proof (cases "n < 10")
    case True
    then show ?thesis using 1(2) by (simp add: dec_digits_of.simps)
  next
    case False
    let ?k = "dec_digits_of (n div 10)"
    have IH: "10 ^ (?k - 1) \<le> n div 10" "n div 10 < 10 ^ ?k" using 1(1) False by auto
    have "0 < ?k" by (simp add: dec_digits_of.simps)
    then have "10 * 10 ^ (?k - 1) = (10 :: nat) ^ ?k" by (simp flip: power_Suc)
    then have "10 ^ ?k \<le> n" using IH(1) by linarith
    moreover have "n < 10 * 10 ^ ?k" using IH(2) by (simp add: div_less_iff_less_mult mult.commute)
    ultimately show ?thesis using False by (simp add: dec_digits_of.simps [of n])
  qed
qed

lemma digits_of_bounds:
  assumes "0 < v"
  shows "10 ^ nat (digits_of v - 1) \<le> v" "v < 10 ^ nat (digits_of v)"
proof -
  have b: "10 ^ (dec_digits_of (nat v) - 1) \<le> nat v" "nat v < 10 ^ dec_digits_of (nat v)"
    using dec_digits_of_bounds [of "nat v"] assms by simp_all
  have e: "nat (digits_of v) = dec_digits_of (nat v)" "nat (digits_of v - 1) = dec_digits_of (nat v) - 1"
    using assms by (simp_all add: digits_of_def)
  have "int (10 ^ (dec_digits_of (nat v) - 1)) \<le> int (nat v)" "int (nat v) < int (10 ^ dec_digits_of (nat v))"
    using b by (simp_all only: of_nat_le_iff of_nat_less_iff)
  then show "10 ^ nat (digits_of v - 1) \<le> v" "v < 10 ^ nat (digits_of v)"
    unfolding e using assms by simp_all
qed

lemma digits_of_le_iff: "0 \<le> v \<Longrightarrow> digits_of v \<le> int (Suc k) \<longleftrightarrow> v < 10 ^ Suc k"
proof (cases "v = 0")
  case True
  then show ?thesis by (simp add: digits_of_def dec_digits_of.simps)
next
  case False
  assume "0 \<le> v"
  then have v: "0 < v" using False by simp
  show ?thesis
  proof
    assume "digits_of v \<le> int (Suc k)"
    then have "(10::int) ^ nat (digits_of v) \<le> 10 ^ Suc k" by (intro power_increasing) simp_all
    then show "v < 10 ^ Suc k" using digits_of_bounds(2) [OF v] by linarith
  next
    assume "v < 10 ^ Suc k"
    then have "(10::int) ^ nat (digits_of v - 1) < 10 ^ Suc k"
      using digits_of_bounds(1) [OF v] by linarith
    then have "nat (digits_of v - 1) < Suc k" by (rule power_less_imp_less_exp [rotated]) simp
    then show "digits_of v \<le> int (Suc k)" by linarith
  qed
qed

lemma digits_of_le_18: "0 \<le> v \<Longrightarrow> digits_of v \<le> 18 \<longleftrightarrow> v < INT_SEG_LIMIT"
  using digits_of_le_iff [of v 17] by simp

lemma trunc_18:
  assumes "0 < v"
  shows "0 < v div 10 ^ excess v" "v div 10 ^ excess v < INT_SEG_LIMIT"
proof -
  show "0 < v div 10 ^ excess v"
  proof -
    have "excess v \<le> nat (digits_of v - 1)" by (simp add: excess_def)
    then have "(10::int) ^ excess v \<le> 10 ^ nat (digits_of v - 1)" by (intro power_increasing) simp_all
    then have "10 ^ excess v \<le> v" using digits_of_bounds(1) [OF assms] by linarith
    then show ?thesis by (simp add: pos_imp_zdiv_pos_iff)
  qed
  have "nat (digits_of v) \<le> excess v + 18" by (simp add: excess_def)
  then have "(10::int) ^ nat (digits_of v) \<le> 10 ^ (excess v + 18)" by (intro power_increasing) simp_all
  then have "v < 10 ^ (excess v + 18)" using digits_of_bounds(2) [OF assms] by linarith
  then have "v < INT_SEG_LIMIT * 10 ^ excess v" by (simp add: power_add mult.commute)
  then show "v div 10 ^ excess v < INT_SEG_LIMIT" by (simp add: int_div_less)
qed

lemma bignum_normalize_eq:
  assumes "bn_sig bn = sig_of v" "0 \<le> v" "bn_exp bn \<le> BE_MAX"
  shows "bignum_normalize bn =
    (let (m, e) = normal_form v (bn_exp bn)
     in if BE_MAX < e then raise (Bignum_conversion_error ''exponent overflow'')
        else ret (bignum_real (bn_flags bn) e (sig_of m)))"
proof -
  let ?x = "excess v" and ?v1 = "v div 10 ^ excess v"
  have v1: "0 \<le> ?v1" using assms(2) by (simp add: pos_imp_zdiv_nonneg_iff)
  have d: "digits_of v \<le> 18 \<longleftrightarrow> ?x = 0" "?x \<noteq> 0 \<Longrightarrow> digits_of v = 18 + int ?x"
    by (auto simp: excess_def)
  have T: "trunc_loop (count_digits (bn_sig bn)) (bn_exp bn) bn =
      (if BE_MAX < bn_exp bn + int ?x then raise (Bignum_conversion_error ''exponent overflow'')
       else ret (bn_exp bn + int ?x, if ?x = 0 then bn else bn_of ?v1))"
    using assms trunc_loop_eq [OF assms d(2)] trunc_loop_few [of "digits_of v"] d(1) by (cases "?x = 0") simp_all
  have S: "strip_loop e (if ?x = 0 then bn else bn_of ?v1) =
     (if BE_MAX < e + int (tz ?v1) then raise (Bignum_conversion_error ''exponent overflow'')
      else ret (e + int (tz ?v1),
        if tz ?v1 = 0 then if ?x = 0 then bn else bn_of ?v1 else bn_of (?v1 div 10 ^ tz ?v1)))"
    if "e \<le> BE_MAX" for e
    using strip_loop_eq [of "if ?x = 0 then bn else bn_of ?v1" ?v1 e] assms(1) v1 that by simp
  have z: "v \<noteq> 0 \<Longrightarrow> ?v1 div 10 ^ tz ?v1 \<noteq> 0"
    using trunc_18(1) [of v] tz_not_dvd [of ?v1] assms(2) by fastforce
  show ?thesis
  proof (cases "BE_MAX < bn_exp bn + int ?x")
    case True
    then have "v \<noteq> 0" using assms(3) by auto
    then show ?thesis using True unfolding bignum_normalize_def T by (simp add: normal_form_def Let_def)
  next
    case False
    then have "bignum_normalize bn =
       (if BE_MAX < bn_exp bn + int ?x + int (tz ?v1)
        then raise (Bignum_conversion_error ''exponent overflow'')
        else ret (bignum_real (bn_flags bn)
           (if ?v1 div 10 ^ tz ?v1 = 0 then 0 else bn_exp bn + int ?x + int (tz ?v1))
           (sig_of (?v1 div 10 ^ tz ?v1))))"
      unfolding bignum_normalize_def T using assms(1) by (auto simp: S bignum_zero_p_sig)
    then show ?thesis
      using z assms(3) by (cases "v = 0") (simp_all add: normal_form_def Let_def)
  qed
qed

section \<open>Values\<close>

definition bn_val :: "bignum \<Rightarrow> rat" where
  "bn_val bn =
    (if integer_p bn then of_int (sig_val (bn_sig bn))
     else (if real_negative_p bn then - 1 else 1) * of_int (sig_val (bn_sig bn)) * 10 powi bn_exp bn)"

text \<open>A normalised real, and one that an integer bignum or a real may be.\<close>

definition real_normal :: "bignum \<Rightarrow> bool" where
  "real_normal r \<longleftrightarrow> \<not> integer_p r \<and> length (bn_sig r) = 1 \<and>
    (let m = hd (bn_sig r)
     in 0 \<le> m \<and> m < INT_SEG_LIMIT \<and> (if m = 0 then bn_exp r = 0 else m mod 10 \<noteq> 0)) \<and>
    BE_MIN \<le> bn_exp r \<and> bn_exp r \<le> BE_MAX"

definition mant :: "bignum \<Rightarrow> int" where
  "mant r = hd (bn_sig r)"

lemma sig_of_small: "0 \<le> m \<Longrightarrow> m < INT_SEG_LIMIT \<Longrightarrow> sig_of m = [m]"
  by (simp add: sig_of_nonneg pos_segs_small)

lemma real_normalD:
  assumes "real_normal r"
  shows "bn_sig r = sig_of (mant r)" "0 \<le> mant r" "mant r < INT_SEG_LIMIT"
    "mant r = 0 \<Longrightarrow> bn_exp r = 0" "mant r \<noteq> 0 \<Longrightarrow> mant r mod 10 \<noteq> 0"
    "\<not> integer_p r" "BE_MIN \<le> bn_exp r" "bn_exp r \<le> BE_MAX" "real_zero_p r \<longleftrightarrow> mant r = 0"
proof -
  have "bn_sig r = [mant r]" using assms by (cases "bn_sig r") (simp_all add: real_normal_def mant_def)
  then show "bn_sig r = sig_of (mant r)" "0 \<le> mant r" "mant r < INT_SEG_LIMIT"
    "mant r = 0 \<Longrightarrow> bn_exp r = 0" "mant r \<noteq> 0 \<Longrightarrow> mant r mod 10 \<noteq> 0"
    "\<not> integer_p r" "BE_MIN \<le> bn_exp r" "bn_exp r \<le> BE_MAX" "real_zero_p r \<longleftrightarrow> mant r = 0"
    using assms
    by (simp_all add: real_normal_def sig_of_small Let_def real_zero_p_def get_seg_def split: if_splits)
qed

lemma real_normalI:
  "0 \<le> m \<Longrightarrow> m < INT_SEG_LIMIT \<Longrightarrow> m = 0 \<longrightarrow> e = 0 \<Longrightarrow> m \<noteq> 0 \<longrightarrow> m mod 10 \<noteq> 0 \<Longrightarrow>
   BE_MIN \<le> e \<Longrightarrow> e \<le> BE_MAX \<Longrightarrow> real_normal (bignum_real f e (sig_of m))"
  by (simp add: real_normal_def sig_of_small)

lemma real_zero_p_sig: "bn_sig bn = sig_of v \<Longrightarrow> real_zero_p bn \<longleftrightarrow> v = 0"
  using sig_zero_p_sig_of [of v] by (cases "sig_of v") (auto simp: real_zero_p_def get_seg_def sig_zero_p_def)

lemma real_negative_p_sig:
  "bn_sig bn = sig_of v \<Longrightarrow> real_negative_p bn \<longleftrightarrow> flag_real_negative (bn_flags bn) \<and> v \<noteq> 0"
  by (simp add: real_negative_p_def real_zero_p_sig)

lemma bn_val_bn_of [simp]: "bn_val (bn_of i) = of_int i"
  by (simp add: bn_val_def)

lemma bn_val_real [simp]:
  "bn_val (bignum_real f e (sig_of m)) =
    (if flag_real_negative f then - 1 else 1) * of_int m * 10 powi e"
  by (simp add: bn_val_def real_negative_p_sig [of _ m])

lemma bn_val_normal:
  "real_normal r \<Longrightarrow> bn_val r =
    (if flag_real_negative (bn_flags r) then - 1 else 1) * of_int (mant r) * 10 powi bn_exp r"
  using real_normalD [of r] by (simp add: bn_val_def real_negative_p_sig [of r "mant r"])

text \<open>
  A significand of at most 18 digits is normalised without loss; a longer one is
  cut towards zero, by less than one unit of its 18th digit.
\<close>

lemma normal_form_exact:
  assumes "0 \<le> v" "digits_of v \<le> 18" "normal_form v e = (m, e')"
  shows "(of_int m :: rat) * 10 powi e' = of_int v * 10 powi e" "0 \<le> m" "m < INT_SEG_LIMIT"
    "m = 0 \<longrightarrow> e' = 0" "m \<noteq> 0 \<longrightarrow> m mod 10 \<noteq> 0" "e \<le> e' \<or> m = 0" "m = 0 \<longleftrightarrow> v = 0"
    "v \<noteq> 0 \<Longrightarrow> e' = e + int (tz v)"
proof -
  have x: "excess v = 0" using assms(2) by (simp add: excess_def)
  have m: "m = (if v = 0 then 0 else v div 10 ^ tz v)" "e' = (if v = 0 then 0 else e + int (tz v))"
    using assms(3) x by (auto simp: normal_form_def Let_def split: if_splits)
  obtain q where q: "v = 10 ^ tz v * q" using tz_dvd [of v] by (elim dvdE)
  then have mq: "v \<noteq> 0 \<Longrightarrow> m = q" using m by (metis nonzero_mult_div_cancel_left power_not_zero zero_neq_numeral)
  have vq: "v \<noteq> 0 \<Longrightarrow> (of_int v :: rat) = 10 ^ tz v * of_int m"
    by (subst q) (simp add: mq)
  show "(of_int m :: rat) * 10 powi e' = of_int v * 10 powi e"
    using m vq by (cases "v = 0") (simp_all add: power_int_add)
  have vL: "v < INT_SEG_LIMIT" using assms(1,2) by (simp add: digits_of_le_18)
  show "0 \<le> m" using m assms(1) by (simp add: pos_imp_zdiv_nonneg_iff)
  have "v div 10 ^ tz v \<le> v" using assms(1) by (intro int_div_le) simp_all
  then show "m < INT_SEG_LIMIT" using m vL by simp
  show "m = 0 \<longrightarrow> e' = 0" using m vq by auto
  show "m \<noteq> 0 \<longrightarrow> m mod 10 \<noteq> 0" using m tz_not_dvd [of v] by simp
  show "e \<le> e' \<or> m = 0" using m by simp
  show "m = 0 \<longleftrightarrow> v = 0" using m vq by auto
  show "v \<noteq> 0 \<Longrightarrow> e' = e + int (tz v)" using m by simp
qed

lemma normalize_exact:
  assumes "bn_sig bn = sig_of v" "0 \<le> v" "digits_of v \<le> 18" "\<not> integer_p bn"
    "BE_MIN \<le> bn_exp bn" "bn_exp bn + int (tz v) \<le> BE_MAX"
  obtains r where "bignum_normalize bn = ret r" "real_normal r" "bn_val r = bn_val bn"
    "bn_flags r = (bn_flags bn)\<lparr>flag_integer := False, flag_real := True\<rparr>"
proof -
  obtain m e where nf: "normal_form v (bn_exp bn) = (m, e)" by fastforce
  note ex = normal_form_exact [OF assms(2,3) nf]
  have le: "BE_MIN \<le> e" "e \<le> BE_MAX"
    using ex(4,6,7,8) assms(5,6) by (cases "v = 0"; simp)+
  let ?r = "bignum_real (bn_flags bn) e (sig_of m)"
  have "bignum_normalize bn = ret ?r"
    using bignum_normalize_eq [OF assms(1,2)] assms(6) nf le by simp
  moreover have "real_normal ?r" using ex le by (intro real_normalI) simp_all
  moreover have "bn_val ?r = bn_val bn"
    using ex(1,7) assms(1,4) by (simp add: bn_val_def real_negative_p_sig [of _ m] real_negative_p_sig [of _ v])
  ultimately show thesis using that by simp
qed

text \<open>Normal forms are canonical.\<close>

lemma pow10_unique:
  assumes "m * 10 ^ k = (n::int)" "n mod 10 \<noteq> 0"
  shows "k = 0"
  using assms by (cases k) auto

lemma normal_unique:
  assumes "(of_int m :: rat) * 10 powi e = of_int m' * 10 powi e'"
    "m \<noteq> 0 \<longrightarrow> m mod 10 \<noteq> 0" "m' \<noteq> 0 \<longrightarrow> m' mod 10 \<noteq> 0" "m = 0 \<longrightarrow> e = 0" "m' = 0 \<longrightarrow> e' = 0"
  shows "m = m' \<and> e = e'"
proof -
  have le: "m = m' \<and> e = e'"
    if eq: "(of_int m :: rat) * 10 powi e = of_int m' * 10 powi e'" and "e' \<le> e"
      and "m' \<noteq> 0 \<longrightarrow> m' mod 10 \<noteq> 0" and "m = 0 \<longrightarrow> e = 0" "m' = 0 \<longrightarrow> e' = 0" for m m' e e'
  proof -
    have "(10::rat) powi e = 10 ^ nat (e - e') * 10 powi e'"
      using that(2) power_int_add [of "10::rat" "e - e'" e'] by (simp add: power_int_def)
    then have "(of_int m * 10 ^ nat (e - e') :: rat) = of_int m'" using eq by simp
    then have "(of_int (m * 10 ^ nat (e - e')) :: rat) = of_int m'" by simp
    then have mm: "m * 10 ^ nat (e - e') = m'" by (simp only: of_int_eq_iff)
    show ?thesis
    proof (cases "m' = 0")
      case True
      then show ?thesis using mm that by simp
    next
      case False
      then have "nat (e - e') = 0" using pow10_unique [OF mm] that(3) by simp
      then show ?thesis using mm that(2) by simp
    qed
  qed
  show ?thesis
  proof (cases "e' \<le> e")
    case True
    then show ?thesis using le [OF assms(1) _ assms(3,4,5)] by simp
  next
    case False
    then show ?thesis using le [OF assms(1) [symmetric] _ assms(2,5,4)] by simp
  qed
qed

lemma real_equal_p_normal:
  assumes "real_normal a" "real_normal b"
  shows "real_equal_p a b = ret (real_inexact_p a = real_inexact_p b \<and> bn_val a = bn_val b)"
proof -
  note A = real_normalD [OF assms(1)] and B = real_normalD [OF assms(2)]
  have sg: "sig_of (mant a) = [mant a]" "sig_of (mant b) = [mant b]"
    using A B by (simp_all add: sig_of_small)
  have val: "bn_val a = bn_val b \<longleftrightarrow> (if real_negative_p a then - mant a else mant a) =
      (if real_negative_p b then - mant b else mant b) \<and> bn_exp a = bn_exp b"
  proof -
    let ?s = "\<lambda>r. if real_negative_p r then - mant r else mant r"
    have v: "bn_val r = of_int (?s r) * 10 powi bn_exp r" if "real_normal r" for r
      using real_normalD [OF that] by (simp add: bn_val_def)
    have "bn_val a = bn_val b \<Longrightarrow> ?s a = ?s b \<and> bn_exp a = bn_exp b"
      using v [OF assms(1)] v [OF assms(2)] A B
      by (intro normal_unique) (auto simp: zmod_zminus1_eq_if split: if_splits)
    moreover have "?s a = ?s b \<and> bn_exp a = bn_exp b \<Longrightarrow> bn_val a = bn_val b"
      unfolding v [OF assms(1)] v [OF assms(2)] by (elim conjE) (simp only:)
    ultimately show ?thesis by blast
  qed
  show ?thesis
    unfolding real_equal_p_def as_real_def val using A B sg
    by (auto simp: real_negative_p_def split: if_splits)
qed

section \<open>Scaling\<close>

lemma scale_loop_eq:
  "bn_sig bn = sig_of v \<Longrightarrow> 0 \<le> v \<Longrightarrow> BE_MIN \<le> d \<Longrightarrow> e = d + int n \<Longrightarrow>
   scale_loop d e bn = ret (d, if n = 0 then bn else bn_of (v * 10 ^ n))"
proof (induction n arbitrary: e bn v)
  case 0
  then show ?case by (simp add: scale_loop.simps)
next
  case (Suc n)
  have "scale_loop d (e - 1) (bn_of (10 * v)) =
      ret (d, if n = 0 then bn_of (10 * v) else bn_of (10 * v * 10 ^ n))"
    using Suc.prems by (intro Suc.IH) simp_all
  moreover have "scale_loop d e bn = scale_loop d (e - 1) (bn_of (10 * v))"
    using Suc.prems by (subst scale_loop.simps) (simp add: bignum_shift_left_sig)
  ultimately show ?case by (simp add: ac_simps)
qed

text \<open>What the room check decides, with its subtraction at 32 bits.\<close>

lemma scale_significand_eq:
  assumes "bn_sig bn = sig_of v" "0 \<le> v" "BE_MIN \<le> d" "d \<le> bn_exp bn"
  shows "scale_significand bn d mx =
    (if mx - digits_of v < wrap32 (bn_exp bn - d) then ret None
     else ret (Some (bignum_real (bn_flags bn) d (sig_of (v * 10 ^ nat (bn_exp bn - d))))))"
  using scale_loop_eq [OF assms(1-3), of "bn_exp bn" "nat (bn_exp bn - d)"] assms
  by (simp add: scale_significand_def)

lemma wrap32_diff: "e - d \<le> BE_MAX \<Longrightarrow> d \<le> e \<Longrightarrow> wrap32 (e - d) = e - d"
  by (simp add: wrap32_id)

lemma powi_split: "d \<le> e \<Longrightarrow> (10::rat) powi e = 10 ^ nat (e - d) * 10 powi d"
  using power_int_add [of "10::rat" "e - d" d] by (simp add: power_int_def)

section \<open>Order\<close>

lemma digits_of_powi:
  assumes "0 < m"
  shows "10 powi (digits_of m + e - 1) \<le> (of_int m :: rat) * 10 powi e"
    and "(of_int m :: rat) * 10 powi e < 10 powi (digits_of m + e)"
proof -
  have d: "(10::rat) powi (digits_of m - 1) = of_int (10 ^ nat (digits_of m - 1))"
    "(10::rat) powi digits_of m = of_int (10 ^ nat (digits_of m))"
    using digits_of_ge_1 [of m] by (simp_all add: power_int_def)
  have "(10::rat) powi (digits_of m - 1) \<le> of_int m" "(of_int m :: rat) < 10 powi (digits_of m)"
    unfolding d of_int_le_iff of_int_less_iff using digits_of_bounds [OF assms] by simp_all
  then have "(10::rat) powi (digits_of m - 1) * 10 powi e \<le> of_int m * 10 powi e"
    and "(of_int m :: rat) * 10 powi e < 10 powi (digits_of m) * 10 powi e"
    by (simp_all add: mult_right_mono mult_strict_right_mono)
  then show "10 powi (digits_of m + e - 1) \<le> (of_int m :: rat) * 10 powi e"
    and "(of_int m :: rat) * 10 powi e < 10 powi (digits_of m + e)"
    by (simp_all add: power_int_add [symmetric] add.commute add_diff_eq)
qed

abbreviation mag :: "bignum \<Rightarrow> rat" where
  "mag r \<equiv> of_int (mant r) * 10 powi bn_exp r"

lemma bn_val_mag: "real_normal r \<Longrightarrow> bn_val r = (if real_negative_p r then - mag r else mag r)"
  using real_normalD [of r] by (simp add: bn_val_def)

lemma real_lt_digits_small:
  assumes "bn_sig a = sig_of m" "bn_sig b = sig_of n" "0 \<le> m" "m < INT_SEG_LIMIT" "0 \<le> n" "n < INT_SEG_LIMIT"
  shows "real_lt_digits na a b \<longleftrightarrow> (if na then n < m else m < n)"
  using assms by (auto simp: real_lt_digits_def sig_of_small)

text \<open>Equal positions of the leading digit leave room to scale.\<close>

lemma scale_room:
  assumes "0 < m" "m < INT_SEG_LIMIT" "0 < n" "e' \<le> e" "digits_of n + e = digits_of m + e'"
  shows "n * 10 ^ nat (e - e') < INT_SEG_LIMIT" "18 - digits_of n \<ge> e - e'"
proof -
  have "digits_of m \<le> 18" using assms(1,2) by (simp add: digits_of_le_18)
  then show le: "18 - digits_of n \<ge> e - e'" using assms(5) by linarith
  have "n * 10 ^ nat (e - e') < 10 ^ nat (digits_of n) * 10 ^ nat (e - e')"
    using digits_of_bounds(2) [OF assms(3)] by simp
  also have "\<dots> = 10 ^ (nat (digits_of n) + nat (e - e'))" by (simp add: power_add)
  also have "\<dots> \<le> (10::int) ^ 18" using le assms(4) digits_of_ge_1 [of n]
    by (intro power_increasing) simp_all
  finally show "n * 10 ^ nat (e - e') < INT_SEG_LIMIT" by simp
qed

lemma mag_scale: "d \<le> e \<Longrightarrow> (of_int m :: rat) * 10 powi e = of_int (m * 10 ^ nat (e - d)) * 10 powi d"
  by (simp add: powi_split)

lemma real_lt_scaled_normal:
  assumes N: "real_normal a" "real_normal b" and pos: "0 < mant a" "0 < mant b"
    and dp: "digits_of (mant a) + bn_exp a = digits_of (mant b) + bn_exp b"
  shows "real_lt_scaled na a b = ret (if na then mag b < mag a else mag a < mag b)"
proof -
  note A = real_normalD [OF N(1)] and B = real_normalD [OF N(2)]
  have cmp: "(of_int x :: rat) * 10 powi e < of_int y * 10 powi e \<longleftrightarrow> x < y" for x y e
    by simp
  show ?thesis
  proof (cases "bn_exp a < bn_exp b")
    case True
    let ?n = "mant b * 10 ^ nat (bn_exp b - bn_exp a)"
    note r = scale_room [OF pos(1) A(3) pos(2), of "bn_exp a" "bn_exp b"]
    have room: "?n < INT_SEG_LIMIT" "bn_exp b - bn_exp a \<le> 18 - digits_of (mant b)"
      using r True dp by simp_all
    then have w: "wrap32 (bn_exp b - bn_exp a) = bn_exp b - bn_exp a"
      using True digits_of_ge_1 [of "mant b"] by (intro wrap32_diff) simp_all
    have "scale_significand b (bn_exp a) 18 = ret (Some (bignum_real (bn_flags b) (bn_exp a) (sig_of ?n)))"
      using scale_significand_eq [OF B(1,2) A(7), of 18] True room(2) by (simp add: w)
    moreover have "real_lt_digits na a (bignum_real (bn_flags b) (bn_exp a) (sig_of ?n)) \<longleftrightarrow>
        (if na then ?n < mant a else mant a < ?n)"
      using A B room(1) by (intro real_lt_digits_small) simp_all
    moreover have "mag b = of_int ?n * 10 powi bn_exp a" using True by (intro mag_scale) simp
    ultimately show ?thesis using True cmp by (simp add: real_lt_scaled_def del: of_int_mult)
  next
    case False
    let ?n = "mant a * 10 ^ nat (bn_exp a - bn_exp b)"
    note r = scale_room [OF pos(2) B(3) pos(1), of "bn_exp b" "bn_exp a"]
    have room: "?n < INT_SEG_LIMIT" "bn_exp a - bn_exp b \<le> 18 - digits_of (mant a)"
      using r False dp by simp_all
    then have w: "wrap32 (bn_exp a - bn_exp b) = bn_exp a - bn_exp b"
      using False digits_of_ge_1 [of "mant a"] by (intro wrap32_diff) simp_all
    have "scale_significand a (bn_exp b) 18 = ret (Some (bignum_real (bn_flags a) (bn_exp b) (sig_of ?n)))"
      using scale_significand_eq [OF A(1,2) B(7), of 18] False room(2) by (simp add: w)
    moreover have "real_lt_digits na (bignum_real (bn_flags a) (bn_exp b) (sig_of ?n)) b \<longleftrightarrow>
        (if na then mant b < ?n else ?n < mant b)"
      using A B room(1) by (intro real_lt_digits_small) simp_all
    moreover have "bn_exp a = bn_exp b \<Longrightarrow> real_lt_digits na a b \<longleftrightarrow>
        (if na then mant b < ?n else ?n < mant b)"
      using real_lt_digits_small [OF A(1) B(1) A(2,3) B(2,3)] by simp
    moreover have "mag a = of_int ?n * 10 powi bn_exp b" using False by (intro mag_scale) simp
    ultimately show ?thesis
      using False cmp by (cases "bn_exp a = bn_exp b") (simp_all add: real_lt_scaled_def del: of_int_mult)
  qed
qed

lemma real_lt_p_normal:
  assumes N: "real_normal a" "real_normal b"
  shows "real_lt_p a b = ret (bn_val a < bn_val b)"
proof -
  note A = real_normalD [OF N(1)] and B = real_normalD [OF N(2)]
  have lt: "real_lt_p a b = real_lt_reals a b" using A B by (simp add: real_lt_p_def as_real_def)
  have neg: "real_negative_p r \<Longrightarrow> 0 < mant r" if "real_normal r" for r
    using real_normalD [OF that] by (auto simp: real_negative_p_def)
  have mag0: "0 \<le> mag r" "mag r = 0 \<longleftrightarrow> mant r = 0" if "real_normal r" for r
    using real_normalD [OF that] by simp_all
  note V = bn_val_mag [OF N(1)] bn_val_mag [OF N(2)]
  show ?thesis
  proof (cases "mant a = 0 \<or> mant b = 0 \<or> real_negative_p a \<noteq> real_negative_p b")
    case True
    define x y where "x = mag a" and "y = mag b"
    have xy: "0 \<le> x" "0 \<le> y" "x = 0 \<longleftrightarrow> mant a = 0" "y = 0 \<longleftrightarrow> mant b = 0"
      using mag0 [OF N(1)] mag0 [OF N(2)] by (simp_all only: x_def y_def)
    have "real_lt_reals a b = ret (if real_negative_p a \<and> \<not> real_negative_p b then True
        else if real_negative_p b \<and> \<not> real_negative_p a then False
        else if mant b = 0 then False else True)"
      using True neg [OF N(1)] neg [OF N(2)] A(9) B(9)
      by (auto simp: real_lt_reals_def real_positive_p_def Let_def)
    then show ?thesis
      unfolding lt V x_def [symmetric] y_def [symmetric] using True xy neg [OF N(1)] neg [OF N(2)]
      by (cases "real_negative_p a"; cases "real_negative_p b"; cases "mant a = 0"; cases "mant b = 0") simp_all
  next
    case False
    then have pos: "0 < mant a" "0 < mant b" using A(2) B(2) by simp_all
    let ?da = "digits_of (mant a) + bn_exp a" and ?db = "digits_of (mant b) + bn_exp b"
    have far: "mag r < mag r'"
      if "0 < mant r" "0 < mant r'" "digits_of (mant r) + bn_exp r < digits_of (mant r') + bn_exp r'" for r r'
    proof -
      have "(10::rat) powi (digits_of (mant r) + bn_exp r) \<le> 10 powi (digits_of (mant r') + bn_exp r' - 1)"
        using that(3) by (intro power_int_increasing) simp_all
      then show ?thesis using digits_of_powi [OF that(1), of "bn_exp r"] digits_of_powi [OF that(2), of "bn_exp r'"]
        by linarith
    qed
    define x y where "x = mag a" and "y = mag b"
    note far' = far [OF pos, folded x_def y_def] far [OF pos(2,1), folded x_def y_def]
    note eq' = real_lt_scaled_normal [OF N pos, folded x_def y_def]
    have "real_lt_reals a b =
        (if ?da < ?db then ret (\<not> real_negative_p a) else if ?db < ?da then ret (real_negative_p a)
         else real_lt_scaled (real_negative_p a) a b)"
      using False A B by (simp add: real_lt_reals_def real_positive_p_def Let_def)
    then have "real_lt_reals a b = ret (if real_negative_p a then y < x else x < y)"
      using far' eq' by (cases ?da ?db rule: linorder_cases) auto
    then show ?thesis
      unfolding lt V x_def [symmetric] y_def [symmetric] using False by auto
  qed
qed

section \<open>Rounding\<close>

text \<open>
  \<open>close x r\<close>: \<open>r\<close> is \<open>x\<close> to a relative error of \<open>10 ^ -17\<close>, one unit of the 18th
  significant digit.
\<close>

definition close :: "rat \<Rightarrow> rat \<Rightarrow> bool" where
  "close x r \<longleftrightarrow> \<bar>r - x\<bar> * 10 ^ 17 \<le> \<bar>x\<bar>"

lemma close_refl [simp]: "close x x"
  by (simp add: close_def)

lemma close_sign: "close x r \<Longrightarrow> close (- x) (- r)"
  by (simp add: close_def abs_minus_commute)

lemma close_scale: "close x r \<Longrightarrow> 0 < c \<Longrightarrow> close (x * c) (r * c)"
  by (simp add: close_def abs_mult flip: left_diff_distrib)

text \<open>Cutting a quotient \<open>p / q\<close> with at least 18 digits before the point to its 18 leading digits.\<close>

lemma cut_close:
  fixes x :: rat
  assumes "of_int v \<le> x" "x < of_int v + 1" "10 ^ (17 + n) \<le> v"
  shows "close x (of_int (v div 10 ^ n) * 10 ^ n)"
proof -
  let ?t = "(10::int) ^ n" and ?u = "v div 10 ^ n * 10 ^ n"
  have t: "0 < ?t" by simp
  have u: "?u \<le> v" "v < ?u + ?t"
    using div_mult_mod_eq [of v ?t] pos_mod_sign [OF t, of v] pos_mod_bound [OF t, of v] by linarith+
  then have "v + 1 \<le> ?u + ?t" by simp
  then have "(of_int (v + 1) :: rat) \<le> of_int (?u + ?t)" "(of_int ?u :: rat) \<le> of_int v"
    using u by (simp_all only: of_int_le_iff)
  then have e: "\<bar>of_int ?u - x\<bar> \<le> of_int ?t" using assms(1,2) by simp
  have "(of_int (10 ^ (17 + n)) :: rat) \<le> of_int v" using assms(3) by (simp only: of_int_le_iff)
  then have "of_int ?t * (10 ^ 17 :: rat) \<le> x"
    using assms(1) by (simp add: power_add mult.commute)
  moreover have "\<bar>of_int ?u - x\<bar> * 10 ^ 17 \<le> of_int ?t * 10 ^ 17"
    using e by (intro mult_right_mono) simp_all
  ultimately have "\<bar>of_int ?u - x\<bar> * 10 ^ 17 \<le> x" by linarith
  then show ?thesis unfolding close_def by (simp add: abs_if split: if_splits)
qed

lemma normal_form_close:
  fixes x :: rat
  assumes "0 \<le> v" "normal_form v e = (m, e')" "of_int v \<le> x" "x < of_int v + 1"
    "x = of_int v \<or> 10 ^ 17 \<le> v"
  shows "close (x * 10 powi e) (of_int m * 10 powi e')" "0 \<le> m" "m < INT_SEG_LIMIT"
    "m = 0 \<longrightarrow> e' = 0" "m \<noteq> 0 \<longrightarrow> m mod 10 \<noteq> 0" "m = 0 \<longleftrightarrow> v = 0"
    "m \<noteq> 0 \<longrightarrow> e \<le> e'" "m \<noteq> 0 \<longrightarrow> e' \<le> e + digits_of v - 1"
proof -
  let ?n = "excess v" and ?v1 = "v div 10 ^ excess v"
  have v1: "0 \<le> ?v1" "?v1 < INT_SEG_LIMIT"
    using trunc_18 [of v] assms(1) by (cases "v = 0"; simp)+
  have nf: "normal_form ?v1 (e + int ?n) = (if v = 0 then normal_form 0 0 else (m, e'))"
    if "v \<noteq> 0"
  proof -
    have "excess ?v1 = 0" using v1 digits_of_le_18 [of ?v1] by (simp add: excess_def)
    then show ?thesis using assms(2) that trunc_18 [of v] assms(1) by (auto simp: normal_form_def Let_def)
  qed
  have z: "v = 0 \<Longrightarrow> m = 0 \<and> e' = 0" using assms(2) by (simp add: normal_form_def)
  have ex: "v \<noteq> 0 \<Longrightarrow> (of_int m :: rat) * 10 powi e' = of_int ?v1 * 10 powi (e + int ?n) \<and> 0 \<le> m \<and>
      m < INT_SEG_LIMIT \<and> (m = 0 \<longrightarrow> e' = 0) \<and> (m \<noteq> 0 \<longrightarrow> m mod 10 \<noteq> 0) \<and> m \<noteq> 0 \<and>
      e' = e + int ?n + int (tz ?v1)"
    using normal_form_exact [of ?v1 "e + int ?n" m e'] nf v1 trunc_18(1) [of v] assms(1)
    by (simp add: digits_of_le_18)
  show "0 \<le> m" "m < INT_SEG_LIMIT" "m = 0 \<longrightarrow> e' = 0" "m \<noteq> 0 \<longrightarrow> m mod 10 \<noteq> 0" "m = 0 \<longleftrightarrow> v = 0"
    "m \<noteq> 0 \<longrightarrow> e \<le> e'"
    using z ex by (cases "v = 0"; simp)+
  show "m \<noteq> 0 \<longrightarrow> e' \<le> e + digits_of v - 1"
  proof
    assume "m \<noteq> 0"
    then have v: "0 < v" using z assms(1) by fastforce
    have "10 ^ tz ?v1 \<le> ?v1" using tz_dvd [of ?v1] trunc_18(1) [OF v] by (rule zdvd_imp_le)
    then have lt: "(10::int) ^ tz ?v1 < 10 ^ 18" using v1(2) by simp
    have "tz ?v1 < 18" by (rule power_less_imp_less_exp [OF _ lt]) simp
    moreover have "?n = 0 \<Longrightarrow> int (tz v) \<le> digits_of v - 1"
    proof -
      have "10 ^ tz v \<le> v" using tz_dvd [of v] v by (rule zdvd_imp_le)
      then have "(10::int) ^ tz v < 10 ^ nat (digits_of v)" using digits_of_bounds(2) [OF v] by linarith
      then have "tz v < nat (digits_of v)" by (rule power_less_imp_less_exp [rotated]) simp
      then show "int (tz v) \<le> digits_of v - 1" by linarith
    qed
    moreover have "?n \<noteq> 0 \<Longrightarrow> digits_of v = 18 + int ?n" by (simp add: excess_def)
    ultimately show "e' \<le> e + digits_of v - 1" using ex v by (cases "?n = 0") auto
  qed
  show "close (x * 10 powi e) (of_int m * 10 powi e')"
  proof (cases "v = 0")
    case True
    then show ?thesis using z assms by auto
  next
    case False
    then have v: "0 < v" using assms(1) by simp
    have eq: "(of_int m :: rat) * 10 powi e' = of_int ?v1 * 10 ^ ?n * 10 powi e"
    proof -
      have "(10::rat) powi (e + int ?n) = 10 ^ ?n * 10 powi e" by (simp add: power_int_add)
      then show ?thesis using ex [OF False, THEN conjunct1] by (simp only: mult.assoc)
    qed
    show ?thesis
    proof (cases "?n = 0")
      case n: True
      show ?thesis
      proof (cases "x = of_int v")
        case True
        then show ?thesis unfolding eq using n by simp
      next
        case False
        then have "close x (of_int v)" using cut_close [OF assms(3,4), of 0] assms(5) by simp
        then show ?thesis unfolding eq using n by (simp add: close_scale)
      qed
    next
      case n: False
      have "nat (digits_of v - 1) = 17 + ?n" using n by (simp add: excess_def)
      then have "10 ^ (17 + ?n) \<le> v" using digits_of_bounds(1) [OF v] by simp
      then show ?thesis unfolding eq using cut_close [OF assms(3,4)] by (simp add: close_scale)
    qed
  qed
qed

text \<open>Normalising a significand that is exact, or the whole part of \<open>x\<close>.\<close>

lemma normalize_close:
  fixes x :: rat
  assumes "bn_sig bn = sig_of v" "0 \<le> v" "\<not> integer_p bn" "of_int v \<le> x" "x < of_int v + 1"
    "x = of_int v \<or> 10 ^ 17 \<le> v" "BE_MIN \<le> bn_exp bn" "bn_exp bn + digits_of v \<le> BE_MAX"
  obtains r where "bignum_normalize bn = ret r" "real_normal r"
    "close ((if flag_real_negative (bn_flags bn) then - x else x) * 10 powi bn_exp bn) (bn_val r)"
    "digits_of v \<le> 18 \<Longrightarrow> bn_val r = bn_val bn"
    "bn_flags r = (bn_flags bn)\<lparr>flag_integer := False, flag_real := True\<rparr>"
proof -
  obtain m e where nf: "normal_form v (bn_exp bn) = (m, e)" by fastforce
  note nc = normal_form_close [OF assms(2) nf assms(4,5,6)]
  have e: "BE_MIN \<le> e" "e \<le> BE_MAX"
    using nc(4,7,8) assms(7,8) by (cases "m = 0"; simp)+
  let ?r = "bignum_real (bn_flags bn) e (sig_of m)"
  have le: "bn_exp bn \<le> BE_MAX" using assms(8) digits_of_ge_1 [of v] by linarith
  have "bignum_normalize bn = ret ?r"
    using bignum_normalize_eq [OF assms(1,2) le] nf e by simp
  moreover have "real_normal ?r" using nc e by (intro real_normalI) simp_all
  moreover have "close ((if flag_real_negative (bn_flags bn) then - x else x) * 10 powi bn_exp bn) (bn_val ?r)"
    using nc(1) close_sign [OF nc(1)] by simp
  moreover have "bn_val ?r = bn_val bn" if "digits_of v \<le> 18"
    using normal_form_exact(1,7) [OF assms(2) that nf] assms(1,3)
    by (simp add: bn_val_def real_negative_p_sig [of _ m] real_negative_p_sig [of _ v])
  ultimately show thesis using that by simp
qed

section \<open>An integer operand as a real\<close>

lemma close_trunc:
  assumes "0 < v"
  shows "close (of_int v) (of_int (v div 10 ^ excess v) * 10 ^ excess v)"
proof (cases "excess v = 0")
  case False
  then have "nat (digits_of v - 1) = 17 + excess v" by (simp add: excess_def)
  then have "10 ^ (17 + excess v) \<le> v" using digits_of_bounds(1) [OF assms] by simp
  then show ?thesis using cut_close [of v "of_int v" "excess v"] by simp
qed simp

text \<open>Integers of up to 18 digits become the real of the same value, longer ones a close one.\<close>

lemma bignum_to_real_bn_of:
  assumes "digits_of i \<le> BE_MAX"
  obtains r where "bignum_to_real (bn_of i) = ret r" "real_normal r" "close (of_int i) (bn_val r)"
    "digits_of i \<le> 18 \<Longrightarrow> bn_val r = of_int i"
    "\<not> flag_real_inexact (bn_flags r)" "flag_real_negative (bn_flags r) \<longleftrightarrow> i < 0"
proof -
  let ?v = "\<bar>i\<bar>" and ?n = "excess i" and ?v1 = "\<bar>i\<bar> div 10 ^ excess i"
  have dg: "digits_of ?v = digits_of i" "excess ?v = excess i" by (simp_all add: digits_of_def excess_def)
  let ?f = "if i < 0 then FLAG_NONE\<lparr>flag_real_negative := True\<rparr> else FLAG_NONE"
  have loop: "(if 1 < length (sig_of ?v) then to_real_loop (digits_of i) 0 (bn_of ?v) else (0, bn_of ?v)) =
      (int ?n, if ?n = 0 then bn_of ?v else bn_of ?v1)"
  proof (cases "?n = 0")
    case True
    then have "digits_of i \<le> 18" by (simp add: excess_def)
    then have "?v < INT_SEG_LIMIT" using digits_of_le_18 [of ?v] dg by simp
    then show ?thesis using True by (simp add: sig_of_small)
  next
    case False
    then have d: "digits_of i = 18 + int ?n" by (simp add: excess_def)
    then have "\<not> ?v < INT_SEG_LIMIT" using digits_of_le_18 [of ?v] dg False by simp
    then have "segs0 (?v div INT_SEG_LIMIT) \<noteq> []"
      by (simp add: pos_imp_zdiv_pos_iff)
    then have "1 < length (sig_of ?v)" by (cases "segs0 (?v div INT_SEG_LIMIT)") (simp_all add: sig_of_nonneg pos_segs_Cons)
    then show ?thesis using to_real_loop_eq [of "bn_of ?v" ?v "digits_of i" ?n 0] d False by simp
  qed
  let ?b = "bignum_real ?f (int ?n) (sig_of ?v1)"
  have b: "bignum_to_real (bn_of i) = bignum_normalize ?b"
    unfolding bignum_to_real_def bignum_ops Let_def bn_sig_bn_of count_digits_sig_of dg loop by simp
  have v1: "0 \<le> ?v1" "?v1 < INT_SEG_LIMIT"
    using trunc_18 [of ?v] dg by (cases "i = 0"; simp)+
  then have d1: "digits_of ?v1 \<le> 18" by (simp add: digits_of_le_18)
  have "int ?n + digits_of ?v1 \<le> BE_MAX"
    using d1 assms by (cases "?n = 0") (auto simp: excess_def)
  then obtain r where r: "bignum_normalize ?b = ret r" "real_normal r" "bn_val r = bn_val ?b"
      "bn_flags r = (bn_flags ?b)\<lparr>flag_integer := False, flag_real := True\<rparr>"
    using normalize_close [of ?b ?v1 "of_int ?v1"] v1 d1 by auto
  have val: "bn_val r = (if i < 0 then - 1 else 1) * (of_int ?v1 * 10 ^ ?n)"
    unfolding r(3) by (simp add: FLAG_NONE_def power_int_of_nat)
  have "close (of_int ?v) (of_int ?v1 * 10 ^ ?n)"
    using close_trunc [of ?v] dg by (cases "i = 0") simp_all
  then have "close (of_int i) (bn_val r)"
    unfolding val using close_sign [of "of_int ?v" "of_int ?v1 * 10 ^ ?n"] by (cases "i < 0") simp_all
  moreover have "digits_of i \<le> 18 \<Longrightarrow> bn_val r = of_int i"
    unfolding val by (simp add: excess_def)
  moreover have "\<not> flag_real_inexact (bn_flags r)" "flag_real_negative (bn_flags r) \<longleftrightarrow> i < 0"
    unfolding r(4) by (simp_all add: FLAG_NONE_def)
  ultimately show thesis using that b r by metis
qed

section \<open>Sums and differences\<close>

definition sval :: "bignum \<Rightarrow> int" where
  "sval r = (if real_negative_p r then - mant r else mant r)"

lemma bn_val_sval: "real_normal r \<Longrightarrow> bn_val r = of_int (sval r) * 10 powi bn_exp r"
  by (simp add: bn_val_mag sval_def)

lemma abs_sval: "real_normal r \<Longrightarrow> \<bar>sval r\<bar> = mant r"
  using real_normalD(2) [of r] by (simp add: sval_def)

lemma signed_integer_scaled:
  assumes "real_normal r"
  shows "signed_integer (bignum_real (bn_flags r) d (sig_of (mant r * 10 ^ k))) = bn_of (sval r * 10 ^ k)"
proof -
  have "real_negative_p (bignum_real (bn_flags r) d (sig_of (mant r * 10 ^ k))) \<longleftrightarrow> real_negative_p r"
    using real_normalD(1) [OF assms] by (simp add: real_negative_p_sig [of _ "mant r * 10 ^ k"] real_negative_p_sig [of r "mant r"])
  then show ?thesis by (simp add: signed_integer_def copy_to_integer_def sval_def)
qed

lemma signed_integer_normal: "real_normal r \<Longrightarrow> signed_integer r = bn_of (sval r)"
  using real_normalD(1) [of r] by (simp add: signed_integer_def copy_to_integer_def sval_def)

lemma add_normalize:
  assumes "BE_MIN \<le> e" "e + 40 \<le> BE_MAX" "\<bar>s\<bar> < 10 ^ 40"
  defines "bn \<equiv> bignum_real (if s < 0 then FLAG_NONE\<lparr>flag_real_negative := True\<rparr> else FLAG_NONE) e (sig_of \<bar>s\<bar>)"
  obtains r where "bignum_normalize bn = ret r" "real_normal r" "close (of_int s * 10 powi e) (bn_val r)"
    "\<bar>s\<bar> < INT_SEG_LIMIT \<Longrightarrow> bn_val r = of_int s * 10 powi e"
proof -
  have "digits_of \<bar>s\<bar> \<le> 40" using digits_of_le_iff [of "\<bar>s\<bar>" 39] assms(3) by simp
  then obtain r where r: "bignum_normalize bn = ret r" "real_normal r"
      "close ((if flag_real_negative (bn_flags bn) then - of_int \<bar>s\<bar> else of_int \<bar>s\<bar>) * 10 powi bn_exp bn) (bn_val r)"
      "digits_of \<bar>s\<bar> \<le> 18 \<Longrightarrow> bn_val r = bn_val bn"
    using normalize_close [of bn "\<bar>s\<bar>" "of_int \<bar>s\<bar>"] assms(1,2) by (auto simp: bn_def)
  moreover have "(if flag_real_negative (bn_flags bn) then - of_int \<bar>s\<bar> else of_int \<bar>s\<bar>) * 10 powi bn_exp bn =
      (of_int s :: rat) * 10 powi e"
    by (simp add: bn_def FLAG_NONE_def)
  moreover have "bn_val bn = of_int s * 10 powi e" by (simp add: bn_def FLAG_NONE_def)
  ultimately show thesis using that digits_of_le_18 [of "\<bar>s\<bar>"] by simp
qed

text \<open>A far smaller operand does not reach the 18th digit of the sum.\<close>

lemma close_dominant:
  fixes x y :: rat
  assumes "\<bar>y\<bar> * 10 ^ 18 \<le> \<bar>x\<bar>"
  shows "close (x + y) x"
proof -
  have "\<bar>x\<bar> - \<bar>y\<bar> \<le> \<bar>x + y\<bar>" by simp
  moreover have "\<bar>y\<bar> * 10 ^ 17 \<le> \<bar>y\<bar> * 10 ^ 18 - \<bar>y\<bar>" by simp
  ultimately show ?thesis using assms unfolding close_def by simp
qed

lemma no_room_dominant:
  assumes N: "real_normal a" "real_normal b" and nz: "mant a \<noteq> 0"
    and room: "36 - digits_of (mant a) < bn_exp a - bn_exp b"
  shows "\<bar>bn_val b\<bar> * 10 ^ 18 \<le> \<bar>bn_val a\<bar>" "mag b < mag a"
proof -
  note A = real_normalD [OF N(1)] and B = real_normalD [OF N(2)]
  have pos: "0 < mant a" using A(2) nz by simp
  have absv: "\<bar>bn_val r\<bar> = mag r" if "real_normal r" for r
    using real_normalD(2) [OF that] by (simp add: bn_val_mag [OF that])
  have "(of_int (mant b) :: rat) \<le> of_int (10 ^ 18)"
    using B(3) by (simp only: of_int_le_iff) simp
  then have "mag b * 10 ^ 18 \<le> 10 ^ 36 * 10 powi bn_exp b"
    by (simp add: mult_right_mono)
  also have "\<dots> = 10 powi (bn_exp b + 36)" by (simp add: power_int_add)
  also have "\<dots> \<le> 10 powi (digits_of (mant a) + bn_exp a - 1)"
    using room by (intro power_int_increasing) simp_all
  also have "\<dots> \<le> mag a" using digits_of_powi [OF pos] by simp
  finally have le: "mag b * 10 ^ 18 \<le> mag a" .
  then show "\<bar>bn_val b\<bar> * 10 ^ 18 \<le> \<bar>bn_val a\<bar>" using absv N by simp
  have "0 \<le> mag b" "0 < mag a" using B(2) pos by simp_all
  moreover have "0 \<le> y \<Longrightarrow> 0 < x \<Longrightarrow> y * 10 ^ 18 \<le> x \<Longrightarrow> y < x" for x y :: rat by simp
  ultimately show "mag b < mag a" using le by blast
qed

lemma real_abs_normal:
  assumes "real_normal r"
  shows "real_normal (real_abs r)" "bn_val (real_abs r) = mag r"
proof -
  note R = real_normalD [OF assms]
  have n: "real_normal (real_negate r)" if "real_negative_p r"
    using R that unfolding real_negate_def R(1) by (simp add: real_normalI)
  have v: "bn_val (real_negate r) = mag r" if "real_negative_p r"
    using R that unfolding real_negate_def R(1) by simp
  show "real_normal (real_abs r)" "bn_val (real_abs r) = mag r"
    using n v assms R(6) bn_val_mag [OF assms] by (simp_all add: real_abs_def)
qed

lemma mant_0_val: "mant r = 0 \<Longrightarrow> real_normal r \<Longrightarrow> bn_val r = 0"
  by (simp add: bn_val_sval sval_def)

lemma real_add_zero:
  assumes N: "real_normal a" "real_normal b"
  shows "mant a = 0 \<Longrightarrow> real_add a b = ret b" "mant a \<noteq> 0 \<Longrightarrow> mant b = 0 \<Longrightarrow> real_add a b = ret a"
  using real_normalD [OF N(1)] real_normalD [OF N(2)] by (simp_all add: real_add_def as_real_def)

text \<open>The exact sum, as a significand at the smaller exponent.\<close>

definition sum_sig :: "bignum \<Rightarrow> bignum \<Rightarrow> int" where
  "sum_sig a b = sval a * 10 ^ nat (bn_exp a - bn_exp b) + sval b * 10 ^ nat (bn_exp b - bn_exp a)"

lemma sum_sig_val:
  assumes "real_normal a" "real_normal b"
  shows "bn_val a + bn_val b = of_int (sum_sig a b) * 10 powi min (bn_exp a) (bn_exp b)"
  unfolding bn_val_sval [OF assms(1)] bn_val_sval [OF assms(2)] sum_sig_def
  using powi_split [of "bn_exp a" "bn_exp b"] powi_split [of "bn_exp b" "bn_exp a"]
  by (cases "bn_exp a \<le> bn_exp b") (simp_all add: min_def distrib_right)

lemma scaled_bounds:
  assumes "real_normal r" "0 < mant r"
  shows "digits_of (mant r) + int k \<le> 36 \<Longrightarrow> \<bar>sval r * 10 ^ k\<bar> < 10 ^ 36"
    and "36 < digits_of (mant r) + int k \<Longrightarrow> 10 ^ 36 \<le> \<bar>sval r * 10 ^ k\<bar>"
proof -
  have eq: "\<bar>sval r * 10 ^ k\<bar> = mant r * 10 ^ k" using abs_sval [OF assms(1)] by (simp add: abs_mult)
  note b = digits_of_bounds [OF assms(2)]
  have d1: "1 \<le> digits_of (mant r)" by (rule digits_of_ge_1)
  {
    assume "digits_of (mant r) + int k \<le> 36"
    then have "(10::int) ^ (nat (digits_of (mant r)) + k) \<le> 10 ^ 36"
      using d1 by (intro power_increasing) simp_all
    moreover have "mant r * 10 ^ k < 10 ^ nat (digits_of (mant r)) * 10 ^ k" using b(2) by simp
    ultimately show "\<bar>sval r * 10 ^ k\<bar> < 10 ^ 36" unfolding eq by (simp only: power_add)
  }
  {
    assume "36 < digits_of (mant r) + int k"
    then have "(10::int) ^ 36 \<le> 10 ^ (nat (digits_of (mant r) - 1) + k)"
      using d1 by (intro power_increasing) simp_all
    moreover have "10 ^ nat (digits_of (mant r) - 1) * 10 ^ k \<le> mant r * 10 ^ k" using b(1) by simp
    ultimately show "10 ^ 36 \<le> \<bar>sval r * 10 ^ k\<bar>" unfolding eq by (simp only: power_add)
  }
qed

lemma real_add_aligned:
  assumes N: "real_normal a" "real_normal b" and pos: "0 < mant a" "0 < mant b"
    and le: "bn_exp b \<le> bn_exp a" and e: "bn_exp a - bn_exp b \<le> BE_MAX"
    and room: "bn_exp a - bn_exp b \<le> 36 - digits_of (mant a)"
  defines "bn \<equiv> \<lambda>s. bignum_real (if s < 0 then FLAG_NONE\<lparr>flag_real_negative := True\<rparr> else FLAG_NONE)
      (bn_exp b) (sig_of \<bar>s\<bar>)"
  shows "real_add a b = bignum_normalize (bn (sum_sig a b))"
    and "real_add b a = bignum_normalize (bn (sum_sig a b))"
proof -
  note A = real_normalD [OF N(1)] and B = real_normalD [OF N(2)]
  let ?k = "nat (bn_exp a - bn_exp b)"
  let ?a1 = "if bn_exp b < bn_exp a then bignum_real (bn_flags a) (bn_exp b) (sig_of (mant a * 10 ^ ?k)) else a"
  have scale: "bn_exp b < bn_exp a \<Longrightarrow> scale_significand a (bn_exp b) 36 = ret (Some ?a1)"
    using scale_significand_eq [OF A(1,2) B(7) le, of 36] room wrap32_diff [OF e le] by simp
  have si: "signed_integer ?a1 = bn_of (sval a * 10 ^ ?k)"
    using signed_integer_scaled [OF N(1)] signed_integer_normal [OF N(1)] le by simp
  have e1: "bn_exp ?a1 = bn_exp b" using le by simp
  have sum: "sum_sig a b = sval a * 10 ^ ?k + sval b" using le by (simp add: sum_sig_def)
  have z: "\<not> real_zero_p a" "\<not> real_zero_p b" using A(9) B(9) pos by simp_all
  show "real_add a b = bignum_normalize (bn (sum_sig a b))"
    using A(6) B(6) z scale si e1 le signed_integer_normal [OF N(2)]
    by (cases "bn_exp b < bn_exp a") (simp_all add: real_add_def as_real_def sum bn_def)
  show "real_add b a = bignum_normalize (bn (sum_sig a b))"
    using A(6) B(6) z scale si e1 le signed_integer_normal [OF N(2)]
    by (cases "bn_exp b < bn_exp a") (simp_all add: real_add_def as_real_def sum bn_def add.commute)
qed

lemma real_add_no_room:
  assumes N: "real_normal a" "real_normal b" and pos: "0 < mant a" "0 < mant b"
    and le: "bn_exp b \<le> bn_exp a" and e: "bn_exp a - bn_exp b \<le> BE_MAX"
    and room: "36 - digits_of (mant a) < bn_exp a - bn_exp b"
  shows "real_add a b = ret a" "real_add b a = ret a"
proof -
  note A = real_normalD [OF N(1)] and B = real_normalD [OF N(2)]
  have z: "\<not> real_zero_p a" "\<not> real_zero_p b" using A(9) B(9) pos by simp_all
  have "digits_of (mant a) \<le> 18" using A(2,3) by (simp add: digits_of_le_18)
  then have lt: "bn_exp b < bn_exp a" using room by linarith
  have scale: "scale_significand a (bn_exp b) 36 = ret None"
    using scale_significand_eq [OF A(1,2) B(7) le, of 36] room wrap32_diff [OF e le] by simp
  have dom: "mag b < mag a" using no_room_dominant(2) [OF N _ room] pos by simp
  have "real_lt_p (real_abs x) (real_abs y) = ret (mag x < mag y)" if "real_normal x" "real_normal y" for x y
    using real_lt_p_normal [OF real_abs_normal(1) [OF that(1)] real_abs_normal(1) [OF that(2)]]
      real_abs_normal(2) that by simp
  then have "real_lt_p (real_abs a) (real_abs b) = ret False" "real_lt_p (real_abs b) (real_abs a) = ret True"
    using N dom by (simp_all add: not_less less_imp_le)
  then show "real_add a b = ret a" "real_add b a = ret a"
    using A(6) B(6) z scale lt by (simp_all add: real_add_def as_real_def)
qed

lemma real_add_ordered:
  assumes N: "real_normal a" "real_normal b" and pos: "0 < mant a" "0 < mant b"
    and le: "bn_exp b \<le> bn_exp a" and ex: "bn_exp a \<le> 10 ^ 9" "- (10 ^ 9) \<le> bn_exp b"
  shows "\<exists>r. real_add a b = ret r \<and> real_add b a = ret r \<and> real_normal r \<and>
    close (bn_val a + bn_val b) (bn_val r) \<and>
    (\<bar>sum_sig a b\<bar> < INT_SEG_LIMIT \<longrightarrow> bn_val r = bn_val a + bn_val b)"
proof -
  have e: "bn_exp a - bn_exp b \<le> BE_MAX" using ex by simp
  have sv: "\<bar>sval b\<bar> < INT_SEG_LIMIT" using abs_sval real_normalD(3) N(2) by simp
  have sum: "sum_sig a b = sval a * 10 ^ nat (bn_exp a - bn_exp b) + sval b" using le by (simp add: sum_sig_def)
  have val: "bn_val a + bn_val b = of_int (sum_sig a b) * 10 powi bn_exp b"
    using sum_sig_val [OF N] le by (simp add: min_def)
  show ?thesis
  proof (cases "bn_exp a - bn_exp b \<le> 36 - digits_of (mant a)")
    case True
    have be: "BE_MIN \<le> bn_exp b" "bn_exp b + 40 \<le> BE_MAX" using ex le by simp_all
    have s40: "\<bar>sum_sig a b\<bar> < 10 ^ 40"
      using scaled_bounds(1) [OF N(1) pos(1), of "nat (bn_exp a - bn_exp b)"] True le sv sum by simp
    then obtain r where "bignum_normalize (bignum_real (if sum_sig a b < 0
          then FLAG_NONE\<lparr>flag_real_negative := True\<rparr> else FLAG_NONE) (bn_exp b) (sig_of \<bar>sum_sig a b\<bar>)) = ret r"
        "real_normal r" "close (of_int (sum_sig a b) * 10 powi bn_exp b) (bn_val r)"
        "\<bar>sum_sig a b\<bar> < INT_SEG_LIMIT \<Longrightarrow> bn_val r = of_int (sum_sig a b) * 10 powi bn_exp b"
      using add_normalize [OF be s40] by blast
    then show ?thesis using real_add_aligned [OF N pos le e True] val by auto
  next
    case False
    then have room: "36 - digits_of (mant a) < bn_exp a - bn_exp b" by simp
    have "10 ^ 36 \<le> \<bar>sval a * 10 ^ nat (bn_exp a - bn_exp b)\<bar>"
      using scaled_bounds(2) [OF N(1) pos(1), of "nat (bn_exp a - bn_exp b)"] room le by simp
    then have "\<not> \<bar>sum_sig a b\<bar> < INT_SEG_LIMIT" using sv sum by simp
    moreover have "close (bn_val a + bn_val b) (bn_val a)"
      using no_room_dominant(1) [OF N _ room] pos by (intro close_dominant) simp
    ultimately show ?thesis using real_add_no_room [OF N pos le e room] N(1) by blast
  qed
qed

lemma sum_sig_commute: "sum_sig b a = sum_sig a b"
  by (simp add: sum_sig_def)

text \<open>An exponent well inside \<^verbatim>\<open>int32_t\<close>.\<close>

definition exp_ok :: "bignum \<Rightarrow> bool" where
  "exp_ok r \<longleftrightarrow> \<bar>bn_exp r\<bar> \<le> 10 ^ 9"

lemma real_add_normal:
  assumes N: "real_normal a" "real_normal b" and ex: "exp_ok a" "exp_ok b"
  shows "\<exists>r. real_add a b = ret r \<and> real_normal r \<and> close (bn_val a + bn_val b) (bn_val r) \<and>
    (\<bar>sum_sig a b\<bar> < INT_SEG_LIMIT \<longrightarrow> bn_val r = bn_val a + bn_val b)"
proof (cases "mant a = 0 \<or> mant b = 0")
  case True
  then show ?thesis
    using real_add_zero [OF N] mant_0_val [OF _ N(1)] mant_0_val [OF _ N(2)] N
    by (cases "mant a = 0") auto
next
  case False
  then have pos: "0 < mant a" "0 < mant b"
    using real_normalD(2) [OF N(1)] real_normalD(2) [OF N(2)] by simp_all
  have bnd: "bn_exp a \<le> 10 ^ 9" "- (10 ^ 9) \<le> bn_exp a" "bn_exp b \<le> 10 ^ 9" "- (10 ^ 9) \<le> bn_exp b"
    using ex by (simp_all add: exp_ok_def)
  show ?thesis
  proof (cases "bn_exp b \<le> bn_exp a")
    case True
    then show ?thesis using real_add_ordered [OF N pos _ bnd(1,4)] by blast
  next
    case False
    then have "bn_exp a \<le> bn_exp b" by simp
    from real_add_ordered [OF N(2,1) pos(2,1) this bnd(3,2)] show ?thesis
      by (metis add.commute sum_sig_commute)
  qed
qed

lemma real_negate_normal:
  assumes "real_normal r"
  shows "real_normal (real_negate r)" "bn_val (real_negate r) = - bn_val r"
    "bn_exp (real_negate r) = bn_exp r" "mant (real_negate r) = mant r" "sval (real_negate r) = - sval r"
proof -
  note R = real_normalD [OF assms]
  show n: "real_normal (real_negate r)"
    using R unfolding real_negate_def R(1) by (simp add: real_normalI)
  show e: "bn_exp (real_negate r) = bn_exp r" "mant (real_negate r) = mant r"
    by (simp_all add: real_negate_def mant_def)
  have "real_negative_p (real_negate r) \<longleftrightarrow> \<not> real_negative_p r \<or> False" if "mant r \<noteq> 0"
    using R that by (auto simp: real_negate_def real_negative_p_sig [of _ "mant r"])
  then show s: "sval (real_negate r) = - sval r"
    using e by (cases "mant r = 0") (auto simp: sval_def)
  show "bn_val (real_negate r) = - bn_val r"
    unfolding bn_val_sval [OF n] bn_val_sval [OF assms] s e by simp
qed

lemma real_subtract_normal:
  assumes N: "real_normal a" "real_normal b" and ex: "exp_ok a" "exp_ok b"
  shows "\<exists>r. real_subtract a b = ret r \<and> real_normal r \<and> close (bn_val a - bn_val b) (bn_val r) \<and>
    (\<bar>sum_sig a (real_negate b)\<bar> < INT_SEG_LIMIT \<longrightarrow> bn_val r = bn_val a - bn_val b)"
  using real_add_normal [OF N(1) real_negate_normal(1) [OF N(2)] ex(1)] ex(2) real_negate_normal [OF N(2)]
    real_normalD(6) [OF N(2)]
  by (auto simp: real_subtract_def exp_ok_def)

section \<open>Products and quotients\<close>

lemma sval_mult_sign:
  assumes "real_normal a" "real_normal b"
  shows "of_int (sval a) * of_int (sval b) =
    (if real_negative_p a \<noteq> real_negative_p b then - 1 else 1 :: rat) * of_int (mant a * mant b)"
  by (simp add: sval_def)

lemma copy_to_integer_normal: "real_normal r \<Longrightarrow> copy_to_integer r = bn_of (mant r)"
  using real_normalD(1) [of r] by (simp add: copy_to_integer_def)

lemma mul_exp_ok: "\<bar>x\<bar> \<le> 10 ^ 9 \<Longrightarrow> \<bar>y\<bar> \<le> 10 ^ 9 \<Longrightarrow> mul_exp x y = ret (x + y)"
  by (auto simp: mul_exp_def wrap32_id)

lemma real_multiply_normal:
  assumes N: "real_normal a" "real_normal b" and ex: "exp_ok a" "exp_ok b"
  shows "\<exists>r. real_multiply a b = ret r \<and> real_normal r \<and> close (bn_val a * bn_val b) (bn_val r) \<and>
    (mant a * mant b < INT_SEG_LIMIT \<longrightarrow> bn_val r = bn_val a * bn_val b)"
proof (cases "mant a = 0 \<or> mant b = 0")
  case True
  then show ?thesis
    using mant_0_val [OF _ N(1)] mant_0_val [OF _ N(2)] N real_normalD [OF N(1)] real_normalD [OF N(2)]
    by (cases "mant a = 0") (auto simp: real_multiply_def as_real_def)
next
  case False
  note A = real_normalD [OF N(1)] and B = real_normalD [OF N(2)]
  have pos: "0 < mant a" "0 < mant b" using A(2) B(2) False by simp_all
  let ?v = "mant a * mant b" and ?neg = "real_negative_p a \<noteq> real_negative_p b"
  let ?bn = "bignum_real (FLAG_NONE\<lparr>flag_real_negative := ?neg\<rparr>) (bn_exp a + bn_exp b) (sig_of ?v)"
  have m: "real_multiply a b = bignum_normalize ?bn"
    using A(6,9) B(6,9) False mul_exp_ok ex copy_to_integer_normal N
    by (simp add: real_multiply_def as_real_def exp_ok_def)
  have v: "0 \<le> ?v" "?v < 10 ^ 36"
    using pos mult_strict_mono [of "mant a" INT_SEG_LIMIT "mant b" INT_SEG_LIMIT] A(3) B(3) by simp_all
  then have d: "digits_of ?v \<le> 36" using digits_of_le_iff [of ?v 35] by simp
  have pre: "BE_MIN \<le> bn_exp ?bn" "bn_exp ?bn + digits_of ?v \<le> BE_MAX"
    using ex d by (auto simp: exp_ok_def)
  have fl: "flag_real_negative (bn_flags ?bn) \<longleftrightarrow> ?neg" by (simp add: FLAG_NONE_def)
  obtain r where r: "bignum_normalize ?bn = ret r" "real_normal r"
      "close ((if ?neg then - of_int ?v else of_int ?v) * 10 powi bn_exp ?bn) (bn_val r)"
      "digits_of ?v \<le> 18 \<Longrightarrow> bn_val r = bn_val ?bn"
    using normalize_close [OF _ v(1) _ _ _ _ pre, of "of_int ?v", unfolded fl] by auto
  have val: "bn_val a * bn_val b = (if ?neg then - of_int ?v else of_int ?v) * 10 powi bn_exp ?bn"
    unfolding bn_val_sval [OF N(1)] bn_val_sval [OF N(2)] using sval_mult_sign [OF N]
    by (simp add: power_int_add mult.commute mult.left_commute)
  moreover have "bn_val ?bn = bn_val a * bn_val b" unfolding val by (simp add: bn_val_real)
  ultimately show ?thesis using m r digits_of_le_18 [OF v(1)] by metis
qed

lemma div_scale_loop_eq:
  "bn_sig bn = sig_of v \<Longrightarrow> 0 \<le> v \<Longrightarrow> dd = nd + int k \<Longrightarrow> BE_MIN \<le> e - int k \<Longrightarrow>
   div_scale_loop nd dd e bn = ret (e - int k, if k = 0 then bn else bn_of (v * 10 ^ k))"
proof (induction k arbitrary: nd e bn v)
  case 0
  then show ?case by (simp add: div_scale_loop.simps)
next
  case (Suc k)
  have "div_scale_loop (nd + 1) dd (e - 1) (bn_of (10 * v)) =
      ret (e - 1 - int k, if k = 0 then bn_of (10 * v) else bn_of (10 * v * 10 ^ k))"
    using Suc.prems by (intro Suc.IH) simp_all
  moreover have "div_scale_loop nd dd e bn = div_scale_loop (nd + 1) dd (e - 1) (bn_of (10 * v))"
    using Suc.prems by (subst div_scale_loop.simps) (simp add: bignum_shift_left_sig)
  ultimately show ?case by (simp add: ac_simps)
qed

lemma div_exp_ok: "\<bar>x\<bar> \<le> 10 ^ 9 + 36 \<Longrightarrow> \<bar>y\<bar> \<le> 10 ^ 9 \<Longrightarrow> div_exp x y = ret (x - y)"
  by (auto simp: div_exp_def wrap32_id)

text \<open>The scaled quotient has 18 digits or 19.\<close>

lemma scaled_quotient:
  assumes "0 < m" "0 < n" "int k = 18 + digits_of n - digits_of m"
  shows "10 ^ 17 \<le> m * 10 ^ k div n" "m * 10 ^ k div n < 10 ^ 20"
proof -
  have d: "1 \<le> digits_of m" "1 \<le> digits_of n" by (simp_all add: digits_of_ge_1)
  have "n * 10 ^ 17 \<le> 10 ^ nat (digits_of n) * 10 ^ 17" using digits_of_bounds(2) [OF assms(2)] by simp
  also have "\<dots> = 10 ^ (nat (digits_of m - 1) + k)"
    unfolding power_add [symmetric] using d assms(3) by (intro arg_cong [of _ _ "power 10"]) simp
  also have "\<dots> \<le> m * 10 ^ k" using digits_of_bounds(1) [OF assms(1)] by (simp add: power_add)
  finally have "n * 10 ^ 17 div n \<le> m * 10 ^ k div n" using assms(2) by (intro zdiv_mono1)
  then show "10 ^ 17 \<le> m * 10 ^ k div n" using assms(2) by simp
  have "m * 10 ^ k < 10 ^ nat (digits_of m) * 10 ^ k" using digits_of_bounds(2) [OF assms(1)] by simp
  also have "\<dots> = 10 ^ 19 * 10 ^ nat (digits_of n - 1)"
    unfolding power_add [symmetric] using d assms(3) by (intro arg_cong [of _ _ "power 10"]) simp
  also have "\<dots> \<le> 10 ^ 20 * n" using digits_of_bounds(1) [OF assms(2)] by (intro mult_mono) simp_all
  finally show "m * 10 ^ k div n < 10 ^ 20" using assms(2) by (intro int_div_less)
qed

lemma real_divide_normal:
  assumes N: "real_normal a" "real_normal b" and ex: "exp_ok a" "exp_ok b" and nz: "bn_val b \<noteq> 0"
  shows "\<exists>r. real_divide a b = ret (Some r) \<and> real_normal r \<and> close (bn_val a / bn_val b) (bn_val r)"
proof (cases "mant a = 0")
  case True
  note A = real_normalD [OF N(1)]
  have r0: "real_divide a b = ret (Some (bignum_real FLAG_NONE 0 (sig_of 0)))"
    using A True by (simp add: real_divide_def as_real_def bignum_integer_intmax_t_eq intptr_defs)
  have "real_normal (bignum_real FLAG_NONE 0 (sig_of 0))" by (intro real_normalI) simp_all
  then show ?thesis using r0 mant_0_val [OF True N(1)] by simp
next
  case False
  note A = real_normalD [OF N(1)] and B = real_normalD [OF N(2)]
  have "mant b \<noteq> 0" using nz mant_0_val [OF _ N(2)] by auto
  then have pos: "0 < mant a" "0 < mant b" using A(2) B(2) False by simp_all
  have d18: "digits_of (mant a) \<le> 18" "digits_of (mant b) \<le> 18"
    using A(2,3) B(2,3) by (simp_all add: digits_of_le_18)
  define k where "k = nat (18 + digits_of (mant b) - digits_of (mant a))"
  have k: "int k = 18 + digits_of (mant b) - digits_of (mant a)" "0 < k" "int k \<le> 36"
    using d18 digits_of_ge_1 [of "mant a"] digits_of_ge_1 [of "mant b"] by (auto simp: k_def)
  let ?p = "mant a * 10 ^ k" and ?neg = "real_negative_p a \<noteq> real_negative_p b"
  let ?q = "?p div mant b"
  let ?bn = "bignum_real (FLAG_NONE\<lparr>flag_real_negative := ?neg\<rparr>) (bn_exp a - int k - bn_exp b) (sig_of ?q)"
  have loop: "div_scale_loop (digits_of (mant a)) (18 + digits_of (mant b)) (bn_exp a) (bn_of (mant a)) =
      ret (bn_exp a - int k, bn_of ?p)"
    using div_scale_loop_eq [of "bn_of (mant a)" "mant a" "18 + digits_of (mant b)" "digits_of (mant a)" k
        "bn_exp a"] pos k ex by (simp add: exp_ok_def)
  have de: "div_exp (bn_exp a - int k) (bn_exp b) = ret (bn_exp a - int k - bn_exp b)"
    using ex k by (intro div_exp_ok) (simp_all add: exp_ok_def)
  have q: "10 ^ 17 \<le> ?q" "?q < 10 ^ 20" using scaled_quotient [OF pos k(1)] .
  have m: "real_divide a b = bind_comp (bignum_normalize ?bn) (\<lambda>r. ret (Some r))"
    using A B pos loop de copy_to_integer_normal [OF N(1)] copy_to_integer_normal [OF N(2)]
      bignum_zero_p_sig [OF B(1)]
    by (simp add: real_divide_def as_real_def Let_def)
  define x where "x = (of_int ?p / of_int (mant b) :: rat)"
  have "?q = \<lfloor>x\<rfloor>" unfolding x_def by (rule floor_divide_of_int_eq [symmetric])
  then have x: "of_int ?q \<le> x" "x < of_int ?q + 1"
    using floor_correct [of x] by (simp_all only: of_int_add of_int_1)
  have "digits_of ?q \<le> 20" using digits_of_le_iff [of ?q 19] q by simp
  then have pre: "BE_MIN \<le> bn_exp ?bn" "bn_exp ?bn + digits_of ?q \<le> BE_MAX"
    using ex k by (auto simp: exp_ok_def)
  have fl: "flag_real_negative (bn_flags ?bn) \<longleftrightarrow> ?neg" by (simp add: FLAG_NONE_def)
  have q0: "0 \<le> ?q" using q(1) by simp
  obtain r where r: "bignum_normalize ?bn = ret r" "real_normal r"
      "close ((if ?neg then - x else x) * 10 powi bn_exp ?bn) (bn_val r)"
    using normalize_close [OF _ q0 _ x _ pre, unfolded fl] q(1) by auto
  have pw: "(10::rat) powi (bn_exp a - int k - bn_exp b) = 10 powi bn_exp a / 10 ^ k / 10 powi bn_exp b"
    by (simp add: power_int_diff)
  have "bn_val a / bn_val b = (if ?neg then - x else x) * 10 powi bn_exp ?bn"
    unfolding bn_val_sval [OF N(1)] bn_val_sval [OF N(2)] x_def bignum_real_simps pw by (simp add: sval_def)
  then show ?thesis using m r by simp
qed

end
