(* ===== verification/Bignum_Conv.thy ===== *)
theory Bignum_Conv
  imports Bignum_Real_Props
begin

text \<open>
  From a bignum to a fixnum and to the C integer types (\<^verbatim>\<open>src/src/bignum.c\<close>,
  \<^verbatim>\<open>src/src/bignum.h\<close>).
\<close>

section \<open>Reals that are integers\<close>

lemma real_to_integer_normal:
  assumes "real_normal r"
  shows "real_to_integer r =
    ret (if 0 \<le> bn_exp r \<and> digits_of (mant r) + bn_exp r \<le> 18
         then Some (bn_of (sval r * 10 ^ nat (bn_exp r))) else None)"
proof -
  note R = real_normalD [OF assms]
  have s: "real_negative_p r \<Longrightarrow> sval r = - mant r" "\<not> real_negative_p r \<Longrightarrow> sval r = mant r"
    by (simp_all add: sval_def)
  show ?thesis
    using scale_significand_eq [OF R(1,2), of 0 18] R(8) s
    by (cases "0 \<le> bn_exp r"; cases "real_negative_p r")
      (auto simp: real_to_integer_def wrap32_id copy_to_integer_def)
qed

lemma isa_integer_bignum_normal:
  assumes "real_normal r"
  shows "isa_integer_bignum r = ret (bn_val r \<in> \<int> \<and> \<bar>bn_val r\<bar> < 10 ^ 18)"
proof -
  note R = real_normalD [OF assms]
  have "0 \<le> bn_exp r \<and> digits_of (mant r) + bn_exp r \<le> 18 \<longleftrightarrow> bn_val r \<in> \<int> \<and> \<bar>bn_val r\<bar> < 10 ^ 18"
  proof (cases "0 \<le> bn_exp r")
    case True
    let ?v = "mant r * 10 ^ nat (bn_exp r)"
    have val: "bn_val r = of_int (sval r * 10 ^ nat (bn_exp r))"
      using True by (simp add: bn_val_sval [OF assms] power_int_def)
    have "\<bar>bn_val r\<bar> = of_int ?v"
      unfolding val by (simp add: abs_mult abs_sval [OF assms] flip: of_int_abs)
    then have "\<bar>bn_val r\<bar> < 10 ^ 18 \<longleftrightarrow> (of_int ?v :: rat) < of_int (10 ^ 18)" by simp
    also have "\<dots> \<longleftrightarrow> ?v < 10 ^ 18" by (rule of_int_less_iff)
    also have "\<dots> \<longleftrightarrow> digits_of (mant r) + bn_exp r \<le> 18"
    proof (cases "mant r = 0")
      case False
      then have p: "0 < mant r" using R(2) by simp
      have "digits_of ?v = digits_of (mant r) + bn_exp r"
      proof -
        have "dec_digits_of (nat (mant r) * 10 ^ nat (bn_exp r) + 0) = nat (bn_exp r) + dec_digits_of (nat (mant r))"
          using p by (intro dec_digits_of_mult) simp_all
        moreover have "nat ?v = nat (mant r) * 10 ^ nat (bn_exp r)" using p by (simp add: nat_mult_distrib nat_power_eq)
        ultimately show ?thesis using p True by (simp add: digits_of_def)
      qed
      then show ?thesis using digits_of_le_18 [of ?v] p by simp
    qed (use R(4) in \<open>simp add: digits_of_def dec_digits_of.simps\<close>)
    finally show ?thesis using True unfolding val by simp
  next
    case False
    have "bn_val r \<notin> \<int>"
    proof
      assume "bn_val r \<in> \<int>"
      then obtain z where z: "bn_val r = of_int z" by (elim Ints_cases)
      have "(of_int (sval r) :: rat) = of_int z * 10 ^ nat (- bn_exp r)"
        using False z by (simp add: bn_val_sval [OF assms] power_int_def field_simps)
      then have "(of_int (sval r) :: rat) = of_int (z * 10 ^ nat (- bn_exp r))" by simp
      then have "sval r = z * 10 ^ nat (- bn_exp r)" by (simp only: of_int_eq_iff)
      moreover have "nat (- bn_exp r) \<noteq> 0" using False by simp
      ultimately have "10 dvd sval r" by (metis dvd_mult dvd_power gr0I)
      then have "10 dvd mant r" by (simp add: sval_def split: if_splits)
      then show False using R(4,5) False by fastforce
    qed
    then show ?thesis using False by simp
  qed
  then show ?thesis
    using R(6) by (simp add: isa_integer_bignum_def real_to_integer_normal [OF assms])
qed

section \<open>To a fixnum\<close>

text \<open>
  \<^verbatim>\<open>idio_bignum_to_fixnum\<close>: \<open>None\<close> is the bignum itself. Its loop runs from the most
  significant segment, in \<^verbatim>\<open>intptr_t\<close>, and looks for a sum that wrapped.
\<close>

abbreviation (input) IDIO_BIGNUM_fixnum_WORDS :: nat where "IDIO_BIGNUM_fixnum_WORDS \<equiv> 2"
abbreviation (input) IDIO_BIGNUM_fixnum_FIRST :: int where "IDIO_BIGNUM_fixnum_FIRST \<equiv> 2"

fun to_fixnum_loop :: "int \<Rightarrow> bool \<Rightarrow> bool \<Rightarrow> int list \<Rightarrow> (int \<times> bool) option" where
  "to_fixnum_loop iv ivnz neg [] = Some (iv, neg)"
| "to_fixnum_loop iv ivnz neg (sv # svs) =
    (let piv = wrap64 (iv * INT_SEG_LIMIT);
         iv' = wrap64 (piv + (if sv < 0 then - sv else sv))
     in if iv' < piv then None
        else if ivnz \<and> iv' = 0 then None
        else to_fixnum_loop iv' (ivnz \<or> iv' \<noteq> 0) (neg \<or> sv < 0) svs)"

definition bignum_to_fixnum :: "bignum \<Rightarrow> int option" where
  "bignum_to_fixnum bn =
    (if \<not> integer_p bn then None
     else let sig = bn_sig bn; al = length sig; a1 = mss sig in
       if 1 < al \<and> IDIO_BIGNUM_fixnum_WORDS < al then None
       else if 1 < al \<and> al = IDIO_BIGNUM_fixnum_WORDS \<and>
               (IDIO_BIGNUM_fixnum_FIRST < a1 \<or> a1 < - IDIO_BIGNUM_fixnum_FIRST) then None
       else case to_fixnum_loop 0 False False (rev sig) of
         None \<Rightarrow> None
       | Some (v, neg) \<Rightarrow>
           let iv = (if neg then wrap64 (- v) else v)
           in if iv \<le> FIXNUM_MAX \<and> FIXNUM_MIN \<le> iv then Some iv else None)"

text \<open>The shape of the array of an integer, by its size.\<close>

lemma sig_of_shape:
  obtains (one) "\<bar>i\<bar> < INT_SEG_LIMIT" "sig_of i = [i]"
  | (two) lo hi where "0 \<le> lo" "lo < INT_SEG_LIMIT" "0 < hi" "hi < INT_SEG_LIMIT"
      "\<bar>i\<bar> = lo + INT_SEG_LIMIT * hi" "sig_of i = [lo, if i < 0 then - hi else hi]"
  | (many) "INT_SEG_LIMIT * INT_SEG_LIMIT \<le> \<bar>i\<bar>" "2 < length (sig_of i)"
proof -
  let ?v = "\<bar>i\<bar>" and ?lo = "\<bar>i\<bar> mod INT_SEG_LIMIT" and ?hi = "\<bar>i\<bar> div INT_SEG_LIMIT"
  consider "?v < INT_SEG_LIMIT" | "\<not> ?v < INT_SEG_LIMIT" "?hi < INT_SEG_LIMIT" | "\<not> ?hi < INT_SEG_LIMIT"
    by blast
  then show thesis
  proof cases
    case 1
    then have "sig_of i = [i]" by (cases "i = 0") (auto simp: sig_of_def pos_segs_def segs0_single set_mss_def)
    then show thesis using one 1 by blast
  next
    case 2
    then have hi: "0 < ?hi" by (simp add: pos_imp_zdiv_pos_iff)
    then have s: "segs0 ?v = [?lo, ?hi]" using 2 by (intro segs0_two) simp_all
    have "sig_of i = [?lo, if i < 0 then - ?hi else ?hi]"
      using s 2 by (auto simp: sig_of_def pos_segs_def set_mss_def)
    then show thesis using two [of ?lo ?hi] hi 2(2) by simp
  next
    case 3
    obtain q where q: "\<bar>i\<bar> div INT_SEG_LIMIT = q" by blast
    then have ql: "INT_SEG_LIMIT \<le> q" using 3 by simp
    then have v: "0 < ?v" using q by (cases "i = 0") auto
    have "INT_SEG_LIMIT * INT_SEG_LIMIT \<le> ?v"
      using mult_div_mod_eq [of INT_SEG_LIMIT ?v] pos_mod_sign [of INT_SEG_LIMIT ?v] ql unfolding q by linarith
    moreover have "0 < q div INT_SEG_LIMIT" using ql by (simp add: pos_imp_zdiv_pos_iff)
    then have "segs0 (q div INT_SEG_LIMIT) \<noteq> []" by simp
    then have "2 < length (segs0 ?v)"
      using segs0_pos [OF v] segs0_pos [of q] ql unfolding q by (cases "segs0 (q div INT_SEG_LIMIT)") simp_all
    moreover have "length (sig_of i) = length (segs0 ?v)" using v by (simp add: pos_segs_def)
    ultimately show thesis using many by simp
  qed
qed

lemma bignum_to_fixnum_bn_of: "bignum_to_fixnum (bn_of i) = (if in_fixnum i then Some i else None)"
proof (cases i rule: sig_of_shape)
  case one
  then show ?thesis
    by (cases "i < 0") (auto simp: bignum_to_fixnum_def intptr_defs FIXNUM_bounds in_fixnum_def Let_def)
next
  case (two lo hi)
  show ?thesis
  proof (cases "hi \<le> 2")
    case True
    have w: "wrap64 (hi * INT_SEG_LIMIT) = hi * INT_SEG_LIMIT"
      "wrap64 (hi * INT_SEG_LIMIT + lo) = hi * INT_SEG_LIMIT + lo"
      "wrap64 (- (hi * INT_SEG_LIMIT + lo)) = - (hi * INT_SEG_LIMIT + lo)" "wrap64 hi = hi"
      using two True by (simp_all add: intptr_defs)
    have abs: "i = (if i < 0 then - (hi * INT_SEG_LIMIT + lo) else hi * INT_SEG_LIMIT + lo)"
      using two(5) by (auto simp: abs_if split: if_splits)
    show ?thesis
      using two True w abs
      by (auto simp: bignum_to_fixnum_def FIXNUM_bounds in_fixnum_def Let_def)
  next
    case False
    then show ?thesis
      using two by (auto simp: bignum_to_fixnum_def FIXNUM_bounds in_fixnum_def Let_def abs_if split: if_splits)
  qed
next
  case many
  then show ?thesis by (auto simp: bignum_to_fixnum_def FIXNUM_bounds in_fixnum_def Let_def)
qed

section \<open>To the C integer types\<close>

text \<open>
  \<^verbatim>\<open>IDIO_BIGNUM_C_TYPE_VALUE\<close> for the signed 64-bit types (\<^verbatim>\<open>long\<close>, \<^verbatim>\<open>int64_t\<close>,
  \<^verbatim>\<open>ptrdiff_t\<close>, \<^verbatim>\<open>intptr_t\<close>, \<^verbatim>\<open>intmax_t\<close>: two words, first segment at most 9)
  and \<^verbatim>\<open>IDIO_BIGNUM_C_TYPE_UVALUE\<close> for the unsigned ones (\<^verbatim>\<open>uint64_t\<close>,
  \<^verbatim>\<open>uintmax_t\<close>: at most 18), whose sums wrap at \<open>2 ^ 64\<close>. A bignum that is no
  exact integer is 0.
\<close>

definition wrapu64 :: "int \<Rightarrow> int" where
  "wrapu64 i = i mod 18446744073709551616"

fun c_value_loop :: "int \<Rightarrow> int list \<Rightarrow> int comp" where
  "c_value_loop v [] = ret v"
| "c_value_loop v (sg # sgs) =
    (let v' = wrap64 (v * INT_SEG_LIMIT)
     in if INTPTR_MAX - v' < sg then raise (Bignum_conversion_error ''significand overflow'')
        else c_value_loop (wrap64 (v' + sg)) sgs)"

definition bignum_C_value :: "bignum \<Rightarrow> int comp" where
  "bignum_C_value bn = bind_comp (integer_argument bn) (\<lambda>bn_i.
    case bn_i of None \<Rightarrow> ret 0
    | Some bn_i \<Rightarrow>
        let sig = bn_sig bn_i; ai = length sig; a1 = mss sig in
        if 1 < ai then
          case bignum_to_fixnum bn_i of Some v \<Rightarrow> ret v
          | None \<Rightarrow>
              if ai < 2 \<or> ai = 2 \<and> a1 \<le> 9 \<and> - 9 \<le> a1 then
                bind_comp (c_value_loop (if a1 < 0 then - a1 else a1) (tl (rev sig))) (\<lambda>v.
                let v' = (if a1 < 0 then wrap64 (- v) else v)
                in if a1 < 0 \<and> v' < 0 \<or> 0 \<le> a1 \<and> 0 \<le> v' then ret v'
                   else raise (Bignum_conversion_error ''too large''))
              else raise (Bignum_conversion_error ''too large'')
        else ret a1)"

fun c_uvalue_loop :: "int \<Rightarrow> int list \<Rightarrow> int" where
  "c_uvalue_loop v [] = v"
| "c_uvalue_loop v (sg # sgs) =
    c_uvalue_loop (wrapu64 (wrapu64 (v * INT_SEG_LIMIT) + wrapu64 sg)) sgs"

definition bignum_C_uvalue :: "bignum \<Rightarrow> int comp" where
  "bignum_C_uvalue bn = bind_comp (integer_argument bn) (\<lambda>bn_i.
    case bn_i of None \<Rightarrow> ret 0
    | Some bn_i \<Rightarrow>
        let sig = bn_sig bn_i; ai = length sig; a1 = mss sig in
        if 1 < ai then
          case bignum_to_fixnum bn_i of Some v \<Rightarrow> ret (wrapu64 v)
          | None \<Rightarrow>
              if ai < 2 \<or> ai = 2 \<and> a1 \<le> 18 \<and> 0 \<le> a1
              then ret (c_uvalue_loop (wrapu64 a1) (tl (rev sig)))
              else raise (Bignum_conversion_error ''too large'')
        else ret (wrapu64 a1))"

lemma integer_argument_bn_of [simp]: "integer_argument (bn_of i) = ret (Some (bn_of i))"
  by (simp add: integer_argument_def)

lemma bignum_C_value_bn_of:
  "bignum_C_value (bn_of i) =
    (if \<bar>i\<bar> \<le> INTPTR_MAX then ret i
     else raise (Bignum_conversion_error
       (if \<bar>i\<bar> < 10 * INT_SEG_LIMIT then ''significand overflow'' else ''too large'')))"
proof (cases i rule: sig_of_shape)
  case one
  then show ?thesis by (simp add: bignum_C_value_def intptr_defs)
next
  case (two lo hi)
  let ?m = "if i < 0 then - hi else hi"
  have cv: "bignum_C_value (bn_of i) = (if in_fixnum i then ret i
      else if hi \<le> 9 then
        bind_comp (c_value_loop hi [lo]) (\<lambda>v.
          let v' = (if i < 0 then wrap64 (- v) else v)
          in if i < 0 \<and> v' < 0 \<or> 0 \<le> i \<and> 0 \<le> v' then ret v'
             else raise (Bignum_conversion_error ''too large''))
      else raise (Bignum_conversion_error ''too large''))"
    using two by (simp add: bignum_C_value_def bignum_to_fixnum_bn_of Let_def)
  have abs: "i = (if i < 0 then - (hi * INT_SEG_LIMIT + lo) else hi * INT_SEG_LIMIT + lo)"
    using two(5) by (auto simp: abs_if split: if_splits)
  have fx: "in_fixnum i \<Longrightarrow> \<bar>i\<bar> \<le> INTPTR_MAX" by (auto simp: in_fixnum_iff intptr_defs)
  show ?thesis
  proof (cases "hi \<le> 9")
    case False
    then have "10 * INT_SEG_LIMIT \<le> \<bar>i\<bar>" using two by simp
    then show ?thesis using False cv by (auto simp: in_fixnum_iff intptr_defs)
  next
    case True
    then have w: "wrap64 (hi * INT_SEG_LIMIT) = hi * INT_SEG_LIMIT" using two by (simp add: intptr_defs)
    have lim: "\<bar>i\<bar> < 10 * INT_SEG_LIMIT" using two True by simp
    show ?thesis
    proof (cases "\<bar>i\<bar> \<le> INTPTR_MAX")
      case le: True
      then have w': "wrap64 (hi * INT_SEG_LIMIT + lo) = hi * INT_SEG_LIMIT + lo"
        "wrap64 (- (hi * INT_SEG_LIMIT + lo)) = - (hi * INT_SEG_LIMIT + lo)"
        using two by (simp_all add: intptr_defs)
      have "\<not> INTPTR_MAX - hi * INT_SEG_LIMIT < lo" using le two(5) by simp
      then have "c_value_loop hi [lo] = ret (hi * INT_SEG_LIMIT + lo)" by (simp add: w w' Let_def)
      then show ?thesis
        unfolding cv using True le fx abs w' two(1,3) by (cases "i < 0") (simp_all add: Let_def)
    next
      case False
      then have "INTPTR_MAX - hi * INT_SEG_LIMIT < lo" using two(5) by simp
      then have "c_value_loop hi [lo] = raise (Bignum_conversion_error ''significand overflow'')"
        by (simp add: w Let_def)
      then show ?thesis unfolding cv using True False fx lim by auto
    qed
  qed
next
  case many
  then show ?thesis
    by (auto simp: bignum_C_value_def bignum_to_fixnum_bn_of Let_def in_fixnum_iff intptr_defs)
qed

lemma wrapu64_add_mult: "wrapu64 (wrapu64 (wrapu64 a * b) + wrapu64 c) = wrapu64 (a * b + c)"
  unfolding wrapu64_def by (simp add: mod_simps)

lemma bignum_C_uvalue_bn_of:
  "bignum_C_uvalue (bn_of i) =
    (if \<bar>i\<bar> < INT_SEG_LIMIT \<or> in_fixnum i \<or> 0 \<le> i \<and> i < 19 * INT_SEG_LIMIT then ret (wrapu64 i)
     else raise (Bignum_conversion_error ''too large''))"
proof (cases i rule: sig_of_shape)
  case one
  then show ?thesis by (simp add: bignum_C_uvalue_def)
next
  case (two lo hi)
  have eq: "\<not> \<bar>i\<bar> < INT_SEG_LIMIT" "0 \<le> i \<Longrightarrow> i = hi * INT_SEG_LIMIT + lo"
    using two by simp_all
  moreover have "0 \<le> i \<Longrightarrow> i < 19 * INT_SEG_LIMIT \<longleftrightarrow> hi \<le> 18"
    using eq(2) two(1-4) by (cases "hi \<le> 18") simp_all
  ultimately show ?thesis
    using two wrapu64_add_mult [of hi INT_SEG_LIMIT lo]
    by (simp add: bignum_C_uvalue_def bignum_to_fixnum_bn_of Let_def)
next
  case many
  then show ?thesis
    by (auto simp: bignum_C_uvalue_def bignum_to_fixnum_bn_of Let_def in_fixnum_iff)
qed

end
