(* ===== verification/Bignum_Prims.thy ===== *)
theory Bignum_Prims
  imports Bignum_Conv
begin

text \<open>
  The n-ary primitives on bignums, \<^verbatim>\<open>idio_bignum_primitive_*\<close> in
  \<^verbatim>\<open>src/src/bignum.c\<close>. Their callers have converted the fixnums; an argument
  that is still no bignum is \<open>None\<close>, and an error when its turn comes. The folds
  and the chains of comparisons are verified once, in two locales whose laws the
  integer bignums and the exact reals satisfy.
\<close>

section \<open>Folds and chains\<close>

definition need_bignum :: "'a option \<Rightarrow> 'a comp" where
  "need_bignum h = (case h of None \<Rightarrow> raise (Param_type_error ''bignum'') | Some h \<Rightarrow> ret h)"

lemma need_bignum_simps [simp]:
  "need_bignum (Some h) = ret h" "need_bignum None = raise (Param_type_error ''bignum'')"
  by (simp_all add: need_bignum_def)

fun fold_args :: "('a \<Rightarrow> 'b \<Rightarrow> 'a comp) \<Rightarrow> 'a \<Rightarrow> 'b option list \<Rightarrow> 'a comp" where
  "fold_args f r [] = ret r"
| "fold_args f r (h # hs) =
    bind_comp (need_bignum h) (\<lambda>h. bind_comp (f r h) (\<lambda>r'. fold_args f r' hs))"

fun cmp_chain :: "('a \<Rightarrow> 'a \<Rightarrow> bool comp) \<Rightarrow> 'a \<Rightarrow> 'a option list \<Rightarrow> bool comp" where
  "cmp_chain test r [] = ret True"
| "cmp_chain test r (h # hs) =
    bind_comp (need_bignum h) (\<lambda>h.
    bind_comp (test r h) (\<lambda>b. if b then cmp_chain test h hs else ret False))"

text \<open>An operation that implements one on the integers, through their representation.\<close>

locale int_operation =
  fixes num :: "int \<Rightarrow> 'a"
    and oper :: "'a \<Rightarrow> 'a \<Rightarrow> 'a comp"
    and f :: "int \<Rightarrow> int \<Rightarrow> int"
  assumes oper_num: "oper (num i) (num j) = ret (num (f i j))"
begin

lemma fold_num: "fold_args oper (num i) (map (Some \<circ> num) is) = ret (num (foldl f i is))"
  by (induction "is" arbitrary: i) (simp_all add: oper_num)

end

text \<open>Representations \<open>ok\<close> whose order and equality are those of their values.\<close>

locale value_order =
  fixes ok :: "'a \<Rightarrow> bool"
    and val :: "'a \<Rightarrow> 'v::linorder"
    and less :: "'a \<Rightarrow> 'a \<Rightarrow> bool comp"
    and equal :: "'a \<Rightarrow> 'a \<Rightarrow> bool comp"
  assumes less_val: "ok a \<Longrightarrow> ok b \<Longrightarrow> less a b = ret (val a < val b)"
    and equal_val: "ok a \<Longrightarrow> ok b \<Longrightarrow> equal a b = ret (val a = val b)"
begin

lemma chain_val:
  assumes "\<And>a b. ok a \<Longrightarrow> ok b \<Longrightarrow> test a b = ret (P (val a) (val b))"
  shows "ok a \<Longrightarrow> \<forall>b \<in> set bs. ok b \<Longrightarrow> cmp_chain test a (map Some bs) = ret (successively P (val a # map val bs))"
  by (induction bs arbitrary: a) (simp_all add: assms)

lemma chains:
  assumes "ok a" "\<forall>b \<in> set bs. ok b"
  shows "cmp_chain less a (map Some bs) = ret (successively (<) (val a # map val bs))"
    and "cmp_chain (\<lambda>r h. bind_comp (less h r) (\<lambda>b. ret (\<not> b))) a (map Some bs) = ret (successively (\<le>) (val a # map val bs))"
    and "cmp_chain equal a (map Some bs) = ret (successively (=) (val a # map val bs))"
    and "cmp_chain (\<lambda>r h. bind_comp (equal r h) (\<lambda>b. ret (\<not> b))) a (map Some bs) = ret (successively (\<noteq>) (val a # map val bs))"
    and "cmp_chain (\<lambda>r h. bind_comp (less r h) (\<lambda>b. ret (\<not> b))) a (map Some bs) = ret (successively (\<ge>) (val a # map val bs))"
    and "cmp_chain (\<lambda>r h. less h r) a (map Some bs) = ret (successively (>) (val a # map val bs))"
  using assms by (intro chain_val; simp add: less_val equal_val not_less)+

end

section \<open>The primitives\<close>

definition bignum_primitive_add :: "bignum option list \<Rightarrow> bignum comp" where
  "bignum_primitive_add args = fold_args real_add (bignum_integer_intmax_t 0) args"

text \<open>\<^verbatim>\<open>(- 6)\<close> is \<open>- 6\<close>; without arguments the C code returns \<^verbatim>\<open>#<unspec>\<close>, \<open>None\<close> here.\<close>

definition bignum_primitive_subtract :: "bignum option list \<Rightarrow> bignum comp" where
  "bignum_primitive_subtract args =
    (case args of [] \<Rightarrow> None
     | h # hs \<Rightarrow> bind_comp (need_bignum h) (\<lambda>h.
         if hs = [] then ret (if integer_p h then bignum_negate h else real_negate h)
         else fold_args real_subtract h hs))"

definition bignum_primitive_multiply :: "bignum option list \<Rightarrow> bignum comp" where
  "bignum_primitive_multiply args = fold_args real_multiply (bignum_integer_intmax_t 1) args"

text \<open>
  \<^verbatim>\<open>(/ 6)\<close> is \<open>1 / 6\<close>. A zero divisor is an error before \<open>real_divide\<close> could return
  its \<^verbatim>\<open>NaN\<close>.
\<close>

definition divide_step :: "bignum \<Rightarrow> bignum \<Rightarrow> bignum comp" where
  "divide_step r h =
    (if bignum_zero_p h then raise Divide_by_zero_error
     else bind_comp (real_divide r h) (\<lambda>q. case q of None \<Rightarrow> None | Some q \<Rightarrow> ret q))"

definition bignum_primitive_divide :: "bignum option list \<Rightarrow> bignum comp" where
  "bignum_primitive_divide args =
    (case args of [] \<Rightarrow> ret (bignum_integer_intmax_t 1)
     | h # hs \<Rightarrow> bind_comp (need_bignum h) (\<lambda>h.
         if hs = [] then divide_step (bignum_integer_intmax_t 1) h
         else fold_args divide_step h hs))"

function floor_loop :: "int \<Rightarrow> bignum \<Rightarrow> int \<times> bignum" where
  "floor_loop e bn_i = (if e < 0 then floor_loop (e + 1) (fst (bignum_shift_right bn_i)) else (e, bn_i))"
  by pat_completeness auto
termination
  by (relation "measure (\<lambda>(e, b). nat (- e))") auto

declare floor_loop.simps [simp del]

definition bignum_primitive_floor :: "bignum \<Rightarrow> bignum comp" where
  "bignum_primitive_floor bn =
    (if 0 \<le> bn_exp bn then ret bn
     else if IDIO_BIGNUM_SIG_MAX_DIGITS + bn_exp bn < 0
     then ret (bignum_real FLAG_NONE 0 (bn_sig (bignum_integer_intmax_t 0)))
     else let (e, bn_i) = floor_loop (bn_exp bn) (bignum_integer (bn_sig bn)) in
       bind_comp (if real_negative_p bn then bignum_add bn_i (bignum_integer_intmax_t 1) else ret bn_i)
         (\<lambda>bn_i. bignum_normalize (bignum_real (bn_flags bn) e (bn_sig bn_i))))"

definition bignum_primitive_quotient :: "bignum \<Rightarrow> bignum \<Rightarrow> bignum comp" where
  "bignum_primitive_quotient a b =
    bind_comp (integer_argument a) (\<lambda>ia. case ia of
      None \<Rightarrow> raise (Param_value_error ''quotient'' ''a'')
    | Some ia \<Rightarrow> bind_comp (integer_argument b) (\<lambda>ib. case ib of
        None \<Rightarrow> raise (Param_value_error ''quotient'' ''b'')
      | Some ib \<Rightarrow> bind_comp (bignum_divide ia ib) (\<lambda>ibd. ret (fst ibd))))"

definition bignum_primitive_remainder :: "bignum \<Rightarrow> bignum \<Rightarrow> bignum comp" where
  "bignum_primitive_remainder a b =
    bind_comp (integer_argument a) (\<lambda>ia. case ia of
      None \<Rightarrow> raise (Param_value_error ''remainder'' ''a'')
    | Some ia \<Rightarrow> bind_comp (integer_argument b) (\<lambda>ib. case ib of
        None \<Rightarrow> raise (Param_value_error ''remainder'' ''b'')
      | Some ib \<Rightarrow> bind_comp (bignum_divide ia ib) (\<lambda>ibd. ret (snd ibd))))"

text \<open>
  The C code does not check the first operand of a comparison: the generic
  primitives have done that. Here it is checked like the others.
\<close>

definition bignum_cmp :: "(bignum \<Rightarrow> bignum \<Rightarrow> bool comp) \<Rightarrow> bignum option list \<Rightarrow> bool comp" where
  "bignum_cmp test args = (case args of [] \<Rightarrow> ret True
     | r # hs \<Rightarrow> bind_comp (need_bignum r) (\<lambda>r. cmp_chain test r hs))"

definition bignum_primitive_lt :: "bignum option list \<Rightarrow> bool comp" where
  "bignum_primitive_lt args = bignum_cmp real_lt_p args"

definition bignum_primitive_le :: "bignum option list \<Rightarrow> bool comp" where
  "bignum_primitive_le args = bignum_cmp (\<lambda>r h. bind_comp (real_lt_p h r) (\<lambda>b. ret (\<not> b))) args"

definition bignum_primitive_eq :: "bignum option list \<Rightarrow> bool comp" where
  "bignum_primitive_eq args = bignum_cmp real_equal_p args"

definition bignum_primitive_ne :: "bignum option list \<Rightarrow> bool comp" where
  "bignum_primitive_ne args = bignum_cmp (\<lambda>r h. bind_comp (real_equal_p r h) (\<lambda>b. ret (\<not> b))) args"

definition bignum_primitive_ge :: "bignum option list \<Rightarrow> bool comp" where
  "bignum_primitive_ge args = bignum_cmp (\<lambda>r h. bind_comp (real_lt_p r h) (\<lambda>b. ret (\<not> b))) args"

definition bignum_primitive_gt :: "bignum option list \<Rightarrow> bool comp" where
  "bignum_primitive_gt args = bignum_cmp (\<lambda>r h. real_lt_p h r) args"

section \<open>On integers\<close>

interpretation bn_add: int_operation bn_of real_add "(+)"
  by unfold_locales (simp add: real_add_def)

interpretation bn_subtract: int_operation bn_of real_subtract "(-)"
  by unfold_locales (simp add: real_subtract_def real_add_def)

interpretation bn_multiply: int_operation bn_of real_multiply "(*)"
  by unfold_locales (simp add: real_multiply_def)

definition int_bignum :: "bignum \<Rightarrow> bool" where
  "int_bignum a \<longleftrightarrow> a = bn_of (sig_val (bn_sig a))"

lemma int_bignum_bn_of [simp]: "int_bignum (bn_of i)"
  by (simp add: int_bignum_def)

interpretation bn_order: value_order int_bignum "\<lambda>a. sig_val (bn_sig a)" real_lt_p real_equal_p
proof unfold_locales
  fix a b assume "int_bignum a" "int_bignum b"
  then obtain i j where "a = bn_of i" "b = bn_of j" by (metis int_bignum_def)
  then show "real_lt_p a b = ret (sig_val (bn_sig a) < sig_val (bn_sig b))"
    and "real_equal_p a b = ret (sig_val (bn_sig a) = sig_val (bn_sig b))"
    by (simp_all add: real_lt_p_def real_equal_p_def)
qed

definition exact_real :: "bignum \<Rightarrow> bool" where
  "exact_real a \<longleftrightarrow> real_normal a \<and> \<not> real_inexact_p a"

interpretation real_order: value_order exact_real bn_val real_lt_p real_equal_p
  by unfold_locales (simp_all add: exact_real_def real_lt_p_normal real_equal_p_normal)

lemma intmax_0_1 [simp]: "bignum_integer_intmax_t 0 = bn_of 0" "bignum_integer_intmax_t 1 = bn_of 1"
  by (simp_all add: bignum_integer_intmax_t_eq intptr_defs)

lemma foldl_plus: "foldl (+) i is = i + sum_list is" for i :: int
  by (induction "is" arbitrary: i) simp_all

lemma foldl_minus: "foldl (-) i is = i - sum_list is" for i :: int
  by (induction "is" arbitrary: i) simp_all

lemma foldl_times: "foldl (*) i is = i * prod_list is" for i :: int
  by (induction "is" arbitrary: i) (simp_all add: mult.assoc)

lemma bignum_primitive_ints:
  "bignum_primitive_add (map (Some \<circ> bn_of) is) = ret (bn_of (sum_list is))"
  "bignum_primitive_subtract [Some (bn_of i)] = ret (bn_of (- i))"
  "is \<noteq> [] \<Longrightarrow> bignum_primitive_subtract (Some (bn_of i) # map (Some \<circ> bn_of) is) = ret (bn_of (i - sum_list is))"
  "bignum_primitive_multiply (map (Some \<circ> bn_of) is) = ret (bn_of (prod_list is))"
  using bn_add.fold_num [of 0 "is"] bn_subtract.fold_num [of i "is"] bn_multiply.fold_num [of 1 "is"]
  by (simp_all add: bignum_primitive_add_def bignum_primitive_subtract_def bignum_primitive_multiply_def
      foldl_plus foldl_minus foldl_times)

lemmas bignum_primitive_cmp_defs = bignum_primitive_lt_def bignum_primitive_le_def bignum_primitive_eq_def
  bignum_primitive_ne_def bignum_primitive_ge_def bignum_primitive_gt_def bignum_cmp_def

lemma bignum_primitive_cmp_ints:
  "bignum_primitive_lt (map (Some \<circ> bn_of) is) = ret (successively (<) is)"
  "bignum_primitive_le (map (Some \<circ> bn_of) is) = ret (successively (\<le>) is)"
  "bignum_primitive_eq (map (Some \<circ> bn_of) is) = ret (successively (=) is)"
  "bignum_primitive_ne (map (Some \<circ> bn_of) is) = ret (successively (\<noteq>) is)"
  "bignum_primitive_ge (map (Some \<circ> bn_of) is) = ret (successively (\<ge>) is)"
  "bignum_primitive_gt (map (Some \<circ> bn_of) is) = ret (successively (>) is)"
  using bn_order.chains [of "bn_of (hd is)" "map bn_of (tl is)"]
  by (cases "is"; simp add: bignum_primitive_cmp_defs comp_def)+

text \<open>And on the exact reals.\<close>

lemma bignum_primitive_cmp_reals:
  assumes "\<forall>a \<in> set as. exact_real a"
  shows "bignum_primitive_lt (map Some as) = ret (successively (<) (map bn_val as))"
    and "bignum_primitive_le (map Some as) = ret (successively (\<le>) (map bn_val as))"
    and "bignum_primitive_eq (map Some as) = ret (successively (=) (map bn_val as))"
    and "bignum_primitive_ne (map Some as) = ret (successively (\<noteq>) (map bn_val as))"
    and "bignum_primitive_ge (map Some as) = ret (successively (\<ge>) (map bn_val as))"
    and "bignum_primitive_gt (map Some as) = ret (successively (>) (map bn_val as))"
  using assms real_order.chains [of "hd as" "tl as"]
  by (cases as; simp add: bignum_primitive_cmp_defs)+

lemma bignum_primitive_quotient_ints:
  "bignum_primitive_quotient (bn_of i) (bn_of j) =
    (if j = 0 then raise Divide_by_zero_error else ret (bn_of (i sdiv j)))"
  "bignum_primitive_remainder (bn_of i) (bn_of j) =
    (if j = 0 then raise Divide_by_zero_error else ret (bn_of (i smod j)))"
  by (simp_all add: bignum_primitive_quotient_def bignum_primitive_remainder_def)

section \<open>Floor\<close>

lemma floor_loop_eq:
  "bn_sig bn = sig_of v \<Longrightarrow> 0 \<le> v \<Longrightarrow> e = - int n \<Longrightarrow>
   floor_loop e bn = (0, if n = 0 then bn else bn_of (v div 10 ^ n))"
proof (induction n arbitrary: e bn v)
  case 0
  then show ?case by (simp add: floor_loop.simps)
next
  case (Suc n)
  have v: "0 \<le> v div 10" using Suc.prems by (simp add: pos_imp_zdiv_nonneg_iff)
  have "floor_loop (e + 1) (bn_of (v div 10)) =
      (0, if n = 0 then bn_of (v div 10) else bn_of (v div 10 div 10 ^ n))"
    using Suc.prems v by (intro Suc.IH) simp_all
  moreover have "floor_loop e bn = floor_loop (e + 1) (bn_of (v div 10))"
    using Suc.prems by (subst floor_loop.simps) (simp add: bignum_shift_right_sig)
  ultimately show ?case by (simp add: zdiv_zmult2_eq)
qed

text \<open>The whole part of a normalised real with a negative exponent.\<close>

lemma floor_normal:
  assumes "real_normal r" "bn_exp r < 0"
  shows "\<lfloor>bn_val r\<rfloor> = (if real_negative_p r then - (mant r div 10 ^ nat (- bn_exp r) + 1)
    else mant r div 10 ^ nat (- bn_exp r))"
proof -
  note R = real_normalD [OF assms(1)]
  let ?t = "(10::int) ^ nat (- bn_exp r)"
  have "mant r \<noteq> 0" using R(4) assms(2) by auto
  then have nz: "mant r mod 10 \<noteq> 0" by (rule R(5))
  have "(10::rat) powi bn_exp r = inverse (of_int ?t)"
    using assms(2) by (simp add: power_int_def power_one_over inverse_eq_divide)
  then have val: "bn_val r = of_int (sval r) / of_int ?t"
    by (simp only: bn_val_sval [OF assms(1)] divide_inverse)
  have "\<not> ?t dvd mant r"
  proof
    assume "?t dvd mant r"
    moreover have "10 dvd ?t" using assms(2) by (intro dvd_power) simp
    ultimately have "10 dvd mant r" by (rule dvd_trans [rotated])
    then show False using nz by simp
  qed
  then have "mant r mod ?t \<noteq> 0" by (simp add: dvd_eq_mod_eq_0)
  then have neg: "(- mant r) div ?t = - (mant r div ?t + 1)"
    by (simp add: zdiv_zminus1_eq_if)
  have "\<lfloor>bn_val r\<rfloor> = sval r div ?t" unfolding val by (rule floor_divide_of_int_eq)
  then show ?thesis by (cases "real_negative_p r") (simp_all only: sval_def if_True if_False neg simp_thms)
qed

lemma bignum_primitive_floor_normal:
  assumes "real_normal r" "bn_exp r < 0" "- 18 \<le> bn_exp r"
  shows "\<exists>r'. bignum_primitive_floor r = ret r' \<and> real_normal r' \<and> bn_val r' = of_int \<lfloor>bn_val r\<rfloor>"
proof -
  note R = real_normalD [OF assms(1)]
  let ?n = "nat (- bn_exp r)" and ?neg = "real_negative_p r"
  let ?q = "mant r div 10 ^ ?n"
  let ?v = "if ?neg then ?q + 1 else ?q"
  have fl: "floor_loop (bn_exp r) (bignum_integer (bn_sig r)) = (0, bn_of ?q)"
    using floor_loop_eq [of "bn_of (mant r)" "mant r" "bn_exp r" ?n] R(1,2) assms(2) by simp
  have q0: "0 \<le> ?q" using R(2) by (simp add: pos_imp_zdiv_nonneg_iff)
  have "mant r < 10 ^ 18 div 10 * (10::int)" using R(3) by simp
  also have "\<dots> \<le> 10 ^ 18 div 10 * 10 ^ ?n"
    using assms(2) power_increasing [of 1 ?n "10::int"] by (intro mult_left_mono) simp_all
  finally have q17: "?q < 10 ^ 18 div 10" by (intro int_div_less) simp_all
  let ?bn = "bignum_real (bn_flags r) 0 (sig_of ?v)"
  have "digits_of ?v \<le> 18" using q0 q17 digits_of_le_18 [of ?v] by simp
  moreover have "0 \<le> ?v" using q0 by simp
  ultimately obtain r' where r': "bignum_normalize ?bn = ret r'" "real_normal r'" "bn_val r' = bn_val ?bn"
    using normalize_close [of ?bn ?v "of_int ?v"] by (auto simp del: bn_val_real)
  have "bignum_primitive_floor r = bignum_normalize ?bn"
    using assms(2,3) by (simp add: bignum_primitive_floor_def fl)
  moreover have "bn_val ?bn = of_int \<lfloor>bn_val r\<rfloor>"
    unfolding floor_normal [OF assms(1,2)] using R q0 by (auto simp: real_negative_p_def)
  ultimately show ?thesis using r' by auto
qed

lemma floor_tiny:
  assumes "real_normal r" "bn_exp r < - 18"
  shows "\<lfloor>bn_val r\<rfloor> = (if bn_val r < 0 then - 1 else 0)"
proof -
  note R = real_normalD [OF assms(1)]
  have "(10::int) ^ 18 \<le> 10 ^ nat (- bn_exp r)" using assms(2) by (intro power_increasing) simp_all
  then have "mant r div 10 ^ nat (- bn_exp r) = 0" using R(2,3) by (intro div_pos_pos_trivial) simp_all
  then have f: "\<lfloor>bn_val r\<rfloor> = (if real_negative_p r then - 1 else 0)"
    using floor_normal [OF assms(1)] assms(2) by simp
  moreover have "bn_val r < 0 \<longleftrightarrow> \<lfloor>bn_val r\<rfloor> < 0" by simp
  ultimately show ?thesis by simp
qed

text \<open>
  A real with an exponent that is not negative is an integer; for one below -18 the result is
  0, which is one too high if the real is negative.
\<close>

lemma bignum_primitive_floor_all:
  assumes "real_normal r"
  shows "\<exists>r'. bignum_primitive_floor r = ret r' \<and> real_normal r' \<and>
    bn_val r' = of_int (if bn_exp r < - 18 \<and> bn_val r < 0 then \<lfloor>bn_val r\<rfloor> + 1 else \<lfloor>bn_val r\<rfloor>)"
proof -
  consider "0 \<le> bn_exp r" | "bn_exp r < 0" "- 18 \<le> bn_exp r" | "bn_exp r < - 18" by linarith
  then show ?thesis
  proof cases
    case 1
    then have "bn_val r = of_int (sval r * 10 ^ nat (bn_exp r))"
      using bn_val_sval [OF assms] by (simp add: power_int_def)
    then have "bn_val r = of_int \<lfloor>bn_val r\<rfloor>" by (simp only: floor_of_int)
    then show ?thesis using 1 assms by (simp add: bignum_primitive_floor_def)
  next
    case 2
    then show ?thesis using bignum_primitive_floor_normal [OF assms] by simp
  next
    case 3
    let ?z = "bignum_real FLAG_NONE 0 (bn_sig (bignum_integer_intmax_t 0))"
    have "bignum_primitive_floor r = ret ?z" using 3 by (simp add: bignum_primitive_floor_def)
    moreover have "real_normal ?z" using real_normalI [of 0 0 FLAG_NONE] by simp
    moreover have "bn_val ?z = 0" by simp
    ultimately show ?thesis using 3 floor_tiny [OF assms 3] by auto
  qed
qed

end
