(* ===== verification/Fixnum.thy ===== *)
theory Fixnum
  imports Bignum_Prims
begin

text \<open>
  Fixnums and the generic arithmetic primitives (\<^verbatim>\<open>src/src/fixnum.c\<close>): the
  fixnum operations with their overflow checks, and the dispatch of \<^verbatim>\<open>+ - * /\<close>, the
  comparisons, \<^verbatim>\<open>abs\<close>, \<^verbatim>\<open>floor\<close>, \<^verbatim>\<open>quotient\<close> and \<^verbatim>\<open>remainder\<close> between fixnums
  and bignums. The macros \<^verbatim>\<open>IDIO_DEFINE_ARITHMETIC_*\<close> are functions of the
  bignum and the fixnum primitive they are instantiated with.
\<close>

section \<open>Numbers\<close>

text \<open>
  A value as these primitives tell it apart; a fixnum is given by its value. The
  operations on C numbers (\<^verbatim>\<open>src/src/c-type.c\<close>) are an argument of the binary
  primitives.
\<close>

datatype 'c idio_num =
    Fixnum int
  | Bignum bignum
  | C_number 'c
  | Not_a_number

definition idio_integer :: "int \<Rightarrow> 'c idio_num" where
  "idio_integer i =
    (if i \<le> FIXNUM_MAX \<and> FIXNUM_MIN \<le> i then Fixnum i else Bignum (bignum_integer_intmax_t i))"

definition idio_uinteger :: "int \<Rightarrow> 'c idio_num" where
  "idio_uinteger ui = (if ui \<le> FIXNUM_MAX then Fixnum ui else Bignum (bignum_integer_uintmax_t ui))"

definition idio_fixnum :: "int \<Rightarrow> 'c idio_num comp" where
  "idio_fixnum i =
    (if i \<le> FIXNUM_MAX \<and> FIXNUM_MIN \<le> i then ret (Fixnum i) else raise (Fixnum_conversion_error i))"

definition idio_isa_integer :: "'c idio_num \<Rightarrow> bool comp" where
  "idio_isa_integer n =
    (case n of Fixnum i \<Rightarrow> ret True | Bignum b \<Rightarrow> isa_integer_bignum b | _ \<Rightarrow> ret False)"

section \<open>Operations on fixnums\<close>

definition fixnum_primitive_abs :: "int \<Rightarrow> 'c idio_num comp" where
  "fixnum_primitive_abs a = (if a < 0 then idio_fixnum (wrap64 (- a)) else ret (Fixnum a))"

text \<open>
  When a sum leaves the fixnum range it and the arguments left go to the bignum
  primitive, whose result is not brought back.
\<close>

definition bn_rest :: "int list \<Rightarrow> bignum option list" where
  "bn_rest args = map (Some \<circ> bignum_integer_intmax_t) args"

definition bignum_num :: "bignum comp \<Rightarrow> 'c idio_num comp" where
  "bignum_num m = bind_comp m (\<lambda>b. ret (Bignum b))"

fun fixnum_add_loop :: "int \<Rightarrow> int list \<Rightarrow> 'c idio_num comp" where
  "fixnum_add_loop ir [] = idio_fixnum ir"
| "fixnum_add_loop ir (ih # args) =
    (let ir' = wrap64 (ir + ih)
     in if FIXNUM_MAX < ir' \<or> ir' < FIXNUM_MIN
        then bignum_num (bignum_primitive_add (Some (bignum_integer_intmax_t ir') # bn_rest args))
        else fixnum_add_loop ir' args)"

definition fixnum_primitive_add :: "int list \<Rightarrow> 'c idio_num comp" where
  "fixnum_primitive_add args = fixnum_add_loop 0 args"

fun fixnum_subtract_loop :: "int \<Rightarrow> int list \<Rightarrow> 'c idio_num comp" where
  "fixnum_subtract_loop ir [] =
    (if FIXNUM_MAX < ir \<or> ir < FIXNUM_MIN then ret (Bignum (bignum_integer_intmax_t ir))
     else idio_fixnum ir)"
| "fixnum_subtract_loop ir (ih # args) =
    (let ir' = wrap64 (ir - ih)
     in if FIXNUM_MAX < ir' \<or> ir' < FIXNUM_MIN
        then if args = [] then ret (Bignum (bignum_integer_intmax_t ir'))
             else bignum_num (bignum_primitive_subtract (Some (bignum_integer_intmax_t ir') # bn_rest args))
        else fixnum_subtract_loop ir' args)"

definition fixnum_primitive_subtract :: "int list \<Rightarrow> 'c idio_num comp" where
  "fixnum_primitive_subtract args =
    (case args of [] \<Rightarrow> fixnum_subtract_loop 0 []
     | [ih] \<Rightarrow> fixnum_subtract_loop (wrap64 (- ih)) []
     | ih # args \<Rightarrow> fixnum_subtract_loop ih args)"

text \<open>\<^verbatim>\<open>while (itmp >>= 1) bits++\<close>, and the test for bits above the low half word.\<close>

fun msb :: "nat \<Rightarrow> nat" where
  "msb n = (if n div 2 = 0 then 0 else Suc (msb (n div 2)))"

declare msb.simps [simp del]

definition high_half :: "int \<Rightarrow> bool" where
  "high_half i \<longleftrightarrow> i mod 18446744073709551616 div 4294967296 \<noteq> 0"

fun fixnum_multiply_loop :: "int \<Rightarrow> int list \<Rightarrow> 'c idio_num comp" where
  "fixnum_multiply_loop ir [] = idio_fixnum ir"
| "fixnum_multiply_loop ir (ih # args) =
    (let neg = ((ir < 0) \<noteq> (ih < 0));
         bits = msb (nat \<bar>ir\<bar>) + msb (nat \<bar>ih\<bar>);
         im = wrap64 (ir * ih)
     in if (high_half ir \<or> high_half ih) \<and> 62 \<le> bits
        then bignum_num (bignum_primitive_multiply
               (Some (bignum_integer_intmax_t ih) # Some (bignum_integer_intmax_t ir) # bn_rest args))
        else if FIXNUM_MAX < im \<or> im < FIXNUM_MIN \<or> (neg \<and> 0 < im) \<or> (\<not> neg \<and> im < 0)
        then bignum_num (bignum_primitive_multiply
               (Some (bignum_integer_intmax_t ir) # bn_rest (ih # args)))
        else fixnum_multiply_loop im args)"

definition fixnum_primitive_multiply :: "int list \<Rightarrow> 'c idio_num comp" where
  "fixnum_primitive_multiply args =
    (case args of [] \<Rightarrow> fixnum_multiply_loop 1 []
     | ih # args \<Rightarrow> fixnum_multiply_loop ih args)"

definition fixnum_primitive_remainder :: "int \<Rightarrow> int \<Rightarrow> 'c idio_num comp" where
  "fixnum_primitive_remainder a ib =
    (if ib = 0 then raise Divide_by_zero_error else idio_fixnum (a smod ib))"

definition fixnum_primitive_quotient :: "int \<Rightarrow> int \<Rightarrow> 'c idio_num comp" where
  "fixnum_primitive_quotient a ib =
    (if ib = 0 then raise Divide_by_zero_error else idio_fixnum (a sdiv ib))"

text \<open>\<^verbatim>\<open>IDIO_DEFINE_FIXNUM_CMP_PRIMITIVE_\<close>, for each of the six operators.\<close>

fun fixnum_cmp_loop :: "(int \<Rightarrow> int \<Rightarrow> bool) \<Rightarrow> int \<Rightarrow> int list \<Rightarrow> bool" where
  "fixnum_cmp_loop cmp c [] = True"
| "fixnum_cmp_loop cmp c (h # args) = (if \<not> cmp c h then False else fixnum_cmp_loop cmp h args)"

definition fixnum_primitive_cmp :: "(int \<Rightarrow> int \<Rightarrow> bool) \<Rightarrow> int list \<Rightarrow> bool" where
  "fixnum_primitive_cmp cmp args = (case args of [] \<Rightarrow> True | c # args \<Rightarrow> fixnum_cmp_loop cmp c args)"

section \<open>The generic primitives\<close>

definition bn_arg :: "'c idio_num \<Rightarrow> bignum option" where
  "bn_arg n = (case n of Fixnum i \<Rightarrow> Some (bignum_integer_intmax_t i) | Bignum b \<Rightarrow> Some b | _ \<Rightarrow> None)"

definition fixnum_val :: "'c idio_num \<Rightarrow> int" where
  "fixnum_val n = (case n of Fixnum i \<Rightarrow> i | _ \<Rightarrow> 0)"

text \<open>\<^verbatim>\<open>idio_bignum_to_fixnum\<close> on a result.\<close>

definition to_fixnum :: "bignum \<Rightarrow> 'c idio_num" where
  "to_fixnum b = (case bignum_to_fixnum b of Some i \<Rightarrow> Fixnum i | None \<Rightarrow> Bignum b)"

definition back_to_fixnum :: "bignum comp \<Rightarrow> 'c idio_num comp" where
  "back_to_fixnum m = bind_comp m (\<lambda>b. ret (to_fixnum b))"

text \<open>
  The scan of the arguments: it stops at the first bignum, and an argument before
  it that is no fixnum is an error.
\<close>

fun arith_scan :: "'c idio_num list \<Rightarrow> bool comp" where
  "arith_scan [] = ret False"
| "arith_scan (Bignum b # args) = ret True"
| "arith_scan (Fixnum i # args) = arith_scan args"
| "arith_scan (h # args) = raise (Param_type_error ''number'')"

text \<open>
  \<^verbatim>\<open>IDIO_DEFINE_ARITHMETIC_PRIMITIVE0V\<close>, and \<^verbatim>\<open>..._PRIMITIVE1V\<close> on
  \<open>n1 # args\<close>: its check of \<open>n1\<close> is that of the scan.
\<close>

definition arithmetic_primitive ::
  "(bignum option list \<Rightarrow> bignum comp) \<Rightarrow> (int list \<Rightarrow> 'c idio_num comp) \<Rightarrow> 'c idio_num list \<Rightarrow> 'c idio_num comp" where
  "arithmetic_primitive bn fx args =
    bind_comp (arith_scan args) (\<lambda>ibn.
      if ibn then back_to_fixnum (bn (map bn_arg args)) else fx (map fixnum_val args))"

definition idio_add :: "'c idio_num list \<Rightarrow> 'c idio_num comp" where
  "idio_add args = arithmetic_primitive bignum_primitive_add fixnum_primitive_add args"

definition idio_subtract :: "'c idio_num \<Rightarrow> 'c idio_num list \<Rightarrow> 'c idio_num comp" where
  "idio_subtract n1 args =
    arithmetic_primitive bignum_primitive_subtract fixnum_primitive_subtract (n1 # args)"

definition idio_multiply :: "'c idio_num list \<Rightarrow> 'c idio_num comp" where
  "idio_multiply args = arithmetic_primitive bignum_primitive_multiply fixnum_primitive_multiply args"

text \<open>\<^verbatim>\<open>IDIO_DEFINE_ARITHMETIC_BIGNUM_PRIMITIVE1V\<close>: everything is a bignum first.\<close>

definition idio_divide :: "'c idio_num \<Rightarrow> 'c idio_num list \<Rightarrow> 'c idio_num comp" where
  "idio_divide n1 args =
    (if \<exists>n \<in> set (n1 # args). bn_arg n = None then raise (Param_type_error ''number'')
     else back_to_fixnum (bignum_primitive_divide (map bn_arg (n1 # args))))"

text \<open>\<^verbatim>\<open>IDIO_DEFINE_ARITHMETIC_CMP_PRIMITIVE1V\<close>.\<close>

definition arithmetic_cmp_primitive ::
  "(bignum option list \<Rightarrow> bool comp) \<Rightarrow> (int \<Rightarrow> int \<Rightarrow> bool) \<Rightarrow> 'c idio_num list \<Rightarrow> bool comp" where
  "arithmetic_cmp_primitive bn cmp args =
    bind_comp (arith_scan args) (\<lambda>ibn.
      if ibn then bn (map bn_arg args) else ret (fixnum_primitive_cmp cmp (map fixnum_val args)))"

definition idio_lt :: "'c idio_num \<Rightarrow> 'c idio_num list \<Rightarrow> bool comp" where
  "idio_lt n1 args = arithmetic_cmp_primitive bignum_primitive_lt (<) (n1 # args)"

definition idio_le :: "'c idio_num \<Rightarrow> 'c idio_num list \<Rightarrow> bool comp" where
  "idio_le n1 args = arithmetic_cmp_primitive bignum_primitive_le (\<le>) (n1 # args)"

definition idio_eq :: "'c idio_num \<Rightarrow> 'c idio_num list \<Rightarrow> bool comp" where
  "idio_eq n1 args = arithmetic_cmp_primitive bignum_primitive_eq (=) (n1 # args)"

definition idio_ne :: "'c idio_num \<Rightarrow> 'c idio_num list \<Rightarrow> bool comp" where
  "idio_ne n1 args = arithmetic_cmp_primitive bignum_primitive_ne (\<noteq>) (n1 # args)"

definition idio_ge :: "'c idio_num \<Rightarrow> 'c idio_num list \<Rightarrow> bool comp" where
  "idio_ge n1 args = arithmetic_cmp_primitive bignum_primitive_ge (\<ge>) (n1 # args)"

definition idio_gt :: "'c idio_num \<Rightarrow> 'c idio_num list \<Rightarrow> bool comp" where
  "idio_gt n1 args = arithmetic_cmp_primitive bignum_primitive_gt (>) (n1 # args)"

text \<open>\<^verbatim>\<open>floor\<close>, \<^verbatim>\<open>quotient\<close> and \<^verbatim>\<open>remainder\<close>.\<close>

definition idio_floor :: "'c idio_num \<Rightarrow> 'c idio_num comp" where
  "idio_floor a =
    (case a of Fixnum i \<Rightarrow> ret (Fixnum i)
     | Bignum b \<Rightarrow> bignum_num (bignum_primitive_floor b)
     | _ \<Rightarrow> raise (Param_type_error ''number''))"

definition integer_division ::
  "(int \<Rightarrow> int \<Rightarrow> 'c idio_num comp) \<Rightarrow> (bignum \<Rightarrow> bignum \<Rightarrow> bignum comp) \<Rightarrow>
    'c idio_num \<Rightarrow> 'c idio_num \<Rightarrow> 'c idio_num comp" where
  "integer_division fx bn a b =
    (case a of
       Fixnum i \<Rightarrow>
         (case b of Fixnum j \<Rightarrow> fx i j
          | Bignum bb \<Rightarrow> back_to_fixnum (bn (bignum_integer_intmax_t i) bb)
          | _ \<Rightarrow> raise (Param_type_error ''number''))
     | Bignum ba \<Rightarrow>
         (case b of Fixnum j \<Rightarrow> back_to_fixnum (bn ba (bignum_integer_intmax_t j))
          | Bignum bb \<Rightarrow> back_to_fixnum (bn ba bb)
          | _ \<Rightarrow> raise (Param_type_error ''number''))
     | _ \<Rightarrow> raise (Param_type_error ''number''))"

definition idio_remainder :: "'c idio_num \<Rightarrow> 'c idio_num \<Rightarrow> 'c idio_num comp" where
  "idio_remainder a b = integer_division fixnum_primitive_remainder bignum_primitive_remainder a b"

definition idio_quotient :: "'c idio_num \<Rightarrow> 'c idio_num \<Rightarrow> 'c idio_num comp" where
  "idio_quotient a b = integer_division fixnum_primitive_quotient bignum_primitive_quotient a b"

text \<open>
  The unary and binary primitives, that the infix operators and the VM call
  (\<^verbatim>\<open>IDIO_DEFINE_ARITHMETIC_UNARY_PRIMITIVE\<close>, \<^verbatim>\<open>..._BINARY_PRIMITIVE\<close>,
  \<^verbatim>\<open>..._BINDIV_PRIMITIVE\<close>, \<^verbatim>\<open>..._BINARY_CMP_PRIMITIVE\<close>).
\<close>

definition unary_abs :: "('c \<Rightarrow> 'c idio_num comp) \<Rightarrow> 'c idio_num \<Rightarrow> 'c idio_num comp" where
  "unary_abs c_prim n =
    (case n of C_number c \<Rightarrow> c_prim c
     | Bignum b \<Rightarrow> back_to_fixnum (ret (real_abs b))
     | Fixnum i \<Rightarrow> fixnum_primitive_abs i
     | Not_a_number \<Rightarrow> raise (Param_type_error ''number''))"

definition need_number :: "'c idio_num \<Rightarrow> bool comp" where
  "need_number n =
    (case n of Bignum b \<Rightarrow> ret True | Fixnum i \<Rightarrow> ret False | _ \<Rightarrow> raise (Param_type_error ''number''))"

definition binary_primitive ::
  "('c \<Rightarrow> 'c idio_num \<Rightarrow> 'c idio_num comp) \<Rightarrow> (bignum option list \<Rightarrow> bignum comp) \<Rightarrow>
    (int list \<Rightarrow> 'c idio_num comp) \<Rightarrow> 'c idio_num \<Rightarrow> 'c idio_num \<Rightarrow> 'c idio_num comp" where
  "binary_primitive c_prim bn fx n1 n2 =
    (case n1 of C_number c \<Rightarrow> c_prim c n2
     | _ \<Rightarrow> bind_comp (need_number n1) (\<lambda>b1. bind_comp (need_number n2) (\<lambda>b2.
         if b1 \<or> b2 then back_to_fixnum (bn [bn_arg n1, bn_arg n2])
         else fx [fixnum_val n1, fixnum_val n2])))"

definition binary_add where
  "binary_add c_prim n1 n2 = binary_primitive c_prim bignum_primitive_add fixnum_primitive_add n1 n2"

definition binary_subtract where
  "binary_subtract c_prim n1 n2 =
    binary_primitive c_prim bignum_primitive_subtract fixnum_primitive_subtract n1 n2"

definition binary_multiply where
  "binary_multiply c_prim n1 n2 =
    binary_primitive c_prim bignum_primitive_multiply fixnum_primitive_multiply n1 n2"

definition binary_divide ::
  "('c \<Rightarrow> 'c idio_num \<Rightarrow> 'c idio_num comp) \<Rightarrow> 'c idio_num \<Rightarrow> 'c idio_num \<Rightarrow> 'c idio_num comp" where
  "binary_divide c_prim n1 n2 =
    (case n1 of C_number c \<Rightarrow> c_prim c n2
     | _ \<Rightarrow> bind_comp (need_number n1) (\<lambda>b1. bind_comp (need_number n2) (\<lambda>b2.
         back_to_fixnum (bignum_primitive_divide [bn_arg n1, bn_arg n2]))))"

definition binary_cmp_primitive ::
  "(bignum option list \<Rightarrow> bool comp) \<Rightarrow> (int \<Rightarrow> int \<Rightarrow> bool) \<Rightarrow> 'c idio_num \<Rightarrow> 'c idio_num \<Rightarrow> bool comp" where
  "binary_cmp_primitive bn cmp n1 n2 =
    bind_comp (need_number n1) (\<lambda>b1. bind_comp (need_number n2) (\<lambda>b2.
      if b1 \<or> b2 then bn [bn_arg n1, bn_arg n2]
      else ret (fixnum_primitive_cmp cmp [fixnum_val n1, fixnum_val n2])))"

definition binary_lt where "binary_lt n1 n2 = binary_cmp_primitive bignum_primitive_lt (<) n1 n2"
definition binary_le where "binary_le n1 n2 = binary_cmp_primitive bignum_primitive_le (\<le>) n1 n2"
definition binary_eq where "binary_eq n1 n2 = binary_cmp_primitive bignum_primitive_eq (=) n1 n2"
definition binary_ne where "binary_ne n1 n2 = binary_cmp_primitive bignum_primitive_ne (\<noteq>) n1 n2"
definition binary_ge where "binary_ge n1 n2 = binary_cmp_primitive bignum_primitive_ge (\<ge>) n1 n2"
definition binary_gt where "binary_gt n1 n2 = binary_cmp_primitive bignum_primitive_gt (>) n1 n2"

section \<open>The integers they stand for\<close>

text \<open>
  \<open>num_int n\<close>: the integer of a fixnum in range or of an integer bignum;
  \<open>canonical i\<close>: the value \<open>i\<close> should have, a fixnum whenever it fits.
\<close>

definition num_int :: "'c idio_num \<Rightarrow> int option" where
  "num_int n =
    (case n of Fixnum i \<Rightarrow> if in_fixnum i then Some i else None
     | Bignum b \<Rightarrow> if int_bignum b then Some (sig_val (bn_sig b)) else None
     | _ \<Rightarrow> None)"

definition canonical :: "int \<Rightarrow> 'c idio_num" where
  "canonical i = (if in_fixnum i then Fixnum i else Bignum (bn_of i))"

lemma num_int_simps [simp]:
  "in_fixnum i \<Longrightarrow> num_int (Fixnum i) = Some i" "num_int (Bignum (bn_of i)) = Some i"
  "num_int (canonical i) = Some i"
  by (simp_all add: num_int_def canonical_def)

lemma in_fixnum_in_intptr: "in_fixnum i \<Longrightarrow> in_intptr i"
  by (simp add: in_fixnum_iff intptr_defs)

lemma num_int_cases:
  assumes "num_int n = Some i"
  obtains "n = Fixnum i" "in_fixnum i" | "n = Bignum (bn_of i)"
  using assms by (cases n) (auto simp: num_int_def int_bignum_def split: if_splits)

lemma bn_arg_num_int: "num_int n = Some i \<Longrightarrow> bn_arg n = Some (bn_of i)"
  by (elim num_int_cases) (simp_all add: bn_arg_def bignum_integer_intmax_t_eq in_fixnum_in_intptr)

lemma idio_fixnum_canonical: "in_fixnum i \<Longrightarrow> idio_fixnum i = ret (Fixnum i)"
  by (simp add: idio_fixnum_def in_fixnum_def)

lemma idio_integer_canonical: "in_intptr i \<Longrightarrow> idio_integer i = canonical i"
  by (simp add: idio_integer_def canonical_def in_fixnum_def bignum_integer_intmax_t_eq conj_commute)

lemma idio_uinteger_canonical: "0 \<le> i \<Longrightarrow> idio_uinteger i = canonical i"
  by (simp add: idio_uinteger_def canonical_def in_fixnum_def bignum_integer_uintmax_t_eq FIXNUM_bounds)

lemma to_fixnum_bn_of [simp]: "to_fixnum (bn_of i) = canonical i"
  by (simp add: to_fixnum_def canonical_def bignum_to_fixnum_bn_of)

lemma back_to_fixnum_ret [simp]: "back_to_fixnum (ret b) = ret (to_fixnum b)"
  "back_to_fixnum (raise e) = raise e"
  by (simp_all add: back_to_fixnum_def)

lemma bignum_num_ret [simp]: "bignum_num (ret b) = ret (Bignum b)"
  by (simp add: bignum_num_def)

lemma bn_rest_eq: "\<forall>i \<in> set is. in_fixnum i \<Longrightarrow> bn_rest is = map (Some \<circ> bn_of) is"
  by (auto simp: bn_rest_def bignum_integer_intmax_t_eq in_fixnum_in_intptr)

section \<open>The fixnum loops\<close>

lemma in_fixnum_add_sub:
  assumes "in_fixnum i" "in_fixnum j"
  shows "wrap64 (i + j) = i + j" "wrap64 (i - j) = i - j" "in_intptr (i + j)" "in_intptr (i - j)"
    "in_intptr (- i)" "wrap64 (- i) = - i"
  using assms by (simp_all add: in_fixnum_iff intptr_defs)

lemma not_in_fixnum: "FIXNUM_MAX < i \<or> i < FIXNUM_MIN \<longleftrightarrow> \<not> in_fixnum i"
  by (auto simp: in_fixnum_def)

lemma fixnum_add_loop_ints:
  assumes "in_fixnum i" "\<forall>j \<in> set js. in_fixnum j"
  shows "\<exists>r. fixnum_add_loop i js = ret r \<and> num_int r = Some (i + sum_list js)"
  using assms
proof (induction js arbitrary: i)
  case (Cons j js)
  then have w: "wrap64 (i + j) = i + j" "in_intptr (i + j)" by (simp_all add: in_fixnum_add_sub)
  show ?case
  proof (cases "in_fixnum (i + j)")
    case True
    then show ?thesis using Cons.IH [of "i + j"] Cons.prems by (simp add: w not_in_fixnum Let_def add.assoc)
  next
    case False
    then show ?thesis
      using Cons.prems bignum_primitive_ints(1) [of "(i + j) # js"]
      by (simp add: w not_in_fixnum Let_def bn_rest_eq bignum_integer_intmax_t_eq add.assoc)
  qed
qed (simp add: idio_fixnum_canonical)

lemma fixnum_subtract_loop_ints:
  assumes "in_fixnum i" "\<forall>j \<in> set js. in_fixnum j"
  shows "\<exists>r. fixnum_subtract_loop i js = ret r \<and> num_int r = Some (i - sum_list js)"
  using assms
proof (induction js arbitrary: i)
  case Nil
  then show ?case by (simp add: not_in_fixnum idio_fixnum_canonical)
next
  case (Cons j js)
  then have w: "wrap64 (i - j) = i - j" "in_intptr (i - j)" by (simp_all add: in_fixnum_add_sub)
  show ?case
  proof (cases "in_fixnum (i - j)")
    case True
    then show ?thesis
      using Cons.IH [of "i - j"] Cons.prems by (simp add: w not_in_fixnum Let_def diff_diff_eq)
  next
    case False
    then show ?thesis
      using Cons.prems bignum_primitive_ints(3) [of js "i - j"]
      by (auto simp: w not_in_fixnum Let_def bn_rest_eq bignum_integer_intmax_t_eq diff_diff_eq)
  qed
qed

lemma fixnum_primitive_subtract_ints:
  assumes "\<forall>j \<in> set (i # js). in_fixnum j"
  shows "\<exists>r. fixnum_primitive_subtract (i # js) = ret r \<and>
    num_int r = Some (if js = [] then - i else i - sum_list js)"
proof (cases "js = []")
  case True
  have "in_intptr (- i)" "wrap64 (- i) = - i" using assms in_fixnum_add_sub by auto
  then show ?thesis
    using True by (cases "in_fixnum (- i)")
      (simp_all add: fixnum_primitive_subtract_def not_in_fixnum idio_fixnum_canonical bignum_integer_intmax_t_eq)
next
  case False
  then show ?thesis
    using fixnum_subtract_loop_ints [of i js] assms
    by (cases js) (simp_all add: fixnum_primitive_subtract_def del: fixnum_subtract_loop.simps)
qed

text \<open>
  The overflow checks of \<^verbatim>\<open>idio_fixnum_primitive_multiply\<close> are sound: a product
  that leaves \<^verbatim>\<open>intptr_t\<close> is seen, by the bits of its factors or by its sign.
\<close>

lemma msb_bound: "n < 2 ^ Suc (msb n)"
proof (induction n rule: msb.induct)
  case (1 n)
  show ?case
  proof (cases "n div 2 = 0")
    case True
    then show ?thesis by (simp add: msb.simps [of n])
  next
    case False
    then have "n div 2 < 2 ^ Suc (msb (n div 2))" using 1 by simp
    then have "n < 2 * 2 ^ Suc (msb (n div 2))" by linarith
    then show ?thesis using False by (simp add: msb.simps [of n])
  qed
qed

lemma multiply_bits:
  assumes "msb (nat \<bar>i\<bar>) + msb (nat \<bar>j\<bar>) < 62"
  shows "in_intptr (i * j)"
proof -
  let ?a = "nat \<bar>i\<bar>" and ?b = "nat \<bar>j\<bar>"
  have "?a * ?b < 2 ^ Suc (msb ?a) * 2 ^ Suc (msb ?b)"
    using msb_bound [of ?a] msb_bound [of ?b] by (intro mult_strict_mono) simp_all
  also have "\<dots> = 2 ^ (msb ?a + msb ?b + 2)" by (simp add: power_add)
  also have "\<dots> \<le> 2 ^ 63" using assms by (intro power_increasing) simp_all
  finally have "int (?a * ?b) < int (2 ^ 63)" by (simp only: of_nat_less_iff)
  then have "\<bar>i * j\<bar> < 9223372036854775808" by (simp add: abs_mult)
  then show ?thesis by (simp add: intptr_defs abs_less_iff)
qed

lemma not_high_half:
  assumes "in_fixnum i" "\<not> high_half i"
  shows "0 \<le> i" "i < 4294967296"
proof -
  have m: "0 \<le> i mod 18446744073709551616 \<and> i mod 18446744073709551616 < 4294967296"
    using assms(2) by (simp add: high_half_def zdiv_eq_0_iff)
  show "0 \<le> i"
  proof (rule ccontr)
    assume "\<not> 0 \<le> i"
    then have "(i + 18446744073709551616) mod 18446744073709551616 = i + 18446744073709551616"
      using assms(1) by (intro mod_pos_pos_trivial) (simp_all add: in_fixnum_iff)
    then have "i mod 18446744073709551616 = i + 18446744073709551616" by simp
    then show False using m assms(1) by (simp add: in_fixnum_iff)
  qed
  then have "i mod 18446744073709551616 = i" using assms(1) by (simp add: in_fixnum_iff)
  then show "i < 4294967296" using m by simp
qed

lemma multiply_checks_sound:
  assumes "in_fixnum i" "in_fixnum j"
    and "\<not> ((high_half i \<or> high_half j) \<and> 62 \<le> msb (nat \<bar>i\<bar>) + msb (nat \<bar>j\<bar>))"
    and "in_fixnum (wrap64 (i * j))"
    and "\<not> ((i < 0) \<noteq> (j < 0) \<and> 0 < wrap64 (i * j))" "\<not> ((i < 0) = (j < 0) \<and> wrap64 (i * j) < 0)"
  shows "wrap64 (i * j) = i * j"
proof (cases "in_intptr (i * j)")
  case False
  then have "\<not> high_half i" "\<not> high_half j" using assms(3) multiply_bits [of i j] by auto
  then have b: "0 \<le> i" "i < 4294967296" "0 \<le> j" "j < 4294967296"
    using not_high_half assms(1,2) by blast+
  moreover have "i * j \<le> 4294967295 * 4294967295" using b by (intro mult_mono) simp_all
  ultimately have "0 \<le> i * j" "i * j \<le> 4294967295 * 4294967295" by simp_all
  then have p: "9223372036854775808 \<le> i * j" "i * j < 18446744073709551616"
    using False by (simp_all add: intptr_defs)
  obtain p where pe: "p = i * j" by blast
  have "(p + 9223372036854775808) mod 18446744073709551616 = p - 9223372036854775808"
    using p unfolding pe [symmetric] by (intro int_mod_pos_eq [of _ _ 1]) simp_all
  then have "wrap64 p < 0" using p unfolding pe [symmetric] by (simp add: wrap64_def)
  then show ?thesis using assms(6) b unfolding pe by simp
qed simp

lemma fixnum_multiply_loop_ints:
  assumes "in_fixnum i" "\<forall>j \<in> set js. in_fixnum j"
  shows "\<exists>r. (fixnum_multiply_loop i js :: 'c idio_num comp) = ret r \<and> num_int r = Some (i * prod_list js)"
  using assms
proof (induction js arbitrary: i)
  case (Cons j js)
  let ?im = "wrap64 (i * j)"
  have conv: "bignum_integer_intmax_t i = bn_of i" "bignum_integer_intmax_t j = bn_of j"
    "bn_rest (j # js) = map (Some \<circ> bn_of) (j # js)" "bn_rest js = map (Some \<circ> bn_of) js"
    using Cons.prems by (auto simp: bignum_integer_intmax_t_eq in_fixnum_in_intptr bn_rest_eq)
  consider (bits) "(high_half i \<or> high_half j) \<and> 62 \<le> msb (nat \<bar>i\<bar>) + msb (nat \<bar>j\<bar>)"
    | (over) "\<not> ((high_half i \<or> high_half j) \<and> 62 \<le> msb (nat \<bar>i\<bar>) + msb (nat \<bar>j\<bar>))"
        "\<not> in_fixnum ?im \<or> ((i < 0) \<noteq> (j < 0) \<and> 0 < ?im) \<or> ((i < 0) = (j < 0) \<and> ?im < 0)"
    | (fits) "\<not> ((high_half i \<or> high_half j) \<and> 62 \<le> msb (nat \<bar>i\<bar>) + msb (nat \<bar>j\<bar>))"
        "in_fixnum ?im" "\<not> ((i < 0) \<noteq> (j < 0) \<and> 0 < ?im)" "\<not> ((i < 0) = (j < 0) \<and> ?im < 0)"
    by blast
  then show ?case
  proof cases
    case bits
    then have "(fixnum_multiply_loop i (j # js) :: 'c idio_num comp) =
        bignum_num (bignum_primitive_multiply (Some (bn_of j) # Some (bn_of i) # bn_rest js))"
      unfolding fixnum_multiply_loop.simps Let_def conv(1,2) by (simp only: if_True simp_thms)
    then show ?thesis
      using bignum_primitive_ints(4) [of "j # i # js"] conv(4)
      by (simp add: mult.left_commute del: fixnum_multiply_loop.simps)
  next
    case over
    then have "(fixnum_multiply_loop i (j # js) :: 'c idio_num comp) =
        bignum_num (bignum_primitive_multiply (Some (bn_of i) # bn_rest (j # js)))"
      unfolding fixnum_multiply_loop.simps Let_def conv(1) by (auto simp: in_fixnum_def)
    then show ?thesis
      using bignum_primitive_ints(4) [of "i # j # js"] conv(3) by (simp del: fixnum_multiply_loop.simps)
  next
    case fits
    then have im: "?im = i * j" using multiply_checks_sound Cons.prems by simp
    have "(fixnum_multiply_loop i (j # js) :: 'c idio_num comp) = fixnum_multiply_loop (i * j) js"
      unfolding fixnum_multiply_loop.simps Let_def im using fits(1,3,4) fits(2) unfolding im
      by (auto simp: in_fixnum_def)
    then show ?thesis using Cons.IH [of "i * j"] Cons.prems fits(2) im
      by (simp add: mult.assoc del: fixnum_multiply_loop.simps)
  qed
qed (simp add: idio_fixnum_canonical)

section \<open>The generic primitives on integers\<close>

definition ints :: "'c idio_num list \<Rightarrow> int list \<Rightarrow> bool" where
  "ints ns is \<longleftrightarrow> map num_int ns = map Some is"

lemma ints_simps [simp]:
  "ints [] is \<longleftrightarrow> is = []"
  "ints (n # ns) is \<longleftrightarrow> (\<exists>i js. is = i # js \<and> num_int n = Some i \<and> ints ns js)"
  by (auto simp: ints_def)

lemma ints_bn_arg: "ints ns is \<Longrightarrow> map bn_arg ns = map (Some \<circ> bn_of) is"
  by (induction ns arbitrary: "is") (auto simp: bn_arg_num_int)

lemma ints_scan:
  "ints ns is \<Longrightarrow> arith_scan ns = ret True \<or>
     arith_scan ns = ret False \<and> map fixnum_val ns = is \<and> (\<forall>i \<in> set is. in_fixnum i)"
proof (induction ns arbitrary: "is")
  case (Cons n ns)
  then show ?case by (auto simp: fixnum_val_def elim!: num_int_cases)
qed simp

text \<open>A bignum and a fixnum primitive that compute the same integer give one that does.\<close>

lemma arithmetic_primitive_ints:
  assumes "ints ns is" "bn (map (Some \<circ> bn_of) is) = ret (bn_of v)"
    and "\<forall>i \<in> set is. in_fixnum i \<Longrightarrow> \<exists>r. fx is = ret r \<and> num_int r = Some v"
  shows "\<exists>r. arithmetic_primitive bn fx ns = ret r \<and> num_int r = Some v"
  using ints_scan [OF assms(1)] assms(2,3) ints_bn_arg [OF assms(1)]
  by (auto simp: arithmetic_primitive_def)

lemma idio_add_ints: "ints ns is \<Longrightarrow> \<exists>r. idio_add ns = ret r \<and> num_int r = Some (sum_list is)"
  unfolding idio_add_def fixnum_primitive_add_def
  using fixnum_add_loop_ints [of 0 "is"]
  by (intro arithmetic_primitive_ints) (auto simp: bignum_primitive_ints in_fixnum_iff)

lemma idio_subtract_ints:
  "ints (n # ns) (i # is) \<Longrightarrow>
   \<exists>r. idio_subtract n ns = ret r \<and> num_int r = Some (if is = [] then - i else i - sum_list is)"
  unfolding idio_subtract_def
  using fixnum_primitive_subtract_ints [of i "is"]
  by (intro arithmetic_primitive_ints [of "n # ns" "i # is"])
    (auto simp: bignum_primitive_ints(2) bignum_primitive_ints(3) [simplified])

lemma fixnum_primitive_multiply_ints:
  "\<forall>i \<in> set is. in_fixnum i \<Longrightarrow> \<exists>r. fixnum_primitive_multiply is = ret r \<and> num_int r = Some (prod_list is)"
proof (cases "is")
  case Nil
  have "in_fixnum 1" by (simp add: in_fixnum_iff)
  then show ?thesis using Nil by (simp add: fixnum_primitive_multiply_def idio_fixnum_canonical)
next
  case (Cons i js)
  assume "\<forall>i \<in> set is. in_fixnum i"
  then show ?thesis
    using Cons fixnum_multiply_loop_ints [of i js]
    by (simp add: fixnum_primitive_multiply_def del: fixnum_multiply_loop.simps)
qed

lemma idio_multiply_ints: "ints ns is \<Longrightarrow> \<exists>r. idio_multiply ns = ret r \<and> num_int r = Some (prod_list is)"
  unfolding idio_multiply_def
  by (rule arithmetic_primitive_ints, assumption, rule bignum_primitive_ints(4),
      rule fixnum_primitive_multiply_ints)

lemma fixnum_cmp_loop_eq: "fixnum_cmp_loop cmp i is \<longleftrightarrow> successively cmp (i # is)"
  by (induction "is" arbitrary: i) auto

lemma fixnum_primitive_cmp_eq: "fixnum_primitive_cmp cmp is \<longleftrightarrow> successively cmp is"
  by (cases "is") (simp_all add: fixnum_primitive_cmp_def fixnum_cmp_loop_eq)

lemma arithmetic_cmp_primitive_ints:
  assumes "ints ns is" "bn (map (Some \<circ> bn_of) is) = ret (successively cmp is)"
  shows "arithmetic_cmp_primitive bn cmp ns = ret (successively cmp is)"
  using ints_scan [OF assms(1)] assms(2) ints_bn_arg [OF assms(1)]
  by (auto simp: arithmetic_cmp_primitive_def fixnum_primitive_cmp_eq)

lemma idio_cmp_ints:
  assumes "ints (n # ns) is"
  shows "idio_lt n ns = ret (successively (<) is)" "idio_le n ns = ret (successively (\<le>) is)"
    "idio_eq n ns = ret (successively (=) is)" "idio_ne n ns = ret (successively (\<noteq>) is)"
    "idio_ge n ns = ret (successively (\<ge>) is)" "idio_gt n ns = ret (successively (>) is)"
  unfolding idio_lt_def idio_le_def idio_eq_def idio_ne_def idio_ge_def idio_gt_def
  by (rule arithmetic_cmp_primitive_ints [OF assms, of bignum_primitive_lt "(<)", OF bignum_primitive_cmp_ints(1)],
      rule arithmetic_cmp_primitive_ints [OF assms, of bignum_primitive_le "(\<le>)", OF bignum_primitive_cmp_ints(2)],
      rule arithmetic_cmp_primitive_ints [OF assms, of bignum_primitive_eq "(=)", OF bignum_primitive_cmp_ints(3)],
      rule arithmetic_cmp_primitive_ints [OF assms, of bignum_primitive_ne "(\<noteq>)", OF bignum_primitive_cmp_ints(4)],
      rule arithmetic_cmp_primitive_ints [OF assms, of bignum_primitive_ge "(\<ge>)", OF bignum_primitive_cmp_ints(5)],
      rule arithmetic_cmp_primitive_ints [OF assms, of bignum_primitive_gt "(>)", OF bignum_primitive_cmp_ints(6)])

text \<open>
  The binary primitives return the canonical value: a fixnum whenever the result
  fits. (The n-ary ones need not, see \<open>fixnum_add_loop\<close>.)
\<close>

lemma msb_lower: "0 < n \<Longrightarrow> 2 ^ msb n \<le> n"
proof (induction n rule: msb.induct)
  case (1 n)
  show ?case
  proof (cases "n div 2 = 0")
    case True
    then show ?thesis using 1(2) by (simp add: msb.simps [of n])
  next
    case False
    then have "2 ^ msb (n div 2) \<le> n div 2" using 1(1) by simp
    then have "2 * 2 ^ msb (n div 2) \<le> n" by linarith
    then show ?thesis using False by (simp add: msb.simps [of n])
  qed
qed

lemma multiply_bits_large:
  assumes "62 \<le> msb (nat \<bar>i\<bar>) + msb (nat \<bar>j\<bar>)" "in_fixnum i" "in_fixnum j"
  shows "\<not> in_fixnum (i * j)"
proof -
  have small: "msb (nat \<bar>k\<bar>) \<le> 61" if "in_fixnum k" for k
  proof (cases "k = 0")
    case False
    then have "2 ^ msb (nat \<bar>k\<bar>) \<le> nat \<bar>k\<bar>" by (intro msb_lower) simp
    also have "\<dots> \<le> 2 ^ 61" using that by (simp add: in_fixnum_iff nat_le_iff abs_if)
    finally show ?thesis by (rule power_le_imp_le_exp [rotated]) simp
  qed (simp add: msb.simps)
  have "i \<noteq> 0" "j \<noteq> 0" using assms(1) small [OF assms(2)] small [OF assms(3)] by (auto simp: msb.simps [of 0])
  then have "2 ^ msb (nat \<bar>i\<bar>) * 2 ^ msb (nat \<bar>j\<bar>) \<le> nat \<bar>i\<bar> * nat \<bar>j\<bar>"
    by (intro mult_le_mono msb_lower) simp_all
  moreover have "(2::nat) ^ 62 \<le> 2 ^ (msb (nat \<bar>i\<bar>) + msb (nat \<bar>j\<bar>))"
    using assms(1) by (intro power_increasing) simp_all
  ultimately have "2 ^ 62 \<le> nat \<bar>i\<bar> * nat \<bar>j\<bar>" by (simp only: power_add)
  then have "int (2 ^ 62) \<le> int (nat \<bar>i\<bar> * nat \<bar>j\<bar>)" by (simp only: of_nat_le_iff)
  then have "4611686018427387904 \<le> \<bar>i * j\<bar>" by (simp add: abs_mult)
  then show ?thesis by (simp add: in_fixnum_iff abs_if split: if_splits)
qed

lemma fixnum_primitive_multiply_2:
  assumes "in_fixnum i" "in_fixnum j"
  shows "(fixnum_primitive_multiply [i, j] :: 'c idio_num comp) = ret (canonical (i * j))"
proof -
  have conv: "bignum_integer_intmax_t i = bn_of i" "bignum_integer_intmax_t j = bn_of j"
    using assms by (simp_all add: bignum_integer_intmax_t_eq in_fixnum_in_intptr)
  have prims: "bignum_primitive_multiply [Some (bn_of j), Some (bn_of i)] = ret (bn_of (i * j))"
    "bignum_primitive_multiply [Some (bn_of i), Some (bn_of j)] = ret (bn_of (i * j))"
    using bignum_primitive_ints(4) [of "[i, j]"] bignum_primitive_ints(4) [of "[j, i]"]
    by (simp_all add: mult.commute)
  let ?bits = "(high_half i \<or> high_half j) \<and> 62 \<le> msb (nat \<bar>i\<bar>) + msb (nat \<bar>j\<bar>)"
  let ?im = "wrap64 (i * j)"
  let ?over = "\<not> in_fixnum ?im \<or> (i < 0) \<noteq> (j < 0) \<and> 0 < ?im \<or> (i < 0) = (j < 0) \<and> ?im < 0"
  have loop: "fixnum_primitive_multiply [i, j] =
      (if ?bits \<or> ?over then ret (Bignum (bn_of (i * j))) else (ret (Fixnum ?im) :: 'c idio_num comp))"
    using prims conv
    by (cases ?bits) (auto simp: fixnum_primitive_multiply_def Let_def not_in_fixnum bn_rest_def
        idio_fixnum_canonical in_fixnum_def)
  show ?thesis
  proof (cases "in_fixnum (i * j)")
    case True
    then have "?im = i * j" by (simp add: in_fixnum_in_intptr)
    then have "\<not> ?over" using True by (auto simp: zero_less_mult_iff mult_less_0_iff)
    then show ?thesis using True multiply_bits_large [OF _ assms] \<open>?im = i * j\<close> by (auto simp: loop canonical_def)
  next
    case False
    then have "?bits \<or> ?over" using multiply_checks_sound [OF assms] by metis
    then show ?thesis using False by (simp add: loop canonical_def)
  qed
qed

lemma binary_primitive_ints:
  assumes "num_int n1 = Some i" "num_int n2 = Some j"
    and "bn [Some (bn_of i), Some (bn_of j)] = ret (bn_of v)"
    and "in_fixnum i \<Longrightarrow> in_fixnum j \<Longrightarrow> fx [i, j] = ret (canonical v)"
  shows "binary_primitive c_prim bn fx n1 n2 = ret (canonical v)"
  using assms
  by (auto elim!: num_int_cases simp: binary_primitive_def need_number_def fixnum_val_def bn_arg_num_int)

lemma fixnum_primitive_add_2:
  assumes "in_fixnum i" "in_fixnum j"
  shows "fixnum_primitive_add [i, j] = ret (canonical (i + j))"
  using assms bignum_primitive_ints(1) [of "[i + j]"]
  by (auto simp: fixnum_primitive_add_def Let_def in_fixnum_add_sub in_fixnum_in_intptr not_in_fixnum
      idio_fixnum_canonical canonical_def bn_rest_def bignum_integer_intmax_t_eq)

lemma fixnum_primitive_subtract_2:
  assumes "in_fixnum i" "in_fixnum j"
  shows "fixnum_primitive_subtract [i, j] = ret (canonical (i - j))"
  using assms
  by (auto simp: fixnum_primitive_subtract_def Let_def in_fixnum_add_sub not_in_fixnum
      idio_fixnum_canonical canonical_def bignum_integer_intmax_t_eq)

lemma binary_arith_ints:
  assumes "num_int n1 = Some i" "num_int n2 = Some j"
  shows "binary_add c_prim n1 n2 = ret (canonical (i + j))"
    and "binary_subtract c_prim n1 n2 = ret (canonical (i - j))"
    and "binary_multiply c_prim n1 n2 = ret (canonical (i * j))"
  unfolding binary_add_def binary_subtract_def binary_multiply_def
  using bignum_primitive_ints(1) [of "[i, j]"] bignum_primitive_ints(3) [of "[j]" i]
    bignum_primitive_ints(4) [of "[i, j]"]
  by (intro binary_primitive_ints [OF assms];
      simp add: fixnum_primitive_multiply_2 fixnum_primitive_add_2 fixnum_primitive_subtract_2)+

lemma in_fixnum_abs: "in_fixnum i \<longleftrightarrow> \<bar>i\<bar> \<le> 2305843009213693951 \<or> i = FIXNUM_MIN"
  by (auto simp: in_fixnum_iff FIXNUM_bounds abs_if)

lemma abs_sdiv_smod: "\<bar>i sdiv j\<bar> = \<bar>i\<bar> div \<bar>j\<bar>" "\<bar>i smod j\<bar> = \<bar>i\<bar> mod \<bar>j\<bar>" for i j :: int
proof -
  have "0 \<le> \<bar>i\<bar> div \<bar>j\<bar>" "0 \<le> \<bar>i\<bar> mod \<bar>j\<bar>"
    by (cases "j = 0"; simp add: pos_imp_zdiv_nonneg_iff)+
  then show "\<bar>i sdiv j\<bar> = \<bar>i\<bar> div \<bar>j\<bar>" "\<bar>i smod j\<bar> = \<bar>i\<bar> mod \<bar>j\<bar>"
    unfolding signed_divide_int_def signed_modulo_int_def by (auto simp: abs_mult sgn_if)
qed

lemma in_fixnum_sdiv:
  assumes "in_fixnum i" "in_fixnum j" "j \<noteq> 0"
  shows "in_fixnum (i smod j)" "in_fixnum (i sdiv j) \<longleftrightarrow> \<not> (i = FIXNUM_MIN \<and> j = - 1)"
proof -
  have "\<bar>i\<bar> mod \<bar>j\<bar> < \<bar>j\<bar>" using assms(3) by simp
  then show "in_fixnum (i smod j)"
    using assms(2) abs_sdiv_smod(2) [of i j] by (auto simp: in_fixnum_iff)
  consider "j = 1" | "j = - 1" | "2 \<le> \<bar>j\<bar>" using assms(3) by linarith
  then show "in_fixnum (i sdiv j) \<longleftrightarrow> \<not> (i = FIXNUM_MIN \<and> j = - 1)"
  proof cases
    case 1
    then show ?thesis using assms(1) by simp
  next
    case 2
    then show ?thesis using assms(1) by (auto simp: in_fixnum_iff FIXNUM_bounds)
  next
    case 3
    have "\<bar>i\<bar> div \<bar>j\<bar> \<le> \<bar>i\<bar> div 2" using 3 by (intro zdiv_mono2) simp_all
    also have "\<dots> \<le> 2305843009213693952 div 2" using assms(1) by (intro zdiv_mono1) (auto simp: in_fixnum_iff)
    finally show ?thesis
      using abs_sdiv_smod(1) [of i j] 3 by (auto simp: in_fixnum_iff)
  qed
qed

text \<open>
  Truncating division. The one pair of fixnums whose quotient is no fixnum,
  \<^verbatim>\<open>FIXNUM-MIN\<close> by -1, is a conversion error.
\<close>

lemma idio_quotient_ints:
  assumes "num_int a = Some i" "num_int b = Some j"
  shows "idio_quotient a b =
    (if j = 0 then raise Divide_by_zero_error
     else if a = Fixnum FIXNUM_MIN \<and> b = Fixnum (- 1) then raise (Fixnum_conversion_error (- FIXNUM_MIN))
     else ret (canonical (i sdiv j)))"
  using assms in_fixnum_sdiv(2) [of i j]
  by (auto elim!: num_int_cases simp: idio_quotient_def integer_division_def fixnum_primitive_quotient_def
      bignum_primitive_quotient_ints bignum_integer_intmax_t_eq in_fixnum_in_intptr idio_fixnum_def
      canonical_def FIXNUM_bounds in_fixnum_iff)

lemma idio_remainder_ints:
  assumes "num_int a = Some i" "num_int b = Some j"
  shows "idio_remainder a b = (if j = 0 then raise Divide_by_zero_error else ret (canonical (i smod j)))"
  using assms in_fixnum_sdiv(1) [of i j]
  by (auto elim!: num_int_cases simp: idio_remainder_def integer_division_def fixnum_primitive_remainder_def
      bignum_primitive_quotient_ints bignum_integer_intmax_t_eq in_fixnum_in_intptr idio_fixnum_canonical
      canonical_def)

lemma unary_abs_ints:
  fixes n :: "'c idio_num"
  assumes "num_int n = Some i"
  shows "unary_abs c_prim n =
    (if n = Fixnum FIXNUM_MIN then raise (Fixnum_conversion_error (- FIXNUM_MIN)) else ret (canonical \<bar>i\<bar>))"
proof -
  have fx: "fixnum_primitive_abs i = (if i = FIXNUM_MIN then raise (Fixnum_conversion_error (- FIXNUM_MIN))
      else (ret (Fixnum \<bar>i\<bar>) :: 'c idio_num comp))" if "in_fixnum i"
    using that in_fixnum_add_sub(6) [OF that that]
    by (auto simp: fixnum_primitive_abs_def idio_fixnum_def in_fixnum_iff FIXNUM_bounds)
  have "in_fixnum i \<Longrightarrow> i \<noteq> FIXNUM_MIN \<Longrightarrow> in_fixnum \<bar>i\<bar>"
    by (auto simp: in_fixnum_iff FIXNUM_bounds)
  then show ?thesis
    using assms fx by (auto elim!: num_int_cases simp: unary_abs_def real_abs_def canonical_def
        split: if_splits)
qed

end
