(* ===== verification/Idio_Array.thy ===== *)
theory Idio_Array
  imports Fixnum
begin

text \<open>
  Arrays (\<^verbatim>\<open>src/src/array.c\<close>, and \<^verbatim>\<open>idio_list_to_array\<close> of \<^verbatim>\<open>src/src/pair.c\<close>): a
  block of cells that is resized as values are pushed, with negative indexes, the
  stack and queue operations and the primitives on them. The values are those of
  a type variable; a list of Idio is a list.
\<close>

section \<open>The array object\<close>

text \<open>
  \<^verbatim>\<open>idio_array_t\<close>: the allocated and the used size, the default value and the cells.
  \<open>ar_fresh\<close> is what a cell holds that the allocator returned and nobody has
  written, \<open>ar_const\<close> the flag \<^verbatim>\<open>IDIO_FLAG_CONST\<close>.
\<close>

record 'v idio_array =
  ar_const :: bool
  ar_asize :: nat
  ar_usize :: nat
  ar_dv :: 'v
  ar_ae :: "'v list"
  ar_fresh :: "nat \<Rightarrow> 'v"

definition not_const :: "string \<Rightarrow> bool \<Rightarrow> 'a result \<Rightarrow> 'a result" where
  "not_const what c r = (if c then Inl (Const_param_error what) else r)"

definition idio_assign_array :: "(nat \<Rightarrow> 'v) \<Rightarrow> nat \<Rightarrow> 'v \<Rightarrow> 'v idio_array" where
  "idio_assign_array fresh asize dv =
    \<lparr>ar_const = False, ar_asize = asize, ar_usize = 0, ar_dv = dv, ar_ae = replicate asize dv,
     ar_fresh = fresh\<rparr>"

definition idio_array_dv :: "(nat \<Rightarrow> 'v) \<Rightarrow> nat \<Rightarrow> 'v \<Rightarrow> 'v idio_array" where
  "idio_array_dv fresh sz dv = idio_assign_array fresh (if sz = 0 then 1 else sz) dv"

text \<open>
  \<^verbatim>\<open>realloc\<close> keeps the cells below both sizes; those from the used size on are
  set to the default value.
\<close>

definition idio_resize_array_to :: "'v idio_array \<Rightarrow> nat \<Rightarrow> 'v idio_array result" where
  "idio_resize_array_to a nsize =
    not_const ''array'' (ar_const a)
      (Inr (a\<lparr>ar_asize := nsize,
        ar_ae := map (\<lambda>i. if ar_usize a \<le> i then ar_dv a
                          else if i < length (ar_ae a) then ar_ae a ! i else ar_fresh a i) [0..<nsize]\<rparr>))"

definition idio_resize_array :: "'v idio_array \<Rightarrow> 'v idio_array result" where
  "idio_resize_array a =
    not_const ''array'' (ar_const a)
      (idio_resize_array_to a (if ar_asize a < 1024 then 2 * ar_asize a else ar_asize a + 1024))"

definition idio_array_size :: "'v idio_array \<Rightarrow> nat" where
  "idio_array_size a = ar_usize a"

section \<open>Cells by index\<close>

definition store_cell :: "'v idio_array \<Rightarrow> 'v \<Rightarrow> nat \<Rightarrow> 'v idio_array" where
  "store_cell a v i = a\<lparr>ar_ae := (ar_ae a)[i := v], ar_usize := max (Suc i) (ar_usize a)\<rparr>"

definition idio_array_insert_index :: "'v idio_array \<Rightarrow> 'v \<Rightarrow> int \<Rightarrow> 'v idio_array result" where
  "idio_array_insert_index a v index =
    not_const ''array'' (ar_const a)
      (if index < 0
       then if index + int (ar_usize a) < 0 then Inl (Array_bounds_error index (ar_usize a))
            else Inr (store_cell a v (nat (index + int (ar_usize a))))
       else if int (ar_asize a) \<le> index
       then if index < int (ar_asize a) + 1
            then bind_result (idio_resize_array a) (\<lambda>a. Inr (store_cell a v (nat index)))
            else Inl (Array_bounds_error index (ar_asize a))
       else Inr (store_cell a v (nat index)))"

definition idio_array_ref_index :: "'v idio_array \<Rightarrow> int \<Rightarrow> 'v result" where
  "idio_array_ref_index a index =
    (let i = if index < 0 then index + int (ar_usize a) else index
     in if i < 0 then Inl (Array_bounds_error index (ar_usize a))
        else if int (ar_usize a) \<le> i then Inl (Array_bounds_error i (ar_usize a))
        else Inr (ar_ae a ! nat i))"

section \<open>Stack and queue\<close>

definition idio_array_push :: "'v idio_array \<Rightarrow> 'v \<Rightarrow> 'v idio_array result" where
  "idio_array_push a v = idio_array_insert_index a v (int (ar_usize a))"

text \<open>
  \<^verbatim>\<open>while (index + nargs >= ASIZE) idio_resize_array (a)\<close>: the allocation grows by at
  least one cell at each turn.
\<close>

function grow_loop :: "nat \<Rightarrow> 'v idio_array \<Rightarrow> 'v idio_array result" where
  "grow_loop need a =
    (if ar_asize a \<le> need \<and> 0 < ar_asize a
     then case idio_resize_array a of Inl e \<Rightarrow> Inl e | Inr a' \<Rightarrow> grow_loop need a'
     else Inr a)"
  by auto
termination
  by (relation "measure (\<lambda>(need, a). Suc need - ar_asize a)")
    (auto simp: idio_resize_array_def idio_resize_array_to_def not_const_def split: if_splits)

declare grow_loop.simps [simp del]

fun store_args :: "'v idio_array \<Rightarrow> nat \<Rightarrow> 'v list \<Rightarrow> 'v idio_array" where
  "store_args a i [] = a"
| "store_args a i (v # vs) = store_args (a\<lparr>ar_ae := (ar_ae a)[i := v]\<rparr>) (Suc i) vs"

definition idio_array_push_n :: "'v idio_array \<Rightarrow> 'v list \<Rightarrow> 'v idio_array result" where
  "idio_array_push_n a args =
    not_const ''array'' (ar_const a)
      (let index = ar_usize a
       in bind_result (grow_loop (index + length args) a) (\<lambda>a.
            Inr ((store_args a index args)\<lparr>ar_usize := max (index + length args) (ar_usize a)\<rparr>)))"

text \<open>The value for an empty array, \<^verbatim>\<open>idio_S_nil\<close>, is an argument.\<close>

definition idio_array_pop :: "'v \<Rightarrow> 'v idio_array \<Rightarrow> ('v \<times> 'v idio_array) result" where
  "idio_array_pop S_nil a =
    not_const ''array'' (ar_const a)
      (if ar_usize a < 1 then Inr (S_nil, a\<lparr>ar_usize := 0\<rparr>)
       else let index = ar_usize a - 1
            in Inr (ar_ae a ! index, a\<lparr>ar_ae := (ar_ae a)[index := ar_dv a], ar_usize := index\<rparr>))"

definition idio_array_shift :: "'v \<Rightarrow> 'v idio_array \<Rightarrow> ('v \<times> 'v idio_array) result" where
  "idio_array_shift S_nil a =
    not_const ''array'' (ar_const a)
      (if ar_usize a < 1 then Inr (S_nil, a\<lparr>ar_usize := 0\<rparr>)
       else bind_result (idio_array_ref_index a 0) (\<lambda>e.
            bind_result
              (fold_result (\<lambda>i a. bind_result (idio_array_ref_index a (int i + 1)) (\<lambda>e.
                 idio_array_insert_index a e (int i))) [0..<ar_usize a - 1] a)
              (\<lambda>a. bind_result (idio_array_pop S_nil a) (\<lambda>(_, a). Inr (e, a)))))"

definition idio_array_unshift :: "'v idio_array \<Rightarrow> 'v \<Rightarrow> 'v idio_array result" where
  "idio_array_unshift a v =
    not_const ''array'' (ar_const a)
      (bind_result
        (fold_result (\<lambda>i a. bind_result (idio_array_ref_index a (int i - 1)) (\<lambda>e.
           idio_array_insert_index a e (int i))) (rev [1..<Suc (ar_usize a)]) a)
        (\<lambda>a. idio_array_insert_index a v 0))"

definition idio_array_top :: "'v \<Rightarrow> 'v idio_array \<Rightarrow> 'v result" where
  "idio_array_top S_nil a =
    (if ar_usize a < 1 then Inr S_nil else idio_array_ref_index a (int (ar_usize a) - 1))"

section \<open>Searching, copying, lists\<close>

function find_loop :: "('v \<Rightarrow> 'v \<Rightarrow> bool) \<Rightarrow> 'v idio_array \<Rightarrow> 'v \<Rightarrow> nat \<Rightarrow> int" where
  "find_loop equal a e index =
    (if index < ar_usize a
     then if equal (ar_ae a ! index) e then int index else find_loop equal a e (Suc index)
     else - 1)"
  by auto
termination by (relation "measure (\<lambda>(equal, a, e, index). ar_usize a - index)") auto

declare find_loop.simps [simp del]

definition idio_array_find :: "('v \<Rightarrow> 'v \<Rightarrow> bool) \<Rightarrow> 'v idio_array \<Rightarrow> 'v \<Rightarrow> int \<Rightarrow> int result" where
  "idio_array_find equal a e index =
    (if ar_usize a = 0 then Inr (- 1)
     else if index < 0 then Inl (Array_bounds_error index (ar_usize a))
     else if int (ar_usize a) \<le> index then Inl (Array_bounds_error index (ar_usize a))
     else Inr (find_loop equal a e (nat index)))"

text \<open>\<^verbatim>\<open>idio_copy\<close> on the elements of a deep copy is an argument.\<close>

definition copy_element :: "('v \<Rightarrow> 'v result) \<Rightarrow> bool \<Rightarrow> 'v idio_array \<Rightarrow> nat \<Rightarrow> 'v idio_array \<Rightarrow> 'v idio_array result" where
  "copy_element idio_copy deep from i to_a =
    bind_result (idio_array_ref_index from (int i)) (\<lambda>e.
    bind_result (if deep then idio_copy e else Inr e) (\<lambda>e. idio_array_insert_index to_a e (int i)))"

definition idio_copy_array :: "('v \<Rightarrow> 'v result) \<Rightarrow> 'v idio_array \<Rightarrow> bool \<Rightarrow> nat \<Rightarrow> 'v idio_array result" where
  "idio_copy_array idio_copy a deep extra =
    fold_result (copy_element idio_copy deep a) [0..<ar_usize a]
      (idio_array_dv (ar_fresh a) (ar_usize a + extra) (ar_dv a))"

text \<open>
  The new block of \<^verbatim>\<open>idio_duplicate_array\<close> is larger than the allocated size the
  array goes on to show.
\<close>

definition idio_duplicate_array ::
  "('v \<Rightarrow> 'v result) \<Rightarrow> 'v idio_array \<Rightarrow> 'v idio_array \<Rightarrow> nat \<Rightarrow> bool \<Rightarrow> 'v idio_array result" where
  "idio_duplicate_array idio_copy a from n deep =
    (let osz = if n \<noteq> 0 then n else ar_usize from;
         a' = if ar_asize a < osz then a\<lparr>ar_ae := map (ar_fresh a) [0..<osz]\<rparr> else a
     in fold_result (copy_element idio_copy deep from) [0..<osz] (a'\<lparr>ar_usize := osz\<rparr>))"

definition idio_array_to_list_from :: "'v idio_array \<Rightarrow> int \<Rightarrow> 'v list result" where
  "idio_array_to_list_from a index =
    fold_result (\<lambda>ai r. map_result (\<lambda>e. e # r) (idio_array_ref_index a ai))
      (rev [index..int (ar_usize a) - 1]) []"

definition idio_array_to_list :: "'v idio_array \<Rightarrow> 'v list result" where
  "idio_array_to_list a = idio_array_to_list_from a 0"

fun list_to_array_loop :: "'v idio_array \<Rightarrow> nat \<Rightarrow> 'v list \<Rightarrow> 'v idio_array result" where
  "list_to_array_loop r li [] = Inr r"
| "list_to_array_loop r li (e # l) =
    bind_result (idio_array_insert_index r e (int li)) (\<lambda>r. list_to_array_loop r (Suc li) l)"

definition idio_list_to_array :: "(nat \<Rightarrow> 'v) \<Rightarrow> 'v \<Rightarrow> 'v list \<Rightarrow> 'v idio_array result" where
  "idio_list_to_array fresh S_false l = list_to_array_loop (idio_array_dv fresh (length l) S_false) 0 l"

section \<open>Well-formed arrays\<close>

text \<open>
  The used cells are within the allocation, there is at least one cell, and a cell
  that is not used holds the default value. \<open>elems a\<close> is the sequence an array
  stands for, \<open>array_of\<close> the array with the elements \<open>xs\<close> and \<open>k\<close> cells to spare.
\<close>

definition array_ok :: "'v idio_array \<Rightarrow> bool" where
  "array_ok a \<longleftrightarrow> length (ar_ae a) = ar_asize a \<and> 0 < ar_asize a \<and> ar_usize a \<le> ar_asize a \<and>
     drop (ar_usize a) (ar_ae a) = replicate (ar_asize a - ar_usize a) (ar_dv a)"

definition elems :: "'v idio_array \<Rightarrow> 'v list" where
  "elems a = take (ar_usize a) (ar_ae a)"

definition array_of :: "bool \<Rightarrow> (nat \<Rightarrow> 'v) \<Rightarrow> 'v \<Rightarrow> 'v list \<Rightarrow> nat \<Rightarrow> 'v idio_array" where
  "array_of c fresh dv xs k =
    \<lparr>ar_const = c, ar_asize = length xs + k, ar_usize = length xs, ar_dv = dv,
     ar_ae = xs @ replicate k dv, ar_fresh = fresh\<rparr>"

lemma array_of_simps [simp]:
  "ar_const (array_of c fresh dv xs k) = c"
  "ar_asize (array_of c fresh dv xs k) = length xs + k"
  "ar_usize (array_of c fresh dv xs k) = length xs"
  "ar_dv (array_of c fresh dv xs k) = dv"
  "ar_ae (array_of c fresh dv xs k) = xs @ replicate k dv"
  "ar_fresh (array_of c fresh dv xs k) = fresh"
  "elems (array_of c fresh dv xs k) = xs"
  by (simp_all add: array_of_def elems_def)

lemma array_ok_array_of [simp]: "array_ok (array_of c fresh dv xs k) \<longleftrightarrow> 0 < length xs + k"
  by (simp add: array_ok_def)

lemma array_ok_cases [consumes 1, case_names array]:
  assumes "array_ok a"
  obtains c fresh dv xs k where "a = array_of c fresh dv xs k" "0 < length xs + k" "xs = elems a"
proof -
  have "ar_ae a = elems a @ replicate (ar_asize a - ar_usize a) (ar_dv a)"
    using assms append_take_drop_id [of "ar_usize a" "ar_ae a"] by (simp add: array_ok_def elems_def)
  moreover have "length (elems a) = ar_usize a" using assms by (simp add: array_ok_def elems_def)
  ultimately have "a = array_of (ar_const a) (ar_fresh a) (ar_dv a) (elems a) (ar_asize a - ar_usize a)"
    using assms by (simp add: array_of_def array_ok_def)
  moreover have "0 < length (elems a) + (ar_asize a - ar_usize a)"
    using assms \<open>length (elems a) = ar_usize a\<close> by (auto simp: array_ok_def)
  ultimately show ?thesis by (intro that [OF _ _ refl])
qed

lemma idio_array_dv_eq [simp]:
  "idio_array_dv fresh n dv = array_of False fresh dv [] (max 1 n)"
  by (auto simp: idio_array_dv_def idio_assign_array_def array_of_def max_def)

lemma idio_resize_array_to_eq [simp]:
  "length xs \<le> n \<Longrightarrow> idio_resize_array_to (array_of False fresh dv xs k) n =
    Inr (array_of False fresh dv xs (n - length xs))"
  by (auto simp: idio_resize_array_to_def not_const_def array_of_def nth_append intro!: nth_equalityI)

text \<open>The number of spare cells after a resize.\<close>

definition resized :: "nat \<Rightarrow> nat \<Rightarrow> nat" where
  "resized n k = (if n + k < 1024 then n + 2 * k else k + 1024)"

lemma idio_resize_array_eq [simp]:
  "idio_resize_array (array_of False fresh dv xs k) = Inr (array_of False fresh dv xs (resized (length xs) k))"
  by (simp add: idio_resize_array_def not_const_def resized_def)

lemma resized_pos: "0 < n + k \<Longrightarrow> k < resized n k"
  by (auto simp: resized_def)

lemma store_cell_update [simp]:
  "i < length xs \<Longrightarrow> store_cell (array_of c fresh dv xs k) v i = array_of c fresh dv (xs[i := v]) k"
  by (simp add: store_cell_def array_of_def list_update_append max_def)

text \<open>A store past the used cells: those between get the default value.\<close>

lemma store_cell_beyond:
  assumes "length xs \<le> i" "i < length xs + k"
  shows "store_cell (array_of c fresh dv xs k) v i =
    array_of c fresh dv (xs @ replicate (i - length xs) dv @ [v]) (k - (i - length xs) - 1)"
proof -
  have "(replicate k dv)[i - length xs := v] =
      replicate (i - length xs) dv @ v # replicate (k - (i - length xs) - 1) dv"
    using assms by (auto simp: nth_append nth_list_update nth_Cons' intro!: nth_equalityI)
  then show ?thesis using assms by (simp add: store_cell_def array_of_def list_update_append)
qed

lemma nat_1_int [simp]: "nat (1 + int j) = Suc j"
  by simp

lemma insert_index_update [simp]:
  "0 \<le> i \<Longrightarrow> i < int (length xs) \<Longrightarrow>
    idio_array_insert_index (array_of False fresh dv xs k) v i = Inr (array_of False fresh dv (xs[nat i := v]) k)"
  by (simp add: idio_array_insert_index_def not_const_def nat_less_iff)

definition spare_push :: "nat \<Rightarrow> nat \<Rightarrow> nat" where
  "spare_push n k = (if k = 0 then resized n 0 - 1 else k - 1)"

lemma insert_index_append [simp]:
  "0 < length xs + k \<Longrightarrow> idio_array_insert_index (array_of False fresh dv xs k) v (int (length xs)) =
    Inr (array_of False fresh dv (xs @ [v]) (spare_push (length xs) k))"
  using store_cell_beyond [of xs "length xs"] resized_pos [of "length xs" k]
  by (auto simp: idio_array_insert_index_def not_const_def spare_push_def)

lemma ref_index_array_of [simp]:
  "0 \<le> i \<Longrightarrow> i < int (length xs) \<Longrightarrow> idio_array_ref_index (array_of c fresh dv xs k) i = Inr (xs ! nat i)"
  by (simp add: idio_array_ref_index_def nth_append nat_less_iff)

lemma idio_array_push_eq [simp]:
  "0 < length xs + k \<Longrightarrow> idio_array_push (array_of False fresh dv xs k) v =
    Inr (array_of False fresh dv (xs @ [v]) (spare_push (length xs) k))"
  by (simp add: idio_array_push_def)

lemma idio_array_pop_eq [simp]:
  "idio_array_pop S_nil (array_of False fresh dv [] k) = Inr (S_nil, array_of False fresh dv [] k)"
  "idio_array_pop S_nil (array_of False fresh dv (xs @ [x]) k) = Inr (x, array_of False fresh dv xs (Suc k))"
  by (simp_all add: idio_array_pop_def not_const_def array_of_def Let_def)

lemma idio_array_top_eq:
  "idio_array_top S_nil (array_of c fresh dv xs k) = Inr (if xs = [] then S_nil else last xs)"
  by (cases xs rule: rev_cases) (auto simp: idio_array_top_def)

lemma idio_array_shift_eq [simp]:
  "idio_array_shift S_nil (array_of False fresh dv [] k) = Inr (S_nil, array_of False fresh dv [] k)"
  "idio_array_shift S_nil (array_of False fresh dv (x # xs) k) = Inr (x, array_of False fresh dv xs (Suc k))"
proof -
  show "idio_array_shift S_nil (array_of False fresh dv [] k) = Inr (S_nil, array_of False fresh dv [] k)"
    by (simp add: idio_array_shift_def not_const_def array_of_def)
  let ?S = "\<lambda>j. array_of False fresh dv (take j xs @ drop j (x # xs)) k"
  let ?f = "\<lambda>i a. bind_result (idio_array_ref_index a (int i + 1)) (\<lambda>e. idio_array_insert_index a e (int i))"
  have "?f j (?S j) = Inr (?S (Suc j))" if "j < length xs" for j
    using that by (simp add: nth_append Suc_nat_eq_nat_zadd1 take_Suc_conv_app_nth drop_Suc nat_add_distrib
        list_update_append Cons_nth_drop_Suc [symmetric])
  then have "fold_result ?f [0..<length xs] (?S 0) = Inr (?S (length xs))"
    by (intro fold_result_upt) simp_all
  moreover have "drop (length xs) (x # xs) = [last (x # xs)]"
    by (cases xs rule: rev_cases) simp_all
  ultimately have "fold_result ?f [0..<length xs] (array_of False fresh dv (x # xs) k) =
      Inr (array_of False fresh dv (xs @ [last (x # xs)]) k)"
    by (simp del: last.simps)
  then show "idio_array_shift S_nil (array_of False fresh dv (x # xs) k) = Inr (x, array_of False fresh dv xs (Suc k))"
    by (simp add: idio_array_shift_def not_const_def)
qed

lemma idio_array_unshift_eq [simp]:
  assumes "0 < length xs + k"
  shows "idio_array_unshift (array_of False fresh dv xs k) v =
    Inr (array_of False fresh dv (v # xs) (spare_push (length xs) k))"
proof (cases xs rule: rev_cases)
  case Nil
  then show ?thesis
    using assms insert_index_append [of "[]" k fresh dv v] by (simp add: idio_array_unshift_def not_const_def)
next
  case (snoc ys y)
  let ?k = "spare_push (length xs) k"
  let ?f = "\<lambda>i a. bind_result (idio_array_ref_index a (int i - 1)) (\<lambda>e. idio_array_insert_index a e (int i))"
  let ?S = "\<lambda>j. array_of False fresh dv (take (Suc j) xs @ drop j xs) ?k"
  have "?f (Suc j) (?S (Suc j)) = Inr (?S j)" if "j < length ys" for j
  proof -
    have xs: "xs = take j xs @ xs ! j # xs ! Suc j # drop (Suc (Suc j)) xs"
    proof -
      have "Suc j < length xs" using that snoc by simp
      then show ?thesis by (simp add: Cons_nth_drop_Suc Suc_lessD)
    qed
    moreover have "length (take j xs) = j" using that snoc by simp
    ultimately obtain us e f rest where "xs = us @ e # f # rest" "length us = j" by blast
    then show ?thesis by (simp add: nth_append list_update_append)
  qed
  then have "fold_result ?f (rev [1..<Suc (length ys)]) (?S (length ys)) = Inr (?S 0)"
    by (rule fold_result_downt)
  then have "fold_result ?f (rev [1..<Suc (length ys)]) (array_of False fresh dv (xs @ [y]) ?k) = Inr (?S 0)"
    using snoc by simp
  moreover have "?f (length xs) (array_of False fresh dv xs k) = Inr (array_of False fresh dv (xs @ [y]) ?k)"
    using insert_index_append [OF assms, of fresh dv y] snoc by (simp add: nth_append)
  moreover have "rev [1..<Suc (length xs)] = length xs # rev [1..<Suc (length ys)]"
    using snoc by simp
  ultimately have "fold_result ?f (rev [1..<Suc (length xs)]) (array_of False fresh dv xs k) = Inr (?S 0)"
    by (simp only: fold_result.simps bind_result_simps)
  then show ?thesis
    using snoc by (cases ys) (simp_all add: idio_array_unshift_def not_const_def del: upt_Suc)
qed

lemma store_args_eq:
  assumes "ar_ae a = us @ ws" "length vs \<le> length ws"
  shows "store_args a (length us) vs = a\<lparr>ar_ae := us @ vs @ drop (length vs) ws\<rparr>"
  using assms
proof (induction vs arbitrary: a us ws)
  case (Cons v vs)
  then obtain w ws' where "ws = w # ws'" by (cases ws) simp_all
  then show ?case
    using Cons.IH [of "a\<lparr>ar_ae := (ar_ae a)[length us := v]\<rparr>" "us @ [v]" ws'] Cons.prems by simp
qed simp

lemma idio_array_push_n_eq:
  assumes "0 < length xs + k"
  shows "\<exists>k'. idio_array_push_n (array_of False fresh dv xs k) vs = Inr (array_of False fresh dv (xs @ vs) k')"
proof -
  have grow: "\<exists>k'. grow_loop need (array_of False fresh dv xs k) = Inr (array_of False fresh dv xs k') \<and>
      need < length xs + k'" if "0 < length xs + k" for need k
    using that
  proof (induction "Suc need - (length xs + k)" arbitrary: k rule: less_induct)
    case less
    show ?case
    proof (cases "length xs + k \<le> need")
      case True
      then show ?thesis
        using less.hyps [of "resized (length xs) k"] resized_pos [OF less.prems] less.prems
        by (subst grow_loop.simps) simp
    next
      case False
      then show ?thesis by (subst grow_loop.simps) auto
    qed
  qed
  from grow [OF assms, of "length xs + length vs"] obtain k'
    where "grow_loop (length xs + length vs) (array_of False fresh dv xs k) = Inr (array_of False fresh dv xs k')"
      and "length vs < k'" by auto
  then have "idio_array_push_n (array_of False fresh dv xs k) vs =
      Inr (array_of False fresh dv (xs @ vs) (k' - length vs))"
    by (simp add: idio_array_push_n_def not_const_def store_args_eq [where us = xs and ws = "replicate k' dv"])
  then show ?thesis ..
qed

text \<open>\<open>find_from p xs n\<close>: the first index from \<open>n\<close> on whose element satisfies \<open>p\<close>, or -1.\<close>

definition find_from :: "('v \<Rightarrow> bool) \<Rightarrow> 'v list \<Rightarrow> nat \<Rightarrow> int" where
  "find_from p xs n = (case List.find (\<lambda>i. p (xs ! i)) [n..<length xs] of Some i \<Rightarrow> int i | None \<Rightarrow> - 1)"

lemma find_loop_eq: "find_loop equal (array_of c fresh dv xs k) e n = find_from (\<lambda>x. equal x e) xs n"
proof (induction "length xs - n" arbitrary: n)
  case 0
  then show ?case by (simp add: find_loop.simps find_from_def)
next
  case (Suc m)
  then have "n < length xs" by simp
  then show ?case using Suc
    by (simp add: find_loop.simps [of _ _ _ n] find_from_def upt_conv_Cons nth_append)
qed

lemma idio_array_to_list_eq [simp]: "idio_array_to_list (array_of c fresh dv xs k) = Inr xs"
proof -
  let ?f = "\<lambda>ai r. map_result (\<lambda>e. e # r) (idio_array_ref_index (array_of c fresh dv xs k) ai)"
  have "fold_result ?f (rev [0..int n - 1]) r = Inr (take n xs @ r)" if "n \<le> length xs" for n r
    using that
  proof (induction n arbitrary: r)
    case (Suc n)
    have "[0..int (Suc n) - 1] = [0..int n - 1] @ [int n]" by (simp add: upto_rec2)
    then show ?case using Suc by (simp add: take_Suc_conv_app_nth)
  qed simp
  from this [of "length xs" "[]"] show ?thesis
    by (simp add: idio_array_to_list_def idio_array_to_list_from_def)
qed

text \<open>Copies: \<open>copied\<close> relates the elements to their copies.\<close>

fun copied :: "('v \<Rightarrow> 'v result) \<Rightarrow> bool \<Rightarrow> 'v list \<Rightarrow> 'v list result" where
  "copied idio_copy deep [] = Inr []"
| "copied idio_copy deep (x # xs) =
    bind_result (if deep then idio_copy x else Inr x) (\<lambda>y. map_result (\<lambda>ys. y # ys) (copied idio_copy deep xs))"

lemma copied_shallow [simp]: "copied idio_copy False xs = Inr xs"
  by (induction xs) simp_all

lemma copied_snoc:
  "copied idio_copy deep (xs @ [x]) =
    bind_result (copied idio_copy deep xs) (\<lambda>ys.
      bind_result (if deep then idio_copy x else Inr x) (\<lambda>y. Inr (ys @ [y])))"
proof (induction xs)
  case (Cons a xs)
  then show ?case
    by (cases "idio_copy a"; cases "copied idio_copy deep xs"; cases "idio_copy x"; cases deep) simp_all
qed (cases "idio_copy x"; cases deep; simp)

lemma copied_length: "copied idio_copy deep xs = Inr ys \<Longrightarrow> length ys = length xs"
  by (induction xs arbitrary: ys) auto

lemma idio_copy_array_eq:
  "idio_copy_array idio_copy (array_of c fresh dv xs k) deep extra =
    map_result (\<lambda>ys. array_of False fresh dv ys (max 1 (length xs + extra) - length xs))
      (copied idio_copy deep xs)"
proof -
  let ?a = "array_of c fresh dv xs k" and ?n = "max 1 (length xs + extra)"
  have "fold_result (copy_element idio_copy deep ?a) [0..<n] (array_of False fresh dv [] ?n) =
      map_result (\<lambda>ys. array_of False fresh dv ys (?n - n)) (copied idio_copy deep (take n xs))"
    if "n \<le> length xs" for n
    using that
  proof (induction n)
    case (Suc n)
    have spare: "spare_push n (?n - n) = ?n - Suc n" using Suc.prems by (auto simp: spare_push_def)
    have len: "length ys = n" if "copied idio_copy deep (take n xs) = Inr ys" for ys
      using copied_length [OF that] Suc.prems by simp
    show ?case
    proof (cases "copied idio_copy deep (take n xs)")
      case (Inr ys)
      have "0 < length ys + (?n - n)" using Suc.prems by simp
      then have "idio_array_insert_index (array_of False fresh dv ys (?n - n)) y (int n) =
          Inr (array_of False fresh dv (ys @ [y]) (?n - Suc n))" for y
        using insert_index_append [of ys "?n - n" fresh dv y] len [OF Inr] spare by simp
      then show ?thesis
        using Suc Inr by (cases "idio_copy (xs ! n)")
          (auto simp: take_Suc_conv_app_nth copied_snoc copy_element_def)
    qed (use Suc in \<open>simp add: take_Suc_conv_app_nth copied_snoc\<close>)
  qed simp
  from this [of "length xs"] show ?thesis
    by (simp add: idio_copy_array_def)
qed

lemma idio_list_to_array_eq:
  "idio_list_to_array fresh S_false l =
    Inr (array_of False fresh S_false l (max 1 (length l) - length l))"
proof -
  have "list_to_array_loop (array_of False fresh dv xs (max 1 n - length xs)) (length xs) l =
      Inr (array_of False fresh dv (xs @ l) (max 1 n - n))" if "length xs + length l = n" for n dv xs
    using that
  proof (induction l arbitrary: xs)
    case (Cons x l)
    have "spare_push (length xs) (max 1 n - length xs) = max 1 n - length (xs @ [x])"
      using Cons.prems by (auto simp: spare_push_def)
    then show ?case using Cons.IH [of "xs @ [x]"] Cons.prems by simp
  qed simp
  from this [of "[]"] show ?thesis by (simp add: idio_list_to_array_def)
qed

text \<open>
  A duplicate. Cells past the used ones keep old values, so only the weaker
  \<open>array_wf\<close> holds of it.
\<close>

definition array_wf :: "'v idio_array \<Rightarrow> bool" where
  "array_wf a \<longleftrightarrow> length (ar_ae a) = ar_asize a \<and> 0 < ar_asize a \<and> ar_usize a \<le> ar_asize a"

lemma array_ok_wf: "array_ok a \<Longrightarrow> array_wf a"
  by (simp add: array_ok_def array_wf_def)

text \<open>What holds after \<open>i\<close> of \<open>m\<close> values have been stored.\<close>

definition duplicating :: "nat \<Rightarrow> nat \<Rightarrow> 'v list \<Rightarrow> 'v idio_array \<Rightarrow> bool" where
  "duplicating m i ys a \<longleftrightarrow> \<not> ar_const a \<and> ar_usize a = m \<and> 0 < ar_asize a \<and> i \<le> ar_asize a \<and>
     (length (ar_ae a) = ar_asize a \<or> ar_asize a < m \<and> length (ar_ae a) = m) \<and> take i (ar_ae a) = ys"

lemma duplicating_insert:
  assumes "duplicating m i ys a" "i < m"
  shows "\<exists>a'. idio_array_insert_index a v (int i) = Inr a' \<and> duplicating m (Suc i) (ys @ [v]) a'"
proof (cases "i < ar_asize a")
  case True
  then show ?thesis using assms
    by (auto simp: duplicating_def idio_array_insert_index_def not_const_def store_cell_def
        take_Suc_conv_app_nth take_update_cancel)
next
  case False
  let ?n = "if ar_asize a < 1024 then 2 * ar_asize a else ar_asize a + 1024"
  from False assms have i: "ar_asize a = i" by (simp add: duplicating_def)
  let ?ae = "map (\<lambda>j. if ar_usize a \<le> j then ar_dv a
      else if j < length (ar_ae a) then ar_ae a ! j else ar_fresh a j) [0..<?n]"
  have n: "i < ?n" using assms i by (auto simp: duplicating_def)
  have "take i ?ae = take i (ar_ae a)"
    using assms i n by (intro nth_equalityI) (auto simp: duplicating_def)
  then have "take (Suc i) (?ae[i := v]) = ys @ [v]"
    using n assms i by (simp add: take_Suc_conv_app_nth take_update_cancel duplicating_def)
  moreover have "idio_array_insert_index a v (int i) =
      Inr (a\<lparr>ar_asize := ?n, ar_ae := ?ae[i := v], ar_usize := max (Suc i) m\<rparr>)"
    using assms i by (simp add: duplicating_def idio_array_insert_index_def not_const_def
        store_cell_def idio_resize_array_def idio_resize_array_to_def)
  ultimately show ?thesis using n assms by (auto simp: duplicating_def)
qed

lemma idio_duplicate_array_eq:
  fixes a :: "'v idio_array"
  assumes a: "array_wf a" "\<not> ar_const a" and n: "n \<le> length xs"
    and ys: "copied idio_copy deep (if n \<noteq> 0 then take n xs else xs) = Inr ys"
  shows "\<exists>a'. idio_duplicate_array idio_copy a (array_of c fresh dv xs k) n deep = Inr a' \<and>
    array_wf a' \<and> elems a' = ys"
proof -
  let ?from = "array_of c fresh dv xs k" and ?m = "if n \<noteq> 0 then n else length xs"
  let ?a = "if ar_asize a < ?m then a\<lparr>ar_ae := map (ar_fresh a) [0..<?m]\<rparr> else a"
  have init: "duplicating ?m 0 [] (?a\<lparr>ar_usize := ?m\<rparr>)"
    using a by (auto simp: duplicating_def array_wf_def)
  have "\<exists>a'. fold_result (copy_element idio_copy deep ?from) [0..<i] (?a\<lparr>ar_usize := ?m\<rparr>) = Inr a' \<and>
      duplicating ?m i ys a'" if "i \<le> ?m" "copied idio_copy deep (take i xs) = Inr ys" for i ys
    using that
  proof (induction i arbitrary: ys)
    case 0
    then show ?case using init by simp
  next
    case (Suc i)
    then have i: "i < length xs" using n by (auto split: if_splits)
    then obtain zs z where zs: "copied idio_copy deep (take i xs) = Inr zs" "ys = zs @ [z]"
      "(if deep then idio_copy (xs ! i) else Inr (xs ! i)) = Inr z"
      using Suc.prems(2) by (auto simp: take_Suc_conv_app_nth copied_snoc split: if_splits)
    with Suc obtain a' where a': "fold_result (copy_element idio_copy deep ?from) [0..<i] (?a\<lparr>ar_usize := ?m\<rparr>) = Inr a'"
      "duplicating ?m i zs a'" by auto
    have "copy_element idio_copy deep ?from i a' = idio_array_insert_index a' z (int i)"
      using zs(3) i by (simp add: copy_element_def)
    moreover obtain b where "idio_array_insert_index a' z (int i) = Inr b" "duplicating ?m (Suc i) (zs @ [z]) b"
      using duplicating_insert [OF a'(2), of z] Suc.prems(1) by auto
    ultimately show ?case using a' zs(2) by simp
  qed
  from this [of ?m ys] ys n show ?thesis
    by (auto simp: idio_duplicate_array_def Let_def duplicating_def array_wf_def elems_def split: if_splits)
qed

section \<open>Any index\<close>

text \<open>
  What \<open>idio_array_insert_index\<close> and \<open>idio_array_ref_index\<close> do for every index: a
  negative one counts from the end; a store is allowed up to the allocated size and
  fills the cells between with the default value.
\<close>

definition padded :: "nat \<Rightarrow> 'v \<Rightarrow> 'v list \<Rightarrow> 'v list" where
  "padded n dv xs = xs @ replicate (n - length xs) dv"

definition insert_seq :: "'v \<Rightarrow> 'v list \<Rightarrow> nat \<Rightarrow> 'v \<Rightarrow> 'v list" where
  "insert_seq dv xs i v = (padded (Suc i) dv xs)[i := v]"

lemma insert_seq_within: "i < length xs \<Longrightarrow> insert_seq dv xs i v = xs[i := v]"
  by (simp add: insert_seq_def padded_def)

lemma insert_seq_beyond: "length xs \<le> i \<Longrightarrow> insert_seq dv xs i v = xs @ replicate (i - length xs) dv @ [v]"
  by (auto simp: insert_seq_def padded_def list_update_append Suc_diff_le replicate_append_same [symmetric])

lemma store_cell_eq:
  assumes "i < length xs + k"
  shows "\<exists>k'. store_cell (array_of c fresh dv xs k) v i = array_of c fresh dv (insert_seq dv xs i v) k'"
proof (cases "i < length xs")
  case True
  then show ?thesis by (auto simp: insert_seq_within)
next
  case False
  then show ?thesis using assms by (auto simp: store_cell_beyond insert_seq_beyond)
qed

lemma insert_index_cases:
  fixes xs :: "'v list" and k :: nat and i :: int
  defines "n \<equiv> int (length xs)"
  assumes "0 < length xs + k"
  shows "i < - n \<Longrightarrow> idio_array_insert_index (array_of False fresh dv xs k) v i =
      Inl (Array_bounds_error i (length xs))"
    and "- n \<le> i \<Longrightarrow> i < 0 \<Longrightarrow> idio_array_insert_index (array_of False fresh dv xs k) v i =
      Inr (array_of False fresh dv (xs[nat (i + n) := v]) k)"
    and "0 \<le> i \<Longrightarrow> i \<le> n + int k \<Longrightarrow> \<exists>k'. idio_array_insert_index (array_of False fresh dv xs k) v i =
      Inr (array_of False fresh dv (insert_seq dv xs (nat i) v) k')"
    and "n + int k < i \<Longrightarrow> idio_array_insert_index (array_of False fresh dv xs k) v i =
      Inl (Array_bounds_error i (length xs + k))"
proof -
  show "i < - n \<Longrightarrow> idio_array_insert_index (array_of False fresh dv xs k) v i =
      Inl (Array_bounds_error i (length xs))"
    and "n + int k < i \<Longrightarrow> idio_array_insert_index (array_of False fresh dv xs k) v i =
      Inl (Array_bounds_error i (length xs + k))"
    by (auto simp: idio_array_insert_index_def not_const_def n_def)
  show "- n \<le> i \<Longrightarrow> i < 0 \<Longrightarrow> idio_array_insert_index (array_of False fresh dv xs k) v i =
      Inr (array_of False fresh dv (xs[nat (i + n) := v]) k)"
    using store_cell_update [of "nat (i + n)" xs False fresh dv k v]
    by (auto simp: idio_array_insert_index_def not_const_def n_def nat_less_iff)
  show "\<exists>k'. idio_array_insert_index (array_of False fresh dv xs k) v i =
      Inr (array_of False fresh dv (insert_seq dv xs (nat i) v) k')" if "0 \<le> i" "i \<le> n + int k"
  proof (cases "i = n + int k")
    case True
    have "nat i < length xs + resized (length xs) k"
      using True resized_pos [OF assms(2)] by (simp add: n_def nat_add_distrib)
    from store_cell_eq [OF this, of False fresh dv v] True that show ?thesis
      by (auto simp: idio_array_insert_index_def not_const_def n_def)
  next
    case False
    then have "nat i < length xs + k" using that by (simp add: n_def nat_less_iff)
    from store_cell_eq [OF this, of False fresh dv v] that False show ?thesis
      by (auto simp: idio_array_insert_index_def not_const_def n_def)
  qed
qed

lemma ref_index_cases:
  "idio_array_ref_index (array_of c fresh dv xs k) i =
    (if 0 \<le> i \<and> i < int (length xs) then Inr (xs ! nat i)
     else if - int (length xs) \<le> i \<and> i < 0 then Inr (xs ! nat (i + int (length xs)))
     else Inl (Array_bounds_error i (length xs)))"
  by (auto simp: idio_array_ref_index_def Let_def nth_append nat_less_iff)

section \<open>The primitives\<close>

text \<open>
  An index argument: a fixnum, an integer bignum, or a real bignum that is an
  integer.
\<close>

definition index_value :: "'c idio_num \<Rightarrow> int comp" where
  "index_value index =
    (case index of Fixnum i \<Rightarrow> ret i
     | Bignum b \<Rightarrow>
         if integer_p b then bignum_C_value b
         else bind_comp (real_to_integer b) (\<lambda>r.
           case r of None \<Rightarrow> raise (Param_type_error ''integer'') | Some bi \<Rightarrow> bignum_C_value bi)
     | _ \<Rightarrow> raise (Param_type_error ''integer''))"

definition array_find_eqp ::
  "('v \<Rightarrow> 'v \<Rightarrow> bool) \<Rightarrow> 'v idio_array \<Rightarrow> 'v \<Rightarrow> 'c idio_num option \<Rightarrow> 'c idio_num comp" where
  "array_find_eqp eqp a v arg =
    bind_comp (case arg of None \<Rightarrow> ret 0 | Some iv \<Rightarrow> index_value iv) (\<lambda>index.
      if index < 0 then raise (Array_length_error index)
      else Some (map_result idio_integer (idio_array_find eqp a v index)))"

definition make_array :: "(nat \<Rightarrow> 'v) \<Rightarrow> 'v \<Rightarrow> 'c idio_num \<Rightarrow> 'v option \<Rightarrow> 'v idio_array comp" where
  "make_array fresh S_false sz arg =
    bind_comp (index_value sz) (\<lambda>alen.
      if alen < 0 then raise (Array_length_error alen)
      else ret ((idio_array_dv fresh (nat alen) (case arg of None \<Rightarrow> S_false | Some dv \<Rightarrow> dv))\<lparr>ar_usize := nat alen\<rparr>))"

text \<open>The \<open>depth\<close> argument of \<^verbatim>\<open>copy-array\<close>: a symbol or something else.\<close>

datatype depth_arg = Depth_symbol string | Depth_other

definition copy_depth :: "depth_arg \<Rightarrow> bool comp" where
  "copy_depth d =
    (case d of Depth_symbol s \<Rightarrow>
       if s = ''deep'' then ret True
       else if s = ''shallow'' then ret False
       else raise (Param_type_error ''deep or shallow'')
     | Depth_other \<Rightarrow> raise (Param_type_error ''symbol''))"

definition copy_array ::
  "('v \<Rightarrow> 'v result) \<Rightarrow> 'v idio_array \<Rightarrow> depth_arg option \<Rightarrow> 'c idio_num option \<Rightarrow> 'v idio_array comp" where
  "copy_array idio_copy orig d ex =
    bind_comp (case d of None \<Rightarrow> ret True | Some d \<Rightarrow> copy_depth d) (\<lambda>deep.
    bind_comp (case ex of None \<Rightarrow> ret 0 | Some n \<Rightarrow> index_value n) (\<lambda>extra.
      if extra < 0 then raise (Array_length_error extra)
      else Some (idio_copy_array idio_copy orig deep (nat extra))))"

definition array_fill :: "'v idio_array \<Rightarrow> 'v \<Rightarrow> 'v idio_array result" where
  "array_fill a fill =
    not_const ''array'' (ar_const a)
      (fold_result (\<lambda>ai a. idio_array_insert_index a fill (int ai)) [0..<idio_array_size a] a)"

definition array_length :: "'v idio_array \<Rightarrow> 'c idio_num comp" where
  "array_length a = idio_fixnum (int (idio_array_size a))"

definition idio_array_ref :: "'v idio_array \<Rightarrow> 'c idio_num \<Rightarrow> 'v comp" where
  "idio_array_ref a index = bind_comp (index_value index) (\<lambda>i. Some (idio_array_ref_index a i))"

text \<open>A user may store at most one past the used cells.\<close>

definition idio_array_set :: "'v idio_array \<Rightarrow> 'c idio_num \<Rightarrow> 'v \<Rightarrow> 'v idio_array comp" where
  "idio_array_set a index v =
    (if ar_const a then raise (Const_param_error ''array'')
     else bind_comp (index_value index) (\<lambda>i.
       let al = int (idio_array_size a)
       in if i < 0
          then if i + al < 0 then raise (Array_bounds_error i (ar_usize a))
               else Some (idio_array_insert_index a v (i + al))
          else if al + 1 \<le> i then raise (Array_bounds_error i (ar_usize a))
          else Some (idio_array_insert_index a v i)))"

text \<open>
  \<^verbatim>\<open>array-for-each-set\<close> and \<^verbatim>\<open>fold-array\<close>: the function they call may change the
  world the array lives in, \<open>'w\<close>, of which \<open>arr\<close> is the array. The length is
  read once.
\<close>

definition array_for_each_set ::
  "('v \<Rightarrow> 'v \<Rightarrow> bool) \<Rightarrow> ('w \<Rightarrow> 'v idio_array) \<Rightarrow> ('c idio_num \<Rightarrow> 'v \<Rightarrow> 'w \<Rightarrow> 'w comp) \<Rightarrow> 'w \<Rightarrow> 'w comp" where
  "array_for_each_set equalp arr func w =
    fold_comp (\<lambda>ai w. bind_comp (Some (idio_array_ref_index (arr w) (int ai))) (\<lambda>v.
      if \<not> equalp v (ar_dv (arr w)) then func (idio_integer (int ai)) v w else ret w))
      [0..<ar_usize (arr w)] w"

definition fold_array ::
  "('w \<Rightarrow> 'v idio_array) \<Rightarrow> ('c idio_num \<Rightarrow> 'v \<Rightarrow> 'v \<Rightarrow> 'w \<Rightarrow> ('v \<times> 'w) comp) \<Rightarrow> 'v \<Rightarrow> 'w \<Rightarrow> ('v \<times> 'w) comp" where
  "fold_array arr func val w =
    fold_comp (\<lambda>ai (val, w). bind_comp (Some (idio_array_ref_index (arr w) (int ai))) (\<lambda>v.
      func (idio_integer (int ai)) v val w))
      [0..<ar_usize (arr w)] (val, w)"

lemma index_value_ints: "num_int n = Some i \<Longrightarrow> \<bar>i\<bar> \<le> INTPTR_MAX \<Longrightarrow> index_value n = ret i"
  by (auto elim!: num_int_cases simp: index_value_def bignum_C_value_bn_of)

text \<open>A real index: it is used when it is an integer of less than 19 digits.\<close>

lemma index_value_real:
  assumes "real_normal r" "\<not> integer_p r"
  shows "index_value (Bignum r) =
    (if 0 \<le> bn_exp r \<and> digits_of (mant r) + bn_exp r \<le> 18 then ret (sval r * 10 ^ nat (bn_exp r))
     else raise (Param_type_error ''integer''))"
proof (cases "0 \<le> bn_exp r \<and> digits_of (mant r) + bn_exp r \<le> 18")
  case True
  have "mant r * 10 ^ nat (bn_exp r) \<le> 10 ^ 18"
  proof (cases "mant r = 0")
    case False
    then have m: "0 < mant r" using real_normalD(2) [OF assms(1)] by simp
    have "0 \<le> digits_of (mant r)" by (simp add: digits_of_def)
    have "mant r * 10 ^ nat (bn_exp r) \<le> 10 ^ nat (digits_of (mant r)) * 10 ^ nat (bn_exp r)"
      using digits_of_bounds(2) [OF m] by (intro mult_right_mono) simp_all
    also have "\<dots> = 10 ^ nat (digits_of (mant r) + bn_exp r)"
      using True \<open>0 \<le> digits_of (mant r)\<close> by (simp add: power_add nat_add_distrib)
    also have "\<dots> \<le> (10 :: int) ^ 18" using True by (intro power_increasing) (simp_all add: nat_le_iff)
    finally show ?thesis .
  qed simp
  then have "\<bar>sval r * 10 ^ nat (bn_exp r)\<bar> \<le> INTPTR_MAX"
    using real_normalD(2) [OF assms(1)] by (auto simp: sval_def abs_mult INTPTR_MAX_def)
  then show ?thesis using assms True by (simp add: index_value_def real_to_integer_normal bignum_C_value_bn_of)
next
  case False
  then show ?thesis using assms by (auto simp: index_value_def real_to_integer_normal)
qed

lemma idio_array_ref_eq:
  assumes "num_int n = Some i" "\<bar>i\<bar> \<le> INTPTR_MAX"
  shows "idio_array_ref (array_of c fresh dv xs k) n =
    (if 0 \<le> i \<and> i < int (length xs) then ret (xs ! nat i)
     else if - int (length xs) \<le> i \<and> i < 0 then ret (xs ! nat (i + int (length xs)))
     else raise (Array_bounds_error i (length xs)))"
  using assms by (simp add: idio_array_ref_def index_value_ints ref_index_cases)

lemma idio_array_set_eq:
  assumes "num_int n = Some i" "\<bar>i\<bar> \<le> INTPTR_MAX" "0 < length xs + k"
  shows "idio_array_set (array_of False fresh dv xs k) n v =
    (if 0 \<le> i \<and> i < int (length xs) then ret (array_of False fresh dv (xs[nat i := v]) k)
     else if - int (length xs) \<le> i \<and> i < 0
     then ret (array_of False fresh dv (xs[nat (i + int (length xs)) := v]) k)
     else if i = int (length xs) then ret (array_of False fresh dv (xs @ [v]) (spare_push (length xs) k))
     else raise (Array_bounds_error i (length xs)))"
  using assms by (auto simp: idio_array_set_def index_value_ints Let_def idio_array_size_def)

lemma make_array_eq:
  assumes "index_value sz = ret n"
  shows "make_array fresh S_false sz arg =
    (if n < 0 then raise (Array_length_error n)
     else ret (array_of False fresh (case arg of None \<Rightarrow> S_false | Some dv \<Rightarrow> dv)
       (replicate (nat n) (case arg of None \<Rightarrow> S_false | Some dv \<Rightarrow> dv)) (if n = 0 then 1 else 0)))"
  using assms by (auto simp: make_array_def array_of_def max_def split: option.splits)

lemma array_fill_eq:
  "array_fill (array_of False fresh dv xs k) v = Inr (array_of False fresh dv (replicate (length xs) v) k)"
proof -
  let ?f = "\<lambda>ai a. idio_array_insert_index a v (int ai)"
  let ?S = "\<lambda>j. array_of False fresh dv (replicate j v @ drop j xs) k"
  have "?f j (?S j) = Inr (?S (Suc j))" if "j < length xs" for j
    using that by (simp add: list_update_append Cons_nth_drop_Suc [symmetric] replicate_app_Cons_same)
  then have "fold_result ?f [0..<length xs] (?S 0) = Inr (?S (length xs))"
    by (intro fold_result_upt) simp_all
  then show ?thesis by (simp add: array_fill_def not_const_def idio_array_size_def)
qed

text \<open>
  With a function that leaves the array alone, \<^verbatim>\<open>fold-array\<close> is the fold over the
  indexed elements.
\<close>

lemma fold_array_pure:
  assumes "arr w = array_of c fresh dv xs k" and "length xs \<le> nat FIXNUM_MAX"
    and "\<And>i v val w'. arr w' = arr w \<Longrightarrow> \<exists>w''. func i v val w' = ret (g i v val, w'') \<and> arr w'' = arr w"
  shows "\<exists>w'. fold_array arr func val w =
    ret (foldl (\<lambda>val (i, v). g (Fixnum (int i)) v val) val (enumerate 0 xs), w') \<and> arr w' = arr w"
proof -
  let ?f = "\<lambda>ai (val, w). bind_comp (Some (idio_array_ref_index (arr w) (int ai))) (\<lambda>v.
      func (idio_integer (int ai)) v val w)"
  have "\<exists>w'. fold_comp ?f [length us..<length us + length vs] (val, u) =
      ret (foldl (\<lambda>val (i, v). g (Fixnum (int i)) v val) val (enumerate (length us) vs), w') \<and> arr w' = arr w"
    if "xs = us @ vs" "arr u = arr w" for us vs val u
    using that
  proof (induction vs arbitrary: us val u)
    case (Cons v vs)
    have "idio_integer (int (length us)) = (Fixnum (int (length us)) :: 'c idio_num)"
      using Cons.prems(1) assms(2) by (simp add: idio_integer_def FIXNUM_bounds)
    moreover obtain u' where "func (Fixnum (int (length us))) v val u = ret (g (Fixnum (int (length us))) v val, u')"
      "arr u' = arr w" using assms(3) [OF Cons.prems(2)] by blast
    ultimately show ?case
      using Cons.IH [of "us @ [v]" u'] Cons.prems assms(1)
      by (simp add: upt_conv_Cons nth_append del: upt_Suc)
  qed simp
  from this [of "[]" xs w val] assms(1) show ?thesis by (simp add: fold_array_def)
qed

section \<open>The array as a double-ended queue\<close>

text \<open>
  What the stack of a thread and other clients rely on: the operations at the two
  ends work on a sequence. \<open>take_out pop n\<close> calls \<open>pop\<close> \<open>n\<close> times.
\<close>

fun take_out :: "('a \<Rightarrow> ('v \<times> 'a) result) \<Rightarrow> nat \<Rightarrow> 'a \<Rightarrow> ('v list \<times> 'a) result" where
  "take_out out 0 a = Inr ([], a)"
| "take_out out (Suc n) a =
    bind_result (out a) (\<lambda>(v, a). map_result (\<lambda>(vs, a). (v # vs, a)) (take_out out n a))"

locale deque =
  fixes ok :: "'a \<Rightarrow> bool" and sq :: "'a \<Rightarrow> 'v list"
    and push :: "'a \<Rightarrow> 'v \<Rightarrow> 'a result" and pop :: "'a \<Rightarrow> ('v \<times> 'a) result"
    and unshift :: "'a \<Rightarrow> 'v \<Rightarrow> 'a result" and shift :: "'a \<Rightarrow> ('v \<times> 'a) result"
  assumes push: "ok a \<Longrightarrow> \<exists>a'. push a v = Inr a' \<and> ok a' \<and> sq a' = sq a @ [v]"
    and pop: "ok a \<Longrightarrow> sq a = vs @ [v] \<Longrightarrow> \<exists>a'. pop a = Inr (v, a') \<and> ok a' \<and> sq a' = vs"
    and unshift: "ok a \<Longrightarrow> \<exists>a'. unshift a v = Inr a' \<and> ok a' \<and> sq a' = v # sq a"
    and shift: "ok a \<Longrightarrow> sq a = v # vs \<Longrightarrow> \<exists>a'. shift a = Inr (v, a') \<and> ok a' \<and> sq a' = vs"
begin

lemma push_all:
  "ok a \<Longrightarrow> \<exists>a'. fold_result (\<lambda>v a. push a v) vs a = Inr a' \<and> ok a' \<and> sq a' = sq a @ vs"
proof (induction vs arbitrary: a)
  case (Cons v vs)
  obtain a1 where "push a v = Inr a1" "ok a1" "sq a1 = sq a @ [v]" using push [OF Cons.prems] by blast
  then show ?case using Cons.IH [of a1] by auto
qed simp

lemma pop_all:
  "ok a \<Longrightarrow> sq a = us @ vs \<Longrightarrow> \<exists>a'. take_out pop (length vs) a = Inr (rev vs, a') \<and> ok a' \<and> sq a' = us"
proof (induction vs arbitrary: a rule: rev_induct)
  case (snoc v vs)
  obtain a1 where "pop a = Inr (v, a1)" "ok a1" "sq a1 = us @ vs"
    using pop [OF snoc.prems(1), of "us @ vs" v] snoc.prems(2) by auto
  then show ?case using snoc.IH [of a1] by auto
qed auto

lemma shift_all:
  "ok a \<Longrightarrow> sq a = us @ vs \<Longrightarrow> \<exists>a'. take_out shift (length us) a = Inr (us, a') \<and> ok a' \<and> sq a' = vs"
proof (induction us arbitrary: a)
  case (Cons u us)
  obtain a1 where "shift a = Inr (u, a1)" "ok a1" "sq a1 = us @ vs"
    using shift [OF Cons.prems(1)] Cons.prems(2) by auto
  then show ?case using Cons.IH [of a1] by auto
qed auto

theorem stack_lifo:
  assumes "ok a"
  shows "\<exists>a1 a2. fold_result (\<lambda>v a. push a v) vs a = Inr a1 \<and>
    take_out pop (length vs) a1 = Inr (rev vs, a2) \<and> ok a2 \<and> sq a2 = sq a"
  using push_all [OF assms, of vs] pop_all by blast

theorem queue_fifo:
  assumes "ok a"
  shows "\<exists>a1 a2. fold_result (\<lambda>v a. push a v) vs a = Inr a1 \<and>
    take_out shift (length (sq a)) a1 = Inr (sq a, a2) \<and> ok a2 \<and> sq a2 = vs"
  using push_all [OF assms, of vs] shift_all by blast

theorem unshift_shift:
  assumes "ok a"
  shows "\<exists>a1 a2. unshift a v = Inr a1 \<and> shift a1 = Inr (v, a2) \<and> ok a2 \<and> sq a2 = sq a"
  using unshift [OF assms, of v] shift by blast

end

definition mutable_ok :: "'v idio_array \<Rightarrow> bool" where
  "mutable_ok a \<longleftrightarrow> array_ok a \<and> \<not> ar_const a"

lemma mutable_ok_cases [consumes 1]:
  assumes "mutable_ok a"
  obtains fresh dv xs k where "a = array_of False fresh dv xs k" "0 < length xs + k" "xs = elems a"
  using assms array_ok_cases unfolding mutable_ok_def by (metis array_of_simps(1))

lemma mutable_ok_array_of [simp]: "mutable_ok (array_of c fresh dv xs k) \<longleftrightarrow> 0 < length xs + k \<and> \<not> c"
  by (simp add: mutable_ok_def)

lemma spare_push_pos: "0 < n + k \<Longrightarrow> 0 < Suc n + spare_push n k"
  by simp

interpretation ad: deque mutable_ok elems idio_array_push "idio_array_pop S_nil" idio_array_unshift "idio_array_shift S_nil"
  for S_nil :: 'v
proof
  fix a :: "'v idio_array" and v
  assume ok: "mutable_ok a"
  then obtain fresh dv xs k where a: "a = array_of False fresh dv xs k" "0 < length xs + k" "xs = elems a"
    by (rule mutable_ok_cases)
  show "\<exists>a'. idio_array_push a v = Inr a' \<and> mutable_ok a' \<and> elems a' = elems a @ [v]"
    and "\<exists>a'. idio_array_unshift a v = Inr a' \<and> mutable_ok a' \<and> elems a' = v # elems a"
    using a(2) by (simp_all add: a(1))
  show "\<exists>a'. idio_array_pop S_nil a = Inr (v, a') \<and> mutable_ok a' \<and> elems a' = vs" if "elems a = vs @ [v]" for vs
    using a that by auto
  show "\<exists>a'. idio_array_shift S_nil a = Inr (v, a') \<and> mutable_ok a' \<and> elems a' = vs" if "elems a = v # vs" for vs
    using a that by auto
qed

end
