(* ===== verification/Vm_State.thy ===== *)
theory Vm_State
  imports Codegen Idio_Array
begin

text \<open>
  The state of the virtual machine: the objects the byte code works with (frames of
  \<^verbatim>\<open>src/src/frame.c\<close>, closures of \<^verbatim>\<open>src/src/closure.c\<close>, modules of
  \<^verbatim>\<open>src/src/module.c\<close>, pairs, continuations), the thread's registers and stack and
  the tables of the execution environments (\<^verbatim>\<open>src/src/vm.c\<close>).

  An object is found by its address in the heap; garbage collection, that reuses
  the addresses nothing refers to, is left out. The stack is the list of its values
  with the top at the end, as the theorems on arrays justify. There is one thread.
\<close>

section \<open>Objects\<close>

text \<open>The size \<^verbatim>\<open>nalloc\<close> of a frame is the length of its arguments.\<close>

record idio_frame =
  fr_next :: idio_value
  fr_nparams :: nat
  fr_args :: "idio_value list"
  fr_xi :: nat
  fr_names :: idio_value
  fr_func :: idio_value
  fr_src_expr :: int

text \<open>
  A closure, with the values its properties are made of: the formals, the
  documentation and the source expression.
\<close>

record idio_closure =
  cl_xi :: nat
  cl_code_pc :: nat
  cl_code_len :: nat
  cl_name :: idio_value
  cl_frame :: idio_value
  cl_env :: idio_value
  cl_sigstr :: idio_value
  cl_docstr :: idio_value
  cl_sei :: nat

text \<open>A primitive's C function is known by a number.\<close>

record idio_primitive =
  pr_arity :: nat
  pr_f :: nat

text \<open>
  The list of seven elements a symbol is bound to (\<^verbatim>\<open>IDIO_SI_*\<close> of
  \<^verbatim>\<open>src/src/evaluate.h\<close>), that is changed in place.
\<close>

record symbol_info =
  si_scope :: idio_value
  si_xi :: int
  si_si :: int
  si_ci :: int
  si_vi :: int
  si_module :: idio_value
  si_desc :: string

record idio_module =
  mo_symbols :: "idio_value \<rightharpoonup> idio_value"
  mo_imports :: "idio_value list"
  mo_exports :: "idio_value list"

text \<open>The stack of a continuation is a copy, or the size of the stack if it is delimited.\<close>

datatype k_stack = K_copy "idio_value list" | K_size nat

record idio_continuation =
  k_xi :: nat
  k_pc :: nat
  k_stack :: k_stack
  k_frame :: idio_value
  k_env :: idio_value
  k_module :: idio_value
  k_delimited :: bool

text \<open>
  The types of the objects whose contents the VM does not look at. A structure type is known
  by its parent, \<open>#n\<close> if it has none, and an instance by its type.
\<close>

datatype obj_type =
    T_symbol | T_keyword | T_string | T_const_string | T_array | T_hash | T_bignum | T_bitset
  | T_other

datatype (plugins only: code size) idio_obj =
    O_frame idio_frame
  | O_closure idio_closure
  | O_primitive idio_primitive
  | O_pair idio_value idio_value
  | O_si symbol_info
  | O_module idio_module
  | O_continuation idio_continuation
  | O_struct_type idio_value
  | O_struct_instance idio_value
  | O_typed obj_type

section \<open>The machine\<close>

text \<open>An execution environment (\<^verbatim>\<open>idio_xenv_t\<close>).\<close>

record xenv =
  xe_byte_code :: "byte list"
  xe_st :: "idio_value list"
  xe_cs :: "idio_value list"
  xe_ch :: "idio_value \<rightharpoonup> nat"
  xe_vt :: "idio_value idio_array"

text \<open>
  The thread (\<^verbatim>\<open>idio_thread_t\<close>), the heap and the next free address, the execution
  environments, the table of modules and the flag \<^verbatim>\<open>idio_command_suppress_rcse\<close>.
\<close>

record vm =
  vm_xi :: nat
  vm_pc :: nat
  vm_stack :: "idio_value list"
  vm_val :: idio_value
  vm_frame :: idio_value
  vm_env :: idio_value
  vm_module :: idio_value
  vm_func :: idio_value
  vm_reg1 :: idio_value
  vm_reg2 :: idio_value
  vm_expr :: idio_value
  vm_rcse :: idio_value
  vm_heap :: "nat \<rightharpoonup> idio_obj"
  vm_next :: nat
  vm_xenvs :: "xenv list"
  vm_modules :: "idio_value \<rightharpoonup> idio_value"

text \<open>A C function on the machine: a raised condition leaves the state it was raised in.\<close>

type_synonym 'a vmm = "vm \<Rightarrow> 'a result \<times> vm"

definition ret_vm :: "'a \<Rightarrow> 'a vmm" where
  "ret_vm x s = (Inr x, s)"

definition fail_vm :: "idio_error \<Rightarrow> 'a vmm" where
  "fail_vm e s = (Inl e, s)"

definition bind_vm :: "'a vmm \<Rightarrow> ('a \<Rightarrow> 'b vmm) \<Rightarrow> 'b vmm" where
  "bind_vm m f s = (case m s of (Inl e, s) \<Rightarrow> (Inl e, s) | (Inr x, s) \<Rightarrow> f x s)"

definition seq_vm :: "'a vmm \<Rightarrow> 'b vmm \<Rightarrow> 'b vmm" where
  "seq_vm m n = bind_vm m (\<lambda>_. n)"

definition get_vm :: "(vm \<Rightarrow> 'a) \<Rightarrow> 'a vmm" where
  "get_vm f s = (Inr (f s), s)"

text \<open>The state itself is looked at.\<close>

definition look_vm :: "(vm \<Rightarrow> 'a vmm) \<Rightarrow> 'a vmm" where
  "look_vm k s = k s s"

definition upd_vm :: "(vm \<Rightarrow> vm) \<Rightarrow> unit vmm" where
  "upd_vm f s = (Inr (), f s)"

definition lift_vm :: "'a result \<Rightarrow> 'a vmm" where
  "lift_vm r s = (r, s)"

lemma vm_simps [simp]:
  "ret_vm x s = (Inr x, s)"
  "fail_vm e s = (Inl e, s)"
  "get_vm f s = (Inr (f s), s)"
  "upd_vm g s = (Inr (), g s)"
  "lift_vm r s = (r, s)"
  "look_vm k s = k s s"
  by (simp_all add: ret_vm_def fail_vm_def get_vm_def upd_vm_def lift_vm_def look_vm_def)

lemma bind_vm_Inr: "m s = (Inr x, s') \<Longrightarrow> bind_vm m f s = f x s'"
  by (simp add: bind_vm_def)

lemma bind_vm_Inl: "m s = (Inl e, s') \<Longrightarrow> bind_vm m f s = (Inl e, s')"
  by (simp add: bind_vm_def)

lemma seq_vm_Inr: "m s = (Inr x, s') \<Longrightarrow> seq_vm m n s = n s'"
  by (simp add: seq_vm_def bind_vm_def)

lemma bind_vm_simps [simp]:
  "bind_vm (ret_vm x) f s = f x s"
  "bind_vm (fail_vm e) f s = (Inl e, s)"
  "bind_vm (get_vm g) f s = f (g s) s"
  "bind_vm (upd_vm h) k s = k () (h s)"
  by (simp_all add: bind_vm_def)

lemma lift_bind_vm [simp]:
  "bind_vm (lift_vm (Inr x)) f s = f x s"
  "bind_vm (lift_vm (Inl e)) f s = (Inl e, s)"
  by (simp_all add: bind_vm_def)

lemma seq_vm_simps [simp]:
  "seq_vm (ret_vm x) n s = n s"
  "seq_vm (fail_vm e) n s = (Inl e, s)"
  "seq_vm (upd_vm h) n s = n (h s)"
  by (simp_all add: seq_vm_def)

lemma bind_vm_assoc: "bind_vm (bind_vm m f) g s = bind_vm m (\<lambda>x. bind_vm (f x) g) s"
  by (simp add: bind_vm_def split: prod.splits sum.splits)

end
