(* ===== verification/Vm_Frame.thy ===== *)
theory Vm_Frame
  imports Vm_State
begin

text \<open>
  Frames, pairs and closures (\<^verbatim>\<open>src/src/frame.c\<close>, \<^verbatim>\<open>src/src/closure.c\<close> and
  \<^verbatim>\<open>idio_vm_listify\<close> of \<^verbatim>\<open>src/src/vm.c\<close>). A type assertion does nothing in
  the release build: a field of an object that is of another type, or that is no object, is
  memory outside an allocation.
\<close>

section \<open>The heap\<close>

definition obj_at :: "vm \<Rightarrow> idio_value \<Rightarrow> idio_obj option" where
  "obj_at s v = (case v of V_pointer a \<Rightarrow> vm_heap s a | _ \<Rightarrow> None)"

text \<open>An object does not depend on the registers, the stack and the tables.\<close>

lemma obj_at_upd [simp]:
  "obj_at (vm_xi_update g_xi s) v = obj_at s v"
  "obj_at (vm_pc_update g_pc s) v = obj_at s v"
  "obj_at (vm_stack_update g_stack s) v = obj_at s v"
  "obj_at (vm_val_update g_val s) v = obj_at s v"
  "obj_at (vm_frame_update g_frame s) v = obj_at s v"
  "obj_at (vm_env_update g_env s) v = obj_at s v"
  "obj_at (vm_module_update g_module s) v = obj_at s v"
  "obj_at (vm_func_update g_func s) v = obj_at s v"
  "obj_at (vm_reg1_update g_reg1 s) v = obj_at s v"
  "obj_at (vm_reg2_update g_reg2 s) v = obj_at s v"
  "obj_at (vm_expr_update g_expr s) v = obj_at s v"
  "obj_at (vm_rcse_update g_rcse s) v = obj_at s v"
  "obj_at (vm_next_update g_next s) v = obj_at s v"
  "obj_at (vm_xenvs_update g_xenvs s) v = obj_at s v"
  "obj_at (vm_modules_update g_modules s) v = obj_at s v"
  by (simp_all add: obj_at_def split: idio_value.splits)

text \<open>\<^verbatim>\<open>idio_gc_get\<close>: objects start at multiples of four.\<close>

definition idio_gc_get :: "idio_obj \<Rightarrow> idio_value vmm" where
  "idio_gc_get ob s =
    (Inr (V_pointer (vm_next s)), s\<lparr>vm_heap := (vm_heap s)(vm_next s \<mapsto> ob), vm_next := vm_next s + 4\<rparr>)"

definition set_obj :: "idio_value \<Rightarrow> idio_obj \<Rightarrow> unit vmm" where
  "set_obj v ob s =
    (case v of V_pointer a \<Rightarrow> (Inr (), s\<lparr>vm_heap := (vm_heap s)(a \<mapsto> ob)\<rparr>) | _ \<Rightarrow> (Inl Segmentation_fault, s))"

definition the_frame :: "idio_value \<Rightarrow> idio_frame vmm" where
  "the_frame v s = (case obj_at s v of Some (O_frame f) \<Rightarrow> (Inr f, s) | _ \<Rightarrow> (Inl Segmentation_fault, s))"

definition the_pair :: "idio_value \<Rightarrow> (idio_value \<times> idio_value) vmm" where
  "the_pair v s = (case obj_at s v of Some (O_pair h t) \<Rightarrow> (Inr (h, t), s) | _ \<Rightarrow> (Inl Segmentation_fault, s))"

definition the_closure :: "idio_value \<Rightarrow> idio_closure vmm" where
  "the_closure v s = (case obj_at s v of Some (O_closure c) \<Rightarrow> (Inr c, s) | _ \<Rightarrow> (Inl Segmentation_fault, s))"

definition the_primitive :: "idio_value \<Rightarrow> idio_primitive vmm" where
  "the_primitive v s =
    (case obj_at s v of Some (O_primitive p) \<Rightarrow> (Inr p, s) | _ \<Rightarrow> (Inl Segmentation_fault, s))"

definition idio_isa_frame :: "vm \<Rightarrow> idio_value \<Rightarrow> bool" where
  "idio_isa_frame s v \<longleftrightarrow> (case obj_at s v of Some (O_frame _) \<Rightarrow> True | _ \<Rightarrow> False)"

definition idio_isa_pair :: "vm \<Rightarrow> idio_value \<Rightarrow> bool" where
  "idio_isa_pair s v \<longleftrightarrow> (case obj_at s v of Some (O_pair _ _) \<Rightarrow> True | Some (O_si _) \<Rightarrow> True | _ \<Rightarrow> False)"

definition idio_isa_module :: "vm \<Rightarrow> idio_value \<Rightarrow> bool" where
  "idio_isa_module s v \<longleftrightarrow> (case obj_at s v of Some (O_module _) \<Rightarrow> True | _ \<Rightarrow> False)"

definition idio_isa_closure :: "vm \<Rightarrow> idio_value \<Rightarrow> bool" where
  "idio_isa_closure s v \<longleftrightarrow> (case obj_at s v of Some (O_closure _) \<Rightarrow> True | _ \<Rightarrow> False)"

definition idio_isa_primitive :: "vm \<Rightarrow> idio_value \<Rightarrow> bool" where
  "idio_isa_primitive s v \<longleftrightarrow> (case obj_at s v of Some (O_primitive _) \<Rightarrow> True | _ \<Rightarrow> False)"

definition idio_isa_function :: "vm \<Rightarrow> idio_value \<Rightarrow> bool" where
  "idio_isa_function s v \<longleftrightarrow> idio_isa_closure s v \<or> idio_isa_primitive s v"

definition idio_isa_continuation :: "vm \<Rightarrow> idio_value \<Rightarrow> bool" where
  "idio_isa_continuation s v \<longleftrightarrow> (case obj_at s v of Some (O_continuation _) \<Rightarrow> True | _ \<Rightarrow> False)"

lemma isa_upd [simp]:
  "idio_isa_frame (vm_xi_update g_xi s) v = idio_isa_frame s v"
  "idio_isa_frame (vm_pc_update g_pc s) v = idio_isa_frame s v"
  "idio_isa_frame (vm_stack_update g_stack s) v = idio_isa_frame s v"
  "idio_isa_frame (vm_val_update g_val s) v = idio_isa_frame s v"
  "idio_isa_frame (vm_frame_update g_frame s) v = idio_isa_frame s v"
  "idio_isa_frame (vm_env_update g_env s) v = idio_isa_frame s v"
  "idio_isa_frame (vm_module_update g_module s) v = idio_isa_frame s v"
  "idio_isa_frame (vm_func_update g_func s) v = idio_isa_frame s v"
  "idio_isa_frame (vm_reg1_update g_reg1 s) v = idio_isa_frame s v"
  "idio_isa_frame (vm_reg2_update g_reg2 s) v = idio_isa_frame s v"
  "idio_isa_frame (vm_expr_update g_expr s) v = idio_isa_frame s v"
  "idio_isa_frame (vm_rcse_update g_rcse s) v = idio_isa_frame s v"
  "idio_isa_frame (vm_next_update g_next s) v = idio_isa_frame s v"
  "idio_isa_frame (vm_xenvs_update g_xenvs s) v = idio_isa_frame s v"
  "idio_isa_frame (vm_modules_update g_modules s) v = idio_isa_frame s v"
  "idio_isa_pair (vm_xi_update g_xi s) v = idio_isa_pair s v"
  "idio_isa_pair (vm_pc_update g_pc s) v = idio_isa_pair s v"
  "idio_isa_pair (vm_stack_update g_stack s) v = idio_isa_pair s v"
  "idio_isa_pair (vm_val_update g_val s) v = idio_isa_pair s v"
  "idio_isa_pair (vm_frame_update g_frame s) v = idio_isa_pair s v"
  "idio_isa_pair (vm_env_update g_env s) v = idio_isa_pair s v"
  "idio_isa_pair (vm_module_update g_module s) v = idio_isa_pair s v"
  "idio_isa_pair (vm_func_update g_func s) v = idio_isa_pair s v"
  "idio_isa_pair (vm_reg1_update g_reg1 s) v = idio_isa_pair s v"
  "idio_isa_pair (vm_reg2_update g_reg2 s) v = idio_isa_pair s v"
  "idio_isa_pair (vm_expr_update g_expr s) v = idio_isa_pair s v"
  "idio_isa_pair (vm_rcse_update g_rcse s) v = idio_isa_pair s v"
  "idio_isa_pair (vm_next_update g_next s) v = idio_isa_pair s v"
  "idio_isa_pair (vm_xenvs_update g_xenvs s) v = idio_isa_pair s v"
  "idio_isa_pair (vm_modules_update g_modules s) v = idio_isa_pair s v"
  "idio_isa_module (vm_xi_update g_xi s) v = idio_isa_module s v"
  "idio_isa_module (vm_pc_update g_pc s) v = idio_isa_module s v"
  "idio_isa_module (vm_stack_update g_stack s) v = idio_isa_module s v"
  "idio_isa_module (vm_val_update g_val s) v = idio_isa_module s v"
  "idio_isa_module (vm_frame_update g_frame s) v = idio_isa_module s v"
  "idio_isa_module (vm_env_update g_env s) v = idio_isa_module s v"
  "idio_isa_module (vm_module_update g_module s) v = idio_isa_module s v"
  "idio_isa_module (vm_func_update g_func s) v = idio_isa_module s v"
  "idio_isa_module (vm_reg1_update g_reg1 s) v = idio_isa_module s v"
  "idio_isa_module (vm_reg2_update g_reg2 s) v = idio_isa_module s v"
  "idio_isa_module (vm_expr_update g_expr s) v = idio_isa_module s v"
  "idio_isa_module (vm_rcse_update g_rcse s) v = idio_isa_module s v"
  "idio_isa_module (vm_next_update g_next s) v = idio_isa_module s v"
  "idio_isa_module (vm_xenvs_update g_xenvs s) v = idio_isa_module s v"
  "idio_isa_module (vm_modules_update g_modules s) v = idio_isa_module s v"
  "idio_isa_closure (vm_xi_update g_xi s) v = idio_isa_closure s v"
  "idio_isa_closure (vm_pc_update g_pc s) v = idio_isa_closure s v"
  "idio_isa_closure (vm_stack_update g_stack s) v = idio_isa_closure s v"
  "idio_isa_closure (vm_val_update g_val s) v = idio_isa_closure s v"
  "idio_isa_closure (vm_frame_update g_frame s) v = idio_isa_closure s v"
  "idio_isa_closure (vm_env_update g_env s) v = idio_isa_closure s v"
  "idio_isa_closure (vm_module_update g_module s) v = idio_isa_closure s v"
  "idio_isa_closure (vm_func_update g_func s) v = idio_isa_closure s v"
  "idio_isa_closure (vm_reg1_update g_reg1 s) v = idio_isa_closure s v"
  "idio_isa_closure (vm_reg2_update g_reg2 s) v = idio_isa_closure s v"
  "idio_isa_closure (vm_expr_update g_expr s) v = idio_isa_closure s v"
  "idio_isa_closure (vm_rcse_update g_rcse s) v = idio_isa_closure s v"
  "idio_isa_closure (vm_next_update g_next s) v = idio_isa_closure s v"
  "idio_isa_closure (vm_xenvs_update g_xenvs s) v = idio_isa_closure s v"
  "idio_isa_closure (vm_modules_update g_modules s) v = idio_isa_closure s v"
  "idio_isa_primitive (vm_xi_update g_xi s) v = idio_isa_primitive s v"
  "idio_isa_primitive (vm_pc_update g_pc s) v = idio_isa_primitive s v"
  "idio_isa_primitive (vm_stack_update g_stack s) v = idio_isa_primitive s v"
  "idio_isa_primitive (vm_val_update g_val s) v = idio_isa_primitive s v"
  "idio_isa_primitive (vm_frame_update g_frame s) v = idio_isa_primitive s v"
  "idio_isa_primitive (vm_env_update g_env s) v = idio_isa_primitive s v"
  "idio_isa_primitive (vm_module_update g_module s) v = idio_isa_primitive s v"
  "idio_isa_primitive (vm_func_update g_func s) v = idio_isa_primitive s v"
  "idio_isa_primitive (vm_reg1_update g_reg1 s) v = idio_isa_primitive s v"
  "idio_isa_primitive (vm_reg2_update g_reg2 s) v = idio_isa_primitive s v"
  "idio_isa_primitive (vm_expr_update g_expr s) v = idio_isa_primitive s v"
  "idio_isa_primitive (vm_rcse_update g_rcse s) v = idio_isa_primitive s v"
  "idio_isa_primitive (vm_next_update g_next s) v = idio_isa_primitive s v"
  "idio_isa_primitive (vm_xenvs_update g_xenvs s) v = idio_isa_primitive s v"
  "idio_isa_primitive (vm_modules_update g_modules s) v = idio_isa_primitive s v"
  "idio_isa_continuation (vm_xi_update g_xi s) v = idio_isa_continuation s v"
  "idio_isa_continuation (vm_pc_update g_pc s) v = idio_isa_continuation s v"
  "idio_isa_continuation (vm_stack_update g_stack s) v = idio_isa_continuation s v"
  "idio_isa_continuation (vm_val_update g_val s) v = idio_isa_continuation s v"
  "idio_isa_continuation (vm_frame_update g_frame s) v = idio_isa_continuation s v"
  "idio_isa_continuation (vm_env_update g_env s) v = idio_isa_continuation s v"
  "idio_isa_continuation (vm_module_update g_module s) v = idio_isa_continuation s v"
  "idio_isa_continuation (vm_func_update g_func s) v = idio_isa_continuation s v"
  "idio_isa_continuation (vm_reg1_update g_reg1 s) v = idio_isa_continuation s v"
  "idio_isa_continuation (vm_reg2_update g_reg2 s) v = idio_isa_continuation s v"
  "idio_isa_continuation (vm_expr_update g_expr s) v = idio_isa_continuation s v"
  "idio_isa_continuation (vm_rcse_update g_rcse s) v = idio_isa_continuation s v"
  "idio_isa_continuation (vm_next_update g_next s) v = idio_isa_continuation s v"
  "idio_isa_continuation (vm_xenvs_update g_xenvs s) v = idio_isa_continuation s v"
  "idio_isa_continuation (vm_modules_update g_modules s) v = idio_isa_continuation s v"
  "idio_isa_function (vm_xi_update g_xi s) v = idio_isa_function s v"
  "idio_isa_function (vm_pc_update g_pc s) v = idio_isa_function s v"
  "idio_isa_function (vm_stack_update g_stack s) v = idio_isa_function s v"
  "idio_isa_function (vm_val_update g_val s) v = idio_isa_function s v"
  "idio_isa_function (vm_frame_update g_frame s) v = idio_isa_function s v"
  "idio_isa_function (vm_env_update g_env s) v = idio_isa_function s v"
  "idio_isa_function (vm_module_update g_module s) v = idio_isa_function s v"
  "idio_isa_function (vm_func_update g_func s) v = idio_isa_function s v"
  "idio_isa_function (vm_reg1_update g_reg1 s) v = idio_isa_function s v"
  "idio_isa_function (vm_reg2_update g_reg2 s) v = idio_isa_function s v"
  "idio_isa_function (vm_expr_update g_expr s) v = idio_isa_function s v"
  "idio_isa_function (vm_rcse_update g_rcse s) v = idio_isa_function s v"
  "idio_isa_function (vm_next_update g_next s) v = idio_isa_function s v"
  "idio_isa_function (vm_xenvs_update g_xenvs s) v = idio_isa_function s v"
  "idio_isa_function (vm_modules_update g_modules s) v = idio_isa_function s v"
  by (simp_all add: idio_isa_function_def idio_isa_frame_def idio_isa_pair_def idio_isa_module_def idio_isa_closure_def idio_isa_primitive_def idio_isa_continuation_def)

definition idio_pair :: "idio_value \<Rightarrow> idio_value \<Rightarrow> idio_value vmm" where
  "idio_pair h t = idio_gc_get (O_pair h t)"

fun idio_list :: "idio_value list \<Rightarrow> idio_value \<Rightarrow> idio_value vmm" where
  "idio_list [] t = ret_vm t"
| "idio_list (v # vs) t = bind_vm (idio_list vs t) (idio_pair v)"

section \<open>Frames\<close>

text \<open>
  The size of a frame and an index into it are a C \<^verbatim>\<open>int\<close> (\<^verbatim>\<open>idio_fi_t\<close>), to which the numbers of
  the machine, of 64 bits, are converted. A negative size is more memory than \<^verbatim>\<open>malloc\<close> gives
  and ends the process; for none a byte beyond the memory is written.
\<close>

definition idio_fi :: "nat \<Rightarrow> int" where
  "idio_fi n = wrap32 (int n)"

lemma idio_fi_id [simp]: "n < 2147483648 \<Longrightarrow> idio_fi n = int n"
  by (simp add: idio_fi_def wrap32_id)

definition idio_frame_allocate :: "nat \<Rightarrow> idio_value vmm" where
  "idio_frame_allocate arityp1 =
    (if idio_fi arityp1 < 0 then fail_vm (Process_exit 134)
     else if idio_fi arityp1 = 0 then fail_vm Segmentation_fault
     else idio_gc_get (O_frame
       \<lparr>fr_next = idio_S_nil, fr_nparams = nat (idio_fi arityp1) - 1,
        fr_args = replicate (nat (idio_fi arityp1) - 1) idio_S_undef @ [idio_S_nil],
        fr_xi = 0, fr_names = idio_S_nil, fr_func = idio_S_nil, fr_src_expr = - 1\<rparr>))"

text \<open>\<^verbatim>\<open>IDIO_FRAME_ARGS (f, i)\<close>, read and assigned to.\<close>

definition frame_arg :: "idio_frame \<Rightarrow> nat \<Rightarrow> idio_value vmm" where
  "frame_arg f i = (if i < length (fr_args f) then ret_vm (fr_args f ! i) else fail_vm Segmentation_fault)"

definition IDIO_FRAME_ARGS :: "idio_value \<Rightarrow> nat \<Rightarrow> idio_value vmm" where
  "IDIO_FRAME_ARGS fo i = bind_vm (the_frame fo) (\<lambda>f. frame_arg f i)"

definition set_IDIO_FRAME_ARGS :: "idio_value \<Rightarrow> nat \<Rightarrow> idio_value \<Rightarrow> unit vmm" where
  "set_IDIO_FRAME_ARGS fo i v =
    bind_vm (the_frame fo) (\<lambda>f.
      if i < length (fr_args f) then set_obj fo (O_frame (f\<lparr>fr_args := (fr_args f)[i := v]\<rparr>))
      else fail_vm Segmentation_fault)"

fun frame_up :: "nat \<Rightarrow> idio_value \<Rightarrow> idio_value vmm" where
  "frame_up 0 fo = ret_vm fo"
| "frame_up (Suc d) fo = bind_vm (the_frame fo) (\<lambda>f. frame_up d (fr_next f))"

text \<open>The check of the bound does not see a negative index.\<close>

definition idio_frame_fetch :: "idio_value \<Rightarrow> nat \<Rightarrow> nat \<Rightarrow> idio_value vmm" where
  "idio_frame_fetch fo d i =
    bind_vm (frame_up d fo) (\<lambda>fo. bind_vm (the_frame fo) (\<lambda>f.
      if int (length (fr_args f)) \<le> idio_fi i then fail_vm (Coding_error ''frame index is out of range'')
      else if idio_fi i < 0 then fail_vm Segmentation_fault
      else frame_arg f (nat (idio_fi i))))"

definition idio_frame_update :: "idio_value \<Rightarrow> nat \<Rightarrow> nat \<Rightarrow> idio_value \<Rightarrow> unit vmm" where
  "idio_frame_update fo d i v =
    bind_vm (frame_up d fo) (\<lambda>fo. bind_vm (the_frame fo) (\<lambda>f.
      if int (length (fr_args f)) \<le> idio_fi i then fail_vm (Coding_error ''frame index is out of range'')
      else if idio_fi i < 0 then fail_vm Segmentation_fault
      else set_IDIO_FRAME_ARGS fo (nat (idio_fi i)) v))"

text \<open>
  \<^verbatim>\<open>idio_frame\<close>: the arguments are given as the elements of the list. A frame for
  the condition handlers and continuations.
\<close>

fun store_frame_args :: "idio_value \<Rightarrow> nat \<Rightarrow> idio_value list \<Rightarrow> unit vmm" where
  "store_frame_args fo i [] = ret_vm ()"
| "store_frame_args fo i (v # vs) = seq_vm (set_IDIO_FRAME_ARGS fo i v) (store_frame_args fo (i + 1) vs)"

definition idio_frame :: "idio_value \<Rightarrow> idio_value list \<Rightarrow> idio_value vmm" where
  "idio_frame next args =
    look_vm (\<lambda>s.
      if next \<noteq> idio_S_nil \<and> \<not> idio_isa_frame s next then fail_vm (Param_type_error ''frame'')
      else bind_vm (idio_frame_allocate (length args + 1)) (\<lambda>fo.
        bind_vm (the_frame fo) (\<lambda>f.
        seq_vm (set_obj fo (O_frame (f\<lparr>fr_next := next\<rparr>)))
          (seq_vm (store_frame_args fo 0 args) (ret_vm fo)))))"

text \<open>\<^verbatim>\<open>idio_vm_reset_thread\<close> of the error branch sends the thread to the \<^verbatim>\<open>FINISH\<close> instruction.\<close>

definition idio_link_frame :: "idio_value \<Rightarrow> idio_value \<Rightarrow> idio_value vmm" where
  "idio_link_frame f1 f2 =
    look_vm (\<lambda>s.
      if \<not> idio_isa_frame s f2
      then seq_vm (upd_vm (vm_pc_update (\<lambda>_. idio_vm_FINISH_pc))) (fail_vm (Param_type_error ''frame''))
      else bind_vm (the_frame f2) (\<lambda>f. seq_vm (set_obj f2 (O_frame (f\<lparr>fr_next := f1\<rparr>))) (ret_vm f2)))"

definition idio_extend_frame :: "idio_value \<Rightarrow> nat \<Rightarrow> unit vmm" where
  "idio_extend_frame fo nalloc =
    bind_vm (the_frame fo) (\<lambda>f.
      let oalloc = length (fr_args f)
      in if int (fr_nparams f) + 1 = idio_fi nalloc then ret_vm ()
         else if idio_fi nalloc < int oalloc then ret_vm ()
         else set_obj fo (O_frame (f\<lparr>fr_args := fr_args f @ replicate (nat (idio_fi nalloc) - oalloc) idio_S_undef\<rparr>)))"

text \<open>The loop of \<^verbatim>\<open>idio_frame_args_as_list_from\<close>: pairs are made from the last argument to the first.\<close>

fun args_list_loop :: "idio_frame \<Rightarrow> nat \<Rightarrow> nat \<Rightarrow> idio_value \<Rightarrow> idio_value vmm" where
  "args_list_loop f from 0 r = ret_vm r"
| "args_list_loop f from (Suc i) r =
    (if i < from then ret_vm r
     else bind_vm (frame_arg f i) (\<lambda>a. bind_vm (idio_pair a r) (args_list_loop f from i)))"

definition idio_frame_args_as_list_from :: "idio_value \<Rightarrow> nat \<Rightarrow> idio_value vmm" where
  "idio_frame_args_as_list_from frame from =
    bind_vm (the_frame frame) (\<lambda>f.
      bind_vm (frame_arg f (fr_nparams f)) (\<lambda>r. args_list_loop f from (fr_nparams f) r))"

text \<open>
  \<^verbatim>\<open>idio_vm_listify\<close>: the arguments from \<open>arity\<close> on become a list. The index runs down
  from the number of arguments, so a larger arity is never met.
\<close>

fun listify_loop :: "idio_value \<Rightarrow> nat \<Rightarrow> nat \<Rightarrow> idio_value \<Rightarrow> unit vmm" where
  "listify_loop frame arity index result =
    (if arity = index then set_IDIO_FRAME_ARGS frame arity result
     else case index of 0 \<Rightarrow> fail_vm Segmentation_fault
       | Suc i \<Rightarrow> bind_vm (IDIO_FRAME_ARGS frame i) (\<lambda>a. bind_vm (idio_pair a result) (listify_loop frame arity i)))"

declare listify_loop.simps [simp del]

definition idio_vm_listify :: "idio_value \<Rightarrow> nat \<Rightarrow> unit vmm" where
  "idio_vm_listify frame arity =
    bind_vm (the_frame frame) (\<lambda>f. listify_loop frame arity (fr_nparams f) idio_S_nil)"

section \<open>Closures\<close>

definition idio_toplevel_closure ::
  "nat \<Rightarrow> nat \<Rightarrow> nat \<Rightarrow> idio_value \<Rightarrow> idio_value \<Rightarrow> idio_value \<Rightarrow> idio_value \<Rightarrow> idio_value \<Rightarrow> nat \<Rightarrow> idio_value vmm" where
  "idio_toplevel_closure xi code_pc code_len frame env name sigstr docstr sei =
    idio_gc_get (O_closure
      \<lparr>cl_xi = xi, cl_code_pc = code_pc, cl_code_len = code_len, cl_name = name, cl_frame = frame, cl_env = env,
       cl_sigstr = sigstr, cl_docstr = docstr, cl_sei = sei\<rparr>)"

definition idio_closure :: "idio_value \<Rightarrow> idio_value \<Rightarrow> idio_value vmm" where
  "idio_closure cl frame =
    bind_vm (the_closure cl) (\<lambda>c. idio_gc_get (O_closure (c\<lparr>cl_frame := frame\<rparr>)))"

end
