(* ===== verification/Vm_Tables.thy ===== *)
theory Vm_Tables
  imports Vm_Frame
begin

text \<open>
  The tables of an execution environment (\<^verbatim>\<open>idio_vm_symbols_ref\<close>,
  \<^verbatim>\<open>idio_vm_constants_*\<close>, \<^verbatim>\<open>idio_vm_values_*\<close> of \<^verbatim>\<open>src/src/vm.c\<close>) and the symbols
  of the modules (\<^verbatim>\<open>src/src/module.c\<close>).

  The first environment holds the values of all variables; in another one the
  table of values holds, for a symbol, the index of its value in the first, or 0 as
  long as that is not known.
\<close>

section \<open>What the machine is given\<close>

text \<open>
  The symbols and modules the C code names, and the C functions that are not part
  of the model: a primitive's function by its number, copying a value, the
  expansion of a path, running a command, the function of a generic function,
  calling a function from C and installing expanders and operators.
\<close>

record vm_ctx =
  cx_S_toplevel :: idio_value
  cx_S_predef :: idio_value
  cx_S_dynamic :: idio_value
  cx_S_environ :: idio_value
  cx_S_computed :: idio_value
  cx_Idio_module :: idio_value
  cx_operator_module :: idio_value
  cx_split_name :: "idio_value \<Rightarrow> (idio_value \<times> idio_value) option"
  cx_primitive :: "nat \<Rightarrow> idio_value list \<Rightarrow> idio_value vmm"
  cx_copy_deep :: "idio_value \<Rightarrow> idio_value vmm"
  cx_path_expand :: "idio_value \<Rightarrow> idio_value vmm"
  cx_command :: "idio_value \<Rightarrow> idio_value vmm"
  cx_generic_proc :: "vm \<Rightarrow> idio_value \<Rightarrow> idio_value option"
  cx_invoke_C :: "idio_value list \<Rightarrow> idio_value vmm"
  cx_install_expander :: "nat \<Rightarrow> idio_value \<Rightarrow> idio_value \<Rightarrow> unit vmm"
  cx_install_infix_operator :: "nat \<Rightarrow> idio_value \<Rightarrow> idio_value \<Rightarrow> nat \<Rightarrow> unit vmm"
  cx_install_postfix_operator :: "nat \<Rightarrow> idio_value \<Rightarrow> idio_value \<Rightarrow> nat \<Rightarrow> unit vmm"
  cx_set_symbol_value :: "nat \<Rightarrow> idio_value \<Rightarrow> idio_value \<Rightarrow> idio_value \<Rightarrow> unit vmm"
  cx_interactive :: bool

section \<open>The tables\<close>

text \<open>\<^verbatim>\<open>idio_array_ref_index\<close> on the list of the elements: a negative index counts from the end.\<close>

definition array_ref :: "'a list \<Rightarrow> int \<Rightarrow> 'a result" where
  "array_ref xs index =
    (let i = if index < 0 then index + int (length xs) else index
     in if i < 0 then Inl (Array_bounds_error index (length xs))
        else if int (length xs) \<le> i then Inl (Array_bounds_error i (length xs))
        else Inr (xs ! nat i))"

definition the_xenv :: "nat \<Rightarrow> xenv vmm" where
  "the_xenv xi s = (if xi < length (vm_xenvs s) then Inr (vm_xenvs s ! xi) else Inl Segmentation_fault, s)"

definition set_xenv :: "nat \<Rightarrow> xenv \<Rightarrow> unit vmm" where
  "set_xenv xi e = upd_vm (\<lambda>s. s\<lparr>vm_xenvs := (vm_xenvs s)[xi := e]\<rparr>)"

text \<open>\<^verbatim>\<open>IDIO_FIXNUM_VAL\<close> of a value: of another value it is the bits above the tag.\<close>

definition fixnum_of :: "idio_value \<Rightarrow> int" where
  "fixnum_of v = (case v of V_fixnum i \<Rightarrow> i | _ \<Rightarrow> IDIO_FIXNUM_VAL (encode_value v))"

definition idio_vm_symbols_ref :: "nat \<Rightarrow> nat \<Rightarrow> idio_value vmm" where
  "idio_vm_symbols_ref xi si =
    bind_vm (the_xenv xi) (\<lambda>e.
      bind_vm (lift_vm (array_ref (xe_st e) (int si))) (\<lambda>fci. lift_vm (array_ref (xe_cs e) (fixnum_of fci))))"

definition idio_vm_extend_constants :: "nat \<Rightarrow> idio_value \<Rightarrow> nat vmm" where
  "idio_vm_extend_constants xi v =
    bind_vm (the_xenv xi) (\<lambda>e.
      let ci = length (xe_cs e); e = e\<lparr>xe_cs := xe_cs e @ [v]\<rparr>
      in seq_vm (set_xenv xi (if v \<noteq> idio_S_nil then e\<lparr>xe_ch := (xe_ch e)(v \<mapsto> ci)\<rparr> else e)) (ret_vm ci))"

definition idio_vm_constants_ref :: "nat \<Rightarrow> nat \<Rightarrow> idio_value vmm" where
  "idio_vm_constants_ref xi ci = bind_vm (the_xenv xi) (\<lambda>e. lift_vm (array_ref (xe_cs e) (int ci)))"

definition idio_vm_constants_lookup :: "nat \<Rightarrow> idio_value \<Rightarrow> nat option vmm" where
  "idio_vm_constants_lookup xi name =
    bind_vm (the_xenv xi) (\<lambda>e. ret_vm (if name \<noteq> idio_S_nil then xe_ch e name else find_eqp (xe_cs e) name 0))"

definition idio_vm_constants_lookup_or_extend :: "nat \<Rightarrow> idio_value \<Rightarrow> nat vmm" where
  "idio_vm_constants_lookup_or_extend xi name =
    bind_vm (idio_vm_constants_lookup xi name) (\<lambda>gci.
      case gci of Some ci \<Rightarrow> ret_vm ci | None \<Rightarrow> idio_vm_extend_constants xi name)"

text \<open>A new value of the first environment is also a new symbol of it, that has no name.\<close>

definition idio_vm_extend_values :: "nat \<Rightarrow> nat vmm" where
  "idio_vm_extend_values xi =
    bind_vm (the_xenv xi) (\<lambda>e.
      let i = ar_usize (xe_vt e)
      in bind_vm (lift_vm (idio_array_push (xe_vt e) idio_S_undef)) (\<lambda>vt.
        let e = e\<lparr>xe_vt := vt\<rparr>
        in seq_vm (set_xenv xi (if xi = 0 then e\<lparr>xe_st := xe_st e @ [idio_S_false]\<rparr> else e)) (ret_vm i)))"

definition is_struct_instance :: "vm \<Rightarrow> idio_value \<Rightarrow> bool" where
  "is_struct_instance s v \<longleftrightarrow> (case obj_at s v of Some (O_struct_instance _) \<Rightarrow> True | _ \<Rightarrow> False)"

definition idio_vm_values_ref :: "vm_ctx \<Rightarrow> nat \<Rightarrow> nat \<Rightarrow> idio_value vmm" where
  "idio_vm_values_ref cx xi vi =
    (if vi \<noteq> 0
     then bind_vm (the_xenv xi) (\<lambda>e. bind_vm (lift_vm (idio_array_ref_index (xe_vt e) (int vi))) (\<lambda>v.
       bind_vm (get_vm (\<lambda>s. is_struct_instance s v)) (\<lambda>b. if b then cx_path_expand cx v else ret_vm v)))
     else ret_vm idio_S_undef)"

definition idio_vm_values_gref :: "vm_ctx \<Rightarrow> nat \<Rightarrow> nat \<Rightarrow> idio_value vmm" where
  "idio_vm_values_gref cx xi vi =
    (if vi \<noteq> 0
     then if xi \<noteq> 0
          then bind_vm (idio_vm_values_ref cx xi vi) (\<lambda>fgvi. idio_vm_values_ref cx 0 (u64 (fixnum_of fgvi)))
          else idio_vm_values_ref cx xi vi
     else ret_vm idio_S_undef)"

text \<open>The index is \<^verbatim>\<open>size_t\<close>; the parameter of \<^verbatim>\<open>idio_array_insert_index\<close> is signed.\<close>

definition idio_vm_values_set :: "nat \<Rightarrow> nat \<Rightarrow> idio_value \<Rightarrow> unit vmm" where
  "idio_vm_values_set xi vi v =
    bind_vm (the_xenv xi) (\<lambda>e.
      bind_vm (lift_vm (idio_array_insert_index (xe_vt e) v (int vi))) (\<lambda>vt. set_xenv xi (e\<lparr>xe_vt := vt\<rparr>)))"

text \<open>The index of a symbol's value as the instructions read it from the table of values.\<close>

definition value_index :: "nat \<Rightarrow> nat \<Rightarrow> nat vmm" where
  "value_index xi si =
    bind_vm (the_xenv xi) (\<lambda>e. bind_vm (lift_vm (idio_array_ref_index (xe_vt e) (int si))) (\<lambda>fgvi.
      ret_vm (u64 (fixnum_of fgvi))))"

section \<open>Modules\<close>

definition the_module :: "idio_value \<Rightarrow> idio_module vmm" where
  "the_module v s = (case obj_at s v of Some (O_module m) \<Rightarrow> (Inr m, s) | _ \<Rightarrow> (Inl Segmentation_fault, s))"

definition the_si :: "idio_value \<Rightarrow> symbol_info vmm" where
  "the_si v s = (case obj_at s v of Some (O_si i) \<Rightarrow> (Inr i, s) | _ \<Rightarrow> (Inl Segmentation_fault, s))"

definition idio_module_set_symbol :: "idio_value \<Rightarrow> idio_value \<Rightarrow> idio_value \<Rightarrow> unit vmm" where
  "idio_module_set_symbol symbol v mo =
    bind_vm (the_module mo) (\<lambda>m. set_obj mo (O_module (m\<lparr>mo_symbols := (mo_symbols m)(symbol \<mapsto> v)\<rparr>)))"

text \<open>\<open>idio_S_false\<close> stands for no result.\<close>

definition idio_module_find_symbol_recurse_imports ::
  "vm_ctx \<Rightarrow> idio_value \<Rightarrow> idio_value \<Rightarrow> idio_value vmm" where
  "idio_module_find_symbol_recurse_imports cx symbol im =
    bind_vm (the_module im) (\<lambda>m.
      case mo_symbols m symbol of
        Some si \<Rightarrow> ret_vm (if im = cx_Idio_module cx \<or> symbol \<in> set (mo_exports m) then si else idio_S_false)
      | None \<Rightarrow> ret_vm idio_S_false)"

text \<open>
  The loop over the imports: the first that exports the symbol with a value. If the
  module itself has the symbol with no value, its entry is given the index of the value.
\<close>

fun import_loop :: "vm_ctx \<Rightarrow> idio_value \<Rightarrow> idio_value \<Rightarrow> idio_value \<Rightarrow> idio_value list \<Rightarrow> (bool \<times> idio_value) vmm" where
  "import_loop cx symbol mo si_cm [] = ret_vm (False, si_cm)"
| "import_loop cx symbol mo si_cm (im # ims) =
    bind_vm (get_vm (\<lambda>s. idio_isa_module s im)) (\<lambda>b.
      if \<not> b then import_loop cx symbol mo si_cm ims
      else bind_vm (idio_module_find_symbol_recurse_imports cx symbol im) (\<lambda>si_mi.
        if si_mi = idio_S_false then import_loop cx symbol mo si_cm ims
        else bind_vm (the_si si_mi) (\<lambda>i.
          if 0 < si_vi i
          then if si_cm = idio_S_false
               then seq_vm (idio_module_set_symbol symbol si_mi mo) (ret_vm (True, si_mi))
               else bind_vm (the_si si_cm) (\<lambda>c.
                 seq_vm (set_obj si_cm (O_si (c\<lparr>si_vi := si_vi i\<rparr>))) (ret_vm (True, si_cm)))
          else import_loop cx symbol mo si_cm ims)))"

text \<open>The module an argument names: a module or the name of one.\<close>

definition module_arg :: "idio_value \<Rightarrow> idio_value vmm" where
  "module_arg m_or_n =
    look_vm (\<lambda>s.
      if idio_isa_module s m_or_n then ret_vm m_or_n
      else if obj_at s m_or_n = Some (O_typed T_symbol)
      then case vm_modules s m_or_n of None \<Rightarrow> fail_vm Symbol_unbound_error | Some mo \<Rightarrow> ret_vm mo
      else fail_vm (Param_type_error ''module|symbol''))"

definition own_symbol :: "idio_value \<Rightarrow> idio_value \<Rightarrow> idio_value vmm" where
  "own_symbol symbol mo =
    bind_vm (the_module mo) (\<lambda>m. ret_vm (case mo_symbols m symbol of None \<Rightarrow> idio_S_false | Some si \<Rightarrow> si))"

text \<open>
  \<^verbatim>\<open>idio_module_direct_reference\<close> of a name \<^verbatim>\<open>M/S\<close>, that \<open>cx_split_name\<close> takes apart at
  its last slash: the symbol of a module that exports it. Its lookup in that module does
  not recurse, and since \<^verbatim>\<open>S\<close> holds no slash a missing \<^verbatim>\<open>S\<close> is no direct reference itself.
\<close>

definition idio_module_direct_reference :: "vm_ctx \<Rightarrow> idio_value \<Rightarrow> idio_value vmm" where
  "idio_module_direct_reference cx name =
    (case cx_split_name cx name of
       None \<Rightarrow> ret_vm idio_S_false
     | Some (m_sym, s_sym) \<Rightarrow>
        bind_vm (get_vm (\<lambda>s. vm_modules s m_sym)) (\<lambda>mo.
          case mo of None \<Rightarrow> ret_vm idio_S_false
          | Some mo \<Rightarrow> bind_vm (the_module mo) (\<lambda>m.
              if s_sym \<notin> set (mo_exports m) then ret_vm idio_S_false
              else bind_vm (own_symbol s_sym mo) (\<lambda>si.
                if si = idio_S_false then ret_vm idio_S_false
                else bind_vm (the_si si) (\<lambda>i.
                  idio_gc_get (O_si (i\<lparr>si_module := mo, si_desc := ''idio_module_direct_reference''\<rparr>)))))))"

text \<open>An entry without a value is looked for again when the search may recurse.\<close>

definition found_in :: "vm_ctx \<Rightarrow> nat \<Rightarrow> symbol_info \<Rightarrow> bool" where
  "found_in cx recurse i \<longleftrightarrow>
    \<not> ((si_scope i = cx_S_toplevel cx \<or> si_scope i = cx_S_environ cx \<or> si_scope i = cx_S_dynamic cx) \<and>
       si_vi i = 0 \<and> recurse \<noteq> 0)"

definition idio_module_find_symbol_recurse ::
  "vm_ctx \<Rightarrow> idio_value \<Rightarrow> idio_value \<Rightarrow> nat \<Rightarrow> idio_value vmm" where
  "idio_module_find_symbol_recurse cx symbol m_or_n recurse =
    bind_vm (module_arg m_or_n) (\<lambda>mo.
    bind_vm (if recurse < 2 then own_symbol symbol mo else ret_vm idio_S_false) (\<lambda>si_cm.
    bind_vm (if si_cm = idio_S_false then ret_vm False
             else bind_vm (the_si si_cm) (\<lambda>i. ret_vm (found_in cx recurse i))) (\<lambda>found.
    bind_vm (if \<not> found \<and> recurse \<noteq> 0
             then bind_vm (the_module mo) (\<lambda>m. import_loop cx symbol mo si_cm (mo_imports m))
             else ret_vm (found, si_cm)) (\<lambda>(found, si_cm).
    if found then ret_vm si_cm
    else bind_vm (idio_module_direct_reference cx symbol) (\<lambda>si.
      if si = idio_S_false then ret_vm si_cm
      else bind_vm (the_si si) (\<lambda>i.
        if si_vi i \<noteq> 0 then seq_vm (idio_module_set_symbol symbol si mo) (ret_vm si) else ret_vm si_cm))))))"

definition idio_module_find_symbol :: "vm_ctx \<Rightarrow> idio_value \<Rightarrow> idio_value \<Rightarrow> idio_value vmm" where
  "idio_module_find_symbol cx symbol m_or_n = idio_module_find_symbol_recurse cx symbol m_or_n 0"

end
