(* ===== verification/Vm_Stack.thy ===== *)
theory Vm_Stack
  imports Vm_Tables
begin

text \<open>
  What the virtual machine keeps on its stack (\<^verbatim>\<open>src/src/vm.c\<close>,
  \<^verbatim>\<open>src/src/continuation.c\<close>): saved registers, the bindings of dynamic and
  environ variables, traps, escapers and aborts, each found by a marker, and the continuations
  that copy it.
\<close>

section \<open>Push, pop and markers\<close>

definition STACK_PUSH :: "idio_value \<Rightarrow> unit vmm" where
  "STACK_PUSH v = upd_vm (\<lambda>s. s\<lparr>vm_stack := vm_stack s @ [v]\<rparr>)"

fun push_n :: "idio_value list \<Rightarrow> unit vmm" where
  "push_n [] = ret_vm ()"
| "push_n (v # vs) = seq_vm (STACK_PUSH v) (push_n vs)"

definition STACK_POP :: "idio_value vmm" where
  "STACK_POP s =
    (if vm_stack s = [] then (Inr idio_S_nil, s)
     else (Inr (last (vm_stack s)), s\<lparr>vm_stack := butlast (vm_stack s)\<rparr>))"

definition stack_ref :: "int \<Rightarrow> idio_value vmm" where
  "stack_ref i = bind_vm (get_vm vm_stack) (\<lambda>stack. lift_vm (array_ref stack i))"

text \<open>\<open>scan_down stack mark n\<close>: the last index below \<open>n\<close> that holds the marker, or -1.\<close>

fun scan_down :: "idio_value list \<Rightarrow> idio_value \<Rightarrow> nat \<Rightarrow> int" where
  "scan_down stack mark 0 = - 1"
| "scan_down stack mark (Suc i) = (if stack ! i = mark then int i else scan_down stack mark i)"

text \<open>A starting index of 0 means the top.\<close>

definition idio_vm_find_stack_marker :: "idio_value list \<Rightarrow> idio_value \<Rightarrow> int \<Rightarrow> int result" where
  "idio_vm_find_stack_marker stack mark from =
    (let sp = int (length stack) - 1
     in if sp < 0 then Inr sp
        else if from \<noteq> 0
        then if from < 0 \<or> sp < from then Inl (Coding_error ''find-stack-marker: from out of range'')
             else Inr (scan_down stack mark (Suc (nat from)))
        else Inr (scan_down stack mark (length stack)))"

definition find_marker :: "idio_value \<Rightarrow> int vmm" where
  "find_marker mark = bind_vm (get_vm vm_stack) (\<lambda>stack. lift_vm (idio_vm_find_stack_marker stack mark 0))"

text \<open>
  The other mode of \<^verbatim>\<open>idio_vm_find_stack_marker\<close>: of the traps above index 0 the one
  whose next trap is the highest.
\<close>

fun max_trap_loop :: "idio_value list \<Rightarrow> nat \<Rightarrow> int \<Rightarrow> int \<Rightarrow> int result" where
  "max_trap_loop stack 0 mx max_next = Inr mx"
| "max_trap_loop stack (Suc i) mx max_next =
    (if stack ! Suc i = idio_SM_trap
     then bind_result (array_ref stack (int (Suc i) - 3)) (\<lambda>v.
       if fixnum_of v > max_next then max_trap_loop stack i (int (Suc i)) (fixnum_of v)
       else max_trap_loop stack i mx max_next)
     else max_trap_loop stack i mx max_next)"

definition find_max_trap :: "int vmm" where
  "find_max_trap =
    bind_vm (get_vm vm_stack) (\<lambda>stack.
      if stack = [] then ret_vm (- 1) else lift_vm (max_trap_loop stack (length stack - 1) 0 0))"

section \<open>Saved registers\<close>

definition idio_vm_preserve_state :: "unit vmm" where
  "idio_vm_preserve_state =
    look_vm (\<lambda>s. push_n [vm_frame s, vm_env s, idio_SM_preserve_state])"

definition idio_vm_preserve_all_state :: "unit vmm" where
  "idio_vm_preserve_all_state =
    seq_vm idio_vm_preserve_state
      (look_vm (\<lambda>s.
        push_n [vm_reg1 s, vm_reg2 s, vm_expr s, vm_func s, vm_val s, idio_SM_preserve_all_state]))"

text \<open>An environment that is no module ends the run at the \<^verbatim>\<open>FINISH\<close> instruction.\<close>

definition idio_vm_restore_state :: "unit vmm" where
  "idio_vm_restore_state =
    bind_vm STACK_POP (\<lambda>marker.
      if marker \<noteq> idio_SM_preserve_state
      then seq_vm (STACK_PUSH marker) (fail_vm (Vm_panic ''iv_restore_state: unexpected stack marker''))
      else bind_vm STACK_POP (\<lambda>env.
        seq_vm (upd_vm (vm_env_update (\<lambda>_. env)))
          (bind_vm (get_vm (\<lambda>s. env \<noteq> idio_S_nil \<and> \<not> idio_isa_module s env)) (\<lambda>bad.
            if bad then upd_vm (vm_pc_update (\<lambda>_. idio_vm_FINISH_pc))
            else bind_vm STACK_POP (\<lambda>fr. upd_vm (vm_frame_update (\<lambda>_. fr)))))))"

definition invokable :: "vm_ctx \<Rightarrow> vm \<Rightarrow> idio_value \<Rightarrow> bool" where
  "invokable cx s v \<longleftrightarrow>
    idio_isa_function s v \<or> idio_isa_continuation s v \<or> cx_generic_proc cx s v \<noteq> None \<or>
    (\<exists>t\<in>{T_string, T_const_string, T_symbol}. obj_at s v = Some (O_typed t))"

definition idio_vm_restore_all_state :: "vm_ctx \<Rightarrow> unit vmm" where
  "idio_vm_restore_all_state cx =
    bind_vm STACK_POP (\<lambda>marker.
      if marker \<noteq> idio_SM_preserve_all_state
      then seq_vm (STACK_PUSH marker) (fail_vm (Vm_panic ''iv-restore-all-state: unexpected stack marker''))
      else bind_vm STACK_POP (\<lambda>v. seq_vm (upd_vm (vm_val_update (\<lambda>_. v)))
        (bind_vm STACK_POP (\<lambda>f. seq_vm (upd_vm (vm_func_update (\<lambda>_. f)))
          (bind_vm (get_vm (\<lambda>s. \<not> cx_interactive cx \<and> \<not> invokable cx s f)) (\<lambda>bad.
            if bad then seq_vm (push_n [f, v, marker]) (fail_vm (Param_value_error ''VM/RESTORE'' ''func''))
            else bind_vm STACK_POP (\<lambda>e. seq_vm (upd_vm (vm_expr_update (\<lambda>_. e)))
              (bind_vm STACK_POP (\<lambda>r2. seq_vm (upd_vm (vm_reg2_update (\<lambda>_. r2)))
                (bind_vm STACK_POP (\<lambda>r1. seq_vm (upd_vm (vm_reg1_update (\<lambda>_. r1)))
                  idio_vm_restore_state)))))))))))"

section \<open>Dynamic and environ variables\<close>

text \<open>
  The two kinds differ in their markers and in the condition raised. A binding on
  the stack is the index of the next one, the value, the variable's index and the marker.
\<close>

definition push_binding :: "idio_value \<Rightarrow> nat \<Rightarrow> idio_value \<Rightarrow> unit vmm" where
  "push_binding mark gvi v =
    bind_vm (find_marker mark) (\<lambda>sp.
      push_n [V_fixnum (if 3 \<le> sp then sp else - 1), v, V_fixnum (int gvi), mark])"

definition pop_binding :: "idio_value \<Rightarrow> string \<Rightarrow> unit vmm" where
  "pop_binding mark msg =
    bind_vm STACK_POP (\<lambda>marker.
      if marker \<noteq> mark then fail_vm (Vm_panic msg)
      else seq_vm STACK_POP (seq_vm STACK_POP (seq_vm STACK_POP (ret_vm ()))))"

text \<open>
  The loop along the bindings: the position of the marker of the variable's binding, or
  \<open>None\<close> if there is none. Nothing changes on the way, so a loop that looks at more
  positions than the stack has looks at one again and does not end.
\<close>

fun binding_loop :: "nat \<Rightarrow> idio_value list \<Rightarrow> nat \<Rightarrow> int \<Rightarrow> int option result" where
  "binding_loop 0 stack gvi sp = Inl Diverges"
| "binding_loop (Suc fuel) stack gvi sp =
    (if 3 \<le> sp
     then bind_result (array_ref stack (sp - 1)) (\<lambda>dvi.
       if fixnum_of dvi = int gvi then Inr (Some sp)
       else bind_result (array_ref stack (sp - 3)) (\<lambda>n. binding_loop fuel stack gvi (fixnum_of n)))
     else Inr None)"

definition find_binding :: "idio_value \<Rightarrow> nat \<Rightarrow> int option vmm" where
  "find_binding mark gvi =
    bind_vm (find_marker mark) (\<lambda>sp. bind_vm (get_vm vm_stack) (\<lambda>stack.
      lift_vm (binding_loop (length stack + 2) stack gvi sp)))"

text \<open>The optional default is the head of the C function's last argument.\<close>

definition binding_ref ::
  "vm_ctx \<Rightarrow> idio_value \<Rightarrow> idio_error \<Rightarrow> nat \<Rightarrow> idio_value option \<Rightarrow> idio_value vmm" where
  "binding_ref cx mark unbound gvi dflt =
    bind_vm (find_binding mark gvi) (\<lambda>b.
    bind_vm (case b of Some sp \<Rightarrow> stack_ref (sp - 2) | None \<Rightarrow> idio_vm_values_ref cx 0 gvi) (\<lambda>v.
      if v = idio_S_undef then (case dflt of None \<Rightarrow> fail_vm unbound | Some d \<Rightarrow> ret_vm d) else ret_vm v))"

definition binding_set :: "idio_value \<Rightarrow> nat \<Rightarrow> idio_value \<Rightarrow> unit vmm" where
  "binding_set mark gvi v =
    bind_vm (find_binding mark gvi) (\<lambda>b.
      case b of Some sp \<Rightarrow> upd_vm (\<lambda>s. s\<lparr>vm_stack := (vm_stack s)[nat (sp - 2) := v]\<rparr>)
      | None \<Rightarrow> idio_vm_values_set 0 gvi v)"

definition idio_vm_push_dynamic :: "nat \<Rightarrow> idio_value \<Rightarrow> unit vmm" where
  "idio_vm_push_dynamic = push_binding idio_SM_dynamic"

definition idio_vm_pop_dynamic :: "unit vmm" where
  "idio_vm_pop_dynamic = pop_binding idio_SM_dynamic ''iv-pop-dynamic: unexpected stack marker''"

definition idio_vm_dynamic_ref :: "vm_ctx \<Rightarrow> nat \<Rightarrow> idio_value option \<Rightarrow> idio_value vmm" where
  "idio_vm_dynamic_ref cx gvi = binding_ref cx idio_SM_dynamic (Dynamic_unbound_error gvi) gvi"

definition idio_vm_dynamic_set :: "nat \<Rightarrow> idio_value \<Rightarrow> unit vmm" where
  "idio_vm_dynamic_set = binding_set idio_SM_dynamic"

definition idio_vm_push_environ :: "nat \<Rightarrow> idio_value \<Rightarrow> unit vmm" where
  "idio_vm_push_environ = push_binding idio_SM_environ"

definition idio_vm_pop_environ :: "unit vmm" where
  "idio_vm_pop_environ = pop_binding idio_SM_environ ''iv-pop-environ: unexpected stack marker''"

definition idio_vm_environ_ref :: "vm_ctx \<Rightarrow> nat \<Rightarrow> idio_value option \<Rightarrow> idio_value vmm" where
  "idio_vm_environ_ref cx gvi = binding_ref cx idio_SM_environ (Environ_unbound_error gvi) gvi"

definition idio_vm_environ_set :: "nat \<Rightarrow> idio_value \<Rightarrow> unit vmm" where
  "idio_vm_environ_set = binding_set idio_SM_environ"

section \<open>Computed variables\<close>

definition idio_vm_computed_iref :: "vm_ctx \<Rightarrow> idio_value \<Rightarrow> idio_value vmm" where
  "idio_vm_computed_iref cx gns =
    look_vm (\<lambda>s.
      case obj_at s gns of
        Some (O_pair getter setter) \<Rightarrow>
          if idio_isa_function s getter then cx_invoke_C cx [getter]
          else fail_vm (Computed_error ''no get accessor'')
      | _ \<Rightarrow> fail_vm (Computed_error ''no get/set accessors''))"

definition idio_vm_computed_iset :: "vm_ctx \<Rightarrow> idio_value \<Rightarrow> idio_value \<Rightarrow> idio_value vmm" where
  "idio_vm_computed_iset cx gns v =
    look_vm (\<lambda>s.
      case obj_at s gns of
        Some (O_pair getter setter) \<Rightarrow>
          if idio_isa_function s setter then cx_invoke_C cx [setter, v]
          else fail_vm (Computed_error ''no set accessor'')
      | _ \<Rightarrow> fail_vm (Computed_error ''no get/set accessors''))"

definition idio_vm_computed_define :: "nat \<Rightarrow> nat \<Rightarrow> idio_value \<Rightarrow> unit vmm" where
  "idio_vm_computed_define xi gvi v = idio_vm_values_set xi gvi v"

section \<open>Traps and escapers\<close>

text \<open>A trap is the index of the next trap, the condition type, the handler and the marker.\<close>

definition idio_vm_push_trap :: "idio_value \<Rightarrow> idio_value \<Rightarrow> int \<Rightarrow> unit vmm" where
  "idio_vm_push_trap handler fgci next =
    bind_vm (get_vm (\<lambda>s. idio_isa_function s handler)) (\<lambda>b.
      if \<not> b then fail_vm (Param_type_error ''function'')
      else bind_vm (find_marker idio_SM_trap) (\<lambda>tsp.
        let tsp = (if next \<noteq> 0 then next else tsp)
        in push_n [V_fixnum (if 1 \<le> tsp then tsp else - 1), fgci, handler, idio_SM_trap]))"

definition idio_vm_pop_trap :: "unit vmm" where
  "idio_vm_pop_trap = pop_binding idio_SM_trap ''iv-pop-trap: unexpected stack marker''"

text \<open>An escaper is the counter to go on at, the frame, the label and the marker.\<close>

definition idio_vm_push_escaper :: "idio_value \<Rightarrow> nat \<Rightarrow> unit vmm" where
  "idio_vm_push_escaper fgci offset =
    look_vm (\<lambda>s.
      push_n [V_fixnum (int (vm_pc s + offset + 1)), vm_frame s, fgci, idio_SM_escaper])"

definition idio_vm_pop_escaper :: "unit vmm" where
  "idio_vm_pop_escaper = pop_binding idio_SM_escaper ''iv-pop-escaper: unexpected stack marker''"

text \<open>The markers are looked for below the one before.\<close>

fun escaper_loop :: "nat \<Rightarrow> idio_value list \<Rightarrow> idio_value \<Rightarrow> int \<Rightarrow> int option result" where
  "escaper_loop 0 stack fci sp = Inl Diverges"
| "escaper_loop (Suc fuel) stack fci sp =
    (if sp < 0 then Inr None
     else bind_result (idio_vm_find_stack_marker stack idio_SM_escaper (sp - 1)) (\<lambda>sp.
       if 0 \<le> sp
       then bind_result (array_ref stack (sp - 1)) (\<lambda>l.
         if l = fci then Inr (Some sp) else escaper_loop fuel stack fci sp)
       else Inr None))"

text \<open>A negative counter makes the next instruction fetch panic.\<close>

definition set_pc :: "int \<Rightarrow> unit vmm" where
  "set_pc i = (if i < 0 then fail_vm (Vm_panic ''idio_vm_run1: bad PC!'') else upd_vm (vm_pc_update (\<lambda>_. nat i)))"

definition idio_vm_escaper_label_ref :: "idio_value \<Rightarrow> unit vmm" where
  "idio_vm_escaper_label_ref fci =
    bind_vm (get_vm vm_stack) (\<lambda>stack.
    bind_vm (lift_vm (escaper_loop (length stack + 2) stack fci (int (length stack)))) (\<lambda>r.
      case r of None \<Rightarrow> fail_vm (Runtime_unbound_error (u64 (fixnum_of fci)))
      | Some sp \<Rightarrow>
          bind_vm (stack_ref (sp - 2)) (\<lambda>fr. seq_vm (upd_vm (vm_frame_update (\<lambda>_. fr)))
            (bind_vm (stack_ref (sp - 3)) (\<lambda>offset.
              if sp < 3 then fail_vm Segmentation_fault
              else seq_vm (upd_vm (\<lambda>s. s\<lparr>vm_stack := take (nat (sp - 3)) (vm_stack s)\<rparr>))
                (set_pc (fixnum_of offset)))))))"

section \<open>Continuations and aborts\<close>

text \<open>
  \<^verbatim>\<open>idio_continuation\<close>; the flag that a delimited continuation is given is overwritten
  at the end. The buffer of \<^verbatim>\<open>sigsetjmp\<close>, the list of holes, which only primitives
  read and change, and the thread are left out: there is one thread, and the jump back is to
  its run loop.
\<close>

definition idio_continuation :: "bool \<Rightarrow> idio_value vmm" where
  "idio_continuation call_dc =
    look_vm (\<lambda>s.
      let k = \<lparr>k_xi = vm_xi s, k_pc = vm_pc s,
               k_stack = (if call_dc then K_size (length (vm_stack s)) else K_copy (vm_stack s)),
               k_frame = vm_frame s, k_env = vm_env s, k_module = vm_module s, k_delimited = call_dc\<rparr>
      in idio_gc_get (O_continuation (k\<lparr>k_delimited := False\<rparr>)))"

definition the_continuation :: "idio_value \<Rightarrow> idio_continuation vmm" where
  "the_continuation v s =
    (case obj_at s v of Some (O_continuation k) \<Rightarrow> (Inr k, s) | _ \<Rightarrow> (Inl Segmentation_fault, s))"

definition idio_vm_restore_continuation_data :: "idio_value \<Rightarrow> idio_value \<Rightarrow> unit vmm" where
  "idio_vm_restore_continuation_data kv v =
    bind_vm (the_continuation kv) (\<lambda>k.
      seq_vm (upd_vm (\<lambda>s. s\<lparr>vm_pc := k_pc k, vm_xi := k_xi k\<rparr>))
      (seq_vm
        (case k_stack k of
           K_size n \<Rightarrow> if k_delimited k then upd_vm (\<lambda>s. s\<lparr>vm_stack := take n (vm_stack s)\<rparr>)
                       else fail_vm Segmentation_fault
         | K_copy stack \<Rightarrow> if k_delimited k then fail_vm Segmentation_fault
                       else upd_vm (\<lambda>s. s\<lparr>vm_stack := stack\<rparr>))
        (upd_vm (\<lambda>s. s\<lparr>vm_frame := k_frame k, vm_env := k_env k, vm_module := k_module k, vm_val := v\<rparr>))))"

definition idio_vm_restore_continuation :: "idio_value \<Rightarrow> idio_value \<Rightarrow> 'a vmm" where
  "idio_vm_restore_continuation k v = seq_vm (idio_vm_restore_continuation_data k v) (fail_vm Siglongjmp)"

text \<open>
  An abort is the index of the next one, a list of a continuation and a text, and
  the marker. The continuation goes on after the instruction that pops the abort.
\<close>

definition idio_vm_push_offset_abort :: "nat \<Rightarrow> unit vmm" where
  "idio_vm_push_offset_abort off =
    bind_vm (idio_continuation False) (\<lambda>kv.
    bind_vm (the_continuation kv) (\<lambda>k.
    seq_vm (set_obj kv (O_continuation (k\<lparr>k_pc := k_pc k + off + 1\<rparr>)))
    (bind_vm (find_marker idio_SM_abort) (\<lambda>asp.
    seq_vm (STACK_PUSH (V_fixnum (if 2 \<le> asp then asp else - 1)))
    (bind_vm (idio_gc_get (O_typed T_string)) (\<lambda>desc.
    bind_vm (idio_list [kv, desc] idio_S_nil) (\<lambda>krun.
    seq_vm (push_n [krun, idio_SM_abort]) (upd_vm (vm_frame_update (\<lambda>_. idio_S_nil))))))))))"

definition idio_vm_pop_abort :: "unit vmm" where
  "idio_vm_pop_abort =
    bind_vm STACK_POP (\<lambda>marker.
      if marker \<noteq> idio_SM_abort
      then seq_vm (STACK_PUSH marker) (fail_vm (Vm_panic ''iv-pop-abort: unexpected stack marker''))
      else seq_vm STACK_POP (seq_vm STACK_POP (ret_vm ())))"

text \<open>The first abort that was pushed, by following the chain; 0 is none.\<close>

fun abort_loop :: "nat \<Rightarrow> idio_value list \<Rightarrow> int \<Rightarrow> int \<Rightarrow> int result" where
  "abort_loop 0 stack asp next = Inl Diverges"
| "abort_loop (Suc fuel) stack asp next =
    (if next = - 1 then Inr asp
     else bind_result (array_ref stack (next - 2)) (\<lambda>n. abort_loop fuel stack next (fixnum_of n)))"

definition idio_vm_find_abort_1 :: "int vmm" where
  "idio_vm_find_abort_1 =
    bind_vm (find_marker idio_SM_abort) (\<lambda>asp.
      if asp < 2 then ret_vm 0
      else bind_vm (get_vm vm_stack) (\<lambda>stack. lift_vm
        (bind_result (array_ref stack (asp - 2)) (\<lambda>n. abort_loop (length stack + length stack + 3) stack asp (fixnum_of n)))))"

text \<open>The instruction \<^verbatim>\<open>NON-CONT-ERR\<close>.\<close>

definition non_cont_err :: "unit vmm" where
  "non_cont_err =
    bind_vm idio_vm_find_abort_1 (\<lambda>asp.
      if asp \<noteq> 0
      then bind_vm (stack_ref (asp - 1)) (\<lambda>krun.
        seq_vm (upd_vm (\<lambda>s. s\<lparr>vm_stack := take (nat (asp + 1)) (vm_stack s)\<rparr>))
          (bind_vm (get_vm (\<lambda>s. obj_at s krun)) (\<lambda>ob.
            case ob of Some (O_pair k _) \<Rightarrow> idio_vm_restore_continuation k idio_S_unspec
            | _ \<Rightarrow> fail_vm (Vm_panic ''NON-CONT-ERROR''))))
      else fail_vm (Vm_panic ''NON-CONT-ERROR''))"

end
