(* ===== verification/Vm_Run.thy ===== *)
theory Vm_Run
  imports Vm_Stack
begin

text \<open>
  The instruction interpreter \<^verbatim>\<open>idio_vm_run1\<close> (\<^verbatim>\<open>src/src/vm.c\<close>) with the references
  to variables by symbol and the invocation of functions. The instructions are
  grouped as in the enumeration of \<^verbatim>\<open>src/src/vm-asm.h\<close>; \<open>xi\<close> is the execution
  environment and \<open>ns\<close> the operands of the instruction. Tracing, profiling and
  the debugging output are left out.
\<close>

section \<open>References to variables\<close>

definition idio_S_si :: "vm_ctx \<Rightarrow> idio_value \<Rightarrow> nat \<Rightarrow> nat \<Rightarrow> nat \<Rightarrow> nat \<Rightarrow> idio_value \<Rightarrow> string \<Rightarrow> idio_value vmm" where
  "idio_S_si cx scope xi si ci gvi mo desc =
    idio_gc_get (O_si \<lparr>si_scope = scope, si_xi = int xi, si_si = int si, si_ci = int ci, si_vi = int gvi,
      si_module = mo, si_desc = desc\<rparr>)"

definition idio_vm_iref :: "vm_ctx \<Rightarrow> nat \<Rightarrow> nat \<Rightarrow> string \<Rightarrow> nat vmm" where
  "idio_vm_iref cx xi si desc =
    bind_vm (value_index xi si) (\<lambda>gvi.
      if gvi \<noteq> 0 then ret_vm gvi
      else bind_vm (idio_vm_symbols_ref xi si) (\<lambda>sym. bind_vm (get_vm vm_env) (\<lambda>ce.
        bind_vm (idio_module_find_symbol_recurse cx sym ce 1) (\<lambda>si_ce.
        bind_vm (if si_ce = idio_S_false then ret_vm 0
                 else bind_vm (the_si si_ce) (\<lambda>i.
                   seq_vm (idio_vm_values_set xi si (V_fixnum (si_vi i))) (ret_vm (u64 (si_vi i))))) (\<lambda>gvi.
        if gvi \<noteq> 0 then ret_vm gvi
        else bind_vm (idio_vm_extend_values 0) (\<lambda>gvi.
          seq_vm (idio_vm_values_set xi si (V_fixnum (int gvi)))
          (seq_vm (idio_vm_values_set 0 gvi sym)
          (bind_vm (idio_vm_constants_lookup_or_extend xi sym) (\<lambda>ci.
            bind_vm (idio_S_si cx (cx_S_toplevel cx) xi si ci gvi ce desc) (\<lambda>si_ce.
              seq_vm (idio_module_set_symbol sym si_ce ce) (ret_vm gvi)))))))))))"

text \<open>With \<open>undef_sym\<close> an undefined variable is given its own name as its value.\<close>

definition idio_vm_iref_val :: "vm_ctx \<Rightarrow> nat \<Rightarrow> nat \<Rightarrow> bool \<Rightarrow> idio_value vmm" where
  "idio_vm_iref_val cx xi si undef_sym =
    bind_vm (if xi \<noteq> 0
             then bind_vm (value_index xi si) (\<lambda>gvi. if gvi = 0 then idio_vm_iref cx xi si ''#f'' else ret_vm gvi)
             else ret_vm si) (\<lambda>gvi.
    bind_vm (idio_vm_values_ref cx 0 gvi) (\<lambda>v.
      if v = idio_S_undef
      then bind_vm (idio_vm_symbols_ref xi si) (\<lambda>sym.
        if undef_sym then seq_vm (idio_vm_values_set 0 gvi sym) (ret_vm sym)
        else fail_vm (Runtime_unbound_error gvi))
      else ret_vm v))"

text \<open>
  Assigning to a predefined primitive anything but a primitive gives the symbol of
  the current module a new value.
\<close>

definition idio_vm_iset_val :: "vm_ctx \<Rightarrow> nat \<Rightarrow> nat \<Rightarrow> string \<Rightarrow> idio_value \<Rightarrow> unit vmm" where
  "idio_vm_iset_val cx xi si desc v =
    bind_vm (value_index xi si) (\<lambda>gvi.
    bind_vm (if gvi = 0 then idio_vm_iref cx xi si desc else ret_vm gvi) (\<lambda>gvi.
    bind_vm (idio_vm_symbols_ref xi si) (\<lambda>sym. bind_vm (get_vm vm_env) (\<lambda>ce.
    bind_vm (idio_module_find_symbol cx sym ce) (\<lambda>si_ce. look_vm (\<lambda>s.
    bind_vm
      (case obj_at s si_ce of
         Some (O_si i) \<Rightarrow>
           if si_scope i = cx_S_predef cx \<and> \<not> idio_isa_primitive s v
           then bind_vm (idio_vm_extend_values 0) (\<lambda>gvi.
             seq_vm (set_obj si_ce (O_si (i\<lparr>si_scope := cx_S_toplevel cx, si_si := int si, si_vi := int gvi,
               si_desc := ''SYM-SET/predef''\<rparr>)))
             (seq_vm (idio_vm_values_set xi si (V_fixnum (int gvi)))
             (seq_vm (idio_module_set_symbol sym si_ce ce) (ret_vm gvi))))
           else ret_vm gvi
       | _ \<Rightarrow> ret_vm gvi)
      (\<lambda>gvi. idio_vm_values_set 0 gvi v)))))))"

section \<open>Invoking a function\<close>

definition push_return :: "nat \<Rightarrow> nat \<Rightarrow> unit vmm" where
  "push_return xi pc = push_n [V_fixnum (int pc), V_fixnum (int xi), idio_SM_return]"

definition invoke_closure :: "idio_closure \<Rightarrow> bool \<Rightarrow> unit vmm" where
  "invoke_closure c tailp =
    look_vm (\<lambda>s.
      seq_vm (if \<not> tailp then push_return (vm_xi s) (vm_pc s) else ret_vm ())
        (upd_vm (\<lambda>s. s\<lparr>vm_frame := cl_frame c, vm_env := cl_env c, vm_xi := cl_xi c, vm_pc := cl_code_pc c\<rparr>)))"

fun frame_arg_list :: "idio_frame \<Rightarrow> nat list \<Rightarrow> idio_value list vmm" where
  "frame_arg_list f [] = ret_vm []"
| "frame_arg_list f (i # is) = bind_vm (frame_arg f i) (\<lambda>a. bind_vm (frame_arg_list f is) (\<lambda>as. ret_vm (a # as)))"

text \<open>
  The arguments of the C function are the first ones of the frame and the list of
  the others. There is no check that the frame has them. The failure of
  \<^verbatim>\<open>assert\<close> ends the process.
\<close>

definition invoke_primitive :: "vm_ctx \<Rightarrow> idio_primitive \<Rightarrow> bool \<Rightarrow> unit vmm" where
  "invoke_primitive cx p tailp =
    look_vm (\<lambda>s.
      let xi0 = vm_xi s; pc0 = vm_pc s; val = vm_val s
      in if \<not> idio_isa_frame s val then fail_vm (Process_exit 134)
         else bind_vm (the_frame val) (\<lambda>f. bind_vm (frame_arg f (fr_nparams f)) (\<lambda>last.
           if last \<noteq> idio_S_nil then fail_vm (Coding_error ''primitive: using varargs?'')
           else if 5 < pr_arity p then fail_vm (Function_error ''arity unexpected'')
           else bind_vm (frame_arg_list f [0..<pr_arity p]) (\<lambda>as.
             bind_vm (idio_frame_args_as_list_from val (pr_arity p)) (\<lambda>rest.
             bind_vm (cx_primitive cx (pr_f p) (as @ [rest])) (\<lambda>v.
             seq_vm (upd_vm (vm_val_update (\<lambda>_. v)))
               (bind_vm (get_vm (\<lambda>s. \<not> tailp \<and> (vm_xi s \<noteq> xi0 \<or> vm_pc s \<noteq> pc0))) (\<lambda>b.
                 if b then push_return xi0 pc0 else ret_vm ()))))))))"

definition invoke_continuation :: "idio_value \<Rightarrow> unit vmm" where
  "invoke_continuation func =
    bind_vm (get_vm vm_val) (\<lambda>val. bind_vm (the_frame val) (\<lambda>f.
      bind_vm (frame_arg f (fr_nparams f)) (\<lambda>last.
        if last \<noteq> idio_S_nil then fail_vm (Coding_error ''continuation: varargs?'')
        else if fr_nparams f \<noteq> 1 then fail_vm (Function_error ''unary continuation'')
        else bind_vm (frame_arg f 0) (idio_vm_restore_continuation func))))"

text \<open>
  A generic function is replaced by its function; the state is unchanged until another
  type is met, so a chain longer than the heap has objects comes back to one of them.
\<close>

fun invoke_loop :: "nat \<Rightarrow> vm_ctx \<Rightarrow> idio_value \<Rightarrow> bool \<Rightarrow> unit vmm" where
  "invoke_loop 0 cx func tailp = fail_vm Diverges"
| "invoke_loop (Suc fuel) cx func tailp =
    (case func of
       V_pointer _ \<Rightarrow>
         look_vm (\<lambda>s.
           case obj_at s func of
             Some (O_closure c) \<Rightarrow> invoke_closure c tailp
           | Some (O_primitive p) \<Rightarrow> invoke_primitive cx p tailp
           | Some (O_continuation _) \<Rightarrow> invoke_continuation func
           | Some (O_typed t) \<Rightarrow>
               if t = T_string \<or> t = T_const_string \<or> t = T_symbol
               then bind_vm (cx_command cx func) (\<lambda>v. upd_vm (vm_val_update (\<lambda>_. v)))
               else fail_vm (Function_error ''cannot invoke'')
           | Some (O_struct_instance _) \<Rightarrow>
               (case cx_generic_proc cx s func of
                   Some proc \<Rightarrow> invoke_loop fuel cx proc tailp
                 | None \<Rightarrow> fail_vm (Function_error ''cannot invoke struct-instance''))
           | _ \<Rightarrow> fail_vm (Function_error ''cannot invoke''))
     | _ \<Rightarrow> fail_vm (Function_error ''cannot invoke constant type''))"

definition idio_vm_invoke :: "vm_ctx \<Rightarrow> idio_value \<Rightarrow> bool \<Rightarrow> unit vmm" where
  "idio_vm_invoke cx func tailp = bind_vm (get_vm vm_next) (\<lambda>n. invoke_loop (n + 2) cx func tailp)"

text \<open>
  \<^verbatim>\<open>idio_vm_call_cc\<close>: the function is called with the continuation in the place of
  the primitive's call.
\<close>

definition idio_vm_call_cc :: "vm_ctx \<Rightarrow> idio_value \<Rightarrow> bool \<Rightarrow> idio_value vmm" where
  "idio_vm_call_cc cx proc call_dc =
    bind_vm (idio_continuation call_dc) (\<lambda>k. bind_vm (get_vm vm_frame) (\<lambda>fr.
      bind_vm (idio_frame fr [k]) (\<lambda>vs. seq_vm (upd_vm (vm_val_update (\<lambda>_. vs)))
        (seq_vm (idio_vm_invoke cx proc False) (fail_vm Siglongjmp)))))"

section \<open>The instructions\<close>

definition set_val :: "idio_value \<Rightarrow> unit vmm" where
  "set_val v = upd_vm (vm_val_update (\<lambda>_. v))"

definition val_from :: "idio_value vmm \<Rightarrow> unit vmm" where
  "val_from m = bind_vm m set_val"

definition with_val :: "(idio_value \<Rightarrow> 'a vmm) \<Rightarrow> 'a vmm" where
  "with_val f = bind_vm (get_vm vm_val) f"

definition with_frame :: "(idio_value \<Rightarrow> 'a vmm) \<Rightarrow> 'a vmm" where
  "with_frame f = bind_vm (get_vm vm_frame) f"

definition exec_argument :: "nat \<Rightarrow> nat list \<Rightarrow> unit vmm" where
  "exec_argument ins ns =
    (if ins < IDIO_A_SHALLOW_ARGUMENT_REF then val_from (with_frame (\<lambda>fr. IDIO_FRAME_ARGS fr ins))
     else if ins = IDIO_A_SHALLOW_ARGUMENT_REF then val_from (with_frame (\<lambda>fr. IDIO_FRAME_ARGS fr (ns ! 0)))
     else if ins = IDIO_A_DEEP_ARGUMENT_REF then val_from (with_frame (\<lambda>fr. idio_frame_fetch fr (ns ! 0) (ns ! 1)))
     else if ins < IDIO_A_SHALLOW_ARGUMENT_SET
     then with_frame (\<lambda>fr. with_val (set_IDIO_FRAME_ARGS fr (ins - IDIO_A_SHALLOW_ARGUMENT_SET0)))
     else if ins = IDIO_A_SHALLOW_ARGUMENT_SET then with_frame (\<lambda>fr. with_val (set_IDIO_FRAME_ARGS fr (ns ! 0)))
     else with_frame (\<lambda>fr. with_val (idio_frame_update fr (ns ! 0) (ns ! 1))))"

definition constant_ref :: "vm_ctx \<Rightarrow> idio_value \<Rightarrow> idio_value vmm" where
  "constant_ref cx c =
    (case c of
       V_pointer _ \<Rightarrow>
         bind_vm (get_vm (\<lambda>s. obj_at s c)) (\<lambda>ob.
           case ob of
             Some (O_typed t) \<Rightarrow>
               if t = T_const_string \<or> t = T_symbol \<or> t = T_keyword then ret_vm c
               else if t = T_other then fail_vm (Coding_error ''invalid constant type'')
               else cx_copy_deep cx c
           | Some (O_struct_instance _) \<Rightarrow> cx_copy_deep cx c
           | Some (O_pair _ _) \<Rightarrow> cx_copy_deep cx c
           | Some (O_si _) \<Rightarrow> cx_copy_deep cx c
           | Some (O_primitive _) \<Rightarrow> ret_vm c
           | Some (O_closure _) \<Rightarrow> ret_vm c
           | _ \<Rightarrow> fail_vm (Coding_error ''invalid constant type''))
     | _ \<Rightarrow> ret_vm c)"

definition sym_def :: "vm_ctx \<Rightarrow> nat \<Rightarrow> nat \<Rightarrow> nat \<Rightarrow> unit vmm" where
  "sym_def cx xi si kci =
    bind_vm (idio_vm_symbols_ref xi si) (\<lambda>sym. bind_vm (idio_vm_constants_ref xi kci) (\<lambda>kind.
    bind_vm (get_vm vm_env) (\<lambda>ce.
    bind_vm (if kind = cx_S_environ cx \<or> kind = cx_S_dynamic cx then idio_module_find_symbol_recurse cx sym ce 1
             else idio_module_find_symbol cx sym ce) (\<lambda>si_ce.
      if si_ce = idio_S_false
      then bind_vm (idio_vm_constants_lookup_or_extend 0 sym) (\<lambda>gci. bind_vm (idio_vm_extend_values 0) (\<lambda>gvi.
        bind_vm (idio_S_si cx kind xi si gci gvi ce ''SYM-DEF'') (\<lambda>si_ce. idio_module_set_symbol sym si_ce ce)))
      else bind_vm (the_si si_ce) (\<lambda>i.
        if si_vi i = 0
        then bind_vm (idio_vm_extend_values 0) (\<lambda>gvi.
          set_obj si_ce (O_si (i\<lparr>si_vi := int gvi, si_desc := ''SYM-DEF/gvi=0''\<rparr>)))
        else ret_vm ())))))"

definition computed_sym_def :: "vm_ctx \<Rightarrow> nat \<Rightarrow> nat \<Rightarrow> unit vmm" where
  "computed_sym_def cx xi si =
    bind_vm (idio_vm_symbols_ref xi si) (\<lambda>sym. bind_vm (get_vm vm_env) (\<lambda>ce.
    bind_vm (idio_module_find_symbol cx sym ce) (\<lambda>si_ce.
    bind_vm
      (if si_ce = idio_S_false
       then bind_vm (idio_vm_constants_lookup_or_extend 0 sym) (\<lambda>gci. bind_vm (idio_vm_extend_values 0) (\<lambda>gvi.
         seq_vm (idio_vm_values_set xi si (V_fixnum (int gvi)))
         (bind_vm (idio_S_si cx (cx_S_toplevel cx) xi si gci gvi ce ''COMPUTED-SYM-DEF'') (\<lambda>si_ce.
           seq_vm (idio_module_set_symbol sym si_ce ce) (ret_vm (int gvi))))))
       else bind_vm (the_si si_ce) (\<lambda>i.
         if si_vi i = 0
         then bind_vm (idio_vm_extend_values 0) (\<lambda>gvi.
           seq_vm (idio_vm_values_set xi si (V_fixnum (int gvi)))
           (bind_vm (idio_gc_get (O_si \<lparr>si_scope = cx_S_toplevel cx, si_xi = int xi, si_si = int si,
                si_ci = si_ci i, si_vi = int gvi, si_module = ce, si_desc = ''COMPUTED-SYM-DEF/gvi=0''\<rparr>)) (\<lambda>si_ce.
             seq_vm (idio_module_set_symbol sym si_ce ce) (ret_vm (int gvi)))))
         else ret_vm (si_vi i))) (\<lambda>gvi.
    seq_vm (if xi \<noteq> 0 then idio_vm_values_set xi si (V_fixnum gvi) else ret_vm ())
      (with_val (idio_vm_computed_define 0 (u64 gvi)))))))"

definition val_set :: "vm_ctx \<Rightarrow> nat \<Rightarrow> nat \<Rightarrow> unit vmm" where
  "val_set cx xi vi =
    (if vi \<noteq> 0
     then bind_vm (idio_vm_values_ref cx xi vi) (\<lambda>fgvi.
       let gvi = u64 (fixnum_of fgvi)
       in bind_vm
            (if gvi = 0
             then bind_vm (idio_vm_extend_values 0) (\<lambda>gvi.
               seq_vm (idio_vm_values_set xi vi (V_fixnum (int gvi))) (ret_vm gvi))
             else ret_vm gvi) (\<lambda>gvi. with_val (idio_vm_values_set 0 gvi)))
     else fail_vm (Vm_panic ''VAL-SET: no vi!''))"

definition exec_symbol :: "vm_ctx \<Rightarrow> nat \<Rightarrow> nat \<Rightarrow> nat list \<Rightarrow> unit vmm" where
  "exec_symbol cx xi ins ns =
    (if ins = IDIO_A_SYM_REF \<or> ins = IDIO_A_FUNCTION_SYM_REF then val_from (idio_vm_iref_val cx xi (ns ! 0) True)
     else if ins = IDIO_A_CONSTANT_REF
     then val_from (bind_vm (idio_vm_constants_ref xi (ns ! 0)) (constant_ref cx))
     else if ins = IDIO_A_COMPUTED_SYM_REF
     then val_from (bind_vm (idio_vm_iref_val cx xi (ns ! 0) False) (idio_vm_computed_iref cx))
     else if ins = IDIO_A_SYM_DEF then sym_def cx xi (ns ! 0) (ns ! 1)
     else if ins = IDIO_A_SYM_SET then with_val (idio_vm_iset_val cx xi (ns ! 0) ''SYM-SET/gvi=0'')
     else if ins = IDIO_A_COMPUTED_SYM_SET
     then val_from (bind_vm (idio_vm_iref_val cx xi (ns ! 0) False) (\<lambda>gns. with_val (idio_vm_computed_iset cx gns)))
     else if ins = IDIO_A_COMPUTED_SYM_DEF then computed_sym_def cx xi (ns ! 0)
     else val_set cx xi (ns ! 0))"

definition exec_predefined :: "vm_ctx \<Rightarrow> nat \<Rightarrow> nat \<Rightarrow> nat list \<Rightarrow> unit vmm" where
  "exec_predefined cx xi ins ns =
    (if ins = IDIO_A_PREDEFINED0 then set_val idio_S_true
     else if ins = IDIO_A_PREDEFINED1 then set_val idio_S_false
     else if ins = IDIO_A_PREDEFINED2 then set_val idio_S_nil
     else if ins = IDIO_A_PREDEFINED then val_from (idio_vm_iref_val cx xi (ns ! 0) False)
     else fail_vm (Coding_error ''unexpected instruction''))"

definition add_pc :: "nat \<Rightarrow> unit vmm" where
  "add_pc n = upd_vm (vm_pc_update (\<lambda>pc. pc + n))"

definition exec_jump :: "nat \<Rightarrow> nat list \<Rightarrow> unit vmm" where
  "exec_jump ins ns =
    (if ins = IDIO_A_LONG_GOTO \<or> ins = IDIO_A_SHORT_GOTO then add_pc (ns ! 0)
     else if ins = IDIO_A_LONG_JUMP_FALSE \<or> ins = IDIO_A_SHORT_JUMP_FALSE
     then with_val (\<lambda>v. if v = idio_S_false then add_pc (ns ! 0) else ret_vm ())
     else with_val (\<lambda>v. if v \<noteq> idio_S_false then add_pc (ns ! 0) else ret_vm ()))"

definition pop_function :: "unit vmm" where
  "pop_function =
    bind_vm STACK_POP (\<lambda>func. seq_vm (upd_vm (vm_func_update (\<lambda>_. func)))
      (look_vm (\<lambda>s.
        case obj_at s (vm_val s) of
          Some (O_frame f) \<Rightarrow>
            set_obj (vm_val s) (O_frame (f\<lparr>fr_func := func, fr_src_expr := fixnum_of (vm_expr s)\<rparr>))
        | _ \<Rightarrow> ret_vm ())))"

definition exec_stack :: "nat \<Rightarrow> nat list \<Rightarrow> unit vmm" where
  "exec_stack ins ns =
    (if ins = IDIO_A_PUSH_VALUE then with_val STACK_PUSH
     else if ins = IDIO_A_POP_VALUE then val_from STACK_POP
     else if ins = IDIO_A_POP_REG1 then bind_vm STACK_POP (\<lambda>v. upd_vm (vm_reg1_update (\<lambda>_. v)))
     else if ins = IDIO_A_POP_REG2 then bind_vm STACK_POP (\<lambda>v. upd_vm (vm_reg2_update (\<lambda>_. v)))
     else if ins = IDIO_A_SRC_EXPR then upd_vm (vm_expr_update (\<lambda>_. V_fixnum (wrap64 (int (ns ! 0)))))
     else pop_function)"

text \<open>
  \<^verbatim>\<open>RETURN\<close>: the environment and the counter are tested after they are taken off; a
  counter at the end of the byte code is let through.
\<close>

definition return_to :: "unit vmm" where
  "return_to =
    bind_vm STACK_POP (\<lambda>marker.
      if marker \<noteq> idio_SM_return
      then seq_vm (STACK_PUSH marker) (fail_vm (Vm_panic ''RETURN: unexpected stack marker''))
      else bind_vm STACK_POP (\<lambda>fs_xi.
        case fs_xi of V_fixnum xi \<Rightarrow>
          bind_vm (get_vm (\<lambda>s. length (vm_xenvs s))) (\<lambda>sz.
            if sz \<le> u64 xi then fail_vm (Vm_panic ''RETURN: impossible XI on stack top'')
            else bind_vm STACK_POP (\<lambda>fs_pc.
              case fs_pc of V_fixnum pc \<Rightarrow>
                bind_vm (the_xenv (u64 xi)) (\<lambda>e.
                  if int (length (xe_byte_code e)) < pc \<or> pc < 0
                  then fail_vm (Vm_panic ''RETURN: impossible PC on stack top'')
                  else upd_vm (\<lambda>s. s\<lparr>vm_xi := u64 xi, vm_pc := nat pc\<rparr>))
              | _ \<Rightarrow> seq_vm (push_n [fs_pc, fs_xi, marker]) (fail_vm (Coding_error ''RETURN: pc not a number''))))
        | _ \<Rightarrow> seq_vm (push_n [fs_xi, marker]) (fail_vm (Coding_error ''RETURN: xi not a number''))))"

definition create_function :: "nat \<Rightarrow> nat list \<Rightarrow> unit vmm" where
  "create_function xi ns =
    bind_vm (idio_vm_constants_ref xi (ns ! 2)) (\<lambda>name.
    bind_vm (idio_vm_constants_ref xi (ns ! 3)) (\<lambda>sigstr.
    bind_vm (idio_vm_constants_ref xi (ns ! 4)) (\<lambda>docstr.
    look_vm (\<lambda>s.
      val_from (idio_toplevel_closure xi (vm_pc s + ns ! 0) (ns ! 1) (vm_frame s) (vm_env s) name sigstr docstr (ns ! 5))))))"

definition exec_function :: "vm_ctx \<Rightarrow> nat \<Rightarrow> nat \<Rightarrow> nat list \<Rightarrow> unit vmm" where
  "exec_function cx xi ins ns =
    (if ins = IDIO_A_PRESERVE_STATE then idio_vm_preserve_state
     else if ins = IDIO_A_RESTORE_STATE then idio_vm_restore_state
     else if ins = IDIO_A_RESTORE_ALL_STATE then idio_vm_restore_all_state cx
     else if ins = IDIO_A_CREATE_FUNCTION then create_function xi ns
     else if ins = IDIO_A_CREATE_CLOSURE
     then bind_vm (idio_vm_values_gref cx xi (ns ! 0)) (\<lambda>cl. val_from (with_frame (idio_closure cl)))
     else if ins = IDIO_A_FUNCTION_INVOKE then bind_vm (get_vm vm_func) (\<lambda>f. idio_vm_invoke cx f False)
     else if ins = IDIO_A_FUNCTION_GOTO then bind_vm (get_vm vm_func) (\<lambda>f. idio_vm_invoke cx f True)
     else if ins = IDIO_A_RETURN then return_to
     else if ins = IDIO_A_FINISH then ret_vm ()
     else if ins = IDIO_A_PUSH_ABORT
     then seq_vm (idio_vm_push_offset_abort (ns ! 0)) (upd_vm (vm_rcse_update (\<lambda>_. idio_S_false)))
     else idio_vm_pop_abort)"

definition exec_allocate :: "nat \<Rightarrow> nat list \<Rightarrow> unit vmm" where
  "exec_allocate ins ns =
    (if ins < IDIO_A_ALLOCATE_FRAME then val_from (idio_frame_allocate (ins - IDIO_A_ALLOCATE_FRAME1 + 1))
     else if ins = IDIO_A_ALLOCATE_FRAME then val_from (idio_frame_allocate (ns ! 0))
     else if ins = IDIO_A_ALLOCATE_DOTTED_FRAME
     then bind_vm (idio_frame_allocate (ns ! 0)) (\<lambda>fr. seq_vm (idio_frame_update fr 0 (ns ! 0 - 1) idio_S_nil) (set_val fr))
     else with_frame (\<lambda>fr. bind_vm (the_frame fr) (\<lambda>_. val_from (idio_frame_allocate (ns ! 0)))))"

definition link_frame :: "nat \<Rightarrow> nat \<Rightarrow> nat \<Rightarrow> unit vmm" where
  "link_frame xi si sei =
    with_val (\<lambda>frame.
      seq_vm
        (if frame \<noteq> idio_S_nil
         then bind_vm (the_frame frame) (\<lambda>f.
           set_obj frame (O_frame (f\<lparr>fr_xi := xi, fr_names := V_fixnum (int si),
             fr_src_expr := (if fr_src_expr f = - 1 then wrap64 (int sei) else fr_src_expr f)\<rparr>)))
         else ret_vm ())
        (bind_vm (with_frame (\<lambda>fr. idio_link_frame fr frame)) (\<lambda>fr. upd_vm (vm_frame_update (\<lambda>_. fr)))))"

definition extend_frame :: "nat \<Rightarrow> nat \<Rightarrow> nat \<Rightarrow> unit vmm" where
  "extend_frame xi alloc si =
    with_frame (\<lambda>frame.
      seq_vm
        (if frame \<noteq> idio_S_nil
         then bind_vm (the_frame frame) (\<lambda>f.
           set_obj frame (O_frame (f\<lparr>fr_xi := xi, fr_names := V_fixnum (int si)\<rparr>)))
         else ret_vm ())
        (idio_extend_frame frame alloc))"

text \<open>\<^verbatim>\<open>POP-FRAME\<close>: the frame is the value when the argument is taken off the stack.\<close>

definition pop_frame :: "nat \<Rightarrow> unit vmm" where
  "pop_frame rank = bind_vm STACK_POP (\<lambda>v. with_val (\<lambda>fr. idio_frame_update fr 0 rank v))"

definition exec_frame :: "nat \<Rightarrow> nat \<Rightarrow> nat list \<Rightarrow> unit vmm" where
  "exec_frame xi ins ns =
    (if ins < IDIO_A_POP_FRAME then pop_frame (ins - IDIO_A_POP_FRAME0)
     else if ins = IDIO_A_POP_FRAME then pop_frame (ns ! 0)
     else if ins = IDIO_A_LINK_FRAME then link_frame xi (ns ! 0) (ns ! 1)
     else if ins = IDIO_A_UNLINK_FRAME
     then with_frame (\<lambda>fr. bind_vm (the_frame fr) (\<lambda>f. upd_vm (vm_frame_update (\<lambda>_. fr_next f))))
     else if ins = IDIO_A_PACK_FRAME then with_val (\<lambda>fr. idio_vm_listify fr (ns ! 0))
     else if ins = IDIO_A_POP_LIST_FRAME
     then bind_vm STACK_POP (\<lambda>v. with_val (\<lambda>fr. bind_vm (idio_frame_fetch fr 0 (ns ! 0)) (\<lambda>l.
       bind_vm (idio_pair v l) (idio_frame_update fr 0 (ns ! 0)))))
     else extend_frame xi (ns ! 0) (ns ! 1))"

text \<open>The number of arguments with the list of the others; -1 if the value is \<^verbatim>\<open>#n\<close>.\<close>

definition nargs_of_val :: "int vmm" where
  "nargs_of_val =
    with_val (\<lambda>v. if v = idio_S_nil then ret_vm (- 1)
      else bind_vm (the_frame v) (\<lambda>f. ret_vm (int (fr_nparams f) + 1)))"

definition arity_eq :: "int \<Rightarrow> unit vmm" where
  "arity_eq arityp1 =
    bind_vm nargs_of_val (\<lambda>nargs.
      if nargs \<noteq> arityp1 then fail_vm (Arity_error (nargs - 1) (arityp1 - 1)) else ret_vm ())"

definition exec_arity :: "nat \<Rightarrow> nat list \<Rightarrow> unit vmm" where
  "exec_arity ins ns =
    (if ins < IDIO_A_ARITYEQP then arity_eq (int (ins - IDIO_A_ARITY1P) + 1)
     else if ins = IDIO_A_ARITYEQP then arity_eq (wrap64 (int (ns ! 0)))
     else bind_vm nargs_of_val (\<lambda>nargs.
       let arityp1 = wrap64 (int (ns ! 0))
       in if nargs < arityp1 then fail_vm (Arity_varargs_error (nargs - 1) (arityp1 - 1)) else ret_vm ()))"

text \<open>The constants are tested against the range of fixnums; their field is narrower.\<close>

definition constant_value :: "64 word \<Rightarrow> int \<Rightarrow> idio_value vmm" where
  "constant_value kind i =
    (case decode_value (IDIO_CONSTANT kind i) of Some v \<Rightarrow> ret_vm v | None \<Rightarrow> fail_vm Segmentation_fault)"

definition fixnum_value :: "int \<Rightarrow> idio_value vmm" where
  "fixnum_value i = (if in_fixnum i then ret_vm (V_fixnum i) else fail_vm (Fixnum_conversion_error i))"

definition exec_number :: "nat \<Rightarrow> nat list \<Rightarrow> unit vmm" where
  "exec_number ins ns =
    (if ins \<in> {IDIO_A_CONSTANT_0, IDIO_A_CONSTANT_1, IDIO_A_CONSTANT_2, IDIO_A_CONSTANT_3, IDIO_A_CONSTANT_4}
     then set_val (V_fixnum (int (ins - IDIO_A_CONSTANT_0)))
     else if ins \<in> {IDIO_A_FIXNUM, IDIO_A_CONSTANT, IDIO_A_UNICODE}
     then (if FIXNUM_MAX < int (ns ! 0) then fail_vm (Coding_error ''OOB'')
       else if ins = IDIO_A_FIXNUM then val_from (fixnum_value (int (ns ! 0)))
       else if ins = IDIO_A_CONSTANT then val_from (constant_value 0 (int (ns ! 0)))
       else val_from (constant_value 3 (int (ns ! 0))))
     else if ins \<in> {IDIO_A_NEG_FIXNUM, IDIO_A_NEG_CONSTANT}
     then (let v = wrap64 (- int (ns ! 0))
       in if v < FIXNUM_MIN then fail_vm (Coding_error ''OOB'')
          else if ins = IDIO_A_NEG_FIXNUM then val_from (fixnum_value v)
          else val_from (constant_value 0 v))
     else fail_vm (Coding_error ''unexpected instruction''))"

text \<open>A C function called with the arguments in the registers.\<close>

definition primcall :: "vm_ctx \<Rightarrow> nat \<Rightarrow> nat \<Rightarrow> (vm \<Rightarrow> idio_value list) \<Rightarrow> unit vmm" where
  "primcall cx xi si args =
    bind_vm (idio_vm_iref_val cx xi si False) (\<lambda>pd. seq_vm (upd_vm (vm_func_update (\<lambda>_. pd)))
      (bind_vm (the_primitive pd) (\<lambda>p. bind_vm (get_vm args) (\<lambda>as. val_from (cx_primitive cx (pr_f p) as)))))"

definition exec_primcall :: "vm_ctx \<Rightarrow> nat \<Rightarrow> nat \<Rightarrow> nat list \<Rightarrow> unit vmm" where
  "exec_primcall cx xi ins ns =
    (if ins = IDIO_A_NOP then ret_vm ()
     else if ins = IDIO_A_PRIMCALL0 then primcall cx xi (ns ! 0) (\<lambda>s. [])
     else if ins = IDIO_A_PRIMCALL1 then primcall cx xi (ns ! 0) (\<lambda>s. [vm_val s])
     else if ins = IDIO_A_PRIMCALL2 then primcall cx xi (ns ! 0) (\<lambda>s. [vm_reg1 s, vm_val s])
     else if ins = IDIO_A_SUPPRESS_RCSE
     then seq_vm (bind_vm (get_vm vm_rcse) STACK_PUSH) (upd_vm (vm_rcse_update (\<lambda>_. idio_S_true)))
     else if ins = IDIO_A_POP_RCSE then bind_vm STACK_POP (\<lambda>v. upd_vm (vm_rcse_update (\<lambda>_. v)))
     else with_val (\<lambda>v. set_val (if v = idio_S_false then idio_S_true else idio_S_false)))"

end
