(* ===== verification/Vm_Run1.thy ===== *)
theory Vm_Run1
  imports Vm_Run
begin

text \<open>
  The rest of the instructions, one step of the machine and its run.
\<close>

section \<open>Expanders and operators\<close>

definition expander :: "vm_ctx \<Rightarrow> nat \<Rightarrow> nat \<Rightarrow> unit vmm" where
  "expander cx xi si =
    bind_vm (idio_vm_symbols_ref xi si) (\<lambda>sym. bind_vm (value_index xi si) (\<lambda>gvi. bind_vm (get_vm vm_env) (\<lambda>ce.
    seq_vm
      (if gvi = 0
       then bind_vm (idio_module_find_symbol cx sym ce) (\<lambda>si_ce.
         if si_ce = idio_S_false
         then bind_vm (idio_vm_constants_lookup_or_extend xi sym) (\<lambda>ci. bind_vm (idio_vm_extend_values 0) (\<lambda>gvi.
           seq_vm (idio_vm_values_set xi si (V_fixnum (int gvi)))
             (bind_vm (idio_S_si cx (cx_S_toplevel cx) xi si ci gvi ce ''EXPANDER'') (\<lambda>si_ce.
               idio_module_set_symbol sym si_ce ce))))
         else bind_vm (the_si si_ce) (\<lambda>_. ret_vm ()))
       else ret_vm ())
      (with_val (\<lambda>v. seq_vm (cx_install_expander cx xi sym v) (cx_set_symbol_value cx xi sym v ce))))))"

definition operator :: "vm_ctx \<Rightarrow> (idio_value \<Rightarrow> idio_value \<Rightarrow> unit vmm) \<Rightarrow> nat \<Rightarrow> nat \<Rightarrow> string \<Rightarrow> unit vmm" where
  "operator cx install xi oi desc =
    bind_vm (idio_vm_symbols_ref xi oi) (\<lambda>sym. bind_vm (value_index xi oi) (\<lambda>gvi.
    seq_vm
      (if gvi = 0
       then bind_vm (idio_module_find_symbol cx sym (cx_operator_module cx)) (\<lambda>op_si.
         if op_si = idio_S_false
         then bind_vm (idio_vm_constants_lookup_or_extend xi sym) (\<lambda>ci. bind_vm (idio_vm_extend_values 0) (\<lambda>gvi.
           seq_vm (idio_vm_values_set xi oi (V_fixnum (int gvi)))
             (bind_vm (idio_S_si cx (cx_S_toplevel cx) xi oi ci gvi (cx_operator_module cx) desc) (\<lambda>op_si.
               idio_module_set_symbol sym op_si (cx_operator_module cx)))))
         else bind_vm (the_si op_si) (\<lambda>_. ret_vm ()))
       else ret_vm ())
      (with_val (install sym))))"

definition exec_expander :: "vm_ctx \<Rightarrow> nat \<Rightarrow> nat \<Rightarrow> nat list \<Rightarrow> unit vmm" where
  "exec_expander cx xi ins ns =
    (if ins = IDIO_A_EXPANDER then expander cx xi (ns ! 0)
     else if ins = IDIO_A_INFIX_OPERATOR
     then operator cx (\<lambda>sym v. cx_install_infix_operator cx xi sym v (ns ! 1)) xi (ns ! 0) ''INFIX-OPERATOR''
     else operator cx (\<lambda>sym v. cx_install_postfix_operator cx xi sym v (ns ! 1)) xi (ns ! 0) ''POSTFIX-OPERATOR'')"

section \<open>Bindings, traps and escapers\<close>

definition exec_binding :: "vm_ctx \<Rightarrow> nat \<Rightarrow> nat \<Rightarrow> nat list \<Rightarrow> unit vmm" where
  "exec_binding cx xi ins ns =
    (if ins = IDIO_A_PUSH_DYNAMIC
     then bind_vm (idio_vm_iref cx xi (ns ! 0) ''PUSH-DYNAMIC'') (\<lambda>gvi. with_val (idio_vm_push_dynamic gvi))
     else if ins = IDIO_A_POP_DYNAMIC then idio_vm_pop_dynamic
     else if ins = IDIO_A_DYNAMIC_SYM_REF
     then val_from (bind_vm (idio_vm_iref cx xi (ns ! 0) ''DYNAMIC-SYM-REF'') (\<lambda>gvi. idio_vm_dynamic_ref cx gvi None))
     else if ins = IDIO_A_DYNAMIC_FUNCTION_SYM_REF
     then val_from (bind_vm (idio_vm_iref cx xi (ns ! 0) ''DYNAMIC-FUNCTION-SYM-REF'') (\<lambda>gvi. idio_vm_dynamic_ref cx gvi None))
     else if ins = IDIO_A_PUSH_ENVIRON
     then bind_vm (idio_vm_iref cx xi (ns ! 0) ''PUSH-ENVIRON'') (\<lambda>gvi. with_val (idio_vm_push_environ gvi))
     else if ins = IDIO_A_POP_ENVIRON then idio_vm_pop_environ
     else val_from (bind_vm (idio_vm_iref cx xi (ns ! 0) ''ENVIRON-SYM-REF'') (\<lambda>gvi. idio_vm_environ_ref cx gvi None)))"

definition push_trap :: "nat \<Rightarrow> nat \<Rightarrow> unit vmm" where
  "push_trap xi si =
    bind_vm (idio_vm_symbols_ref xi si) (\<lambda>sym.
    bind_vm (idio_vm_constants_lookup_or_extend 0 sym) (\<lambda>gci.
      with_val (\<lambda>handler. idio_vm_push_trap handler (V_fixnum (int gci)) 0)))"

definition exec_trap :: "nat \<Rightarrow> nat \<Rightarrow> nat list \<Rightarrow> unit vmm" where
  "exec_trap xi ins ns =
    (if ins = IDIO_A_NON_CONT_ERR then non_cont_err
     else if ins = IDIO_A_PUSH_TRAP then push_trap xi (ns ! 0)
     else if ins = IDIO_A_POP_TRAP then idio_vm_pop_trap
     else if ins = IDIO_A_PUSH_ESCAPER then idio_vm_push_escaper (V_fixnum (int (ns ! 0))) (ns ! 1)
     else if ins = IDIO_A_POP_ESCAPER then idio_vm_pop_escaper
     else if ins = IDIO_A_ESCAPER_LABEL_REF then idio_vm_escaper_label_ref (V_fixnum (int (ns ! 0)))
     else fail_vm (Coding_error ''unexpected instruction''))"

section \<open>Raising a condition\<close>

text \<open>
  \<^verbatim>\<open>idio_module_symbol_value_recurse\<close>; \<open>args\<close> is the default, the head of a list. A number that
  is an index is converted to \<^verbatim>\<open>size_t\<close>.
\<close>

definition idio_module_symbol_value_recurse :: "vm_ctx \<Rightarrow> idio_value \<Rightarrow> idio_value \<Rightarrow> idio_value option \<Rightarrow> idio_value vmm" where
  "idio_module_symbol_value_recurse cx symbol m_or_n args =
    bind_vm (module_arg m_or_n) (\<lambda>mo.
    bind_vm (idio_module_find_symbol_recurse cx symbol mo 1) (\<lambda>si.
    let r = (case args of None \<Rightarrow> idio_S_unspec | Some d \<Rightarrow> d)
    in if si = idio_S_false then ret_vm r
       else bind_vm (the_si si) (\<lambda>i. let gvi = u64 (si_vi i) in
         if si_vi i = 0 then ret_vm r
         else if si_scope i = cx_S_toplevel cx then idio_vm_values_ref cx 0 gvi
         else if si_scope i = cx_S_predef cx
         then bind_vm (get_vm vm_xi) (\<lambda>xi. idio_vm_values_gref cx xi gvi)
         else if si_scope i = cx_S_dynamic cx then idio_vm_dynamic_ref cx gvi args
         else if si_scope i = cx_S_environ cx then idio_vm_environ_ref cx gvi args
         else if si_scope i = cx_S_computed cx then fail_vm (Vm_error ''cannot get a computed variable from C'')
         else fail_vm (Vm_error ''unexpected symbol scope''))))"

text \<open>
  \<^verbatim>\<open>idio_struct_type_isa\<close> and \<^verbatim>\<open>idio_struct_instance_isa\<close> of \<^verbatim>\<open>src/src/struct.c\<close>: a type
  is one of those on the way up through its parents. There are no more of them than addresses
  in use, unless a type is its own ancestor.
\<close>

fun idio_struct_type_isa :: "nat \<Rightarrow> vm \<Rightarrow> idio_value \<Rightarrow> idio_value \<Rightarrow> bool result" where
  "idio_struct_type_isa 0 s st type = Inl Diverges"
| "idio_struct_type_isa (Suc fuel) s st type =
    (if st = idio_S_nil then Inr False
     else if st = type then Inr True
     else case obj_at s st of
         Some (O_struct_type parent) \<Rightarrow>
           if parent \<noteq> idio_S_nil then idio_struct_type_isa fuel s parent type else Inr False
       | _ \<Rightarrow> Inl Segmentation_fault)"

definition idio_struct_instance_isa :: "vm \<Rightarrow> idio_value \<Rightarrow> idio_value \<Rightarrow> bool result" where
  "idio_struct_instance_isa s si st =
    (case obj_at s si of
       Some (O_struct_instance ty) \<Rightarrow> idio_struct_type_isa (vm_next s + 2) s ty st
     | _ \<Rightarrow> Inl Segmentation_fault)"

definition idio_isa_struct_type :: "vm \<Rightarrow> idio_value \<Rightarrow> bool" where
  "idio_isa_struct_type s v \<longleftrightarrow> (case obj_at s v of Some (O_struct_type _) \<Rightarrow> True | _ \<Rightarrow> False)"

text \<open>
  The loop along the traps: the first whose condition type the condition has. The type is the
  value, in the environment of the moment, of the symbol with this index among the
  constants; the failure of \<^verbatim>\<open>assert\<close> ends the process when it is no structure type. The last trap
  is its own next. The indexes looked at lie between the size of the stack and its negative.
\<close>

definition trap_matches :: "vm_ctx \<Rightarrow> idio_value \<Rightarrow> idio_value \<Rightarrow> bool vmm" where
  "trap_matches cx condition trap_ct_gci =
    bind_vm (idio_vm_constants_ref 0 (u64 (fixnum_of trap_ct_gci))) (\<lambda>trap_ct_sym.
    bind_vm (get_vm vm_env) (\<lambda>env.
    bind_vm (idio_module_symbol_value_recurse cx trap_ct_sym env None) (\<lambda>trap_ct.
      look_vm (\<lambda>s.
        if \<not> idio_isa_struct_type s trap_ct then fail_vm (Process_exit 134)
        else lift_vm (idio_struct_instance_isa s condition trap_ct)))))"

fun trap_loop :: "nat \<Rightarrow> vm_ctx \<Rightarrow> idio_value \<Rightarrow> int \<Rightarrow> int vmm" where
  "trap_loop 0 cx condition trap_sp = fail_vm Diverges"
| "trap_loop (Suc fuel) cx condition trap_sp =
    bind_vm (stack_ref (trap_sp - 1)) (\<lambda>handler.
    bind_vm (stack_ref (trap_sp - 2)) (\<lambda>gci.
    bind_vm (stack_ref (trap_sp - 3)) (\<lambda>next.
    bind_vm (trap_matches cx condition gci) (\<lambda>isa.
      if isa then ret_vm trap_sp
      else if trap_sp = fixnum_of next then fail_vm (Vm_panic ''ivrc: no more TRAP handlers'')
      else trap_loop fuel cx condition (fixnum_of next)))))"

text \<open>
  \<^verbatim>\<open>idio_vm_raise_condition\<close>: a return to the place of the condition, the saved
  registers and, again, the trap next to the one found; then the handler is called so that it
  returns to the code of the prologue that takes all that off again. \<open>IHR\<close> is set for
  conditions raised by signals.
\<close>

definition return_code :: "nat \<Rightarrow> bool \<Rightarrow> unit vmm" where
  "return_code pc isa_closure =
    (if isa_closure then bind_vm (get_vm vm_xi) (\<lambda>xi. push_return xi pc)
     else upd_vm (vm_pc_update (\<lambda>_. pc)))"

definition repeat_trap :: "int \<Rightarrow> unit vmm" where
  "repeat_trap trap_sp =
    bind_vm (stack_ref (trap_sp - 3)) (\<lambda>n. let next_tsp = fixnum_of n in
    bind_vm (stack_ref (next_tsp - 1)) (\<lambda>handler.
    bind_vm (stack_ref (next_tsp - 2)) (\<lambda>fgci.
    bind_vm (stack_ref (next_tsp - 3)) (\<lambda>next.
      idio_vm_push_trap handler fgci (fixnum_of next)))))"

definition idio_vm_raise_condition :: "vm_ctx \<Rightarrow> idio_value \<Rightarrow> idio_value \<Rightarrow> bool \<Rightarrow> bool \<Rightarrow> unit vmm" where
  "idio_vm_raise_condition cx continuablep condition IHR reraise =
    bind_vm (find_marker idio_SM_trap) (\<lambda>otrap_sp.
    bind_vm (if reraise then find_max_trap else ret_vm otrap_sp) (\<lambda>trap_sp.
      if trap_sp < 3 then fail_vm (Vm_panic ''trap SP < 3'')
      else bind_vm (get_vm (\<lambda>s. length (vm_stack s))) (\<lambda>n.
      bind_vm (trap_loop (n + n + 3) cx condition trap_sp) (\<lambda>trap_sp.
      bind_vm (stack_ref (trap_sp - 1)) (\<lambda>handler.
      look_vm (\<lambda>s. let isa_closure = idio_isa_closure s handler in
      seq_vm (push_return (vm_xi s) (vm_pc s))
      (seq_vm
        (if IHR
         then seq_vm idio_vm_preserve_all_state
           (seq_vm (repeat_trap trap_sp) (return_code idio_vm_IHR_pc isa_closure))
         else seq_vm idio_vm_preserve_state
           (seq_vm (repeat_trap trap_sp)
             (return_code (if continuablep = idio_S_true then idio_vm_CHR_pc else idio_vm_NCE_pc) isa_closure)))
      (bind_vm (idio_frame idio_S_nil [condition]) (\<lambda>fr.
        seq_vm (set_val fr) (seq_vm (idio_vm_invoke cx handler True) (fail_vm Siglongjmp)))))))))))"

section \<open>One instruction and the run\<close>

definition exec :: "vm_ctx \<Rightarrow> nat \<Rightarrow> nat \<Rightarrow> nat list \<Rightarrow> unit vmm" where
  "exec cx xi ins ns =
    (if ins \<le> IDIO_A_DEEP_ARGUMENT_SET then exec_argument ins ns
     else if ins \<le> IDIO_A_VAL_SET then exec_symbol cx xi ins ns
     else if ins \<le> IDIO_A_PREDEFINED then exec_predefined cx xi ins ns
     else if ins \<le> IDIO_A_SHORT_JUMP_TRUE then exec_jump ins ns
     else if ins \<le> IDIO_A_POP_FUNCTION then exec_stack ins ns
     else if ins \<le> IDIO_A_POP_ABORT then exec_function cx xi ins ns
     else if ins \<le> IDIO_A_REUSE_FRAME then exec_allocate ins ns
     else if ins \<le> IDIO_A_EXTEND_FRAME then exec_frame xi ins ns
     else if ins \<le> IDIO_A_ARITYGEP then exec_arity ins ns
     else if ins \<le> IDIO_A_UNICODE then exec_number ins ns
     else if ins \<le> IDIO_A_NOT then exec_primcall cx xi ins ns
     else if ins \<le> IDIO_A_POSTFIX_OPERATOR then exec_expander cx xi ins ns
     else if ins \<le> IDIO_A_ENVIRON_SYM_REF then exec_binding cx xi ins ns
     else exec_trap xi ins ns)"

text \<open>
  \<^verbatim>\<open>idio_vm_run1\<close>: the result tells whether to go on. The operands are read, and the
  counter moved behind them, before an instruction does anything else.
\<close>

definition idio_vm_run1 :: "vm_ctx \<Rightarrow> bool vmm" where
  "idio_vm_run1 cx =
    look_vm (\<lambda>s. let xi = vm_xi s; pc = vm_pc s in
      bind_vm (the_xenv xi) (\<lambda>e.
        if length (xe_byte_code e) \<le> pc then fail_vm (Vm_panic ''idio_vm_run1: bad PC!'')
        else bind_vm (lift_vm (fetch (xe_byte_code e) pc)) (\<lambda>((ins, ns), pc').
          seq_vm (upd_vm (vm_pc_update (\<lambda>_. pc')))
            (seq_vm (exec cx xi ins ns) (ret_vm (ins \<noteq> IDIO_A_FINISH))))))"

text \<open>
  The loop of \<^verbatim>\<open>idio_vm_run\<close>, for at most so many instructions: \<^verbatim>\<open>siglongjmp\<close> comes back to
  it. \<open>None\<close> is a run that has not ended yet; the signals and the garbage collector, that
  interrupt it between two instructions, are left out.
\<close>

fun run_loop :: "nat \<Rightarrow> vm_ctx \<Rightarrow> vm \<Rightarrow> (unit result \<times> vm) option" where
  "run_loop 0 cx s = None"
| "run_loop (Suc fuel) cx s =
    (case idio_vm_run1 cx s of
       (Inr True, s) \<Rightarrow> run_loop fuel cx s
     | (Inr False, s) \<Rightarrow> Some (Inr (), s)
     | (Inl e, s) \<Rightarrow> if e = Siglongjmp then run_loop fuel cx s else Some (Inl e, s))"

text \<open>A step that goes on, and any number of them.\<close>

definition vm_step :: "vm_ctx \<Rightarrow> vm \<Rightarrow> vm \<Rightarrow> bool" where
  "vm_step cx s s' \<longleftrightarrow> idio_vm_run1 cx s = (Inr True, s')"

inductive vm_steps :: "vm_ctx \<Rightarrow> vm \<Rightarrow> vm \<Rightarrow> bool" for cx where
  none: "vm_steps cx s s"
| some: "vm_step cx s s' \<Longrightarrow> vm_steps cx s' s'' \<Longrightarrow> vm_steps cx s s''"

end
