(* ===== verification/Idio_Meaning.thy ===== *)
theory Idio_Meaning
  imports Vm_Run1
begin

text \<open>
  The evaluator (\<^verbatim>\<open>src/src/evaluate.c\<close>): the tables of symbols of an evaluation
  environment, the tree of the names in scope, and the meanings of the forms of the
  language as intermediate code.

  A form is a list in C, told apart by its first element; here it is a datatype that keeps the
  value of the list. It is a form as \<^verbatim>\<open>idio_meaning\<close> passes it on: templates are expanded,
  the bodies of functions and blocks are rewritten, and a definition of a function has
  become that of a name.
\<close>

section \<open>Flags\<close>

datatype scope_flag = TOPLEVEL_SCOPE | DYNAMIC_SCOPE | ENVIRON_SCOPE | COMPUTED_SCOPE

text \<open>Of the bits of a scope one is set, or none.\<close>

record mflags =
  fl_tailp :: bool
  fl_scope :: "scope_flag option"
  fl_define :: bool
  fl_template :: bool

definition MEANING_FLAG_NONE :: mflags where
  "MEANING_FLAG_NONE = \<lparr>fl_tailp = False, fl_scope = None, fl_define = False, fl_template = False\<rparr>"

definition SET_TAILP :: "mflags \<Rightarrow> mflags" where "SET_TAILP fl = fl\<lparr>fl_tailp := True\<rparr>"
definition NOT_TAILP :: "mflags \<Rightarrow> mflags" where "NOT_TAILP fl = fl\<lparr>fl_tailp := False\<rparr>"
definition SET_SCOPE :: "scope_flag \<Rightarrow> mflags \<Rightarrow> mflags" where "SET_SCOPE sc fl = fl\<lparr>fl_scope := Some sc\<rparr>"
definition DEFINE :: "mflags \<Rightarrow> mflags" where "DEFINE fl = fl\<lparr>fl_define := True\<rparr>"

text \<open>\<^verbatim>\<open>IDIO_MEANING_NO_DEFINE\<close> compares the other bits with 0; the result is the bit of a tail call, or none.\<close>

definition NO_DEFINE :: "mflags \<Rightarrow> mflags" where
  "NO_DEFINE fl =
    (if \<not> fl_tailp fl \<and> fl_scope fl = None \<and> \<not> fl_template fl then SET_TAILP MEANING_FLAG_NONE else MEANING_FLAG_NONE)"

section \<open>The evaluation environment\<close>

text \<open>
  What the evaluator is given: the machine's context, the pairs that have source
  properties, and which primitives take any number of arguments or are
  \<^verbatim>\<open>run-in-thread\<close>.
\<close>

record meaning_ctx =
  mc_vm :: vm_ctx
  mc_has_properties :: "idio_value \<Rightarrow> bool"
  mc_varargs :: "idio_primitive \<Rightarrow> bool"
  mc_run_in_thread :: "idio_primitive \<Rightarrow> bool"

text \<open>
  The symbols with their information, the predefined ones in use (with the module for its
  name), and the tables of symbols and values for the machine.
\<close>

record menv = eenv +
  me_symbols :: "(idio_value \<times> idio_value) list"
  me_predefs :: "(int \<times> idio_value \<times> idio_value) list"
  me_st :: "idio_value list"
  me_vt :: "idio_value list"
  me_module :: idio_value
  me_aotp :: bool
  me_xi :: int

text \<open>The evaluator changes the environment and the machine.\<close>

type_synonym 'a mm = "menv \<Rightarrow> ('a \<times> menv) vmm"

definition ret_mm :: "'a \<Rightarrow> 'a mm" where "ret_mm x me = ret_vm (x, me)"
definition bind_mm :: "'a mm \<Rightarrow> ('a \<Rightarrow> 'b mm) \<Rightarrow> 'b mm" where
  "bind_mm f g me = bind_vm (f me) (\<lambda>(x, me). g x me)"
definition get_mm :: "(menv \<Rightarrow> 'a) \<Rightarrow> 'a mm" where "get_mm f me = ret_vm (f me, me)"
definition upd_mm :: "(menv \<Rightarrow> menv) \<Rightarrow> unit mm" where "upd_mm f me = ret_vm ((), f me)"
definition vm_mm :: "'a vmm \<Rightarrow> 'a mm" where "vm_mm f me = bind_vm f (\<lambda>x. ret_vm (x, me))"
definition fail_mm :: "idio_error \<Rightarrow> 'a mm" where "fail_mm e me = fail_vm e"

definition idio_meaning_flags_scope :: "meaning_ctx \<Rightarrow> mflags \<Rightarrow> idio_value mm" where
  "idio_meaning_flags_scope m fl =
    (case fl_scope fl of
       Some TOPLEVEL_SCOPE \<Rightarrow> ret_mm (cx_S_toplevel (mc_vm m))
     | Some DYNAMIC_SCOPE \<Rightarrow> ret_mm (cx_S_dynamic (mc_vm m))
     | Some ENVIRON_SCOPE \<Rightarrow> ret_mm (cx_S_environ (mc_vm m))
     | Some COMPUTED_SCOPE \<Rightarrow> ret_mm (cx_S_computed (mc_vm m))
     | None \<Rightarrow> fail_mm (Coding_error ''unexpected variable scope''))"

definition idio_meaning_constants_lookup_or_extend :: "idio_value \<Rightarrow> nat mm" where
  "idio_meaning_constants_lookup_or_extend name me =
    (let ci = (if name \<noteq> idio_S_nil
               then (case ee_ch me name of Some ci \<Rightarrow> Some ci | None \<Rightarrow> find_eqp (ee_cs me) name 0) else None)
     in case ci of Some ci \<Rightarrow> ret_vm (ci, me)
       | None \<Rightarrow>
          let ci = length (ee_cs me); me = me\<lparr>ee_cs := ee_cs me @ [name]\<rparr>
          in ret_vm (ci, if name \<noteq> idio_S_nil then me\<lparr>ee_ch := (ee_ch me)(name \<mapsto> ci)\<rparr> else me))"

definition idio_meaning_eenv_add_predef :: "int \<Rightarrow> idio_value \<Rightarrow> idio_value \<Rightarrow> unit mm" where
  "idio_meaning_eenv_add_predef sym_idx name mo =
    upd_mm (\<lambda>me. if sym_idx \<in> fst ` set (me_predefs me) then me
      else me\<lparr>me_predefs := (sym_idx, name, mo) # me_predefs me\<rparr>)"

text \<open>
  A new symbol: its index in the tables of symbols and of values. The index of its name among
  the constants is \<^verbatim>\<open>#f\<close> for the value of a function, for which the information has -1.
\<close>

definition idio_meaning_extend_tables ::
  "idio_value \<Rightarrow> idio_value \<Rightarrow> idio_value \<Rightarrow> idio_value \<Rightarrow> string \<Rightarrow> bool \<Rightarrow> nat mm" where
  "idio_meaning_extend_tables name scope fci mo desc set_symbol me =
    look_vm (\<lambda>s.
      let vi = length (me_vt me); mo = (if idio_isa_module s mo then mo else me_module me)
      in bind_vm (idio_gc_get (O_si \<lparr>si_scope = scope, si_xi = me_xi me, si_si = int vi,
             si_ci = (case fci of V_fixnum ci \<Rightarrow> ci | _ \<Rightarrow> - 1), si_vi = 0, si_module = mo, si_desc = desc\<rparr>)) (\<lambda>si.
         seq_vm (if set_symbol then idio_module_set_symbol name si mo else ret_vm ())
           (ret_vm (vi, me\<lparr>me_st := me_st me @ [fci], me_vt := me_vt me @ [V_fixnum 0],
              me_symbols := (name, si) # me_symbols me\<rparr>))))"

section \<open>Symbols\<close>

definition known_symbol :: "idio_value \<Rightarrow> idio_value mm" where
  "known_symbol name me =
    (case map_of (me_symbols me) name of Some si \<Rightarrow> ret_vm (si, me) | None \<Rightarrow> fail_vm Segmentation_fault)"

text \<open>
  A symbol that a module knows: a predefined one keeps the index of its value in the first
  execution environment.
\<close>

definition found_symbol :: "meaning_ctx \<Rightarrow> idio_value \<Rightarrow> idio_value \<Rightarrow> idio_value \<Rightarrow> bool mm" where
  "found_symbol m name fci name_si =
    bind_mm (vm_mm (the_si name_si)) (\<lambda>i.
    bind_mm (idio_meaning_extend_tables name (si_scope i) fci (si_module i) ''precompilation'' False) (\<lambda>_.
      if si_scope i = cx_S_predef (mc_vm m)
      then bind_mm (known_symbol name) (\<lambda>si. bind_mm (vm_mm (the_si si)) (\<lambda>j.
        bind_mm (vm_mm (set_obj si (O_si (j\<lparr>si_vi := si_vi i\<rparr>)))) (\<lambda>_.
        bind_mm (upd_mm (\<lambda>me. me\<lparr>me_vt := (me_vt me)[nat (si_si j) := V_fixnum (si_vi i)]\<rparr>)) (\<lambda>_. ret_mm True))))
      else ret_mm False))"

text \<open>A symbol that none knows may name one of another module.\<close>

definition unfound_symbol :: "meaning_ctx \<Rightarrow> idio_value \<Rightarrow> idio_value \<Rightarrow> idio_value \<Rightarrow> bool mm" where
  "unfound_symbol m name fci scope =
    bind_mm (vm_mm (idio_module_direct_reference (mc_vm m) name)) (\<lambda>sdr_si.
      if sdr_si = idio_S_false
      then bind_mm (idio_meaning_extend_tables name scope fci idio_S_false ''precompilation'' False) (\<lambda>_.
        ret_mm (scope = cx_S_predef (mc_vm m)))
      else bind_mm (vm_mm (the_si sdr_si)) (\<lambda>i.
        let predef = si_scope i = cx_S_predef (mc_vm m);
            new_scope = (if predef then cx_S_toplevel (mc_vm m) else si_scope i)
        in bind_mm (idio_meaning_extend_tables name new_scope fci (si_module i) (si_desc i) True) (\<lambda>_. ret_mm predef)))"

definition idio_meaning_find_symbol_recurse :: "meaning_ctx \<Rightarrow> idio_value \<Rightarrow> idio_value \<Rightarrow> nat \<Rightarrow> idio_value mm" where
  "idio_meaning_find_symbol_recurse m name scope recurse =
    bind_mm (get_mm (\<lambda>me. map_of (me_symbols me) name)) (\<lambda>known.
      case known of Some si \<Rightarrow> ret_mm si
      | None \<Rightarrow>
        bind_mm (idio_meaning_constants_lookup_or_extend name) (\<lambda>ci. let fci = V_fixnum (int ci) in
        bind_mm (get_mm me_module) (\<lambda>mo.
        bind_mm (vm_mm (idio_module_find_symbol_recurse (mc_vm m) name mo recurse)) (\<lambda>name_si.
        bind_mm (if name_si \<noteq> idio_S_false then found_symbol m name fci name_si else unfound_symbol m name fci scope)
          (\<lambda>add_predef.
        bind_mm (known_symbol name) (\<lambda>si.
        bind_mm (if add_predef
                 then bind_mm (vm_mm (the_si si)) (\<lambda>i. idio_meaning_eenv_add_predef (si_si i) name (si_module i))
                 else ret_mm ()) (\<lambda>_. ret_mm si)))))))"

definition idio_toplevel_extend :: "meaning_ctx \<Rightarrow> idio_value \<Rightarrow> mflags \<Rightarrow> int mm" where
  "idio_toplevel_extend m name fl =
    bind_mm (idio_meaning_flags_scope m fl) (\<lambda>scope.
    bind_mm (idio_meaning_find_symbol_recurse m name scope 0) (\<lambda>si.
    bind_mm (vm_mm (the_si si)) (\<lambda>i.
      if scope = si_scope i then ret_mm (si_si i)
      else if si_scope i \<noteq> cx_S_predef (mc_vm m) then fail_mm (Evaluation_error ''toplevel-extend: type change'')
      else bind_mm (idio_meaning_constants_lookup_or_extend name) (\<lambda>ci.
        bind_mm (idio_meaning_extend_tables name scope (V_fixnum (int ci)) idio_S_false ''toplevel-extend'' True) (\<lambda>_.
        bind_mm (idio_meaning_find_symbol_recurse m name scope 0) (\<lambda>si.
        bind_mm (vm_mm (the_si si)) (\<lambda>i. ret_mm (si_si i))))))))"

section \<open>The names in scope\<close>

text \<open>
  The tree of names is a list of lists of a name, how it was introduced and its index in
  the frame (of the symbol for dynamic and environ variables): the arguments of a
  function, or one name. The slot of the other arguments has the name \<^verbatim>\<open>#f\<close>.
\<close>

datatype nt_scope = NT_param | NT_local | NT_dynamic | NT_environ

type_synonym nametree = "(idio_value \<times> nt_scope \<times> int) list list"

text \<open>What is found: the frame and the index in it, or a symbol.\<close>

fun lexical_loop :: "nametree \<Rightarrow> idio_value \<Rightarrow> int \<Rightarrow> (nt_scope \<times> int \<times> int) option" where
  "lexical_loop [] name i = None"
| "lexical_loop (names # nametree) name i =
    (case names of
       [] \<Rightarrow> lexical_loop nametree name (i + 1)
     | (_, first, _) # _ \<Rightarrow>
        (case map_of names name of
           Some (scope, j) \<Rightarrow>
             Some (if scope = NT_param \<or> scope = NT_local then (scope, i, j) else (scope, j, j))
         | None \<Rightarrow> lexical_loop nametree name (if first = NT_param then i + 1 else i)))"

definition idio_meaning_lexical_lookup :: "nametree \<Rightarrow> idio_value \<Rightarrow> (nt_scope \<times> int \<times> int) option" where
  "idio_meaning_lexical_lookup nametree name = lexical_loop nametree name 0"

text \<open>The names up to the arguments of the function, the last ones first.\<close>

fun names_loop :: "nametree \<Rightarrow> idio_value list \<Rightarrow> idio_value list" where
  "names_loop [] r = r"
| "names_loop (v_list # nametree) r =
    (let r = rev (map fst v_list) @ r
     in if \<exists>v \<in> set v_list. fst (snd v) = NT_param then r else names_loop nametree r)"

definition idio_meaning_nametree_to_list :: "nametree \<Rightarrow> idio_value vmm" where
  "idio_meaning_nametree_to_list nametree = idio_list (names_loop nametree []) idio_S_nil"

definition idio_meaning_nametree_extend_vparams :: "nametree \<Rightarrow> idio_value list \<Rightarrow> nametree" where
  "idio_meaning_nametree_extend_vparams nametree names =
    rev (map (\<lambda>(i, name). (name, NT_param, int i)) (enumerate 0 names)) # nametree"

definition idio_meaning_nametree_extend_params :: "nametree \<Rightarrow> idio_value list \<Rightarrow> nametree" where
  "idio_meaning_nametree_extend_params nametree names =
    idio_meaning_nametree_extend_vparams nametree (names @ [idio_S_false])"

text \<open>The index of the next local name: behind the arguments and the locals of the function.
  No list of names in a tree is empty.\<close>

fun next_local :: "nametree \<Rightarrow> int \<Rightarrow> int" where
  "next_local [] i = i"
| "next_local (ns # nt) i =
    (case ns of
       [] \<Rightarrow> i
     | (_, first, _) # _ \<Rightarrow>
        if first = NT_local then next_local nt (i + 1)
        else if first = NT_param then i + int (length ns)
        else next_local nt i)"

definition idio_meaning_nametree_extend_local :: "nametree \<Rightarrow> idio_value \<Rightarrow> nametree" where
  "idio_meaning_nametree_extend_local nametree name = [(name, NT_local, next_local nametree 0)] # nametree"

definition idio_meaning_nametree_dynamic_extend :: "nametree \<Rightarrow> idio_value \<Rightarrow> int \<Rightarrow> nt_scope \<Rightarrow> nametree" where
  "idio_meaning_nametree_dynamic_extend nametree name index scope = [(name, scope, index)] # nametree"

section \<open>References and assignments\<close>

datatype var_info = Lexical nt_scope int int | Symbol idio_value

definition idio_meaning_variable_info ::
  "meaning_ctx \<Rightarrow> nametree \<Rightarrow> idio_value \<Rightarrow> mflags \<Rightarrow> nat \<Rightarrow> var_info mm" where
  "idio_meaning_variable_info m nametree name fl recurse =
    (case idio_meaning_lexical_lookup nametree name of
       Some (scope, i, j) \<Rightarrow> ret_mm (Lexical scope i j)
     | None \<Rightarrow>
        bind_mm (idio_meaning_flags_scope m fl) (\<lambda>scope.
        bind_mm (idio_meaning_find_symbol_recurse m name scope recurse) (\<lambda>si.
        bind_mm (vm_mm (the_si si)) (\<lambda>i.
          if si_scope i \<noteq> cx_S_predef (mc_vm m) then ret_mm (Symbol si)
          else bind_mm (get_mm me_module) (\<lambda>mo.
            bind_mm (vm_mm (idio_module_find_symbol_recurse (mc_vm m) name mo 0)) (\<lambda>newer_si.
              if newer_si = idio_S_false then ret_mm (Symbol si)
              else bind_mm (vm_mm (the_si newer_si)) (\<lambda>n.
                if si_scope n \<noteq> cx_S_toplevel (mc_vm m) then ret_mm (Symbol si)
                else bind_mm (idio_toplevel_extend m name fl) (\<lambda>_.
                  bind_mm (idio_meaning_find_symbol_recurse m name (cx_S_toplevel (mc_vm m)) 0) (\<lambda>si.
                  bind_mm (vm_mm (the_si si)) (\<lambda>i.
                  bind_mm (vm_mm (set_obj si (O_si (i\<lparr>si_vi := si_vi n\<rparr>)))) (\<lambda>_. ret_mm (Symbol si))))))))))))"

text \<open>The two kinds of reference differ in the code for a symbol.\<close>

definition frame_ref :: "int \<Rightarrow> int \<Rightarrow> icode" where
  "frame_ref i j = (if i = 0 then I_SHALLOW_ARGUMENT_REF j else I_DEEP_ARGUMENT_REF i j)"

definition frame_set :: "int \<Rightarrow> int \<Rightarrow> icode \<Rightarrow> icode" where
  "frame_set i j v = (if i = 0 then I_SHALLOW_ARGUMENT_SET j v else I_DEEP_ARGUMENT_SET i j v)"

definition predefined_ref :: "idio_value \<Rightarrow> symbol_info \<Rightarrow> icode mm" where
  "predefined_ref name i =
    bind_mm (idio_meaning_eenv_add_predef (si_si i) name (si_module i)) (\<lambda>_. ret_mm (I_PREDEFINED (si_si i)))"

definition idio_meaning_reference :: "meaning_ctx \<Rightarrow> idio_value \<Rightarrow> nametree \<Rightarrow> mflags \<Rightarrow> icode mm" where
  "idio_meaning_reference m name nametree fl =
    bind_mm (idio_meaning_variable_info m nametree name fl 1) (\<lambda>info.
      case info of
        Lexical NT_dynamic i j \<Rightarrow> ret_mm (I_DYNAMIC_SYM_REF j)
      | Lexical NT_environ i j \<Rightarrow> ret_mm (I_ENVIRON_SYM_REF j)
      | Lexical _ i j \<Rightarrow> ret_mm (frame_ref i j)
      | Symbol si \<Rightarrow> bind_mm (vm_mm (the_si si)) (\<lambda>i.
          if si_scope i = cx_S_toplevel (mc_vm m) then ret_mm (I_SYM_REF (si_si i))
          else if si_scope i = cx_S_dynamic (mc_vm m) then ret_mm (I_DYNAMIC_SYM_REF (si_si i))
          else if si_scope i = cx_S_environ (mc_vm m) then ret_mm (I_ENVIRON_SYM_REF (si_si i))
          else if si_scope i = cx_S_computed (mc_vm m) then ret_mm (I_COMPUTED_SYM_REF (si_si i))
          else if si_scope i = cx_S_predef (mc_vm m) then predefined_ref name i
          else fail_mm (Evaluation_error ''static variable unbound'')))"

definition idio_meaning_function_reference :: "meaning_ctx \<Rightarrow> idio_value \<Rightarrow> nametree \<Rightarrow> mflags \<Rightarrow> icode mm" where
  "idio_meaning_function_reference m name nametree fl =
    bind_mm (idio_meaning_variable_info m nametree name (SET_SCOPE TOPLEVEL_SCOPE fl) 1) (\<lambda>info.
      case info of
        Lexical NT_dynamic i j \<Rightarrow> ret_mm (I_DYNAMIC_FUNCTION_SYM_REF j)
      | Lexical NT_environ i j \<Rightarrow> ret_mm (I_ENVIRON_SYM_REF j)
      | Lexical _ i j \<Rightarrow> ret_mm (frame_ref i j)
      | Symbol si \<Rightarrow> bind_mm (vm_mm (the_si si)) (\<lambda>i.
          if si_scope i = cx_S_toplevel (mc_vm m) then ret_mm (I_FUNCTION_SYM_REF (si_si i))
          else if si_scope i = cx_S_dynamic (mc_vm m) then ret_mm (I_DYNAMIC_FUNCTION_SYM_REF (si_si i))
          else if si_scope i = cx_S_environ (mc_vm m) then ret_mm (I_ENVIRON_SYM_REF (si_si i))
          else if si_scope i = cx_S_computed (mc_vm m) then ret_mm (I_COMPUTED_SYM_REF (si_si i))
          else if si_scope i = cx_S_predef (mc_vm m) then predefined_ref name i
          else fail_mm (Evaluation_error ''static variable unbound'')))"

text \<open>
  The meaning of a part of a form, that is still to be given the source of the whole,
  the names and the flags. \<open>e\<close> is the value.
\<close>

type_synonym sub_meaning = "idio_value \<Rightarrow> nametree \<Rightarrow> mflags \<Rightarrow> icode mm"

definition sym_assign :: "mflags \<Rightarrow> idio_value \<Rightarrow> idio_value \<Rightarrow> idio_value \<Rightarrow> int \<Rightarrow> icode \<Rightarrow> icode" where
  "sym_assign fl src name scope sym_idx v =
    (if fl_define fl then I_list [I_SYM_DEF name scope sym_idx, I_SYM_SET src sym_idx v] else I_SYM_SET src sym_idx v)"

definition scope_symbol :: "meaning_ctx \<Rightarrow> nt_scope \<Rightarrow> idio_value" where
  "scope_symbol m scope = (if scope = NT_dynamic then cx_S_dynamic (mc_vm m) else cx_S_environ (mc_vm m))"

text \<open>
  An assignment to a predefined name makes a new symbol of the same name, with the
  value it had, for the templates that use it.
\<close>

definition idio_meaning_assignment ::
  "meaning_ctx \<Rightarrow> idio_value \<Rightarrow> idio_value \<Rightarrow> sub_meaning \<Rightarrow> nametree \<Rightarrow> mflags \<Rightarrow> icode mm" where
  "idio_meaning_assignment m src name e nametree fl =
    bind_mm (e src nametree (NO_DEFINE (NOT_TAILP fl))) (\<lambda>v.
    bind_mm (idio_meaning_variable_info m nametree name fl (if fl_define fl then 0 else 1)) (\<lambda>info.
      case info of
        Lexical scope i j \<Rightarrow>
          ret_mm (if scope = NT_param \<or> scope = NT_local then frame_set i j v
            else sym_assign fl src name (scope_symbol m scope) j v)
      | Symbol si \<Rightarrow> bind_mm (vm_mm (the_si si)) (\<lambda>i.
          if si_scope i = cx_S_toplevel (mc_vm m) \<or> si_scope i = cx_S_dynamic (mc_vm m) \<or> si_scope i = cx_S_environ (mc_vm m)
          then ret_mm (sym_assign fl src name (si_scope i) (si_si i) v)
          else if si_scope i = cx_S_computed (mc_vm m)
          then ret_mm (if fl_define fl
            then I_list [I_SYM_DEF name (si_scope i) (si_si i), I_COMPUTED_SYM_DEF (si_si i) v]
            else I_COMPUTED_SYM_SET (si_si i) v)
          else if si_scope i = cx_S_predef (mc_vm m)
          then bind_mm (idio_meaning_eenv_add_predef (si_si i) name (si_module i)) (\<lambda>_.
            bind_mm (idio_toplevel_extend m name (DEFINE (SET_SCOPE TOPLEVEL_SCOPE fl))) (\<lambda>sym_idx.
            bind_mm (get_mm me_module) (\<lambda>mo.
            bind_mm (vm_mm (bind_vm (the_si si) (\<lambda>i. bind_vm (idio_vm_values_ref (mc_vm m) 0 (u64 (si_vi i))) (\<lambda>val.
              bind_vm (get_vm vm_xi) (\<lambda>xi. cx_set_symbol_value (mc_vm m) xi name val mo))))) (\<lambda>_.
            ret_mm (sym_assign fl src name (cx_S_toplevel (mc_vm m)) sym_idx v)))))
          else fail_mm (Evaluation_error ''static variable unbound''))))"

text \<open>
  A definition gives a new symbol a value unless the code is compiled ahead of time. The
  information of a name in scope has no index of a value: it is read from what is no
  pair.
\<close>

definition idio_meaning_define ::
  "meaning_ctx \<Rightarrow> idio_value \<Rightarrow> idio_value \<Rightarrow> sub_meaning \<Rightarrow> nametree \<Rightarrow> mflags \<Rightarrow> icode mm" where
  "idio_meaning_define m src name e nametree fl =
    (let define_flags = DEFINE (SET_SCOPE TOPLEVEL_SCOPE fl) in
     bind_mm (idio_meaning_variable_info m nametree name define_flags 0) (\<lambda>info.
       case info of
         Lexical _ _ _ \<Rightarrow> fail_mm Segmentation_fault
       | Symbol si \<Rightarrow> bind_mm (vm_mm (the_si si)) (\<lambda>i. bind_mm (get_mm me_aotp) (\<lambda>aotp.
           bind_mm (if si_scope i = cx_S_toplevel (mc_vm m) \<and> si_vi i = 0 \<and> \<not> aotp
             then bind_mm (vm_mm (idio_vm_extend_values 0)) (\<lambda>gvi.
               vm_mm (set_obj si (O_si (i\<lparr>si_vi := int gvi, si_desc := ''define/gvi=0''\<rparr>))))
             else ret_mm ()) (\<lambda>_.
           idio_meaning_assignment m src name e nametree define_flags)))))"

definition idio_meaning_define_dynamic ::
  "meaning_ctx \<Rightarrow> idio_value \<Rightarrow> idio_value \<Rightarrow> sub_meaning \<Rightarrow> nametree \<Rightarrow> mflags \<Rightarrow> icode mm" where
  "idio_meaning_define_dynamic m src name e nametree fl =
    idio_meaning_assignment m src name e nametree (DEFINE (SET_SCOPE DYNAMIC_SCOPE fl))"

definition idio_meaning_define_environ ::
  "meaning_ctx \<Rightarrow> idio_value \<Rightarrow> idio_value \<Rightarrow> sub_meaning \<Rightarrow> nametree \<Rightarrow> mflags \<Rightarrow> icode mm" where
  "idio_meaning_define_environ m src name e nametree fl =
    idio_meaning_assignment m src name e nametree (DEFINE (SET_SCOPE ENVIRON_SCOPE fl))"

section \<open>The forms\<close>

definition idio_meaning_quotation :: "idio_value \<Rightarrow> icode mm" where
  "idio_meaning_quotation v = ret_mm (I_CONSTANT_REF v)"

definition idio_meaning_not :: "idio_value \<Rightarrow> sub_meaning \<Rightarrow> nametree \<Rightarrow> mflags \<Rightarrow> icode mm" where
  "idio_meaning_not src e nametree fl =
    bind_mm (e src nametree (NOT_TAILP fl)) (\<lambda>v. ret_mm (I_NOT (fl_tailp fl) v))"

definition idio_meaning_alternative ::
  "idio_value \<Rightarrow> sub_meaning \<Rightarrow> sub_meaning \<Rightarrow> sub_meaning \<Rightarrow> nametree \<Rightarrow> mflags \<Rightarrow> icode mm" where
  "idio_meaning_alternative src e1 e2 e3 nametree fl =
    bind_mm (e1 src nametree (NOT_TAILP fl)) (\<lambda>m1.
    bind_mm (e2 src nametree fl) (\<lambda>m2.
    bind_mm (e3 src nametree fl) (\<lambda>m3. ret_mm (I_ALTERNATIVE src m1 m2 m3))))"

text \<open>The meanings in order; the last is in the place of the whole.\<close>

datatype sequence_keyword = K_and | K_or | K_begin

fun sequence_loop :: "idio_value \<Rightarrow> sub_meaning list \<Rightarrow> nametree \<Rightarrow> mflags \<Rightarrow> icode list mm" where
  "sequence_loop src [] nametree fl = ret_mm []"
| "sequence_loop src (e # es) nametree fl =
    bind_mm (e src nametree (if es = [] then fl else NOT_TAILP fl)) (\<lambda>v.
    bind_mm (sequence_loop src es nametree fl) (\<lambda>vs. ret_mm (v # vs)))"

definition sequence_code :: "sequence_keyword \<Rightarrow> bool \<Rightarrow> icode list \<Rightarrow> icode" where
  "sequence_code keyword tailp vs =
    (case keyword of K_and \<Rightarrow> I_AND tailp (hd vs) (tl vs) | K_or \<Rightarrow> I_OR tailp (hd vs) (tl vs) | K_begin \<Rightarrow> I_BEGIN vs)"

definition idio_meaning_sequence ::
  "idio_value \<Rightarrow> sub_meaning list \<Rightarrow> nametree \<Rightarrow> mflags \<Rightarrow> sequence_keyword \<Rightarrow> icode mm" where
  "idio_meaning_sequence src es nametree fl keyword =
    (if es = [] then fail_mm (Evaluation_error ''sequence: not a pair'')
     else bind_mm (sequence_loop src es nametree fl) (\<lambda>vs. ret_mm (sequence_code keyword (fl_tailp fl) vs)))"

text \<open>The value of a function has an entry without a name in the tables.\<close>

definition idio_meaning_fix_abstraction ::
  "meaning_ctx \<Rightarrow> idio_value \<Rightarrow> idio_value \<Rightarrow> idio_value list \<Rightarrow> idio_value \<Rightarrow> sub_meaning list \<Rightarrow> nametree \<Rightarrow> mflags \<Rightarrow>
    icode mm" where
  "idio_meaning_fix_abstraction m src name ns docstr ep nametree fl =
    (let ent = idio_meaning_nametree_extend_params nametree ns in
     bind_mm (idio_meaning_sequence src ep ent (SET_TAILP fl) K_begin) (\<lambda>mp.
     bind_mm (idio_meaning_extend_tables idio_S_false (cx_S_toplevel (mc_vm m)) idio_S_false idio_S_false
       ''fix-abstraction'' False) (\<lambda>vi.
     bind_mm (vm_mm (idio_meaning_nametree_to_list ent)) (\<lambda>formals.
       ret_mm (I_FIX_CLOSURE mp name (int (length ns)) formals docstr src (int vi))))))"

definition idio_meaning_dotted_abstraction ::
  "meaning_ctx \<Rightarrow> idio_value \<Rightarrow> idio_value \<Rightarrow> idio_value list \<Rightarrow> idio_value \<Rightarrow> idio_value \<Rightarrow> sub_meaning list \<Rightarrow> nametree \<Rightarrow>
    mflags \<Rightarrow> icode mm" where
  "idio_meaning_dotted_abstraction m src name ns n docstr ep nametree fl =
    (let ent = idio_meaning_nametree_extend_vparams nametree (ns @ [n]) in
     bind_mm (idio_meaning_sequence src ep ent (SET_TAILP fl) K_begin) (\<lambda>mp.
     bind_mm (idio_meaning_extend_tables idio_S_false (cx_S_toplevel (mc_vm m)) idio_S_false idio_S_false
       ''dotted-abstraction'' False) (\<lambda>vi.
     bind_mm (vm_mm (idio_meaning_nametree_to_list ent)) (\<lambda>formals.
       ret_mm (I_NARY_CLOSURE mp name (int (length ns)) formals docstr src (int vi))))))"

text \<open>The formals are a list, with or without a name for the other arguments at its end.\<close>

definition idio_meaning_abstraction ::
  "meaning_ctx \<Rightarrow> idio_value \<Rightarrow> idio_value \<Rightarrow> idio_value list \<Rightarrow> idio_value option \<Rightarrow> idio_value \<Rightarrow> sub_meaning list \<Rightarrow>
    nametree \<Rightarrow> mflags \<Rightarrow> icode mm" where
  "idio_meaning_abstraction m src name ns rest docstr ep nametree fl =
    (case rest of
       None \<Rightarrow> idio_meaning_fix_abstraction m src name ns docstr ep nametree fl
     | Some n \<Rightarrow> idio_meaning_dotted_abstraction m src name ns n docstr ep nametree fl)"

text \<open>
  The source of a form is that of the whole unless it has properties of its own. Those of the
  whole have been copied to the body of a function that is called where it stands, and of a
  local name, before they are asked for.
\<close>

definition IDIO_MPP :: "meaning_ctx \<Rightarrow> idio_value \<Rightarrow> idio_value \<Rightarrow> idio_value" where
  "IDIO_MPP m e src = (if mc_has_properties m e then e else src)"

section \<open>Arguments\<close>

fun idio_meaning_arguments :: "idio_value \<Rightarrow> sub_meaning list \<Rightarrow> nametree \<Rightarrow> nat \<Rightarrow> mflags \<Rightarrow> icode mm" where
  "idio_meaning_arguments src [] nametree arity fl = ret_mm (I_ALLOCATE_FRAME (int arity))"
| "idio_meaning_arguments src (ae # aes) nametree arity fl =
    bind_mm (ae src nametree (NOT_TAILP fl)) (\<lambda>am.
    bind_mm (idio_meaning_arguments src aes nametree arity fl) (\<lambda>ams.
      ret_mm (I_STORE_ARGUMENT am ams (int arity - (int (length aes) + 1)))))"

fun idio_meaning_dotted_arguments ::
  "idio_value \<Rightarrow> sub_meaning list \<Rightarrow> nametree \<Rightarrow> nat \<Rightarrow> nat \<Rightarrow> mflags \<Rightarrow> icode mm" where
  "idio_meaning_dotted_arguments src [] nametree nargs arity fl = ret_mm (I_ALLOCATE_FRAME (int arity))"
| "idio_meaning_dotted_arguments src (ae # aes) nametree nargs arity fl =
    bind_mm (ae src nametree (NOT_TAILP fl)) (\<lambda>am.
    bind_mm (idio_meaning_dotted_arguments src aes nametree nargs arity fl) (\<lambda>ams.
      let rank = int nargs - (int (length aes) + 1)
      in ret_mm (if rank < int arity then I_STORE_ARGUMENT am ams rank else I_LIST_ARGUMENT am ams (int arity))))"

definition fix_let :: "bool \<Rightarrow> icode \<Rightarrow> icode \<Rightarrow> idio_value \<Rightarrow> idio_value \<Rightarrow> icode" where
  "fix_let tailp ams mbody formals src = (if tailp then I_TR_FIX_LET ams mbody formals src else I_FIX_LET ams mbody formals src)"

text \<open>A function that is called where it stands.\<close>

definition idio_meaning_fix_closed_application ::
  "meaning_ctx \<Rightarrow> idio_value \<Rightarrow> idio_value list \<Rightarrow> idio_value \<Rightarrow> sub_meaning list \<Rightarrow> sub_meaning list \<Rightarrow> nametree \<Rightarrow> mflags \<Rightarrow> icode mm" where
  "idio_meaning_fix_closed_application m src ns be body aes nametree fl =
    bind_mm (idio_meaning_arguments src aes nametree (length aes) (NOT_TAILP fl)) (\<lambda>ams.
    let ent = idio_meaning_nametree_extend_params nametree ns in
    bind_mm (idio_meaning_sequence (IDIO_MPP m be src) body ent fl K_begin) (\<lambda>mbody.
    bind_mm (vm_mm (idio_meaning_nametree_to_list ent)) (\<lambda>formals.
      ret_mm (fix_let (fl_tailp fl) ams mbody formals src))))"

definition idio_meaning_dotted_closed_application ::
  "meaning_ctx \<Rightarrow> idio_value \<Rightarrow> idio_value list \<Rightarrow> idio_value \<Rightarrow> idio_value \<Rightarrow> sub_meaning list \<Rightarrow> sub_meaning list \<Rightarrow>
    nametree \<Rightarrow> mflags \<Rightarrow> icode mm" where
  "idio_meaning_dotted_closed_application m src ns n be body aes nametree fl =
    bind_mm (idio_meaning_dotted_arguments src aes nametree (length aes) (length ns) (NOT_TAILP fl)) (\<lambda>ams.
    let ent = idio_meaning_nametree_extend_vparams nametree (ns @ [n]) in
    bind_mm (idio_meaning_sequence (IDIO_MPP m be src) body ent fl K_begin) (\<lambda>mbody.
    bind_mm (vm_mm (idio_meaning_nametree_to_list ent)) (\<lambda>formals.
      ret_mm (fix_let (fl_tailp fl) ams mbody formals src))))"

text \<open>The walk along the formals and the arguments.\<close>

definition idio_meaning_closed_application ::
  "meaning_ctx \<Rightarrow> idio_value \<Rightarrow> idio_value list \<Rightarrow> idio_value option \<Rightarrow> idio_value \<Rightarrow> sub_meaning list \<Rightarrow> sub_meaning list \<Rightarrow> nametree \<Rightarrow> mflags \<Rightarrow>
    icode mm" where
  "idio_meaning_closed_application m fe ns rest be body aes nametree fl =
    (if length aes < length ns then fail_mm (Evaluation_error ''closed function: not enough arguments'')
     else case rest of
         None \<Rightarrow>
           if length ns < length aes then fail_mm (Evaluation_error ''closed function: too many arguments'')
           else idio_meaning_fix_closed_application m fe ns be body aes nametree fl
       | Some n \<Rightarrow> idio_meaning_dotted_closed_application m fe ns n be body aes nametree fl)"

definition idio_meaning_local_application ::
  "meaning_ctx \<Rightarrow> idio_value \<Rightarrow> idio_value \<Rightarrow> sub_meaning \<Rightarrow> idio_value \<Rightarrow> sub_meaning list \<Rightarrow> nametree \<Rightarrow> mflags \<Rightarrow> icode mm" where
  "idio_meaning_local_application m src n ae be body nametree fl =
    bind_mm (ae src nametree (NOT_TAILP fl)) (\<lambda>am.
    let ent = idio_meaning_nametree_extend_local nametree n in
    bind_mm (idio_meaning_sequence (IDIO_MPP m be src) body ent fl K_begin) (\<lambda>mbody.
      case idio_meaning_lexical_lookup ent n of
        None \<Rightarrow> fail_mm Segmentation_fault
      | Some (_, _, j) \<Rightarrow>
          bind_mm (vm_mm (idio_meaning_nametree_to_list ent)) (\<lambda>formals. ret_mm (I_LOCAL src j am mbody formals))))"

section \<open>Dynamic and environ variables\<close>

definition idio_meaning_dynamic_let ::
  "meaning_ctx \<Rightarrow> idio_value \<Rightarrow> idio_value \<Rightarrow> sub_meaning \<Rightarrow> sub_meaning list \<Rightarrow> nametree \<Rightarrow> mflags \<Rightarrow> icode mm" where
  "idio_meaning_dynamic_let m src name e ep nametree fl =
    bind_mm (e src nametree (NOT_TAILP fl)) (\<lambda>v.
    bind_mm (idio_meaning_find_symbol_recurse m name (cx_S_dynamic (mc_vm m)) 1) (\<lambda>si.
    bind_mm (vm_mm (the_si si)) (\<lambda>i.
    bind_mm (idio_meaning_sequence src ep (idio_meaning_nametree_dynamic_extend nametree name (si_si i) NT_dynamic)
      (NOT_TAILP fl) K_begin) (\<lambda>mp.
      ret_mm (I_list [I_SYM_DEF name (cx_S_dynamic (mc_vm m)) (si_si i),
        I_list [I_PUSH_DYNAMIC (si_si i) v, mp, I_POP_DYNAMIC]])))))"

definition idio_meaning_environ_let ::
  "meaning_ctx \<Rightarrow> idio_value \<Rightarrow> idio_value \<Rightarrow> sub_meaning \<Rightarrow> sub_meaning list \<Rightarrow> nametree \<Rightarrow> mflags \<Rightarrow> icode mm" where
  "idio_meaning_environ_let m src name e ep nametree fl =
    bind_mm (e src nametree (NOT_TAILP fl)) (\<lambda>v.
    bind_mm (idio_meaning_find_symbol_recurse m name (cx_S_environ (mc_vm m)) 1) (\<lambda>si.
    bind_mm (vm_mm (the_si si)) (\<lambda>i.
    bind_mm (idio_meaning_sequence src ep (idio_meaning_nametree_dynamic_extend nametree name (si_si i) NT_environ)
      (NOT_TAILP fl) K_begin) (\<lambda>mp.
      ret_mm (I_list [I_SYM_DEF name (cx_S_environ (mc_vm m)) (si_si i),
        I_list [I_PUSH_ENVIRON (si_si i) v, mp, I_POP_ENVIRON]])))))"

section \<open>Applications\<close>

text \<open>The operator of an application: a name, or a form with its value.\<close>

datatype function_form = F_name idio_value | F_form idio_value sub_meaning

definition idio_meaning_regular_application ::
  "meaning_ctx \<Rightarrow> idio_value \<Rightarrow> function_form \<Rightarrow> sub_meaning list \<Rightarrow> nametree \<Rightarrow> mflags \<Rightarrow> icode mm" where
  "idio_meaning_regular_application m src fe aes nametree fl =
    bind_mm (case fe of
        F_name name \<Rightarrow> idio_meaning_function_reference m name nametree fl
      | F_form v f \<Rightarrow> f v nametree (NOT_TAILP fl)) (\<lambda>fm.
    bind_mm (idio_meaning_arguments src aes nametree (length aes) (NOT_TAILP fl)) (\<lambda>ams.
      ret_mm (if fl_tailp fl then I_TR_REGULAR_CALL src fm ams else I_REGULAR_CALL src fm ams)))"

definition idio_meaning_primitive_application ::
  "meaning_ctx \<Rightarrow> idio_value \<Rightarrow> function_form \<Rightarrow> sub_meaning list \<Rightarrow> nametree \<Rightarrow> mflags \<Rightarrow> idio_primitive \<Rightarrow> int \<Rightarrow> icode mm" where
  "idio_meaning_primitive_application m src fe aes nametree fl p si =
    (if mc_varargs m p then idio_meaning_regular_application m src fe aes nametree fl
     else case aes of
         [] \<Rightarrow> ret_mm (I_PRIMCALL0 src si)
       | [e1] \<Rightarrow> bind_mm (e1 src nametree (NOT_TAILP fl)) (\<lambda>m1. ret_mm (I_PRIMCALL1 src m1 si))
       | [e1, e2] \<Rightarrow>
           bind_mm (e1 src nametree (NOT_TAILP fl)) (\<lambda>m1.
           bind_mm (e2 src nametree (NOT_TAILP fl)) (\<lambda>m2.
             if mc_run_in_thread m p then idio_meaning_regular_application m src fe aes nametree fl
             else ret_mm (I_PRIMCALL2 src m1 m2 si)))
       | _ \<Rightarrow> idio_meaning_regular_application m src fe aes nametree fl)"

text \<open>A predefined name with the primitive it is for, when it has one.\<close>

definition predefined_primitive :: "meaning_ctx \<Rightarrow> idio_value \<Rightarrow> nametree \<Rightarrow> mflags \<Rightarrow> (idio_primitive \<times> int) option mm" where
  "predefined_primitive m name nametree fl =
    bind_mm (idio_meaning_variable_info m nametree name (SET_SCOPE TOPLEVEL_SCOPE fl) 1) (\<lambda>info.
      case info of
        Lexical _ _ _ \<Rightarrow> ret_mm None
      | Symbol si \<Rightarrow> bind_mm (vm_mm (the_si si)) (\<lambda>i.
          if si_scope i \<noteq> cx_S_predef (mc_vm m) then ret_mm None
          else bind_mm (vm_mm (idio_vm_values_ref (mc_vm m) 0 (u64 (si_vi i)))) (\<lambda>p.
            vm_mm (get_vm (\<lambda>s. case obj_at s p of Some (O_primitive pd) \<Rightarrow> Some (pd, si_si i) | _ \<Rightarrow> None)))))"

definition idio_meaning_application ::
  "meaning_ctx \<Rightarrow> idio_value \<Rightarrow> function_form \<Rightarrow> sub_meaning list \<Rightarrow> nametree \<Rightarrow> mflags \<Rightarrow> icode mm" where
  "idio_meaning_application m src fe aes nametree fl =
    bind_mm (case fe of F_name name \<Rightarrow> predefined_primitive m name nametree fl | F_form _ _ \<Rightarrow> ret_mm None) (\<lambda>prim.
      case prim of
        None \<Rightarrow> idio_meaning_regular_application m src fe aes nametree fl
      | Some (p, si) \<Rightarrow>
          if (mc_varargs m p \<and> pr_arity p \<le> length aes) \<or> pr_arity p = length aes
          then idio_meaning_primitive_application m src fe aes nametree fl p si
          else fail_mm (Evaluation_error ''wrong arity for primitive''))"

section \<open>The meaning of a form\<close>

text \<open>
  The first component is the value of the form. \<open>E_quote\<close> is \<^verbatim>\<open>quote\<close> and every constant;
  \<open>E_closed\<close> has the value of the function in the operator's place, its formals and its body, as a value and as forms.
  The operator of \<open>E_apply\<close> is no function form, which makes \<open>E_closed\<close>; an assignment to
  a call is an application of the setter, and so \<open>E_apply\<close>, too.
  \<^verbatim>\<open>dynamic-unset\<close> and \<^verbatim>\<open>environ-unset\<close> are the forms of \<^verbatim>\<open>let\<close> with the undefined value, and an
  \<^verbatim>\<open>if\<close> without the last branch has the constant \<^verbatim>\<open>void\<close> there. Of the kinds that
  \<^verbatim>\<open>idio_meaning\<close> tells apart, those without a constructor are \<^verbatim>\<open>quasiquote\<close>, \<^verbatim>\<open>cond\<close>, \<^verbatim>\<open>block\<close>, the
  definitions of templates and operators, \<^verbatim>\<open>%trap\<close>, \<^verbatim>\<open>include\<close> and \<^verbatim>\<open>template-expand\<close>.
\<close>

datatype form =
    E_quote idio_value idio_value
  | E_name idio_value
  | E_dynamic idio_value idio_value
  | E_environ idio_value idio_value
  | E_computed idio_value idio_value
  | E_escape idio_value form
  | E_not idio_value form
  | E_if idio_value form form form
  | E_seq idio_value sequence_keyword "form list"
  | E_set idio_value idio_value form
  | E_define idio_value idio_value form
  | E_define_dynamic idio_value idio_value form
  | E_define_environ idio_value idio_value form
  | E_define_computed idio_value idio_value form
  | E_function idio_value idio_value "idio_value list" "idio_value option" idio_value "form list"
  | E_local idio_value idio_value form idio_value "form list"
  | E_dynamic_let idio_value idio_value form "form list"
  | E_environ_let idio_value idio_value form "form list"
  | E_closed idio_value idio_value "idio_value list" "idio_value option" idio_value "form list" "form list"
  | E_apply idio_value form "form list"

primrec source :: "form \<Rightarrow> idio_value" where
  "source (E_quote e v) = e"
| "source (E_name e) = e"
| "source (E_dynamic e x) = e"
| "source (E_environ e x) = e"
| "source (E_computed e x) = e"
| "source (E_escape e e1) = e"
| "source (E_not e e1) = e"
| "source (E_if e e1 e2 e3) = e"
| "source (E_seq e k es) = e"
| "source (E_set e x e1) = e"
| "source (E_define e x e1) = e"
| "source (E_define_dynamic e x e1) = e"
| "source (E_define_environ e x e1) = e"
| "source (E_define_computed e x e1) = e"
| "source (E_function e name ns rest doc es) = e"
| "source (E_local e x e1 be es) = e"
| "source (E_dynamic_let e x e1 es) = e"
| "source (E_environ_let e x e1 es) = e"
| "source (E_closed e fe ns rest be es aes) = e"
| "source (E_apply e f aes) = e"

text \<open>\<open>idio_meaning m e src\<close> is \<^verbatim>\<open>idio_meaning (IDIO_MPP (e, src), e, ...)\<close>, as the evaluator calls it for each part.\<close>

primrec idio_meaning :: "meaning_ctx \<Rightarrow> form \<Rightarrow> sub_meaning" where
  "idio_meaning m (E_quote e v) src nametree fl = idio_meaning_quotation v"
| "idio_meaning m (E_name x) src nametree fl = idio_meaning_reference m x nametree (SET_SCOPE TOPLEVEL_SCOPE fl)"
| "idio_meaning m (E_dynamic e x) src nametree fl = idio_meaning_reference m x nametree (SET_SCOPE DYNAMIC_SCOPE fl)"
| "idio_meaning m (E_environ e x) src nametree fl = idio_meaning_reference m x nametree (SET_SCOPE ENVIRON_SCOPE fl)"
| "idio_meaning m (E_computed e x) src nametree fl = idio_meaning_reference m x nametree (SET_SCOPE COMPUTED_SCOPE fl)"
| "idio_meaning m (E_escape e e1) src nametree fl = idio_meaning m e1 (IDIO_MPP m e src) nametree fl"
| "idio_meaning m (E_not e e1) src nametree fl = idio_meaning_not (IDIO_MPP m e src) (idio_meaning m e1) nametree fl"
| "idio_meaning m (E_if e e1 e2 e3) src nametree fl =
    idio_meaning_alternative (IDIO_MPP m e src) (idio_meaning m e1) (idio_meaning m e2) (idio_meaning m e3) nametree fl"
| "idio_meaning m (E_seq e k es) src nametree fl =
    idio_meaning_sequence (IDIO_MPP m e src) (map (idio_meaning m) es) nametree fl k"
| "idio_meaning m (E_set e x e1) src nametree fl =
    idio_meaning_assignment m (IDIO_MPP m e src) x (idio_meaning m e1) nametree (SET_SCOPE TOPLEVEL_SCOPE fl)"
| "idio_meaning m (E_define e x e1) src nametree fl =
    idio_meaning_define m (IDIO_MPP m e src) x (idio_meaning m e1) nametree fl"
| "idio_meaning m (E_define_dynamic e x e1) src nametree fl =
    idio_meaning_define_dynamic m (IDIO_MPP m e src) x (idio_meaning m e1) nametree fl"
| "idio_meaning m (E_define_environ e x e1) src nametree fl =
    idio_meaning_define_environ m (IDIO_MPP m e src) x (idio_meaning m e1) nametree fl"
| "idio_meaning m (E_define_computed e x e1) src nametree fl =
    idio_meaning_assignment m (IDIO_MPP m e src) x (idio_meaning m e1) nametree (DEFINE (SET_SCOPE COMPUTED_SCOPE fl))"
| "idio_meaning m (E_function e name ns rest doc es) src nametree fl =
    idio_meaning_abstraction m (IDIO_MPP m e src) name ns rest doc (map (idio_meaning m) es) nametree fl"
| "idio_meaning m (E_local e x e1 be es) src nametree fl =
    idio_meaning_local_application m (IDIO_MPP m e src) x (idio_meaning m e1) be (map (idio_meaning m) es) nametree fl"
| "idio_meaning m (E_dynamic_let e x e1 es) src nametree fl =
    idio_meaning_dynamic_let m (IDIO_MPP m e src) x (idio_meaning m e1) (map (idio_meaning m) es) nametree fl"
| "idio_meaning m (E_environ_let e x e1 es) src nametree fl =
    idio_meaning_environ_let m (IDIO_MPP m e src) x (idio_meaning m e1) (map (idio_meaning m) es) nametree fl"
| "idio_meaning m (E_closed e fe ns rest be es aes) src nametree fl =
    idio_meaning_closed_application m fe ns rest be (map (idio_meaning m) es) (map (idio_meaning m) aes) nametree fl"
| "idio_meaning m (E_apply e f aes) src nametree fl =
    idio_meaning_application m e
      (case f of E_name x \<Rightarrow> F_name x | _ \<Rightarrow> F_form (source f) (idio_meaning m f)) (map (idio_meaning m) aes) nametree fl"

text \<open>The collector is paused during the evaluation.\<close>

definition idio_evaluate :: "meaning_ctx \<Rightarrow> form \<Rightarrow> icode mm" where
  "idio_evaluate m f =
    bind_mm (vm_mm (get_vm vm_module)) (\<lambda>mo.
    bind_mm (upd_mm (\<lambda>me. me\<lparr>me_module := mo\<rparr>)) (\<lambda>_.
    bind_mm (idio_meaning m f (source f) [] MEANING_FLAG_NONE) (\<lambda>v.
      ret_mm (I_list [I_PUSH_ABORT v, I_POP_ABORT, I_RETURN]))))"

end
