(* ===== verification/Meaning_Scope.thy ===== *)
theory Meaning_Scope
  imports Idio_Meaning
begin

text \<open>
  The names in scope and the slots of the frames: a name is found where it was introduced
  last, and names that are in scope together never share a slot.
\<close>

section \<open>Trees of names\<close>

text \<open>A local name needs a function around it.\<close>

definition in_function :: "nametree \<Rightarrow> bool" where
  "in_function nt \<longleftrightarrow> (\<exists>ns \<in> set nt. \<exists>v \<in> set ns. fst (snd v) = NT_param)"

inductive nt_ok :: "nametree \<Rightarrow> bool" where
  empty: "nt_ok []"
| params: "nt_ok nt \<Longrightarrow> names \<noteq> [] \<Longrightarrow> nt_ok (idio_meaning_nametree_extend_vparams nt names)"
| local: "nt_ok nt \<Longrightarrow> in_function nt \<Longrightarrow> nt_ok (idio_meaning_nametree_extend_local nt x)"
| dynamic: "nt_ok nt \<Longrightarrow> sc = NT_dynamic \<or> sc = NT_environ \<Longrightarrow> nt_ok (idio_meaning_nametree_dynamic_extend nt x j sc)"

text \<open>The slots in use in the frame of each function, from the inner to the outer ones.\<close>

fun slots :: "nametree \<Rightarrow> nat list" where
  "slots [] = []"
| "slots (ns # nt) =
    (case ns of
       [] \<Rightarrow> 0 # slots nt
     | (_, first, _) # _ \<Rightarrow>
        if first = NT_param then length ns # slots nt
        else if first = NT_local then (case slots nt of [] \<Rightarrow> [] | k # ks \<Rightarrow> Suc k # ks)
        else slots nt)"

text \<open>All names that are in scope with their places, the last introduced first.\<close>

definition place :: "int \<Rightarrow> nt_scope \<times> int \<Rightarrow> nt_scope \<times> int \<times> int" where
  "place i = (\<lambda>(sc, j). if sc = NT_param \<or> sc = NT_local then (sc, i, j) else (sc, j, j))"

definition frame_step :: "(idio_value \<times> nt_scope \<times> int) list \<Rightarrow> int" where
  "frame_step ns = (case ns of [] \<Rightarrow> 1 | (_, first, _) # _ \<Rightarrow> if first = NT_param then 1 else 0)"

primrec visible :: "nametree \<Rightarrow> int \<Rightarrow> (idio_value \<times> nt_scope \<times> int \<times> int) list" where
  "visible [] i = []"
| "visible (ns # nt) i = map (\<lambda>(x, e). (x, place i e)) ns @ visible nt (i + frame_step ns)"

lemma map_of_place: "map_of (map (\<lambda>(x, e). (x, place i e)) ns) x = map_option (place i) (map_of ns x)"
  by (induction ns) auto

lemma lexical_loop_Cons:
  "lexical_loop (ns # nt) x i = (case map_of ns x of Some e \<Rightarrow> Some (place i e) | None \<Rightarrow> lexical_loop nt x (i + frame_step ns))"
  by (simp add: frame_step_def place_def split: list.split option.split prod.split)

lemma lookup_visible: "lexical_loop nt x i = map_of (visible nt i) x"
  by (induction nt arbitrary: i)
    (simp_all add: lexical_loop_Cons map_add_def map_of_place del: lexical_loop.simps(2) split: option.split)

section \<open>The slots of the frames\<close>

lemma extend_vparams_Cons:
  "idio_meaning_nametree_extend_vparams nt names = rev (map (\<lambda>(i, x). (x, NT_param, int i)) (enumerate 0 names)) # nt"
  by (simp add: idio_meaning_nametree_extend_vparams_def)

lemma params_first:
  assumes "names \<noteq> []"
  obtains x j ps where "rev (map (\<lambda>(i, x). (x, NT_param, int i)) (enumerate 0 names)) = (x, NT_param, j) # ps"
proof (cases "rev (map (\<lambda>(i, x). (x, NT_param, int i)) (enumerate 0 names))")
  case Nil
  then show ?thesis using assms by (simp add: enumerate_eq_zip)
next
  case (Cons p ps)
  then have "p \<in> set (map (\<lambda>(i, x). (x, NT_param, int i)) (enumerate 0 names))" by (metis list.set_intros(1) set_rev)
  then show ?thesis using Cons that by auto
qed

lemma params_length:
  assumes "rev (map (\<lambda>(i, x). (x, NT_param, int i)) (enumerate 0 names)) = p # ps"
  shows "length names = Suc (length ps)"
proof -
  have "length (rev (map (\<lambda>(i, x). (x, NT_param, int i)) (enumerate 0 names))) = Suc (length ps)"
    unfolding assms by simp
  then show ?thesis by (simp add: enumerate_eq_zip)
qed

lemma slots_extend [simp]:
  "names \<noteq> [] \<Longrightarrow> slots (idio_meaning_nametree_extend_vparams nt names) = length names # slots nt"
  "slots (idio_meaning_nametree_extend_local nt x) = (case slots nt of [] \<Rightarrow> [] | k # ks \<Rightarrow> Suc k # ks)"
  "sc = NT_dynamic \<or> sc = NT_environ \<Longrightarrow> slots (idio_meaning_nametree_dynamic_extend nt x j sc) = slots nt"
proof -
  assume "names \<noteq> []"
  then obtain y j ps where p: "rev (map (\<lambda>(i, x). (x, NT_param, int i)) (enumerate 0 names)) = (y, NT_param, j) # ps"
    by (rule params_first)
  then show "slots (idio_meaning_nametree_extend_vparams nt names) = length names # slots nt"
    unfolding extend_vparams_Cons p using params_length [OF p] by simp
qed (auto simp: idio_meaning_nametree_extend_local_def idio_meaning_nametree_dynamic_extend_def)

lemma visible_extend:
  "names \<noteq> [] \<Longrightarrow> visible (idio_meaning_nametree_extend_vparams nt names) i =
     map (\<lambda>(k, x). (x, NT_param, i, int k)) (rev (enumerate 0 names)) @ visible nt (i + 1)"
  "visible (idio_meaning_nametree_extend_local nt x) i = (x, NT_local, i, next_local nt 0) # visible nt i"
  "sc = NT_dynamic \<or> sc = NT_environ \<Longrightarrow>
     visible (idio_meaning_nametree_dynamic_extend nt x j sc) i = (x, sc, j, j) # visible nt i"
proof -
  assume "names \<noteq> []"
  then obtain y j ps where p: "rev (map (\<lambda>(i, x). (x, NT_param, int i)) (enumerate 0 names)) = (y, NT_param, j) # ps"
    by (rule params_first)
  then have "frame_step (rev (map (\<lambda>(i, x). (x, NT_param, int i)) (enumerate 0 names))) = 1"
    by (simp add: frame_step_def)
  then show "visible (idio_meaning_nametree_extend_vparams nt names) i =
     map (\<lambda>(k, x). (x, NT_param, i, int k)) (rev (enumerate 0 names)) @ visible nt (i + 1)"
    unfolding extend_vparams_Cons by (simp add: rev_map place_def o_def prod.case_distrib split_def)
qed (auto simp: idio_meaning_nametree_extend_local_def idio_meaning_nametree_dynamic_extend_def frame_step_def place_def)

lemma in_function_extend [simp]:
  "names \<noteq> [] \<Longrightarrow> in_function (idio_meaning_nametree_extend_vparams nt names)"
  "in_function (idio_meaning_nametree_extend_local nt x) = in_function nt"
  "sc = NT_dynamic \<or> sc = NT_environ \<Longrightarrow> in_function (idio_meaning_nametree_dynamic_extend nt x j sc) = in_function nt"
proof -
  assume "names \<noteq> []"
  then obtain y j ps where "rev (map (\<lambda>(i, x). (x, NT_param, int i)) (enumerate 0 names)) = (y, NT_param, j) # ps"
    by (rule params_first)
  then show "in_function (idio_meaning_nametree_extend_vparams nt names)"
    unfolding extend_vparams_Cons in_function_def by simp
qed (auto simp: idio_meaning_nametree_extend_local_def idio_meaning_nametree_dynamic_extend_def in_function_def)

lemma slots_function: "nt_ok nt \<Longrightarrow> slots nt = [] \<longleftrightarrow> \<not> in_function nt"
proof (induction rule: nt_ok.induct)
  case empty
  then show ?case by (simp add: in_function_def)
qed (auto split: list.split)

lemma next_local_slot: "nt_ok nt \<Longrightarrow> in_function nt \<Longrightarrow> next_local nt i = i + int (hd (slots nt))"
proof (induction arbitrary: i rule: nt_ok.induct)
  case empty
  then show ?case by (simp add: in_function_def)
next
  case (params nt names)
  obtain y j ps where p: "rev (map (\<lambda>(i, x). (x, NT_param, int i)) (enumerate 0 names)) = (y, NT_param, j) # ps"
    using params_first [OF params.hyps(2)] .
  then show ?case using params.hyps params_length [OF p] unfolding extend_vparams_Cons p by simp
next
  case (local nt x)
  then obtain k ks where "slots nt = k # ks" using slots_function [OF local.hyps(1)] by (cases "slots nt") auto
  then show ?case using local by (simp add: idio_meaning_nametree_extend_local_def)
next
  case (dynamic nt sc x j)
  then show ?case by (auto simp: idio_meaning_nametree_dynamic_extend_def in_function_def)
qed

section \<open>Names with slots\<close>

text \<open>The names of arguments and locals; the others are symbols.\<close>

definition in_frame :: "idio_value \<times> nt_scope \<times> int \<times> int \<Rightarrow> bool" where
  "in_frame = (\<lambda>(x, sc, i, j). sc = NT_param \<or> sc = NT_local)"

definition slot_of :: "idio_value \<times> nt_scope \<times> int \<times> int \<Rightarrow> int \<times> int" where
  "slot_of = (\<lambda>(x, sc, i, j). (i, j))"

lemma slot_of_simps [simp]: "slot_of (x, sc, i, j) = (i, j)" "in_frame (x, sc, i, j) = (sc = NT_param \<or> sc = NT_local)"
  by (simp_all add: slot_of_def in_frame_def)

abbreviation lexical :: "nametree \<Rightarrow> int \<Rightarrow> (idio_value \<times> nt_scope \<times> int \<times> int) list" where
  "lexical nt i \<equiv> filter in_frame (visible nt i)"

definition new_params :: "idio_value list \<Rightarrow> int \<Rightarrow> (idio_value \<times> nt_scope \<times> int \<times> int) list" where
  "new_params names i = map (\<lambda>(k, x). (x, NT_param, i, int k)) (rev (enumerate 0 names))"

lemma lexical_extend [simp]:
  "names \<noteq> [] \<Longrightarrow> lexical (idio_meaning_nametree_extend_vparams nt names) i = new_params names i @ lexical nt (i + 1)"
  "lexical (idio_meaning_nametree_extend_local nt x) i = (x, NT_local, i, next_local nt 0) # lexical nt i"
  "sc = NT_dynamic \<or> sc = NT_environ \<Longrightarrow> lexical (idio_meaning_nametree_dynamic_extend nt x j sc) i = lexical nt i"
  by (auto simp: visible_extend in_frame_def filter_map o_def split_def new_params_def)

lemma new_params_slot: "e \<in> set (new_params names i) \<Longrightarrow> fst (slot_of e) = i \<and> 0 \<le> snd (slot_of e) \<and> snd (slot_of e) < int (length names)"
  by (auto simp: new_params_def slot_of_def in_set_enumerate_eq)

lemma new_params_distinct: "distinct (map slot_of (new_params names i))"
proof -
  have "map (\<lambda>p. (i, int (fst p))) (enumerate 0 names) = map (\<lambda>k. (i, int k)) (map fst (enumerate 0 names))"
    unfolding map_map o_def ..
  also have "\<dots> = map (\<lambda>k. (i, int k)) [0..<length names]" by (simp add: enumerate_eq_zip)
  finally have "map slot_of (new_params names i) = rev (map (\<lambda>k. (i, int k)) [0..<length names])"
    by (simp add: new_params_def slot_of_def split_def o_def flip: rev_map)
  then show ?thesis by (simp add: distinct_map inj_on_def)
qed

lemma new_params_length [simp]: "length (new_params names i) = length names"
  by (simp add: new_params_def enumerate_eq_zip)

lemma slots_positive: "nt_ok nt \<Longrightarrow> k \<in> set (slots nt) \<Longrightarrow> 0 < k"
proof (induction arbitrary: k rule: nt_ok.induct)
  case (local nt x)
  then show ?case by (cases "slots nt") auto
qed auto

lemma lexical_slot:
  "nt_ok nt \<Longrightarrow> e \<in> set (lexical nt i) \<Longrightarrow>
    i \<le> fst (slot_of e) \<and> nat (fst (slot_of e) - i) < length (slots nt) \<and> 0 \<le> snd (slot_of e) \<and>
    snd (slot_of e) < int (slots nt ! nat (fst (slot_of e) - i))"
proof (induction arbitrary: i rule: nt_ok.induct)
  case empty
  then show ?case by simp
next
  case (params nt names)
  show ?case
  proof (cases "e \<in> set (new_params names i)")
    case True
    then show ?thesis using new_params_slot [OF True] params.hyps by simp
  next
    case False
    then have e: "e \<in> set (lexical nt (i + 1))" using params by auto
    let ?d = "nat (fst (slot_of e) - (i + 1))"
    have "nat (fst (slot_of e) - i) = Suc ?d" using params.IH [OF e] by auto
    then show ?thesis using params.IH [OF e] params.hyps by simp
  qed
next
  case (local nt x)
  then obtain k ks where k: "slots nt = k # ks" using slots_function [OF local.hyps(1)] by (cases "slots nt") auto
  consider "e = (x, NT_local, i, next_local nt 0)" | "e \<in> set (lexical nt i)" using local.prems by auto
  then show ?case
  proof cases
    case 1
    then show ?thesis using k next_local_slot [OF local.hyps, of 0] by (simp add: slot_of_def)
  next
    case 2
    show ?thesis using local.IH [OF 2] k by (auto simp: nth_Cons')
  qed
next
  case (dynamic nt sc x j)
  then show ?case by auto
qed

lemma lexical_distinct: "nt_ok nt \<Longrightarrow> distinct (map slot_of (lexical nt i))"
proof (induction arbitrary: i rule: nt_ok.induct)
  case empty
  then show ?case by simp
next
  case (params nt names)
  have "slot_of e \<noteq> slot_of d" if "e \<in> set (new_params names i)" "d \<in> set (lexical nt (i + 1))" for e d
    using new_params_slot [OF that(1)] lexical_slot [OF params.hyps(1) that(2)] by auto
  then have "slot_of ` set (new_params names i) \<inter> slot_of ` set (lexical nt (i + 1)) = {}" by blast
  then show ?case using params new_params_distinct by (simp del: set_filter)
next
  case (local nt x)
  then obtain k ks where k: "slots nt = k # ks" using slots_function [OF local.hyps(1)] by (cases "slots nt") auto
  have "slot_of e \<noteq> (i, next_local nt 0)" if "e \<in> set (lexical nt i)" for e
    using lexical_slot [OF local.hyps(1) that] k next_local_slot [OF local.hyps, of 0] by auto
  then have "(i, next_local nt 0) \<notin> slot_of ` set (lexical nt i)" by (metis imageE)
  then show ?case using local.IH by (simp del: set_filter)
next
  case (dynamic nt sc x j)
  then show ?case by auto
qed

lemma slots_sum: "nt_ok nt \<Longrightarrow> sum_list (slots nt) = length (lexical nt i)"
proof (induction arbitrary: i rule: nt_ok.induct)
  case (local nt x)
  then obtain k ks where "slots nt = k # ks" using slots_function [OF local.hyps(1)] by (cases "slots nt") auto
  then show ?case using local.IH [of i] by simp
qed auto

text \<open>Behind a dynamic variable the list of names is one place ahead of the slots.\<close>

lemma names_shifted:
  "let nt = idio_meaning_nametree_extend_local
      (idio_meaning_nametree_dynamic_extend (idio_meaning_nametree_extend_params [] [x]) d k NT_dynamic) y
   in names_loop nt [] = [x, idio_S_false, d, y] \<and> idio_meaning_lexical_lookup nt y = Some (NT_local, 0, 2)"
  by (simp add: Let_def idio_meaning_nametree_extend_local_def idio_meaning_nametree_dynamic_extend_def
      idio_meaning_nametree_extend_params_def idio_meaning_nametree_extend_vparams_def idio_meaning_lexical_lookup_def
      enumerate_eq_zip)

end
