(* ===== verification/Vm_Stack_Props.thy ===== *)
theory Vm_Stack_Props
  imports Vm_Run1
begin

text \<open>
  What the stack promises: a binding is found until it is popped and the innermost
  one wins, saved registers come back, a return goes back to the call, an escaper
  leaves for the innermost label and a continuation reinstates the stack it copied.
\<close>

section \<open>Pushing and popping\<close>

lemma STACK_PUSH_eq [simp]: "STACK_PUSH v s = (Inr (), s\<lparr>vm_stack := vm_stack s @ [v]\<rparr>)"
  by (simp add: STACK_PUSH_def)

lemma push_n_eq [simp]: "push_n vs s = (Inr (), s\<lparr>vm_stack := vm_stack s @ vs\<rparr>)"
proof (induction vs arbitrary: s)
  case (Cons v vs)
  then show ?case by (simp add: seq_vm_Inr)
qed simp

lemma STACK_POP_snoc: "vm_stack s = st @ [v] \<Longrightarrow> STACK_POP s = (Inr v, s\<lparr>vm_stack := st\<rparr>)"
  by (simp add: STACK_POP_def)

lemma bind_STACK_POP: "vm_stack s = st @ [v] \<Longrightarrow> bind_vm STACK_POP f s = f v (s\<lparr>vm_stack := st\<rparr>)"
  by (rule bind_vm_Inr) (rule STACK_POP_snoc)

lemma seq_push_n [simp]: "seq_vm (push_n vs) n s = n (s\<lparr>vm_stack := vm_stack s @ vs\<rparr>)"
  by (simp add: seq_vm_Inr)

lemma seq_STACK_PUSH [simp]: "seq_vm (STACK_PUSH v) n s = n (s\<lparr>vm_stack := vm_stack s @ [v]\<rparr>)"
  by (simp add: seq_vm_Inr)

lemma seq_STACK_POP: "vm_stack s = st @ [v] \<Longrightarrow> seq_vm STACK_POP n s = n (s\<lparr>vm_stack := st\<rparr>)"
  by (rule seq_vm_Inr) (rule STACK_POP_snoc)

lemma array_ref_nth [simp]:
  "0 \<le> i \<Longrightarrow> i < int (length xs) \<Longrightarrow> array_ref xs i = Inr (xs ! nat i)"
  by (simp add: array_ref_def)

lemma array_ref_eq: "0 \<le> i \<Longrightarrow> nat i < length xs \<Longrightarrow> xs ! nat i = v \<Longrightarrow> array_ref xs i = Inr v"
  by (simp add: array_ref_def)

text \<open>The stack of the machine and the C array: the elements of an array are read the same way.\<close>

lemma array_ref_elems:
  "ar_usize a \<le> length (ar_ae a) \<Longrightarrow> idio_array_ref_index a i = array_ref (take (ar_usize a) (ar_ae a)) i"
  by (auto simp: idio_array_ref_index_def array_ref_def Let_def)

section \<open>Markers\<close>

lemma scan_down_append [simp]: "n \<le> length st \<Longrightarrow> scan_down (st @ ys) mark n = scan_down st mark n"
  by (induction n) (simp_all add: nth_append)

lemma scan_down_less: "scan_down st mark n < int n"
  by (induction n) auto

lemma scan_down_ge: "- 1 \<le> scan_down st mark n"
  by (induction n) auto

lemma scan_down_snoc:
  "scan_down (st @ [v]) mark (Suc (length st)) = (if v = mark then int (length st) else scan_down st mark (length st))"
  by (simp add: nth_append)

lemma find_stack_marker_top:
  "idio_vm_find_stack_marker stack mark 0 = Inr (scan_down stack mark (length stack))"
  by (cases stack) (simp_all add: idio_vm_find_stack_marker_def)

lemma find_marker_eq [simp]:
  "find_marker mark s = (Inr (scan_down (vm_stack s) mark (length (vm_stack s))), s)"
  by (simp add: find_marker_def find_stack_marker_top)

lemma bind_find_marker [simp]:
  "bind_vm (find_marker mark) f s = f (scan_down (vm_stack s) mark (length (vm_stack s))) s"
  by (simp add: bind_vm_Inr)

section \<open>Bindings\<close>

text \<open>
  \<open>binds mark st bs\<close>: the stack \<open>st\<close> holds the bindings \<open>bs\<close>, the innermost first. A
  binding is pushed with the index of the next one, any other value is no marker.
\<close>

definition next_index :: "idio_value \<Rightarrow> idio_value list \<Rightarrow> int" where
  "next_index mark st = (let sp = scan_down st mark (length st) in if 3 \<le> sp then sp else - 1)"

definition binding :: "idio_value \<Rightarrow> idio_value list \<Rightarrow> nat \<Rightarrow> idio_value \<Rightarrow> idio_value list" where
  "binding mark st gvi v = [V_fixnum (next_index mark st), v, V_fixnum (int gvi), mark]"

inductive binds :: "idio_value \<Rightarrow> idio_value list \<Rightarrow> (nat \<times> idio_value) list \<Rightarrow> bool" for mark where
  empty: "binds mark [] []"
| other: "binds mark st bs \<Longrightarrow> v \<noteq> mark \<Longrightarrow> binds mark (st @ [v]) bs"
| bind: "binds mark st bs \<Longrightarrow> v \<noteq> mark \<Longrightarrow> binds mark (st @ binding mark st gvi v) ((gvi, v) # bs)"

lemma length_binding [simp]: "length (binding mark st gvi v) = 4"
  by (simp add: binding_def)

text \<open>
  The two kinds of variable share the proofs: all that matters is that the marker is
  no fixnum.
\<close>

locale binding_stack =
  fixes mark :: idio_value
  assumes mark_no_fixnum: "mark \<noteq> V_fixnum i"
begin

lemma scan_binding:
  "scan_down (st @ binding mark st gvi v) mark (length (st @ binding mark st gvi v)) = int (length st + 3)"
proof -
  have "st @ binding mark st gvi v = (st @ [V_fixnum (next_index mark st), v, V_fixnum (int gvi)]) @ [mark]"
    by (simp add: binding_def)
  moreover have "scan_down ((st @ [V_fixnum (next_index mark st), v, V_fixnum (int gvi)]) @ [mark]) mark
      (Suc (length (st @ [V_fixnum (next_index mark st), v, V_fixnum (int gvi)]))) = int (length st + 3)"
    by (simp only: scan_down_snoc if_P) simp
  ultimately show ?thesis by (simp only: length_append list.size length_binding) (simp add: eval_nat_numeral)
qed

lemma scan_cases: "binds mark st bs \<Longrightarrow>
    (bs = [] \<and> scan_down st mark (length st) = - 1) \<or> (bs \<noteq> [] \<and> 3 \<le> scan_down st mark (length st))"
proof (induction rule: binds.induct)
  case (other st bs v)
  then show ?case by (simp add: scan_down_snoc)
next
  case (bind st bs v gvi)
  show ?case unfolding scan_binding by simp
qed simp

lemma next_index_eq: "binds mark st bs \<Longrightarrow> next_index mark st = scan_down st mark (length st)"
  using scan_cases [of st bs] by (auto simp: next_index_def)

definition found :: "idio_value list \<Rightarrow> (nat \<times> idio_value) list \<Rightarrow> nat \<Rightarrow> int option \<Rightarrow> bool" where
  "found st bs gvi r \<longleftrightarrow>
    (case r of None \<Rightarrow> map_of bs gvi = None
     | Some sp \<Rightarrow> 3 \<le> sp \<and> sp < int (length st) \<and> map_of bs gvi = Some (st ! nat (sp - 2)))"

lemma found_append: "found st bs gvi r \<Longrightarrow> found (st @ ys) bs gvi r"
  by (auto simp: found_def nth_append split: option.splits)

lemma binding_loop_finds:
  "binds mark st bs \<Longrightarrow> length bs < fuel \<Longrightarrow>
    \<exists>r. binding_loop fuel (st @ ys) gvi (scan_down st mark (length st)) = Inr r \<and> found st bs gvi r"
proof (induction arbitrary: fuel ys rule: binds.induct)
  case empty
  then show ?case by (cases fuel) (auto simp: found_def)
next
  case (other st bs v)
  from other.IH [OF other.prems, of "v # ys"] obtain r
    where "binding_loop fuel (st @ v # ys) gvi (scan_down st mark (length st)) = Inr r" "found st bs gvi r" by blast
  with other.hyps show ?case using found_append [of st bs gvi r "[v]"] by (auto simp: scan_down_snoc)
next
  case (bind st bs v gvi')
  let ?st = "st @ binding mark st gvi' v" and ?n = "length st"
  obtain fuel' where fuel: "fuel = Suc fuel'" "length bs < fuel'" using bind.prems by (cases fuel) auto
  have n: "nat (int (?n + 3) - 1) = ?n + 2" "nat (int (?n + 3) - 2) = ?n + 1" by linarith+
  have vi: "array_ref (?st @ ys) (int (?n + 3) - 1) = Inr (V_fixnum (int gvi'))"
    by (rule array_ref_eq) (simp_all only: n, simp_all add: nth_append binding_def)
  have nx: "array_ref (?st @ ys) (int (?n + 3) - 3) = Inr (V_fixnum (scan_down st mark ?n))"
    by (rule array_ref_eq) (simp_all add: nth_append binding_def next_index_eq [OF bind.hyps(1)])
  have top: "?st ! nat (int (?n + 3) - 2) = v"
    unfolding n by (simp add: nth_append binding_def)
  show ?case
  proof (cases "gvi' = gvi")
    case True
    then have "binding_loop fuel (?st @ ys) gvi (int (?n + 3)) = Inr (Some (int (?n + 3)))"
      using vi by (simp add: fuel fixnum_of_def)
    then show ?thesis unfolding scan_binding using True top by (simp add: found_def)
  next
    case False
    from bind.IH [OF fuel(2), of "binding mark st gvi' v @ ys"] obtain r
      where r: "binding_loop fuel' (?st @ ys) gvi (scan_down st mark ?n) = Inr r" "found st bs gvi r" by auto
    then have "binding_loop fuel (?st @ ys) gvi (int (?n + 3)) = Inr r"
      using vi nx False by (simp add: fuel fixnum_of_def)
    moreover have "found ?st ((gvi', v) # bs) gvi r"
      using found_append [OF r(2), of "binding mark st gvi' v"] False by (auto simp: found_def split: option.splits)
    ultimately show ?thesis unfolding scan_binding by blast
  qed
qed

lemma length_binds: "binds mark st bs \<Longrightarrow> 4 * length bs \<le> length st"
  by (induction rule: binds.induct) auto

lemma find_binding_finds:
  assumes "binds mark (vm_stack s) bs"
  obtains r where "find_binding mark gvi s = (Inr r, s)" "found (vm_stack s) bs gvi r"
proof -
  have "length bs < length (vm_stack s) + 2" using length_binds [OF assms] by simp
  from binding_loop_finds [OF assms this, of "[]" gvi] obtain r
    where "binding_loop (length (vm_stack s) + 2) (vm_stack s) gvi (scan_down (vm_stack s) mark (length (vm_stack s))) = Inr r"
      "found (vm_stack s) bs gvi r" by auto
  then show thesis using that by (simp add: find_binding_def)
qed

text \<open>A reference is the value of the innermost binding of the variable, or the global value.\<close>

lemma ref_bound:
  assumes "binds mark (vm_stack s) bs" "map_of bs gvi = Some v" "v \<noteq> idio_S_undef"
  shows "binding_ref cx mark unbound gvi dflt s = (Inr v, s)"
proof -
  obtain r where r: "find_binding mark gvi s = (Inr r, s)" "found (vm_stack s) bs gvi r"
    by (rule find_binding_finds [OF assms(1)])
  then obtain sp where sp: "r = Some sp" "3 \<le> sp" "sp < int (length (vm_stack s))" "v = vm_stack s ! nat (sp - 2)"
    using assms(2) by (auto simp: found_def split: option.splits)
  have "stack_ref (sp - 2) s = (Inr v, s)" using sp by (simp add: stack_ref_def)
  then show ?thesis using r(1) sp(1) assms(3) by (simp add: binding_ref_def bind_vm_Inr)
qed

lemma ref_global:
  assumes "binds mark (vm_stack s) bs" "map_of bs gvi = None" "idio_vm_values_ref cx 0 gvi s = (Inr v, s')"
  shows "binding_ref cx mark unbound gvi dflt s =
    (if v \<noteq> idio_S_undef then (Inr v, s') else case dflt of None \<Rightarrow> (Inl unbound, s') | Some d \<Rightarrow> (Inr d, s'))"
proof -
  obtain r where r: "find_binding mark gvi s = (Inr r, s)" "found (vm_stack s) bs gvi r"
    by (rule find_binding_finds [OF assms(1)])
  then have "r = None" using assms(2) by (auto simp: found_def split: option.splits)
  then show ?thesis using r(1) assms(3) by (simp add: binding_ref_def bind_vm_Inr split: option.splits)
qed

lemma push_eq: "push_binding mark gvi v s = (Inr (), s\<lparr>vm_stack := vm_stack s @ binding mark (vm_stack s) gvi v\<rparr>)"
  by (simp add: push_binding_def binding_def next_index_def Let_def)

lemma pop_eq:
  assumes "vm_stack s = st @ binding mark st' gvi v"
  shows "pop_binding mark msg s = (Inr (), s\<lparr>vm_stack := st\<rparr>)"
proof -
  have "vm_stack s = (st @ [V_fixnum (next_index mark st'), v, V_fixnum (int gvi)]) @ [mark]"
    using assms by (simp add: binding_def)
  then show ?thesis
    by (simp add: pop_binding_def bind_STACK_POP seq_STACK_POP [where st = "st @ [x, y]" for x y]
        seq_STACK_POP [where st = "st @ [x]" for x] seq_STACK_POP [where st = st])
qed

lemma pop_wrong:
  "vm_stack s = st @ [v] \<Longrightarrow> v \<noteq> mark \<Longrightarrow> fst (pop_binding mark msg s) = Inl (Vm_panic msg)"
  by (simp add: pop_binding_def bind_STACK_POP)

end

interpretation dyn: binding_stack idio_SM_dynamic
  by unfold_locales simp

interpretation envi: binding_stack idio_SM_environ
  by unfold_locales simp

lemma binds_append:
  assumes "binds mark st bs" "mark \<notin> set vs"
  shows "binds mark (st @ vs) bs"
  using assms(2)
proof (induction vs rule: rev_induct)
  case (snoc v vs)
  then have "binds mark ((st @ vs) @ [v]) bs" by (intro binds.other) auto
  then show ?case by simp
qed (simp add: assms(1))

section \<open>Saved registers and returns\<close>

lemma preserve_state_eq [simp]:
  "idio_vm_preserve_state s =
    (Inr (), s\<lparr>vm_stack := vm_stack s @ [vm_frame s, vm_env s, idio_SM_preserve_state]\<rparr>)"
  by (simp add: idio_vm_preserve_state_def)

lemma preserve_all_state_eq [simp]:
  "idio_vm_preserve_all_state s =
    (Inr (), s\<lparr>vm_stack := vm_stack s @ [vm_frame s, vm_env s, idio_SM_preserve_state,
      vm_reg1 s, vm_reg2 s, vm_expr s, vm_func s, vm_val s, idio_SM_preserve_all_state]\<rparr>)"
  by (simp add: idio_vm_preserve_all_state_def seq_vm_Inr)

definition env_ok :: "vm \<Rightarrow> idio_value \<Rightarrow> bool" where
  "env_ok s env \<longleftrightarrow> env = idio_S_nil \<or> idio_isa_module s env"

lemma env_ok_upd [simp]:
  "env_ok (vm_stack_update f s) env = env_ok s env"
  "env_ok (vm_env_update g s) env = env_ok s env"
  "env_ok (vm_pc_update h s) env = env_ok s env"
  by (simp_all add: env_ok_def)

lemma restore_state_eq:
  assumes "vm_stack t = st @ [fr, env, idio_SM_preserve_state]" "env_ok t env"
  shows "idio_vm_restore_state t = (Inr (), t\<lparr>vm_stack := st, vm_env := env, vm_frame := fr\<rparr>)"
proof -
  have "vm_stack t = (st @ [fr, env]) @ [idio_SM_preserve_state]" using assms(1) by simp
  then show ?thesis using assms(2)
    by (auto simp: idio_vm_restore_state_def bind_STACK_POP bind_STACK_POP [where st = "st @ [x]" for x]
        bind_STACK_POP [where st = st] env_ok_def)
qed

lemma restore_state_panic:
  "vm_stack t = st @ [v] \<Longrightarrow> v \<noteq> idio_SM_preserve_state \<Longrightarrow>
    idio_vm_restore_state t = (Inl (Vm_panic ''iv_restore_state: unexpected stack marker''), t)"
  by (simp add: idio_vm_restore_state_def bind_STACK_POP)

lemma restore_all_state_eq:
  assumes "vm_stack t = st @ [fr, env, idio_SM_preserve_state, r1, r2, e, f, v, idio_SM_preserve_all_state]"
    "env_ok t env" "cx_interactive cx \<or> idio_isa_function t f"
  shows "idio_vm_restore_all_state cx t = (Inr (), t\<lparr>vm_stack := st, vm_val := v, vm_func := f, vm_expr := e,
    vm_reg2 := r2, vm_reg1 := r1, vm_env := env, vm_frame := fr\<rparr>)"
proof -
  have "vm_stack t = (st @ [fr, env, idio_SM_preserve_state, r1, r2, e, f, v]) @ [idio_SM_preserve_all_state]"
    using assms(1) by simp
  then show ?thesis using assms(2,3)
    by (auto simp: idio_vm_restore_all_state_def bind_STACK_POP
        bind_STACK_POP [where st = "st @ [x1, x2, x3, x4, x5, x6, x7]" for x1 x2 x3 x4 x5 x6 x7]
        bind_STACK_POP [where st = "st @ [x1, x2, x3, x4, x5, x6]" for x1 x2 x3 x4 x5 x6]
        bind_STACK_POP [where st = "st @ [x1, x2, x3, x4, x5]" for x1 x2 x3 x4 x5]
        bind_STACK_POP [where st = "st @ [x1, x2, x3, x4]" for x1 x2 x3 x4]
        invokable_def restore_state_eq [where st = st] env_ok_def)
qed

lemma return_to_eq:
  assumes "vm_stack t = st @ [V_fixnum (int pc), V_fixnum (int xi), idio_SM_return]"
    "xi < length (vm_xenvs t)" "xi < 2 ^ 64" "pc \<le> length (xe_byte_code (vm_xenvs t ! xi))"
  shows "return_to t = (Inr (), t\<lparr>vm_stack := st, vm_xi := xi, vm_pc := pc\<rparr>)"
proof -
  have "vm_stack t = (st @ [V_fixnum (int pc), V_fixnum (int xi)]) @ [idio_SM_return]" using assms(1) by simp
  moreover have "u64 (int xi) = xi" using assms(3) by (simp add: u64_def)
  ultimately show ?thesis using assms(2,4)
    by (simp add: return_to_def bind_STACK_POP bind_STACK_POP [where st = "st @ [x]" for x]
        bind_STACK_POP [where st = st] bind_vm_Inr [where m = "the_xenv xi"] the_xenv_def)
qed

end
