(* ===== verification/Vm_Steady.thy ===== *)
theory Vm_Steady
  imports Vm_Stack_Props "HOL-Library.Sublist"
begin

text \<open>
  The instructions that go on to the one behind them: what they do depends
  neither on the program counter nor on the byte code, and they keep both, the execution
  environment and the constants there are. \<open>steady\<close> says so of a function on the
  machine and is proved from its parts.
\<close>

section \<open>Steady functions\<close>

definition kept :: "vm \<Rightarrow> vm \<Rightarrow> bool" where
  "kept s s' \<longleftrightarrow> vm_xi s' = vm_xi s \<and> length (vm_xenvs s') = length (vm_xenvs s) \<and>
    (\<forall>i < length (vm_xenvs s). xe_byte_code (vm_xenvs s' ! i) = xe_byte_code (vm_xenvs s ! i) \<and>
      prefix (xe_cs (vm_xenvs s ! i)) (xe_cs (vm_xenvs s' ! i)))"

lemma kept_refl [simp]: "kept s s"
  by (simp add: kept_def)

lemma kept_trans: "kept s t \<Longrightarrow> kept t u \<Longrightarrow> kept s u"
  unfolding kept_def by (metis prefix_order.trans)

lemma kept_same: "vm_xi s' = vm_xi s \<Longrightarrow> vm_xenvs s' = vm_xenvs s \<Longrightarrow> kept s s'"
  by (simp add: kept_def)

lemma kept_pc [simp]: "kept (s\<lparr>vm_pc := pc\<rparr>) s' = kept s s'" "kept s (s'\<lparr>vm_pc := pc\<rparr>) = kept s s'"
  by (simp_all add: kept_def)

definition steady :: "'a vmm \<Rightarrow> bool" where
  "steady m \<longleftrightarrow> (\<forall>s x s'. m s = (Inr x, s') \<longrightarrow>
    kept s s' \<and> (\<forall>pc. m (s\<lparr>vm_pc := pc\<rparr>) = (Inr x, s'\<lparr>vm_pc := pc\<rparr>)))"

named_theorems steady

lemma steadyI:
  "(\<And>s x s'. m s = (Inr x, s') \<Longrightarrow> kept s s' \<and> (\<forall>pc. m (s\<lparr>vm_pc := pc\<rparr>) = (Inr x, s'\<lparr>vm_pc := pc\<rparr>))) \<Longrightarrow> steady m"
  unfolding steady_def by blast

lemma steadyD:
  assumes "steady m" "m s = (Inr x, s')"
  shows "kept s s'" "m (s\<lparr>vm_pc := pc\<rparr>) = (Inr x, s'\<lparr>vm_pc := pc\<rparr>)" "vm_pc s' = vm_pc s"
proof -
  show "kept s s'" and a: "m (s\<lparr>vm_pc := pc\<rparr>) = (Inr x, s'\<lparr>vm_pc := pc\<rparr>)" for pc
    using assms unfolding steady_def by blast+
  show "vm_pc s' = vm_pc s" using a [of "vm_pc s"] assms(2) by (metis (no_types, lifting) Pair_inject
      vm.surjective vm.update_convs(2) vm.select_convs(2))
qed

lemma steady_ret [steady]: "steady (ret_vm x)"
  and steady_fail [steady]: "steady (fail_vm e)"
  and steady_lift [steady]: "steady (lift_vm r)"
  and steady_Pair [steady]: "steady (Pair r)"
  by (simp_all add: steady_def)

lemma steady_get [steady]: "(\<And>s pc. f (s\<lparr>vm_pc := pc\<rparr>) = f s) \<Longrightarrow> steady (get_vm f)"
  by (simp add: steady_def)

lemma steady_upd [steady]:
  "(\<And>s pc. f (s\<lparr>vm_pc := pc\<rparr>) = (f s)\<lparr>vm_pc := pc\<rparr>) \<Longrightarrow> (\<And>s. vm_xi (f s) = vm_xi s \<and> vm_xenvs (f s) = vm_xenvs s) \<Longrightarrow>
    steady (upd_vm f)"
  by (simp add: steady_def kept_def)

lemma bind_vm_InrE:
  assumes "bind_vm m f s = (Inr y, s'')"
  obtains x s' where "m s = (Inr x, s')" "f x s' = (Inr y, s'')"
  using assms by (auto simp: bind_vm_def split: prod.splits sum.splits)

lemma seq_vm_InrE:
  assumes "seq_vm m n s = (Inr y, s'')"
  obtains x s' where "m s = (Inr x, s')" "n s' = (Inr y, s'')"
  using assms unfolding seq_vm_def by (rule bind_vm_InrE)

lemma steady_bind [steady]:
  assumes "steady m" "\<And>x. steady (f x)"
  shows "steady (bind_vm m f)"
proof (rule steadyI)
  fix s y s'' assume "bind_vm m f s = (Inr y, s'')"
  then obtain x s' where r: "m s = (Inr x, s')" "f x s' = (Inr y, s'')" by (rule bind_vm_InrE)
  note a = steadyD [OF assms(1) r(1)] and b = steadyD [OF assms(2) r(2)]
  show "kept s s'' \<and> (\<forall>pc. bind_vm m f (s\<lparr>vm_pc := pc\<rparr>) = (Inr y, s''\<lparr>vm_pc := pc\<rparr>))"
    using kept_trans [OF a(1) b(1)] a(2) b(2) by (simp add: bind_vm_def)
qed

lemma steady_seq [steady]: "steady m \<Longrightarrow> steady n \<Longrightarrow> steady (seq_vm m n)"
  unfolding seq_vm_def by (rule steady_bind)

text \<open>A function that looks at the whole state does so through what does not depend on the counter.\<close>

lemma steady_look [steady]:
  assumes "\<And>s pc. f (s\<lparr>vm_pc := pc\<rparr>) = f s" "\<And>s. steady (f s)"
  shows "steady (look_vm f)"
proof (rule steadyI)
  fix s x s' assume "look_vm f s = (Inr x, s')"
  then have r: "f s s = (Inr x, s')" by simp
  show "kept s s' \<and> (\<forall>pc. look_vm f (s\<lparr>vm_pc := pc\<rparr>) = (Inr x, s'\<lparr>vm_pc := pc\<rparr>))"
    using steadyD [OF assms(2) r] assms(1) by simp
qed

lemma steady_never: "(\<And>s x s'. m s \<noteq> (Inr x, s')) \<Longrightarrow> steady m"
  by (simp add: steady_def)

lemma steady_seq_fail [steady]: "steady (seq_vm m (fail_vm e))"
  by (rule steady_never) (auto elim: seq_vm_InrE)

lemma steady_if [steady]: "steady m \<Longrightarrow> steady n \<Longrightarrow> steady (if b then m else n)"
  by simp

lemma steady_option [steady]: "steady m \<Longrightarrow> (\<And>x. steady (f x)) \<Longrightarrow> steady (case v of None \<Rightarrow> m | Some x \<Rightarrow> f x)"
  by (cases v) simp_all

lemma steady_obj [steady]:
  "(\<And>x. steady (f1 x)) \<Longrightarrow> (\<And>x. steady (f2 x)) \<Longrightarrow> (\<And>x. steady (f3 x)) \<Longrightarrow> (\<And>x y. steady (f4 x y)) \<Longrightarrow>
    (\<And>x. steady (f5 x)) \<Longrightarrow> (\<And>x. steady (f6 x)) \<Longrightarrow> (\<And>x. steady (f7 x)) \<Longrightarrow> (\<And>x. steady (f8 x)) \<Longrightarrow>
    (\<And>x. steady (f9 x)) \<Longrightarrow> (\<And>x. steady (f10 x)) \<Longrightarrow>
    steady (case ob of O_frame x \<Rightarrow> f1 x | O_closure x \<Rightarrow> f2 x | O_primitive x \<Rightarrow> f3 x | O_pair x y \<Rightarrow> f4 x y
      | O_si x \<Rightarrow> f5 x | O_module x \<Rightarrow> f6 x | O_continuation x \<Rightarrow> f7 x | O_struct_type x \<Rightarrow> f9 x
      | O_struct_instance x \<Rightarrow> f10 x | O_typed x \<Rightarrow> f8 x)"
  by (cases ob) simp_all

lemma steady_prod [steady]: "(\<And>x y. steady (f x y)) \<Longrightarrow> steady (case v of (x, y) \<Rightarrow> f x y)"
  by (cases v) simp

section \<open>Objects and tables\<close>

lemma steady_heap [steady]:
  "steady (idio_gc_get ob)" "steady (set_obj v ob)" "steady (the_frame v)" "steady (the_pair v)" "steady (the_closure v)"
  "steady (the_primitive v)" "steady (the_module v)" "steady (the_si v)" "steady (the_xenv xi)"
  by (auto simp: steady_def kept_def idio_gc_get_def set_obj_def the_frame_def the_pair_def the_closure_def
      the_primitive_def the_module_def the_si_def the_xenv_def split: idio_value.splits option.splits idio_obj.splits if_splits)

lemma steady_idio_pair [steady]: "steady (idio_pair h t)"
  unfolding idio_pair_def by (rule steady)

lemma steady_idio_list [steady]: "steady (idio_list vs t)"
  by (induction vs) (auto intro!: steady)

lemma steady_frame [steady]:
  "steady (idio_frame_allocate n)" "steady (frame_arg f i)" "steady (IDIO_FRAME_ARGS fo i)"
  "steady (set_IDIO_FRAME_ARGS fo i v)"
  by (auto simp: idio_frame_allocate_def frame_arg_def IDIO_FRAME_ARGS_def set_IDIO_FRAME_ARGS_def intro!: steady)

lemma steady_frame_up [steady]: "steady (frame_up d fo)"
  by (induction d arbitrary: fo) (auto intro!: steady)

lemma steady_frame_access [steady]: "steady (idio_frame_fetch fo d i)" "steady (idio_frame_update fo d i v)"
  by (auto simp: idio_frame_fetch_def idio_frame_update_def intro!: steady)

lemma steady_store_frame_args [steady]: "steady (store_frame_args fo i vs)"
  by (induction vs arbitrary: i) (auto intro!: steady)

lemma steady_frames [steady]:
  "steady (idio_frame next args)" "steady (idio_link_frame f1 f2)" "steady (idio_extend_frame fo n)"
  by (auto simp: idio_frame_def idio_link_frame_def idio_extend_frame_def Let_def intro!: steady)

lemma steady_args_list_loop [steady]: "steady (args_list_loop f from i r)"
  by (induction i arbitrary: r) (auto intro!: steady)

lemma steady_listify_loop: "steady (listify_loop frame arity i r)"
proof (induction i arbitrary: r)
  case 0
  then show ?case by (subst listify_loop.simps) (auto intro!: steady)
next
  case (Suc i)
  then show ?case by (subst listify_loop.simps) (auto intro!: steady)
qed

lemma steady_lists [steady]:
  "steady (idio_frame_args_as_list_from frame from)" "steady (idio_vm_listify frame arity)"
  "steady (idio_closure cl frame)"
  by (auto simp: idio_frame_args_as_list_from_def idio_vm_listify_def idio_closure_def intro!: steady steady_listify_loop)

text \<open>
  An environment is replaced by one with the same byte code and at least its
  constants. The three functions that do so read it first.
\<close>

definition xenv_grows :: "xenv \<Rightarrow> xenv \<Rightarrow> bool" where
  "xenv_grows e e' \<longleftrightarrow> xe_byte_code e' = xe_byte_code e \<and> prefix (xe_cs e) (xe_cs e')"

lemma steady_update_xenv:
  assumes "\<And>e e' x. r e = Inr (e', x) \<Longrightarrow> xenv_grows e e'"
    and m: "\<And>s. m s = (if xi < length (vm_xenvs s)
      then case r (vm_xenvs s ! xi) of Inl err \<Rightarrow> (Inl err, s)
        | Inr (e', x) \<Rightarrow> (Inr x, s\<lparr>vm_xenvs := (vm_xenvs s)[xi := e']\<rparr>)
      else (Inl Segmentation_fault, s))"
  shows "steady m"
proof (rule steadyI)
  fix s x s' assume "m s = (Inr x, s')"
  then obtain e' where xi: "xi < length (vm_xenvs s)" and e: "r (vm_xenvs s ! xi) = Inr (e', x)"
    and s': "s' = s\<lparr>vm_xenvs := (vm_xenvs s)[xi := e']\<rparr>"
    unfolding m by (auto split: if_splits sum.splits prod.splits)
  have "kept s s'" using assms(1) [OF e] xi by (auto simp: kept_def s' xenv_grows_def nth_list_update)
  then show "kept s s' \<and> (\<forall>pc. m (s\<lparr>vm_pc := pc\<rparr>) = (Inr x, s'\<lparr>vm_pc := pc\<rparr>))"
    using xi e by (simp add: m s')
qed

lemma steady_extend_constants [steady]: "steady (idio_vm_extend_constants xi v)"
  by (rule steady_update_xenv [where xi = xi and r = "\<lambda>e. let ci = length (xe_cs e); e = e\<lparr>xe_cs := xe_cs e @ [v]\<rparr>
      in Inr (if v \<noteq> idio_S_nil then e\<lparr>xe_ch := (xe_ch e)(v \<mapsto> ci)\<rparr> else e, ci)"])
    (auto simp: idio_vm_extend_constants_def xenv_grows_def the_xenv_def set_xenv_def bind_vm_def Let_def split: if_splits)

lemma steady_extend_values [steady]: "steady (idio_vm_extend_values xi)"
  by (rule steady_update_xenv [where xi = xi and r = "\<lambda>e. bind_result (idio_array_push (xe_vt e) idio_S_undef) (\<lambda>vt.
      let e' = e\<lparr>xe_vt := vt\<rparr> in Inr (if xi = 0 then e'\<lparr>xe_st := xe_st e @ [idio_S_false]\<rparr> else e', ar_usize (xe_vt e)))"])
    (auto simp: idio_vm_extend_values_def xenv_grows_def the_xenv_def set_xenv_def bind_vm_def lift_vm_def Let_def bind_result_def
      split: if_splits sum.splits)

lemma steady_values_set [steady]: "steady (idio_vm_values_set xi vi v)"
  by (rule steady_update_xenv [where xi = xi and r = "\<lambda>e. bind_result (idio_array_insert_index (xe_vt e) v (int vi)) (\<lambda>vt.
      Inr (e\<lparr>xe_vt := vt\<rparr>, ()))"])
    (auto simp: idio_vm_values_set_def xenv_grows_def the_xenv_def set_xenv_def bind_vm_def lift_vm_def bind_result_def
      split: if_splits sum.splits)

text \<open>
  The C functions the model is given must be steady themselves. This leaves out primitives that
  go on elsewhere or add code, as \<^verbatim>\<open>apply\<close>, \<^verbatim>\<open>load\<close> and \<^verbatim>\<open>eval\<close> do.
\<close>

definition ctx_steady :: "vm_ctx \<Rightarrow> bool" where
  "ctx_steady cx \<longleftrightarrow>
    (\<forall>f as. steady (cx_primitive cx f as)) \<and> (\<forall>v. steady (cx_copy_deep cx v)) \<and> (\<forall>v. steady (cx_path_expand cx v)) \<and>
    (\<forall>as. steady (cx_invoke_C cx as)) \<and> (\<forall>xi name v. steady (cx_install_expander cx xi name v)) \<and>
    (\<forall>xi name v p. steady (cx_install_infix_operator cx xi name v p)) \<and>
    (\<forall>xi name v p. steady (cx_install_postfix_operator cx xi name v p)) \<and>
    (\<forall>xi name v ce. steady (cx_set_symbol_value cx xi name v ce))"

lemma ctx_steadyD [steady]:
  assumes "ctx_steady cx"
  shows "steady (cx_primitive cx f as)" "steady (cx_copy_deep cx v)" "steady (cx_path_expand cx v)" "steady (cx_invoke_C cx as)"
    "steady (cx_install_expander cx xi name v)" "steady (cx_install_infix_operator cx xi name v p)"
    "steady (cx_install_postfix_operator cx xi name v p)" "steady (cx_set_symbol_value cx xi name v ce)"
  using assms by (simp_all add: ctx_steady_def)

lemma steady_tables [steady]:
  "steady (idio_vm_symbols_ref xi si)" "steady (idio_vm_constants_ref xi ci)"
  "steady (idio_vm_constants_lookup xi name)" "steady (value_index xi si)"
  by (auto simp: idio_vm_symbols_ref_def idio_vm_constants_ref_def idio_vm_constants_lookup_def value_index_def intro!: steady)

lemma steady_lookup_or_extend [steady]: "steady (idio_vm_constants_lookup_or_extend xi name)"
  unfolding idio_vm_constants_lookup_or_extend_def by (intro steady)

lemma steady_values_ref [steady]:
  assumes "ctx_steady cx"
  shows "steady (idio_vm_values_ref cx xi vi)" "steady (idio_vm_values_gref cx xi vi)"
  using assms by (auto simp: idio_vm_values_ref_def idio_vm_values_gref_def is_struct_instance_def intro!: steady)

lemma steady_modules [steady]:
  "steady (idio_module_set_symbol symbol v mo)" "steady (idio_module_find_symbol_recurse_imports cx symbol im)"
  "steady (module_arg m_or_n)" "steady (own_symbol symbol mo)" "steady (idio_module_direct_reference cx name)"
  by (auto simp: idio_module_set_symbol_def idio_module_find_symbol_recurse_imports_def module_arg_def own_symbol_def
      idio_module_direct_reference_def intro!: steady)

lemma steady_import_loop [steady]: "steady (import_loop cx symbol mo si_cm ims)"
proof (induction ims)
  case Nil
  then show ?case by (auto intro!: steady)
next
  case (Cons im ims)
  then show ?case by (simp only: import_loop.simps) (intro steady, simp_all)
qed

lemma steady_find_symbol [steady]:
  "steady (idio_module_find_symbol_recurse cx symbol m_or_n r)" "steady (idio_module_find_symbol cx symbol m_or_n)"
  unfolding idio_module_find_symbol_def idio_module_find_symbol_recurse_def by (auto intro!: steady)

section \<open>The stack\<close>

lemma steady_STACK [steady]: "steady (STACK_PUSH v)" "steady STACK_POP" "steady (push_n vs)" "steady (stack_ref i)"
  "steady (find_marker mark)"
proof -
  show "steady (STACK_PUSH v)" unfolding STACK_PUSH_def by (rule steady) simp_all
  show "steady STACK_POP" by (auto simp: steady_def STACK_POP_def kept_def)
  show "steady (push_n vs)" by (rule steadyI) (auto simp: kept_def)
  show "steady (stack_ref i)" unfolding stack_ref_def by (intro steady) simp
  show "steady (find_marker mark)" unfolding find_marker_def by (intro steady) simp
qed

lemma steady_state [steady]: "steady idio_vm_preserve_state"
  unfolding idio_vm_preserve_state_def by (intro steady) simp

lemma steady_bindings [steady]:
  "steady (push_binding mark gvi v)" "steady (pop_binding mark msg)" "steady (find_binding mark gvi)"
  by (auto simp: push_binding_def pop_binding_def find_binding_def intro!: steady)

lemma steady_binding_access [steady]:
  "steady (binding_set mark gvi v)" "ctx_steady cx \<Longrightarrow> steady (binding_ref cx mark unbound gvi dflt)"
  by (auto simp: binding_ref_def binding_set_def intro!: steady)

lemma steady_variables [steady]:
  "steady (idio_vm_push_dynamic gvi v)" "steady idio_vm_pop_dynamic" "steady (idio_vm_push_environ gvi v)"
  "steady idio_vm_pop_environ" "ctx_steady cx \<Longrightarrow> steady (idio_vm_dynamic_ref cx gvi dflt)"
  "ctx_steady cx \<Longrightarrow> steady (idio_vm_environ_ref cx gvi dflt)"
  by (auto simp: idio_vm_push_dynamic_def idio_vm_pop_dynamic_def idio_vm_dynamic_ref_def
      idio_vm_push_environ_def idio_vm_pop_environ_def idio_vm_environ_ref_def intro!: steady)

lemma steady_traps [steady]:
  "steady (idio_vm_push_trap handler fgci next)" "steady idio_vm_pop_trap" "steady idio_vm_pop_escaper" "steady idio_vm_pop_abort"
  by (auto simp: idio_vm_push_trap_def idio_vm_pop_trap_def idio_vm_pop_escaper_def idio_vm_pop_abort_def Let_def intro!: steady)

section \<open>The instructions\<close>

lemma steady_values [steady]:
  "steady (set_val v)" "steady m \<Longrightarrow> steady (val_from m)" "(\<And>v. steady (f v)) \<Longrightarrow> steady (with_val f)"
  "(\<And>v. steady (f v)) \<Longrightarrow> steady (with_frame f)"
  by (auto simp: set_val_def val_from_def with_val_def with_frame_def intro!: steady)

lemma steady_iref [steady]: "steady (idio_S_si cx scope xi si ci gvi mo desc)" "steady (idio_vm_iref cx xi si desc)"
  unfolding idio_S_si_def idio_vm_iref_def by (intro steady; simp)+

lemma steady_iref_val [steady]:
  assumes "ctx_steady cx"
  shows "steady (idio_vm_iref_val cx xi si undef_sym)"
  unfolding idio_vm_iref_val_def by (intro steady assms; simp)+

lemma steady_iset_val [steady]: "steady (idio_vm_iset_val cx xi si desc v)"
  unfolding idio_vm_iset_val_def by (intro steady; simp cong: if_cong option.case_cong idio_obj.case_cong)

lemma steady_exec_argument [steady]: "steady (exec_argument ins ns)"
  unfolding exec_argument_def by (intro steady)

lemma steady_constant_ref [steady]:
  assumes "ctx_steady cx"
  shows "steady (constant_ref cx c)"
  unfolding constant_ref_def using assms
  by (cases c) (auto intro!: steady split: option.split idio_obj.split)

lemma steady_computed [steady]:
  assumes "ctx_steady cx"
  shows "steady (idio_vm_computed_iref cx gns)" "steady (idio_vm_computed_iset cx gns v)"
  unfolding idio_vm_computed_iref_def idio_vm_computed_iset_def
  by (intro steady assms; simp cong: if_cong option.case_cong idio_obj.case_cong)+

lemma steady_computed_define [steady]: "steady (idio_vm_computed_define xi gvi v)"
  unfolding idio_vm_computed_define_def by (rule steady)

lemma steady_sym_def [steady]: "steady (sym_def cx xi si kci)"
  unfolding sym_def_def by (intro steady; simp)+

lemma steady_computed_sym_def [steady]: "steady (computed_sym_def cx xi si)"
  unfolding computed_sym_def_def by (intro steady; simp)+

lemma steady_val_set [steady]:
  assumes "ctx_steady cx"
  shows "steady (val_set cx xi vi)"
  unfolding val_set_def Let_def by (intro steady assms; simp)+

lemma steady_exec_symbol [steady]:
  assumes "ctx_steady cx"
  shows "steady (exec_symbol cx xi ins ns)"
  unfolding exec_symbol_def by (intro steady assms)

lemma steady_exec_predefined [steady]:
  assumes "ctx_steady cx"
  shows "steady (exec_predefined cx xi ins ns)"
  unfolding exec_predefined_def by (intro steady assms)

lemma steady_pop_function [steady]: "steady pop_function"
  unfolding pop_function_def by (intro steady; simp cong: if_cong option.case_cong idio_obj.case_cong)

lemma steady_exec_stack [steady]: "steady (exec_stack ins ns)"
  unfolding exec_stack_def by (intro steady; simp)

lemma steady_exec_allocate [steady]: "steady (exec_allocate ins ns)"
  unfolding exec_allocate_def by (intro steady)

lemma steady_frame_instructions [steady]:
  "steady (link_frame xi si sei)" "steady (extend_frame xi alloc si)" "steady (pop_frame rank)"
  unfolding link_frame_def extend_frame_def pop_frame_def by (intro steady; simp)+

lemma steady_exec_frame [steady]: "steady (exec_frame xi ins ns)"
  unfolding exec_frame_def by (intro steady; simp)

lemma steady_arity_eq [steady]: "steady nargs_of_val" "steady (arity_eq n)"
  unfolding nargs_of_val_def arity_eq_def by (intro steady)+

lemma steady_exec_arity [steady]: "steady (exec_arity ins ns)"
  unfolding exec_arity_def Let_def by (intro steady)

lemma steady_exec_number [steady]: "steady (exec_number ins ns)"
  unfolding exec_number_def Let_def constant_value_def fixnum_value_def by (intro steady)

lemma steady_primcall [steady]:
  assumes "ctx_steady cx" "\<And>s pc. args (s\<lparr>vm_pc := pc\<rparr>) = args s"
  shows "steady (primcall cx xi si args)"
  unfolding primcall_def by (intro steady assms; simp)+

lemma steady_exec_primcall [steady]:
  assumes "ctx_steady cx"
  shows "steady (exec_primcall cx xi ins ns)"
  unfolding exec_primcall_def by (intro steady assms; simp)+

lemma steady_operator [steady]:
  "(\<And>sym v. steady (install sym v)) \<Longrightarrow> steady (operator cx install xi oi desc)"
  unfolding operator_def by (intro steady; simp)

lemma steady_exec_expander [steady]:
  assumes "ctx_steady cx"
  shows "steady (exec_expander cx xi ins ns)"
  unfolding exec_expander_def expander_def by (intro steady assms; simp)+

lemma steady_exec_binding [steady]:
  assumes "ctx_steady cx"
  shows "steady (exec_binding cx xi ins ns)"
  unfolding exec_binding_def by (intro steady assms)

lemma steady_push_trap [steady]: "steady (push_trap xi si)"
  unfolding push_trap_def by (intro steady)

text \<open>A primitive leaves the counter where it is, so it is not called with a return.\<close>

lemma steady_frame_arg_list [steady]: "steady (frame_arg_list f is)"
proof (induction "is")
  case (Cons i js)
  then show ?case by (simp only: frame_arg_list.simps) (intro steady)
qed (simp only: frame_arg_list.simps steady)

definition call_primitive :: "vm_ctx \<Rightarrow> idio_primitive \<Rightarrow> unit vmm" where
  "call_primitive cx p =
    look_vm (\<lambda>s. let val = vm_val s
      in if \<not> idio_isa_frame s val then fail_vm (Process_exit 134)
         else bind_vm (the_frame val) (\<lambda>f. bind_vm (frame_arg f (fr_nparams f)) (\<lambda>last.
           if last \<noteq> idio_S_nil then fail_vm (Coding_error ''primitive: using varargs?'')
           else if 5 < pr_arity p then fail_vm (Function_error ''arity unexpected'')
           else bind_vm (frame_arg_list f [0..<pr_arity p]) (\<lambda>as.
             bind_vm (idio_frame_args_as_list_from val (pr_arity p)) (\<lambda>rest.
             bind_vm (cx_primitive cx (pr_f p) (as @ [rest])) (\<lambda>v. upd_vm (vm_val_update (\<lambda>_. v))))))))"

lemma steady_call_primitive [steady]:
  assumes "ctx_steady cx"
  shows "steady (call_primitive cx p)"
  unfolding call_primitive_def Let_def by (intro steady assms; simp cong: if_cong option.case_cong idio_obj.case_cong)

lemma invoke_primitive_eq:
  "invoke_primitive cx p tailp s =
    bind_vm (call_primitive cx p) (\<lambda>_. bind_vm (get_vm (\<lambda>t. \<not> tailp \<and> (vm_xi t \<noteq> vm_xi s \<or> vm_pc t \<noteq> vm_pc s)))
      (\<lambda>b. if b then push_return (vm_xi s) (vm_pc s) else ret_vm ())) s"
  by (simp add: invoke_primitive_def call_primitive_def Let_def bind_vm_assoc seq_vm_def bind_vm_def split: prod.split sum.split)

lemma invoke_primitive_steady:
  assumes "ctx_steady cx" "call_primitive cx p s = (Inr (), s')"
  shows "invoke_primitive cx p tailp s = (Inr (), s')"
proof -
  note a = steadyD [OF steady_call_primitive [OF assms(1)] assms(2)]
  have "vm_xi s' = vm_xi s" using a(1) by (simp add: kept_def)
  then show ?thesis using assms(2) a(3) by (simp add: invoke_primitive_eq bind_vm_Inr)
qed

end
