(* ===== verification/Compile_Sem.thy ===== *)
theory Compile_Sem
  imports Vm_Steady
begin

text \<open>
  What the intermediate code means on the machine, without code addresses: jumps are
  choices, constants are the values themselves, the short forms of an instruction are its
  general form. The tables of the evaluation environment are threaded as the code
  generator does, since instructions name source expressions and formals by index.

  Code that leaves by other means than its end has no meaning here: tail calls, returns,
  escapers, aborts; and a call is one of a primitive.
\<close>

section \<open>Actions\<close>

type_synonym meaning = "eenv \<Rightarrow> (unit vmm \<times> eenv) result"

definition does :: "unit vmm \<Rightarrow> meaning" where
  "does a ee = Inr (a, ee)"

definition seq_m :: "meaning \<Rightarrow> meaning \<Rightarrow> meaning" where
  "seq_m m1 m2 ee = bind_result (m1 ee) (\<lambda>(a, ee). bind_result (m2 ee) (\<lambda>(b, ee). Inr (seq_vm a b, ee)))"

fun seqs_m :: "meaning list \<Rightarrow> meaning" where
  "seqs_m [] = does (ret_vm ())"
| "seqs_m (m # ms) = seq_m m (seqs_m ms)"

definition constant_m :: "idio_value \<Rightarrow> (int \<Rightarrow> meaning) \<Rightarrow> meaning" where
  "constant_m v f ee = (let (ci, ee) = idio_codegen_constants_lookup_or_extend ee v in f (int ci) ee)"

definition src_expr_m :: "codegen_ctx \<Rightarrow> idio_value \<Rightarrow> (int \<Rightarrow> meaning) \<Rightarrow> meaning" where
  "src_expr_m gx src f ee = (let (sei, ee) = idio_codegen_extend_src_exprs gx ee src in f (int sei) ee)"

text \<open>An instruction in the execution environment of the machine.\<close>

definition instr :: "vm_ctx \<Rightarrow> nat \<Rightarrow> nat list \<Rightarrow> unit vmm" where
  "instr cx op ns = bind_vm (get_vm vm_xi) (\<lambda>xi. exec cx xi op ns)"

definition ins_m :: "vm_ctx \<Rightarrow> nat \<Rightarrow> int list \<Rightarrow> meaning" where
  "ins_m cx op ns = does (instr cx op (map u64 ns))"

definition src_m :: "vm_ctx \<Rightarrow> codegen_ctx \<Rightarrow> idio_value \<Rightarrow> meaning" where
  "src_m cx gx e = (if cx_isa_pair gx e then src_expr_m gx e (\<lambda>sei. ins_m cx IDIO_A_SRC_EXPR [sei]) else does (ret_vm ()))"

definition set_constant :: "vm_ctx \<Rightarrow> idio_value \<Rightarrow> unit vmm" where
  "set_constant cx c = (case c of V_pointer _ \<Rightarrow> val_from (constant_ref cx c) | _ \<Rightarrow> set_val c)"

definition rcse_m :: "vm_ctx \<Rightarrow> bool \<Rightarrow> meaning \<Rightarrow> meaning" where
  "rcse_m cx b m = (if b then seqs_m [ins_m cx IDIO_A_SUPPRESS_RCSE [], m, ins_m cx IDIO_A_POP_RCSE []] else m)"

text \<open>The two branches are generated one after the other.\<close>

definition choice_m :: "meaning \<Rightarrow> meaning \<Rightarrow> meaning" where
  "choice_m m2 m3 ee =
    bind_result (m2 ee) (\<lambda>(a2, ee). bind_result (m3 ee) (\<lambda>(a3, ee).
      Inr (with_val (\<lambda>v. if v = idio_S_false then a3 else a2), ee)))"

text \<open>\<open>stop\<close> tells whether the value ends the chain of clauses.\<close>

fun chain_m :: "(idio_value \<Rightarrow> bool) \<Rightarrow> meaning list \<Rightarrow> meaning" where
  "chain_m stop [] = does (ret_vm ())"
| "chain_m stop (m # ms) = (\<lambda>ee.
    bind_result (m ee) (\<lambda>(a, ee). bind_result (chain_m stop ms ee) (\<lambda>(b, ee).
      Inr (with_val (\<lambda>v. if stop v then ret_vm () else seq_vm a b), ee))))"

fun clauses_m :: "vm_ctx \<Rightarrow> bool \<Rightarrow> meaning list \<Rightarrow> meaning list" where
  "clauses_m cx tailp [] = []"
| "clauses_m cx tailp (m # ms) = rcse_m cx (ms \<noteq> [] \<or> \<not> tailp) m # clauses_m cx tailp ms"

definition and_or_m :: "vm_ctx \<Rightarrow> (idio_value \<Rightarrow> bool) \<Rightarrow> bool \<Rightarrow> meaning \<Rightarrow> meaning list \<Rightarrow> meaning" where
  "and_or_m cx stop tailp m1 ms =
    seq_m (rcse_m cx (ms \<noteq> [] \<or> \<not> tailp) m1) (chain_m stop (clauses_m cx tailp ms))"

text \<open>A call of a primitive; the frame and the environment that were saved come back.\<close>

definition call :: "vm_ctx \<Rightarrow> unit vmm" where
  "call cx =
    bind_vm (get_vm vm_func) (\<lambda>func. bind_vm (get_vm (\<lambda>s. obj_at s func)) (\<lambda>ob.
      case ob of Some (O_primitive p) \<Rightarrow> call_primitive cx p | _ \<Rightarrow> fail_vm (Coding_error ''no primitive'')))"

definition restore :: "unit vmm" where
  "restore =
    bind_vm STACK_POP (\<lambda>marker.
      if marker \<noteq> idio_SM_preserve_state then fail_vm (Vm_panic ''iv_restore_state: unexpected stack marker'')
      else bind_vm STACK_POP (\<lambda>env. seq_vm (upd_vm (vm_env_update (\<lambda>_. env)))
        (bind_vm (get_vm (\<lambda>s. env_ok s env)) (\<lambda>ok.
          if ok then bind_vm STACK_POP (\<lambda>fr. upd_vm (vm_frame_update (\<lambda>_. fr)))
          else fail_vm (Vm_panic ''no environment'')))))"

section \<open>The meaning of the intermediate code\<close>

definition no_meaning :: meaning where
  "no_meaning ee = Inl (Coding_error ''no meaning'')"

definition if_m :: "bool \<Rightarrow> meaning \<Rightarrow> meaning" where
  "if_m b m = (if b then m else no_meaning)"

text \<open>The tables after a closure has been generated are the code generator's.\<close>

definition closure_m :: "vm_ctx \<Rightarrow> codegen_ctx \<Rightarrow> icode \<Rightarrow> int \<Rightarrow> meaning" where
  "closure_m cx gx m vi ee =
    bind_result (idio_codegen_compile gx m ee) (\<lambda>(_, ee). ins_m cx IDIO_A_CREATE_CLOSURE [vi] ee)"

primrec meaning :: "vm_ctx \<Rightarrow> codegen_ctx \<Rightarrow> icode \<Rightarrow> meaning" where
  "meaning cx gx (I_SHALLOW_ARGUMENT_REF j) = ins_m cx IDIO_A_SHALLOW_ARGUMENT_REF [j]"
| "meaning cx gx (I_DEEP_ARGUMENT_REF i j) = ins_m cx IDIO_A_DEEP_ARGUMENT_REF [i, j]"
| "meaning cx gx (I_SHALLOW_ARGUMENT_SET j m1) = seqs_m [meaning cx gx m1, ins_m cx IDIO_A_SHALLOW_ARGUMENT_SET [j]]"
| "meaning cx gx (I_DEEP_ARGUMENT_SET i j m1) = seqs_m [meaning cx gx m1, ins_m cx IDIO_A_DEEP_ARGUMENT_SET [i, j]]"
| "meaning cx gx (I_SYM_REF si) = ins_m cx IDIO_A_SYM_REF [si]"
| "meaning cx gx (I_FUNCTION_SYM_REF si) = ins_m cx IDIO_A_FUNCTION_SYM_REF [si]"
| "meaning cx gx (I_CONSTANT_REF c) =
    (case c of V_pointer _ \<Rightarrow> constant_m c (\<lambda>_. does (set_constant cx c))
     | V_token _ \<Rightarrow> no_meaning | V_i_code _ \<Rightarrow> no_meaning
     | _ \<Rightarrow> does (set_constant cx c))"
| "meaning cx gx (I_COMPUTED_SYM_REF si) = ins_m cx IDIO_A_COMPUTED_SYM_REF [si]"
| "meaning cx gx (I_SYM_DEF name kind si) =
    if_m (cx_isa_symbol gx name \<and> kind \<in> set (cx_S_scopes gx)) (constant_m kind (\<lambda>kci. ins_m cx IDIO_A_SYM_DEF [si, kci]))"
| "meaning cx gx (I_SYM_SET e si m1) = seqs_m [meaning cx gx m1, src_m cx gx e, ins_m cx IDIO_A_SYM_SET [si]]"
| "meaning cx gx (I_COMPUTED_SYM_SET si m1) = seqs_m [meaning cx gx m1, ins_m cx IDIO_A_COMPUTED_SYM_SET [si]]"
| "meaning cx gx (I_COMPUTED_SYM_DEF si m1) = seqs_m [meaning cx gx m1, ins_m cx IDIO_A_COMPUTED_SYM_DEF [si]]"
| "meaning cx gx I_VAL_REF = no_meaning"
| "meaning cx gx I_FUNCTION_VAL_REF = no_meaning"
| "meaning cx gx (I_VAL_SET e vi m1) = seqs_m [meaning cx gx m1, src_m cx gx e, ins_m cx IDIO_A_VAL_SET [vi]]"
| "meaning cx gx (I_PREDEFINED vi) = ins_m cx IDIO_A_PREDEFINED [vi]"
| "meaning cx gx (I_ALTERNATIVE src m1 m2 m3) =
    seqs_m [src_m cx gx src, rcse_m cx True (meaning cx gx m1), choice_m (meaning cx gx m2) (meaning cx gx m3)]"
| "meaning cx gx (I_SEQUENCE m1 mp) = seqs_m [meaning cx gx m1, meaning cx gx mp]"
| "meaning cx gx (I_TR_FIX_LET ms mp formals src) =
    constant_m formals (\<lambda>fci. src_expr_m gx src (\<lambda>sei.
      seqs_m [meaning cx gx ms, ins_m cx IDIO_A_LINK_FRAME [fci, sei], meaning cx gx mp]))"
| "meaning cx gx (I_FIX_LET ms mp formals src) =
    constant_m formals (\<lambda>fci. src_expr_m gx src (\<lambda>sei.
      seqs_m [meaning cx gx ms, ins_m cx IDIO_A_LINK_FRAME [fci, sei], meaning cx gx mp,
        ins_m cx IDIO_A_UNLINK_FRAME []]))"
| "meaning cx gx (I_LOCAL e i m1 mp formals) =
    constant_m formals (\<lambda>fci.
      seqs_m [meaning cx gx m1, src_m cx gx e,
        ins_m cx IDIO_A_EXTEND_FRAME [int (cx_list_length gx formals), fci],
        ins_m cx IDIO_A_SHALLOW_ARGUMENT_SET [i], meaning cx gx mp])"
| "meaning cx gx (I_PRIMCALL0 e pd) = seqs_m [src_m cx gx e, ins_m cx IDIO_A_PRIMCALL0 [pd]]"
| "meaning cx gx (I_PRIMCALL1 e m1 pd) =
    seqs_m [meaning cx gx m1, src_m cx gx e, ins_m cx IDIO_A_PRIMCALL1 [pd]]"
| "meaning cx gx (I_PRIMCALL2 e m1 m2 pd) =
    seqs_m [meaning cx gx m1, ins_m cx IDIO_A_PUSH_VALUE [], meaning cx gx m2, ins_m cx IDIO_A_POP_REG1 [],
      src_m cx gx e, ins_m cx IDIO_A_PRIMCALL2 [pd]]"
| "meaning cx gx (I_TR_REGULAR_CALL e m1 ms) = no_meaning"
| "meaning cx gx (I_REGULAR_CALL e m1 ms) =
    seqs_m [meaning cx gx m1, ins_m cx IDIO_A_PUSH_VALUE [], meaning cx gx ms, src_m cx gx e,
      ins_m cx IDIO_A_POP_FUNCTION [], ins_m cx IDIO_A_PRESERVE_STATE [], does (call cx), does restore]"
| "meaning cx gx (I_FIX_CLOSURE mp name arity formals docstr src vi) =
    closure_m cx gx (I_FIX_CLOSURE mp name arity formals docstr src vi) vi"
| "meaning cx gx (I_NARY_CLOSURE mp name arity formals docstr src vi) =
    closure_m cx gx (I_NARY_CLOSURE mp name arity formals docstr src vi) vi"
| "meaning cx gx (I_STORE_ARGUMENT m1 ms rank) =
    seqs_m [meaning cx gx m1, ins_m cx IDIO_A_PUSH_VALUE [], meaning cx gx ms, ins_m cx IDIO_A_POP_FRAME [rank]]"
| "meaning cx gx (I_LIST_ARGUMENT m1 ms arity) =
    seqs_m [meaning cx gx m1, ins_m cx IDIO_A_PUSH_VALUE [], meaning cx gx ms, ins_m cx IDIO_A_POP_LIST_FRAME [arity]]"
| "meaning cx gx (I_ALLOCATE_FRAME arity) = ins_m cx IDIO_A_ALLOCATE_FRAME [arity + 1]"
| "meaning cx gx (I_ALLOCATE_DOTTED_FRAME arity) = ins_m cx IDIO_A_ALLOCATE_DOTTED_FRAME [arity + 1]"
| "meaning cx gx (I_REUSE_FRAME arity) = ins_m cx IDIO_A_REUSE_FRAME [arity + 1]"
| "meaning cx gx (I_PUSH_DYNAMIC si m1) = seqs_m [meaning cx gx m1, ins_m cx IDIO_A_PUSH_DYNAMIC [si]]"
| "meaning cx gx I_POP_DYNAMIC = ins_m cx IDIO_A_POP_DYNAMIC []"
| "meaning cx gx (I_DYNAMIC_SYM_REF si) = ins_m cx IDIO_A_DYNAMIC_SYM_REF [si]"
| "meaning cx gx (I_DYNAMIC_FUNCTION_SYM_REF si) = ins_m cx IDIO_A_DYNAMIC_FUNCTION_SYM_REF [si]"
| "meaning cx gx (I_PUSH_ENVIRON si m1) = seqs_m [meaning cx gx m1, ins_m cx IDIO_A_PUSH_ENVIRON [si]]"
| "meaning cx gx I_POP_ENVIRON = ins_m cx IDIO_A_POP_ENVIRON []"
| "meaning cx gx (I_ENVIRON_SYM_REF si) = ins_m cx IDIO_A_ENVIRON_SYM_REF [si]"
| "meaning cx gx (I_PUSH_TRAP si) = ins_m cx IDIO_A_PUSH_TRAP [si]"
| "meaning cx gx I_POP_TRAP = ins_m cx IDIO_A_POP_TRAP []"
| "meaning cx gx (I_PUSH_ESCAPER ci mp) = no_meaning"
| "meaning cx gx I_POP_ESCAPER = ins_m cx IDIO_A_POP_ESCAPER []"
| "meaning cx gx (I_ESCAPER_LABEL_REF ci mp) = no_meaning"
| "meaning cx gx (I_AND tailp m1 ms) =
    and_or_m cx (\<lambda>v. v = idio_S_false) tailp (meaning cx gx m1) (map (meaning cx gx) ms)"
| "meaning cx gx (I_OR tailp m1 ms) =
    and_or_m cx (\<lambda>v. v \<noteq> idio_S_false) tailp (meaning cx gx m1) (map (meaning cx gx) ms)"
| "meaning cx gx (I_BEGIN ms) = if_m (ms \<noteq> []) (seqs_m (map (meaning cx gx) ms))"
| "meaning cx gx (I_NOT tailp m1) = seqs_m [rcse_m cx (\<not> tailp) (meaning cx gx m1), ins_m cx IDIO_A_NOT []]"
| "meaning cx gx (I_EXPANDER si m1) = seqs_m [meaning cx gx m1, ins_m cx IDIO_A_EXPANDER [si]]"
| "meaning cx gx (I_INFIX_OPERATOR oi pri m1) = seqs_m [meaning cx gx m1, ins_m cx IDIO_A_INFIX_OPERATOR [oi, pri]]"
| "meaning cx gx (I_POSTFIX_OPERATOR oi pri m1) = seqs_m [meaning cx gx m1, ins_m cx IDIO_A_POSTFIX_OPERATOR [oi, pri]]"
| "meaning cx gx I_RETURN = no_meaning"
| "meaning cx gx I_FINISH = no_meaning"
| "meaning cx gx (I_PUSH_ABORT m1) = no_meaning"
| "meaning cx gx I_POP_ABORT = ins_m cx IDIO_A_POP_ABORT []"
| "meaning cx gx I_NOP = ins_m cx IDIO_A_NOP []"
| "meaning cx gx (I_list ms) = if_m (ms \<noteq> [] \<and> hd ms \<noteq> I_list []) (seqs_m (map (meaning cx gx) ms))"

text \<open>
  The fragment with a meaning, whose operands are in the range of their encodings: a
  reference to a symbol has 16 bits, a constant is a value of the language. The body of a
  closure may be any code.
\<close>

definition ref_ok :: "int \<Rightarrow> bool" where
  "ref_ok i \<longleftrightarrow> 0 \<le> i \<and> i < 65536"

definition constant_ok :: "idio_value \<Rightarrow> bool" where
  "constant_ok c \<longleftrightarrow> value_ok c \<and>
    (case c of V_token _ \<Rightarrow> False | V_i_code _ \<Rightarrow> False | V_unicode u \<Rightarrow> 0 \<le> u | _ \<Rightarrow> True)"

primrec straight :: "icode \<Rightarrow> bool" where
  "straight (I_SHALLOW_ARGUMENT_REF j) = True"
| "straight (I_DEEP_ARGUMENT_REF i j) = True"
| "straight (I_SHALLOW_ARGUMENT_SET j m1) = (straight m1)"
| "straight (I_DEEP_ARGUMENT_SET i j m1) = (straight m1)"
| "straight (I_SYM_REF si) = ref_ok si"
| "straight (I_FUNCTION_SYM_REF si) = ref_ok si"
| "straight (I_CONSTANT_REF c) = constant_ok c"
| "straight (I_COMPUTED_SYM_REF si) = ref_ok si"
| "straight (I_SYM_DEF name kind si) = ref_ok si"
| "straight (I_SYM_SET e si m1) = (ref_ok si \<and> straight m1)"
| "straight (I_COMPUTED_SYM_SET si m1) = (ref_ok si \<and> straight m1)"
| "straight (I_COMPUTED_SYM_DEF si m1) = (ref_ok si \<and> straight m1)"
| "straight I_VAL_REF = False"
| "straight I_FUNCTION_VAL_REF = False"
| "straight (I_VAL_SET e vi m1) = (ref_ok vi \<and> straight m1)"
| "straight (I_PREDEFINED vi) = True"
| "straight (I_ALTERNATIVE src m1 m2 m3) = (straight m1 \<and> straight m2 \<and> straight m3)"
| "straight (I_SEQUENCE m1 mp) = (straight m1 \<and> straight mp)"
| "straight (I_TR_FIX_LET ms mp formals src) = (straight ms \<and> straight mp)"
| "straight (I_FIX_LET ms mp formals src) = (straight ms \<and> straight mp)"
| "straight (I_LOCAL e i m1 mp formals) = (straight m1 \<and> straight mp)"
| "straight (I_PRIMCALL0 e pd) = True"
| "straight (I_PRIMCALL1 e m1 pd) = (straight m1)"
| "straight (I_PRIMCALL2 e m1 m2 pd) = (straight m1 \<and> straight m2)"
| "straight (I_TR_REGULAR_CALL e m1 ms) = False"
| "straight (I_REGULAR_CALL e m1 ms) = (straight m1 \<and> straight ms)"
| "straight (I_FIX_CLOSURE mp name arity formals docstr src vi) = ref_ok vi"
| "straight (I_NARY_CLOSURE mp name arity formals docstr src vi) = ref_ok vi"
| "straight (I_STORE_ARGUMENT m1 ms rank) = (straight m1 \<and> straight ms)"
| "straight (I_LIST_ARGUMENT m1 ms arity) = (straight m1 \<and> straight ms)"
| "straight (I_ALLOCATE_FRAME arity) = True"
| "straight (I_ALLOCATE_DOTTED_FRAME arity) = True"
| "straight (I_REUSE_FRAME arity) = True"
| "straight (I_PUSH_DYNAMIC si m1) = (ref_ok si \<and> straight m1)"
| "straight I_POP_DYNAMIC = True"
| "straight (I_DYNAMIC_SYM_REF si) = ref_ok si"
| "straight (I_DYNAMIC_FUNCTION_SYM_REF si) = ref_ok si"
| "straight (I_PUSH_ENVIRON si m1) = (ref_ok si \<and> straight m1)"
| "straight I_POP_ENVIRON = True"
| "straight (I_ENVIRON_SYM_REF si) = ref_ok si"
| "straight (I_PUSH_TRAP si) = ref_ok si"
| "straight I_POP_TRAP = True"
| "straight (I_PUSH_ESCAPER ci mp) = False"
| "straight I_POP_ESCAPER = True"
| "straight (I_ESCAPER_LABEL_REF ci mp) = False"
| "straight (I_AND tailp m1 ms) = (straight m1 \<and> list_all id (map straight ms))"
| "straight (I_OR tailp m1 ms) = (straight m1 \<and> list_all id (map straight ms))"
| "straight (I_BEGIN ms) = list_all id (map straight ms)"
| "straight (I_NOT tailp m1) = straight m1"
| "straight (I_EXPANDER si m1) = (ref_ok si \<and> straight m1)"
| "straight (I_INFIX_OPERATOR oi pri m1) = (ref_ok oi \<and> straight m1)"
| "straight (I_POSTFIX_OPERATOR oi pri m1) = (ref_ok oi \<and> straight m1)"
| "straight I_RETURN = False"
| "straight I_FINISH = False"
| "straight (I_PUSH_ABORT m1) = False"
| "straight I_POP_ABORT = True"
| "straight I_NOP = True"
| "straight (I_list ms) = list_all id (map straight ms)"

end
