(* ===== verification/Compile_Correct.thy ===== *)
theory Compile_Correct
  imports Compile_Sem
begin

text \<open>
  The bytes the code generator emits do on the machine what the intermediate code means.
\<close>

section \<open>The table of constants\<close>

text \<open>Constants are only added, and a constant is at the index it is found at.\<close>

definition constants_ok :: "eenv \<Rightarrow> bool" where
  "constants_ok ee \<longleftrightarrow> (\<forall>v i. ee_ch ee v = Some i \<longrightarrow> i < length (ee_cs ee) \<and> ee_cs ee ! i = v)"

definition ee_grows :: "eenv \<Rightarrow> eenv \<Rightarrow> bool" where
  "ee_grows ee ee' \<longleftrightarrow> prefix (ee_cs ee) (ee_cs ee') \<and> prefix (ee_ses ee) (ee_ses ee') \<and> (constants_ok ee \<longrightarrow> constants_ok ee')"

lemma ee_grows_refl [simp]: "ee_grows ee ee"
  by (simp add: ee_grows_def)

lemma ee_grows_trans: "ee_grows a b \<Longrightarrow> ee_grows b c \<Longrightarrow> ee_grows a c"
  unfolding ee_grows_def by (meson prefix_order.trans)

lemma find_eqp_Some: "find_eqp cs v n = Some i \<Longrightarrow> n \<le> i \<and> i < n + length cs \<and> cs ! (i - n) = v"
  by (induction cs v n rule: find_eqp.induct) (auto simp: nth_Cons' split: if_splits)

lemma extend_constants_ok:
  assumes "idio_codegen_extend_constants ee v = (ci, ee')"
  shows "ee_grows ee ee'" "ci < length (ee_cs ee')" "ee_cs ee' ! ci = v"
  using assms
  by (auto simp: idio_codegen_extend_constants_def ee_grows_def constants_ok_def nth_append Let_def less_Suc_eq split: if_splits)

lemma lookup_or_extend_ok:
  assumes "idio_codegen_constants_lookup_or_extend ee v = (ci, ee')"
  shows "ee_grows ee ee'" "constants_ok ee \<Longrightarrow> ci < length (ee_cs ee') \<and> ee_cs ee' ! ci = v"
proof -
  have f: "constants_ok ee \<Longrightarrow> idio_codegen_constants_lookup ee v = Some i \<Longrightarrow> i < length (ee_cs ee) \<and> ee_cs ee ! i = v" for i
    using find_eqp_Some [of "ee_cs ee" v 0 i]
    by (auto simp: idio_codegen_constants_lookup_def constants_ok_def split: if_splits)
  show "ee_grows ee ee'" "constants_ok ee \<Longrightarrow> ci < length (ee_cs ee') \<and> ee_cs ee' ! ci = v"
    using assms f extend_constants_ok [of ee v ci ee']
    by (auto simp: idio_codegen_constants_lookup_or_extend_def split: option.splits)
qed

lemma extend_src_exprs_ok:
  assumes "idio_codegen_extend_src_exprs gx ee src = (sei, ee')"
  shows "ee_grows ee ee'" "sei < length (ee_ses ee') \<and> ee_ses ee' ! sei = src"
proof -
  let ?e = "ee\<lparr>ee_ses := ee_ses ee @ [src]\<rparr>"
  have e: "ee_grows ee ?e" by (simp add: ee_grows_def constants_ok_def)
  have u: "ee_grows d (d\<lparr>ee_sps := x\<rparr>)" for d x by (simp add: ee_grows_def constants_ok_def)
  have "sei = length (ee_ses ee) \<and> (\<exists>d x. ee_grows ?e d \<and> ee' = d\<lparr>ee_sps := x\<rparr>)"
  proof (cases "cx_isa_pair gx src \<and> cx_src_properties gx src \<noteq> None")
    case True
    then obtain name line where p: "cx_isa_pair gx src" "cx_src_properties gx src = Some (name, line)" by auto
    obtain ci d where d: "idio_codegen_constants_lookup_or_extend ?e name = (ci, d)" by fastforce
    have "ee_grows ?e d" by (rule lookup_or_extend_ok(1) [OF d])
    then show ?thesis using assms p d by (auto simp: idio_codegen_extend_src_exprs_def Let_def)
  next
    case False
    have "ee_grows ?e ?e" by simp
    then show ?thesis using assms False
      by (cases "cx_isa_pair gx src"; cases "cx_src_properties gx src") (auto simp: idio_codegen_extend_src_exprs_def Let_def simp del: ee_grows_refl)
  qed
  then obtain d x where g: "sei = length (ee_ses ee)" "ee_grows ?e d" "ee' = d\<lparr>ee_sps := x\<rparr>" by blast
  show "ee_grows ee ee'" unfolding g(3) by (rule ee_grows_trans [OF ee_grows_trans [OF e g(2)] u])
  show "sei < length (ee_ses ee') \<and> ee_ses ee' ! sei = src"
    using g by (auto simp: ee_grows_def prefix_def nth_append)
qed

section \<open>Code on the machine\<close>

definition code_at :: "vm \<Rightarrow> nat \<Rightarrow> byte list \<Rightarrow> bool" where
  "code_at s pc bs \<longleftrightarrow> vm_xi s < length (vm_xenvs s) \<and>
    (\<exists>pre post. xe_byte_code (vm_xenvs s ! vm_xi s) = pre @ bs @ post \<and> length pre = pc)"

definition constants_at :: "vm \<Rightarrow> idio_value list \<Rightarrow> bool" where
  "constants_at s cs \<longleftrightarrow> prefix cs (xe_cs (vm_xenvs s ! vm_xi s))"

text \<open>
  \<open>runs cx cs bs a\<close>: where the bytes stand at the counter, and the constants are in the
  machine's table, whatever \<open>a\<close> does the machine does, and comes to the end of the bytes.
\<close>

definition runs :: "vm_ctx \<Rightarrow> idio_value list \<Rightarrow> byte list \<Rightarrow> unit vmm \<Rightarrow> bool" where
  "runs cx cs bs a \<longleftrightarrow> (\<forall>s s'. code_at s (vm_pc s) bs \<longrightarrow> constants_at s cs \<longrightarrow> a s = (Inr (), s') \<longrightarrow>
    vm_steps cx s (s'\<lparr>vm_pc := vm_pc s + length bs\<rparr>))"

lemma runsI:
  "(\<And>s s'. code_at s (vm_pc s) bs \<Longrightarrow> constants_at s cs \<Longrightarrow> a s = (Inr (), s') \<Longrightarrow>
    vm_steps cx s (s'\<lparr>vm_pc := vm_pc s + length bs\<rparr>)) \<Longrightarrow> runs cx cs bs a"
  unfolding runs_def by blast

lemma runsD:
  "runs cx cs bs a \<Longrightarrow> code_at s (vm_pc s) bs \<Longrightarrow> constants_at s cs \<Longrightarrow> a s = (Inr (), s') \<Longrightarrow>
    vm_steps cx s (s'\<lparr>vm_pc := vm_pc s + length bs\<rparr>)"
  unfolding runs_def by blast

lemma vm_steps_trans: "vm_steps cx s t \<Longrightarrow> vm_steps cx t u \<Longrightarrow> vm_steps cx s u"
  by (induction rule: vm_steps.induct) (auto intro: vm_steps.some)

lemma vm_steps_one: "vm_step cx s t \<Longrightarrow> vm_steps cx s t"
  by (blast intro: vm_steps.intros)

lemma same_pc [simp]: "s\<lparr>vm_pc := vm_pc s\<rparr> = s"
  by simp

lemma code_at_pc [simp]: "code_at (s\<lparr>vm_pc := pc'\<rparr>) pc bs = code_at s pc bs"
  by (simp add: code_at_def)

lemma constants_at_pc [simp]: "constants_at (s\<lparr>vm_pc := pc'\<rparr>) cs = constants_at s cs"
  by (simp add: constants_at_def)

lemma code_at_append: "code_at s pc (bs @ cs) \<Longrightarrow> code_at s pc bs \<and> code_at s (pc + length bs) cs"
proof -
  assume "code_at s pc (bs @ cs)"
  then obtain pre post where c: "vm_xi s < length (vm_xenvs s)"
    "xe_byte_code (vm_xenvs s ! vm_xi s) = pre @ (bs @ cs) @ post" "length pre = pc" unfolding code_at_def by blast
  then have "xe_byte_code (vm_xenvs s ! vm_xi s) = pre @ bs @ (cs @ post)"
    "xe_byte_code (vm_xenvs s ! vm_xi s) = (pre @ bs) @ cs @ post" "length (pre @ bs) = pc + length bs" by simp_all
  then show ?thesis using c(1,3) unfolding code_at_def by blast
qed

lemma code_at_kept: "kept s s' \<Longrightarrow> code_at s pc bs \<Longrightarrow> code_at s' pc bs"
  unfolding code_at_def kept_def by metis

lemma constants_at_kept: "kept s s' \<Longrightarrow> vm_xi s < length (vm_xenvs s) \<Longrightarrow> constants_at s cs \<Longrightarrow> constants_at s' cs"
  unfolding constants_at_def kept_def by (metis prefix_order.trans)

lemma runs_more: "prefix cs cs' \<Longrightarrow> runs cx cs bs a \<Longrightarrow> runs cx cs' bs a"
  unfolding runs_def constants_at_def by (meson prefix_order.trans)

lemma runs_nothing [simp]: "runs cx cs [] (ret_vm ())"
  by (rule runsI) (simp add: vm_steps.none)

lemma runs_seq:
  assumes "runs cx cs bs a" "steady a" "runs cx cs bs' b" "steady b"
  shows "runs cx cs (bs @ bs') (seq_vm a b)"
proof (rule runsI)
  fix s s'' assume c: "code_at s (vm_pc s) (bs @ bs')" "constants_at s cs" "seq_vm a b s = (Inr (), s'')"
  then obtain s' where r: "a s = (Inr (), s')" "b s' = (Inr (), s'')" by (auto elim: seq_vm_InrE)
  note k = steadyD [OF assms(2) r(1)]
  let ?t = "s'\<lparr>vm_pc := vm_pc s + length bs\<rparr>"
  have x: "vm_xi s < length (vm_xenvs s)" using c(1) by (simp add: code_at_def)
  have "vm_steps cx s ?t" using runsD [OF assms(1) _ c(2) r(1)] code_at_append [OF c(1)] by blast
  moreover have "vm_steps cx ?t (s''\<lparr>vm_pc := vm_pc s + length bs, vm_pc := vm_pc ?t + length bs'\<rparr>)"
  proof (rule runsD [OF assms(3)])
    show "code_at ?t (vm_pc ?t) bs'" using code_at_kept [OF k(1)] code_at_append [OF c(1)] by simp
    show "constants_at ?t cs" using constants_at_kept [OF k(1) x c(2)] by simp
    show "b ?t = (Inr (), s''\<lparr>vm_pc := vm_pc s + length bs\<rparr>)" using steadyD(2) [OF assms(4) r(2)] .
  qed
  ultimately show "vm_steps cx s (s''\<lparr>vm_pc := vm_pc s + length (bs @ bs')\<rparr>)"
    using vm_steps_trans by (simp add: add.assoc)
qed

text \<open>One instruction.\<close>

lemma step_instruction:
  assumes "instruction_ok op ns" "op \<noteq> IDIO_A_FINISH" "code_at s (vm_pc s) (asm op ns)"
    "exec cx (vm_xi s) op ns (s\<lparr>vm_pc := vm_pc s + length (asm op ns)\<rparr>) = (Inr (), s')"
  shows "vm_step cx s s'"
proof -
  obtain pre post where c: "vm_xi s < length (vm_xenvs s)"
    "xe_byte_code (vm_xenvs s ! vm_xi s) = pre @ asm op ns @ post" "length pre = vm_pc s"
    using assms(3) unfolding code_at_def by blast
  have "fetch (xe_byte_code (vm_xenvs s ! vm_xi s)) (vm_pc s) = Inr ((op, ns), vm_pc s + length (asm op ns))"
    unfolding c(2) c(3) [symmetric] by (rule readsD [OF fetch_asm [OF assms(1)]])
  moreover have "vm_pc s < length (xe_byte_code (vm_xenvs s ! vm_xi s))"
    using c(2,3) length_asm [of op ns] by auto
  ultimately show ?thesis
    using c(1) assms(2,4)
    by (simp add: vm_step_def idio_vm_run1_def bind_vm_Inr [where m = "the_xenv (vm_xi s)"] the_xenv_def Let_def seq_vm_Inr)
qed

lemma runs_instruction:
  assumes "instruction_ok op ns" "op \<noteq> IDIO_A_FINISH" "steady a"
    "\<And>s s'. vm_xi s < length (vm_xenvs s) \<Longrightarrow> constants_at s cs \<Longrightarrow> a s = (Inr (), s') \<Longrightarrow>
      exec cx (vm_xi s) op ns s = (Inr (), s')"
  shows "runs cx cs (asm op ns) a"
proof (rule runsI)
  fix s s' assume c: "code_at s (vm_pc s) (asm op ns)" "constants_at s cs" "a s = (Inr (), s')"
  let ?s = "s\<lparr>vm_pc := vm_pc s + length (asm op ns)\<rparr>"
  have "a ?s = (Inr (), s'\<lparr>vm_pc := vm_pc s + length (asm op ns)\<rparr>)" using steadyD(2) [OF assms(3) c(3)] .
  then have "exec cx (vm_xi ?s) op ns ?s = (Inr (), s'\<lparr>vm_pc := vm_pc s + length (asm op ns)\<rparr>)"
    using c(1,2) by (intro assms(4)) (simp_all add: code_at_def)
  then show "vm_steps cx s (s'\<lparr>vm_pc := vm_pc s + length (asm op ns)\<rparr>)"
    using step_instruction [OF assms(1,2) c(1)] by (simp add: vm_steps_one)
qed

lemma runs_ins:
  "instruction_ok op ns \<Longrightarrow> op \<noteq> IDIO_A_FINISH \<Longrightarrow> steady (instr cx op ns) \<Longrightarrow> runs cx cs (asm op ns) (instr cx op ns)"
  by (rule runs_instruction) (simp_all add: instr_def)

text \<open>A jump leaves everything but the counter.\<close>

definition jumps :: "(nat \<times> nat \<times> (idio_value \<Rightarrow> bool)) set" where
  "jumps = {(IDIO_A_SHORT_GOTO, IDIO_A_LONG_GOTO, \<lambda>v. True),
    (IDIO_A_SHORT_JUMP_FALSE, IDIO_A_LONG_JUMP_FALSE, \<lambda>v. v = idio_S_false),
    (IDIO_A_SHORT_JUMP_TRUE, IDIO_A_LONG_JUMP_TRUE, \<lambda>v. v \<noteq> idio_S_false)}"

lemma step_jump:
  assumes "(short, long, taken) \<in> jumps" "l < 2 ^ 64" "code_at s (vm_pc s) (jump short long l)"
  shows "vm_steps cx s (s\<lparr>vm_pc := vm_pc s + length (jump short long l) + (if taken (vm_val s) then l else 0)\<rparr>)"
proof -
  have t: "(short, long, taken) = (IDIO_A_SHORT_GOTO, IDIO_A_LONG_GOTO, \<lambda>v. True) \<or>
      (short, long, taken) = (IDIO_A_SHORT_JUMP_FALSE, IDIO_A_LONG_JUMP_FALSE, \<lambda>v. v = idio_S_false) \<or>
      (short, long, taken) = (IDIO_A_SHORT_JUMP_TRUE, IDIO_A_LONG_JUMP_TRUE, \<lambda>v. v \<noteq> idio_S_false)"
    using assms(1) unfolding jumps_def by blast
  obtain op where b: "jump short long l = asm op [l]" and ok: "instruction_ok op [l]" and f: "op \<noteq> IDIO_A_FINISH"
    and e: "\<And>xi pc. exec cx xi op [l] (s\<lparr>vm_pc := pc\<rparr>) = (Inr (), s\<lparr>vm_pc := pc + (if taken (vm_val s) then l else 0)\<rparr>)"
  proof (cases "l \<le> IDIO_IA_VARUINT_1BYTE")
    case True
    then show thesis using t that [of short]
      by (elim disjE) (simp_all add: jump_def asm_def IDIO_IA_PUSH1_def
          instruction_ok_def IDIO_IA_VARUINT_1BYTE_def exec_def exec_jump_def add_pc_def with_val_def)
  next
    case False
    then show thesis using t assms(2) that [of long]
      by (elim disjE) (simp_all add: jump_def asm_def IDIO_IA_PUSH1_def
          instruction_ok_def exec_def exec_jump_def add_pc_def with_val_def)
  qed
  show ?thesis using step_instruction [OF ok f] assms(3) e unfolding b by (metis vm_steps_one)
qed

lemma runs_skip:
  assumes "(short, long, taken) \<in> jumps" "length bs < 2 ^ 64" "runs cx cs bs a" "steady a"
  shows "runs cx cs (jump short long (length bs) @ bs) (with_val (\<lambda>v. if taken v then ret_vm () else a))"
proof (rule runsI)
  fix s s' :: vm let ?j = "jump short long (length bs)"
  let ?t = "s\<lparr>vm_pc := vm_pc s + length ?j\<rparr>"
  assume c: "code_at s (vm_pc s) (?j @ bs)" "constants_at s cs" "with_val (\<lambda>v. if taken v then ret_vm () else a) s = (Inr (), s')"
  note p = code_at_append [OF c(1)]
  show "vm_steps cx s (s'\<lparr>vm_pc := vm_pc s + length (?j @ bs)\<rparr>)"
  proof (cases "taken (vm_val s)")
    case True
    then show ?thesis
      using step_jump [OF assms(1,2), of s cx] p c(3) by (simp add: with_val_def add.assoc)
  next
    case False
    have "vm_steps cx s ?t" using step_jump [OF assms(1,2), of s cx] p False by simp
    moreover have "vm_steps cx ?t (s'\<lparr>vm_pc := vm_pc ?t, vm_pc := vm_pc ?t + length bs\<rparr>)"
    proof (rule runsD [OF assms(3)])
      have "a s = (Inr (), s')" using c(3) False by (simp add: with_val_def)
      then show "a ?t = (Inr (), s'\<lparr>vm_pc := vm_pc ?t\<rparr>)" using steadyD(2) [OF assms(4)] by simp
    qed (use p c(2) in simp_all)
    ultimately show ?thesis using vm_steps_trans by (simp add: add.assoc)
  qed
qed

lemma runs_choice:
  assumes "length (alternative_code bs2 bs3) < 2 ^ 64" "runs cx cs bs2 a2" "steady a2" "runs cx cs bs3 a3" "steady a3"
  shows "runs cx cs (alternative_code bs2 bs3) (with_val (\<lambda>v. if v = idio_S_false then a3 else a2))"
proof (rule runsI)
  fix s s' :: vm
  let ?g = "jump IDIO_A_SHORT_GOTO IDIO_A_LONG_GOTO (length bs3)"
  let ?j = "jump IDIO_A_SHORT_JUMP_FALSE IDIO_A_LONG_JUMP_FALSE (length (bs2 @ ?g))"
  have code: "alternative_code bs2 bs3 = ?j @ (bs2 @ ?g) @ bs3"
    by (simp add: alternative_code_def Let_def jump_def IDIO_IA_PUSH1_def)
  have jf: "(IDIO_A_SHORT_JUMP_FALSE, IDIO_A_LONG_JUMP_FALSE, \<lambda>v. v = idio_S_false) \<in> jumps"
    and gt: "(IDIO_A_SHORT_GOTO, IDIO_A_LONG_GOTO, \<lambda>v. True) \<in> jumps" by (simp_all add: jumps_def)
  have l: "length (bs2 @ ?g) < 2 ^ 64" "length bs3 < 2 ^ 64" using assms(1) unfolding code by simp_all
  assume c: "code_at s (vm_pc s) (alternative_code bs2 bs3)" "constants_at s cs"
    "with_val (\<lambda>v. if v = idio_S_false then a3 else a2) s = (Inr (), s')"
  have x: "vm_xi s < length (vm_xenvs s)" using c(1) by (simp add: code_at_def)
  note p = code_at_append [OF c(1) [unfolded code]]
  note q = code_at_append [OF conjunct2 [OF p]]
  note r = code_at_append [OF conjunct1 [OF q]]
  let ?stop = "vm_pc s + length (alternative_code bs2 bs3)"
  let ?t = "s\<lparr>vm_pc := vm_pc s + length ?j + (if vm_val s = idio_S_false then length (bs2 @ ?g) else 0)\<rparr>"
  have j: "vm_steps cx s ?t" using step_jump [OF jf l(1), of s cx] p by blast
  show "vm_steps cx s (s'\<lparr>vm_pc := ?stop\<rparr>)"
  proof (cases "vm_val s = idio_S_false")
    case True
    have "vm_steps cx ?t (s'\<lparr>vm_pc := vm_pc ?t, vm_pc := vm_pc ?t + length bs3\<rparr>)"
    proof (rule runsD [OF assms(4)])
      have "a3 s = (Inr (), s')" using c(3) True by (simp add: with_val_def)
      then show "a3 ?t = (Inr (), s'\<lparr>vm_pc := vm_pc ?t\<rparr>)" using steadyD(2) [OF assms(5)] by simp
    qed (use q c(2) True in simp_all)
    then show ?thesis using vm_steps_trans [OF j] True by (simp add: code add.assoc)
  next
    case False
    have a2: "a2 s = (Inr (), s')" using c(3) False by (simp add: with_val_def)
    let ?u = "s'\<lparr>vm_pc := vm_pc s + length ?j + length bs2\<rparr>"
    have "vm_steps cx ?t (s'\<lparr>vm_pc := vm_pc ?t, vm_pc := vm_pc ?t + length bs2\<rparr>)"
    proof (rule runsD [OF assms(2)])
      show "a2 ?t = (Inr (), s'\<lparr>vm_pc := vm_pc ?t\<rparr>)" using steadyD(2) [OF assms(3) a2] by simp
    qed (use r c(2) False in simp_all)
    then have "vm_steps cx s ?u" using vm_steps_trans [OF j] False by simp
    moreover have "vm_steps cx ?u (?u\<lparr>vm_pc := vm_pc ?u + length ?g + length bs3\<rparr>)"
      using step_jump [OF gt l(2), of ?u cx] code_at_kept [OF steadyD(1) [OF assms(3) a2]] r by simp
    ultimately show ?thesis using vm_steps_trans by (simp add: code add.assoc)
  qed
qed

section \<open>Pieces of the generator\<close>

definition ee_small :: "eenv \<Rightarrow> bool" where
  "ee_small ee \<longleftrightarrow> length (ee_cs ee) < 2 ^ 64"

lemma ee_small_grows: "ee_grows ee ee' \<Longrightarrow> ee_small ee' \<Longrightarrow> ee_small ee"
  unfolding ee_small_def ee_grows_def by (meson le_less_trans prefix_length_le)

text \<open>
  \<open>realizes cx g m\<close>: where the meaning is defined, the piece \<open>g\<close> of the generator
  emits bytes that do it, and leaves the tables as the meaning has them.
\<close>

definition realizes :: "vm_ctx \<Rightarrow> codegen \<Rightarrow> meaning \<Rightarrow> bool" where
  "realizes cx g m \<longleftrightarrow> (\<forall>ee a ee'. m ee = Inr (a, ee') \<longrightarrow>
    (\<exists>bs. g ee = Inr (bs, ee') \<and> ee_grows ee ee' \<and> steady a \<and>
      (constants_ok ee \<longrightarrow> ee_small ee' \<longrightarrow> length bs < 2 ^ 64 \<longrightarrow> runs cx (ee_cs ee') bs a)))"

named_theorems realizes

lemma realizesI:
  "(\<And>ee a ee'. m ee = Inr (a, ee') \<Longrightarrow> \<exists>bs. g ee = Inr (bs, ee') \<and> ee_grows ee ee' \<and> steady a \<and>
      (constants_ok ee \<longrightarrow> ee_small ee' \<longrightarrow> length bs < 2 ^ 64 \<longrightarrow> runs cx (ee_cs ee') bs a)) \<Longrightarrow> realizes cx g m"
  unfolding realizes_def by blast

lemma realizesE:
  assumes "realizes cx g m" "m ee = Inr (a, ee')"
  obtains bs where "g ee = Inr (bs, ee')" "ee_grows ee ee'" "steady a"
    "constants_ok ee \<longrightarrow> ee_small ee' \<longrightarrow> length bs < 2 ^ 64 \<longrightarrow> runs cx (ee_cs ee') bs a"
  using assms unfolding realizes_def by blast

lemma realizes_no_meaning [simp]: "realizes cx g no_meaning"
  by (rule realizesI) (simp add: no_meaning_def)

lemma realizes_if_m: "(b \<Longrightarrow> realizes cx g m) \<Longrightarrow> realizes cx g (if_m b m)"
  by (simp add: if_m_def)

lemma realizes_emit:
  assumes "steady a" "\<And>cs. runs cx cs bs a"
  shows "realizes cx (emit bs) (does a)"
  using assms by (simp add: realizes_def emit_def does_def)

lemma realizes_nothing [realizes]: "realizes cx (emit []) (does (ret_vm ()))"
  by (rule realizes_emit) (auto intro: steady)

lemma bind_result_InrE:
  assumes "bind_result m f = Inr y"
  obtains x where "m = Inr x" "f x = Inr y"
  using assms by (cases m) auto

lemma realizes_seq [realizes]:
  assumes "realizes cx g1 m1" "realizes cx g2 m2"
  shows "realizes cx (seq_cg g1 g2) (seq_m m1 m2)"
proof (rule realizesI)
  fix ee c ee'' assume "seq_m m1 m2 ee = Inr (c, ee'')"
  then obtain a ee' b where m: "m1 ee = Inr (a, ee')" "m2 ee' = Inr (b, ee'')" "c = seq_vm a b"
    unfolding seq_m_def by (auto elim!: bind_result_InrE)
  obtain bs where g1: "g1 ee = Inr (bs, ee')" "ee_grows ee ee'" "steady a"
    "constants_ok ee \<longrightarrow> ee_small ee' \<longrightarrow> length bs < 2 ^ 64 \<longrightarrow> runs cx (ee_cs ee') bs a"
    by (rule realizesE [OF assms(1) m(1)])
  obtain bs' where g2: "g2 ee' = Inr (bs', ee'')" "ee_grows ee' ee''" "steady b"
    "constants_ok ee' \<longrightarrow> ee_small ee'' \<longrightarrow> length bs' < 2 ^ 64 \<longrightarrow> runs cx (ee_cs ee'') bs' b"
    by (rule realizesE [OF assms(2) m(2)])
  have "runs cx (ee_cs ee'') (bs @ bs') c" if "constants_ok ee" "ee_small ee''" "length (bs @ bs') < 2 ^ 64"
  proof -
    have "constants_ok ee'" "ee_small ee'" "prefix (ee_cs ee') (ee_cs ee'')"
      using that g1(2) g2(2) ee_small_grows by (auto simp: ee_grows_def)
    then show ?thesis unfolding m(3) using that g1 g2
      by (intro runs_seq) (auto intro: runs_more)
  qed
  then show "\<exists>bs. seq_cg g1 g2 ee = Inr (bs, ee'') \<and> ee_grows ee ee'' \<and> steady c \<and>
      (constants_ok ee \<longrightarrow> ee_small ee'' \<longrightarrow> length bs < 2 ^ 64 \<longrightarrow> runs cx (ee_cs ee'') bs c)"
    using g1(1-3) g2(1-3) ee_grows_trans [OF g1(2) g2(2)] by (simp add: seq_cg_def m(3) steady_seq)
qed

lemma realizes_seqs [realizes]: "list_all2 (realizes cx) gs ms \<Longrightarrow> realizes cx (seqs gs) (seqs_m ms)"
  by (induction rule: list_all2_induct) (auto intro: realizes)

lemma realizes_constant:
  assumes "\<And>ci. realizes cx (f ci) (h ci)"
  shows "realizes cx (with_constant v f) (constant_m v h)"
proof (rule realizesI)
  fix ee a ee'' assume "constant_m v h ee = Inr (a, ee'')"
  then obtain ci ee' where c: "idio_codegen_constants_lookup_or_extend ee v = (ci, ee')" "h (int ci) ee' = Inr (a, ee'')"
    by (auto simp: constant_m_def split: prod.splits)
  note g = lookup_or_extend_ok(1) [OF c(1)]
  obtain bs where r: "f (int ci) ee' = Inr (bs, ee'')" "ee_grows ee' ee''" "steady a"
    "constants_ok ee' \<longrightarrow> ee_small ee'' \<longrightarrow> length bs < 2 ^ 64 \<longrightarrow> runs cx (ee_cs ee'') bs a"
    by (rule realizesE [OF assms c(2)])
  then show "\<exists>bs. with_constant v f ee = Inr (bs, ee'') \<and> ee_grows ee ee'' \<and> steady a \<and>
      (constants_ok ee \<longrightarrow> ee_small ee'' \<longrightarrow> length bs < 2 ^ 64 \<longrightarrow> runs cx (ee_cs ee'') bs a)"
    using c(1) g ee_grows_trans [OF g r(2)] by (auto simp: with_constant_def ee_grows_def)
qed

lemma realizes_src_expr:
  assumes "\<And>sei. realizes cx (f sei) (h sei)"
  shows "realizes cx (with_src_expr gx src f) (src_expr_m gx src h)"
proof (rule realizesI)
  fix ee a ee'' assume "src_expr_m gx src h ee = Inr (a, ee'')"
  then obtain ci ee' where c: "idio_codegen_extend_src_exprs gx ee src = (ci, ee')" "h (int ci) ee' = Inr (a, ee'')"
    by (auto simp: src_expr_m_def split: prod.splits)
  note g = extend_src_exprs_ok(1) [OF c(1)]
  obtain bs where r: "f (int ci) ee' = Inr (bs, ee'')" "ee_grows ee' ee''" "steady a"
    "constants_ok ee' \<longrightarrow> ee_small ee'' \<longrightarrow> length bs < 2 ^ 64 \<longrightarrow> runs cx (ee_cs ee'') bs a"
    by (rule realizesE [OF assms c(2)])
  then show "\<exists>bs. with_src_expr gx src f ee = Inr (bs, ee'') \<and> ee_grows ee ee'' \<and> steady a \<and>
      (constants_ok ee \<longrightarrow> ee_small ee'' \<longrightarrow> length bs < 2 ^ 64 \<longrightarrow> runs cx (ee_cs ee'') bs a)"
    using c(1) g ee_grows_trans [OF g r(2)] by (auto simp: with_src_expr_def ee_grows_def)
qed

text \<open>The instructions that go on to the next.\<close>

definition plain :: "nat \<Rightarrow> bool" where
  "plain op \<longleftrightarrow> op \<le> IDIO_A_PREDEFINED \<or> IDIO_A_PUSH_VALUE \<le> op \<and> op \<le> IDIO_A_PRESERVE_STATE \<or>
    op = IDIO_A_CREATE_CLOSURE \<or> IDIO_A_POP_ABORT \<le> op \<and> op \<le> IDIO_A_ENVIRON_SYM_REF \<or>
    op \<in> {IDIO_A_PUSH_TRAP, IDIO_A_POP_TRAP, IDIO_A_POP_ESCAPER}"

lemma plain_not_FINISH: "plain op \<Longrightarrow> op \<noteq> IDIO_A_FINISH"
  by (auto simp: plain_def)

lemma steady_create_closure:
  assumes "ctx_steady cx"
  shows "steady (bind_vm (idio_vm_values_gref cx xi vi) (\<lambda>cl. val_from (with_frame (idio_closure cl))))"
  by (intro steady assms)

lemma steady_cond: "(b \<Longrightarrow> steady m) \<Longrightarrow> (\<not> b \<Longrightarrow> steady n) \<Longrightarrow> steady (if b then m else n)"
  by simp

lemma steady_exec_function:
  assumes "ctx_steady cx" "op = IDIO_A_PRESERVE_STATE \<or> op = IDIO_A_CREATE_CLOSURE \<or> op = IDIO_A_POP_ABORT"
  shows "steady (exec_function cx xi op ns)"
  using assms(2) by (elim disjE) (simp_all add: exec_function_def steady_state steady_create_closure [OF assms(1)] steady_traps)

lemma steady_exec_trap:
  assumes "op = IDIO_A_PUSH_TRAP \<or> op = IDIO_A_POP_TRAP \<or> op = IDIO_A_POP_ESCAPER"
  shows "steady (exec_trap xi op ns)"
  using assms by (elim disjE) (simp_all add: exec_trap_def steady_push_trap steady_traps)

lemma steady_exec:
  assumes "ctx_steady cx" "plain op"
  shows "steady (exec cx xi op ns)"
  unfolding exec_def
proof (intro steady_cond steady_exec_argument steady_exec_symbol [OF assms(1)] steady_exec_predefined [OF assms(1)]
    steady_exec_stack steady_exec_allocate steady_exec_frame steady_exec_arity steady_exec_number
    steady_exec_primcall [OF assms(1)] steady_exec_expander [OF assms(1)] steady_exec_binding [OF assms(1)])
  assume "\<not> op \<le> IDIO_A_PREDEFINED" "op \<le> IDIO_A_SHORT_JUMP_TRUE"
  then show "steady (exec_jump op ns)" using assms(2) by (simp add: plain_def)
next
  assume "\<not> op \<le> IDIO_A_POP_FUNCTION" "op \<le> IDIO_A_POP_ABORT"
  then have "op = IDIO_A_PRESERVE_STATE \<or> op = IDIO_A_CREATE_CLOSURE \<or> op = IDIO_A_POP_ABORT"
    using assms(2) unfolding plain_def by fastforce
  then show "steady (exec_function cx xi op ns)" by (rule steady_exec_function [OF assms(1)])
next
  assume "\<not> op \<le> IDIO_A_ENVIRON_SYM_REF"
  then have "op = IDIO_A_PUSH_TRAP \<or> op = IDIO_A_POP_TRAP \<or> op = IDIO_A_POP_ESCAPER"
    using assms(2) unfolding plain_def by fastforce
  then show "steady (exec_trap xi op ns)" by (rule steady_exec_trap)
qed

lemma steady_ins [steady]: "ctx_steady cx \<Longrightarrow> plain op \<Longrightarrow> steady (instr cx op ns)"
  unfolding instr_def by (intro steady steady_exec) simp

lemmas code_defs = asm_def IDIO_IA_PUSH1_def IDIO_IA_PUSH_VARUINT_def IDIO_IA_PUSH_REF_def
  instruction_ok_def plain_def

lemma u64_less [simp]: "u64 i < 18446744073709551616"
  by (simp add: u64_def nat_less_iff)

lemma u64_ref: "ref_ok i \<Longrightarrow> u64 i < 65536"
  by (auto simp: ref_ok_def u64_def)

lemma realizes_ins:
  assumes "ctx_steady cx" "bs = asm op (map u64 ns)" "instruction_ok op (map u64 ns)" "plain op"
  shows "realizes cx (emit bs) (ins_m cx op ns)"
  unfolding ins_m_def using assms
  by (intro realizes_emit) (auto simp: plain_def intro!: steady_ins runs_ins)

section \<open>The generator only adds to the tables\<close>

definition grows :: "codegen \<Rightarrow> bool" where
  "grows g \<longleftrightarrow> (\<forall>ee bs ee'. g ee = Inr (bs, ee') \<longrightarrow> ee_grows ee ee')"

named_theorems grows

lemma growsD: "grows g \<Longrightarrow> g ee = Inr (bs, ee') \<Longrightarrow> ee_grows ee ee'"
  unfolding grows_def by blast

lemma grows_emit [grows]: "grows (emit bs)" and grows_fail [grows]: "grows (\<lambda>ee. Inl e)"
  by (simp_all add: grows_def emit_def)

lemma grows_append_byte_code [grows]: "grows (append_byte_code bs)"
  by (simp add: grows_def append_byte_code_def ee_grows_def constants_ok_def)

lemma grows_bind [grows]:
  assumes "grows g" "\<And>bs. grows (f bs)"
  shows "grows (bind_cg g f)"
  unfolding grows_def
proof (intro allI impI)
  fix ee bs ee'' assume "bind_cg g f ee = Inr (bs, ee'')"
  then obtain as ee' where "g ee = Inr (as, ee')" "f as ee' = Inr (bs, ee'')"
    unfolding bind_cg_def by (auto elim!: bind_result_InrE)
  then show "ee_grows ee ee''" using growsD [OF assms(1)] growsD [OF assms(2)] ee_grows_trans by blast
qed

lemma seq_cg_bind: "seq_cg g h = bind_cg g (\<lambda>bs ee. bind_result (h ee) (\<lambda>(cs, ee). Inr (bs @ cs, ee)))"
  by (simp add: fun_eq_iff seq_cg_def bind_cg_def)

lemma grows_seq [grows]:
  assumes "grows g" "grows h"
  shows "grows (seq_cg g h)"
proof -
  have "grows (\<lambda>ee. bind_result (h ee) (\<lambda>(cs, ee). Inr (bs @ cs, ee)))" for bs
    using growsD [OF assms(2)] unfolding grows_def by (auto elim!: bind_result_InrE)
  then show ?thesis unfolding seq_cg_bind by (intro grows assms)
qed

lemma grows_seqs [grows]: "(\<And>g. g \<in> set gs \<Longrightarrow> grows g) \<Longrightarrow> grows (seqs gs)"
  by (induction gs) (auto intro!: grows)

lemma grows_constant [grows]: "(\<And>ci. grows (f ci)) \<Longrightarrow> grows (with_constant v f)"
  unfolding grows_def with_constant_def
  by (auto split: prod.splits) (meson ee_grows_trans lookup_or_extend_ok(1))

lemma grows_src_expr [grows]: "(\<And>sei. grows (f sei)) \<Longrightarrow> grows (with_src_expr gx src f)"
  unfolding grows_def with_src_expr_def
  by (auto split: prod.splits) (meson ee_grows_trans extend_src_exprs_ok(1))

lemma grows_if [grows]: "grows g \<Longrightarrow> grows h \<Longrightarrow> grows (if b then g else h)"
  by simp

lemma grows_value [grows]:
  "(\<And>x. grows (f1 x)) \<Longrightarrow> (\<And>x. grows (f2 x)) \<Longrightarrow> (\<And>x. grows (f3 x)) \<Longrightarrow> (\<And>x. grows (f4 x)) \<Longrightarrow>
    (\<And>x. grows (f5 x)) \<Longrightarrow> (\<And>x. grows (f6 x)) \<Longrightarrow>
    grows (case c of V_fixnum x \<Rightarrow> f1 x | V_constant x \<Rightarrow> f2 x | V_token x \<Rightarrow> f3 x | V_i_code x \<Rightarrow> f4 x
      | V_unicode x \<Rightarrow> f5 x | V_pointer x \<Rightarrow> f6 x)"
  by (cases c) simp_all

lemma grows_rcse [grows]: "grows g \<Longrightarrow> grows (rcse b g)"
  unfolding rcse_def by (intro grows) (auto intro: grows)

lemma grows_clauses:
  assumes "\<And>g. g \<in> set gs \<Longrightarrow> grows g" "clauses tailp gs ee = Inr (iacs, ee')"
  shows "ee_grows ee ee'"
  using assms
proof (induction gs arbitrary: ee iacs)
  case (Cons g gs)
  from Cons.prems(2) obtain bs ee1 iacs' where r: "rcse (gs \<noteq> [] \<or> \<not> tailp) g ee = Inr (bs, ee1)"
    "clauses tailp gs ee1 = Inr (iacs', ee')" by (auto elim!: bind_result_InrE)
  have g: "grows (rcse (gs \<noteq> [] \<or> \<not> tailp) g)" using Cons.prems(1) by (intro grows) simp
  have "ee_grows ee1 ee'" using Cons.IH [OF _ r(2)] Cons.prems(1) by simp
  then show ?case by (rule ee_grows_trans [OF growsD [OF g r(1)]])
qed simp

lemma grows_and_or [grows]:
  assumes "grows g" "\<And>g. g \<in> set gs \<Longrightarrow> grows g"
  shows "grows (cg_and_or short long tailp g gs)"
proof -
  have "grows (\<lambda>ee. bind_result (clauses tailp gs ee) (\<lambda>(iacs, ee). Inr (link_clauses short long iacs, ee)))"
    unfolding grows_def using grows_clauses [OF assms(2)] by (auto elim!: bind_result_InrE)
  then show ?thesis unfolding cg_and_or_def by (rule grows_seq [OF grows_rcse [OF assms(1)]])
qed

lemma grows_pieces [grows]:
  "grows (IDIO_CODEGEN_SRC_EXPR gx e)" "grows (op_ref op i)" "grows (op_varuint op i)" "grows (op_only op)"
  "grows (cg_constant c)"
  unfolding IDIO_CODEGEN_SRC_EXPR_def op_ref_def op_varuint_def op_only_def cg_constant_def
  by (intro grows)+

lemma grows_alternative [grows]:
  "grows g \<Longrightarrow> grows g1 \<Longrightarrow> grows g2 \<Longrightarrow> grows g3 \<Longrightarrow> grows (cg_alternative g g1 g2 g3)"
  unfolding cg_alternative_def by (intro grows) (auto intro!: grows)

lemma grows_closure [grows]: "grows g \<Longrightarrow> grows (cg_closure gx check g name formals docstr src vi)"
  unfolding cg_closure_def by (intro grows) (auto intro!: grows)

lemma compile_grows: "grows (idio_codegen_compile gx m)"
  by (induction m) (simp_all only: idio_codegen_compile.simps, (intro grows; auto intro!: grows)+)

section \<open>The constructs\<close>

lemma realizes_short:
  assumes "ctx_steady cx" "\<forall>i \<in> {0, 1, 2, 3}. \<forall>xi. exec cx xi (op0 + i) [] = exec cx xi op [i]"
    "\<forall>i \<in> {0, 1, 2, 3}. operands (op0 + i) = [] \<and> plain (op0 + i)" "operands op = [Varuint]" "plain op"
    "op0 < 200" "op < 200"
  shows "realizes cx (emit (cg_shallow op0 op j)) (ins_m cx op [j])"
proof (cases "j = 0 \<or> j = 1 \<or> j = 2 \<or> j = 3")
  case True
  then obtain i where i: "j = int i" "i \<in> {0, 1, 2, 3}" by fastforce
  have u: "u64 j = i" using i by (auto simp: u64_def)
  have o: "operands (op0 + i) = []" "plain (op0 + i)" using assms(3) i(2) by blast+
  have "cg_shallow op0 op j = asm (op0 + i) []"
    using i o(1) by (auto simp: cg_shallow_def asm_def IDIO_IA_PUSH1_def)
  moreover have "exec cx xi (op0 + i) [] = exec cx xi op [i]" for xi using assms(2) i(2) by blast
  then have "instr cx op [i] = instr cx (op0 + i) []" by (simp add: instr_def)
  moreover have "op0 + i < 256" using assms(6) i(2) by auto
  then have "runs cx cs (asm (op0 + i) []) (instr cx (op0 + i) [])" for cs
    using assms(1) o by (intro runs_ins steady_ins plain_not_FINISH) (simp_all add: instruction_ok_def)
  ultimately show ?thesis
    using steady_ins [OF assms(1) assms(5), of "[i]"] u unfolding ins_m_def by (intro realizes_emit) simp_all
next
  case False
  then have "cg_shallow op0 op j = asm op [u64 j]"
    using assms(4) by (simp add: cg_shallow_def asm_def IDIO_IA_PUSH1_def IDIO_IA_PUSH_VARUINT_def)
  then show ?thesis using assms(1,4,5,7) by (intro realizes_ins) (simp_all add: instruction_ok_def)
qed

lemma realizes_shallow_ref [realizes]:
  "ctx_steady cx \<Longrightarrow> realizes cx (emit (cg_shallow IDIO_A_SHALLOW_ARGUMENT_REF0 IDIO_A_SHALLOW_ARGUMENT_REF j))
    (ins_m cx IDIO_A_SHALLOW_ARGUMENT_REF [j])"
  and realizes_shallow_set [realizes]:
  "ctx_steady cx \<Longrightarrow> realizes cx (emit (cg_shallow IDIO_A_SHALLOW_ARGUMENT_SET0 IDIO_A_SHALLOW_ARGUMENT_SET j))
    (ins_m cx IDIO_A_SHALLOW_ARGUMENT_SET [j])"
  and realizes_pop_frame [realizes]:
  "ctx_steady cx \<Longrightarrow> realizes cx (emit (cg_shallow IDIO_A_POP_FRAME0 IDIO_A_POP_FRAME j)) (ins_m cx IDIO_A_POP_FRAME [j])"
  by (rule realizes_short; simp add: exec_def exec_argument_def exec_frame_def plain_def)+

lemma realizes_allocate [realizes]:
  assumes "ctx_steady cx"
  shows "realizes cx (emit (cg_allocate n)) (ins_m cx IDIO_A_ALLOCATE_FRAME [n + 1])"
proof (cases "n = 0 \<or> n = 1 \<or> n = 2 \<or> n = 3 \<or> n = 4")
  case True
  then obtain i where i: "n = int i" "i = 0 \<or> i = 1 \<or> i = 2 \<or> i = 3 \<or> i = 4" by fastforce
  have b: "cg_allocate n = asm (IDIO_A_ALLOCATE_FRAME1 + i) []"
    using i by (elim disjE) (simp_all add: cg_allocate_def asm_def IDIO_IA_PUSH1_def)
  have u: "map u64 [n + 1] = [i + 1]" using i by (auto simp: u64_def)
  have e: "instr cx IDIO_A_ALLOCATE_FRAME [i + 1] = instr cx (IDIO_A_ALLOCATE_FRAME1 + i) []"
    using i(2) by (elim disjE) (simp_all add: instr_def exec_def exec_allocate_def)
  have ok: "instruction_ok (IDIO_A_ALLOCATE_FRAME1 + i) []" "plain (IDIO_A_ALLOCATE_FRAME1 + i)"
    using i(2) by (elim disjE; simp add: instruction_ok_def plain_def)+
  show ?thesis unfolding ins_m_def u e b
    using assms ok by (intro realizes_emit runs_ins steady_ins plain_not_FINISH)
next
  case False
  then have "cg_allocate n = asm IDIO_A_ALLOCATE_FRAME [u64 (n + 1)]"
    by (simp add: cg_allocate_def code_defs)
  then show ?thesis using assms by (intro realizes_ins) (simp_all add: code_defs)
qed

lemma realizes_op [realizes]:
  "ctx_steady cx \<Longrightarrow> operands op = [] \<Longrightarrow> plain op \<Longrightarrow> op < 256 \<Longrightarrow> realizes cx (op_only op) (ins_m cx op [])"
  "ctx_steady cx \<Longrightarrow> operands op = [Varuint] \<Longrightarrow> plain op \<Longrightarrow> op < 256 \<Longrightarrow>
    realizes cx (op_varuint op i) (ins_m cx op [i])"
  "ctx_steady cx \<Longrightarrow> operands op = [Ref] \<Longrightarrow> plain op \<Longrightarrow> op < 256 \<Longrightarrow> ref_ok i \<Longrightarrow>
    realizes cx (op_ref op i) (ins_m cx op [i])"
  unfolding op_only_def op_varuint_def op_ref_def
  by (rule realizes_ins; simp add: asm_def IDIO_IA_PUSH1_def IDIO_IA_PUSH_VARUINT_def IDIO_IA_PUSH_REF_def
      instruction_ok_def u64_ref)+

lemma realizes_ops [realizes]:
  "ctx_steady cx \<Longrightarrow> operands op = [Varuint, Varuint] \<Longrightarrow> plain op \<Longrightarrow> op < 256 \<Longrightarrow>
    realizes cx (emit (IDIO_IA_PUSH1 op @ IDIO_IA_PUSH_VARUINT i @ IDIO_IA_PUSH_VARUINT j)) (ins_m cx op [i, j])"
  "ctx_steady cx \<Longrightarrow> operands op = [Ref, Varuint] \<Longrightarrow> plain op \<Longrightarrow> op < 256 \<Longrightarrow> ref_ok i \<Longrightarrow>
    realizes cx (emit (IDIO_IA_PUSH1 op @ IDIO_IA_PUSH_REF i @ IDIO_IA_PUSH_VARUINT j)) (ins_m cx op [i, j])"
  "ctx_steady cx \<Longrightarrow> operands op = [Varuint] \<Longrightarrow> plain op \<Longrightarrow> op < 256 \<Longrightarrow>
    realizes cx (emit (IDIO_IA_PUSH1 op @ IDIO_IA_PUSH_VARUINT i)) (ins_m cx op [i])"
  by (rule realizes_ins; simp add: asm_def IDIO_IA_PUSH1_def IDIO_IA_PUSH_VARUINT_def IDIO_IA_PUSH_REF_def
      instruction_ok_def u64_ref)+

text \<open>A primitive call's opcode is pushed as an integer, which is one byte.\<close>

lemma realizes_primcall [realizes]:
  assumes "ctx_steady cx" "operands op = [Varuint]" "plain op" "op \<le> 240"
  shows "realizes cx (emit (IDIO_IA_PUSH_VARUINT (int op) @ IDIO_IA_PUSH_VARUINT i)) (ins_m cx op [i])"
proof -
  have "u64 (int op) = op" using assms(4) by (simp add: u64_def)
  then have "IDIO_IA_PUSH_VARUINT (int op) = IDIO_IA_PUSH1 op"
    using assms(4) by (simp add: IDIO_IA_PUSH_VARUINT_def IDIO_IA_PUSH1_def varuint_length_1 IDIO_IA_VARUINT_1BYTE_def)
  then show ?thesis using realizes_ops(3) [OF assms(1-3), of i] assms(4) by simp
qed

lemmas realizes_primcalls = realizes_primcall [where op = IDIO_A_PRIMCALL0, simplified]
  realizes_primcall [where op = IDIO_A_PRIMCALL1, simplified] realizes_primcall [where op = IDIO_A_PRIMCALL2, simplified]

lemma realizes_src [realizes]: "ctx_steady cx \<Longrightarrow> realizes cx (IDIO_CODEGEN_SRC_EXPR gx e) (src_m cx gx e)"
  unfolding IDIO_CODEGEN_SRC_EXPR_def src_m_def
  by (simp add: plain_def realizes_src_expr realizes_ops realizes_nothing)

lemma realizes_rcse [realizes]: "ctx_steady cx \<Longrightarrow> realizes cx g m \<Longrightarrow> realizes cx (rcse b g) (rcse_m cx b m)"
proof (cases b)
  case True
  assume cx: "ctx_steady cx" and g: "realizes cx g m"
  have "realizes cx (op_only IDIO_A_SUPPRESS_RCSE) (ins_m cx IDIO_A_SUPPRESS_RCSE [])"
    "realizes cx (op_only IDIO_A_POP_RCSE) (ins_m cx IDIO_A_POP_RCSE [])"
    using cx by (simp_all add: realizes_op plain_def)
  then show ?thesis using True g unfolding rcse_def rcse_m_def op_only_def by (simp only: if_True) (intro realizes, simp)
qed (simp add: rcse_def rcse_m_def)

lemma realizes_choice [realizes]:
  assumes "realizes cx g2 m2" "realizes cx g3 m3"
  shows "realizes cx (bind_cg g2 (\<lambda>bs2. bind_cg g3 (\<lambda>bs3. emit (alternative_code bs2 bs3)))) (choice_m m2 m3)"
proof (rule realizesI)
  fix ee c ee'' assume "choice_m m2 m3 ee = Inr (c, ee'')"
  then obtain a ee' b where m: "m2 ee = Inr (a, ee')" "m3 ee' = Inr (b, ee'')" "c = with_val (\<lambda>v. if v = idio_S_false then b else a)"
    unfolding choice_m_def by (auto elim!: bind_result_InrE)
  obtain bs where g1: "g2 ee = Inr (bs, ee')" "ee_grows ee ee'" "steady a"
    "constants_ok ee \<longrightarrow> ee_small ee' \<longrightarrow> length bs < 2 ^ 64 \<longrightarrow> runs cx (ee_cs ee') bs a"
    by (rule realizesE [OF assms(1) m(1)])
  obtain bs' where g2: "g3 ee' = Inr (bs', ee'')" "ee_grows ee' ee''" "steady b"
    "constants_ok ee' \<longrightarrow> ee_small ee'' \<longrightarrow> length bs' < 2 ^ 64 \<longrightarrow> runs cx (ee_cs ee'') bs' b"
    by (rule realizesE [OF assms(2) m(2)])
  have l: "length bs + length bs' \<le> length (alternative_code bs bs')" by (simp add: alternative_code_def Let_def)
  have "runs cx (ee_cs ee'') (alternative_code bs bs') c"
    if "constants_ok ee" "ee_small ee''" "length (alternative_code bs bs') < 2 ^ 64"
  proof -
    have "constants_ok ee'" "ee_small ee'" "prefix (ee_cs ee') (ee_cs ee'')"
      using that g1(2) g2(2) ee_small_grows by (auto simp: ee_grows_def)
    then show ?thesis unfolding m(3) using that g1 g2 l
      by (intro runs_choice) (auto intro: runs_more)
  qed
  moreover have "steady c" unfolding m(3) using g1(3) g2(3) by (intro steady)
  ultimately show "\<exists>bs. bind_cg g2 (\<lambda>bs2. bind_cg g3 (\<lambda>bs3. emit (alternative_code bs2 bs3))) ee = Inr (bs, ee'') \<and>
      ee_grows ee ee'' \<and> steady c \<and> (constants_ok ee \<longrightarrow> ee_small ee'' \<longrightarrow> length bs < 2 ^ 64 \<longrightarrow> runs cx (ee_cs ee'') bs c)"
    using g1(1) g2(1) ee_grows_trans [OF g1(2) g2(2)] by (simp add: bind_cg_def emit_def)
qed

text \<open>The clauses after the first are linked from the last to the first.\<close>

definition linked :: "nat \<Rightarrow> nat \<Rightarrow> bool \<Rightarrow> codegen list \<Rightarrow> codegen" where
  "linked short long tailp gs ee =
    bind_result (clauses tailp gs ee) (\<lambda>(iacs, ee). Inr (link_clauses short long iacs, ee))"

lemma realizes_linked:
  assumes "(short, long, stop) \<in> jumps" "ctx_steady cx"
  shows "list_all2 (realizes cx) gs ms \<Longrightarrow> realizes cx (linked short long tailp gs) (chain_m stop (clauses_m cx tailp ms))"
proof (induction rule: list_all2_induct)
  case Nil
  then show ?case using realizes_nothing by (simp add: realizes_def linked_def emit_def)
next
  case (Cons g gs m ms)
  let ?b = "ms \<noteq> [] \<or> \<not> tailp"
  have b: "gs = [] \<longleftrightarrow> ms = []" using Cons.hyps(2) by (auto simp: list_all2_Nil list_all2_Nil2)
  have R: "realizes cx (rcse ?b g) (rcse_m cx ?b m)" using assms(2) Cons.hyps(1) by (rule realizes_rcse)
  show ?case
  proof (rule realizesI)
    fix ee c ee'' assume "chain_m stop (clauses_m cx tailp (m # ms)) ee = Inr (c, ee'')"
    then obtain a ee' d where m: "rcse_m cx ?b m ee = Inr (a, ee')" "chain_m stop (clauses_m cx tailp ms) ee' = Inr (d, ee'')"
      "c = with_val (\<lambda>v. if stop v then ret_vm () else seq_vm a d)" by (auto elim!: bind_result_InrE)
    obtain bs where g1: "rcse ?b g ee = Inr (bs, ee')" "ee_grows ee ee'" "steady a"
      "constants_ok ee \<longrightarrow> ee_small ee' \<longrightarrow> length bs < 2 ^ 64 \<longrightarrow> runs cx (ee_cs ee') bs a"
      by (rule realizesE [OF R m(1)])
    obtain bs' where g2: "linked short long tailp gs ee' = Inr (bs', ee'')" "ee_grows ee' ee''" "steady d"
      "constants_ok ee' \<longrightarrow> ee_small ee'' \<longrightarrow> length bs' < 2 ^ 64 \<longrightarrow> runs cx (ee_cs ee'') bs' d"
      by (rule realizesE [OF Cons.IH m(2)])
    let ?bs = "jump short long (length (bs @ bs')) @ bs @ bs'"
    have g: "linked short long tailp (g # gs) ee = Inr (?bs, ee'')"
      using g1(1) g2(1) by (auto simp: linked_def b Let_def elim!: bind_result_InrE)
    have "runs cx (ee_cs ee'') ?bs c" if "constants_ok ee" "ee_small ee''" "length ?bs < 2 ^ 64"
    proof -
      have "constants_ok ee'" "ee_small ee'" "prefix (ee_cs ee') (ee_cs ee'')"
        using that g1(2) g2(2) ee_small_grows by (auto simp: ee_grows_def)
      then have "runs cx (ee_cs ee'') (bs @ bs') (seq_vm a d)"
        using that g1 g2 by (intro runs_seq) (auto intro: runs_more)
      then show ?thesis unfolding m(3) using that g1(3) g2(3) assms(1)
        by (intro runs_skip steady_seq) auto
    qed
    moreover have "steady c" unfolding m(3) using g1(3) g2(3) by (intro steady)
    ultimately show "\<exists>bs. linked short long tailp (g # gs) ee = Inr (bs, ee'') \<and> ee_grows ee ee'' \<and> steady c \<and>
        (constants_ok ee \<longrightarrow> ee_small ee'' \<longrightarrow> length bs < 2 ^ 64 \<longrightarrow> runs cx (ee_cs ee'') bs c)"
      using g ee_grows_trans [OF g1(2) g2(2)] by blast
  qed
qed

lemma realizes_and_or:
  assumes "(short, long, stop) \<in> jumps" "ctx_steady cx" "realizes cx g m" "list_all2 (realizes cx) gs ms"
  shows "realizes cx (cg_and_or short long tailp g gs) (and_or_m cx stop tailp m ms)"
proof -
  have b: "(gs \<noteq> [] \<or> \<not> tailp) = (ms \<noteq> [] \<or> \<not> tailp)" using assms(4) by (auto simp: list_all2_Nil list_all2_Nil2)
  show ?thesis unfolding cg_and_or_def and_or_m_def b linked_def [symmetric]
    by (intro realizes_seq realizes_rcse realizes_linked assms)
qed

text \<open>Constants.\<close>

lemma realizes_set_val:
  assumes "g = emit (asm op ns)" "m = does (set_constant cx c)" "instruction_ok op ns" "op \<noteq> IDIO_A_FINISH"
    "\<And>xi s. exec cx xi op ns s = set_val c s" "set_constant cx c = set_val c"
  shows "realizes cx g m"
  unfolding assms(1,2,6) using assms(3-5) by (intro realizes_emit runs_instruction steady) simp_all

lemma u64_int: "0 \<le> i \<Longrightarrow> i < 18446744073709551616 \<Longrightarrow> int (u64 i) = i"
  by (simp add: u64_def)

lemma constant_value_eq:
  "value_ok (V_constant i) \<Longrightarrow> constant_value 0 i s = (Inr (V_constant i), s)"
  "value_ok (V_unicode i) \<Longrightarrow> constant_value 3 i s = (Inr (V_unicode i), s)"
  using decode_encode [of "V_constant i"] decode_encode [of "V_unicode i"]
  by (simp_all add: constant_value_def encode_value_def)

lemma val_from_eq: "m s = (Inr v, s) \<Longrightarrow> val_from m s = set_val v s"
  by (simp add: val_from_def bind_vm_Inr)

lemma realizes_constant_ref:
  assumes "ctx_steady cx"
  shows "realizes cx (with_constant (V_pointer a) (\<lambda>ci. emit (IDIO_IA_PUSH1 IDIO_A_CONSTANT_REF @ IDIO_IA_PUSH_VARUINT ci)))
    (constant_m (V_pointer a) (\<lambda>_. does (set_constant cx (V_pointer a))))"
proof (rule realizesI)
  let ?v = "V_pointer a"
  fix ee c ee' assume "constant_m ?v (\<lambda>_. does (set_constant cx ?v)) ee = Inr (c, ee')"
  then obtain ci where l: "idio_codegen_constants_lookup_or_extend ee ?v = (ci, ee')" and c: "c = val_from (constant_ref cx ?v)"
    by (auto simp: constant_m_def does_def set_constant_def split: prod.splits)
  note g = lookup_or_extend_ok [OF l]
  let ?bs = "asm IDIO_A_CONSTANT_REF [ci]"
  have "runs cx (ee_cs ee') (asm IDIO_A_CONSTANT_REF [u64 (int ci)]) c" if t: "constants_ok ee" "ee_small ee'"
  proof -
    have ci: "ci < length (ee_cs ee')" "ee_cs ee' ! ci = ?v" "ci < 18446744073709551616"
      using g(2) [OF t(1)] t(2) by (simp_all add: ee_small_def)
    have "u64 (int ci) = ci" using ci(3) by (simp add: u64_def)
    moreover have "runs cx (ee_cs ee') ?bs c" unfolding c
    proof (rule runs_instruction)
      fix s s' assume s: "vm_xi s < length (vm_xenvs s)" "constants_at s (ee_cs ee')" "val_from (constant_ref cx ?v) s = (Inr (), s')"
      then have "idio_vm_constants_ref (vm_xi s) ci s = (Inr ?v, s)"
        using ci(1,2) by (auto simp: idio_vm_constants_ref_def bind_vm_Inr [where m = "the_xenv (vm_xi s)"] the_xenv_def
            constants_at_def prefix_def nth_append)
      then show "exec cx (vm_xi s) IDIO_A_CONSTANT_REF [ci] s = (Inr (), s')"
        using s(3) by (simp add: exec_def exec_symbol_def val_from_def bind_vm_assoc bind_vm_Inr)
    qed (use ci(3) assms in \<open>simp_all add: instruction_ok_def, intro steady assms\<close>)
    ultimately show ?thesis by simp
  qed
  then show "\<exists>bs. with_constant ?v (\<lambda>ci. emit (IDIO_IA_PUSH1 IDIO_A_CONSTANT_REF @ IDIO_IA_PUSH_VARUINT ci)) ee = Inr (bs, ee') \<and>
      ee_grows ee ee' \<and> steady c \<and> (constants_ok ee \<longrightarrow> ee_small ee' \<longrightarrow> length bs < 2 ^ 64 \<longrightarrow> runs cx (ee_cs ee') bs c)"
    using l g(1) assms by (simp add: with_constant_def emit_def asm_def IDIO_IA_PUSH1_def IDIO_IA_PUSH_VARUINT_def c steady)
qed

lemma realizes_fixnum:
  assumes "value_ok (V_fixnum v)"
  shows "realizes cx (cg_constant (V_fixnum v)) (does (set_constant cx (V_fixnum v)))"
proof -
  have v: "in_fixnum v" "- 2305843009213693952 \<le> v" "v < 2305843009213693952"
    using assms by (simp_all add: value_ok_def in_fixnum_iff)
  have c: "set_constant cx (V_fixnum v) = set_val (V_fixnum v)" by (simp add: set_constant_def)
  consider "v = 0 \<or> v = 1 \<or> v = 2 \<or> v = 3 \<or> v = 4" | "4 < v" | "v < 0" by linarith
  then show ?thesis
  proof cases
    case 1
    then obtain i where i: "v = int i" "i = 0 \<or> i = 1 \<or> i = 2 \<or> i = 3 \<or> i = 4" by fastforce
    show ?thesis
    proof (rule realizes_set_val [OF _ refl _ _ _ c])
      show "cg_constant (V_fixnum v) = emit (asm (IDIO_A_CONSTANT_0 + i) [])" "instruction_ok (IDIO_A_CONSTANT_0 + i) []"
        "IDIO_A_CONSTANT_0 + i \<noteq> IDIO_A_FINISH" "exec cx xi (IDIO_A_CONSTANT_0 + i) [] s = set_val (V_fixnum v) s" for xi s
        using i by (elim disjE; simp add: cg_constant_def asm_def IDIO_IA_PUSH1_def instruction_ok_def exec_def exec_number_def)+
    qed
  next
    case 2
    show ?thesis
    proof (rule realizes_set_val [OF _ refl _ _ _ c])
      show "cg_constant (V_fixnum v) = emit (asm IDIO_A_FIXNUM [u64 v])" using 2 by (simp add: cg_constant_def code_defs)
      show "exec cx xi IDIO_A_FIXNUM [u64 v] s = set_val (V_fixnum v) s" for xi s
        using 2 v by (simp add: exec_def exec_number_def u64_int FIXNUM_bounds val_from_eq fixnum_value_def)
    qed (simp_all add: instruction_ok_def)
  next
    case 3
    show ?thesis
    proof (rule realizes_set_val [OF _ refl _ _ _ c])
      show "cg_constant (V_fixnum v) = emit (asm IDIO_A_NEG_FIXNUM [u64 (- v)])" using 3 by (simp add: cg_constant_def code_defs)
      have "in_intptr v" using v by (simp add: in_intptr_def intptr_defs)
      then show "exec cx xi IDIO_A_NEG_FIXNUM [u64 (- v)] s = set_val (V_fixnum v) s" for xi s
        using 3 v by (simp add: exec_def exec_number_def u64_int FIXNUM_bounds val_from_eq fixnum_value_def)
    qed (simp_all add: instruction_ok_def)
  qed
qed

lemma realizes_constant_type:
  assumes "value_ok (V_constant i)"
  shows "realizes cx (cg_constant (V_constant i)) (does (set_constant cx (V_constant i)))"
proof -
  have v: "- 288230376151711744 \<le> i" "i < 288230376151711744"
    using assms by (simp_all add: value_ok_def in_constant_def)
  have c: "set_constant cx (V_constant i) = set_val (V_constant i)" by (simp add: set_constant_def)
  note cv = constant_value_eq(1) [OF assms]
  consider "i = 4 \<or> i = 5 \<or> i = 0" | "0 < i" "i \<noteq> 4" "i \<noteq> 5" | "i < 0" by linarith
  then show ?thesis
  proof cases
    case 1
    then obtain op where op: "op = IDIO_A_PREDEFINED0 \<and> i = 4 \<or> op = IDIO_A_PREDEFINED1 \<and> i = 5 \<or> op = IDIO_A_PREDEFINED2 \<and> i = 0"
      by blast
    show ?thesis
    proof (rule realizes_set_val [OF _ refl _ _ _ c])
      show "cg_constant (V_constant i) = emit (asm op [])" "instruction_ok op []" "op \<noteq> IDIO_A_FINISH"
        "exec cx xi op [] s = set_val (V_constant i) s" for xi s
        using op by (elim disjE; simp add: cg_constant_def asm_def IDIO_IA_PUSH1_def instruction_ok_def exec_def exec_predefined_def)+
    qed
  next
    case 2
    show ?thesis
    proof (rule realizes_set_val [OF _ refl _ _ _ c])
      show "cg_constant (V_constant i) = emit (asm IDIO_A_CONSTANT [u64 i])" using 2 by (simp add: cg_constant_def code_defs)
      show "exec cx xi IDIO_A_CONSTANT [u64 i] s = set_val (V_constant i) s" for xi s
        using 2 v by (simp add: exec_def exec_number_def u64_int FIXNUM_bounds val_from_eq cv)
    qed (simp_all add: instruction_ok_def)
  next
    case 3
    show ?thesis
    proof (rule realizes_set_val [OF _ refl _ _ _ c])
      show "cg_constant (V_constant i) = emit (asm IDIO_A_NEG_CONSTANT [u64 (- i)])" using 3 by (simp add: cg_constant_def code_defs)
      have "in_intptr i" using v by (simp add: in_intptr_def intptr_defs)
      then show "exec cx xi IDIO_A_NEG_CONSTANT [u64 (- i)] s = set_val (V_constant i) s" for xi s
        using 3 v by (simp add: exec_def exec_number_def u64_int FIXNUM_bounds val_from_eq cv)
    qed (simp_all add: instruction_ok_def)
  qed
qed

lemma realizes_unicode:
  assumes "value_ok (V_unicode u)" "0 \<le> u"
  shows "realizes cx (cg_constant (V_unicode u)) (does (set_constant cx (V_unicode u)))"
proof (rule realizes_set_val [OF _ refl])
  have v: "u < 288230376151711744" using assms by (simp add: value_ok_def in_constant_def)
  show "cg_constant (V_unicode u) = emit (asm IDIO_A_UNICODE [u64 u])" by (simp add: cg_constant_def code_defs)
  show "exec cx xi IDIO_A_UNICODE [u64 u] s = set_val (V_unicode u) s" for xi s
    using assms(2) v by (simp add: exec_def exec_number_def u64_int FIXNUM_bounds val_from_eq constant_value_eq(2) [OF assms(1)])
qed (simp_all add: instruction_ok_def set_constant_def)

lemma realizes_constant_value:
  assumes "constant_ok c" "ctx_steady cx"
  shows "realizes cx (idio_codegen_compile gx (I_CONSTANT_REF c)) (meaning cx gx (I_CONSTANT_REF c))"
  using assms realizes_fixnum realizes_constant_type realizes_unicode realizes_constant_ref [OF assms(2)]
  by (cases c) (simp_all add: constant_ok_def, simp add: cg_constant_def)

text \<open>Calls of primitives.\<close>

lemma steady_call: "ctx_steady cx \<Longrightarrow> steady (call cx)"
  unfolding call_def by (intro steady; simp)

lemma steady_restore: "steady restore"
  unfolding restore_def by (intro steady; simp add: env_ok_def)

lemma realizes_call: "ctx_steady cx \<Longrightarrow> realizes cx (op_only IDIO_A_FUNCTION_INVOKE) (does (call cx))"
proof -
  assume cx: "ctx_steady cx"
  have "exec cx (vm_xi s) IDIO_A_FUNCTION_INVOKE [] s = (Inr (), s')" if c: "call cx s = (Inr (), s')" for s s'
  proof -
    obtain p where p: "obj_at s (vm_func s) = Some (O_primitive p)" "call_primitive cx p s = (Inr (), s')"
      using c by (auto simp: call_def split: option.splits idio_obj.splits)
    moreover have "\<exists>a. vm_func s = V_pointer a" using p(1) by (cases "vm_func s") (simp_all add: obj_at_def)
    ultimately show ?thesis
      using invoke_primitive_steady [OF cx p(2), of False]
      by (auto simp: exec_def exec_function_def idio_vm_invoke_def numeral_2_eq_2)
  qed
  then have "runs cx cs (asm IDIO_A_FUNCTION_INVOKE []) (call cx)" for cs
    using steady_call [OF cx] by (intro runs_instruction) (simp_all add: instruction_ok_def)
  then show ?thesis using steady_call [OF cx] by (simp add: op_only_def IDIO_IA_PUSH1_def asm_def realizes_emit)
qed

lemma restore_implemented:
  assumes "restore s = (Inr (), s')"
  shows "idio_vm_restore_state s = (Inr (), s')"
proof -
  obtain marker s1 where m: "STACK_POP s = (Inr marker, s1)" "marker = idio_SM_preserve_state"
    "bind_vm STACK_POP (\<lambda>env. seq_vm (upd_vm (vm_env_update (\<lambda>_. env)))
      (bind_vm (get_vm (\<lambda>s. env_ok s env)) (\<lambda>ok. if ok then bind_vm STACK_POP (\<lambda>fr. upd_vm (vm_frame_update (\<lambda>_. fr)))
        else fail_vm (Vm_panic ''no environment'')))) s1 = (Inr (), s')"
    using assms unfolding restore_def by (auto elim!: bind_vm_InrE split: if_splits)
  then obtain env s2 where e: "STACK_POP s1 = (Inr env, s2)" "env_ok s2 env"
    "bind_vm STACK_POP (\<lambda>fr. upd_vm (vm_frame_update (\<lambda>_. fr))) (s2\<lparr>vm_env := env\<rparr>) = (Inr (), s')"
    by (auto elim!: bind_vm_InrE split: if_splits)
  have "\<not> (env \<noteq> idio_S_nil \<and> \<not> idio_isa_module s2 env)" using e(2) by (auto simp: env_ok_def)
  then show ?thesis using m(2) e(3)
    unfolding idio_vm_restore_state_def by (auto simp: bind_vm_Inr [where m = STACK_POP and s = s, OF m(1)] bind_vm_Inr [where m = STACK_POP and s = s1, OF e(1)])
qed

lemma realizes_restore: "realizes cx (op_only IDIO_A_RESTORE_STATE) (does restore)"
proof -
  have "runs cx cs (asm IDIO_A_RESTORE_STATE []) restore" for cs
    using steady_restore restore_implemented
    by (intro runs_instruction) (simp_all add: instruction_ok_def exec_def exec_function_def)
  then show ?thesis using steady_restore by (simp add: op_only_def IDIO_IA_PUSH1_def asm_def realizes_emit)
qed

text \<open>Closures: the body goes elsewhere.\<close>

lemma closure_code:
  assumes "cg_closure gx check g name formals docstr src vi ee = Inr (bs, ee')"
  shows "bs = asm IDIO_A_CREATE_CLOSURE [u64 vi]"
  using assms unfolding cg_closure_def
  by (auto simp: with_constant_def with_src_expr_def bind_cg_def seq_cg_def append_byte_code_def emit_def
      asm_def IDIO_IA_PUSH1_def IDIO_IA_PUSH_REF_def split: prod.splits elim!: bind_result_InrE)

lemma realizes_closure:
  assumes "idio_codegen_compile gx m = cg_closure gx check g name formals docstr src vi" "ctx_steady cx" "ref_ok vi"
  shows "realizes cx (idio_codegen_compile gx m) (closure_m cx gx m vi)"
proof (rule realizesI)
  fix ee a ee' assume c: "closure_m cx gx m vi ee = Inr (a, ee')"
  then obtain bs where b: "idio_codegen_compile gx m ee = Inr (bs, ee')" "a = instr cx IDIO_A_CREATE_CLOSURE [u64 vi]"
    by (auto simp: closure_m_def ins_m_def does_def elim!: bind_result_InrE)
  have bs: "bs = asm IDIO_A_CREATE_CLOSURE [u64 vi]" using closure_code b(1) unfolding assms(1) by blast
  have s: "steady a" unfolding b(2) using assms(2) by (intro steady_ins) (simp_all add: plain_def)
  have "runs cx cs bs a" for cs
    unfolding bs b(2) using s b(2) assms(3) by (intro runs_ins) (simp_all add: instruction_ok_def u64_ref)
  then show "\<exists>bs. idio_codegen_compile gx m ee = Inr (bs, ee') \<and> ee_grows ee ee' \<and> steady a \<and>
      (constants_ok ee \<longrightarrow> ee_small ee' \<longrightarrow> length bs < 2 ^ 64 \<longrightarrow> runs cx (ee_cs ee') bs a)"
    using b(1) s growsD [OF compile_grows b(1)] by blast
qed

section \<open>The compiler\<close>

lemma realizes_seqs_map:
  "(\<And>m. m \<in> set ms \<Longrightarrow> realizes cx (g m) (h m)) \<Longrightarrow> list_all2 (realizes cx) (map g ms) (map h ms)"
  by (simp add: list_all2_conv_all_nth)

lemma list_all_straight: "list_all id (map straight ms) \<Longrightarrow> m \<in> set ms \<Longrightarrow> straight m"
  by (auto simp: list_all_iff)

lemma does_nothing: "seqs [] = emit []" "seqs_m [] = does (ret_vm ())"
  by simp_all

theorem compile_realizes:
  assumes cx: "ctx_steady cx"
  shows "straight m \<Longrightarrow> realizes cx (idio_codegen_compile gx m) (meaning cx gx m)"
proof (induction m)
  case (I_CONSTANT_REF c)
  then show ?case using realizes_constant_value [OF _ cx] by simp
next
  case (I_FIX_CLOSURE mp name arity formals docstr src vi)
  then show ?case using realizes_closure [OF _ cx] by simp
next
  case (I_NARY_CLOSURE mp name arity formals docstr src vi)
  then show ?case using realizes_closure [OF _ cx] by simp
next
  case (I_AND tailp m1 ms)
  then have "list_all2 (realizes cx) (map (idio_codegen_compile gx) ms) (map (meaning cx gx) ms)"
    by (intro realizes_seqs_map) (auto simp: list_all_iff)
  then show ?case using I_AND by (simp add: realizes_and_or cx jumps_def)
next
  case (I_OR tailp m1 ms)
  then have "list_all2 (realizes cx) (map (idio_codegen_compile gx) ms) (map (meaning cx gx) ms)"
    by (intro realizes_seqs_map) (auto simp: list_all_iff)
  then show ?case using I_OR by (simp add: realizes_and_or cx jumps_def)
next
  case (I_BEGIN ms)
  then have "list_all2 (realizes cx) (map (idio_codegen_compile gx) ms) (map (meaning cx gx) ms)"
    by (intro realizes_seqs_map) (auto simp: list_all_iff)
  then show ?case unfolding meaning.simps by (intro realizes_if_m) (simp add: realizes_seqs)
next
  case (I_list ms)
  then have "list_all2 (realizes cx) (map (idio_codegen_compile gx) ms) (map (meaning cx gx) ms)"
    by (intro realizes_seqs_map) (auto simp: list_all_iff)
  then show ?case unfolding meaning.simps by (intro realizes_if_m) (simp add: realizes_seqs)
next
  case (I_SYM_DEF name kind si)
  have "realizes cx (with_constant kind (\<lambda>kci. emit (IDIO_IA_PUSH1 IDIO_A_SYM_DEF @ IDIO_IA_PUSH_REF si @ IDIO_IA_PUSH_VARUINT kci)))
      (constant_m kind (\<lambda>kci. ins_m cx IDIO_A_SYM_DEF [si, kci]))"
    using I_SYM_DEF by (simp add: realizes_constant realizes cx plain_def)
  then show ?case unfolding meaning.simps by (intro realizes_if_m) simp
next
  case (I_ALTERNATIVE src m1 m2 m3)
  then show ?case unfolding idio_codegen_compile.simps meaning.simps cg_alternative_def straight.simps
    by (intro realizes cx list_all2_Cons [THEN iffD2] conjI list_all2_Nil [THEN iffD2]) simp_all
qed (simp_all add: realizes realizes_primcalls cx plain_def realizes_constant realizes_src_expr realizes_call realizes_restore del: seqs.simps seqs_m.simps)

lemma compile_correct:
  assumes "ctx_steady cx" "straight m" "meaning cx gx m ee = Inr (a, ee')" "constants_ok ee"
  obtains bs where "idio_codegen_compile gx m ee = Inr (bs, ee')" "steady a"
    "length (ee_cs ee') < 2 ^ 64 \<longrightarrow> length bs < 2 ^ 64 \<longrightarrow> runs cx (ee_cs ee') bs a"
proof -
  obtain bs where "idio_codegen_compile gx m ee = Inr (bs, ee')" "steady a"
    "constants_ok ee \<longrightarrow> ee_small ee' \<longrightarrow> length bs < 2 ^ 64 \<longrightarrow> runs cx (ee_cs ee') bs a"
    by (rule realizesE [OF compile_realizes [OF assms(1,2)] assms(3)])
  then show thesis using assms(4) that unfolding ee_small_def by blast
qed

section \<open>What the generator accepts\<close>

text \<open>
  \<open>decides b g\<close>: where \<open>b\<close> is no error the piece \<open>g\<close> of the generator succeeds in every
  environment, else it raises that error in every environment. Of two pieces one after the
  other the first that fails decides.
\<close>

definition orelse :: "'e option \<Rightarrow> 'e option \<Rightarrow> 'e option" where
  "orelse b c = (case b of None \<Rightarrow> c | Some e \<Rightarrow> Some e)"

definition first_of :: "'e option list \<Rightarrow> 'e option" where
  "first_of bs = foldr orelse bs None"

lemma orelse_simps [simp]:
  "orelse None b = b" "orelse b None = b" "orelse (Some e) b = Some e" "orelse (orelse b c) d = orelse b (orelse c d)"
  by (auto simp: orelse_def split: option.split)

lemma first_of_simps [simp]: "first_of [] = None" "first_of (b # bs) = orelse b (first_of bs)"
  by (simp_all add: first_of_def)

definition verdict :: "idio_error option \<Rightarrow> 'b result \<Rightarrow> bool" where
  "verdict b r \<longleftrightarrow> (case b of None \<Rightarrow> \<exists>x. r = Inr x | Some e \<Rightarrow> r = Inl e)"

definition decides :: "idio_error option \<Rightarrow> ('e \<Rightarrow> 'b result) \<Rightarrow> bool" where
  "decides b g \<longleftrightarrow> (\<forall>ee. verdict b (g ee))"

lemma verdict_Inr [simp]: "verdict b (Inr x) = (b = None)" and verdict_Inl [simp]: "verdict b (Inl e) = (b = Some e)"
  by (auto simp: verdict_def split: option.split)

lemma verdict_bind: "verdict b r \<Longrightarrow> (\<And>x. verdict c (f x)) \<Longrightarrow> verdict (orelse b c) (bind_result r f)"
  by (cases r; cases b) (auto simp: verdict_def)

named_theorems decides

lemma decides_cong: "decides b g \<Longrightarrow> b' = b \<Longrightarrow> decides b' g"
  by simp

lemma decides_basic [decides]:
  "decides None (emit bs)" "decides None (append_byte_code bs)" "decides (Some e) (\<lambda>ee. Inl e)"
  by (auto simp: decides_def emit_def append_byte_code_def)

lemma decides_bind_result:
  assumes "decides b g" "\<And>x. decides c (f x)"
  shows "decides (orelse b c) (\<lambda>ee. bind_result (g ee) (\<lambda>(x, ee). f x ee))"
  unfolding decides_def using assms by (auto simp: decides_def intro!: verdict_bind)

lemma decides_bind [decides]: "decides b g \<Longrightarrow> (\<And>bs. decides c (f bs)) \<Longrightarrow> decides (orelse b c) (bind_cg g f)"
  unfolding bind_cg_def by (rule decides_bind_result)

lemma decides_seq [decides]:
  assumes "decides b g" "decides c h"
  shows "decides (orelse b c) (seq_cg g h)"
proof -
  have "decides (orelse c None) (\<lambda>ee. bind_result (h ee) (\<lambda>(cs, ee). Inr (bs @ cs, ee)))" for bs :: "byte list"
    by (rule decides_bind_result [OF assms(2)]) (simp add: decides_def)
  then show ?thesis unfolding seq_cg_bind using decides_bind [OF assms(1)] by simp
qed

lemma decides_seqs [decides]:
  "decides None (seqs [])" "decides b g \<Longrightarrow> decides c (seqs gs) \<Longrightarrow> decides (orelse b c) (seqs (g # gs))"
  by (simp_all add: decides)

lemma decides_seqs_map:
  "(\<And>m. m \<in> set ms \<Longrightarrow> decides (P m) (f m)) \<Longrightarrow> decides (first_of (map P ms)) (seqs (map f ms))"
  by (induction ms) (auto intro!: decides)

lemma decides_index [decides]:
  "(\<And>ci. decides b (f ci)) \<Longrightarrow> decides b (with_constant v f)"
  "(\<And>sei. decides b (f sei)) \<Longrightarrow> decides b (with_src_expr gx src f)"
  by (auto simp: decides_def with_constant_def with_src_expr_def split: prod.splits)

lemma decides_rcse [decides]: "decides b g \<Longrightarrow> decides b (rcse c g)"
  unfolding rcse_def
  by (cases c) (simp_all only: if_True if_False, rule decides_cong, ((rule decides | assumption)+)[1], simp)

lemma decides_clauses:
  "(\<And>m. m \<in> set ms \<Longrightarrow> decides (P m) (f m)) \<Longrightarrow> decides (first_of (map P ms)) (clauses tailp (map f ms))"
proof (induction ms)
  case (Cons m ms)
  have g: "decides (P m) (rcse (map f ms \<noteq> [] \<or> \<not> tailp) (f m))" using Cons.prems by (intro decides) simp
  have "decides (first_of (map P ms)) (clauses tailp (map f ms))" by (rule Cons.IH, rule Cons.prems) simp
  then have "decides (orelse (first_of (map P ms)) None)
      (\<lambda>ee. bind_result (clauses tailp (map f ms) ee) (\<lambda>(iacs, ee). Inr (iac # iacs, ee)))" for iac :: "byte list"
    by (rule decides_bind_result) (simp add: decides_def)
  then have "decides (orelse (P m) (orelse (first_of (map P ms)) None)) (\<lambda>ee. bind_result (rcse (map f ms \<noteq> [] \<or> \<not> tailp) (f m) ee)
      (\<lambda>(iac, ee). bind_result (clauses tailp (map f ms) ee) (\<lambda>(iacs, ee). Inr (iac # iacs, ee))))"
    by (rule decides_bind_result [OF g])
  then show ?case by (simp add: decides_def id_def)
qed (simp add: decides_def)

lemma decides_and_or:
  assumes "decides b g" "\<And>m. m \<in> set ms \<Longrightarrow> decides (P m) (f m)"
  shows "decides (orelse b (first_of (map P ms))) (cg_and_or short long tailp g (map f ms))"
proof -
  have "decides (orelse (first_of (map P ms)) None)
      (\<lambda>ee. bind_result (clauses tailp (map f ms) ee) (\<lambda>(iacs, ee). Inr (link_clauses short long iacs, ee)))"
    by (rule decides_bind_result [OF decides_clauses [OF assms(2)]]) (simp_all add: decides_def)
  then show ?thesis unfolding cg_and_or_def using decides_seq [OF decides_rcse [OF assms(1)]] by simp
qed

lemma decides_pieces [decides]:
  "decides None (IDIO_CODEGEN_SRC_EXPR gx e)" "decides None (op_ref op i)" "decides None (op_varuint op i)"
  "decides None (op_only op)"
  unfolding IDIO_CODEGEN_SRC_EXPR_def op_ref_def op_varuint_def op_only_def
  by (auto intro!: decides)

lemma decides_alternative [decides]:
  "decides b g \<Longrightarrow> decides b1 g1 \<Longrightarrow> decides b2 g2 \<Longrightarrow> decides b3 g3 \<Longrightarrow>
    decides (orelse b (orelse b1 (orelse (orelse b2 (orelse b3 None)) None))) (cg_alternative g g1 g2 g3)"
  unfolding cg_alternative_def by (intro decides)

lemma decides_closure [decides]: "decides b g \<Longrightarrow> decides b (cg_closure gx check g name formals docstr src vi)"
  unfolding cg_closure_def
  by (rule decides_cong, ((rule decides | assumption)+)[1], simp only: orelse_simps)

text \<open>
  The error of the first piece of the code, in the order of compilation, that the generator
  refuses: a reference to a value by index, a constant that no source text denotes, the
  definition of what is no symbol or of an unknown kind, an empty sequence; \<open>None\<close> is code
  that is accepted.
\<close>

primrec first_error :: "codegen_ctx \<Rightarrow> icode \<Rightarrow> idio_error option" where
  "first_error gx (I_SHALLOW_ARGUMENT_REF j) = None"
| "first_error gx (I_DEEP_ARGUMENT_REF i j) = None"
| "first_error gx (I_SHALLOW_ARGUMENT_SET j m1) = first_error gx m1"
| "first_error gx (I_DEEP_ARGUMENT_SET i j m1) = first_error gx m1"
| "first_error gx (I_SYM_REF si) = None"
| "first_error gx (I_FUNCTION_SYM_REF si) = None"
| "first_error gx (I_CONSTANT_REF c) =
    (case c of V_token _ \<Rightarrow> Some (Coding_error ''unexpected constant/CONSTANT/??'')
      | V_i_code _ \<Rightarrow> Some (Coding_error ''unexpected constant/CONSTANT/??'') | _ \<Rightarrow> None)"
| "first_error gx (I_COMPUTED_SYM_REF si) = None"
| "first_error gx (I_SYM_DEF name kind si) =
    (if \<not> cx_isa_symbol gx name then Some (Param_type_error ''symbol'')
     else if kind \<notin> set (cx_S_scopes gx)
     then Some (Param_type_error ''symbol predef|toplevel|dynamic|environ|computed'') else None)"
| "first_error gx (I_SYM_SET e si m1) = first_error gx m1"
| "first_error gx (I_COMPUTED_SYM_SET si m1) = first_error gx m1"
| "first_error gx (I_COMPUTED_SYM_DEF si m1) = first_error gx m1"
| "first_error gx I_VAL_REF = Some (Coding_error ''bad instruction'')"
| "first_error gx I_FUNCTION_VAL_REF = Some (Coding_error ''bad instruction'')"
| "first_error gx (I_VAL_SET e vi m1) = first_error gx m1"
| "first_error gx (I_PREDEFINED vi) = None"
| "first_error gx (I_ALTERNATIVE src m1 m2 m3) =
    first_of [first_error gx m1, first_error gx m2, first_error gx m3]"
| "first_error gx (I_SEQUENCE m1 mp) = first_of [first_error gx m1, first_error gx mp]"
| "first_error gx (I_TR_FIX_LET ms mp formals src) = first_of [first_error gx ms, first_error gx mp]"
| "first_error gx (I_FIX_LET ms mp formals src) = first_of [first_error gx ms, first_error gx mp]"
| "first_error gx (I_LOCAL e i m1 mp formals) = first_of [first_error gx m1, first_error gx mp]"
| "first_error gx (I_PRIMCALL0 e pd) = None"
| "first_error gx (I_PRIMCALL1 e m1 pd) = first_error gx m1"
| "first_error gx (I_PRIMCALL2 e m1 m2 pd) = first_of [first_error gx m1, first_error gx m2]"
| "first_error gx (I_TR_REGULAR_CALL e m1 ms) = first_of [first_error gx m1, first_error gx ms]"
| "first_error gx (I_REGULAR_CALL e m1 ms) = first_of [first_error gx m1, first_error gx ms]"
| "first_error gx (I_FIX_CLOSURE mp name arity formals docstr src vi) = first_error gx mp"
| "first_error gx (I_NARY_CLOSURE mp name arity formals docstr src vi) = first_error gx mp"
| "first_error gx (I_STORE_ARGUMENT m1 ms rank) = first_of [first_error gx m1, first_error gx ms]"
| "first_error gx (I_LIST_ARGUMENT m1 ms arity) = first_of [first_error gx m1, first_error gx ms]"
| "first_error gx (I_ALLOCATE_FRAME arity) = None"
| "first_error gx (I_ALLOCATE_DOTTED_FRAME arity) = None"
| "first_error gx (I_REUSE_FRAME arity) = None"
| "first_error gx (I_PUSH_DYNAMIC si m1) = first_error gx m1"
| "first_error gx I_POP_DYNAMIC = None"
| "first_error gx (I_DYNAMIC_SYM_REF si) = None"
| "first_error gx (I_DYNAMIC_FUNCTION_SYM_REF si) = None"
| "first_error gx (I_PUSH_ENVIRON si m1) = first_error gx m1"
| "first_error gx I_POP_ENVIRON = None"
| "first_error gx (I_ENVIRON_SYM_REF si) = None"
| "first_error gx (I_PUSH_TRAP si) = None"
| "first_error gx I_POP_TRAP = None"
| "first_error gx (I_PUSH_ESCAPER ci mp) = first_error gx mp"
| "first_error gx I_POP_ESCAPER = None"
| "first_error gx (I_ESCAPER_LABEL_REF ci mp) = first_error gx mp"
| "first_error gx (I_AND tailp m1 ms) = first_of (first_error gx m1 # map (first_error gx) ms)"
| "first_error gx (I_OR tailp m1 ms) = first_of (first_error gx m1 # map (first_error gx) ms)"
| "first_error gx (I_BEGIN ms) = (if ms = [] then Some (Coding_error ''BEGIN tail? m+'') else first_of (map (first_error gx) ms))"
| "first_error gx (I_NOT tailp m1) = first_error gx m1"
| "first_error gx (I_EXPANDER si m1) = first_error gx m1"
| "first_error gx (I_INFIX_OPERATOR oi pri m1) = first_error gx m1"
| "first_error gx (I_POSTFIX_OPERATOR oi pri m1) = first_error gx m1"
| "first_error gx I_RETURN = None"
| "first_error gx I_FINISH = None"
| "first_error gx (I_PUSH_ABORT m1) = first_error gx m1"
| "first_error gx I_POP_ABORT = None"
| "first_error gx I_NOP = None"
| "first_error gx (I_list ms) =
    (if ms = [] then Some (Param_type_error ''pair'')
     else if hd ms = I_list [] then Some (Coding_error ''unknown I-code'')
     else first_of (map (first_error gx) ms))"

lemma decides_constant: "decides (first_error gx (I_CONSTANT_REF c)) (cg_constant c)"
  by (cases c) (auto simp: cg_constant_def intro!: decides)

lemma compile_decides: "decides (first_error gx m) (idio_codegen_compile gx m)"
proof (induction m)
  case (I_CONSTANT_REF c) show ?case unfolding idio_codegen_compile.simps by (rule decides_constant)
next
  case (I_AND tailp m1 ms) then show ?case
    unfolding idio_codegen_compile.simps first_error.simps first_of_simps by (rule decides_and_or)
next
  case (I_OR tailp m1 ms) then show ?case
    unfolding idio_codegen_compile.simps first_error.simps first_of_simps by (rule decides_and_or)
next
  case (I_BEGIN ms) then show ?case
    using decides_seqs_map [of ms "first_error gx" "idio_codegen_compile gx"] by (simp add: decides)
next
  case (I_list ms) then show ?case
    using decides_seqs_map [of ms "first_error gx" "idio_codegen_compile gx"] by (simp add: decides)
next
  case (I_SYM_DEF name kind si)
  have "decides None (with_constant kind (\<lambda>kci.
      emit (IDIO_IA_PUSH1 IDIO_A_SYM_DEF @ IDIO_IA_PUSH_REF si @ IDIO_IA_PUSH_VARUINT kci)))" by (intro decides)
  then show ?case by (simp add: decides)
qed (simp_all only: idio_codegen_compile.simps first_error.simps,
  (rule decides_cong, ((rule decides | assumption | simp only: insert_iff simp_thms)+)[1], simp only: first_of_simps orelse_simps)+)

end
