(* ===== verification/Meaning_Run.thy ===== *)
theory Meaning_Run
  imports Meaning_Scope Compile_Correct "HOL-Library.AList"
begin

text \<open>
  The evaluator is correct for the forms whose names are all in scope: the code it gives them
  does on the machine's frames what the forms mean in the list of the names that are bound
  with their values. The meaning of the code is that of \<open>Compile_Sem\<close>.
\<close>

section \<open>What the forms mean\<close>

type_synonym bindings = "(idio_value \<times> idio_value) list"
type_synonym sem = "bindings \<Rightarrow> idio_value \<times> bindings"

text \<open>One after another up to the end, or to a value that stops.\<close>

fun seq_sem :: "(idio_value \<Rightarrow> bool) \<Rightarrow> sem list \<Rightarrow> sem" where
  "seq_sem stop [] env = (idio_S_undef, env)"
| "seq_sem stop (f # fs) env =
    (case f env of (v, env) \<Rightarrow> if fs = [] \<or> stop v then (v, env) else seq_sem stop fs env)"

fun args_sem :: "sem list \<Rightarrow> bindings \<Rightarrow> idio_value list \<times> bindings" where
  "args_sem [] env = ([], env)"
| "args_sem (f # fs) env = (case f env of (v, env) \<Rightarrow> case args_sem fs env of (vs, env) \<Rightarrow> (v # vs, env))"

definition stops :: "sequence_keyword \<Rightarrow> idio_value \<Rightarrow> bool" where
  "stops k v = (case k of K_and \<Rightarrow> v = idio_S_false | K_or \<Rightarrow> v \<noteq> idio_S_false | K_begin \<Rightarrow> False)"

definition name_sem :: "idio_value \<Rightarrow> sem" where
  "name_sem x env = ((case map_of env x of Some v \<Rightarrow> v | None \<Rightarrow> idio_S_undef), env)"

definition not_sem :: "sem \<Rightarrow> sem" where
  "not_sem f env = (case f env of (v, env) \<Rightarrow> (if v = idio_S_false then idio_S_true else idio_S_false, env))"

definition if_sem :: "sem \<Rightarrow> sem \<Rightarrow> sem \<Rightarrow> sem" where
  "if_sem f g h env = (case f env of (v, env) \<Rightarrow> if v = idio_S_false then h env else g env)"

definition set_sem :: "idio_value \<Rightarrow> sem \<Rightarrow> sem" where
  "set_sem x f env = (case f env of (v, env) \<Rightarrow> (v, AList.update x v env))"

text \<open>A local name is bound to its value in the forms behind it.\<close>

definition local_sem :: "idio_value \<Rightarrow> sem \<Rightarrow> sem \<Rightarrow> sem" where
  "local_sem x f g env =
    (case f env of (v, env) \<Rightarrow> case g ((x, v) # env) of (w, env) \<Rightarrow> (w, tl env))"

text \<open>The arguments of a function that is called where it stands; the other arguments are none.\<close>

definition closed_sem :: "idio_value list \<Rightarrow> sem list \<Rightarrow> sem \<Rightarrow> sem" where
  "closed_sem ns fs g env =
    (case args_sem fs env of (vs, env) \<Rightarrow>
       case g ((idio_S_false, idio_S_nil) # rev (zip ns vs) @ env) of (w, env) \<Rightarrow> (w, drop (Suc (length ns)) env))"

primrec eval :: "form \<Rightarrow> sem" where
  "eval (E_quote e v) = Pair v"
| "eval (E_name x) = name_sem x"
| "eval (E_dynamic e x) = Pair idio_S_undef"
| "eval (E_environ e x) = Pair idio_S_undef"
| "eval (E_computed e x) = Pair idio_S_undef"
| "eval (E_escape e f) = eval f"
| "eval (E_not e f) = not_sem (eval f)"
| "eval (E_if e f g h) = if_sem (eval f) (eval g) (eval h)"
| "eval (E_seq e k fs) = seq_sem (stops k) (map eval fs)"
| "eval (E_set e x f) = set_sem x (eval f)"
| "eval (E_define e x f) = Pair idio_S_undef"
| "eval (E_define_dynamic e x f) = Pair idio_S_undef"
| "eval (E_define_environ e x f) = Pair idio_S_undef"
| "eval (E_define_computed e x f) = Pair idio_S_undef"
| "eval (E_function e name ns rest doc fs) = Pair idio_S_undef"
| "eval (E_local e x f be fs) = local_sem x (eval f) (seq_sem (stops K_begin) (map eval fs))"
| "eval (E_dynamic_let e x f fs) = Pair idio_S_undef"
| "eval (E_environ_let e x f fs) = Pair idio_S_undef"
| "eval (E_closed e fe ns rest be fs aes) = closed_sem ns (map eval aes) (seq_sem (stops K_begin) (map eval fs))"
| "eval (E_apply e f aes) = Pair idio_S_undef"

text \<open>
  The fragment: constants that are no pointers, names that are arguments or locals in scope,
  \<open>not\<close>, \<open>if\<close>, \<open>and\<close>, \<open>or\<close>, \<open>begin\<close>, assignments, local names, and functions that are called
  where they stand with exactly their arguments. No other calls, no functions as values, no
  names outside the frames and no definitions of them. The places in a frame are numbers of 31 bits.
\<close>

definition plain_constant :: "idio_value \<Rightarrow> bool" where
  "plain_constant v \<longleftrightarrow> constant_ok v \<and> (case v of V_pointer _ \<Rightarrow> False | _ \<Rightarrow> True)"

primrec lexical_form :: "form \<Rightarrow> idio_value list \<Rightarrow> bool" where
  "lexical_form (E_quote e v) xs = plain_constant v"
| "lexical_form (E_name x) xs = (x \<in> set xs)"
| "lexical_form (E_dynamic e x) xs = False"
| "lexical_form (E_environ e x) xs = False"
| "lexical_form (E_computed e x) xs = False"
| "lexical_form (E_escape e f) xs = lexical_form f xs"
| "lexical_form (E_not e f) xs = lexical_form f xs"
| "lexical_form (E_if e f g h) xs = (lexical_form f xs \<and> lexical_form g xs \<and> lexical_form h xs)"
| "lexical_form (E_seq e k fs) xs = (fs \<noteq> [] \<and> list_all (\<lambda>P. P xs) (map lexical_form fs))"
| "lexical_form (E_set e x f) xs = (x \<in> set xs \<and> lexical_form f xs)"
| "lexical_form (E_define e x f) xs = False"
| "lexical_form (E_define_dynamic e x f) xs = False"
| "lexical_form (E_define_environ e x f) xs = False"
| "lexical_form (E_define_computed e x f) xs = False"
| "lexical_form (E_function e name ns rest doc fs) xs = False"
| "lexical_form (E_local e x f be fs) xs =
    (xs \<noteq> [] \<and> Suc (length xs) < 2 ^ 31 \<and> lexical_form f xs \<and> fs \<noteq> [] \<and>
     list_all (\<lambda>P. P (x # xs)) (map lexical_form fs))"
| "lexical_form (E_dynamic_let e x f fs) xs = False"
| "lexical_form (E_environ_let e x f fs) xs = False"
| "lexical_form (E_closed e fe ns rest be fs aes) xs =
    (rest = None \<and> length ns = length aes \<and> length ns + 1 + length xs < 2 ^ 31 \<and>
     list_all (\<lambda>P. P xs) (map lexical_form aes) \<and> fs \<noteq> [] \<and>
     list_all (\<lambda>P. P (idio_S_false # rev ns @ xs)) (map lexical_form fs))"
| "lexical_form (E_apply e f aes) xs = False"

section \<open>The frames of a function and those around it\<close>

primrec chain :: "vm \<Rightarrow> idio_value \<Rightarrow> (nat \<times> idio_frame) list \<Rightarrow> idio_value \<Rightarrow> bool" where
  "chain s v [] b \<longleftrightarrow> v = b"
| "chain s v (p # fs) b \<longleftrightarrow>
    v = V_pointer (fst p) \<and> vm_heap s (fst p) = Some (O_frame (snd p)) \<and> fst p < vm_next s \<and> chain s (fr_next (snd p)) fs b"

lemma chain_frame_up:
  "chain s v fs b \<Longrightarrow> i < length fs \<Longrightarrow> frame_up i v s = (Inr (V_pointer (fst (fs ! i))), s)"
proof (induction i arbitrary: v fs)
  case 0
  then show ?case by (cases fs) auto
next
  case (Suc i)
  then obtain p ps where p: "fs = p # ps" by (cases fs) auto
  then have "the_frame v s = (Inr (snd p), s)" using Suc.prems by (simp add: the_frame_def obj_at_def)
  then show ?case using Suc p by (simp add: bind_vm_Inr)
qed

lemma chain_heap: "chain s v fs b \<Longrightarrow> i < length fs \<Longrightarrow> vm_heap s (fst (fs ! i)) = Some (O_frame (snd (fs ! i)))"
proof (induction fs arbitrary: i v)
  case (Cons p fs)
  show ?case using Cons.prems Cons.IH [of "fr_next (snd p)"] by (cases i) simp_all
qed simp

lemma chain_frame: "chain s v fs b \<Longrightarrow> i < length fs \<Longrightarrow> the_frame (V_pointer (fst (fs ! i))) s = (Inr (snd (fs ! i)), s)"
  using chain_heap by (simp add: the_frame_def obj_at_def)

lemma chain_below: "chain s v fs b \<Longrightarrow> a \<in> fst ` set fs \<Longrightarrow> a < vm_next s"
  by (induction fs arbitrary: v) auto

text \<open>A chain is not touched by what happens elsewhere.\<close>

lemma chain_cong:
  "chain s v fs b \<Longrightarrow> (\<And>a. a \<in> fst ` set fs \<Longrightarrow> vm_heap t a = vm_heap s a) \<Longrightarrow> vm_next s \<le> vm_next t \<Longrightarrow> chain t v fs b"
  by (induction fs arbitrary: v) auto

lemma chain_update:
  assumes "chain s v fs b" "distinct (map fst fs)" "i < length fs" "fr_next f = fr_next (snd (fs ! i))"
  shows "chain (s\<lparr>vm_heap := (vm_heap s)(fst (fs ! i) \<mapsto> O_frame f)\<rparr>) v (fs[i := (fst (fs ! i), f)]) b"
  using assms
proof (induction fs arbitrary: i v)
  case (Cons p fs)
  have p: "vm_heap s (fst p) = Some (O_frame (snd p))" "fst p < vm_next s" "chain s (fr_next (snd p)) fs b" "v = V_pointer (fst p)"
    and d: "fst p \<notin> fst ` set fs" "distinct (map fst fs)"
    using Cons.prems by simp_all
  show ?case
  proof (cases i)
    case 0
    have "a \<noteq> fst p" if "a \<in> fst ` set fs" for a using that d(1) by blast
    then have "chain (s\<lparr>vm_heap := (vm_heap s)(fst p \<mapsto> O_frame f)\<rparr>) (fr_next (snd p)) fs b"
      by (intro chain_cong [OF p(3)]) simp_all
    then show ?thesis using Cons.prems(4) p 0 by (simp add: fun_upd_def)
  next
    case (Suc j)
    then have j: "j < length fs" using Cons.prems(3) by simp
    then have "fst (fs ! j) \<noteq> fst p" using d(1) by (metis image_eqI nth_mem)
    moreover have "chain (s\<lparr>vm_heap := (vm_heap s)(fst (fs ! j) \<mapsto> O_frame f)\<rparr>) (fr_next (snd p)) (fs[j := (fst (fs ! j), f)]) b"
      by (rule Cons.IH [OF p(3) d(2) j]) (use Cons.prems(4) Suc in simp)
    ultimately show ?thesis using p Suc by (simp add: fun_upd_def)
  qed
qed simp

text \<open>What a slot holds, and the names with what their slots hold.\<close>

definition slot_val :: "(nat \<times> idio_frame) list \<Rightarrow> int \<times> int \<Rightarrow> idio_value" where
  "slot_val fs = (\<lambda>(i, j). fr_args (snd (fs ! nat i)) ! nat j)"

definition bound :: "((int \<times> int) \<Rightarrow> idio_value) \<Rightarrow> (idio_value \<times> nt_scope \<times> int \<times> int) list \<Rightarrow> bindings" where
  "bound g es = map (\<lambda>e. (fst e, g (slot_of e))) es"

text \<open>The number of parameters of each function, without the locals.\<close>

definition arities :: "nametree \<Rightarrow> nat list" where
  "arities nt = map length (filter (\<lambda>ns. frame_step ns = 1) nt)"

text \<open>
  The machine's frames, at these addresses and inside the frame \<open>b\<close>, hold the bindings of the
  names in the tree.
\<close>

definition frames_fit :: "nametree \<Rightarrow> (nat \<times> idio_frame) list \<Rightarrow> bool" where
  "frames_fit nt fs \<longleftrightarrow>
    list_all2 (\<lambda>k p. k \<le> length (fr_args (snd p))) (slots nt) fs \<and>
    list_all2 (\<lambda>k p. k = Suc (fr_nparams (snd p))) (arities nt) fs"

definition holds :: "vm \<Rightarrow> nametree \<Rightarrow> nat list \<Rightarrow> idio_value \<Rightarrow> bindings \<Rightarrow> bool" where
  "holds s nt as b env \<longleftrightarrow>
    (\<exists>fs. chain s (vm_frame s) fs b \<and> map fst fs = as \<and> distinct as \<and> frames_fit nt fs \<and>
      env = bound (slot_val fs) (lexical nt 0))"

lemma holdsE:
  assumes "holds s nt as b env"
  obtains fs where "chain s (vm_frame s) fs b" "map fst fs = as" "distinct (map fst fs)" "frames_fit nt fs"
    "env = bound (slot_val fs) (lexical nt 0)"
  using assms unfolding holds_def by auto

lemma holdsI:
  "chain s (vm_frame s) fs b \<Longrightarrow> map fst fs = as \<Longrightarrow> distinct as \<Longrightarrow> frames_fit nt fs \<Longrightarrow>
    env = bound (slot_val fs) (lexical nt 0) \<Longrightarrow> holds s nt as b env"
  unfolding holds_def by blast

lemma holds_cong:
  assumes "holds s nt as b env" "vm_frame t = vm_frame s" "vm_next s \<le> vm_next t"
    "\<And>a. a \<in> set as \<Longrightarrow> vm_heap t a = vm_heap s a"
  shows "holds t nt as b env"
proof -
  obtain fs where f: "chain s (vm_frame s) fs b" "map fst fs = as" "distinct (map fst fs)" "frames_fit nt fs"
    "env = bound (slot_val fs) (lexical nt 0)"
    using assms(1) by (rule holdsE)
  have "vm_heap t a = vm_heap s a" if "a \<in> fst ` set fs" for a using assms(4) [of a] that f(2) by force
  then have "chain t (vm_frame t) fs b" unfolding assms(2) by (rule chain_cong [OF f(1) _ assms(3)])
  then show ?thesis using f by (intro holdsI) auto
qed

lemma holds_upd [simp]:
  "holds (vm_val_update g s) nt as b env = holds s nt as b env"
  "holds (vm_stack_update h s) nt as b env = holds s nt as b env"
  "holds (vm_rcse_update g s) nt as b env = holds s nt as b env"
  "holds (vm_expr_update g s) nt as b env = holds s nt as b env"
  "holds (vm_pc_update k s) nt as b env = holds s nt as b env"
  by (rule iffI; erule holds_cong; simp)+

lemma holds_below: "holds s nt as b env \<Longrightarrow> a \<in> set as \<Longrightarrow> a < vm_next s"
  using chain_below by (fastforce elim!: holdsE)

lemma holds_names: "holds s nt as b env \<Longrightarrow> map fst env = map fst (lexical nt 0)"
  by (auto elim!: holdsE simp: bound_def)

lemma frames_fit_length: "frames_fit nt fs \<Longrightarrow> length fs = length (slots nt)"
  by (auto simp: frames_fit_def dest: list_all2_lengthD)

section \<open>Reading and writing a name\<close>

lemma bound_lookup: "map_of (bound g es) x = map_option (\<lambda>(sc, i, j). g (i, j)) (map_of es x)"
  by (induction es) (auto simp: bound_def)

text \<open>A name is found in a frame, and in the slot of its frame that its code has.\<close>

lemma name_slot:
  assumes "nt_ok nt" "frames_fit nt fs" "map_of (lexical nt 0) x = Some (sc, i, j)"
  shows "0 \<le> i" "nat i < length fs" "0 \<le> j" "nat j < length (fr_args (snd (fs ! nat i)))"
    "(sc, i, j) \<in> snd ` set (lexical nt 0)"
proof -
  have e: "(x, sc, i, j) \<in> set (lexical nt 0)" using assms(3) by (rule map_of_SomeD)
  have "list_all2 (\<lambda>k p. k \<le> length (fr_args (snd p))) (slots nt) fs" using assms(2) by (simp add: frames_fit_def)
  then have l: "length fs = length (slots nt)" and k: "\<And>n. n < length fs \<Longrightarrow> slots nt ! n \<le> length (fr_args (snd (fs ! n)))"
    by (auto simp: list_all2_conv_all_nth)
  have b: "0 \<le> i" "nat i < length (slots nt)" "0 \<le> j" "j < int (slots nt ! nat i)"
    using lexical_slot [OF assms(1) e] by auto
  show "0 \<le> i" "nat i < length fs" "0 \<le> j" using b l by simp_all
  have "nat j < slots nt ! nat i" using b(3,4) by simp
  also have "\<dots> \<le> length (fr_args (snd (fs ! nat i)))" using k b(2) l by simp
  finally show "nat j < length (fr_args (snd (fs ! nat i)))" .
  show "(sc, i, j) \<in> snd ` set (lexical nt 0)" using e by force
qed

lemma holds_fetch:
  assumes "nt_ok nt" "holds s nt as b env" "map_of (lexical nt 0) x = Some (sc, i, j)" "j < 2147483648"
  obtains v where "idio_frame_fetch (vm_frame s) (nat i) (nat j) s = (Inr v, s)" "map_of env x = Some v"
proof -
  obtain fs where f: "chain s (vm_frame s) fs b" "frames_fit nt fs" "env = bound (slot_val fs) (lexical nt 0)"
    using assms(2) by (rule holdsE)
  note n = name_slot [OF assms(1) f(2) assms(3)]
  have "idio_frame_fetch (vm_frame s) (nat i) (nat j) s = (Inr (slot_val fs (i, j)), s)"
    using n chain_frame_up [OF f(1) n(2)] chain_frame [OF f(1) n(2)] assms(4)
    by (simp add: idio_frame_fetch_def bind_vm_Inr frame_arg_def slot_val_def)
  then show thesis using that f(3) assms(3) by (simp add: bound_lookup)
qed

lemma bound_update:
  assumes "distinct (map slot_of es)" "map_of es x = Some (sc, i, j)"
  shows "bound (g((i, j) := w)) es = AList.update x w (bound g es)"
  using assms
proof (induction es)
  case (Cons e es)
  obtain y sc' i' j' where e: "e = (y, sc', i', j')" by (metis prod_cases4)
  show ?case
  proof (cases "y = x")
    case True
    then have "(i, j) \<notin> slot_of ` set es" "i' = i" "j' = j" using Cons.prems e by auto
    then have "bound (g((i, j) := w)) es = bound g es" unfolding bound_def by (intro map_cong) (metis (no_types) fun_upd_other image_eqI)+
    then show ?thesis using True e \<open>i' = i\<close> \<open>j' = j\<close> by (simp add: bound_def)
  next
    case False
    then have m: "map_of es x = Some (sc, i, j)" using Cons.prems e by simp
    then have "(i, j) \<in> slot_of ` set es" using map_of_SomeD [OF m] by force
    then have "(i', j') \<noteq> (i, j)" using Cons.prems e by auto
    then show ?thesis using Cons.IH [OF _ m] Cons.prems(1) False e by (auto simp: bound_def)
  qed
qed simp

lemma slot_val_update:
  assumes "nat i < length fs" "0 \<le> i" "0 \<le> j" "nat j < length (fr_args f)" "f = snd (fs ! nat i)" "0 \<le> i'" "0 \<le> j'"
  shows "slot_val (fs[nat i := (a, f\<lparr>fr_args := (fr_args f)[nat j := w]\<rparr>)]) (i', j') =
    ((slot_val fs)((i, j) := w)) (i', j')"
  using assms by (auto simp: slot_val_def nth_list_update)

lemma holds_update:
  assumes "nt_ok nt" "holds s nt as b env" "map_of (lexical nt 0) x = Some (sc, i, j)" "j < 2147483648"
  obtains s' where "idio_frame_update (vm_frame s) (nat i) (nat j) w s = (Inr (), s')"
    "holds s' nt as b (AList.update x w env)" "vm_stack s' = vm_stack s" "vm_val s' = vm_val s"
proof -
  obtain fs where f: "chain s (vm_frame s) fs b" "map fst fs = as" "distinct (map fst fs)" "frames_fit nt fs"
    "env = bound (slot_val fs) (lexical nt 0)"
    using assms(2) by (rule holdsE)
  note n = name_slot [OF assms(1) f(4) assms(3)]
  define fr where "fr = snd (fs ! nat i)"
  define fr' where "fr' = fr\<lparr>fr_args := (fr_args fr)[nat j := w]\<rparr>"
  define s' where "s' = s\<lparr>vm_heap := (vm_heap s)(fst (fs ! nat i) \<mapsto> O_frame fr')\<rparr>"
  define fs' where "fs' = fs[nat i := (fst (fs ! nat i), fr')]"
  have u: "idio_frame_update (vm_frame s) (nat i) (nat j) w s = (Inr (), s')"
    using n chain_frame_up [OF f(1) n(2)] chain_frame [OF f(1) n(2)] assms(4)
    by (simp add: idio_frame_update_def set_IDIO_FRAME_ARGS_def bind_vm_Inr set_obj_def s'_def fr'_def fr_def)
  have c: "chain s' (vm_frame s') fs' b"
    using chain_update [OF f(1) f(3) n(2), of fr'] by (simp add: s'_def fs'_def fr'_def fr_def)
  have m: "map fst fs' = as" using f(2) n(2) by (auto simp: fs'_def map_update list_update_same_conv)
  have fit: "frames_fit nt fs'" using f(4) n(2)
    unfolding frames_fit_def fs'_def list_all2_conv_all_nth by (auto simp: nth_list_update fr'_def fr_def)
  have "bound (slot_val fs') (lexical nt 0) = bound ((slot_val fs)((i, j) := w)) (lexical nt 0)"
    unfolding bound_def
  proof (rule map_cong [OF refl])
    fix e assume e: "e \<in> set (lexical nt 0)"
    obtain i' j' where s: "slot_of e = (i', j')" by fastforce
    then have "0 \<le> i'" "0 \<le> j'" using lexical_slot [OF assms(1) e] by auto
    then show "(fst e, slot_val fs' (slot_of e)) = (fst e, ((slot_val fs)((i, j) := w)) (slot_of e))"
      unfolding s fs'_def fr'_def using slot_val_update [OF n(2,1,3) _ fr_def] n(4) fr_def by simp
  qed
  then have "AList.update x w env = bound (slot_val fs') (lexical nt 0)"
    using bound_update [OF lexical_distinct [OF assms(1)] assms(3), of "slot_val fs" w] f(5) by simp
  then have "holds s' nt as b (AList.update x w env)" using c m f fit by (intro holdsI) auto
  then show thesis using that u by (simp add: s'_def)
qed

section \<open>Entering and leaving a function\<close>

lemma arities_extend [simp]:
  "names \<noteq> [] \<Longrightarrow> arities (idio_meaning_nametree_extend_vparams nt names) = length names # arities nt"
  "arities (idio_meaning_nametree_extend_local nt x) = arities nt"
proof -
  assume "names \<noteq> []"
  then obtain y j ps where p: "rev (map (\<lambda>(i, x). (x, NT_param, int i)) (enumerate 0 names)) = (y, NT_param, j) # ps"
    by (rule params_first)
  show "arities (idio_meaning_nametree_extend_vparams nt names) = length names # arities nt"
    unfolding extend_vparams_Cons p arities_def using params_length [OF p] by (simp add: frame_step_def)
qed (simp add: idio_meaning_nametree_extend_local_def arities_def frame_step_def)

lemma lexical_shift: "lexical nt (i + 1) = map (\<lambda>(x, sc, i, j). (x, sc, i + 1, j)) (lexical nt i)"
proof (induction nt arbitrary: i)
  case (Cons ns nt)
  have "filter in_frame (map (\<lambda>(x, e). (x, place (i + 1) e)) ns) =
      map (\<lambda>(x, sc, i, j). (x, sc, i + 1, j)) (filter in_frame (map (\<lambda>(x, e). (x, place i e)) ns))"
    by (induction ns) (auto simp: place_def split: if_splits)
  moreover have "lexical nt (i + 1 + frame_step ns) = map (\<lambda>(x, sc, i, j). (x, sc, i + 1, j)) (lexical nt (i + frame_step ns))"
    using Cons.IH [of "i + frame_step ns"] by (simp add: add.commute add.left_commute)
  ultimately show ?case by simp
qed simp

lemma bound_params:
  assumes "length names \<le> length (fr_args (snd q))"
  shows "bound (slot_val (q # fs)) (new_params names 0) = rev (zip names (fr_args (snd q)))"
proof -
  have "map (\<lambda>(k, x). (x, fr_args (snd q) ! k)) (enumerate 0 names) = zip names (fr_args (snd q))"
    using assms by (intro nth_equalityI) (auto simp: nth_enumerate_eq enumerate_eq_zip)
  then show ?thesis by (simp add: bound_def new_params_def slot_val_def o_def split_def flip: rev_map)
qed

lemma bound_extend:
  assumes "nt_ok nt" "names \<noteq> []" "length names \<le> length (fr_args (snd q))"
  shows "bound (slot_val (q # fs)) (lexical (idio_meaning_nametree_extend_vparams nt names) 0) =
    rev (zip names (fr_args (snd q))) @ bound (slot_val fs) (lexical nt 0)"
proof -
  have "bound (slot_val (q # fs)) (lexical nt 1) = bound (slot_val fs) (lexical nt 0)"
  proof -
    have "(\<lambda>e. (fst e, slot_val (q # fs) (slot_of e))) ((\<lambda>(x, sc, i, j). (x, sc, i + 1, j)) e) = (fst e, slot_val fs (slot_of e))"
      if e: "e \<in> set (lexical nt 0)" for e
    proof -
      obtain x sc i j where s: "e = (x, sc, i, j)" by (metis prod_cases4)
      then have "0 \<le> i" using lexical_slot [OF assms(1) e] by auto
      then have "nat (i + 1) = Suc (nat i)" by simp
      then show ?thesis unfolding s by (simp add: slot_val_def)
    qed
    then show ?thesis using lexical_shift [of nt 0] by (simp add: bound_def o_def)
  qed
  then show ?thesis using assms bound_params [OF assms(3)] by (simp add: bound_def)
qed

lemma frames_fit_Cons:
  "names \<noteq> [] \<Longrightarrow> frames_fit (idio_meaning_nametree_extend_vparams nt names) (q # fs) \<longleftrightarrow>
    length names \<le> length (fr_args (snd q)) \<and> length names = Suc (fr_nparams (snd q)) \<and> frames_fit nt fs"
  by (auto simp: frames_fit_def)

lemma holds_link:
  assumes "nt_ok nt" "holds s nt as b env" "vm_val s = V_pointer p" "vm_heap s p = Some (O_frame f)" "p < vm_next s"
    "p \<notin> set as" "fr_args f = vs @ [idio_S_nil]" "fr_nparams f = length ns" "length vs = length ns"
  obtains s' where "link_frame xi si sei s = (Inr (), s')" "vm_stack s' = vm_stack s"
    "holds s' (idio_meaning_nametree_extend_params nt ns) (p # as) b
      ((idio_S_false, idio_S_nil) # rev (zip ns vs) @ env)"
proof -
  obtain fs where f: "chain s (vm_frame s) fs b" "map fst fs = as" "distinct (map fst fs)" "frames_fit nt fs"
    "env = bound (slot_val fs) (lexical nt 0)"
    using assms(2) by (rule holdsE)
  define f1 where "f1 = f\<lparr>fr_xi := xi, fr_names := V_fixnum (int si),
      fr_src_expr := (if fr_src_expr f = - 1 then wrap64 (int sei) else fr_src_expr f)\<rparr>"
  define f2 where "f2 = f1\<lparr>fr_next := vm_frame s\<rparr>"
  define s1 where "s1 = s\<lparr>vm_heap := (vm_heap s)(p \<mapsto> O_frame f1)\<rparr>"
  define s2 where "s2 = s1\<lparr>vm_heap := (vm_heap s1)(p \<mapsto> O_frame f2)\<rparr>"
  define s' where "s' = s2\<lparr>vm_frame := V_pointer p\<rparr>"
  have r: "link_frame xi si sei s = (Inr (), s')"
    using assms(3,4)
    by (simp add: link_frame_def with_val_def with_frame_def idio_link_frame_def idio_isa_frame_def the_frame_def obj_at_def
        set_obj_def bind_vm_def seq_vm_def get_vm_def upd_vm_def ret_vm_def look_vm_def s'_def s2_def s1_def f2_def f1_def)
  have "vm_heap s' a = vm_heap s a" if "a \<in> fst ` set fs" for a
  proof -
    have "a \<noteq> p" using that assms(6) f(2) by (metis list.set_map)
    then show ?thesis by (simp add: s'_def s2_def s1_def)
  qed
  then have "chain s' (vm_frame s) fs b" by (intro chain_cong [OF f(1)]) (simp_all add: s'_def s2_def s1_def)
  then have "chain s' (vm_frame s') ((p, f2) # fs) b" using assms(5) by (simp add: s'_def s2_def s1_def f2_def)
  moreover have "frames_fit (idio_meaning_nametree_extend_params nt ns) ((p, f2) # fs)"
    using f(4) assms(7-9) by (simp add: idio_meaning_nametree_extend_params_def frames_fit_Cons f2_def f1_def)
  moreover have "bound (slot_val ((p, f2) # fs)) (lexical (idio_meaning_nametree_extend_params nt ns) 0) =
      (idio_S_false, idio_S_nil) # rev (zip ns vs) @ env"
    using assms(7,9) f(5) bound_extend [OF assms(1), of "ns @ [idio_S_false]" "(p, f2)" fs]
    by (simp add: idio_meaning_nametree_extend_params_def f2_def f1_def)
  ultimately have "holds s' (idio_meaning_nametree_extend_params nt ns) (p # as) b ((idio_S_false, idio_S_nil) # rev (zip ns vs) @ env)"
    using f(2,3) assms(6) by (intro holdsI) auto
  then show thesis using r that by (simp add: s'_def s2_def s1_def)
qed

text \<open>The frame that was linked is taken off.\<close>

lemma holds_unlink:
  assumes "nt_ok nt" "names \<noteq> []" "holds s (idio_meaning_nametree_extend_vparams nt names) (p # as) b env"
  obtains f where "the_frame (vm_frame s) s = (Inr f, s)" "holds (s\<lparr>vm_frame := fr_next f\<rparr>) nt as b (drop (length names) env)"
proof -
  obtain gs where g: "chain s (vm_frame s) gs b" "map fst gs = p # as" "distinct (map fst gs)"
    "frames_fit (idio_meaning_nametree_extend_vparams nt names) gs"
    "env = bound (slot_val gs) (lexical (idio_meaning_nametree_extend_vparams nt names) 0)"
    using assms(3) by (rule holdsE)
  then obtain q fs where q: "gs = q # fs" by (cases gs) auto
  note f = g [unfolded q]
  have l: "length names \<le> length (fr_args (snd q))" and fit: "frames_fit nt fs" using f(4) assms(2) by (simp_all add: frames_fit_Cons)
  have "the_frame (vm_frame s) s = (Inr (snd q), s)" using f(1) by (simp add: the_frame_def obj_at_def)
  moreover have "drop (length names) env = bound (slot_val fs) (lexical nt 0)"
    using l unfolding f(5) bound_extend [OF assms(1,2) l] by simp
  moreover have "chain (s\<lparr>vm_frame := fr_next (snd q)\<rparr>) (fr_next (snd q)) fs b"
    by (rule chain_cong [of s]) (use f(1) in simp_all)
  then have "holds (s\<lparr>vm_frame := fr_next (snd q)\<rparr>) nt as b (bound (slot_val fs) (lexical nt 0))"
    using f(2,3) fit by (intro holdsI) auto
  ultimately show thesis using that by simp
qed

section \<open>Local names\<close>

lemma arities_slots: "nt_ok nt \<Longrightarrow> list_all2 (\<le>) (arities nt) (slots nt)"
proof (induction rule: nt_ok.induct)
  case (local nt x)
  then show ?case by (cases "slots nt") (auto simp: list_all2_Cons2)
next
  case (dynamic nt sc x j)
  then have "arities (idio_meaning_nametree_dynamic_extend nt x j sc) = arities nt"
    by (auto simp: idio_meaning_nametree_dynamic_extend_def arities_def frame_step_def)
  then show ?case using dynamic by auto
next
  case empty
  then show ?case by (simp add: arities_def)
qed simp

lemma extend_frame_args:
  assumes "vm_frame s = V_pointer a" "vm_heap s a = Some (O_frame f)" "fr_nparams f + 1 < alloc" "alloc < 2147483648"
  obtains s1 f1 where "extend_frame xi alloc si s = (Inr (), s1)" "s1 = s\<lparr>vm_heap := (vm_heap s)(a \<mapsto> O_frame f1)\<rparr>"
    "fr_next f1 = fr_next f" "fr_nparams f1 = fr_nparams f" "alloc \<le> length (fr_args f1)" "length (fr_args f) \<le> length (fr_args f1)"
    "\<And>i. i < length (fr_args f) \<Longrightarrow> fr_args f1 ! i = fr_args f ! i"
proof -
  define f0 where "f0 = f\<lparr>fr_xi := xi, fr_names := V_fixnum (int si)\<rparr>"
  define f1 where "f1 = (if alloc < length (fr_args f) then f0
    else f0\<lparr>fr_args := fr_args f @ replicate (alloc - length (fr_args f)) idio_S_undef\<rparr>)"
  have "extend_frame xi alloc si s = (Inr (), s\<lparr>vm_heap := (vm_heap s)(a \<mapsto> O_frame f1)\<rparr>)"
    using assms
    by (auto simp: extend_frame_def with_frame_def idio_extend_frame_def the_frame_def obj_at_def set_obj_def bind_vm_def
        seq_vm_def get_vm_def ret_vm_def f1_def f0_def)
  then show thesis by (rule that [OF _ refl]) (auto simp: f1_def f0_def nth_append)
qed

lemma holds_local:
  assumes "nt_ok nt" "in_function nt" "holds s nt as b env" "Suc (hd (slots nt)) < 2147483648"
  defines "n \<equiv> hd (slots nt)"
  obtains s1 s2 where "extend_frame xi (Suc n) si s = (Inr (), s1)" "vm_val s1 = vm_val s" "vm_xi s1 = vm_xi s"
    "set_IDIO_FRAME_ARGS (vm_frame s1) n w s1 = (Inr (), s2)" "vm_stack s2 = vm_stack s"
    "holds s2 (idio_meaning_nametree_extend_local nt x) as b ((x, w) # env)" "vm_val s2 = vm_val s"
proof -
  obtain ks where k: "slots nt = n # ks" using slots_function [OF assms(1)] assms(2) by (cases "slots nt") (auto simp: n_def)
  obtain gs where g: "chain s (vm_frame s) gs b" "map fst gs = as" "distinct (map fst gs)" "frames_fit nt gs"
    "env = bound (slot_val gs) (lexical nt 0)"
    using assms(3) by (rule holdsE)
  then obtain a f fs where q: "gs = (a, f) # fs" using frames_fit_length [OF g(4)] k by (cases gs) auto
  note f = g [unfolded q]
  obtain m ms where m: "arities nt = m # ms" "m \<le> n" using arities_slots [OF assms(1)] k by (cases "arities nt") auto
  have nf: "fr_nparams f + 1 = m" "n \<le> length (fr_args f)"
    "list_all2 (\<lambda>k p. k \<le> length (fr_args (snd p))) ks fs" "list_all2 (\<lambda>k p. k = Suc (fr_nparams (snd p))) ms fs"
    using f(4) k m by (simp_all add: frames_fit_def)
  have h: "vm_frame s = V_pointer a" "vm_heap s a = Some (O_frame f)" "a < vm_next s" "a \<notin> fst ` set fs"
    using f(1,3) by simp_all
  have "fr_nparams f + 1 < Suc n" using nf(1) m(2) by simp
  from extend_frame_args [OF h(1,2) this assms(4) [folded n_def], of xi si]
  obtain s1 f1 where e: "extend_frame xi (Suc n) si s = (Inr (), s1)" "s1 = s\<lparr>vm_heap := (vm_heap s)(a \<mapsto> O_frame f1)\<rparr>"
    "fr_next f1 = fr_next f" "fr_nparams f1 = fr_nparams f" "Suc n \<le> length (fr_args f1)"
    "\<And>i. i < length (fr_args f) \<Longrightarrow> fr_args f1 ! i = fr_args f ! i"
    by blast
  define f2 where "f2 = f1\<lparr>fr_args := (fr_args f1)[n := w]\<rparr>"
  define s2 where "s2 = s\<lparr>vm_heap := (vm_heap s)(a \<mapsto> O_frame f2)\<rparr>"
  have u: "set_IDIO_FRAME_ARGS (vm_frame s1) n w s1 = (Inr (), s2)"
    using e(5) by (simp add: set_IDIO_FRAME_ARGS_def the_frame_def obj_at_def bind_vm_def set_obj_def e(2) h(1) s2_def f2_def)
  have "chain s2 (vm_frame s2) ((a, f2) # fs) b"
    using chain_update [OF f(1,3), of 0 f2] e(3) by (simp add: s2_def f2_def)
  moreover have "frames_fit (idio_meaning_nametree_extend_local nt x) ((a, f2) # fs)"
    using e(4,5) k m nf by (simp add: frames_fit_def f2_def)
  moreover have "(fst e, slot_val ((a, f) # fs) (slot_of e)) = (fst e, slot_val ((a, f2) # fs) (slot_of e))"
    if d: "e \<in> set (lexical nt 0)" for e
  proof -
    obtain i j where s: "slot_of e = (i, j)" by fastforce
    have b: "0 \<le> i" "0 \<le> j" "j < int (slots nt ! nat i)" using lexical_slot [OF assms(1) d] s by auto
    show ?thesis
    proof (cases "nat i")
      case 0
      then have "nat j < n" using b k by simp
      then show ?thesis using s 0 nf(2) e(6) by (simp add: slot_val_def f2_def)
    qed (simp add: s slot_val_def)
  qed
  then have "(x, w) # env = bound (slot_val ((a, f2) # fs)) (lexical (idio_meaning_nametree_extend_local nt x) 0)"
    using next_local_slot [OF assms(1,2), of 0] k f(5) e(5) by (auto simp: bound_def slot_val_def f2_def)
  ultimately have "holds s2 (idio_meaning_nametree_extend_local nt x) as b ((x, w) # env)"
    using f(2,3) by (intro holdsI) auto
  then show thesis using that e u by (simp add: s2_def)
qed

text \<open>The slot of a local name stays when the name goes out of scope.\<close>

lemma holds_unlocal:
  assumes "nt_ok nt" "in_function nt" "holds s (idio_meaning_nametree_extend_local nt x) as b env"
  shows "holds s nt as b (tl env)"
proof -
  obtain k ks where k: "slots nt = k # ks" using slots_function [OF assms(1)] assms(2) by (cases "slots nt") auto
  obtain fs where f: "chain s (vm_frame s) fs b" "map fst fs = as" "distinct (map fst fs)"
    "frames_fit (idio_meaning_nametree_extend_local nt x) fs"
    "env = bound (slot_val fs) (lexical (idio_meaning_nametree_extend_local nt x) 0)"
    using assms(3) by (rule holdsE)
  have "frames_fit nt fs" using f(4) k by (auto simp: frames_fit_def list_all2_Cons1)
  then show ?thesis using f by (intro holdsI) (auto simp: bound_def)
qed

section \<open>Code that does what a form means\<close>

text \<open>
  \<open>acts a nt f\<close>: the action \<open>a\<close>, in frames that hold the bindings of the names, leaves the
  value in the value register, the bindings in the frames and the stack as it was.
\<close>

definition acts :: "unit vmm \<Rightarrow> nametree \<Rightarrow> sem \<Rightarrow> bool" where
  "acts a nt f \<longleftrightarrow> (\<forall>t as b env. holds t nt as b env \<longrightarrow>
    (\<exists>t'. a t = (Inr (), t') \<and> vm_val t' = fst (f env) \<and> vm_stack t' = vm_stack t \<and> holds t' nt as b (snd (f env))))"

lemma actsI:
  "(\<And>t as b env. holds t nt as b env \<Longrightarrow>
     \<exists>t'. a t = (Inr (), t') \<and> vm_val t' = fst (f env) \<and> vm_stack t' = vm_stack t \<and> holds t' nt as b (snd (f env))) \<Longrightarrow>
   acts a nt f"
  unfolding acts_def by blast

lemma actsE:
  assumes "acts a nt f" "holds t nt as b env"
  obtains t' where "a t = (Inr (), t')" "vm_val t' = fst (f env)" "vm_stack t' = vm_stack t" "holds t' nt as b (snd (f env))"
  using assms unfolding acts_def by blast

lemma instr_exec: "instr cx op ns t = exec cx (vm_xi t) op ns t"
  by (simp add: instr_def)

lemma acts_constant: "plain_constant v \<Longrightarrow> acts (set_constant cx v) nt (Pair v)"
  by (rule actsI) (auto simp: plain_constant_def set_constant_def set_val_def split: idio_value.splits)

text \<open>A constant that suppresses conditions is pushed and popped around a clause.\<close>

lemma acts_rcse:
  assumes "acts a nt f"
  shows "acts (seq_vm (instr cx IDIO_A_SUPPRESS_RCSE []) (seq_vm a (instr cx IDIO_A_POP_RCSE []))) nt f"
proof (rule actsI)
  fix t as b env assume h: "holds t nt as b env"
  define t1 where "t1 = t\<lparr>vm_stack := vm_stack t @ [vm_rcse t], vm_rcse := idio_S_true\<rparr>"
  have 1: "instr cx IDIO_A_SUPPRESS_RCSE [] t = (Inr (), t1)"
    by (simp add: instr_exec exec_def exec_primcall_def STACK_PUSH_def t1_def seq_vm_def bind_vm_def)
  have "holds t1 nt as b env" using h by (simp add: t1_def)
  then obtain t2 where 2: "a t1 = (Inr (), t2)" "vm_val t2 = fst (f env)" "vm_stack t2 = vm_stack t1" "holds t2 nt as b (snd (f env))"
    by (rule actsE [OF assms])
  have 3: "instr cx IDIO_A_POP_RCSE [] t2 = (Inr (), t2\<lparr>vm_stack := vm_stack t, vm_rcse := vm_rcse t\<rparr>)"
    using 2(3) by (simp add: instr_exec exec_def exec_primcall_def STACK_POP_def t1_def bind_vm_def)
  show "\<exists>t'. seq_vm (instr cx IDIO_A_SUPPRESS_RCSE []) (seq_vm a (instr cx IDIO_A_POP_RCSE [])) t = (Inr (), t') \<and>
      vm_val t' = fst (f env) \<and> vm_stack t' = vm_stack t \<and> holds t' nt as b (snd (f env))"
    using 2 3 by (simp add: seq_vm_Inr [of "instr cx IDIO_A_SUPPRESS_RCSE []" t, OF 1] seq_vm_Inr [of a t1, OF 2(1)])
qed

text \<open>An action that only notes where the source is does not matter.\<close>

definition quiet :: "unit vmm \<Rightarrow> bool" where
  "quiet a \<longleftrightarrow> (\<forall>t. \<exists>e. a t = (Inr (), t\<lparr>vm_expr := e\<rparr>))"

lemma quiet_ret: "quiet (ret_vm ())"
proof -
  have "ret_vm () t = (Inr (), t\<lparr>vm_expr := vm_expr t\<rparr>)" for t by (simp add: ret_vm_def)
  then show ?thesis unfolding quiet_def by blast
qed

lemma quiet_src: "quiet (instr cx IDIO_A_SRC_EXPR ns)"
  unfolding quiet_def by (auto simp: instr_exec exec_def exec_stack_def)

lemma acts_quiet: "quiet q \<Longrightarrow> acts a nt f \<Longrightarrow> acts (seq_vm q a) nt f"
proof (rule actsI)
  fix t as b env assume q: "quiet q" and a: "acts a nt f" and h: "holds t nt as b env"
  obtain e where e: "q t = (Inr (), t\<lparr>vm_expr := e\<rparr>)" using q unfolding quiet_def by blast
  have "holds (t\<lparr>vm_expr := e\<rparr>) nt as b env" using h by simp
  then obtain t' where "a (t\<lparr>vm_expr := e\<rparr>) = (Inr (), t')" "vm_val t' = fst (f env)" "vm_stack t' = vm_stack t"
      "holds t' nt as b (snd (f env))"
    by (rule actsE [OF a]) simp
  then show "\<exists>t'. seq_vm q a t = (Inr (), t') \<and> vm_val t' = fst (f env) \<and> vm_stack t' = vm_stack t \<and> holds t' nt as b (snd (f env))"
    by (simp add: seq_vm_Inr [of q t, OF e])
qed

text \<open>An action is given a value and goes on in the bindings there are then.\<close>

lemma acts_bind:
  assumes "acts a nt f"
    "\<And>t as b env v. holds t nt as b env \<Longrightarrow> vm_val t = v \<Longrightarrow>
      \<exists>t'. c t = (Inr (), t') \<and> vm_val t' = fst (g v env) \<and> vm_stack t' = vm_stack t \<and> holds t' nt as b (snd (g v env))"
  shows "acts (seq_vm a c) nt (\<lambda>env. case f env of (v, env) \<Rightarrow> g v env)"
proof (rule actsI)
  fix t as b env assume h: "holds t nt as b env"
  obtain t1 where 1: "a t = (Inr (), t1)" "vm_val t1 = fst (f env)" "vm_stack t1 = vm_stack t" "holds t1 nt as b (snd (f env))"
    by (rule actsE [OF assms(1) h])
  from assms(2) [OF 1(4) 1(2)] 1(3)
  show "\<exists>t'. seq_vm a c t = (Inr (), t') \<and> vm_val t' = fst (case f env of (v, env) \<Rightarrow> g v env) \<and> vm_stack t' = vm_stack t \<and>
      holds t' nt as b (snd (case f env of (v, env) \<Rightarrow> g v env))"
    by (auto simp: seq_vm_Inr [of a t, OF 1(1)] split_def)
qed

lemma acts_then: "acts a nt f \<Longrightarrow> acts c nt g \<Longrightarrow> acts (seq_vm a c) nt (\<lambda>env. case f env of (v, env) \<Rightarrow> g env)"
  by (rule acts_bind) (auto elim: actsE)

text \<open>A choice by the value that is there.\<close>

lemma acts_choice:
  assumes "acts a nt f" "acts c nt g" "acts d nt h"
  shows "acts (seq_vm a (with_val (\<lambda>v. if P v then c else d))) nt
    (\<lambda>env. case f env of (v, env) \<Rightarrow> if P v then g env else h env)"
proof (rule acts_bind [OF assms(1)])
  fix t as b env v assume "holds t nt as b env" "vm_val t = v"
  then show "\<exists>t'. with_val (\<lambda>v. if P v then c else d) t = (Inr (), t') \<and> vm_val t' = fst (if P v then g env else h env) \<and>
      vm_stack t' = vm_stack t \<and> holds t' nt as b (snd (if P v then g env else h env))"
    by (auto simp: with_val_def elim: actsE [OF assms(2)] actsE [OF assms(3)])
qed

section \<open>The instructions on names\<close>

lemma u64_small: "0 \<le> i \<Longrightarrow> i < 18446744073709551616 \<Longrightarrow> u64 i = nat i"
  by (simp add: u64_def)

text \<open>The places of names are smaller than the number of names.\<close>

lemma slot_small:
  assumes "nt_ok nt" "(x, sc, i, j) \<in> set (lexical nt 0)" "length (lexical nt 0) < 2147483648"
  shows "u64 i = nat i" "u64 j = nat j" "j < 2147483648"
proof -
  have b: "0 \<le> i" "nat i < length (slots nt)" "0 \<le> j" "j < int (slots nt ! nat i)"
    using lexical_slot [OF assms(1,2)] by auto
  have sum: "sum_list (slots nt) = length (lexical nt 0)" using assms(1) by (rule slots_sum)
  have "length ks \<le> sum_list ks" if "\<And>k. k \<in> set ks \<Longrightarrow> 0 < k" for ks :: "nat list"
    using that by (induction ks) (auto simp: Suc_le_eq add_pos_nonneg, fastforce)
  then have "length (slots nt) \<le> length (lexical nt 0)" using slots_positive [OF assms(1)] sum by metis
  moreover have "slots nt ! nat i \<le> length (lexical nt 0)" using member_le_sum_list [of "slots nt ! nat i" "slots nt"] b(2) sum by simp
  ultimately show "u64 i = nat i" "u64 j = nat j" "j < 2147483648" using b assms(3) by (auto intro!: u64_small)
qed

lemma frame_fetch_0: "j < 2147483648 \<Longrightarrow> idio_frame_fetch fr 0 j s = (Inr v, s) \<Longrightarrow> IDIO_FRAME_ARGS fr j s = (Inr v, s)"
  by (auto simp: idio_frame_fetch_def IDIO_FRAME_ARGS_def bind_vm_def ret_vm_def fail_vm_def split: prod.splits sum.splits if_splits)

lemma frame_update_0: "j < 2147483648 \<Longrightarrow> idio_frame_update fr 0 j v s = (Inr (), s') \<Longrightarrow> set_IDIO_FRAME_ARGS fr j v s = (Inr (), s')"
  by (auto simp: idio_frame_update_def bind_vm_def ret_vm_def fail_vm_def the_frame_def split: prod.splits sum.splits if_splits
      option.splits idio_obj.splits)

lemma acts_ref:
  assumes "nt_ok nt" "map_of (lexical nt 0) x = Some (sc, i, j)" "j < 2147483648"
  shows "acts (instr cx IDIO_A_DEEP_ARGUMENT_REF [nat i, nat j]) nt (name_sem x)"
    "i = 0 \<Longrightarrow> acts (instr cx IDIO_A_SHALLOW_ARGUMENT_REF [nat j]) nt (name_sem x)"
proof -
  have "\<exists>t'. instr cx IDIO_A_DEEP_ARGUMENT_REF [nat i, nat j] t = (Inr (), t') \<and> vm_val t' = fst (name_sem x env) \<and>
      vm_stack t' = vm_stack t \<and> holds t' nt as b (snd (name_sem x env)) \<and>
      (i = 0 \<longrightarrow> instr cx IDIO_A_SHALLOW_ARGUMENT_REF [nat j] t = (Inr (), t'))"
    if h: "holds t nt as b env" for t as b env
  proof -
    obtain v where v: "idio_frame_fetch (vm_frame t) (nat i) (nat j) t = (Inr v, t)" "map_of env x = Some v"
      by (rule holds_fetch [OF assms(1) h assms(2,3)])
    have "instr cx IDIO_A_DEEP_ARGUMENT_REF [nat i, nat j] t = (Inr (), t\<lparr>vm_val := v\<rparr>)"
      using v(1) by (simp add: instr_exec exec_def exec_argument_def val_from_def with_frame_def set_val_def bind_vm_def)
    moreover have "instr cx IDIO_A_SHALLOW_ARGUMENT_REF [nat j] t = (Inr (), t\<lparr>vm_val := v\<rparr>)" if "i = 0"
      using frame_fetch_0 [of "nat j" "vm_frame t" t v] v(1) that assms(3)
      by (simp add: instr_exec exec_def exec_argument_def val_from_def with_frame_def set_val_def bind_vm_def)
    ultimately show ?thesis using v(2) h by (simp add: name_sem_def)
  qed
  then show "acts (instr cx IDIO_A_DEEP_ARGUMENT_REF [nat i, nat j]) nt (name_sem x)"
    "i = 0 \<Longrightarrow> acts (instr cx IDIO_A_SHALLOW_ARGUMENT_REF [nat j]) nt (name_sem x)"
    unfolding acts_def by blast+
qed

lemma acts_set:
  assumes "nt_ok nt" "map_of (lexical nt 0) x = Some (sc, i, j)" "acts a nt f" "j < 2147483648"
  shows "acts (seq_vm a (instr cx IDIO_A_DEEP_ARGUMENT_SET [nat i, nat j])) nt (set_sem x f)"
    "i = 0 \<Longrightarrow> acts (seq_vm a (instr cx IDIO_A_SHALLOW_ARGUMENT_SET [nat j])) nt (set_sem x f)"
proof -
  have "\<exists>t'. instr cx IDIO_A_DEEP_ARGUMENT_SET [nat i, nat j] t = (Inr (), t') \<and> vm_val t' = v \<and>
      vm_stack t' = vm_stack t \<and> holds t' nt as b (AList.update x v env) \<and>
      (i = 0 \<longrightarrow> instr cx IDIO_A_SHALLOW_ARGUMENT_SET [nat j] t = (Inr (), t'))"
    if h: "holds t nt as b env" "vm_val t = v" for t as b env v
  proof -
    obtain t' where u: "idio_frame_update (vm_frame t) (nat i) (nat j) v t = (Inr (), t')" "holds t' nt as b (AList.update x v env)"
      "vm_stack t' = vm_stack t" "vm_val t' = vm_val t"
      by (rule holds_update [OF assms(1) h(1) assms(2,4)])
    have "instr cx IDIO_A_DEEP_ARGUMENT_SET [nat i, nat j] t = (Inr (), t')"
      using u(1) h(2) by (simp add: instr_exec exec_def exec_argument_def with_frame_def with_val_def)
    moreover have "instr cx IDIO_A_SHALLOW_ARGUMENT_SET [nat j] t = (Inr (), t')" if "i = 0"
      using frame_update_0 [of "nat j" "vm_frame t" v t t'] u(1) that h(2) assms(4)
      by (simp add: instr_exec exec_def exec_argument_def with_frame_def with_val_def)
    ultimately show ?thesis using u h(2) by auto
  qed
  note r = this
  show "acts (seq_vm a (instr cx IDIO_A_DEEP_ARGUMENT_SET [nat i, nat j])) nt (set_sem x f)"
    unfolding set_sem_def by (rule acts_bind [OF assms(3)], drule (1) r) auto
  show "acts (seq_vm a (instr cx IDIO_A_SHALLOW_ARGUMENT_SET [nat j])) nt (set_sem x f)" if "i = 0"
    unfolding set_sem_def by (rule acts_bind [OF assms(3)], drule (1) r) (use that in auto)
qed

lemma acts_not: "acts a nt f \<Longrightarrow> acts (seq_vm a (instr cx IDIO_A_NOT [])) nt (not_sem f)"
  unfolding not_sem_def
  by (erule acts_bind) (simp add: instr_exec exec_def exec_primcall_def with_val_def set_val_def)

text \<open>A local name: its value goes to the slot behind those in use.\<close>

lemma acts_local:
  assumes nt: "nt_ok nt" "in_function nt" "Suc (hd (slots nt)) < 2147483648" and a: "acts a nt f" and q: "quiet q"
    and c: "acts c (idio_meaning_nametree_extend_local nt x) g"
  defines "n \<equiv> hd (slots nt)"
  shows "acts (seq_vm a (seq_vm q (seq_vm (instr cx IDIO_A_EXTEND_FRAME [Suc n, ci])
      (seq_vm (instr cx IDIO_A_SHALLOW_ARGUMENT_SET [n]) c)))) nt (local_sem x f g)"
  unfolding local_sem_def
proof (rule acts_bind [OF a])
  fix t as b env v assume h: "holds t nt as b env" "vm_val t = v"
  obtain e where e: "q t = (Inr (), t\<lparr>vm_expr := e\<rparr>)" using q unfolding quiet_def by blast
  let ?t = "t\<lparr>vm_expr := e\<rparr>"
  have "holds ?t nt as b env" using h by simp
  from holds_local [OF nt(1,2) this nt(3), of "vm_xi ?t" ci v x]
  obtain t1 t2 where 1: "extend_frame (vm_xi ?t) (Suc n) ci ?t = (Inr (), t1)" "vm_val t1 = vm_val ?t" "vm_xi t1 = vm_xi ?t"
    "set_IDIO_FRAME_ARGS (vm_frame t1) n v t1 = (Inr (), t2)" "vm_stack t2 = vm_stack ?t"
    "holds t2 (idio_meaning_nametree_extend_local nt x) as b ((x, v) # env)"
    unfolding n_def by blast
  obtain t3 where 3: "c t2 = (Inr (), t3)" "vm_val t3 = fst (g ((x, v) # env))" "vm_stack t3 = vm_stack t2"
    "holds t3 (idio_meaning_nametree_extend_local nt x) as b (snd (g ((x, v) # env)))"
    by (rule actsE [OF c 1(6)])
  have i1: "instr cx IDIO_A_EXTEND_FRAME [Suc n, ci] ?t = (Inr (), t1)"
    using 1(1) by (simp add: instr_exec exec_def exec_frame_def)
  have i2: "instr cx IDIO_A_SHALLOW_ARGUMENT_SET [n] t1 = (Inr (), t2)"
    using 1(2,4) h(2) by (simp add: instr_exec exec_def exec_argument_def with_frame_def with_val_def)
  show "\<exists>t'. seq_vm q (seq_vm (instr cx IDIO_A_EXTEND_FRAME [Suc n, ci]) (seq_vm (instr cx IDIO_A_SHALLOW_ARGUMENT_SET [n]) c)) t =
      (Inr (), t') \<and> vm_val t' = fst (case g ((x, v) # env) of (w, env) \<Rightarrow> (w, tl env)) \<and> vm_stack t' = vm_stack t \<and>
      holds t' nt as b (snd (case g ((x, v) # env) of (w, env) \<Rightarrow> (w, tl env)))"
    using 3 1(5) holds_unlocal [OF nt(1,2) 3(4)]
    by (auto simp: seq_vm_Inr [of q t, OF e] seq_vm_Inr [of "instr cx IDIO_A_EXTEND_FRAME [Suc n, ci]" ?t, OF i1]
        seq_vm_Inr [of "instr cx IDIO_A_SHALLOW_ARGUMENT_SET [n]" t1, OF i2] split_def)
qed

section \<open>Arguments\<close>

text \<open>The arguments are in a new frame, that no name is in yet.\<close>

definition acts_args :: "unit vmm \<Rightarrow> nametree \<Rightarrow> sem list \<Rightarrow> nat \<Rightarrow> bool" where
  "acts_args a nt fs arity \<longleftrightarrow> (\<forall>t as b env. holds t nt as b env \<longrightarrow>
    (\<exists>t' p f. a t = (Inr (), t') \<and> vm_val t' = V_pointer p \<and> vm_heap t' p = Some (O_frame f) \<and> p < vm_next t' \<and> p \<notin> set as \<and>
      fr_nparams f = arity \<and>
      fr_args f = replicate (arity - length fs) idio_S_undef @ fst (args_sem fs env) @ [idio_S_nil] \<and>
      vm_stack t' = vm_stack t \<and> holds t' nt as b (snd (args_sem fs env))))"

lemma length_args_sem [simp]: "length (fst (args_sem fs env)) = length fs"
  by (induction fs arbitrary: env) (auto split: prod.splits, metis fst_conv)

lemma acts_args_Nil: "Suc arity < 2147483648 \<Longrightarrow> acts_args (instr cx IDIO_A_ALLOCATE_FRAME [Suc arity]) nt [] arity"
  unfolding acts_args_def
proof (intro allI impI)
  fix t as b env assume small: "Suc arity < 2147483648" and h: "holds t nt as b env"
  define f where "f = \<lparr>fr_next = idio_S_nil, fr_nparams = arity, fr_args = replicate arity idio_S_undef @ [idio_S_nil],
      fr_xi = 0, fr_names = idio_S_nil, fr_func = idio_S_nil, fr_src_expr = - 1\<rparr>"
  define t' where "t' = t\<lparr>vm_heap := (vm_heap t)(vm_next t \<mapsto> O_frame f), vm_next := vm_next t + 4, vm_val := V_pointer (vm_next t)\<rparr>"
  have "instr cx IDIO_A_ALLOCATE_FRAME [Suc arity] t = (Inr (), t')"
    using small by (simp add: instr_exec exec_def exec_allocate_def val_from_def idio_frame_allocate_def idio_gc_get_def bind_vm_def set_val_def
        t'_def f_def)
  moreover have n: "vm_next t \<notin> set as" using holds_below [OF h] by blast
  have "holds t' nt as b env" by (rule holds_cong [OF h]) (use n in \<open>auto simp: t'_def\<close>)
  ultimately show "\<exists>t' p f. instr cx IDIO_A_ALLOCATE_FRAME [Suc arity] t = (Inr (), t') \<and> vm_val t' = V_pointer p \<and>
      vm_heap t' p = Some (O_frame f) \<and> p < vm_next t' \<and> p \<notin> set as \<and> fr_nparams f = arity \<and>
      fr_args f = replicate (arity - length []) idio_S_undef @ fst (args_sem [] env) @ [idio_S_nil] \<and>
      vm_stack t' = vm_stack t \<and> holds t' nt as b (snd (args_sem [] env))"
    using n by (intro exI [of _ t'] exI [of _ "vm_next t"] exI [of _ f]) (simp add: t'_def f_def)
qed

lemma acts_args_Cons:
  assumes a: "acts a nt f" and c: "acts_args c nt fs arity" and l: "length fs < arity" "arity < 2147483648"
  shows "acts_args (seq_vm a (seq_vm (instr cx IDIO_A_PUSH_VALUE [])
    (seq_vm c (instr cx IDIO_A_POP_FRAME [arity - Suc (length fs)])))) nt (f # fs) arity"
  unfolding acts_args_def
proof (intro allI impI)
  fix t as b env assume h: "holds t nt as b env"
  obtain v env1 where v: "f env = (v, env1)" by fastforce
  obtain vs env2 where vs: "args_sem fs env1 = (vs, env2)" by fastforce
  have lv: "length vs = length fs" using length_args_sem [of fs env1] vs by simp
  obtain t1 where 1: "a t = (Inr (), t1)" "vm_val t1 = v" "vm_stack t1 = vm_stack t" "holds t1 nt as b env1"
    by (rule actsE [OF a h]) (simp add: v)
  define t2 where "t2 = t1\<lparr>vm_stack := vm_stack t @ [v]\<rparr>"
  have 2: "instr cx IDIO_A_PUSH_VALUE [] t1 = (Inr (), t2)"
    using 1 by (simp add: instr_exec exec_def exec_stack_def with_val_def STACK_PUSH_def t2_def)
  have "holds t2 nt as b env1" using 1 by (simp add: t2_def)
  with c [unfolded acts_args_def, rule_format, OF this] vs obtain t3 p fr where 3: "c t2 = (Inr (), t3)" "vm_val t3 = V_pointer p"
      "vm_heap t3 p = Some (O_frame fr)" "p < vm_next t3" "p \<notin> set as" "fr_nparams fr = arity"
      "fr_args fr = replicate (arity - length fs) idio_S_undef @ vs @ [idio_S_nil]"
      "vm_stack t3 = vm_stack t2" "holds t3 nt as b env2"
    by auto
  let ?k = "arity - Suc (length fs)"
  define fr' where "fr' = fr\<lparr>fr_args := (fr_args fr)[?k := v]\<rparr>"
  define t4 where "t4 = t3\<lparr>vm_stack := vm_stack t, vm_heap := (vm_heap t3)(p \<mapsto> O_frame fr')\<rparr>"
  have ar: "arity - length fs = Suc ?k" using l by simp
  have k: "?k < length (fr_args fr)" unfolding 3(7) ar by simp
  have 4: "instr cx IDIO_A_POP_FRAME [?k] t3 = (Inr (), t4)"
    using 3(2,3,8) k l(2) by (simp add: instr_exec exec_def exec_frame_def pop_frame_def STACK_POP_def bind_vm_def with_val_def get_vm_def
        idio_frame_update_def ret_vm_def the_frame_def obj_at_def set_IDIO_FRAME_ARGS_def set_obj_def t4_def t2_def fr'_def)
  have args: "fr_args fr' = replicate ?k idio_S_undef @ (v # vs) @ [idio_S_nil]"
    unfolding fr'_def by (simp add: 3(7) ar list_update_append replicate_append_same [symmetric] del: replicate_append_same)
  have "holds t4 nt as b env2" by (rule holds_cong [OF 3(9)]) (use 3(5) in \<open>auto simp: t4_def\<close>)
  then show "\<exists>t' p f'. seq_vm a (seq_vm (instr cx IDIO_A_PUSH_VALUE []) (seq_vm c (instr cx IDIO_A_POP_FRAME [?k]))) t = (Inr (), t') \<and>
      vm_val t' = V_pointer p \<and> vm_heap t' p = Some (O_frame f') \<and> p < vm_next t' \<and> p \<notin> set as \<and> fr_nparams f' = arity \<and>
      fr_args f' = replicate (arity - length (f # fs)) idio_S_undef @ fst (args_sem (f # fs) env) @ [idio_S_nil] \<and>
      vm_stack t' = vm_stack t \<and> holds t' nt as b (snd (args_sem (f # fs) env))"
    using 3 4 args v vs
    by (intro exI [of _ t4] exI [of _ p] exI [of _ fr'])
      (simp add: seq_vm_Inr [of a t, OF 1(1)] seq_vm_Inr [of "instr cx IDIO_A_PUSH_VALUE []" t1, OF 2] seq_vm_Inr [of c t2, OF 3(1)],
       simp add: t4_def fr'_def)
qed

lemma acts_closed:
  assumes nt: "nt_ok nt" and a: "acts_args a nt fs (length ns)" and l: "length fs = length ns"
    and c: "acts c (idio_meaning_nametree_extend_params nt ns) g"
  shows "acts (seq_vm a (seq_vm (instr cx IDIO_A_LINK_FRAME [fci, sei]) (seq_vm c (instr cx IDIO_A_UNLINK_FRAME [])))) nt
    (closed_sem ns fs g)"
proof (rule actsI)
  fix t as b env assume h: "holds t nt as b env"
  obtain vs env1 where vs: "args_sem fs env = (vs, env1)" by fastforce
  have lv: "length vs = length ns" using length_args_sem [of fs env] vs l by simp
  obtain t1 p f where 1: "a t = (Inr (), t1)" "vm_val t1 = V_pointer p" "vm_heap t1 p = Some (O_frame f)" "p < vm_next t1"
      "p \<notin> set as" "fr_args f = vs @ [idio_S_nil]" "fr_nparams f = length ns" "vm_stack t1 = vm_stack t" "holds t1 nt as b env1"
    using a [unfolded acts_args_def, rule_format, OF h] vs l by auto
  let ?env = "(idio_S_false, idio_S_nil) # rev (zip ns vs) @ env1"
  obtain t2 where 2: "link_frame (vm_xi t1) fci sei t1 = (Inr (), t2)" "vm_stack t2 = vm_stack t1"
      "holds t2 (idio_meaning_nametree_extend_params nt ns) (p # as) b ?env"
    by (rule holds_link [OF nt 1(9,2-7) lv])
  have i2: "instr cx IDIO_A_LINK_FRAME [fci, sei] t1 = (Inr (), t2)"
    using 2(1) by (simp add: instr_exec exec_def exec_frame_def)
  obtain t3 where 3: "c t2 = (Inr (), t3)" "vm_val t3 = fst (g ?env)" "vm_stack t3 = vm_stack t2"
      "holds t3 (idio_meaning_nametree_extend_params nt ns) (p # as) b (snd (g ?env))"
    by (rule actsE [OF c 2(3)])
  obtain f' where 4: "the_frame (vm_frame t3) t3 = (Inr f', t3)"
      "holds (t3\<lparr>vm_frame := fr_next f'\<rparr>) nt as b (drop (Suc (length ns)) (snd (g ?env)))"
    using holds_unlink [OF nt _ 3(4) [unfolded idio_meaning_nametree_extend_params_def]] by auto
  have i4: "instr cx IDIO_A_UNLINK_FRAME [] t3 = (Inr (), t3\<lparr>vm_frame := fr_next f'\<rparr>)"
    using 4(1) by (simp add: instr_exec exec_def exec_frame_def with_frame_def bind_vm_def)
  show "\<exists>t'. seq_vm a (seq_vm (instr cx IDIO_A_LINK_FRAME [fci, sei]) (seq_vm c (instr cx IDIO_A_UNLINK_FRAME []))) t = (Inr (), t') \<and>
      vm_val t' = fst (closed_sem ns fs g env) \<and> vm_stack t' = vm_stack t \<and> holds t' nt as b (snd (closed_sem ns fs g env))"
    using i4 4(2) 3 2(2) 1(8) vs
    by (simp add: closed_sem_def split_def seq_vm_Inr [of a t, OF 1(1)]
        seq_vm_Inr [of "instr cx IDIO_A_LINK_FRAME [fci, sei]" t1, OF i2] seq_vm_Inr [of c t2, OF 3(1)])
qed

end
