(* ===== verification/Vm_Control.thy ===== *)
theory Vm_Control
  imports Compile_Correct
begin

text \<open>
  Control on the machine: calls of closures and their returns, escapers, continuations
  and the handling of conditions.
\<close>

section \<open>Calls\<close>

lemma invoke_closure_eq:
  "invoke_closure c tailp s = (Inr (), s\<lparr>vm_stack := vm_stack s @
      (if tailp then [] else [V_fixnum (int (vm_pc s)), V_fixnum (int (vm_xi s)), idio_SM_return]),
    vm_frame := cl_frame c, vm_env := cl_env c, vm_xi := cl_xi c, vm_pc := cl_code_pc c\<rparr>)"
  by (simp add: invoke_closure_def push_return_def del: push_n.simps)

lemma idio_vm_invoke_closure:
  "obj_at s v = Some (O_closure c) \<Longrightarrow> idio_vm_invoke cx v tailp s = invoke_closure c tailp s"
  by (cases v) (simp_all add: idio_vm_invoke_def obj_at_def)

lemma obj_at_pointer: "obj_at s v = Some ob \<Longrightarrow> \<exists>a. v = V_pointer a"
  by (cases v) (simp_all add: obj_at_def)

lemma isa_closure_function: "obj_at s v = Some (O_closure c) \<Longrightarrow> idio_isa_function s v"
  by (simp add: idio_isa_function_def idio_isa_closure_def)

section \<open>Escapers\<close>

text \<open>
  \<open>escapes st es\<close>: the escapers on the stack \<open>st\<close>, the innermost first, each with its
  label, the stack it was pushed on, its counter and its frame.
\<close>

inductive escapes :: "idio_value list \<Rightarrow> (idio_value \<times> idio_value list \<times> nat \<times> idio_value) list \<Rightarrow> bool" where
  empty: "escapes [] []"
| other: "escapes st es \<Longrightarrow> v \<noteq> idio_SM_escaper \<Longrightarrow> escapes (st @ [v]) es"
| escaper: "escapes st es \<Longrightarrow> fr \<noteq> idio_SM_escaper \<Longrightarrow> l \<noteq> idio_SM_escaper \<Longrightarrow>
    escapes (st @ [V_fixnum (int pc), fr, l, idio_SM_escaper]) ((l, st, pc, fr) # es)"

lemma find_from:
  assumes "2 \<le> sp \<or> sp = length stack" "sp \<le> length stack"
  shows "idio_vm_find_stack_marker stack mark (int sp - 1) = Inr (scan_down stack mark sp)"
proof (cases "2 \<le> sp")
  case True
  then have "Suc (nat (int sp - 1)) = sp" by linarith
  then show ?thesis using True assms(2) by (auto simp: idio_vm_find_stack_marker_def Let_def)
next
  case False
  then have l: "sp = length stack" "length stack \<le> 1" using assms by auto
  then show ?thesis by (cases stack) (simp_all add: idio_vm_find_stack_marker_def)
qed

lemma escaper_loop_step:
  assumes "2 \<le> sp \<or> sp = length stack" "sp \<le> length stack"
  shows "escaper_loop (Suc fuel) stack l (int sp) =
    (let m = scan_down stack idio_SM_escaper sp in
       if 0 \<le> m then bind_result (array_ref stack (m - 1)) (\<lambda>l'. if l' = l then Inr (Some m) else escaper_loop fuel stack l m)
       else Inr None)"
  by (simp add: find_from [OF assms] Let_def)

declare escaper_loop.simps(2) [simp del]

lemma scan_down_skip: "scan_down stack mark (Suc i) = (if stack ! i = mark then int i else scan_down stack mark i)"
  by simp

definition escape_found :: "idio_value list \<Rightarrow> (idio_value \<times> idio_value list \<times> nat \<times> idio_value) list \<Rightarrow> idio_value \<Rightarrow>
    int option \<Rightarrow> bool" where
  "escape_found stack es l r \<longleftrightarrow>
    (case map_of es l of None \<Rightarrow> r = None
     | Some (st, pc, fr) \<Rightarrow> r = Some (int (length st + 3)) \<and>
        (\<exists>ys. stack = st @ [V_fixnum (int pc), fr, l, idio_SM_escaper] @ ys))"

lemma escaper_loop_finds:
  "escapes st es \<Longrightarrow> length es < fuel \<Longrightarrow> length st \<le> sp \<Longrightarrow> sp \<le> length (st @ ys) \<Longrightarrow> 2 \<le> sp \<or> sp = length (st @ ys) \<Longrightarrow>
    scan_down (st @ ys) idio_SM_escaper sp = scan_down st idio_SM_escaper (length st) \<Longrightarrow>
    \<exists>r. escaper_loop fuel (st @ ys) l (int sp) = Inr r \<and> escape_found (st @ ys) es l r"
proof (induction arbitrary: fuel ys sp rule: escapes.induct)
  case empty
  then obtain f where "fuel = Suc f" by (cases fuel) auto
  then show ?case using empty escaper_loop_step [of sp ys f l] by (simp add: escape_found_def)
next
  case (other st es v)
  have "scan_down (st @ [v]) idio_SM_escaper (length (st @ [v])) = scan_down st idio_SM_escaper (length st)"
    using other.hyps(2) by (simp add: scan_down_snoc)
  then show ?case using other.IH [OF other.prems(1), of sp "v # ys"] other.prems by simp
next
  case (escaper st es fr l' pc)
  let ?e = "[V_fixnum (int pc), fr, l', idio_SM_escaper]" and ?n = "length st"
  let ?stack = "st @ ?e @ ys"
  obtain f where f: "fuel = Suc f" "length es < f" using escaper.prems(1) by (cases fuel) auto
  have "scan_down (st @ ?e) idio_SM_escaper (length (st @ ?e)) = int (?n + 3)"
    using scan_down_snoc [of "st @ [V_fixnum (int pc), fr, l']" idio_SM_escaper idio_SM_escaper] by simp
  then have m: "scan_down ?stack idio_SM_escaper sp = int (?n + 3)" using escaper.prems(5) by simp
  have n: "nat (int (?n + 3) - 1) = ?n + 2" by linarith
  have lab: "array_ref ?stack (int (?n + 3) - 1) = Inr l'"
    by (rule array_ref_eq) (simp_all only: n, simp_all add: nth_append)
  have step: "escaper_loop fuel ?stack l (int sp) =
      (if l' = l then Inr (Some (int (?n + 3))) else escaper_loop f ?stack l (int (?n + 3)))"
    unfolding f(1) using escaper.prems(2-4) lab
    by (subst escaper_loop_step) (auto simp only: m Let_def bind_result_simps length_append list.size if_True of_nat_0_le_iff)
  show ?case
  proof (cases "l' = l")
    case True
    then show ?thesis using step by (auto simp: escape_found_def)
  next
    case False
    have "?stack ! (?n + 2) \<noteq> idio_SM_escaper" "?stack ! (?n + 1) \<noteq> idio_SM_escaper" "?stack ! ?n \<noteq> idio_SM_escaper"
      using escaper.hyps by (simp_all add: nth_append)
    moreover have "?n + 3 = Suc (Suc (Suc ?n))" by simp
    ultimately have "scan_down ?stack idio_SM_escaper (?n + 3) = scan_down st idio_SM_escaper ?n"
      by (simp only: scan_down_skip if_False) (simp add: add.commute)
    then obtain r where "escaper_loop f ?stack l (int (?n + 3)) = Inr r" "escape_found ?stack es l r"
      using escaper.IH [OF f(2), of "?n + 3" "?e @ ys"] by auto
    then show ?thesis using step False by (auto simp: escape_found_def)
  qed
qed

lemma length_escapes: "escapes st es \<Longrightarrow> length es \<le> length st"
  by (induction rule: escapes.induct) auto

text \<open>The innermost escaper with the label is taken, with all that was pushed after it.\<close>

lemma escaper_label_ref_eq:
  assumes "escapes (vm_stack s) es"
  shows "idio_vm_escaper_label_ref l s =
    (case map_of es l of
       None \<Rightarrow> (Inl (Runtime_unbound_error (u64 (fixnum_of l))), s)
     | Some (st, pc, fr) \<Rightarrow> (Inr (), s\<lparr>vm_stack := st, vm_frame := fr, vm_pc := pc\<rparr>))"
proof -
  let ?st = "vm_stack s"
  obtain r where r: "escaper_loop (length ?st + 2) ?st l (int (length ?st)) = Inr r" "escape_found ?st es l r"
    using escaper_loop_finds [OF assms, of "length ?st + 2" "length ?st" "[]" l] length_escapes [OF assms] by auto
  show ?thesis
  proof (cases "map_of es l")
    case None
    then show ?thesis using r by (simp add: idio_vm_escaper_label_ref_def escape_found_def)
  next
    case (Some e)
    then obtain st pc fr ys where e: "e = (st, pc, fr)" "r = Some (int (length st + 3))"
      "?st = st @ [V_fixnum (int pc), fr, l, idio_SM_escaper] @ ys"
      using r(2) by (cases e) (auto simp: escape_found_def)
    have n: "nat (int (length st + 3) - 2) = length st + 1" "nat (int (length st + 3) - 3) = length st" by linarith+
    have a: "stack_ref (int (length st + 3) - 2) s = (Inr fr, s)"
      "stack_ref (int (length st + 3) - 3) (s\<lparr>vm_frame := fr\<rparr>) = (Inr (V_fixnum (int pc)), s\<lparr>vm_frame := fr\<rparr>)"
      unfolding stack_ref_def by (simp_all add: array_ref_eq n, simp_all add: e(3) nth_append)
    show ?thesis using r(1) a Some
      by (simp add: idio_vm_escaper_label_ref_def e bind_vm_Inr set_pc_def fixnum_of_def seq_vm_Inr)
  qed
qed

section \<open>Continuations\<close>

definition captured :: "vm \<Rightarrow> idio_continuation" where
  "captured s = \<lparr>k_xi = vm_xi s, k_pc = vm_pc s, k_stack = K_copy (vm_stack s), k_frame = vm_frame s,
    k_env = vm_env s, k_module = vm_module s, k_delimited = False\<rparr>"

lemma capture_eq:
  "idio_continuation False s = (Inr (V_pointer (vm_next s)),
    s\<lparr>vm_heap := (vm_heap s)(vm_next s \<mapsto> O_continuation (captured s)), vm_next := vm_next s + 4\<rparr>)"
  by (simp add: idio_continuation_def idio_gc_get_def captured_def)

text \<open>Reinstating a continuation gives back the thread as it was captured, with the value.\<close>

lemma reinstate_eq:
  assumes "obj_at u k = Some (O_continuation (captured s))"
  shows "idio_vm_restore_continuation_data k v u = (Inr (), u\<lparr>vm_pc := vm_pc s, vm_xi := vm_xi s,
    vm_stack := vm_stack s, vm_frame := vm_frame s, vm_env := vm_env s, vm_module := vm_module s, vm_val := v\<rparr>)"
proof -
  have "the_continuation k u = (Inr (captured s), u)" using assms by (simp add: the_continuation_def)
  then show ?thesis by (simp add: idio_vm_restore_continuation_data_def bind_vm_Inr captured_def)
qed

lemma delimited_eq:
  "\<exists>k. fst (idio_continuation True s) = Inr k \<and>
    fst (idio_vm_restore_continuation_data k v (snd (idio_continuation True s))) = Inl Segmentation_fault"
proof -
  let ?r = "idio_continuation True s"
  obtain k where k: "fst ?r = Inr (V_pointer (vm_next s))" "obj_at (snd ?r) (V_pointer (vm_next s)) = Some (O_continuation k)"
    "k_stack k = K_size (length (vm_stack s))" "\<not> k_delimited k"
    by (simp add: idio_continuation_def idio_gc_get_def obj_at_def)
  then have "the_continuation (V_pointer (vm_next s)) (snd ?r) = (Inr k, snd ?r)" by (simp add: the_continuation_def)
  then show ?thesis using k by (auto simp: idio_vm_restore_continuation_data_def bind_vm_Inr)
qed

section \<open>Conditions\<close>

text \<open>
  \<open>trap_chain st sp ts\<close>: the traps on the stack \<open>st\<close> from the one whose marker is at
  \<open>sp\<close>, each with the index of its condition type and its handler. The last one, that
  the thread starts with, is its own next.
\<close>

definition trap_at :: "idio_value list \<Rightarrow> int \<Rightarrow> int \<Rightarrow> int \<Rightarrow> idio_value \<Rightarrow> bool" where
  "trap_at st sp next gci h \<longleftrightarrow> 3 \<le> sp \<and> sp < int (length st) \<and>
    st ! nat (sp - 3) = V_fixnum next \<and> st ! nat (sp - 2) = V_fixnum gci \<and> st ! nat (sp - 1) = h"

inductive trap_chain :: "idio_value list \<Rightarrow> int \<Rightarrow> (int \<times> int \<times> idio_value) list \<Rightarrow> bool" for st where
  last: "trap_at st sp sp gci h \<Longrightarrow> trap_chain st sp [(sp, gci, h)]"
| more: "trap_at st sp sp' gci h \<Longrightarrow> sp' < sp \<Longrightarrow> trap_chain st sp' ts \<Longrightarrow> trap_chain st sp ((sp, gci, h) # ts)"

inductive_simps trap_chain_Cons: "trap_chain st sp (t # ts)"

text \<open>The type of a trap is not one the condition has, which is found without a change of the machine.\<close>

definition refuses :: "vm_ctx \<Rightarrow> vm \<Rightarrow> idio_value \<Rightarrow> int \<times> int \<times> idio_value \<Rightarrow> bool" where
  "refuses cx s c = (\<lambda>(sp, gci, h). trap_matches cx c (V_fixnum gci) s = (Inr False, s))"

lemma trap_chain_ge: "trap_chain st sp ts \<Longrightarrow> 3 \<le> sp \<and> sp < int (length st) \<and> int (length ts) \<le> sp"
  by (induction rule: trap_chain.induct) (auto simp: trap_at_def)

lemma trap_refs:
  assumes "trap_at (vm_stack s) sp next gci h"
  shows "stack_ref (sp - 1) s = (Inr h, s)" "stack_ref (sp - 2) s = (Inr (V_fixnum gci), s)"
    "stack_ref (sp - 3) s = (Inr (V_fixnum next), s)"
  using assms by (simp_all add: trap_at_def stack_ref_def)

lemma trap_loop_step:
  assumes "trap_at (vm_stack s) sp next gci h"
  shows "trap_matches cx c (V_fixnum gci) s = (Inr False, s) \<Longrightarrow> trap_loop (Suc fuel) cx c sp s =
      (if sp = next then (Inl (Vm_panic ''ivrc: no more TRAP handlers''), s) else trap_loop fuel cx c next s)"
    "trap_matches cx c (V_fixnum gci) s = (Inr True, s') \<Longrightarrow> trap_loop (Suc fuel) cx c sp s = (Inr sp, s')"
    "trap_matches cx c (V_fixnum gci) s = (Inl e, s') \<Longrightarrow> trap_loop (Suc fuel) cx c sp s = (Inl e, s')"
  using trap_refs [OF assms] by (simp_all add: bind_vm_Inr bind_vm_def [of "trap_matches cx c (V_fixnum gci)"] fixnum_of_def)

text \<open>The loop comes past the traps that refuse to the one behind them.\<close>

lemma trap_loop_past:
  "trap_chain (vm_stack s) sp (us @ vs) \<Longrightarrow> \<forall>t \<in> set us. refuses cx s c t \<Longrightarrow> vs \<noteq> [] \<Longrightarrow> length us \<le> fuel \<Longrightarrow>
    \<exists>sp'. trap_chain (vm_stack s) sp' vs \<and> trap_loop fuel cx c sp s = trap_loop (fuel - length us) cx c sp' s"
proof (induction us arbitrary: sp fuel)
  case (Cons t us)
  obtain f where f: "fuel = Suc f" "length us \<le> f" using Cons.prems(4) by (cases fuel) auto
  obtain tsp g h where t: "t = (tsp, g, h)" by (metis prod_cases3)
  have ne: "us @ vs \<noteq> []" using Cons.prems(3) by simp
  obtain nx where n: "tsp = sp" "trap_at (vm_stack s) sp nx g h" "nx < sp" "trap_chain (vm_stack s) nx (us @ vs)"
    using Cons.prems(1) ne unfolding t append_Cons trap_chain_Cons by auto
  have "trap_matches cx c (V_fixnum g) s = (Inr False, s)" using Cons.prems(2) by (simp add: refuses_def t)
  then have "trap_loop fuel cx c sp s = trap_loop f cx c nx s"
    using trap_loop_step(1) [OF n(2)] n(3) f(1) by (simp del: trap_loop.simps)
  then show ?case using Cons.IH [OF n(4) _ Cons.prems(3) f(2)] Cons.prems(2) f(1) by simp
qed auto

lemma trap_loop_ends:
  assumes "trap_chain (vm_stack s) sp (us @ (tsp, g, h) # vs)" "\<forall>t \<in> set us. refuses cx s c t" "length us < fuel"
  shows "trap_matches cx c (V_fixnum g) s = (Inr True, s') \<Longrightarrow> trap_loop fuel cx c sp s = (Inr tsp, s')"
    "trap_matches cx c (V_fixnum g) s = (Inl e, s') \<Longrightarrow> trap_loop fuel cx c sp s = (Inl e, s')"
    "trap_matches cx c (V_fixnum g) s = (Inr False, s) \<Longrightarrow> vs = [] \<Longrightarrow>
      trap_loop fuel cx c sp s = (Inl (Vm_panic ''ivrc: no more TRAP handlers''), s)"
proof -
  obtain sp' where p: "trap_chain (vm_stack s) sp' ((tsp, g, h) # vs)" "trap_loop fuel cx c sp s = trap_loop (fuel - length us) cx c sp' s"
    using trap_loop_past [OF assms(1,2) list.distinct(2) less_imp_le [OF assms(3)]] by blast
  obtain f where f: "fuel - length us = Suc f" using assms(3) by (metis Suc_diff_Suc)
  obtain nx where n: "tsp = sp'" "trap_at (vm_stack s) sp' nx g h" "vs = [] \<Longrightarrow> nx = sp'"
    using p(1) unfolding trap_chain_Cons by (auto elim: trap_chain.cases)
  show "trap_matches cx c (V_fixnum g) s = (Inr True, s') \<Longrightarrow> trap_loop fuel cx c sp s = (Inr tsp, s')"
    "trap_matches cx c (V_fixnum g) s = (Inl e, s') \<Longrightarrow> trap_loop fuel cx c sp s = (Inl e, s')"
    "trap_matches cx c (V_fixnum g) s = (Inr False, s) \<Longrightarrow> vs = [] \<Longrightarrow>
      trap_loop fuel cx c sp s = (Inl (Vm_panic ''ivrc: no more TRAP handlers''), s)"
    using trap_loop_step [OF n(2)] n(1,3) unfolding p(2) f by (simp_all del: trap_loop.simps)
qed

lemma trap_at_append: "trap_at st sp next gci h \<Longrightarrow> trap_at (st @ ys) sp next gci h"
  by (auto simp: trap_at_def nth_append)

lemma trap_chain_mem:
  "trap_chain st sp ts \<Longrightarrow> (tsp, g, h) \<in> set ts \<Longrightarrow> \<exists>n ts'. trap_at st tsp n g h \<and> trap_chain st n ts' \<and> set ts' \<subseteq> set ts"
proof (induction rule: trap_chain.induct)
  case (last sp gci h')
  then show ?case using trap_chain.last [OF last.hyps] by fastforce
next
  case (more sp sp' gci h' ts)
  then show ?case by fastforce
qed

lemma trap_chain_head: "trap_chain st sp ts \<Longrightarrow> \<exists>n g h. trap_at st sp n g h \<and> 3 \<le> n \<and> (sp, g, h) \<in> set ts"
  by (induction rule: trap_chain.induct) (auto dest: trap_chain_ge simp: trap_at_def)

lemma trap_chain_next:
  assumes "trap_chain st sp ts" "(tsp, g, h) \<in> set ts"
  obtains n nn g' h' where "trap_at st tsp n g h" "trap_at st n nn g' h'" "3 \<le> nn" "(n, g', h') \<in> set ts"
proof -
  obtain n ts' where n: "trap_at st tsp n g h" "trap_chain st n ts'" "set ts' \<subseteq> set ts"
    using trap_chain_mem [OF assms] by blast
  obtain nn g' h' where "trap_at st n nn g' h'" "3 \<le> nn" "(n, g', h') \<in> set ts'"
    using trap_chain_head [OF n(2)] by blast
  then show thesis using n that by blast
qed

definition condition_frame :: "idio_value \<Rightarrow> idio_frame" where
  "condition_frame c = \<lparr>fr_next = idio_S_nil, fr_nparams = 1, fr_args = [c, idio_S_nil], fr_xi = 0,
    fr_names = idio_S_nil, fr_func = idio_S_nil, fr_src_expr = - 1\<rparr>"

lemma idio_frame_1:
  "idio_frame idio_S_nil [c] s = (Inr (V_pointer (vm_next s)),
    s\<lparr>vm_heap := (vm_heap s)(vm_next s \<mapsto> O_frame (condition_frame c)), vm_next := vm_next s + 4\<rparr>)"
  by (simp add: idio_frame_def idio_frame_allocate_def idio_gc_get_def bind_vm_def the_frame_def obj_at_def set_obj_def
      seq_vm_def set_IDIO_FRAME_ARGS_def condition_frame_def)

lemma push_trap_eq:
  assumes "idio_isa_function s h" "1 \<le> nn"
  shows "idio_vm_push_trap h (V_fixnum g) nn s =
    (Inr (), s\<lparr>vm_stack := vm_stack s @ [V_fixnum nn, V_fixnum g, h, idio_SM_trap]\<rparr>)"
  using assms by (simp add: idio_vm_push_trap_def Let_def del: push_n.simps)

lemma repeat_trap_eq:
  assumes "trap_at (vm_stack s) tsp n g h" "trap_at (vm_stack s) n nn g' h'" "3 \<le> nn" "idio_isa_function s h'"
  shows "repeat_trap tsp s = (Inr (), s\<lparr>vm_stack := vm_stack s @ [V_fixnum nn, V_fixnum g', h', idio_SM_trap]\<rparr>)"
  using trap_refs [OF assms(1)] trap_refs [OF assms(2)] push_trap_eq [OF assms(4), of nn g'] assms(3)
  by (simp add: repeat_trap_def bind_vm_Inr fixnum_of_def Let_def)

text \<open>
  What a raised condition pushes: the return to its place, the saved registers, the trap
  next to the one found and the return to the prologue.
\<close>

definition handler_stack :: "vm \<Rightarrow> nat \<Rightarrow> int \<Rightarrow> int \<Rightarrow> idio_value \<Rightarrow> idio_value list" where
  "handler_stack s ret_pc nn g' h' = vm_stack s @
    [V_fixnum (int (vm_pc s)), V_fixnum (int (vm_xi s)), idio_SM_return] @
    [vm_frame s, vm_env s, idio_SM_preserve_state] @ [V_fixnum nn, V_fixnum g', h', idio_SM_trap] @
    [V_fixnum (int ret_pc), V_fixnum (int (vm_xi s)), idio_SM_return]"

definition handled_by :: "vm \<Rightarrow> idio_closure \<Rightarrow> idio_value \<Rightarrow> idio_value list \<Rightarrow> vm" where
  "handled_by s c condition st = s\<lparr>vm_stack := st, vm_val := V_pointer (vm_next s),
    vm_heap := (vm_heap s)(vm_next s \<mapsto> O_frame (condition_frame condition)), vm_next := vm_next s + 4,
    vm_frame := cl_frame c, vm_env := cl_env c, vm_xi := cl_xi c, vm_pc := cl_code_pc c\<rparr>"

text \<open>A condition whose trap cannot be found.\<close>

lemma raise_condition_fails:
  assumes "trap_chain (vm_stack s) (scan_down (vm_stack s) idio_SM_trap (length (vm_stack s))) ts"
    "\<And>fuel. length ts \<le> fuel \<Longrightarrow>
      trap_loop fuel cx condition (scan_down (vm_stack s) idio_SM_trap (length (vm_stack s))) s = (Inl e, s')"
  shows "idio_vm_raise_condition cx k condition False False s = (Inl e, s')"
proof -
  let ?sp = "scan_down (vm_stack s) idio_SM_trap (length (vm_stack s))"
  have "3 \<le> ?sp" "length ts \<le> length (vm_stack s) + length (vm_stack s) + 3" using trap_chain_ge [OF assms(1)] by auto
  then show ?thesis using assms(2)
    by (simp add: idio_vm_raise_condition_def bind_vm_Inr find_marker_eq bind_vm_def [of "trap_loop _ _ _ _"])
qed

lemma raise_condition_eq:
  assumes chain: "trap_chain (vm_stack s) (scan_down (vm_stack s) idio_SM_trap (length (vm_stack s))) ts"
    and funcs: "\<forall>(sp, g, h) \<in> set ts. idio_isa_function s h" and mem: "(tsp, g, h) \<in> set ts"
    and found: "\<And>fuel. length ts \<le> fuel \<Longrightarrow>
      trap_loop fuel cx condition (scan_down (vm_stack s) idio_SM_trap (length (vm_stack s))) s = (Inr tsp, s)"
    and closure: "obj_at s h = Some (O_closure c)" and fresh: "h \<noteq> V_pointer (vm_next s)"
  obtains nn g' h' where "idio_vm_raise_condition cx k condition False False s =
    (Inl Siglongjmp, handled_by s c condition
      (handler_stack s (if k = idio_S_true then idio_vm_CHR_pc else idio_vm_NCE_pc) nn g' h'))"
proof -
  let ?sp = "scan_down (vm_stack s) idio_SM_trap (length (vm_stack s))"
  let ?r = "[V_fixnum (int (vm_pc s)), V_fixnum (int (vm_xi s)), idio_SM_return]"
  let ?p = "[vm_frame s, vm_env s, idio_SM_preserve_state]"
  have sp: "3 \<le> ?sp" "length ts \<le> length (vm_stack s) + length (vm_stack s) + 3" using trap_chain_ge [OF chain] by auto
  obtain n nn g' h' where t: "trap_at (vm_stack s) tsp n g h" "trap_at (vm_stack s) n nn g' h'" "3 \<le> nn" "(n, g', h') \<in> set ts"
    by (rule trap_chain_next [OF chain mem])
  let ?s1 = "s\<lparr>vm_stack := vm_stack s @ ?r @ ?p\<rparr>"
  have loop: "trap_loop (length (vm_stack s) + length (vm_stack s) + 3) cx condition ?sp s = (Inr tsp, s)"
    using found sp(2) .
  have h: "stack_ref (tsp - 1) s = (Inr h, s)" by (rule trap_refs(1) [OF t(1)])
  have "repeat_trap tsp ?s1 = (Inr (), ?s1\<lparr>vm_stack := vm_stack ?s1 @ [V_fixnum nn, V_fixnum g', h', idio_SM_trap]\<rparr>)"
    using funcs t by (intro repeat_trap_eq [where n = n and g = g and h = h]) (auto intro: trap_at_append)
  then have rep: "repeat_trap tsp (s\<lparr>vm_stack := vm_stack s @ ?r @ ?p\<rparr>) =
      (Inr (), s\<lparr>vm_stack := vm_stack s @ ?r @ ?p @ [V_fixnum nn, V_fixnum g', h', idio_SM_trap]\<rparr>)" by simp
  have cl: "idio_isa_closure s h" using closure by (simp add: idio_isa_closure_def)
  obtain a where a: "h = V_pointer a" "vm_heap s a = Some (O_closure c)" "a \<noteq> vm_next s"
    using closure fresh by (cases h) (auto simp: obj_at_def)
  show thesis
  proof (rule that)
    show "idio_vm_raise_condition cx k condition False False s =
      (Inl Siglongjmp, handled_by s c condition
        (handler_stack s (if k = idio_S_true then idio_vm_CHR_pc else idio_vm_NCE_pc) nn g' h'))"
      using sp(1) loop h cl rep
      by (simp add: idio_vm_raise_condition_def bind_vm_Inr Let_def push_return_def return_code_def idio_frame_1
          set_val_def seq_vm_Inr idio_vm_invoke_closure [where c = c] invoke_closure_eq obj_at_def a
          handler_stack_def handled_by_def del: push_n.simps)
  qed
qed

text \<open>
  When the handler has returned to the prologue, the trap and the saved registers are
  taken off and the run goes on where the condition was raised, with the handler's value.
\<close>

definition prologue_at :: "vm \<Rightarrow> nat \<Rightarrow> bool" where
  "prologue_at s xi \<longleftrightarrow> xi < length (vm_xenvs s) \<and> prefix idio_codegen_code_prologue (xe_byte_code (vm_xenvs s ! xi))"

lemma prologue_code:
  assumes "prologue_at s (vm_xi s)"
  shows "code_at s idio_vm_CHR_pc (asm IDIO_A_POP_TRAP [] @ asm IDIO_A_RESTORE_STATE [] @ asm IDIO_A_RETURN [])"
proof -
  obtain post where p: "vm_xi s < length (vm_xenvs s)" "xe_byte_code (vm_xenvs s ! vm_xi s) = idio_codegen_code_prologue @ post"
    using assms by (auto simp: prologue_at_def prefix_def)
  have "idio_codegen_code_prologue @ post = [IDIO_I IDIO_A_FINISH, IDIO_I IDIO_A_NON_CONT_ERR] @
      (asm IDIO_A_POP_TRAP [] @ asm IDIO_A_RESTORE_STATE [] @ asm IDIO_A_RETURN []) @
      ([IDIO_I IDIO_A_POP_TRAP, IDIO_I IDIO_A_RESTORE_ALL_STATE, IDIO_I IDIO_A_RETURN] @ post)"
    by (simp add: idio_codegen_code_prologue_def IDIO_IA_PUSH1_def asm_def)
  moreover have "length [IDIO_I IDIO_A_FINISH, IDIO_I IDIO_A_NON_CONT_ERR] = idio_vm_CHR_pc" by (simp add: idio_vm_CHR_pc_def)
  ultimately show ?thesis using p unfolding code_at_def by metis
qed

lemma pop_four:
  "vm_stack s = st @ [x, y, z, mark] \<Longrightarrow> pop_binding mark msg s = (Inr (), s\<lparr>vm_stack := st\<rparr>)"
  by (simp add: pop_binding_def bind_STACK_POP [where st = "st @ [x, y, z]"]
      seq_STACK_POP [where st = "st @ [x, y]"] seq_STACK_POP [where st = "st @ [x]"] seq_STACK_POP [where st = st])

lemma pop_trap_eq:
  "vm_stack s = st @ [n, g, h, idio_SM_trap] \<Longrightarrow> idio_vm_pop_trap s = (Inr (), s\<lparr>vm_stack := st\<rparr>)"
  unfolding idio_vm_pop_trap_def by (rule pop_four)

lemma exec_simple:
  "exec cx xi IDIO_A_POP_TRAP [] = idio_vm_pop_trap"
  "exec cx xi IDIO_A_RESTORE_STATE [] = idio_vm_restore_state"
  "exec cx xi IDIO_A_RETURN [] = return_to"
  by (simp_all add: exec_def exec_trap_def exec_function_def)

lemma simple_instruction:
  assumes "op \<in> {IDIO_A_POP_TRAP, IDIO_A_RESTORE_STATE, IDIO_A_RETURN}" "code_at s (vm_pc s) (asm op [])"
    "exec cx (vm_xi s) op [] (s\<lparr>vm_pc := vm_pc s + 1\<rparr>) = (Inr (), s')"
  shows "vm_step cx s s'"
proof (rule step_instruction)
  show "instruction_ok op []" "op \<noteq> IDIO_A_FINISH" using assms(1) by (auto simp: instruction_ok_def)
  have "length (asm op []) = 1" by (simp add: asm_def)
  then show "exec cx (vm_xi s) op [] (s\<lparr>vm_pc := vm_pc s + length (asm op [])\<rparr>) = (Inr (), s')"
    using assms(3) by simp
qed (rule assms(2))

lemma env_ok_xi [simp]: "env_ok (vm_xi_update f s) env = env_ok s env"
  by (simp add: env_ok_def)

lemma code_at_upd [simp]:
  "code_at (vm_stack_update f s) pc bs = code_at s pc bs"
  "code_at (vm_env_update g s) pc bs = code_at s pc bs"
  "code_at (vm_frame_update h s) pc bs = code_at s pc bs"
  "code_at (vm_xi_update k (vm_stack_update f s)) pc bs = code_at (vm_xi_update k s) pc bs"
  by (simp_all add: code_at_def)

definition returnable :: "vm \<Rightarrow> nat \<Rightarrow> nat \<Rightarrow> bool" where
  "returnable u xi pc \<longleftrightarrow> xi < length (vm_xenvs u) \<and> xi < 2 ^ 64 \<and> pc \<le> length (xe_byte_code (vm_xenvs u ! xi))"

lemma handler_returns:
  assumes stack: "vm_stack u = handler_stack s idio_vm_CHR_pc nn g' h'"
    and code: "prologue_at u (vm_xi s)" "returnable u (vm_xi s) (vm_pc s)" and env: "env_ok u (vm_env s)"
  obtains w where "return_to u = (Inr (), w)"
    "vm_steps cx w (u\<lparr>vm_stack := vm_stack s, vm_xi := vm_xi s, vm_pc := vm_pc s, vm_frame := vm_frame s, vm_env := vm_env s\<rparr>)"
proof -
  let ?r = "[V_fixnum (int (vm_pc s)), V_fixnum (int (vm_xi s)), idio_SM_return]"
  let ?p = "[vm_frame s, vm_env s, idio_SM_preserve_state]"
  let ?t = "[V_fixnum nn, V_fixnum g', h', idio_SM_trap]"
  define w where "w = u\<lparr>vm_stack := ((vm_stack s @ ?r) @ ?p) @ ?t, vm_xi := vm_xi s, vm_pc := idio_vm_CHR_pc\<rparr>"
  have l: "idio_vm_CHR_pc \<le> length (xe_byte_code (vm_xenvs u ! vm_xi s))"
    using code(1) by (auto simp: prologue_at_def prefix_def idio_codegen_code_prologue_def IDIO_IA_PUSH1_def idio_vm_CHR_pc_def)
  have w: "return_to u = (Inr (), w)"
    unfolding w_def by (subst return_to_eq) (use stack l code in \<open>simp_all add: handler_stack_def returnable_def\<close>)
  have "prologue_at w (vm_xi w)" using code(1) by (simp add: w_def prologue_at_def)
  note c = code_at_append [OF prologue_code [OF this]]
  note d = code_at_append [OF conjunct2 [OF c]]
  let ?w1 = "w\<lparr>vm_pc := vm_pc w + 1, vm_stack := (vm_stack s @ ?r) @ ?p\<rparr>"
  let ?w2 = "?w1\<lparr>vm_pc := vm_pc ?w1 + 1, vm_stack := vm_stack s @ ?r, vm_env := vm_env s, vm_frame := vm_frame s\<rparr>"
  have one: "length (asm op []) = 1" if "op \<in> {IDIO_A_POP_TRAP, IDIO_A_RESTORE_STATE, IDIO_A_RETURN}" for op
    by (simp add: asm_def)
  have s1: "vm_step cx w ?w1"
  proof (rule simple_instruction [where op = IDIO_A_POP_TRAP])
    show "exec cx (vm_xi w) IDIO_A_POP_TRAP [] (w\<lparr>vm_pc := vm_pc w + 1\<rparr>) = (Inr (), ?w1)"
      unfolding exec_simple by (subst pop_trap_eq) (simp_all add: w_def)
  qed (use c in \<open>simp_all add: w_def\<close>)
  have s2: "vm_step cx ?w1 ?w2"
  proof (rule simple_instruction [where op = IDIO_A_RESTORE_STATE])
    show "exec cx (vm_xi ?w1) IDIO_A_RESTORE_STATE [] (?w1\<lparr>vm_pc := vm_pc ?w1 + 1\<rparr>) = (Inr (), ?w2)"
      unfolding exec_simple by (subst restore_state_eq [where st = "vm_stack s @ ?r"]) (use env in \<open>simp_all add: w_def\<close>)
  qed (use d one in \<open>simp_all add: w_def\<close>)
  have s3: "vm_step cx ?w2 (?w2\<lparr>vm_stack := vm_stack s, vm_xi := vm_xi s, vm_pc := vm_pc s\<rparr>)"
  proof (rule simple_instruction [where op = IDIO_A_RETURN])
    show "exec cx (vm_xi ?w2) IDIO_A_RETURN [] (?w2\<lparr>vm_pc := vm_pc ?w2 + 1\<rparr>) =
        (Inr (), ?w2\<lparr>vm_stack := vm_stack s, vm_xi := vm_xi s, vm_pc := vm_pc s\<rparr>)"
      unfolding exec_simple by (subst return_to_eq [where st = "vm_stack s"]) (use code in \<open>simp_all add: w_def returnable_def\<close>)
  qed (use d one in \<open>simp_all add: w_def\<close>)
  have e: "?w2\<lparr>vm_stack := vm_stack s, vm_xi := vm_xi s, vm_pc := vm_pc s\<rparr> =
      u\<lparr>vm_stack := vm_stack s, vm_xi := vm_xi s, vm_pc := vm_pc s, vm_frame := vm_frame s, vm_env := vm_env s\<rparr>"
    by (rule vm.equality) (simp_all add: w_def)
  have "vm_steps cx w (?w2\<lparr>vm_stack := vm_stack s, vm_xi := vm_xi s, vm_pc := vm_pc s\<rparr>)"
    by (rule vm_steps.some [OF s1 vm_steps.some [OF s2 vm_steps_one [OF s3]]])
  then show thesis unfolding e by (rule that [OF w])
qed

section \<open>Functions\<close>

lemma function_code_eq:
  assumes "length tf < 2 ^ 64"
  shows "function_code tf nci fci dsci sei =
    asm IDIO_A_CREATE_FUNCTION [length (jump IDIO_A_SHORT_GOTO IDIO_A_LONG_GOTO (length tf)), length tf,
      u64 nci, u64 fci, u64 dsci, u64 sei] @
    jump IDIO_A_SHORT_GOTO IDIO_A_LONG_GOTO (length tf) @ tf"
proof -
  have n: "u64 (int (length tf)) = length tf" using assms by (simp add: u64_def)
  have v: "idio_ia_compute_varuint k = IDIO_IA_PUSH1 k" if "k \<le> 10" for k
    using that varuint_length_1 [of k] by (simp add: IDIO_IA_PUSH1_def IDIO_IA_VARUINT_1BYTE_def)
  have g: "1 + length (idio_ia_compute_varuint (length tf)) \<le> 10"
    using varuint_length [of "length tf"] assms by simp
  show ?thesis
    using v [of 2] v [OF g]
    by (simp add: function_code_def Let_def jump_def asm_def IDIO_IA_PUSH_VARUINT_def n IDIO_IA_PUSH1_def
        flip: numeral_2_eq_2)
qed

definition created :: "vm \<Rightarrow> nat \<Rightarrow> nat \<Rightarrow> nat \<Rightarrow> nat \<Rightarrow> nat \<Rightarrow> nat \<Rightarrow> idio_closure" where
  "created s pc len nci fci dsci sei =
    (let cs = xe_cs (vm_xenvs s ! vm_xi s) in
      \<lparr>cl_xi = vm_xi s, cl_code_pc = pc, cl_code_len = len, cl_name = cs ! nci, cl_frame = vm_frame s,
       cl_env = vm_env s, cl_sigstr = cs ! fci, cl_docstr = cs ! dsci, cl_sei = sei\<rparr>)"

lemma constants_ref_eq:
  "xi < length (vm_xenvs s) \<Longrightarrow> ci < length (xe_cs (vm_xenvs s ! xi)) \<Longrightarrow>
    idio_vm_constants_ref xi ci s = (Inr (xe_cs (vm_xenvs s ! xi) ! ci), s)"
  by (simp add: idio_vm_constants_ref_def bind_vm_Inr [where m = "the_xenv xi"] the_xenv_def)

text \<open>
  The code of a function makes a closure whose counter is where the body stands, and
  goes on behind the body.
\<close>

lemma function_code_runs:
  fixes nci fci dsci sei :: nat and tf :: "byte list"
  defines "code \<equiv> function_code tf (int nci) (int fci) (int dsci) (int sei)"
  assumes len: "length tf < 2 ^ 64" and small: "nci < 2 ^ 64" "fci < 2 ^ 64" "dsci < 2 ^ 64" "sei < 2 ^ 64"
    and code: "code_at s (vm_pc s) code"
    and table: "\<forall>ci \<in> {nci, fci, dsci}. ci < length (xe_cs (vm_xenvs s ! vm_xi s))"
  shows "vm_steps cx s (s\<lparr>vm_heap := (vm_heap s)(vm_next s \<mapsto>
      O_closure (created s (vm_pc s + (length code - length tf)) (length tf) nci fci dsci sei)),
    vm_next := vm_next s + 4, vm_val := V_pointer (vm_next s), vm_pc := vm_pc s + length code\<rparr>)"
    "code_at s (vm_pc s + (length code - length tf)) tf"
proof -
  let ?j = "jump IDIO_A_SHORT_GOTO IDIO_A_LONG_GOTO (length tf)"
  let ?ns = "[length ?j, length tf, nci, fci, dsci, sei]"
  let ?c = "asm IDIO_A_CREATE_FUNCTION ?ns"
  have u: "u64 (int n) = n" if "n < 2 ^ 64" for n using that by (simp add: u64_def)
  have c: "code = ?c @ ?j @ tf" unfolding code_def function_code_eq [OF len] using small by (simp add: u)
  note p = code_at_append [OF code [unfolded c]]
  note q = code_at_append [OF conjunct2 [OF p]]
  have xi: "vm_xi s < length (vm_xenvs s)" using code by (simp add: code_at_def)
  let ?n = "vm_pc s + length ?c"
  let ?cl = "created s (?n + length ?j) (length tf) nci fci dsci sei"
  let ?t = "s\<lparr>vm_pc := ?n, vm_heap := (vm_heap s)(vm_next s \<mapsto> O_closure ?cl), vm_next := vm_next s + 4,
    vm_val := V_pointer (vm_next s)\<rparr>"
  have j: "length ?j \<le> 10" using varuint_length(2) [of "length tf"] by (simp add: jump_def IDIO_IA_PUSH1_def)
  have "vm_step cx s ?t"
  proof (rule step_instruction)
    show "instruction_ok IDIO_A_CREATE_FUNCTION ?ns" using j len small by (simp add: instruction_ok_def)
    show "exec cx (vm_xi s) IDIO_A_CREATE_FUNCTION ?ns (s\<lparr>vm_pc := vm_pc s + length ?c\<rparr>) = (Inr (), ?t)"
      using table xi
      by (simp add: exec_def exec_function_def create_function_def constants_ref_eq bind_vm_Inr val_from_def set_val_def
          idio_toplevel_closure_def idio_gc_get_def created_def Let_def)
  qed (use p in simp_all)
  moreover have "vm_steps cx ?t (?t\<lparr>vm_pc := ?n + length ?j + length tf\<rparr>)"
    using step_jump [of IDIO_A_SHORT_GOTO IDIO_A_LONG_GOTO "\<lambda>v. True" "length tf" ?t cx] len q
    by (simp add: jumps_def code_at_def)
  ultimately show "vm_steps cx s (s\<lparr>vm_heap := (vm_heap s)(vm_next s \<mapsto>
      O_closure (created s (vm_pc s + (length code - length tf)) (length tf) nci fci dsci sei)),
    vm_next := vm_next s + 4, vm_val := V_pointer (vm_next s), vm_pc := vm_pc s + length code\<rparr>)"
    unfolding c by (simp add: vm_steps.some add.assoc)
  show "code_at s (vm_pc s + (length code - length tf)) tf" using q unfolding c by (simp add: add.assoc)
qed

section \<open>Calls of primitives\<close>

text \<open>A primitive is called with fewer arguments than it takes: the frame is read beyond its end.\<close>

lemma too_few_arguments:
  assumes "obj_at s v = Some (O_primitive p)" "pr_arity p \<le> 5"
    "obj_at s (vm_val s) = Some (O_frame f)" "length (fr_args f) = fr_nparams f + 1" "fr_args f ! fr_nparams f = idio_S_nil"
    "fr_nparams f + 1 < pr_arity p"
  shows "fst (idio_vm_invoke cx v tailp s) = Inl Segmentation_fault"
proof -
  have few: "frame_arg_list f js s = (Inl Segmentation_fault, s)" if "\<exists>j \<in> set js. length (fr_args f) \<le> j" for js
    using that
  proof (induction js)
    case (Cons j js)
    then show ?case by (cases "length (fr_args f) \<le> j") (simp_all add: frame_arg_def bind_vm_Inl)
  qed simp
  have l: "frame_arg_list f [0..<pr_arity p] s = (Inl Segmentation_fault, s)"
    using assms(4,6) by (intro few bexI [where x = "length (fr_args f)"]) simp_all
  obtain a where a: "v = V_pointer a" using obj_at_pointer [OF assms(1)] by blast
  have "idio_isa_frame s (vm_val s)" using assms(3) by (simp add: idio_isa_frame_def)
  moreover have "the_frame (vm_val s) s = (Inr f, s)" using assms(3) by (simp add: the_frame_def)
  ultimately have "invoke_primitive cx p tailp s = (Inl Segmentation_fault, s)"
    using assms(2,4,5) by (simp add: invoke_primitive_def Let_def bind_vm_Inr frame_arg_def bind_vm_Inl [where m = "frame_arg_list f [0..<pr_arity p]" and s = s, OF l])
  then show ?thesis using assms(1) by (simp add: idio_vm_invoke_def a)
qed

section \<open>Runs that end\<close>

lemma run_loop_finish:
  assumes "code_at t (vm_pc t) (asm IDIO_A_FINISH [])"
  shows "idio_vm_run1 cx t = (Inr False, t\<lparr>vm_pc := vm_pc t + 1\<rparr>)"
proof -
  obtain pre post where c: "vm_xi t < length (vm_xenvs t)"
    "xe_byte_code (vm_xenvs t ! vm_xi t) = pre @ asm IDIO_A_FINISH [] @ post" "length pre = vm_pc t"
    using assms unfolding code_at_def by blast
  have l: "length (asm IDIO_A_FINISH []) = 1" by (simp add: asm_def)
  have "fetch (xe_byte_code (vm_xenvs t ! vm_xi t)) (vm_pc t) = Inr ((IDIO_A_FINISH, []), vm_pc t + 1)"
    unfolding c(2) c(3) [symmetric] using readsD [OF fetch_asm [of IDIO_A_FINISH "[]"], of pre post] l
    by (simp add: instruction_ok_def)
  moreover have "vm_pc t < length (xe_byte_code (vm_xenvs t ! vm_xi t))" using c(2,3) l by simp
  ultimately show ?thesis using c(1)
    by (simp add: idio_vm_run1_def bind_vm_Inr [where m = "the_xenv (vm_xi t)"] the_xenv_def Let_def seq_vm_Inr
        exec_def exec_function_def)
qed

lemma run_loop_steps:
  "vm_steps cx s t \<Longrightarrow> idio_vm_run1 cx t = (Inr False, u) \<Longrightarrow> \<exists>n. \<forall>fuel \<ge> n. run_loop fuel cx s = Some (Inr (), u)"
proof (induction rule: vm_steps.induct)
  case (none s)
  have "run_loop fuel cx s = Some (Inr (), u)" if "1 \<le> fuel" for fuel using that none by (cases fuel) auto
  then show ?case by blast
next
  case (some s s' s'')
  then obtain n where n: "\<And>fuel. n \<le> fuel \<Longrightarrow> run_loop fuel cx s' = Some (Inr (), u)" by blast
  have "run_loop fuel cx s = Some (Inr (), u)" if "n + 1 \<le> fuel" for fuel
    using that n some.hyps(1) by (cases fuel) (auto simp: vm_step_def)
  then show ?case by blast
qed

lemma compiled_code_finishes:
  assumes "runs cx cs bs a" "code_at s (vm_pc s) (bs @ asm IDIO_A_FINISH [])" "constants_at s cs"
    "a s = (Inr (), s')" "steady a"
  shows "\<exists>n. \<forall>fuel \<ge> n. run_loop fuel cx s = Some (Inr (), s'\<lparr>vm_pc := vm_pc s + length bs + 1\<rparr>)"
proof -
  note c = code_at_append [OF assms(2)]
  have "vm_steps cx s (s'\<lparr>vm_pc := vm_pc s + length bs\<rparr>)"
    using runsD [OF assms(1)] c assms(3,4) by blast
  moreover have "code_at s' (vm_pc s + length bs) (asm IDIO_A_FINISH [])"
    using code_at_kept [OF steadyD(1) [OF assms(5,4)]] c by blast
  ultimately show ?thesis
    using run_loop_steps [of cx s "s'\<lparr>vm_pc := vm_pc s + length bs\<rparr>"] run_loop_finish [of "s'\<lparr>vm_pc := vm_pc s + length bs\<rparr>" cx]
    by simp
qed

section \<open>A machine\<close>

text \<open>A machine with nothing on it, and no C function but one that adds one to its argument.\<close>

definition plain_ctx :: vm_ctx where
  "plain_ctx = \<lparr>cx_S_toplevel = V_pointer 4, cx_S_predef = V_pointer 8, cx_S_dynamic = V_pointer 12,
    cx_S_environ = V_pointer 16, cx_S_computed = V_pointer 28, cx_Idio_module = V_pointer 20, cx_operator_module = V_pointer 24,
    cx_split_name = (\<lambda>_. None), cx_primitive = (\<lambda>_ vs. case vs of V_fixnum i # _ \<Rightarrow> ret_vm (V_fixnum (i + 1)) | _ \<Rightarrow> fail_vm Segmentation_fault),
    cx_copy_deep = ret_vm, cx_path_expand = ret_vm, cx_command = ret_vm, cx_generic_proc = (\<lambda>_ _. None),
    cx_invoke_C = (\<lambda>_. fail_vm Segmentation_fault),
    cx_install_expander = (\<lambda>_ _ _. ret_vm ()), cx_install_infix_operator = (\<lambda>_ _ _ _. ret_vm ()),
    cx_install_postfix_operator = (\<lambda>_ _ _ _. ret_vm ()), cx_set_symbol_value = (\<lambda>_ _ _ _. ret_vm ()),
    cx_interactive = False\<rparr>"

definition plain_vm :: "byte list \<Rightarrow> idio_value list \<Rightarrow> vm" where
  "plain_vm bc cs = \<lparr>vm_xi = 0, vm_pc = 0, vm_stack = [], vm_val = idio_S_unspec, vm_frame = idio_S_nil,
    vm_env = idio_S_nil, vm_module = idio_S_nil, vm_func = idio_S_nil, vm_reg1 = idio_S_nil, vm_reg2 = idio_S_nil,
    vm_expr = idio_S_nil, vm_rcse = idio_S_false, vm_heap = (\<lambda>_. None), vm_next = 4,
    vm_xenvs = [\<lparr>xe_byte_code = bc, xe_st = [], xe_cs = cs, xe_ch = (\<lambda>_. None), xe_vt = array_of False (\<lambda>_. idio_S_undef) idio_S_undef [] 4\<rparr>],
    vm_modules = (\<lambda>_. None)\<rparr>"

definition plain_gx :: codegen_ctx where
  "plain_gx = \<lparr>cx_isa_pair = (\<lambda>_. False), cx_isa_symbol = (\<lambda>_. False), cx_S_scopes = [], cx_list_length = (\<lambda>_. 0), cx_src_properties = (\<lambda>_. None)\<rparr>"

definition plain_ee :: eenv where
  "plain_ee = \<lparr>ee_cs = [], ee_ch = (\<lambda>_. None), ee_ses = [], ee_sps = [], ee_byte_code = [], ee_pcs = []\<rparr>"

lemma plain_ee_ok [simp]: "constants_ok plain_ee"
  by (simp add: constants_ok_def plain_ee_def)

lemma plain_ctx_steady [simp]: "ctx_steady plain_ctx"
  by (simp add: ctx_steady_def plain_ctx_def steady split: list.split idio_value.split)

text \<open>The code of \<^verbatim>\<open>if #f 1 7\<close>.\<close>

definition sample :: icode where
  "sample = I_ALTERNATIVE idio_S_nil (I_CONSTANT_REF idio_S_false) (I_CONSTANT_REF (V_fixnum 1)) (I_CONSTANT_REF (V_fixnum 7))"

definition sample_code :: "byte list" where
  "sample_code = map IDIO_I [94, 22, 95, 35, 3, 81, 34, 2, 85, 7]"

definition sample_action :: "unit vmm" where
  "sample_action = seq_vm (ret_vm ()) (seq_vm
    (seq_vm (instr plain_ctx IDIO_A_SUPPRESS_RCSE [])
      (seq_vm (set_val idio_S_false) (seq_vm (instr plain_ctx IDIO_A_POP_RCSE []) (ret_vm ()))))
    (seq_vm (with_val (\<lambda>v. if v = idio_S_false then set_val (V_fixnum 7) else set_val (V_fixnum 1))) (ret_vm ())))"

lemma sample_straight [simp]: "straight sample"
  by (simp add: sample_def constant_ok_def value_ok_def in_fixnum_iff FIXNUM_bounds in_constant_def)

lemma sample_meaning [simp]: "meaning plain_ctx plain_gx sample plain_ee = Inr (sample_action, plain_ee)"
  by (simp add: sample_def src_m_def plain_gx_def does_def seq_m_def rcse_m_def choice_m_def set_constant_def ins_m_def
      sample_action_def)

lemma sample_compiles [simp]: "idio_codegen_compile plain_gx sample plain_ee = Inr (sample_code, plain_ee)"
  by (simp add: sample_def cg_alternative_def IDIO_CODEGEN_SRC_EXPR_def plain_gx_def rcse_def seq_cg_def emit_def
      cg_constant_def bind_cg_def IDIO_IA_PUSH1_def alternative_code_def jump_def IDIO_IA_VARUINT_1BYTE_def
      IDIO_IA_PUSH_VARUINT_def idio_ia_compute_varuint_def u64_def Let_def sample_code_def eval_nat_numeral)

lemma sample_runs [simp]:
  "sample_action (plain_vm bc cs) = (Inr (), (plain_vm bc cs)\<lparr>vm_val := V_fixnum 7\<rparr>)"
  by (simp add: sample_action_def instr_def exec_def exec_primcall_def set_val_def with_val_def plain_vm_def seq_vm_def
      bind_vm_def STACK_PUSH_def STACK_POP_def upd_vm_def get_vm_def ret_vm_def)

lemma plain_code_at [simp]: "code_at (plain_vm bc cs) 0 bs = prefix bs bc"
  by (auto simp: code_at_def plain_vm_def prefix_def)

lemma plain_constants_at [simp]: "constants_at (plain_vm bc cs) cs' = prefix cs' cs"
  by (simp add: constants_at_def plain_vm_def)

lemma plain_sel [simp]: "vm_pc (plain_vm bc cs) = 0" "ee_cs plain_ee = []" "length sample_code = 10"
  by (simp_all add: plain_vm_def plain_ee_def sample_code_def)

text \<open>
  A machine with two traps: the symbols 36 and 20 name the structure types 32 and 12 in the
  module 24; the inner trap is for the first, the outer for the second.
\<close>

definition trap_handler :: idio_closure where
  "trap_handler = created (plain_vm [] [idio_S_nil]) 9 1 0 0 0 0"

definition type_si :: "nat \<Rightarrow> symbol_info" where
  "type_si i = \<lparr>si_scope = cx_S_toplevel plain_ctx, si_xi = 0, si_si = 0, si_ci = 0, si_vi = int i, si_module = V_pointer 24, si_desc = []\<rparr>"

definition trap_vm :: "idio_value \<Rightarrow> vm" where
  "trap_vm v = (plain_vm [] [V_pointer 20, V_pointer 36])\<lparr>
    vm_xenvs := [\<lparr>xe_byte_code = [], xe_st = [], xe_cs = [V_pointer 20, V_pointer 36], xe_ch = (\<lambda>_. None),
      xe_vt = array_of False (\<lambda>_. idio_S_undef) idio_S_undef [idio_S_undef, V_pointer 12, v] 4\<rparr>],
    vm_env := V_pointer 24,
    vm_stack := [V_fixnum 3, V_fixnum 0, V_pointer 8, idio_SM_trap, V_fixnum 3, V_fixnum 1, V_pointer 8, idio_SM_trap],
    vm_heap := [8 \<mapsto> O_closure trap_handler, 12 \<mapsto> O_struct_type idio_S_nil, 16 \<mapsto> O_struct_instance (V_pointer 12),
      20 \<mapsto> O_typed T_symbol, 36 \<mapsto> O_typed T_symbol, 32 \<mapsto> O_struct_type (V_pointer 12),
      24 \<mapsto> O_module \<lparr>mo_symbols = [V_pointer 20 \<mapsto> V_pointer 28, V_pointer 36 \<mapsto> V_pointer 40], mo_imports = [], mo_exports = []\<rparr>,
      28 \<mapsto> O_si (type_si 1), 40 \<mapsto> O_si (type_si 2)],
    vm_next := 44\<rparr>"


lemmas trap_defs = bind_vm_def ret_vm_def obj_at_def lift_vm_def get_vm_def Let_def trap_vm_def plain_vm_def

lemma trap_vm_symbol:
  "idio_module_find_symbol_recurse plain_ctx (V_pointer 20) (V_pointer 24) 1 (trap_vm v) = (Inr (V_pointer 28), trap_vm v)"
  "idio_module_find_symbol_recurse plain_ctx (V_pointer 36) (V_pointer 24) 1 (trap_vm v) = (Inr (V_pointer 40), trap_vm v)"
  by (simp_all add: module_arg_def idio_module_find_symbol_recurse_def own_symbol_def the_module_def the_si_def found_in_def
     idio_isa_module_def trap_defs type_si_def)

lemma trap_vm_values:
  "idio_vm_values_ref plain_ctx 0 1 (trap_vm v) = (Inr (V_pointer 12), trap_vm v)"
  "v \<noteq> V_pointer 16 \<Longrightarrow> idio_vm_values_ref plain_ctx 0 2 (trap_vm v) = (Inr v, trap_vm v)"
  by (simp_all add: idio_vm_values_ref_def the_xenv_def is_struct_instance_def idio_array_ref_index_def array_of_def trap_defs plain_ctx_def split: if_splits)


lemma trap_vm_module: "module_arg (V_pointer 24) (trap_vm v) = (Inr (V_pointer 24), trap_vm v)"
  "the_si (V_pointer 28) (trap_vm v) = (Inr (type_si 1), trap_vm v)"
  "the_si (V_pointer 40) (trap_vm v) = (Inr (type_si 2), trap_vm v)"
  by (simp_all add: module_arg_def idio_isa_module_def the_si_def trap_defs)

lemma trap_vm_lookup:
  "idio_module_symbol_value_recurse plain_ctx (V_pointer 20) (V_pointer 24) None (trap_vm v) = (Inr (V_pointer 12), trap_vm v)"
  "v \<noteq> V_pointer 16 \<Longrightarrow>
    idio_module_symbol_value_recurse plain_ctx (V_pointer 36) (V_pointer 24) None (trap_vm v) = (Inr v, trap_vm v)"
  by (simp_all add: idio_module_symbol_value_recurse_def bind_vm_Inr trap_vm_symbol [simplified] trap_vm_module trap_vm_values [simplified] Let_def
    type_si_def u64_def)

lemma trap_vm_matches:
  "trap_matches plain_ctx (V_pointer 16) (V_fixnum 0) (trap_vm v) = (Inr True, trap_vm v)"
  "trap_matches plain_ctx (V_pointer 16) (V_fixnum 1) (trap_vm (V_pointer 32)) = (Inr False, trap_vm (V_pointer 32))"
  "trap_matches plain_ctx (V_pointer 16) (V_fixnum 1) (trap_vm (V_fixnum 5)) = (Inl (Process_exit 134), trap_vm (V_fixnum 5))"
proof -
  have c: "idio_vm_constants_ref 0 (u64 (fixnum_of (V_fixnum 0))) (trap_vm v) = (Inr (V_pointer 20), trap_vm v)"
    "idio_vm_constants_ref 0 (u64 (fixnum_of (V_fixnum 1))) (trap_vm v) = (Inr (V_pointer 36), trap_vm v)" for v
    by (simp_all add: idio_vm_constants_ref_def the_xenv_def array_ref_def fixnum_of_def u64_def trap_defs)
  have e: "vm_env (trap_vm v) = V_pointer 24" for v by (simp add: trap_vm_def)
  have i: "idio_struct_instance_isa (trap_vm v) (V_pointer 16) (V_pointer 12) = Inr True" for v
    by (simp add: idio_struct_instance_isa_def obj_at_def trap_vm_def eval_nat_numeral)
  have j: "idio_struct_instance_isa (trap_vm v) (V_pointer 16) (V_pointer 32) = Inr False" for v
    by (simp add: idio_struct_instance_isa_def obj_at_def trap_vm_def eval_nat_numeral)
  have t: "idio_isa_struct_type (trap_vm v) (V_pointer 12)" "idio_isa_struct_type (trap_vm v) (V_pointer 32)"
    "\<not> idio_isa_struct_type (trap_vm v) (V_fixnum 5)" for v
    by (simp_all add: idio_isa_struct_type_def obj_at_def trap_vm_def)
  show
    "trap_matches plain_ctx (V_pointer 16) (V_fixnum 0) (trap_vm v) = (Inr True, trap_vm v)"
    "trap_matches plain_ctx (V_pointer 16) (V_fixnum 1) (trap_vm (V_pointer 32)) = (Inr False, trap_vm (V_pointer 32))"
    "trap_matches plain_ctx (V_pointer 16) (V_fixnum 1) (trap_vm (V_fixnum 5)) = (Inl (Process_exit 134), trap_vm (V_fixnum 5))"
    by (simp_all add: trap_matches_def bind_vm_Inr c e trap_vm_lookup t i j)
qed

lemma trap_vm_chain:
  "trap_chain (vm_stack (trap_vm v)) (scan_down (vm_stack (trap_vm v)) idio_SM_trap (length (vm_stack (trap_vm v))))
    [(7, 1, V_pointer 8), (3, 0, V_pointer 8)]"
proof -
  have "trap_at (vm_stack (trap_vm v)) 7 3 1 (V_pointer 8)" "trap_at (vm_stack (trap_vm v)) 3 3 0 (V_pointer 8)"
    by (simp_all add: trap_at_def trap_vm_def eval_nat_numeral)
  then have "trap_chain (vm_stack (trap_vm v)) 7 [(7, 1, V_pointer 8), (3, 0, V_pointer 8)]"
    by (auto intro: trap_chain.intros)
  moreover have "scan_down (vm_stack (trap_vm v)) idio_SM_trap (length (vm_stack (trap_vm v))) = 7"
    by (simp add: trap_vm_def eval_nat_numeral)
  ultimately show ?thesis by simp
qed

lemma trap_vm_handler [simp]:
  "obj_at (trap_vm v) (V_pointer 8) = Some (O_closure trap_handler)" "vm_next (trap_vm v) = 44"
  "idio_isa_function (trap_vm v) (V_pointer 8)" "cl_code_pc trap_handler = 9"
  by (simp_all add: idio_isa_function_def idio_isa_closure_def obj_at_def trap_vm_def trap_handler_def created_def Let_def)

section \<open>Bindings, again\<close>

context binding_stack
begin

lemma find_innermost:
  assumes "vm_stack t = st @ binding mark st gvi v"
  shows "find_binding mark gvi t = (Inr (Some (int (length st + 3))), t)"
proof -
  have n: "nat (int (length st + 3) - 1) = length st + 2" by linarith
  have "array_ref (vm_stack t) (int (length st + 3) - 1) = Inr (V_fixnum (int gvi))"
    unfolding assms by (rule array_ref_eq) (simp_all only: n, simp_all add: nth_append binding_def)
  then show ?thesis
    using scan_binding [of st gvi v] by (simp add: find_binding_def assms fixnum_of_def)
qed

lemma set_innermost:
  assumes "vm_stack t = st @ binding mark st gvi v"
  shows "binding_set mark gvi v' t = (Inr (), t\<lparr>vm_stack := st @ binding mark st gvi v'\<rparr>)"
proof -
  have n: "nat (int (length st + 3) - 2) = length st + 1" by linarith
  have "(vm_stack t)[nat (int (length st + 3) - 2) := v'] = st @ binding mark st gvi v'"
    unfolding assms n by (simp add: binding_def list_update_append)
  then show ?thesis using find_innermost [OF assms] by (simp add: binding_set_def bind_vm_Inr)
qed

text \<open>The variable is bound to the value, the others as before, until the binding is taken off.\<close>

lemma bound:
  assumes "binds mark (vm_stack s) bs" "v \<noteq> mark" "v \<noteq> idio_S_undef"
    and t: "t = s\<lparr>vm_stack := vm_stack s @ binding mark (vm_stack s) gvi v\<rparr>"
  shows "binds mark (vm_stack t) ((gvi, v) # bs)" "binding_ref cx mark unbound gvi d t = (Inr v, t)"
    "pop_binding mark msg t = (Inr (), s)"
proof -
  show b: "binds mark (vm_stack t) ((gvi, v) # bs)" using binds.bind [OF assms(1,2)] by (simp add: t)
  show "binding_ref cx mark unbound gvi d t = (Inr v, t)" by (rule ref_bound [OF b]) (simp_all add: assms)
  show "pop_binding mark msg t = (Inr (), s)" using pop_eq [of t "vm_stack s"] by (simp add: t)
qed

lemma shadows:
  assumes "binds mark (vm_stack s) bs" "v \<noteq> mark" "v \<noteq> idio_S_undef" "v' \<noteq> mark" "v' \<noteq> idio_S_undef"
  shows "\<exists>t. push_binding mark gvi v s = (Inr (), t) \<and> vm_stack t = vm_stack s @ binding mark (vm_stack s) gvi v \<and>
    binds mark (vm_stack t) ((gvi, v) # bs) \<and> binding_ref cx mark (unbound gvi) gvi d t = (Inr v, t) \<and>
    (\<forall>g w. g \<noteq> gvi \<longrightarrow> map_of bs g = Some w \<longrightarrow> w \<noteq> idio_S_undef \<longrightarrow> binding_ref cx mark (unbound g) g d t = (Inr w, t)) \<and>
    (\<exists>t'. binding_set mark gvi v' t = (Inr (), t') \<and> binding_ref cx mark (unbound gvi) gvi d t' = (Inr v', t') \<and>
      pop_binding mark msg t' = (Inr (), s)) \<and>
    pop_binding mark msg t = (Inr (), s)"
proof -
  let ?t = "\<lambda>v. s\<lparr>vm_stack := vm_stack s @ binding mark (vm_stack s) gvi v\<rparr>"
  have "binding_set mark gvi v' (?t v) = (Inr (), ?t v')" using set_innermost [of "?t v" "vm_stack s"] by simp
  moreover note bound [OF assms(1-3) refl, where gvi = gvi] bound [OF assms(1,4,5) refl, where gvi = gvi]
  moreover have "binding_ref cx mark (unbound g) g d (?t v) = (Inr w, ?t v)"
    if "g \<noteq> gvi" "map_of bs g = Some w" "w \<noteq> idio_S_undef" for g w
    using that by (intro ref_bound [OF bound(1) [OF assms(1-3) refl]]) simp_all
  ultimately show ?thesis by (intro exI [of _ "?t v"]) (auto simp: push_eq)
qed

end

lemma binding_other:
  assumes "binds mark st bs" "mark \<noteq> mark'" "mark' \<noteq> idio_S_nil" "v \<noteq> mark" "\<forall>i. mark \<noteq> V_fixnum i"
  shows "binds mark (st @ binding mark' st gvi v) bs"
  using assms by (intro binds_append) (auto simp: binding_def)

end
