(* ===== verification/Vm_Pure.thy ===== *)
theory Vm_Pure
  imports Vm_Steady
begin

text \<open>
  Code that calls no C function does the same on every machine: a run on the
  machine whose C functions all fail, that does not fail, is a run on the machine with any others.
\<close>

definition without_C :: "vm_ctx \<Rightarrow> vm_ctx" where
  "without_C cx = cx\<lparr>cx_primitive := (\<lambda>_ _. fail_vm Diverges), cx_copy_deep := (\<lambda>_. fail_vm Diverges),
    cx_path_expand := (\<lambda>_. fail_vm Diverges), cx_command := (\<lambda>_. fail_vm Diverges), cx_invoke_C := (\<lambda>_. fail_vm Diverges),
    cx_install_expander := (\<lambda>_ _ _. fail_vm Diverges), cx_install_infix_operator := (\<lambda>_ _ _ _. fail_vm Diverges),
    cx_install_postfix_operator := (\<lambda>_ _ _ _. fail_vm Diverges), cx_set_symbol_value := (\<lambda>_ _ _ _. fail_vm Diverges)\<rparr>"

lemma without_C_steady: "ctx_steady (without_C cx)"
  by (simp add: without_C_def ctx_steady_def steady_fail)

lemma without_C_fields [simp]:
  "cx_S_toplevel (without_C cx) = cx_S_toplevel cx" "cx_S_predef (without_C cx) = cx_S_predef cx"
  "cx_S_dynamic (without_C cx) = cx_S_dynamic cx" "cx_S_environ (without_C cx) = cx_S_environ cx"
  "cx_S_computed (without_C cx) = cx_S_computed cx" "cx_Idio_module (without_C cx) = cx_Idio_module cx"
  "cx_operator_module (without_C cx) = cx_operator_module cx" "cx_split_name (without_C cx) = cx_split_name cx"
  "cx_generic_proc (without_C cx) = cx_generic_proc cx" "cx_interactive (without_C cx) = cx_interactive cx"
  by (simp_all add: without_C_def)

lemma without_C_calls [simp]:
  "cx_primitive (without_C cx) f as = fail_vm Diverges" "cx_copy_deep (without_C cx) v = fail_vm Diverges"
  "cx_path_expand (without_C cx) v = fail_vm Diverges" "cx_command (without_C cx) v = fail_vm Diverges"
  "cx_invoke_C (without_C cx) as = fail_vm Diverges" "cx_install_expander (without_C cx) xi x v = fail_vm Diverges"
  "cx_install_infix_operator (without_C cx) xi x v n = fail_vm Diverges"
  "cx_install_postfix_operator (without_C cx) xi x v n = fail_vm Diverges"
  "cx_set_symbol_value (without_C cx) xi x v m = fail_vm Diverges"
  by (simp_all add: without_C_def)

section \<open>The same or a failure\<close>

definition below :: "'a vmm \<Rightarrow> 'a vmm \<Rightarrow> bool" where
  "below m m' \<longleftrightarrow> (\<forall>s. m s = m' s \<or> fst (m s) = Inl Diverges)"

named_theorems below

lemma below_refl [below]: "below m m"
  by (simp add: below_def)

lemma below_fail [below]: "below (fail_vm Diverges) m"
  by (simp add: below_def fail_vm_def)

lemma below_bind [below]:
  assumes "below m m'" "\<And>x. below (f x) (f' x)"
  shows "below (bind_vm m f) (bind_vm m' f')"
  unfolding below_def
proof
  fix s
  show "bind_vm m f s = bind_vm m' f' s \<or> fst (bind_vm m f s) = Inl Diverges"
  proof (cases "m s = m' s")
    case True
    obtain r t where r: "m' s = (r, t)" by fastforce
    show ?thesis
    proof (cases r)
      case (Inr x)
      have "f x t = f' x t \<or> fst (f x t) = Inl Diverges" using assms(2) unfolding below_def by blast
      then show ?thesis using True r Inr by (simp add: bind_vm_def)
    qed (use True r in \<open>simp add: bind_vm_def\<close>)
  next
    case False
    then have "fst (m s) = Inl Diverges" using assms(1) unfolding below_def by blast
    then show ?thesis by (cases "m s") (simp add: bind_vm_def)
  qed
qed

lemma below_seq [below]: "below m m' \<Longrightarrow> below n n' \<Longrightarrow> below (seq_vm m n) (seq_vm m' n')"
  unfolding seq_vm_def by (rule below_bind)

lemma below_look [below]: "(\<And>s. below (f s) (f' s)) \<Longrightarrow> below (look_vm f) (look_vm f')"
  by (simp add: below_def)

lemma below_if [below]: "below m m' \<Longrightarrow> below n n' \<Longrightarrow> below (if b then m else n) (if b then m' else n')"
  by simp

lemma below_option [below]:
  "below m m' \<Longrightarrow> (\<And>x. below (f x) (f' x)) \<Longrightarrow>
    below (case v of None \<Rightarrow> m | Some x \<Rightarrow> f x) (case v of None \<Rightarrow> m' | Some x \<Rightarrow> f' x)"
  by (cases v) simp_all

lemma below_obj [below]:
  "(\<And>x. below (f1 x) (g1 x)) \<Longrightarrow> (\<And>x. below (f2 x) (g2 x)) \<Longrightarrow> (\<And>x. below (f3 x) (g3 x)) \<Longrightarrow>
    (\<And>x y. below (f4 x y) (g4 x y)) \<Longrightarrow> (\<And>x. below (f5 x) (g5 x)) \<Longrightarrow> (\<And>x. below (f6 x) (g6 x)) \<Longrightarrow>
    (\<And>x. below (f7 x) (g7 x)) \<Longrightarrow> (\<And>x. below (f8 x) (g8 x)) \<Longrightarrow> (\<And>x. below (f9 x) (g9 x)) \<Longrightarrow>
    (\<And>x. below (f10 x) (g10 x)) \<Longrightarrow>
    below (case ob of O_frame x \<Rightarrow> f1 x | O_closure x \<Rightarrow> f2 x | O_primitive x \<Rightarrow> f3 x | O_pair x y \<Rightarrow> f4 x y
      | O_si x \<Rightarrow> f5 x | O_module x \<Rightarrow> f6 x | O_continuation x \<Rightarrow> f7 x | O_struct_type x \<Rightarrow> f9 x
      | O_struct_instance x \<Rightarrow> f10 x | O_typed x \<Rightarrow> f8 x)
     (case ob of O_frame x \<Rightarrow> g1 x | O_closure x \<Rightarrow> g2 x | O_primitive x \<Rightarrow> g3 x | O_pair x y \<Rightarrow> g4 x y
      | O_si x \<Rightarrow> g5 x | O_module x \<Rightarrow> g6 x | O_continuation x \<Rightarrow> g7 x | O_struct_type x \<Rightarrow> g9 x
      | O_struct_instance x \<Rightarrow> g10 x | O_typed x \<Rightarrow> g8 x)"
  by (cases ob) simp_all

lemma below_pointer [below]:
  "(\<And>p. below (f p) (f' p)) \<Longrightarrow>
    below (case v of V_pointer p \<Rightarrow> f p | _ \<Rightarrow> m) (case v of V_pointer p \<Rightarrow> f' p | _ \<Rightarrow> m)"
  by (cases v) (simp_all add: below_refl)

lemma below_values [below]:
  "below m m' \<Longrightarrow> below (val_from m) (val_from m')" "(\<And>v. below (f v) (f' v)) \<Longrightarrow> below (with_val f) (with_val f')"
  by (auto simp: val_from_def with_val_def intro!: below)

section \<open>The tables\<close>

lemma import_loop_same: "import_loop (without_C cx) x mo si ims = import_loop cx x mo si ims"
proof (induction ims)
  case (Cons im ims)
  show ?case by (simp only: import_loop.simps Cons idio_module_find_symbol_recurse_imports_def without_C_fields)
qed (simp only: import_loop.simps)

lemma find_symbol_same:
  "idio_module_find_symbol_recurse (without_C cx) x mo r = idio_module_find_symbol_recurse cx x mo r"
  "idio_module_find_symbol (without_C cx) x mo = idio_module_find_symbol cx x mo"
proof -
  show f: "idio_module_find_symbol_recurse (without_C cx) x mo r = idio_module_find_symbol_recurse cx x mo r" for r
    by (simp only: idio_module_find_symbol_recurse_def found_in_def idio_module_direct_reference_def import_loop_same
        without_C_fields)
  show "idio_module_find_symbol (without_C cx) x mo = idio_module_find_symbol cx x mo"
    by (simp only: idio_module_find_symbol_def f)
qed

lemma iref_same:
  "idio_S_si (without_C cx) = idio_S_si cx"
  "idio_vm_iref (without_C cx) = idio_vm_iref cx"
  "idio_vm_iset_val (without_C cx) = idio_vm_iset_val cx"
  "sym_def (without_C cx) = sym_def cx"
  "computed_sym_def (without_C cx) = computed_sym_def cx"
  "idio_vm_restore_all_state (without_C cx) = idio_vm_restore_all_state cx"
proof -
  show si: "idio_S_si (without_C cx) = idio_S_si cx" by (intro ext) (simp only: idio_S_si_def)
  show iref: "idio_vm_iref (without_C cx) = idio_vm_iref cx"
    by (intro ext) (simp only: idio_vm_iref_def find_symbol_same without_C_fields si)
  show "idio_vm_iset_val (without_C cx) = idio_vm_iset_val cx"
    by (intro ext) (simp only: idio_vm_iset_val_def find_symbol_same without_C_fields iref)
  show "sym_def (without_C cx) = sym_def cx"
    by (intro ext) (simp only: sym_def_def find_symbol_same without_C_fields si)
  show "computed_sym_def (without_C cx) = computed_sym_def cx"
    by (intro ext) (simp only: computed_sym_def_def find_symbol_same without_C_fields si)
  show "idio_vm_restore_all_state (without_C cx) = idio_vm_restore_all_state cx"
    by (simp only: idio_vm_restore_all_state_def invokable_def without_C_fields)
qed

lemma below_values_ref [below]:
  "below (idio_vm_values_ref (without_C cx) xi vi) (idio_vm_values_ref cx xi vi)"
  unfolding idio_vm_values_ref_def without_C_calls by (intro below)

lemma below_gref [below]: "below (idio_vm_values_gref (without_C cx) xi vi) (idio_vm_values_gref cx xi vi)"
  unfolding idio_vm_values_gref_def by (intro below)

lemma below_binding_ref [below]:
  "below (idio_vm_dynamic_ref (without_C cx) gvi d) (idio_vm_dynamic_ref cx gvi d)"
  "below (idio_vm_environ_ref (without_C cx) gvi d) (idio_vm_environ_ref cx gvi d)"
  unfolding idio_vm_dynamic_ref_def idio_vm_environ_ref_def binding_ref_def by (intro below)+

section \<open>The instructions\<close>

lemma below_iref_val [below]: "below (idio_vm_iref_val (without_C cx) xi si u) (idio_vm_iref_val cx xi si u)"
  unfolding idio_vm_iref_val_def iref_same by (intro below)

lemma below_computed [below]:
  "below (idio_vm_computed_iref (without_C cx) gns) (idio_vm_computed_iref cx gns)"
  "below (idio_vm_computed_iset (without_C cx) gns v) (idio_vm_computed_iset cx gns v)"
  unfolding idio_vm_computed_iref_def idio_vm_computed_iset_def without_C_calls by (intro below)+

lemma below_constant_ref [below]: "below (constant_ref (without_C cx) c) (constant_ref cx c)"
  unfolding constant_ref_def without_C_calls
  by (intro below)

lemma below_symbol [below]:
  "below (val_set (without_C cx) xi vi) (val_set cx xi vi)"
  "below (exec_symbol (without_C cx) xi ins ns) (exec_symbol cx xi ins ns)"
  "below (exec_predefined (without_C cx) xi ins ns) (exec_predefined cx xi ins ns)"
proof -
  show v: "below (val_set (without_C cx) xi vi) (val_set cx xi vi)" for vi
    unfolding val_set_def Let_def by (intro below)
  show "below (exec_symbol (without_C cx) xi ins ns) (exec_symbol cx xi ins ns)"
    unfolding exec_symbol_def iref_same by (intro below v)
  show "below (exec_predefined (without_C cx) xi ins ns) (exec_predefined cx xi ins ns)"
    unfolding exec_predefined_def by (intro below)
qed

lemma below_invoke_primitive [below]: "below (invoke_primitive (without_C cx) p tailp) (invoke_primitive cx p tailp)"
  unfolding invoke_primitive_def Let_def without_C_calls by (intro below)

lemma below_invoke_loop [below]: "below (invoke_loop n (without_C cx) f tailp) (invoke_loop n cx f tailp)"
proof (induction n arbitrary: f)
  case (Suc n)
  show ?case
    unfolding invoke_loop.simps without_C_calls without_C_fields
    by (intro below Suc)
qed (simp add: below)

lemma below_exec_function [below]:
  "below (idio_vm_invoke (without_C cx) f tailp) (idio_vm_invoke cx f tailp)"
  "below (exec_function (without_C cx) xi ins ns) (exec_function cx xi ins ns)"
proof -
  show i: "below (idio_vm_invoke (without_C cx) f tailp) (idio_vm_invoke cx f tailp)" for f tailp
    unfolding idio_vm_invoke_def by (intro below)
  show "below (exec_function (without_C cx) xi ins ns) (exec_function cx xi ins ns)"
    unfolding exec_function_def iref_same by (intro below i)
qed

lemma below_primcall [below]: "below (primcall (without_C cx) xi si args) (primcall cx xi si args)"
  unfolding primcall_def without_C_calls by (intro below)

lemma below_exec_primcall [below]: "below (exec_primcall (without_C cx) xi ins ns) (exec_primcall cx xi ins ns)"
  unfolding exec_primcall_def by (intro below)

lemma below_exec_expander [below]: "below (exec_expander (without_C cx) xi ins ns) (exec_expander cx xi ins ns)"
  unfolding exec_expander_def expander_def operator_def iref_same find_symbol_same without_C_calls without_C_fields
  by (intro below)

lemma below_exec_binding [below]: "below (exec_binding (without_C cx) xi ins ns) (exec_binding cx xi ins ns)"
  unfolding exec_binding_def iref_same by (intro below)

lemma below_run1: "below (idio_vm_run1 (without_C cx)) (idio_vm_run1 cx)"
proof -
  have "below (exec (without_C cx) xi ins ns) (exec cx xi ins ns)" for xi ins ns
    unfolding exec_def by (intro below)
  then show ?thesis unfolding idio_vm_run1_def Let_def by (auto intro!: below split: prod.split)
qed

lemma run_without_C:
  assumes "run_loop n (without_C cx) s = Some (Inr (), t)"
  shows "run_loop n cx s = Some (Inr (), t)"
  using assms
proof (induction n arbitrary: s)
  case (Suc n)
  have b: "idio_vm_run1 (without_C cx) s = idio_vm_run1 cx s \<or> fst (idio_vm_run1 (without_C cx) s) = Inl Diverges"
    using below_run1 [of cx] unfolding below_def by blast
  show ?case
  proof (cases "idio_vm_run1 (without_C cx) s = idio_vm_run1 cx s")
    case True
    then show ?thesis using Suc by (auto split: prod.splits sum.splits bool.splits if_splits)
  next
    case False
    then obtain s' where "idio_vm_run1 (without_C cx) s = (Inl Diverges, s')" using b by (metis prod.collapse)
    then show ?thesis using Suc.prems by simp
  qed
qed simp

end
