(* ===== verification/Meaning_Correct.thy ===== *)
theory Meaning_Correct
  imports Meaning_Run Vm_Control Vm_Pure
begin

text \<open>
  The evaluator's code for the forms whose names are all in scope: it is made, it has a
  meaning and it does what the forms mean.
\<close>

section \<open>Code with a meaning\<close>

text \<open>\<open>yields m P\<close>: the code has a meaning in every environment, and its action satisfies \<open>P\<close>.\<close>

definition yields :: "meaning \<Rightarrow> (unit vmm \<Rightarrow> bool) \<Rightarrow> bool" where
  "yields m P \<longleftrightarrow> (\<forall>ee. \<exists>a ee'. m ee = Inr (a, ee') \<and> P a)"

named_theorems yields

lemma yieldsD: "yields m P \<Longrightarrow> \<exists>a ee'. m ee = Inr (a, ee') \<and> P a"
  by (simp add: yields_def)

lemma yields_mono: "yields m P \<Longrightarrow> (\<And>a. P a \<Longrightarrow> Q a) \<Longrightarrow> yields m Q"
  unfolding yields_def by blast

lemma yields_does [yields]: "P a \<Longrightarrow> yields (does a) P"
  by (simp add: yields_def does_def)

lemma yields_ins [yields]: "P (instr cx op (map u64 ns)) \<Longrightarrow> yields (ins_m cx op ns) P"
  unfolding ins_m_def by (rule yields_does)

lemma yields_seq:
  assumes "yields m P" "yields n Q" "\<And>a c. P a \<Longrightarrow> Q c \<Longrightarrow> R (seq_vm a c)"
  shows "yields (seq_m m n) R"
  unfolding yields_def
proof
  fix ee
  obtain a ee' where a: "m ee = Inr (a, ee')" "P a" using yieldsD [OF assms(1)] by blast
  obtain c ee'' where c: "n ee' = Inr (c, ee'')" "Q c" using yieldsD [OF assms(2)] by blast
  show "\<exists>a ee'. seq_m m n ee = Inr (a, ee') \<and> R a" using a c assms(3) by (simp add: seq_m_def)
qed

text \<open>An instruction, or a note of the source, and what follows.\<close>

lemma yields_ins_seq:
  assumes "yields n Q"
  shows "yields (seq_m (ins_m cx op ns) n) (\<lambda>a. \<exists>b. a = seq_vm (instr cx op (map u64 ns)) b \<and> Q b)"
  by (rule yields_seq [OF yields_ins [where P = "\<lambda>a. a = instr cx op (map u64 ns)"] assms]) auto

lemma yields_seq_ins:
  assumes "yields n Q"
  shows "yields (seq_m n (ins_m cx op ns)) (\<lambda>a. \<exists>b. a = seq_vm b (instr cx op (map u64 ns)) \<and> Q b)"
  by (rule yields_seq [OF assms yields_ins [where P = "\<lambda>a. a = instr cx op (map u64 ns)"]]) auto

lemma yields_index [yields]:
  "(\<And>ci. yields (f ci) P) \<Longrightarrow> yields (constant_m v f) P"
  "(\<And>sei. yields (f sei) P) \<Longrightarrow> yields (src_expr_m gx src f) P"
  by (auto simp: yields_def constant_m_def src_expr_m_def split: prod.splits)

lemma yields_src: "yields (src_m cx gx e) quiet"
  unfolding src_m_def by (auto intro!: yields quiet_src quiet_ret)

lemma yields_src_seq:
  assumes "yields n Q"
  shows "yields (seq_m (src_m cx gx e) n) (\<lambda>a. \<exists>q b. a = seq_vm q b \<and> quiet q \<and> Q b)"
  by (rule yields_seq [OF yields_src assms]) auto

lemma seq_vm_ret [simp]: "seq_vm a (ret_vm ()) = (a :: unit vmm)"
  by (rule ext) (auto simp: seq_vm_def bind_vm_def ret_vm_def split: prod.splits sum.splits)

lemma seq_m_nothing [simp]: "seq_m m (does (ret_vm ())) = m"
proof (rule ext)
  fix ee show "seq_m m (does (ret_vm ())) ee = m ee"
    by (cases "m ee") (auto simp: seq_m_def does_def)
qed

abbreviation coded :: "meaning \<Rightarrow> nametree \<Rightarrow> sem \<Rightarrow> bool" where
  "coded m nt f \<equiv> yields m (\<lambda>a. acts a nt f)"

lemma codes_rcse: "coded m nt f \<Longrightarrow> coded (rcse_m cx b m) nt f"
proof (cases b)
  case True
  assume m: "coded m nt f"
  have "yields (seq_m m (ins_m cx IDIO_A_POP_RCSE [])) (\<lambda>a. acts (seq_vm (instr cx IDIO_A_SUPPRESS_RCSE []) a) nt f)"
    by (rule yields_seq [OF m yields_ins [of "\<lambda>c. c = instr cx IDIO_A_POP_RCSE []"]]) (auto intro: acts_rcse)
  then have "coded (seq_m (ins_m cx IDIO_A_SUPPRESS_RCSE []) (seq_m m (ins_m cx IDIO_A_POP_RCSE []))) nt f"
    by (rule yields_seq [OF yields_ins [of "\<lambda>c. c = instr cx IDIO_A_SUPPRESS_RCSE []"], rotated]) auto
  then show ?thesis using True by (simp add: rcse_m_def)
qed (simp add: rcse_m_def)

lemma stops_begin [simp]: "stops K_begin = (\<lambda>_. False)"
  by (rule ext) (simp add: stops_def)

lemma seq_sem_single [simp]: "seq_sem stop [f] = f"
  by (rule ext) (simp split: prod.split)

lemma codes_cong: "coded m nt f \<Longrightarrow> (\<And>env. f env = g env) \<Longrightarrow> coded m nt g"
  by (metis ext)

lemma codes_seqs:
  "list_all2 (\<lambda>m f. coded m nt f) ms fs \<Longrightarrow> fs \<noteq> [] \<Longrightarrow> coded (seqs_m ms) nt (seq_sem (stops K_begin) fs)"
proof (induction rule: list_all2_induct)
  case (Cons m ms f fs)
  show ?case
  proof (cases "fs = []")
    case True
    then have "ms = []" using Cons.hyps by simp
    then show ?thesis using Cons.hyps True by simp
  next
    case False
    have "coded (seq_m m (seqs_m ms)) nt (\<lambda>env. case f env of (v, env) \<Rightarrow> seq_sem (stops K_begin) fs env)"
      by (rule yields_seq [OF Cons.hyps(1) Cons.IH [OF False]]) (rule acts_then)
    then show ?thesis unfolding seqs_m.simps
      by (rule codes_cong) (simp add: False)
  qed
qed simp

lemma codes_chain:
  "list_all2 (\<lambda>m f. coded m nt f) ms fs \<Longrightarrow>
    yields (chain_m stop ms) (\<lambda>c. \<forall>a f. acts a nt f \<longrightarrow> acts (seq_vm a c) nt (seq_sem stop (f # fs)))"
proof (induction rule: list_all2_induct)
  case Nil
  show ?case unfolding chain_m.simps by (rule yields_does) (simp only: seq_vm_ret seq_sem_single, blast)
next
  case (Cons m ms f fs)
  show ?case
    unfolding yields_def
  proof
    fix ee
    obtain a ee' where a: "m ee = Inr (a, ee')" "acts a nt f" using yieldsD [OF Cons.hyps(1)] by blast
    obtain c ee'' where c: "chain_m stop ms ee' = Inr (c, ee'')"
      "\<And>a f. acts a nt f \<Longrightarrow> acts (seq_vm a c) nt (seq_sem stop (f # fs))"
      using yieldsD [OF Cons.IH] by blast
    have ac: "acts (seq_vm a c) nt (seq_sem stop (f # fs))" using c(2) a(2) .
    have "acts (seq_vm a0 (with_val (\<lambda>v. if stop v then ret_vm () else seq_vm a c))) nt (seq_sem stop (f0 # f # fs))"
      if a0: "acts a0 nt f0" for a0 f0
    proof -
      have "acts (seq_vm a0 (with_val (\<lambda>v. if stop v then ret_vm () else seq_vm a c))) nt
          (\<lambda>env. case f0 env of (v, env) \<Rightarrow> if stop v then (v, env) else seq_sem stop (f # fs) env)"
        by (rule acts_bind [OF a0]) (auto simp: with_val_def elim: actsE [OF ac])
      moreover have "(\<lambda>env. case f0 env of (v, env) \<Rightarrow> if stop v then (v, env) else seq_sem stop (f # fs) env) =
          seq_sem stop (f0 # f # fs)"
        by (rule ext) simp
      ultimately show ?thesis by metis
    qed
    then show "\<exists>a ee'. chain_m stop (m # ms) ee = Inr (a, ee') \<and>
        (\<forall>a0 f0. acts a0 nt f0 \<longrightarrow> acts (seq_vm a0 a) nt (seq_sem stop (f0 # f # fs)))"
      using a(1) c(1) by simp
  qed
qed

lemma codes_clauses:
  "list_all2 (\<lambda>m f. coded m nt f) ms fs \<Longrightarrow> list_all2 (\<lambda>m f. coded m nt f) (clauses_m cx tailp ms) fs"
  by (induction rule: list_all2_induct) (auto intro: codes_rcse)

lemma codes_and_or:
  assumes "coded m nt f" "list_all2 (\<lambda>m f. coded m nt f) ms fs"
  shows "coded (and_or_m cx stop tailp m ms) nt (seq_sem stop (f # fs))"
  unfolding and_or_m_def
  by (rule yields_seq [OF codes_rcse [OF assms(1)] codes_chain [OF codes_clauses [OF assms(2)]]]) blast

lemma codes_choice:
  assumes "coded m nt f" "coded m2 nt g" "coded m3 nt h"
  shows "coded (seqs_m [src_m cx gx src, rcse_m cx True m, choice_m m2 m3]) nt (if_sem f g h)"
proof -
  have "yields (choice_m m2 m3) (\<lambda>c. \<exists>a2 a3. c = with_val (\<lambda>v. if v = idio_S_false then a3 else a2) \<and> acts a2 nt g \<and> acts a3 nt h)"
    unfolding yields_def choice_m_def
  proof
    fix ee
    obtain a ee' where a: "m2 ee = Inr (a, ee')" "acts a nt g" using yieldsD [OF assms(2)] by blast
    obtain c ee'' where c: "m3 ee' = Inr (c, ee'')" "acts c nt h" using yieldsD [OF assms(3)] by blast
    show "\<exists>c ee'. bind_result (m2 ee) (\<lambda>(a2, ee). bind_result (m3 ee) (\<lambda>(a3, ee).
        Inr (with_val (\<lambda>v. if v = idio_S_false then a3 else a2), ee))) = Inr (c, ee') \<and>
        (\<exists>a2 a3. c = with_val (\<lambda>v. if v = idio_S_false then a3 else a2) \<and> acts a2 nt g \<and> acts a3 nt h)"
      using a c by auto
  qed
  then have "coded (seq_m (rcse_m cx True m) (choice_m m2 m3)) nt (if_sem f g h)"
    unfolding if_sem_def by (rule yields_seq [OF codes_rcse [OF assms(1)]]) (auto intro: acts_choice)
  then have "coded (seq_m (src_m cx gx src) (seq_m (rcse_m cx True m) (choice_m m2 m3))) nt (if_sem f g h)"
    by (rule yields_seq [OF yields_src]) (rule acts_quiet)
  then show ?thesis by simp
qed

section \<open>The evaluator's lists\<close>

text \<open>The evaluator only makes new objects; lists that were made stay.\<close>

definition alloc_only :: "vm \<Rightarrow> vm \<Rightarrow> bool" where
  "alloc_only s s' \<longleftrightarrow> vm_next s \<le> vm_next s' \<and> (\<forall>p < vm_next s. vm_heap s' p = vm_heap s p)"

lemma alloc_only_refl [simp]: "alloc_only s s"
  by (simp add: alloc_only_def)

lemma alloc_only_trans [trans]: "alloc_only s t \<Longrightarrow> alloc_only t u \<Longrightarrow> alloc_only s u"
  unfolding alloc_only_def by (metis order.strict_trans2 order.trans)

fun list_at :: "vm \<Rightarrow> idio_value \<Rightarrow> idio_value list \<Rightarrow> bool" where
  "list_at s v [] \<longleftrightarrow> v = idio_S_nil"
| "list_at s v (x # xs) \<longleftrightarrow> (\<exists>p t. v = V_pointer p \<and> p < vm_next s \<and> vm_heap s p = Some (O_pair x t) \<and> list_at s t xs)"

lemma list_at_alloc: "list_at s v xs \<Longrightarrow> alloc_only s t \<Longrightarrow> list_at t v xs"
  by (induction xs arbitrary: v) (fastforce simp: alloc_only_def)+

lemma idio_list_at:
  obtains v s' where "idio_list xs idio_S_nil s = (Inr v, s')" "alloc_only s s'" "list_at s' v xs"
proof (induction xs arbitrary: thesis)
  case Nil
  then show ?case by (simp add: ret_vm_def)
next
  case (Cons x xs)
  obtain t s1 where 1: "idio_list xs idio_S_nil s = (Inr t, s1)" "alloc_only s s1" "list_at s1 t xs" by (rule Cons.IH)
  define s2 where "s2 = s1\<lparr>vm_heap := (vm_heap s1)(vm_next s1 \<mapsto> O_pair x t), vm_next := vm_next s1 + 4\<rparr>"
  have a: "alloc_only s1 s2" by (simp add: alloc_only_def s2_def)
  have "idio_list (x # xs) idio_S_nil s = (Inr (V_pointer (vm_next s1)), s2)"
    by (simp add: bind_vm_def 1(1) idio_pair_def idio_gc_get_def s2_def)
  moreover have "list_at s2 (V_pointer (vm_next s1)) (x # xs)"
    using list_at_alloc [OF 1(3) a] by (simp add: s2_def)
  ultimately show ?case using Cons.prems alloc_only_trans [OF 1(2) a] by blast
qed

text \<open>The code generator finds the lengths of the lists there are.\<close>

definition reads_lists :: "codegen_ctx \<Rightarrow> vm \<Rightarrow> bool" where
  "reads_lists gx u \<longleftrightarrow> (\<forall>v xs. list_at u v xs \<longrightarrow> cx_list_length gx v = length xs)"

text \<open>Code that does what the form means, with the lists of the state \<open>s\<close> or of a later one.\<close>

definition means :: "vm_ctx \<Rightarrow> vm \<Rightarrow> nametree \<Rightarrow> icode \<Rightarrow> sem \<Rightarrow> bool" where
  "means cx s nt c f \<longleftrightarrow> straight c \<and>
    (\<forall>gx u. alloc_only s u \<longrightarrow> reads_lists gx u \<longrightarrow> coded (meaning cx gx c) nt f)"

lemma means_later: "means cx s nt c f \<Longrightarrow> alloc_only s t \<Longrightarrow> means cx t nt c f"
  unfolding means_def by (meson alloc_only_trans)

lemma meansI:
  "straight c \<Longrightarrow> (\<And>gx u. alloc_only s u \<Longrightarrow> reads_lists gx u \<Longrightarrow> coded (meaning cx gx c) nt f) \<Longrightarrow> means cx s nt c f"
  unfolding means_def by blast

lemma means_straight [simp]: "means cx s nt c f \<Longrightarrow> straight c"
  and means_codes: "means cx s nt c f \<Longrightarrow> alloc_only s u \<Longrightarrow> reads_lists gx u \<Longrightarrow> coded (meaning cx gx c) nt f"
  unfolding means_def by blast+

text \<open>\<open>emits cx nt e f\<close>: the evaluator gives the form code that does what it means, and keeps the environment.\<close>

definition emits :: "vm_ctx \<Rightarrow> nametree \<Rightarrow> sub_meaning \<Rightarrow> sem \<Rightarrow> bool" where
  "emits cx nt e f \<longleftrightarrow> (\<forall>src fl me s. \<not> fl_tailp fl \<longrightarrow>
    (\<exists>c s'. e src nt fl me s = (Inr (c, me), s') \<and> alloc_only s s' \<and> means cx s' nt c f))"

lemma emitsI:
  "(\<And>src fl me s. \<not> fl_tailp fl \<Longrightarrow> \<exists>c s'. e src nt fl me s = (Inr (c, me), s') \<and> alloc_only s s' \<and> means cx s' nt c f) \<Longrightarrow>
    emits cx nt e f"
  unfolding emits_def by blast

lemma emitsE:
  assumes "emits cx nt e f" "\<not> fl_tailp fl"
  obtains c s' where "e src nt fl me s = (Inr (c, me), s')" "alloc_only s s'" "means cx s' nt c f"
  using assms unfolding emits_def by blast

lemma bind_mm_Inr: "f me s = (Inr (x, me'), s') \<Longrightarrow> bind_mm f g me s = g x me' s'"
  by (simp add: bind_mm_def bind_vm_def)

lemma ret_mm_run [simp]: "ret_mm x me s = (Inr (x, me), s)"
  by (simp add: ret_mm_def)

lemma vm_mm_Inr: "f s = (Inr x, s') \<Longrightarrow> vm_mm f me s = (Inr (x, me), s')"
  by (simp add: vm_mm_def bind_vm_def)

lemma tail_flags [simp]:
  "\<not> fl_tailp (NOT_TAILP fl)" "fl_tailp (SET_SCOPE sc fl) = fl_tailp fl" "\<not> fl_tailp (NO_DEFINE (NOT_TAILP (SET_SCOPE sc fl)))"
  by (simp_all add: NOT_TAILP_def SET_SCOPE_def NO_DEFINE_def SET_TAILP_def MEANING_FLAG_NONE_def)

section \<open>The forms with parts\<close>

lemma emits_quotation: "plain_constant v \<Longrightarrow> emits cx nt (\<lambda>src nt fl. idio_meaning_quotation v) (Pair v)"
  by (rule emitsI)
    (auto simp: idio_meaning_quotation_def plain_constant_def constant_ok_def split: idio_value.splits
      intro!: meansI yields_does acts_constant)

lemma emits_not:
  assumes "emits cx nt e f"
  shows "emits cx nt (\<lambda>src. idio_meaning_not (h src) e) (not_sem f)"
proof (rule emitsI)
  fix src fl me s assume t: "\<not> fl_tailp (fl :: mflags)"
  obtain c s' where c: "e (h src) nt (NOT_TAILP fl) me s = (Inr (c, me), s')" "alloc_only s s'" "means cx s' nt c f"
    by (rule emitsE [OF assms]) auto
  have "means cx s' nt (I_NOT (fl_tailp fl) c) (not_sem f)"
  proof (rule meansI)
    fix gx u assume u: "alloc_only s' u" "reads_lists gx u"
    have "coded (seq_m (rcse_m cx (\<not> fl_tailp fl) (meaning cx gx c)) (ins_m cx IDIO_A_NOT [])) nt (not_sem f)"
      by (rule yields_seq [OF codes_rcse [OF means_codes [OF c(3) u]] yields_ins [of "\<lambda>c. c = instr cx IDIO_A_NOT []"]])
        (auto intro: acts_not)
    then show "coded (meaning cx gx (I_NOT (fl_tailp fl) c)) nt (not_sem f)" by simp
  qed (use c(3) in simp)
  then show "\<exists>c s'. idio_meaning_not (h src) e nt fl me s = (Inr (c, me), s') \<and> alloc_only s s' \<and> means cx s' nt c (not_sem f)"
    using c(2) by (simp add: idio_meaning_not_def bind_mm_def bind_vm_def c(1))
qed

lemma emits_alternative:
  assumes "emits cx nt e1 f" "emits cx nt e2 g" "emits cx nt e3 h"
  shows "emits cx nt (\<lambda>src. idio_meaning_alternative (k src) e1 e2 e3) (if_sem f g h)"
proof (rule emitsI)
  fix src fl me s assume t: "\<not> fl_tailp (fl :: mflags)"
  obtain c1 s1 where 1: "e1 (k src) nt (NOT_TAILP fl) me s = (Inr (c1, me), s1)" "alloc_only s s1" "means cx s1 nt c1 f"
    by (rule emitsE [OF assms(1)]) auto
  obtain c2 s2 where 2: "e2 (k src) nt fl me s1 = (Inr (c2, me), s2)" "alloc_only s1 s2" "means cx s2 nt c2 g"
    by (rule emitsE [OF assms(2) t])
  obtain c3 s3 where 3: "e3 (k src) nt fl me s2 = (Inr (c3, me), s3)" "alloc_only s2 s3" "means cx s3 nt c3 h"
    by (rule emitsE [OF assms(3) t])
  have m: "means cx s3 nt c1 f" "means cx s3 nt c2 g"
    using means_later 1(3) 2 3 alloc_only_trans by metis+
  have "means cx s3 nt (I_ALTERNATIVE (k src) c1 c2 c3) (if_sem f g h)"
    by (rule meansI) (use m 3(3) in \<open>auto simp del: seqs_m.simps intro!: codes_choice means_codes\<close>)
  moreover have "alloc_only s s3" using 1(2) 2(2) 3(2) alloc_only_trans by metis
  ultimately show "\<exists>c s'. idio_meaning_alternative (k src) e1 e2 e3 nt fl me s = (Inr (c, me), s') \<and> alloc_only s s' \<and>
      means cx s' nt c (if_sem f g h)"
    by (simp add: idio_meaning_alternative_def bind_mm_def bind_vm_def 1(1) 2(1) 3(1))
qed

section \<open>Sequences\<close>

lemma means_list_later: "list_all2 (means cx s nt) cs fs \<Longrightarrow> alloc_only s t \<Longrightarrow> list_all2 (means cx t nt) cs fs"
  by (erule list_all2_mono) (rule means_later)

lemma sequence_loop_emits:
  assumes "list_all2 (emits cx nt) es fs" "\<not> fl_tailp fl"
  obtains cs s' where "sequence_loop src es nt fl me s = (Inr (cs, me), s')" "alloc_only s s'" "list_all2 (means cx s' nt) cs fs"
  using assms(1)
proof (induction arbitrary: s thesis rule: list_all2_induct)
  case (Cons e es f fs)
  obtain c s1 where 1: "e src nt (if es = [] then fl else NOT_TAILP fl) me s = (Inr (c, me), s1)" "alloc_only s s1" "means cx s1 nt c f"
    by (rule emitsE [OF Cons.hyps(1), of "if es = [] then fl else NOT_TAILP fl" src me s]) (use assms(2) in auto)
  obtain cs s2 where 2: "sequence_loop src es nt fl me s1 = (Inr (cs, me), s2)" "alloc_only s1 s2" "list_all2 (means cx s2 nt) cs fs"
    by (rule Cons.IH)
  have "list_all2 (means cx s2 nt) (c # cs) (f # fs)" using means_later [OF 1(3) 2(2)] 2(3) by simp
  then show ?case using Cons.prems alloc_only_trans [OF 1(2) 2(2)] by (simp add: bind_mm_def bind_vm_def 1(1) 2(1))
qed simp

lemma stops_and: "stops K_and = (\<lambda>v. v = idio_S_false)"
  and stops_or: "stops K_or = (\<lambda>v. v \<noteq> idio_S_false)"
  by (rule ext, simp add: stops_def)+

lemma means_list_codes:
  "list_all2 (means cx s nt) cs fs \<Longrightarrow> alloc_only s u \<Longrightarrow> reads_lists gx u \<Longrightarrow>
    list_all2 (\<lambda>m f. coded m nt f) (map (meaning cx gx) cs) fs"
  by (simp add: list_all2_map1) (erule list_all2_mono, rule means_codes)

lemma means_list_straight: "list_all2 (means cx s nt) cs fs \<Longrightarrow> list_all straight cs"
  by (induction rule: list_all2_induct) auto

lemma means_sequence:
  assumes "list_all2 (means cx s nt) cs fs" "fs \<noteq> []"
  shows "means cx s nt (sequence_code k False cs) (seq_sem (stops k) fs)"
proof -
  obtain c cs' f fs' where e: "cs = c # cs'" "fs = f # fs'" using assms by (cases fs; cases cs) auto
  have c: "means cx s nt c f" and l: "list_all2 (means cx s nt) cs' fs'" using assms(1) e by simp_all
  show ?thesis
  proof (rule meansI)
    show "straight (sequence_code k False cs)"
      using means_list_straight [OF assms(1)] e by (simp add: sequence_code_def list_all_iff split: sequence_keyword.split)
    fix gx u assume u: "alloc_only s u" "reads_lists gx u"
    show "coded (meaning cx gx (sequence_code k False cs)) nt (seq_sem (stops k) fs)"
    proof (cases k)
      case K_begin
      then show ?thesis using codes_seqs [OF means_list_codes [OF assms(1) u] assms(2)] e by (simp add: sequence_code_def if_m_def)
    qed (use codes_and_or [OF means_codes [OF c u] means_list_codes [OF l u]] e in
          \<open>simp_all add: sequence_code_def stops_and stops_or\<close>)
  qed
qed

lemma emits_sequence:
  assumes "list_all2 (emits cx nt) es fs" "fs \<noteq> []"
  shows "emits cx nt (\<lambda>src nt fl. idio_meaning_sequence (h src) es nt fl k) (seq_sem (stops k) fs)"
proof (rule emitsI)
  fix src fl me s assume t: "\<not> fl_tailp (fl :: mflags)"
  obtain cs s' where c: "sequence_loop (h src) es nt fl me s = (Inr (cs, me), s')" "alloc_only s s'" "list_all2 (means cx s' nt) cs fs"
    by (rule sequence_loop_emits [OF assms(1) t])
  have "es \<noteq> []" using assms by auto
  then show "\<exists>c s'. idio_meaning_sequence (h src) es nt fl k me s = (Inr (c, me), s') \<and> alloc_only s s' \<and>
      means cx s' nt c (seq_sem (stops k) fs)"
    using means_sequence [OF c(3) assms(2)] c(2) t by (simp add: idio_meaning_sequence_def bind_mm_def bind_vm_def c(1))
qed

section \<open>Names\<close>

text \<open>A tree of arguments and local names only, that are these.\<close>

definition lexical_tree :: "nametree \<Rightarrow> idio_value list \<Rightarrow> bool" where
  "lexical_tree nt xs \<longleftrightarrow> nt_ok nt \<and> (\<forall>e \<in> set (visible nt 0). in_frame e) \<and> map fst (visible nt 0) = xs"

lemma lexical_treeD:
  assumes "lexical_tree nt xs"
  shows "nt_ok nt" "lexical nt 0 = visible nt 0" "map fst (lexical nt 0) = xs" "length (lexical nt 0) = length xs"
    "sum_list (slots nt) = length xs"
proof -
  show n: "nt_ok nt" and v: "lexical nt 0 = visible nt 0" and m: "map fst (lexical nt 0) = xs"
    using assms by (auto simp: lexical_tree_def)
  show l: "length (lexical nt 0) = length xs" using m by (metis length_map)
  show "sum_list (slots nt) = length xs" using slots_sum [OF n, of 0] l by simp
qed

lemma lexical_tree_Nil: "lexical_tree [] []"
  by (simp add: lexical_tree_def nt_ok.empty)

lemma visible_shift_in_frame: "(\<forall>e \<in> set (visible nt i). in_frame e) = (\<forall>e \<in> set (visible nt 0). in_frame e)"
proof -
  have f: "in_frame (x, place i e) = in_frame (x, place k e)" for x i k and e :: "nt_scope \<times> int"
    by (cases e) (simp add: place_def)
  have "(\<forall>e \<in> set (visible nt i). in_frame e) = (\<forall>e \<in> set (visible nt k). in_frame e)" for i k
  proof (induction nt arbitrary: i k)
    case (Cons ns nt)
    have "(\<forall>e \<in> set (map (\<lambda>(x, e). (x, place i e)) ns). in_frame e) = (\<forall>e \<in> set (map (\<lambda>(x, e). (x, place k e)) ns). in_frame e)"
      using f [of _ i _ k] by auto
    moreover have "(\<forall>e \<in> set (visible nt (i + frame_step ns)). in_frame e) = (\<forall>e \<in> set (visible nt (k + frame_step ns)). in_frame e)"
      by (rule Cons.IH)
    ultimately show ?case unfolding visible.simps set_append ball_Un by (rule arg_cong2)
  qed simp
  then show ?thesis .
qed

lemma visible_shift_names: "map fst (visible nt i) = map fst (visible nt k)"
proof (induction nt arbitrary: i k)
  case (Cons ns nt)
  have "map fst (visible nt (i + frame_step ns)) = map fst (visible nt (k + frame_step ns))" by (rule Cons.IH)
  then show ?case by (simp add: o_def split_def)
qed simp

lemma lexical_tree_params:
  assumes "lexical_tree nt xs"
  shows "lexical_tree (idio_meaning_nametree_extend_params nt ns) (idio_S_false # rev ns @ xs)"
proof -
  have "map fst (new_params (ns @ [idio_S_false]) 0) = idio_S_false # rev ns"
    by (simp add: new_params_def o_def split_def rev_map [symmetric] enumerate_eq_zip del: rev_append)
  moreover have "\<forall>e \<in> set (new_params (ns @ [idio_S_false]) 0). in_frame e" by (auto simp: new_params_def)
  moreover have "\<forall>e \<in> set (visible nt 1). in_frame e" "map fst (visible nt 1) = xs"
    using assms visible_shift_in_frame [of nt 1] visible_shift_names [of nt 1 0] by (auto simp: lexical_tree_def)
  ultimately show ?thesis using assms unfolding lexical_tree_def idio_meaning_nametree_extend_params_def
    by (auto simp: visible_extend new_params_def [symmetric] intro: nt_ok.params)
qed

lemma in_function_names: "lexical_tree nt xs \<Longrightarrow> xs \<noteq> [] \<Longrightarrow> in_function nt"
  using slots_function [of nt] by (metis lexical_treeD(1,5) length_0_conv sum_list.Nil)

lemma lexical_tree_local:
  assumes "lexical_tree nt xs" "xs \<noteq> []"
  shows "lexical_tree (idio_meaning_nametree_extend_local nt x) (x # xs)"
  using assms in_function_names [OF assms] by (auto simp: lexical_tree_def visible_extend intro: nt_ok.local)

lemma lexical_tree_lookup:
  assumes "lexical_tree nt xs" "x \<in> set xs"
  obtains sc i j where "idio_meaning_lexical_lookup nt x = Some (sc, i, j)" "map_of (lexical nt 0) x = Some (sc, i, j)"
    "sc = NT_param \<or> sc = NT_local" "(x, sc, i, j) \<in> set (lexical nt 0)"
proof -
  have "x \<in> fst ` set (lexical nt 0)" using assms lexical_treeD(3) [OF assms(1)] by (metis list.set_map)
  then obtain sc i j where m: "map_of (lexical nt 0) x = Some (sc, i, j)" by (metis map_of_eq_None_iff option.exhaust prod_cases3)
  have l: "idio_meaning_lexical_lookup nt x = Some (sc, i, j)"
    using m lookup_visible [of nt x 0] lexical_treeD(2) [OF assms(1)] by (simp add: idio_meaning_lexical_lookup_def)
  have e: "(x, sc, i, j) \<in> set (lexical nt 0)" using m by (rule map_of_SomeD)
  then have "sc = NT_param \<or> sc = NT_local" by simp
  then show thesis using that l m e by blast
qed

lemma variable_info_lexical:
  "idio_meaning_lexical_lookup nt x = Some (sc, i, j) \<Longrightarrow>
    idio_meaning_variable_info m nt x fl r me s = (Inr (Lexical sc i j, me), s)"
  by (simp add: idio_meaning_variable_info_def)

lemma emits_reference:
  assumes t: "lexical_tree nt xs" "x \<in> set xs" "length xs < 2147483648"
  shows "emits cx nt (\<lambda>src nt fl. idio_meaning_reference m x nt (h fl)) (name_sem x)"
proof (rule emitsI)
  fix src fl me s assume "\<not> fl_tailp (fl :: mflags)"
  obtain sc i j where l: "idio_meaning_lexical_lookup nt x = Some (sc, i, j)" "map_of (lexical nt 0) x = Some (sc, i, j)"
    "sc = NT_param \<or> sc = NT_local" "(x, sc, i, j) \<in> set (lexical nt 0)"
    by (rule lexical_tree_lookup [OF t(1,2)])
  note n = lexical_treeD [OF t(1)]
  have u: "u64 i = nat i" "u64 j = nat j" "j < 2147483648" using slot_small [OF n(1) l(4)] t(3) n(4) by simp_all
  have "means cx s nt (frame_ref i j) (name_sem x)"
    by (rule meansI) (auto simp: frame_ref_def u intro!: yields_ins acts_ref [OF n(1) l(2) u(3)])
  then show "\<exists>c s'. idio_meaning_reference m x nt (h fl) me s = (Inr (c, me), s') \<and> alloc_only s s' \<and> means cx s' nt c (name_sem x)"
    using l(3) by (auto simp: idio_meaning_reference_def bind_mm_def bind_vm_def variable_info_lexical [OF l(1)])
qed

lemma emits_assignment:
  assumes t: "lexical_tree nt xs" "x \<in> set xs" "length xs < 2147483648" and e: "emits cx nt e f"
  shows "emits cx nt (\<lambda>src nt fl. idio_meaning_assignment m (h src) x e nt (SET_SCOPE sf fl)) (set_sem x f)"
proof (rule emitsI)
  fix src fl me s assume "\<not> fl_tailp (fl :: mflags)"
  obtain sc i j where l: "idio_meaning_lexical_lookup nt x = Some (sc, i, j)" "map_of (lexical nt 0) x = Some (sc, i, j)"
    "sc = NT_param \<or> sc = NT_local" "(x, sc, i, j) \<in> set (lexical nt 0)"
    by (rule lexical_tree_lookup [OF t(1,2)])
  note n = lexical_treeD [OF t(1)]
  have u: "u64 i = nat i" "u64 j = nat j" "j < 2147483648" using slot_small [OF n(1) l(4)] t(3) n(4) by simp_all
  obtain c s' where c: "e (h src) nt (NO_DEFINE (NOT_TAILP (SET_SCOPE sf fl))) me s = (Inr (c, me), s')" "alloc_only s s'"
      "means cx s' nt c f"
    by (rule emitsE [OF e]) auto
  have "means cx s' nt (frame_set i j c) (set_sem x f)"
  proof (rule meansI)
    fix gx v assume v: "alloc_only s' v" "reads_lists gx v"
    note mc = means_codes [OF c(3) v]
    show "coded (meaning cx gx (frame_set i j c)) nt (set_sem x f)"
    proof (cases "i = 0")
      case True
      have "coded (seq_m (meaning cx gx c) (ins_m cx IDIO_A_SHALLOW_ARGUMENT_SET [j])) nt (set_sem x f)"
        by (rule yields_seq [OF mc yields_ins [of "\<lambda>a. a = instr cx IDIO_A_SHALLOW_ARGUMENT_SET [nat j]"]])
          (use acts_set(2) [OF n(1) l(2) _ u(3) True] u in auto)
      then show ?thesis using True by (simp add: frame_set_def)
    next
      case False
      have "coded (seq_m (meaning cx gx c) (ins_m cx IDIO_A_DEEP_ARGUMENT_SET [i, j])) nt (set_sem x f)"
        by (rule yields_seq [OF mc yields_ins [of "\<lambda>a. a = instr cx IDIO_A_DEEP_ARGUMENT_SET [nat i, nat j]"]])
          (use acts_set(1) [OF n(1) l(2) _ u(3)] u in auto)
      then show ?thesis using False by (simp add: frame_set_def)
    qed
  qed (use c(3) in \<open>simp add: frame_set_def\<close>)
  then show "\<exists>c s'. idio_meaning_assignment m (h src) x e nt (SET_SCOPE sf fl) me s = (Inr (c, me), s') \<and> alloc_only s s' \<and>
      means cx s' nt c (set_sem x f)"
    using l(3) c(2) by (auto simp: idio_meaning_assignment_def bind_mm_def bind_vm_def c(1) variable_info_lexical [OF l(1)])
qed

section \<open>Local names\<close>

lemma names_loop_length:
  "nt_ok nt \<Longrightarrow> \<forall>e \<in> set (visible nt i). in_frame e \<Longrightarrow> in_function nt \<Longrightarrow> length (names_loop nt r) = hd (slots nt) + length r"
proof (induction arbitrary: i r rule: nt_ok.induct)
  case empty
  then show ?case by (simp add: in_function_def)
next
  case (params nt names)
  obtain y j ps where p: "rev (map (\<lambda>(i, x). (x, NT_param, int i)) (enumerate 0 names)) = (y, NT_param, j) # ps"
    using params_first [OF params.hyps(2)] .
  then show ?case using params_length [OF p] params.hyps(2) unfolding extend_vparams_Cons p
    by (simp add: Let_def)
next
  case (local nt x)
  obtain k ks where k: "slots nt = k # ks" using slots_function [OF local.hyps(1)] local.hyps(2) by (cases "slots nt") auto
  have "\<forall>e \<in> set (visible nt i). in_frame e" using local.prems(1) by (simp add: visible_extend)
  from local.IH [OF this local.hyps(2), of "x # r"] show ?case
    using k by (simp add: idio_meaning_nametree_extend_local_def Let_def)
next
  case (dynamic nt sc x j)
  then show ?case by (auto simp: visible_extend)
qed

text \<open>The list has a place for each slot, and one more for each dynamic or environ variable on the way.\<close>

lemma names_loop_room: "nt_ok nt \<Longrightarrow> in_function nt \<Longrightarrow> hd (slots nt) + length r \<le> length (names_loop nt r)"
proof (induction arbitrary: r rule: nt_ok.induct)
  case (params nt names)
  obtain y j ps where p: "rev (map (\<lambda>(i, x). (x, NT_param, int i)) (enumerate 0 names)) = (y, NT_param, j) # ps"
    using params_first [OF params.hyps(2)] .
  then show ?case using params_length [OF p] params.hyps(2) unfolding extend_vparams_Cons p by (simp add: Let_def)
next
  case (local nt x)
  obtain k ks where k: "slots nt = k # ks" using slots_function [OF local.hyps(1)] local.hyps(2) by (cases "slots nt") auto
  show ?case using local.IH [OF local.hyps(2), of "x # r"] k by (simp add: idio_meaning_nametree_extend_local_def Let_def)
next
  case (dynamic nt sc x j)
  then have "in_function nt" by simp
  from dynamic.IH [OF this, of "x # r"] show ?case
    using dynamic.hyps by (auto simp: idio_meaning_nametree_dynamic_extend_def Let_def)
qed (simp add: in_function_def)

lemma nametree_list:
  assumes "lexical_tree nt xs" "xs \<noteq> []"
  obtains v s' where "idio_meaning_nametree_to_list nt s = (Inr v, s')" "alloc_only s s'"
    "\<And>gx u. alloc_only s' u \<Longrightarrow> reads_lists gx u \<Longrightarrow> cx_list_length gx v = hd (slots nt)"
proof -
  obtain v s' where v: "idio_list (names_loop nt []) idio_S_nil s = (Inr v, s')" "alloc_only s s'" "list_at s' v (names_loop nt [])"
    by (rule idio_list_at)
  have "length (names_loop nt []) = hd (slots nt)"
    using names_loop_length [of nt 0 "[]"] assms in_function_names [OF assms] by (simp add: lexical_tree_def)
  then have "cx_list_length gx v = hd (slots nt)" if "alloc_only s' u" "reads_lists gx u" for gx u
    using that(2) list_at_alloc [OF v(3) that(1)] unfolding reads_lists_def by metis
  then show thesis using that v by (simp add: idio_meaning_nametree_to_list_def)
qed

lemma emits_local:
  assumes t: "lexical_tree nt xs" "xs \<noteq> []" "Suc (length xs) < 2147483648"
    and e: "emits cx nt e f"
    and b: "list_all2 (emits cx (idio_meaning_nametree_extend_local nt x)) es fs" "fs \<noteq> []"
  shows "emits cx nt (\<lambda>src. idio_meaning_local_application m (h src) x e be es) (local_sem x f (seq_sem (stops K_begin) fs))"
proof (rule emitsI)
  fix src fl me s assume fl: "\<not> fl_tailp (fl :: mflags)"
  let ?nt = "idio_meaning_nametree_extend_local nt x"
  note n = lexical_treeD [OF t(1)]
  have fn: "in_function nt" using in_function_names [OF t(1,2)] .
  have t': "lexical_tree ?nt (x # xs)" using lexical_tree_local [OF t(1,2)] .
  obtain k ks where k: "slots nt = k # ks" using slots_function [OF n(1)] fn by (cases "slots nt") auto
  have k_small: "Suc k < 2147483648" using t(3) n(5) k by simp
  obtain c s1 where 1: "e (h src) nt (NOT_TAILP fl) me s = (Inr (c, me), s1)" "alloc_only s s1" "means cx s1 nt c f"
    by (rule emitsE [OF e]) auto
  obtain d s2 where 2: "idio_meaning_sequence (IDIO_MPP m be (h src)) es ?nt fl K_begin me s1 = (Inr (d, me), s2)" "alloc_only s1 s2"
      "means cx s2 ?nt d (seq_sem (stops K_begin) fs)"
    by (rule emitsE [OF emits_sequence [OF b, of "\<lambda>_. IDIO_MPP m be (h src)"] fl])
  obtain v s3 where 3: "idio_meaning_nametree_to_list ?nt s2 = (Inr v, s3)" "alloc_only s2 s3"
      "\<And>gx u. alloc_only s3 u \<Longrightarrow> reads_lists gx u \<Longrightarrow> cx_list_length gx v = hd (slots ?nt)"
    by (rule nametree_list [OF t']) auto
  have l: "idio_meaning_lexical_lookup ?nt x = Some (NT_local, 0, int k)"
    using next_local_slot [OF n(1) fn, of 0] k
    by (simp add: idio_meaning_lexical_lookup_def idio_meaning_nametree_extend_local_def)
  have "means cx s3 nt (I_LOCAL (h src) (int k) c d v) (local_sem x f (seq_sem (stops K_begin) fs))"
  proof (rule meansI)
    show "straight (I_LOCAL (h src) (int k) c d v)" using 1(3) 2(3) by simp
    fix gx u assume u: "alloc_only s3 u" "reads_lists gx u"
    have u2: "alloc_only s2 u" "alloc_only s1 u" using u(1) 2(2) 3(2) alloc_only_trans by metis+
    have ks: "Suc (hd (slots nt)) < 2147483648" using k k_small by simp
    have len: "cx_list_length gx v = Suc k" using 3(3) [OF u] k by simp
    have uk: "u64 (int (Suc k)) = Suc k" "u64 (int k) = k" using k_small by (simp_all add: u64_def)
    have "coded (seq_m (meaning cx gx c) (seq_m (src_m cx gx (h src))
        (seq_m (ins_m cx IDIO_A_EXTEND_FRAME [int (Suc k), fci]) (seq_m (ins_m cx IDIO_A_SHALLOW_ARGUMENT_SET [int k]) (meaning cx gx d)))))
        nt (local_sem x f (seq_sem (stops K_begin) fs))" for fci
    proof (rule yields_seq [OF means_codes [OF 1(3) u2(2) u(2)]])
      show "yields (seq_m (src_m cx gx (h src)) (seq_m (ins_m cx IDIO_A_EXTEND_FRAME [int (Suc k), fci])
          (seq_m (ins_m cx IDIO_A_SHALLOW_ARGUMENT_SET [int k]) (meaning cx gx d)))) (\<lambda>a. \<exists>q e. a = seq_vm q e \<and> quiet q \<and>
          (\<exists>e'. e = seq_vm (instr cx IDIO_A_EXTEND_FRAME (map u64 [int (Suc k), fci])) e' \<and>
            (\<exists>b. e' = seq_vm (instr cx IDIO_A_SHALLOW_ARGUMENT_SET (map u64 [int k])) b \<and> acts b ?nt (seq_sem (stops K_begin) fs))))"
        (is "yields _ ?Q")
        by (intro yields_src_seq yields_ins_seq means_codes [OF 2(3) u2(1) u(2)])
      fix a q assume a: "acts a nt f" and "?Q q"
      then obtain q' b where b: "q = seq_vm q' (seq_vm (instr cx IDIO_A_EXTEND_FRAME [Suc k, u64 fci])
          (seq_vm (instr cx IDIO_A_SHALLOW_ARGUMENT_SET [k]) b))" "quiet q'" "acts b ?nt (seq_sem (stops K_begin) fs)"
        using uk by auto
      show "acts (seq_vm a q) nt (local_sem x f (seq_sem (stops K_begin) fs))"
        using acts_local [OF n(1) fn ks a b(2,3), of cx "u64 fci"] k unfolding b(1) by simp
    qed
    then show "coded (meaning cx gx (I_LOCAL (h src) (int k) c d v)) nt (local_sem x f (seq_sem (stops K_begin) fs))"
      by (auto simp: len intro!: yields_index)
  qed
  moreover have "alloc_only s s3" using 1(2) 2(2) 3(2) alloc_only_trans by metis
  ultimately show "\<exists>c s'. idio_meaning_local_application m (h src) x e be es nt fl me s = (Inr (c, me), s') \<and> alloc_only s s' \<and>
      means cx s' nt c (local_sem x f (seq_sem (stops K_begin) fs))"
    by (simp add: idio_meaning_local_application_def Let_def bind_mm_def bind_vm_def vm_mm_def 1(1) 2(1) 3(1) l ret_vm_def)
qed

section \<open>Functions that are called where they stand\<close>

definition means_args :: "vm_ctx \<Rightarrow> vm \<Rightarrow> nametree \<Rightarrow> icode \<Rightarrow> sem list \<Rightarrow> nat \<Rightarrow> bool" where
  "means_args cx s nt c fs arity \<longleftrightarrow> straight c \<and>
    (\<forall>gx u. alloc_only s u \<longrightarrow> reads_lists gx u \<longrightarrow> yields (meaning cx gx c) (\<lambda>a. acts_args a nt fs arity))"

lemma arguments_emit:
  assumes "list_all2 (emits cx nt) es fs" "length es \<le> arity" "Suc arity < 2147483648"
  obtains c s' where "idio_meaning_arguments src es nt arity fl me s = (Inr (c, me), s')" "alloc_only s s'"
    "means_args cx s' nt c fs arity"
  using assms(1,2)
proof (induction arbitrary: s thesis rule: list_all2_induct)
  case Nil
  have "u64 (int arity + 1) = Suc arity" using assms(3) by (simp add: u64_def)
  then have "means_args cx s nt (I_ALLOCATE_FRAME (int arity)) [] arity"
    by (auto simp: means_args_def intro!: yields_ins acts_args_Nil [OF assms(3)])
  then show ?case using Nil by simp
next
  case (Cons e es f fs)
  obtain c s1 where 1: "e src nt (NOT_TAILP fl) me s = (Inr (c, me), s1)" "alloc_only s s1" "means cx s1 nt c f"
    by (rule emitsE [OF Cons.hyps(1), of "NOT_TAILP fl" src me s]) auto
  have le: "length es < arity" using Cons.prems by simp
  then obtain d s2 where 2: "idio_meaning_arguments src es nt arity fl me s1 = (Inr (d, me), s2)" "alloc_only s1 s2"
      "means_args cx s2 nt d fs arity"
    using Cons.IH by (metis less_imp_le)
  have lf: "length es = length fs" using Cons.hyps(2) by (rule list_all2_lengthD)
  define r where "r = int arity - (int (length es) + 1)"
  have r: "u64 r = arity - Suc (length fs)" using le assms(3) lf by (auto simp: r_def u64_def nat_diff_distrib)
  have "means_args cx s2 nt (I_STORE_ARGUMENT c d r) (f # fs) arity"
    unfolding means_args_def
  proof (intro conjI allI impI)
    show "straight (I_STORE_ARGUMENT c d r)" using 1(3) 2(3) by (simp add: means_args_def)
    fix gx u assume u: "alloc_only s2 u" "reads_lists gx u"
    have c: "coded (meaning cx gx c) nt f" using means_codes [OF 1(3) alloc_only_trans [OF 2(2) u(1)] u(2)] .
    have d: "yields (meaning cx gx d) (\<lambda>a. acts_args a nt fs arity)" using 2(3) u by (simp add: means_args_def)
    have "yields (seq_m (meaning cx gx c) (seq_m (ins_m cx IDIO_A_PUSH_VALUE []) (seq_m (meaning cx gx d) (ins_m cx IDIO_A_POP_FRAME [r]))))
        (\<lambda>a. acts_args a nt (f # fs) arity)"
    proof (rule yields_seq [OF c yields_ins_seq [OF yields_seq_ins [OF d]]])
      fix a q assume "acts a nt f" "\<exists>b. q = seq_vm (instr cx IDIO_A_PUSH_VALUE (map u64 [])) b \<and>
        (\<exists>e. b = seq_vm e (instr cx IDIO_A_POP_FRAME (map u64 [r])) \<and> acts_args e nt fs arity)"
      then show "acts_args (seq_vm a q) nt (f # fs) arity"
        using acts_args_Cons [of a nt f _ fs arity cx] le lf r assms(3) by auto
    qed
    then show "yields (meaning cx gx (I_STORE_ARGUMENT c d r)) (\<lambda>a. acts_args a nt (f # fs) arity)" by simp
  qed
  then show ?case using Cons.prems(1) alloc_only_trans [OF 1(2) 2(2)]
    by (simp add: bind_mm_def bind_vm_def 1(1) 2(1) r_def)
qed

lemma emits_closed:
  assumes t: "lexical_tree nt xs" and small: "length ns + 1 < 2147483648"
    and a: "list_all2 (emits cx nt) aes fs" "length aes = length ns"
    and b: "list_all2 (emits cx (idio_meaning_nametree_extend_params nt ns)) es gs" "gs \<noteq> []"
  shows "emits cx nt (\<lambda>src. idio_meaning_closed_application m fe ns None be es aes) (closed_sem ns fs (seq_sem (stops K_begin) gs))"
proof (rule emitsI)
  fix src fl me s assume fl: "\<not> fl_tailp (fl :: mflags)"
  let ?nt = "idio_meaning_nametree_extend_params nt ns"
  let ?g = "seq_sem (stops K_begin) gs"
  obtain c s1 where 1: "idio_meaning_arguments fe aes nt (length ns) (NOT_TAILP fl) me s = (Inr (c, me), s1)" "alloc_only s s1"
      "means_args cx s1 nt c fs (length ns)"
    by (rule arguments_emit [OF a(1)]) (use a(2) small in auto)
  obtain d s2 where 2: "idio_meaning_sequence (IDIO_MPP m be fe) es ?nt fl K_begin me s1 = (Inr (d, me), s2)" "alloc_only s1 s2" "means cx s2 ?nt d ?g"
    by (rule emitsE [OF emits_sequence [OF b, of "\<lambda>_. IDIO_MPP m be fe"] fl])
  obtain v s3 where 3: "idio_list (names_loop ?nt []) idio_S_nil s2 = (Inr v, s3)" "alloc_only s2 s3"
    by (rule idio_list_at)
  have lf: "length fs = length ns" using a list_all2_lengthD [OF a(1)] by simp
  have "means cx s3 nt (I_FIX_LET c d v fe) (closed_sem ns fs ?g)"
  proof (rule meansI)
    show "straight (I_FIX_LET c d v fe)" using 1(3) 2(3) by (simp add: means_args_def)
    fix gx u assume u: "alloc_only s3 u" "reads_lists gx u"
    have u2: "alloc_only s2 u" "alloc_only s1 u" using u(1) 2(2) 3(2) alloc_only_trans by metis+
    have c: "yields (meaning cx gx c) (\<lambda>a. acts_args a nt fs (length ns))" using 1(3) u2(2) u(2) by (simp add: means_args_def)
    have "coded (seq_m (meaning cx gx c) (seq_m (ins_m cx IDIO_A_LINK_FRAME [fci, sei])
        (seq_m (meaning cx gx d) (ins_m cx IDIO_A_UNLINK_FRAME [])))) nt (closed_sem ns fs ?g)" for fci sei
    proof (rule yields_seq [OF c yields_ins_seq [OF yields_seq_ins [OF means_codes [OF 2(3) u2(1) u(2)]]]])
      fix e q assume "acts_args e nt fs (length ns)" "\<exists>b. q = seq_vm (instr cx IDIO_A_LINK_FRAME (map u64 [fci, sei])) b \<and>
        (\<exists>e. b = seq_vm e (instr cx IDIO_A_UNLINK_FRAME (map u64 [])) \<and> acts e ?nt ?g)"
      then show "acts (seq_vm e q) nt (closed_sem ns fs ?g)"
        using acts_closed [OF lexical_treeD(1) [OF t] _ lf] by auto
    qed
    then show "coded (meaning cx gx (I_FIX_LET c d v fe)) nt (closed_sem ns fs ?g)"
      by (auto intro!: yields_index)
  qed
  moreover have "alloc_only s s3" using 1(2) 2(2) 3(2) alloc_only_trans by metis
  ultimately show "\<exists>c s'. idio_meaning_closed_application m fe ns None be es aes nt fl me s = (Inr (c, me), s') \<and> alloc_only s s' \<and>
      means cx s' nt c (closed_sem ns fs ?g)"
    using a(2) fl by (simp add: idio_meaning_closed_application_def idio_meaning_fix_closed_application_def Let_def
        idio_meaning_nametree_to_list_def fix_let_def bind_mm_def bind_vm_def vm_mm_def 1(1) 2(1) 3(1) ret_vm_def)
qed

section \<open>The evaluator\<close>

lemma emits_cong: "emits cx nt e f \<Longrightarrow> (\<And>src fl. e' src nt fl = e src nt fl) \<Longrightarrow> emits cx nt e' f"
  unfolding emits_def by simp

lemma emits_map: "(\<And>e. e \<in> set es \<Longrightarrow> emits cx nt (idio_meaning m e) (eval e)) \<Longrightarrow>
    list_all2 (emits cx nt) (map (idio_meaning m) es) (map eval es)"
  by (simp add: list_all2_conv_all_nth)

lemma list_all_map_form: "list_all (\<lambda>P. P xs) (map lexical_form es) \<Longrightarrow> e \<in> set es \<Longrightarrow> lexical_form e xs"
  by (auto simp: list_all_iff)

theorem evaluator_emits:
  "lexical_form e xs \<Longrightarrow> lexical_tree nt xs \<Longrightarrow> length xs < 2147483648 \<Longrightarrow> emits cx nt (idio_meaning m e) (eval e)"
proof (induction e arbitrary: nt xs)
  case (E_quote e v)
  then show ?case by (auto intro: emits_cong [OF emits_quotation])
next
  case (E_name x)
  then show ?case using emits_reference [of nt xs x cx m "SET_SCOPE TOPLEVEL_SCOPE"] by (auto intro: emits_cong)
next
  case (E_escape e f)
  then have f: "emits cx nt (idio_meaning m f) (eval f)" by auto
  have "emits cx nt (\<lambda>src. idio_meaning m f (IDIO_MPP m e src)) (eval f)"
    by (rule emitsI, erule emitsE [OF f, of _ "IDIO_MPP m e _"]) blast
  then show ?case by (auto intro: emits_cong)
next
  case (E_not e f)
  then have "emits cx nt (idio_meaning m f) (eval f)" by auto
  from emits_not [OF this, of "IDIO_MPP m e"] show ?case by (auto intro: emits_cong)
next
  case (E_if e f g h)
  then have "emits cx nt (idio_meaning m f) (eval f)" "emits cx nt (idio_meaning m g) (eval g)" "emits cx nt (idio_meaning m h) (eval h)"
    by auto
  from emits_alternative [OF this, of "IDIO_MPP m e"] show ?case by (auto intro: emits_cong)
next
  case (E_seq e k fs)
  have "list_all2 (emits cx nt) (map (idio_meaning m) fs) (map eval fs)"
    by (rule emits_map, rule E_seq.IH) (use E_seq.prems in \<open>auto dest: list_all_map_form\<close>)
  from emits_sequence [OF this, of "IDIO_MPP m e" k] show ?case using E_seq.prems by (auto intro: emits_cong)
next
  case (E_set e x f)
  then have "emits cx nt (idio_meaning m f) (eval f)" by auto
  from emits_assignment [OF E_set.prems(2) _ E_set.prems(3) this, of x m "IDIO_MPP m e" TOPLEVEL_SCOPE]
  show ?case using E_set.prems by (auto intro: emits_cong)
next
  case (E_local e x f be fs)
  have p: "xs \<noteq> []" "Suc (length xs) < 2147483648" "fs \<noteq> []" and f: "emits cx nt (idio_meaning m f) (eval f)"
    using E_local.prems E_local.IH(1) by auto
  have "list_all2 (emits cx (idio_meaning_nametree_extend_local nt x)) (map (idio_meaning m) fs) (map eval fs)"
    by (rule emits_map, rule E_local.IH(2) [OF _ _ lexical_tree_local [OF E_local.prems(2) p(1)]])
      (use E_local.prems(1) p(2) in \<open>auto dest: list_all_map_form\<close>)
  from emits_local [OF E_local.prems(2) p(1,2) f this, of m "IDIO_MPP m e" be] show ?case using p(3) by (auto intro: emits_cong)
next
  case (E_closed e fe ns rest be fs aes)
  have p: "rest = None" "length aes = length ns" "length ns + 1 + length xs < 2147483648" "fs \<noteq> []"
    using E_closed.prems(1) by simp_all
  have a: "list_all2 (emits cx nt) (map (idio_meaning m) aes) (map eval aes)"
    by (rule emits_map, rule E_closed.IH(2)) (use E_closed.prems in \<open>auto dest: list_all_map_form\<close>)
  have "list_all2 (emits cx (idio_meaning_nametree_extend_params nt ns)) (map (idio_meaning m) fs) (map eval fs)"
    by (rule emits_map, rule E_closed.IH(1) [OF _ _ lexical_tree_params [OF E_closed.prems(2)]])
      (use E_closed.prems(1) p(3) in \<open>auto dest: list_all_map_form\<close>)
  from emits_closed [OF E_closed.prems(2) _ a _ this, of m fe be] show ?case using p by (auto intro: emits_cong)
qed simp_all

text \<open>A definition of a name in scope reads what its information has not.\<close>

lemma define_of_argument:
  "idio_meaning_lexical_lookup nt x = Some (sc, i, j) \<Longrightarrow> idio_meaning_define m src x e nt fl me s = (Inl Segmentation_fault, s)"
  by (simp add: idio_meaning_define_def Let_def bind_mm_def bind_vm_def variable_info_lexical fail_mm_def)

text \<open>
  The evaluator, the code generator and the run loop together: the bytes of the form, followed by
  \<^verbatim>\<open>FINISH\<close>, run to the end and leave its value. Such code calls no C function, so what the C
  functions of the machine do does not matter.
\<close>

lemma evaluated_code_runs:
  assumes e: "emits (without_C cx) nt e f" "\<not> fl_tailp fl"
  obtains c s' where "e src nt fl me s = (Inr (c, me), s')" "alloc_only s s'"
    "\<And>gx ee. reads_lists gx s' \<Longrightarrow> constants_ok ee \<Longrightarrow>
      \<exists>bs ee'. idio_codegen_compile gx c ee = Inr (bs, ee') \<and>
        (length (ee_cs ee') < 2 ^ 64 \<longrightarrow> length bs < 2 ^ 64 \<longrightarrow>
         (\<forall>t as b env. code_at t (vm_pc t) (bs @ asm IDIO_A_FINISH []) \<longrightarrow> constants_at t (ee_cs ee') \<longrightarrow> holds t nt as b env \<longrightarrow>
           (\<exists>t' n. (\<forall>fuel \<ge> n. run_loop fuel cx t = Some (Inr (), t')) \<and> vm_val t' = fst (f env) \<and>
             vm_stack t' = vm_stack t \<and> holds t' nt as b (snd (f env)))))"
proof -
  obtain c s' where c: "e src nt fl me s = (Inr (c, me), s')" "alloc_only s s'" "means (without_C cx) s' nt c f"
    by (rule emitsE [OF e])
  have "\<exists>bs ee'. idio_codegen_compile gx c ee = Inr (bs, ee') \<and>
        (length (ee_cs ee') < 2 ^ 64 \<longrightarrow> length bs < 2 ^ 64 \<longrightarrow>
         (\<forall>t as b env. code_at t (vm_pc t) (bs @ asm IDIO_A_FINISH []) \<longrightarrow> constants_at t (ee_cs ee') \<longrightarrow> holds t nt as b env \<longrightarrow>
           (\<exists>t' n. (\<forall>fuel \<ge> n. run_loop fuel cx t = Some (Inr (), t')) \<and> vm_val t' = fst (f env) \<and>
             vm_stack t' = vm_stack t \<and> holds t' nt as b (snd (f env)))))"
    if gx: "reads_lists gx s'" and ee: "constants_ok ee" for gx ee
  proof -
    obtain a ee' where a: "meaning (without_C cx) gx c ee = Inr (a, ee')" "acts a nt f"
      using yieldsD [OF means_codes [OF c(3) alloc_only_refl gx]] by blast
    obtain bs where bs: "idio_codegen_compile gx c ee = Inr (bs, ee')" "steady a"
        "length (ee_cs ee') < 2 ^ 64 \<longrightarrow> length bs < 2 ^ 64 \<longrightarrow> runs (without_C cx) (ee_cs ee') bs a"
      by (rule compile_correct [OF without_C_steady means_straight [OF c(3)] a(1) ee])
    have "\<exists>t' n. (\<forall>fuel \<ge> n. run_loop fuel cx t = Some (Inr (), t')) \<and> vm_val t' = fst (f env) \<and>
        vm_stack t' = vm_stack t \<and> holds t' nt as b (snd (f env))"
      if small: "length (ee_cs ee') < 2 ^ 64" "length bs < 2 ^ 64"
        and t: "code_at t (vm_pc t) (bs @ asm IDIO_A_FINISH [])" "constants_at t (ee_cs ee')" and h: "holds t nt as b env" for t as b env
    proof -
      obtain t1 where 1: "a t = (Inr (), t1)" "vm_val t1 = fst (f env)" "vm_stack t1 = vm_stack t" "holds t1 nt as b (snd (f env))"
        by (rule actsE [OF a(2) h])
      have r: "runs (without_C cx) (ee_cs ee') bs a" using bs(3) small by blast
      obtain n where "\<forall>fuel \<ge> n. run_loop fuel (without_C cx) t = Some (Inr (), t1\<lparr>vm_pc := vm_pc t + length bs + 1\<rparr>)"
        using compiled_code_finishes [OF r t 1(1) bs(2)] by blast
      then have "\<forall>fuel \<ge> n. run_loop fuel cx t = Some (Inr (), t1\<lparr>vm_pc := vm_pc t + length bs + 1\<rparr>)"
        using run_without_C by blast
      then show ?thesis using 1 by (intro exI [of _ "t1\<lparr>vm_pc := vm_pc t + length bs + 1\<rparr>"] exI [of _ n]) simp
    qed
    then show ?thesis using bs(1) by blast
  qed
  then show thesis using that c by blast
qed

section \<open>A sample\<close>

text \<open>\<^verbatim>\<open>((function (x) (set! x (not x)) x) #f)\<close>, evaluated on an empty machine.\<close>

definition sample_name :: idio_value where "sample_name = V_pointer 400"

definition sample_form :: form where
  "sample_form = E_closed idio_S_nil idio_S_nil [sample_name] None idio_S_nil
    [E_set idio_S_nil sample_name (E_not idio_S_nil (E_name sample_name)), E_name sample_name]
    [E_quote idio_S_false idio_S_false]"

definition plain_mc :: meaning_ctx where
  "plain_mc = \<lparr>mc_vm = plain_ctx, mc_has_properties = (\<lambda>_. False), mc_varargs = (\<lambda>_. False),
    mc_run_in_thread = (\<lambda>_. False)\<rparr>"

definition plain_me :: menv where
  "plain_me = eenv.extend plain_ee \<lparr>me_symbols = [], me_predefs = [], me_st = [], me_vt = [], me_module = idio_S_nil,
    me_aotp = False, me_xi = 1\<rparr>"

definition names_vm :: vm where
  "names_vm = (plain_vm [] [])\<lparr>vm_heap := [4 \<mapsto> O_pair idio_S_false idio_S_nil, 8 \<mapsto> O_pair sample_name (V_pointer 4)],
    vm_next := 12\<rparr>"

definition names_gx :: codegen_ctx where
  "names_gx = plain_gx\<lparr>cx_list_length := (\<lambda>v. if v = V_pointer 8 then 2 else if v = V_pointer 4 then 1 else 0)\<rparr>"

definition sample_form_icode :: icode where
  "sample_form_icode = I_FIX_LET (I_STORE_ARGUMENT (I_CONSTANT_REF idio_S_false) (I_ALLOCATE_FRAME 1) 0)
    (I_BEGIN [I_SHALLOW_ARGUMENT_SET 0 (I_NOT False (I_SHALLOW_ARGUMENT_REF 0)), I_SHALLOW_ARGUMENT_REF 0])
    (V_pointer 8) idio_S_nil"

lemma sample_form_lexical [simp]: "lexical_form sample_form []"
  by (simp add: sample_form_def plain_constant_def constant_ok_def value_ok_def in_constant_def)

lemma sample_form_eval [simp]: "eval sample_form [] = (idio_S_true, [])"
  by (simp add: sample_form_def closed_sem_def set_sem_def not_sem_def name_sem_def sample_name_def)

lemma names_gx_reads [simp]: "reads_lists names_gx names_vm"
proof -
  have nil: "xs = []" if "list_at names_vm idio_S_nil xs" for xs using that by (cases xs) auto
  have one: "length xs = 1" if "list_at names_vm (V_pointer 4) xs" for xs
    using that nil by (cases xs) (auto simp: names_vm_def)
  have two: "length xs = 2" if "list_at names_vm (V_pointer 8) xs" for xs
    using that one by (cases xs) (auto simp: names_vm_def)
  have other: "xs = []" if "list_at names_vm v xs" "v \<noteq> V_pointer 4" "v \<noteq> V_pointer 8" for v xs
    using that by (cases xs) (auto simp: names_vm_def split: if_splits)
  show ?thesis unfolding reads_lists_def using one two other by (auto simp: names_gx_def)
qed

lemma sample_form_meaning [simp]:
  "idio_meaning plain_mc sample_form idio_S_nil [] MEANING_FLAG_NONE plain_me (plain_vm [] []) =
    (Inr (sample_form_icode, plain_me), names_vm)"
  by (simp add: sample_form_def sample_form_icode_def names_vm_def plain_vm_def sample_name_def MEANING_FLAG_NONE_def
      idio_meaning_closed_application_def idio_meaning_fix_closed_application_def idio_meaning_nametree_to_list_def
      idio_meaning_nametree_extend_params_def idio_meaning_nametree_extend_vparams_def idio_meaning_sequence_def
      idio_meaning_assignment_def idio_meaning_reference_def idio_meaning_not_def idio_meaning_variable_info_def
      idio_meaning_lexical_lookup_def idio_meaning_quotation_def IDIO_MPP_def plain_mc_def fix_let_def sequence_code_def
      frame_ref_def frame_set_def bind_mm_def bind_vm_def vm_mm_def ret_vm_def idio_pair_def idio_gc_get_def Let_def
      enumerate_eq_zip NOT_TAILP_def SET_SCOPE_def NO_DEFINE_def)

definition sample_form_code :: "byte list" where
  "sample_form_code = map IDIO_I [22, 37, 55, 62, 67, 0, 0, 94, 0, 95, 96, 6, 0, 68]"

lemma sample_form_length [simp]: "length sample_form_code = 14"
  by (simp add: sample_form_code_def)

definition sample_form_ee :: eenv where
  "sample_form_ee = \<lparr>ee_cs = [V_pointer 8], ee_ch = [V_pointer 8 \<mapsto> 0], ee_ses = [idio_S_nil], ee_sps = [None],
    ee_byte_code = [], ee_pcs = []\<rparr>"

lemma sample_form_constants [simp]: "ee_cs sample_form_ee = [V_pointer 8]"
  by (simp add: sample_form_ee_def)

lemma sample_form_compiles [simp]:
  "idio_codegen_compile names_gx sample_form_icode plain_ee = Inr (sample_form_code, sample_form_ee)"
proof -
  have 0: "IDIO_IA_PUSH_VARUINT 0 = [IDIO_I 0]"
    by (simp add: IDIO_IA_PUSH_VARUINT_def idio_ia_compute_varuint_def IDIO_IA_VARUINT_1BYTE_def u64_def)
  show ?thesis
    by (simp add: sample_form_icode_def names_gx_def plain_gx_def rcse_def seq_cg_def emit_def cg_constant_def cg_shallow_def
        cg_allocate_def with_constant_def with_src_expr_def op_only_def idio_codegen_constants_lookup_or_extend_def
        idio_codegen_constants_lookup_def idio_codegen_extend_constants_def idio_codegen_extend_src_exprs_def plain_ee_def
        IDIO_IA_PUSH1_def 0 sample_form_code_def sample_form_ee_def)
qed

end
