(* ===== verification/Idio_Hash.thy ===== *)
theory Idio_Hash
  imports Idio_Array Idio_Value
begin

text \<open>
  Hash tables (\<^verbatim>\<open>src/src/hash.c\<close>): an array of buckets, each a chain of entries,
  that grows when it is three quarters full and shrinks when it is nearly empty.
  A key is a value other than \<^verbatim>\<open>#n\<close>; where C code is given a key that may be
  \<^verbatim>\<open>#n\<close>, the model has an option. The comparison and the hash function are either
  C functions or functions of the language, that may raise a condition or not
  return.
\<close>

unbundle bit_operations_syntax

section \<open>The table\<close>

datatype 'k comparator = Comp_C "'k \<Rightarrow> 'k \<Rightarrow> bool" | Comp_Idio "'k \<Rightarrow> 'k \<Rightarrow> bool comp"

datatype 'k hasher = Hash_C "'k \<Rightarrow> nat" | Hash_Idio "'k \<Rightarrow> unit idio_num comp"

record ('k, 'v) idio_hash =
  hs_const :: bool
  hs_size :: nat
  hs_mask :: nat
  hs_count :: nat
  hs_comp :: "'k comparator"
  hs_hash :: "'k hasher"
  hs_ha :: "('k \<times> 'v) list list"

text \<open>
  \<^verbatim>\<open>idio_assign_hash_he\<close>: the size is rounded up to a power of two. Sizes are
  \<^verbatim>\<open>size_t\<close>; those of an allocated table are far below \<open>2 ^ 64\<close>, but \<open>mask + 1\<close>
  is not for every argument of \<^verbatim>\<open>make-hash\<close>.
\<close>

fun mask_loop :: "nat \<Rightarrow> nat \<Rightarrow> nat" where
  "mask_loop s m = (if s = 0 then m else mask_loop (s div 2) (2 * m + 1))"

declare mask_loop.simps [simp del]

definition hash_mask :: "nat \<Rightarrow> nat" where
  "hash_mask sz = (let m = mask_loop sz 0 in if sz AND (m div 2) = 0 then m div 2 else m)"

definition idio_assign_hash_he :: "('k, 'v) idio_hash \<Rightarrow> nat \<Rightarrow> ('k, 'v) idio_hash" where
  "idio_assign_hash_he h sz =
    (let msk = hash_mask sz; sz = (msk + 1) mod 18446744073709551616
     in h\<lparr>hs_mask := msk, hs_size := sz, hs_ha := replicate sz []\<rparr>)"

definition new_hash :: "'k comparator \<Rightarrow> 'k hasher \<Rightarrow> nat \<Rightarrow> ('k, 'v) idio_hash" where
  "new_hash cmp hsh sz =
    idio_assign_hash_he
      \<lparr>hs_const = False, hs_size = 0, hs_mask = 0, hs_count = 0, hs_comp = cmp, hs_hash = hsh, hs_ha = []\<rparr> sz"

definition idio_hash ::
  "nat \<Rightarrow> ('k \<Rightarrow> 'k \<Rightarrow> bool) option \<Rightarrow> ('k \<Rightarrow> nat) option \<Rightarrow> ('k \<Rightarrow> 'k \<Rightarrow> bool comp) option \<Rightarrow>
    ('k \<Rightarrow> unit idio_num comp) option \<Rightarrow> ('k, 'v) idio_hash comp" where
  "idio_hash sz comp_C hash_C cmp hsh =
    bind_comp
      (case (comp_C, cmp) of (None, None) \<Rightarrow> raise (Hash_error ''no comparator supplied'')
       | (Some _, Some _) \<Rightarrow> raise (Hash_error ''two comparators supplied'')
       | (Some f, None) \<Rightarrow> ret (Comp_C f) | (None, Some f) \<Rightarrow> ret (Comp_Idio f)) (\<lambda>c.
    bind_comp
      (case (hash_C, hsh) of (None, None) \<Rightarrow> raise (Hash_error ''no hashing function supplied'')
       | (Some _, Some _) \<Rightarrow> raise (Hash_error ''two hashing functions supplied'')
       | (Some f, None) \<Rightarrow> ret (Hash_C f) | (None, Some f) \<Rightarrow> ret (Hash_Idio f)) (\<lambda>hf.
    ret (new_hash c hf sz)))"

section \<open>Finding an entry\<close>

text \<open>The value a hash function of the language returned.\<close>

definition hash_number :: "unit idio_num \<Rightarrow> int comp" where
  "hash_number ihvi =
    (case ihvi of Fixnum i \<Rightarrow> ret i
     | Bignum b \<Rightarrow> bind_comp (isa_integer_bignum b) (\<lambda>p.
         if p then bignum_C_value b else raise (Param_type_error ''integer''))
     | _ \<Rightarrow> raise (Param_type_error ''integer''))"

definition hash_fun :: "'k hasher \<Rightarrow> 'k \<Rightarrow> nat comp" where
  "hash_fun hsh k =
    (case hsh of
       Hash_C f \<Rightarrow> ret (f k)
     | Hash_Idio f \<Rightarrow> bind_comp (f k) (\<lambda>ihvi. bind_comp (hash_number ihvi) (\<lambda>hvi.
         if hvi < 0 then raise (Hash_error ''hashing function has returned a negative value'')
         else ret (nat hvi))))"

definition idio_hash_index :: "('k, 'v) idio_hash \<Rightarrow> 'k \<Rightarrow> nat comp" where
  "idio_hash_index h k = bind_comp (hash_fun (hs_hash h) k) (\<lambda>hv. ret (hv AND hs_mask h))"

definition comp_fun :: "'k comparator \<Rightarrow> 'k \<Rightarrow> 'k \<Rightarrow> bool comp" where
  "comp_fun cmp k1 k2 = (case cmp of Comp_C f \<Rightarrow> ret (f k1 k2) | Comp_Idio f \<Rightarrow> f k1 k2)"

definition idio_hash_equal :: "('k, 'v) idio_hash \<Rightarrow> 'k \<Rightarrow> 'k \<Rightarrow> bool comp" where
  "idio_hash_equal h k1 k2 = comp_fun (hs_comp h) k1 k2"

definition bucket :: "('k, 'v) idio_hash \<Rightarrow> nat \<Rightarrow> ('k \<times> 'v) list comp" where
  "bucket h i = (if i < length (hs_ha h) then ret (hs_ha h ! i) else raise Segmentation_fault)"

fun find_he :: "('k \<Rightarrow> 'k \<Rightarrow> bool comp) \<Rightarrow> 'k \<Rightarrow> ('k \<times> 'v) list \<Rightarrow> ('k \<times> 'v) option comp" where
  "find_he eq k [] = ret None"
| "find_he eq k (e # es) = bind_comp (eq k (fst e)) (\<lambda>b. if b then ret (Some e) else find_he eq k es)"

definition hash_he :: "('k, 'v) idio_hash \<Rightarrow> 'k \<Rightarrow> ('k \<times> 'v) option comp" where
  "hash_he h k =
    bind_comp (idio_hash_index h k) (\<lambda>hv. bind_comp (bucket h hv) (find_he (idio_hash_equal h) k))"

definition idio_hash_he :: "('k, 'v) idio_hash \<Rightarrow> 'k option \<Rightarrow> ('k \<times> 'v) option comp" where
  "idio_hash_he h kv =
    (case kv of None \<Rightarrow> raise (Param_nil_error ''idio_hash_he'' ''key'') | Some k \<Rightarrow> hash_he h k)"

definition idio_hash_exists_key :: "('k, 'v) idio_hash \<Rightarrow> 'k option \<Rightarrow> bool comp" where
  "idio_hash_exists_key h kv =
    (case kv of None \<Rightarrow> raise (Param_nil_error ''hash-exists?'' ''key'')
     | Some k \<Rightarrow> bind_comp (idio_hash_he h (Some k)) (\<lambda>he. ret (he \<noteq> None)))"

definition idio_hash_ref :: "'v \<Rightarrow> ('k, 'v) idio_hash \<Rightarrow> 'k option \<Rightarrow> 'v comp" where
  "idio_hash_ref S_unspec h kv =
    (case kv of None \<Rightarrow> raise (Param_nil_error ''hash-ref'' ''key'')
     | Some k \<Rightarrow> bind_comp (idio_hash_he h (Some k)) (\<lambda>he.
         ret (case he of None \<Rightarrow> S_unspec | Some (_, v) \<Rightarrow> v)))"

text \<open>
  \<^verbatim>\<open>idio_hash_reference\<close>: the default is a value or the call of a thunk. The
  function goes by the value \<^verbatim>\<open>#<unspec>\<close>, not by whether there is an entry.
\<close>

definition idio_hash_reference :: "'v \<Rightarrow> ('k, 'v) idio_hash \<Rightarrow> 'k option \<Rightarrow> 'v comp option \<Rightarrow> 'v comp" where
  "idio_hash_reference S_unspec h key arg =
    bind_comp (idio_hash_ref S_unspec h key) (\<lambda>r.
      if r = S_unspec then (case arg of Some dv \<Rightarrow> dv | None \<Rightarrow> raise Hash_key_not_found_error)
      else ret r)"

section \<open>Changing the table\<close>

fun bucket_set :: "('k \<Rightarrow> 'k \<Rightarrow> bool comp) \<Rightarrow> 'k \<Rightarrow> 'v \<Rightarrow> ('k \<times> 'v) list \<Rightarrow> ('k \<times> 'v) list option comp" where
  "bucket_set eq k v [] = ret None"
| "bucket_set eq k v (e # es) =
    bind_comp (eq k (fst e)) (\<lambda>b.
      if b then ret (Some ((fst e, v) # es))
      else bind_comp (bucket_set eq k v es) (\<lambda>r. ret (map_option ((#) e) r)))"

text \<open>\<^verbatim>\<open>idio_hash_put\<close> up to the load check.\<close>

definition put_entry :: "('k, 'v) idio_hash \<Rightarrow> 'k \<Rightarrow> 'v \<Rightarrow> ('k, 'v) idio_hash comp" where
  "put_entry h k v =
    bind_comp (idio_hash_index h k) (\<lambda>hv.
    bind_comp (bucket h hv) (\<lambda>es.
    bind_comp (bucket_set (idio_hash_equal h) k v es) (\<lambda>r.
      ret (case r of
        Some es' \<Rightarrow> h\<lparr>hs_ha := (hs_ha h)[hv := es']\<rparr>
      | None \<Rightarrow> h\<lparr>hs_ha := (hs_ha h)[hv := (k, v) # es], hs_count := hs_count h + 1\<rparr>))))"

definition load_high :: "nat \<Rightarrow> nat" where
  "load_high sz = sz div 2 + sz div 4"

function double_loop :: "nat \<Rightarrow> nat \<Rightarrow> nat" where
  "double_loop hcount nsize = (if nsize \<le> hcount \<and> 0 < nsize then double_loop hcount (nsize * 2) else nsize)"
  by auto
termination by (relation "measure (\<lambda>(c, n). Suc c - n)") auto

fun halve_loop :: "nat \<Rightarrow> nat \<Rightarrow> nat" where
  "halve_loop hcount nsize = (if hcount < nsize then halve_loop hcount (nsize div 2) else nsize)"

declare double_loop.simps [simp del] halve_loop.simps [simp del]

definition resize_size :: "nat \<Rightarrow> nat \<Rightarrow> bool \<Rightarrow> nat" where
  "resize_size osize hcount larger =
    (if larger
     then if load_high osize < hcount then double_loop hcount osize * 2 else osize
     else let load_low = max 8 (osize div 16)
          in if hcount < load_low then max load_low (halve_loop hcount osize * 4) else osize)"

text \<open>
  \<^verbatim>\<open>idio_hash_resize\<close> puts every entry into the new array; \<open>put\<close> is that function,
  which may resize in its turn. Two checks at the end stop the process.
\<close>

definition hash_resize ::
  "(('k, 'v) idio_hash \<Rightarrow> 'k \<Rightarrow> 'v \<Rightarrow> ('k, 'v) idio_hash comp) \<Rightarrow> ('k, 'v) idio_hash \<Rightarrow> bool \<Rightarrow>
    ('k, 'v) idio_hash comp" where
  "hash_resize put h larger =
    (if hs_const h then raise (Const_param_error ''hash'')
     else let osize = hs_mask h + 1; hcount = hs_count h; nsize = resize_size osize hcount larger
          in if nsize = osize then ret h
             else bind_comp
               (fold_comp (\<lambda>(k, v) h. put h k v) (concat (hs_ha h))
                 ((idio_assign_hash_he h nsize)\<lparr>hs_count := 0\<rparr>)) (\<lambda>h'.
               if length (concat (hs_ha h)) \<noteq> hcount then raise (Process_exit 2)
               else if hs_count h' \<noteq> hcount then raise (Process_exit 3)
               else ret h'))"

text \<open>
  \<^verbatim>\<open>idio_hash_put\<close> and \<^verbatim>\<open>idio_hash_resize\<close> call each other. The first argument
  bounds the depth of these calls: \<open>None\<close> when it is used up.
\<close>

fun hash_put :: "nat \<Rightarrow> ('k, 'v) idio_hash \<Rightarrow> 'k \<Rightarrow> 'v \<Rightarrow> ('k, 'v) idio_hash comp" where
  "hash_put 0 h k v = None"
| "hash_put (Suc n) h k v =
    (if hs_const h then raise (Const_param_error ''hash'')
     else bind_comp (put_entry h k v) (\<lambda>h.
       if load_high (hs_size h) < hs_count h then hash_resize (hash_put n) h True else ret h))"

declare hash_put.simps [simp del]

definition put_depth :: nat where "put_depth = 2"

definition idio_hash_put :: "('k, 'v) idio_hash \<Rightarrow> 'k option \<Rightarrow> 'v \<Rightarrow> ('k, 'v) idio_hash comp" where
  "idio_hash_put h kv v =
    (if hs_const h then raise (Const_param_error ''hash'')
     else case kv of None \<Rightarrow> raise (Param_nil_error ''hash-set!'' ''key'') | Some k \<Rightarrow> hash_put put_depth h k v)"

definition idio_hash_resize :: "('k, 'v) idio_hash \<Rightarrow> bool \<Rightarrow> ('k, 'v) idio_hash comp" where
  "idio_hash_resize h larger = hash_resize (hash_put put_depth) h larger"

fun bucket_delete :: "('k \<Rightarrow> 'k \<Rightarrow> bool comp) \<Rightarrow> 'k \<Rightarrow> ('k \<times> 'v) list \<Rightarrow> ('k \<times> 'v) list option comp" where
  "bucket_delete eq k [] = ret None"
| "bucket_delete eq k (e # es) =
    bind_comp (eq k (fst e)) (\<lambda>b.
      if b then ret (Some es)
      else bind_comp (bucket_delete eq k es) (\<lambda>r. ret (map_option ((#) e) r)))"

text \<open>The second component is the C function's result: whether an entry was deleted.\<close>

definition idio_hash_delete :: "('k, 'v) idio_hash \<Rightarrow> 'k option \<Rightarrow> (('k, 'v) idio_hash \<times> bool) comp" where
  "idio_hash_delete h kv =
    (if hs_const h then raise (Const_param_error ''hash'')
     else case kv of None \<Rightarrow> raise (Param_nil_error ''hash-delete!'' ''key'')
     | Some k \<Rightarrow>
         bind_comp (idio_hash_index h k) (\<lambda>hv.
         bind_comp (bucket h hv) (\<lambda>es.
         bind_comp (bucket_delete (idio_hash_equal h) k es) (\<lambda>r.
           case r of None \<Rightarrow> ret (h, False)
           | Some es' \<Rightarrow>
               let h' = h\<lparr>hs_ha := (hs_ha h)[hv := es'], hs_count := hs_count h - 1\<rparr>
               in bind_comp (if hs_count h' < hs_size h' div 16 then idio_hash_resize h' False else ret h')
                    (\<lambda>h'. ret (h', True))))))"

section \<open>Whole-table operations\<close>

definition idio_hash_set :: "('k, 'v) idio_hash \<Rightarrow> 'k option \<Rightarrow> 'v \<Rightarrow> ('k, 'v) idio_hash comp" where
  "idio_hash_set ht key v =
    (if hs_const ht then raise (Const_param_error ''hash'') else idio_hash_put ht key v)"

definition idio_hash_keys_to_list :: "('k, 'v) idio_hash \<Rightarrow> 'k list" where
  "idio_hash_keys_to_list h = fold (\<lambda>es r. fold (\<lambda>e r. fst e # r) es r) (hs_ha h) []"

definition idio_hash_values_to_list :: "('k, 'v) idio_hash \<Rightarrow> 'v list" where
  "idio_hash_values_to_list h = fold (\<lambda>es r. fold (\<lambda>e r. snd e # r) es r) (hs_ha h) []"

text \<open>A copy starts with the size of the number of entries; \<open>idio_copy\<close> copies a value.\<close>

definition idio_copy_hash ::
  "('v \<Rightarrow> 'v comp) \<Rightarrow> ('k, 'v) idio_hash \<Rightarrow> bool \<Rightarrow> ('k, 'v) idio_hash comp" where
  "idio_copy_hash idio_copy orig deep =
    fold_comp (\<lambda>(k, v) h. bind_comp (if deep then idio_copy v else ret v) (\<lambda>v. idio_hash_put h (Some k) v))
      (concat (hs_ha orig))
      (idio_assign_hash_he
        \<lparr>hs_const = False, hs_size = 0, hs_mask = 0, hs_count = 0, hs_comp = hs_comp orig,
         hs_hash = hs_hash orig, hs_ha = []\<rparr> (hs_count orig))"

definition idio_merge_hash :: "('k, 'v) idio_hash \<Rightarrow> ('k, 'v) idio_hash \<Rightarrow> ('k, 'v) idio_hash comp" where
  "idio_merge_hash ht1 ht2 =
    (if hs_const ht1 then raise (Const_param_error ''hash'')
     else fold_comp (\<lambda>(k, v) h. idio_hash_put h (Some k) v) (concat (hs_ha ht2)) ht1)"

text \<open>
  The arguments of \<^verbatim>\<open>make-hash\<close>, each of which may be left out. The C functions
  they stand for are arguments: \<^verbatim>\<open>idio_eqp\<close>, \<^verbatim>\<open>idio_eqvp\<close>, \<^verbatim>\<open>idio_equalp\<close> and
  \<^verbatim>\<open>idio_hash_default_hash_C\<close>.
\<close>

datatype 'k equiv_arg = Equiv_nil | Equiv_eqp | Equiv_eqvp | Equiv_equalp | Equiv_func "'k \<Rightarrow> 'k \<Rightarrow> bool comp"

datatype 'k c_functions =
  C_functions (c_eqp: "'k \<Rightarrow> 'k \<Rightarrow> bool") (c_eqvp: "'k \<Rightarrow> 'k \<Rightarrow> bool") (c_equalp: "'k \<Rightarrow> 'k \<Rightarrow> bool")
    (c_hash: "'k comparator \<Rightarrow> 'k \<Rightarrow> nat")

definition make_comp :: "'k c_functions \<Rightarrow> 'k equiv_arg \<Rightarrow> 'k comparator" where
  "make_comp cf arg =
    (case arg of Equiv_eqp \<Rightarrow> Comp_C (c_eqp cf) | Equiv_eqvp \<Rightarrow> Comp_C (c_eqvp cf)
     | Equiv_equalp \<Rightarrow> Comp_C (c_equalp cf) | Equiv_nil \<Rightarrow> Comp_C (c_equalp cf)
     | Equiv_func f \<Rightarrow> Comp_Idio f)"

text \<open>The size is a fixnum, converted to \<^verbatim>\<open>size_t\<close>.\<close>

definition idio_hash_make_hash ::
  "'k c_functions \<Rightarrow> 'k equiv_arg \<Rightarrow> ('k \<Rightarrow> unit idio_num comp) option \<Rightarrow> 'c idio_num option \<Rightarrow>
    ('k, 'v) idio_hash comp" where
  "idio_hash_make_hash cf eqv hfun isize =
    (let cmp = make_comp cf eqv; hsh = (case hfun of None \<Rightarrow> Hash_C (c_hash cf cmp) | Some f \<Rightarrow> Hash_Idio f)
     in case isize of
       None \<Rightarrow> ret (new_hash cmp hsh 32)
     | Some (Fixnum i) \<Rightarrow> ret (new_hash cmp hsh (nat (i mod 18446744073709551616)))
     | Some _ \<Rightarrow> raise (Param_type_error ''fixnum''))"

text \<open>An element of the association list is a pair of a key, that may be \<^verbatim>\<open>#n\<close>, and a value, or no pair.\<close>

fun alist_loop :: "('k option \<times> 'v) option list \<Rightarrow> ('k, 'v) idio_hash \<Rightarrow> ('k, 'v) idio_hash comp" where
  "alist_loop [] h = ret h"
| "alist_loop (None # al) h = raise (Param_type_error ''not a pair in alist'')"
| "alist_loop (Some (k, v) # al) h =
    bind_comp (idio_hash_exists_key h k) (\<lambda>b.
    bind_comp (if \<not> b then idio_hash_put h k v else ret h) (\<lambda>h. alist_loop al h))"

definition idio_hash_alist_to_hash ::
  "'k c_functions \<Rightarrow> ('k option \<times> 'v) option list \<Rightarrow> 'k equiv_arg \<Rightarrow> ('k \<Rightarrow> unit idio_num comp) option \<Rightarrow>
    'c idio_num option \<Rightarrow> ('k, 'v) idio_hash comp" where
  "idio_hash_alist_to_hash cf alist eqv hfun isize =
    bind_comp (idio_hash_make_hash cf eqv hfun isize) (alist_loop alist)"

definition hash_size :: "('k, 'v) idio_hash \<Rightarrow> 'c idio_num" where
  "hash_size ht = idio_integer (int (hs_count ht))"

definition hash_update ::
  "'v \<Rightarrow> ('k, 'v) idio_hash \<Rightarrow> 'k option \<Rightarrow> ('v \<Rightarrow> 'v comp) \<Rightarrow> 'v comp option \<Rightarrow> ('k, 'v) idio_hash comp" where
  "hash_update S_unspec ht key func arg =
    (if hs_const ht then raise (Const_param_error ''hash'')
     else bind_comp (idio_hash_reference S_unspec ht key arg) (\<lambda>cv.
       bind_comp (func cv) (\<lambda>nv. idio_hash_put ht key nv)))"

text \<open>
  \<^verbatim>\<open>hash-walk\<close> and \<^verbatim>\<open>fold-hash\<close> take the keys first; the function may change the
  world \<open>'w\<close> the table is in.
\<close>

definition hash_walk ::
  "'v \<Rightarrow> ('w \<Rightarrow> ('k, 'v) idio_hash) \<Rightarrow> ('k \<Rightarrow> 'v \<Rightarrow> 'w \<Rightarrow> 'w comp) \<Rightarrow> 'w \<Rightarrow> 'w comp" where
  "hash_walk S_unspec ht func w =
    fold_comp (\<lambda>k w. bind_comp (idio_hash_ref S_unspec (ht w) (Some k)) (\<lambda>v. func k v w))
      (idio_hash_keys_to_list (ht w)) w"

definition fold_hash ::
  "'v \<Rightarrow> ('w \<Rightarrow> ('k, 'v) idio_hash) \<Rightarrow> ('k \<Rightarrow> 'v \<Rightarrow> 'a \<Rightarrow> 'w \<Rightarrow> ('a \<times> 'w) comp) \<Rightarrow> 'a \<Rightarrow> 'w \<Rightarrow> ('a \<times> 'w) comp" where
  "fold_hash S_unspec ht func val w =
    fold_comp (\<lambda>k (val, w). bind_comp (idio_hash_ref S_unspec (ht w) (Some k)) (\<lambda>v. func k v val w))
      (idio_hash_keys_to_list (ht w)) (val, w)"

section \<open>The default hash of immediate values and strings\<close>

text \<open>On a 64-bit \<^verbatim>\<open>intmax_t\<close>; all operations wrap at 64 bits, the string hash at 32.\<close>

definition hash_C_uintmax_t :: "64 word \<Rightarrow> 64 word" where
  "hash_C_uintmax_t i =
    (let hv = (drop_bit 16 i XOR i) * 0x45d9f3b;
         hv = (drop_bit 16 hv XOR hv) * 0x45d9f3b
     in drop_bit 16 hv XOR hv)"

definition hash_C_void :: "64 word \<Rightarrow> 64 word" where
  "hash_C_void p = hash_C_uintmax_t (p XOR drop_bit 5 p)"

definition murmur_step :: "8 word \<Rightarrow> 32 word \<Rightarrow> 32 word" where
  "murmur_step c hv =
    (let hv = (hv XOR scast c) * 0x5bd1e995 in hv XOR drop_bit 15 hv)"

fun murmur_loop :: "8 word list \<Rightarrow> 32 word \<Rightarrow> 32 word" where
  "murmur_loop [] hv = hv"
| "murmur_loop (c # cs) hv = (if c = 0 then hv else murmur_loop cs (murmur_step c hv))"

definition hash_C_string_C_MurmurOAAT_32 :: "8 word list \<Rightarrow> 64 word" where
  "hash_C_string_C_MurmurOAAT_32 s = ucast (murmur_loop s 0x12345678)"

text \<open>
  The keys of this fragment: a fixnum or a constant, that is its own tagged word; a
  string by its bytes; a bignum with the address of its significand.
\<close>

datatype basic_key = Immediate "64 word" | String_key "8 word list" | Bignum_key "64 word" bignum

definition hash_default :: "basic_key \<Rightarrow> nat" where
  "hash_default k =
    unat (case k of Immediate w \<Rightarrow> hash_C_uintmax_t w
          | String_key s \<Rightarrow> hash_C_string_C_MurmurOAAT_32 s
          | Bignum_key p b \<Rightarrow> hash_C_void p)"

text \<open>
  \<^verbatim>\<open>idio_equalp\<close> on these keys: the part of \<^verbatim>\<open>idio_equal\<close> (\<^verbatim>\<open>src/src/util.c\<close>) that
  compares immediate values, strings and bignums. A fixnum and a bignum are compared by
  the function \<^verbatim>\<open>=\<close> of the language.
\<close>

definition number_equal :: "unit idio_num \<Rightarrow> unit idio_num \<Rightarrow> bool" where
  "number_equal a b \<longleftrightarrow> idio_eq a [b] = ret True"

definition key_equalp :: "basic_key \<Rightarrow> basic_key \<Rightarrow> bool" where
  "key_equalp k1 k2 =
    (case (k1, k2) of (Immediate a, Immediate b) \<Rightarrow> a = b
     | (Immediate a, Bignum_key q b) \<Rightarrow> IDIO_TYPE_FIXNUMP a \<and> number_equal (Fixnum (IDIO_FIXNUM_VAL a)) (Bignum b)
     | (Bignum_key p a, Immediate b) \<Rightarrow> IDIO_TYPE_FIXNUMP b \<and> number_equal (Bignum a) (Fixnum (IDIO_FIXNUM_VAL b))
     | (String_key s, String_key t) \<Rightarrow> s = t
     | (Bignum_key p a, Bignum_key q b) \<Rightarrow> real_equal_p a b = ret True
     | _ \<Rightarrow> False)"

end
