(* ===== verification/Hash_Props.thy ===== *)
theory Hash_Props
  imports Idio_Hash
begin

text \<open>
  What a hash table is for: it stands for a map on keys up to equality, and every
  operation acts on that map, through any number of resizes. The lemmas hold for all
  comparison and hash functions that agree with each other (the locale
  \<open>hash_key\<close>).
\<close>

section \<open>Sizes\<close>

lemma mask_loop_eq:
  "\<exists>b. mask_loop s (2 ^ j - 1) = 2 ^ (j + b) - 1 \<and> s < 2 ^ b \<and> (0 < b \<longrightarrow> 2 ^ (b - 1) \<le> s)"
proof (induction s arbitrary: j rule: less_induct)
  case (less s)
  show ?case
  proof (cases "s = 0")
    case True
    then show ?thesis by (intro exI [of _ 0]) (simp add: mask_loop.simps)
  next
    case False
    then obtain b where b: "mask_loop (s div 2) (2 ^ Suc j - 1) = 2 ^ (Suc j + b) - 1" "s div 2 < 2 ^ b"
      "0 < b \<longrightarrow> 2 ^ (b - 1) \<le> s div 2" using less [of "s div 2" "Suc j"] by auto
    have "2 * (2 ^ j - 1) + 1 = (2 ^ Suc j - 1 :: nat)"
      by (cases "2 ^ j :: nat") simp_all
    then have "mask_loop s (2 ^ j - 1) = 2 ^ (j + Suc b) - 1"
      using b(1) False by (simp add: mask_loop.simps [of s])
    moreover have "s < 2 ^ Suc b" using b(2) by simp
    moreover have "2 ^ b \<le> s" using b(3) False by (cases b) auto
    ultimately show ?thesis by (intro exI [of _ "Suc b"]) simp
  qed
qed

text \<open>The size is a power of two, the least that is not below the size asked for.\<close>

lemma hash_mask_eq:
  obtains n where "hash_mask s = 2 ^ n - 1" "s \<le> 2 ^ n" "2 ^ n \<le> max 1 (2 * s - 1)"
proof -
  obtain b where b: "mask_loop s 0 = 2 ^ b - 1" "s < 2 ^ b" "0 < b \<longrightarrow> 2 ^ (b - 1) \<le> s"
    using mask_loop_eq [of s 0] by auto
  show thesis
  proof (cases b)
    case 0
    then show ?thesis using b by (intro that [of 0]) (simp_all add: hash_mask_def)
  next
    case (Suc c)
    have half: "(2 ^ b - 1) div 2 = (2 ^ c - 1 :: nat)" using Suc by (cases "2 ^ c :: nat") simp_all
    have s: "2 ^ c \<le> s" "s < 2 * 2 ^ c" using b Suc by simp_all
    have "s AND (2 ^ c - 1) = s mod 2 ^ c"
      by (simp add: take_bit_eq_mod [symmetric] take_bit_eq_mask mask_eq_exp_minus_1)
    also have "\<dots> = s - 2 ^ c" using s by (simp add: mod_if)
    finally have "s AND (2 ^ c - 1) = 0 \<longleftrightarrow> s = 2 ^ c" using s by simp
    then have m: "hash_mask s = (if s = 2 ^ c then 2 ^ c - 1 else 2 ^ b - 1)"
      using half b(1) by (simp add: hash_mask_def Let_def)
    show ?thesis
    proof (cases "s = 2 ^ c")
      case True
      then show ?thesis using m one_le_power [of "2::nat" c] by (intro that [of c]) simp_all
    next
      case False
      then show ?thesis using m s Suc by (intro that [of b]) simp_all
    qed
  qed
qed

lemma double_loop_bounds:
  assumes "0 < n"
  shows "c < double_loop c n" "n \<le> double_loop c n" "double_loop c n \<le> max n (2 * c)"
  using assms
proof (induction c n rule: double_loop.induct)
  case (1 c n)
  {
    case 1
    then show ?case using "1.IH" by (cases "n \<le> c") (auto simp: double_loop.simps [of _ n])
  next
    case 2
    then show ?case using "1.IH" by (cases "n \<le> c") (auto simp: double_loop.simps [of _ n])
  next
    case 3
    then show ?case using "1.IH" by (cases "n \<le> c") (auto simp: double_loop.simps [of _ n])
  }
qed

lemma halve_loop_bounds: "halve_loop c n \<le> n" "c < n \<Longrightarrow> halve_loop c n \<le> c \<and> c \<le> 2 * halve_loop c n"
proof (induction c n rule: halve_loop.induct)
  case (1 c n)
  {
    case 1
    then show ?case using "1.IH" by (cases "c < n") (auto simp: halve_loop.simps [of _ n])
  next
    case 2
    then show ?case using "1.IH" by (cases "c < n div 2") (auto simp: halve_loop.simps [of _ n] halve_loop.simps [of _ "n div 2"])
  }
qed

section \<open>Chains\<close>

text \<open>A chain as an association list up to the equality \<open>eqk\<close>, searched as the code searches it.\<close>

definition assoc :: "('k \<Rightarrow> 'k \<Rightarrow> bool) \<Rightarrow> ('k \<times> 'v) list \<Rightarrow> 'k \<Rightarrow> 'v option" where
  "assoc eqk es k = map_option snd (find (\<lambda>e. eqk k (fst e)) es)"

fun chain_set :: "('k \<Rightarrow> 'k \<Rightarrow> bool) \<Rightarrow> 'k \<Rightarrow> 'v \<Rightarrow> ('k \<times> 'v) list \<Rightarrow> ('k \<times> 'v) list option" where
  "chain_set eqk k v [] = None"
| "chain_set eqk k v (e # es) =
    (if eqk k (fst e) then Some ((fst e, v) # es) else map_option ((#) e) (chain_set eqk k v es))"

fun chain_delete :: "('k \<Rightarrow> 'k \<Rightarrow> bool) \<Rightarrow> 'k \<Rightarrow> ('k \<times> 'v) list \<Rightarrow> ('k \<times> 'v) list option" where
  "chain_delete eqk k [] = None"
| "chain_delete eqk k (e # es) =
    (if eqk k (fst e) then Some es else map_option ((#) e) (chain_delete eqk k es))"

definition apart :: "('k \<Rightarrow> 'k \<Rightarrow> bool) \<Rightarrow> ('k \<times> 'v) list \<Rightarrow> bool" where
  "apart eqk es = sorted_wrt (\<lambda>e e'. \<not> eqk (fst e) (fst e')) es"

lemma assoc_simps [simp]:
  "assoc eqk [] k = None"
  "assoc eqk (e # es) k = (if eqk k (fst e) then Some (snd e) else assoc eqk es k)"
  by (simp_all add: assoc_def)

lemma apart_simps [simp]:
  "apart eqk []" "apart eqk (e # es) \<longleftrightarrow> (\<forall>e' \<in> set es. \<not> eqk (fst e) (fst e')) \<and> apart eqk es"
  by (simp_all add: apart_def)

lemma assoc_None_iff: "assoc eqk es k = None \<longleftrightarrow> (\<forall>e \<in> set es. \<not> eqk k (fst e))"
  by (induction es) auto

lemma assoc_append: "assoc eqk (es @ fs) k = (case assoc eqk es k of None \<Rightarrow> assoc eqk fs k | Some v \<Rightarrow> Some v)"
  by (induction es) auto

lemma find_he_chain:
  assumes "\<And>e. e \<in> set es \<Longrightarrow> eq k (fst e) = ret (eqk k (fst e))"
  shows "find_he eq k es = ret (find (\<lambda>e. eqk k (fst e)) es)"
    and "bucket_set eq k v es = ret (chain_set eqk k v es)"
    and "bucket_delete eq k es = ret (chain_delete eqk k es)"
  using assms by (induction es) auto

section \<open>Keys\<close>

text \<open>
  The contract between the two functions of a table on the keys \<open>K\<close>: an equivalence
  \<open>eqk\<close>, and a hash \<open>hv\<close> that does not tell equal keys apart.
\<close>

locale hash_key =
  fixes K :: "'k set" and eqk :: "'k \<Rightarrow> 'k \<Rightarrow> bool" and hv :: "'k \<Rightarrow> nat"
  assumes eq_refl: "k \<in> K \<Longrightarrow> eqk k k"
    and eq_sym: "k \<in> K \<Longrightarrow> k' \<in> K \<Longrightarrow> eqk k k' \<Longrightarrow> eqk k' k"
    and eq_trans: "k \<in> K \<Longrightarrow> k' \<in> K \<Longrightarrow> k'' \<in> K \<Longrightarrow> eqk k k' \<Longrightarrow> eqk k' k'' \<Longrightarrow> eqk k k''"
    and hv_eq: "k \<in> K \<Longrightarrow> k' \<in> K \<Longrightarrow> eqk k k' \<Longrightarrow> hv k = hv k'"
begin

lemma eq_cong: "k \<in> K \<Longrightarrow> k' \<in> K \<Longrightarrow> k'' \<in> K \<Longrightarrow> eqk k k' \<Longrightarrow> eqk k k'' \<longleftrightarrow> eqk k' k''"
  using eq_sym [of k k'] eq_trans [of k k' k''] eq_trans [of k' k k''] by blast

text \<open>Two keys are equal to the same third one, or they are not equal to each other.\<close>

lemma eq_third:
  assumes "k \<in> K" "k' \<in> K" "k'' \<in> K" "eqk k k''"
  shows "eqk k' k'' \<longleftrightarrow> eqk k' k"
  using assms eq_sym [of k k''] eq_trans [of k' k'' k] eq_trans [of k' k k''] by blast

lemma assoc_cong: "k \<in> K \<Longrightarrow> k' \<in> K \<Longrightarrow> fst ` set es \<subseteq> K \<Longrightarrow> eqk k k' \<Longrightarrow> assoc eqk es k = assoc eqk es k'"
proof (induction es)
  case (Cons e es)
  then show ?case using eq_cong [of k k' "fst e"] by simp
qed simp

lemma chain_set_None: "chain_set eqk k v es = None \<longleftrightarrow> assoc eqk es k = None"
  by (induction es) auto

lemma chain_set_Some:
  assumes "chain_set eqk k v es = Some es'" "k \<in> K" "fst ` set es \<subseteq> K"
  shows "map fst es' = map fst es"
    and "k' \<in> K \<Longrightarrow> assoc eqk es' k' = (if eqk k' k then Some v else assoc eqk es k')"
proof -
  show "map fst es' = map fst es" using assms(1) by (induction es arbitrary: es') (auto split: if_splits)
  show "k' \<in> K \<Longrightarrow> assoc eqk es' k' = (if eqk k' k then Some v else assoc eqk es k')"
    using assms
  proof (induction es arbitrary: es')
    case (Cons e es)
    have e: "fst e \<in> K" using Cons.prems(4) by simp
    show ?case
    proof (cases "eqk k (fst e)")
      case True
      then have "eqk k' (fst e) \<longleftrightarrow> eqk k' k"
        using eq_third [OF Cons.prems(3,1) e] by simp
      then show ?thesis using True Cons.prems(2) by auto
    next
      case False
      then obtain fs where fs: "chain_set eqk k v es = Some fs" "es' = e # fs" using Cons.prems(2) by auto
      have "eqk k' (fst e) \<Longrightarrow> \<not> eqk k' k" using False eq_cong [OF Cons.prems(1,3) e] by blast
      then show ?thesis using Cons.IH [OF Cons.prems(1) fs(1)] Cons.prems(3,4) fs(2) by auto
    qed
  qed simp
qed

lemma chain_delete_None: "chain_delete eqk k es = None \<longleftrightarrow> assoc eqk es k = None"
  by (induction es) auto

lemma chain_delete_Some:
  assumes "chain_delete eqk k es = Some es'" "k \<in> K" "fst ` set es \<subseteq> K" "apart eqk es"
  shows "length es = Suc (length es')" "set es' \<subseteq> set es" "apart eqk es'"
    and "k' \<in> K \<Longrightarrow> assoc eqk es' k' = (if eqk k' k then None else assoc eqk es k')"
proof -
  show "length es = Suc (length es')" using assms(1) by (induction es arbitrary: es') (auto split: if_splits)
  show sub: "set es' \<subseteq> set es" using assms(1)
    by (induction es arbitrary: es') (auto split: if_splits)
  show "apart eqk es'" using assms(1,4)
  proof (induction es arbitrary: es')
    case (Cons e es)
    have "chain_delete eqk k es = Some fs \<Longrightarrow> set fs \<subseteq> set es" for fs
      by (induction es arbitrary: fs) (auto split: if_splits)
    then show ?case using Cons by (fastforce split: if_splits)
  qed simp
  show "k' \<in> K \<Longrightarrow> assoc eqk es' k' = (if eqk k' k then None else assoc eqk es k')"
    using assms
  proof (induction es arbitrary: es')
    case (Cons e es)
    have e: "fst e \<in> K" using Cons.prems(4) by simp
    have sw: "eqk k' (fst e) \<longleftrightarrow> eqk k' k" if "eqk k (fst e)"
      using eq_third [OF Cons.prems(3,1) e that] .
    show ?case
    proof (cases "eqk k (fst e)")
      case True
      have "eqk k' k \<Longrightarrow> assoc eqk es k' = None"
        unfolding assoc_None_iff using Cons.prems(1,4,5) True sw e eq_cong [OF Cons.prems(1) e] by fastforce
      then show ?thesis using True sw Cons.prems(2) by auto
    next
      case False
      then obtain fs where fs: "chain_delete eqk k es = Some fs" "es' = e # fs" using Cons.prems(2) by auto
      have "eqk k' (fst e) \<Longrightarrow> \<not> eqk k' k" using False eq_cong [OF Cons.prems(1,3) e] by blast
      then show ?thesis using Cons.IH [OF Cons.prems(1) fs(1)] Cons.prems(3-5) fs(2) by auto
    qed
  qed simp
qed

end

section \<open>Well-formed tables\<close>

text \<open>
  A power of two of buckets; an entry is in the bucket of its hash, no two keys are
  equal, the count is that of the entries; and the two functions of the table are
  \<open>hv\<close> and \<open>eqk\<close> on \<open>K\<close>. \<open>hash_lookup\<close> is the map a table stands for.
\<close>

definition functions_ok :: "'k set \<Rightarrow> ('k \<Rightarrow> 'k \<Rightarrow> bool) \<Rightarrow> ('k \<Rightarrow> nat) \<Rightarrow> ('k, 'v) idio_hash \<Rightarrow> bool" where
  "functions_ok K eqk hv h \<longleftrightarrow>
     (\<forall>k \<in> K. hash_fun (hs_hash h) k = ret (hv k)) \<and>
     (\<forall>k \<in> K. \<forall>k' \<in> K. comp_fun (hs_comp h) k k' = ret (eqk k k'))"

definition table_ok :: "'k set \<Rightarrow> ('k \<Rightarrow> 'k \<Rightarrow> bool) \<Rightarrow> ('k \<Rightarrow> nat) \<Rightarrow> ('k, 'v) idio_hash \<Rightarrow> bool" where
  "table_ok K eqk hv h \<longleftrightarrow>
     \<not> hs_const h \<and> functions_ok K eqk hv h \<and>
     (\<exists>n < 64. hs_size h = 2 ^ n) \<and> hs_mask h = hs_size h - 1 \<and> length (hs_ha h) = hs_size h \<and>
     hs_count h = length (concat (hs_ha h)) \<and>
     (\<forall>i < hs_size h. (\<forall>e \<in> set (hs_ha h ! i). fst e \<in> K \<and> hv (fst e) mod hs_size h = i) \<and>
        apart eqk (hs_ha h ! i))"

definition hash_lookup :: "('k \<Rightarrow> 'k \<Rightarrow> bool) \<Rightarrow> ('k \<Rightarrow> nat) \<Rightarrow> ('k, 'v) idio_hash \<Rightarrow> 'k \<Rightarrow> 'v option" where
  "hash_lookup eqk hv h k = assoc eqk (hs_ha h ! (hv k mod hs_size h)) k"

lemma table_okD:
  assumes "table_ok K eqk hv h"
  shows "\<not> hs_const h" "functions_ok K eqk hv h" "0 < hs_size h" "hs_mask h = hs_size h - 1"
    "length (hs_ha h) = hs_size h" "hs_count h = length (concat (hs_ha h))"
    "i < hs_size h \<Longrightarrow> e \<in> set (hs_ha h ! i) \<Longrightarrow> fst e \<in> K"
    "i < hs_size h \<Longrightarrow> e \<in> set (hs_ha h ! i) \<Longrightarrow> hv (fst e) mod hs_size h = i"
    "i < hs_size h \<Longrightarrow> apart eqk (hs_ha h ! i)"
    "\<exists>n < 64. hs_size h = 2 ^ n"
  using assms by (auto simp: table_ok_def)

lemma hash_lookup_cong: "hs_ha h = hs_ha h' \<Longrightarrow> hs_size h = hs_size h' \<Longrightarrow> hash_lookup eqk hv h = hash_lookup eqk hv h'"
  by (simp add: hash_lookup_def fun_eq_iff)

lemma length_concat_update:
  "i < length xss \<Longrightarrow> length (concat (xss[i := ys])) + length (xss ! i) = length (concat xss) + length ys"
  by (induction xss arbitrary: i) (auto split: nat.splits)

text \<open>A new array of buckets.\<close>

lemma assign_hash_he_ok:
  assumes "functions_ok K eqk hv h" "\<not> hs_const h" "sz \<le> 2 ^ 62" and h': "h' = (idio_assign_hash_he h sz)\<lparr>hs_count := 0\<rparr>"
  shows "table_ok K eqk hv h'" "sz \<le> hs_size h'" "hs_count h' = 0"
    "hash_lookup eqk hv h' k = None" "hs_comp h' = hs_comp h" "hs_hash h' = hs_hash h"
proof -
  obtain n where n: "hash_mask sz = 2 ^ n - 1" "sz \<le> 2 ^ n" "2 ^ n \<le> max 1 (2 * sz - 1)"
    by (rule hash_mask_eq)
  have "(2::nat) ^ n < 2 ^ 64"
    using n(3) assms(3) by (auto simp: max_def split: if_splits)
  then have "n < 64" by (simp only: power_strict_increasing_iff)
  have sz: "hash_mask sz + 1 = 2 ^ n" using n(1) by simp
  have eq: "h' = h\<lparr>hs_mask := 2 ^ n - 1, hs_size := 2 ^ n, hs_ha := replicate (2 ^ n) [], hs_count := 0\<rparr>"
    using \<open>2 ^ n < 2 ^ 64\<close> sz n(1) by (simp add: h' idio_assign_hash_he_def Let_def)
  then show "table_ok K eqk hv h'" "sz \<le> hs_size h'" "hs_count h' = 0"
    "hash_lookup eqk hv h' k = None" "hs_comp h' = hs_comp h" "hs_hash h' = hs_hash h"
    using \<open>n < 64\<close> n(2) assms(1,2) by (auto simp: table_ok_def functions_ok_def hash_lookup_def)
qed

context hash_key
begin

lemma index_eq:
  assumes "table_ok K eqk hv h" "k \<in> K"
  shows "idio_hash_index h k = ret (hv k mod hs_size h)"
proof -
  note T = table_okD [OF assms(1)]
  obtain n where "hs_size h = 2 ^ n" using T(10) by blast
  then have "hv k AND hs_mask h = hv k mod hs_size h"
    using T(4) by (simp add: take_bit_eq_mod [symmetric] take_bit_eq_mask mask_eq_exp_minus_1)
  then show ?thesis using T(2) assms(2) by (simp add: idio_hash_index_def functions_ok_def)
qed

lemma bucket_eq: "table_ok K eqk hv h \<Longrightarrow> bucket h (n mod hs_size h) = ret (hs_ha h ! (n mod hs_size h))"
  using table_okD(3,5) [of K eqk hv h] by (simp add: bucket_def)

lemma equal_eq:
  assumes "table_ok K eqk hv h" "k \<in> K" "i < hs_size h" "e \<in> set (hs_ha h ! i)"
  shows "idio_hash_equal h k (fst e) = ret (eqk k (fst e))"
  using table_okD(2,7) [OF assms(1)] assms(2-4) by (simp add: idio_hash_equal_def functions_ok_def)

lemmas chain_search = find_he_chain [where eq = "idio_hash_equal h" and eqk = eqk and k = k for h k]

lemma hash_he_eq:
  assumes "table_ok K eqk hv h" "k \<in> K"
  shows "hash_he h k = ret (find (\<lambda>e. eqk k (fst e)) (hs_ha h ! (hv k mod hs_size h)))"
proof -
  have i: "hv k mod hs_size h < hs_size h" using table_okD(3) [OF assms(1)] by simp
  show ?thesis
    using chain_search(1) [OF equal_eq [OF assms i]]
    by (simp add: hash_he_def index_eq [OF assms] bucket_eq [OF assms(1)])
qed

lemma exists_key_eq:
  assumes "table_ok K eqk hv h" "k \<in> K"
  shows "idio_hash_exists_key h (Some k) = ret (hash_lookup eqk hv h k \<noteq> None)"
  by (simp add: idio_hash_exists_key_def idio_hash_he_def hash_he_eq [OF assms] hash_lookup_def assoc_def)

lemma hash_ref_eq:
  assumes "table_ok K eqk hv h" "k \<in> K"
  shows "idio_hash_ref S_unspec h (Some k) =
    ret (case hash_lookup eqk hv h k of None \<Rightarrow> S_unspec | Some v \<Rightarrow> v)"
  by (simp add: idio_hash_ref_def idio_hash_he_def hash_he_eq [OF assms] hash_lookup_def assoc_def
      split: option.split)

text \<open>Replacing one bucket.\<close>

lemma update_bucket_ok:
  assumes ok: "table_ok K eqk hv h" and i: "i < hs_size h"
    and es: "\<And>e. e \<in> set es \<Longrightarrow> fst e \<in> K \<and> hv (fst e) mod hs_size h = i" "apart eqk es"
    and c: "c + length (hs_ha h ! i) = hs_count h + length es"
  shows "table_ok K eqk hv (h\<lparr>hs_ha := (hs_ha h)[i := es], hs_count := c\<rparr>)"
proof -
  note T = table_okD [OF ok]
  have "c = length (concat ((hs_ha h)[i := es]))"
    using length_concat_update [of i "hs_ha h" es] c T(5,6) i by simp
  then show ?thesis using ok es i by (auto simp: table_ok_def functions_ok_def nth_list_update)
qed

lemma lookup_update_bucket:
  assumes ok: "table_ok K eqk hv h" and k: "k \<in> K" "k' \<in> K"
    and es: "assoc eqk es k' = (if eqk k' k then r else assoc eqk (hs_ha h ! (hv k mod hs_size h)) k')"
  shows "hash_lookup eqk hv (h\<lparr>hs_ha := (hs_ha h)[hv k mod hs_size h := es], hs_count := c\<rparr>) k' =
    (if eqk k' k then r else hash_lookup eqk hv h k')"
proof -
  note T = table_okD [OF ok]
  have "eqk k' k \<Longrightarrow> hv k' = hv k" using hv_eq k by simp
  then show ?thesis using es T(3,5) by (auto simp: hash_lookup_def nth_list_update)
qed

lemma put_entry_ok:
  assumes ok: "table_ok K eqk hv h" and k: "k \<in> K"
  obtains h' where "put_entry h k v = ret h'" "table_ok K eqk hv h'" "hs_size h' = hs_size h"
    "hs_count h' = (if hash_lookup eqk hv h k = None then Suc (hs_count h) else hs_count h)"
    "\<And>k'. k' \<in> K \<Longrightarrow> hash_lookup eqk hv h' k' = (if eqk k' k then Some v else hash_lookup eqk hv h k')"
proof -
  let ?i = "hv k mod hs_size h"
  let ?es = "hs_ha h ! ?i"
  note T = table_okD [OF ok]
  have i: "?i < hs_size h" using T(3) by simp
  have keys: "fst ` set ?es \<subseteq> K" using T(7) [OF i] by auto
  have put: "put_entry h k v = ret (case chain_set eqk k v ?es of
      Some es' \<Rightarrow> h\<lparr>hs_ha := (hs_ha h)[?i := es']\<rparr>
    | None \<Rightarrow> h\<lparr>hs_ha := (hs_ha h)[?i := (k, v) # ?es], hs_count := hs_count h + 1\<rparr>)"
    using chain_search(2) [OF equal_eq [OF ok k i]]
    by (simp add: put_entry_def index_eq [OF ok k] bucket_eq [OF ok])
  show thesis
  proof (cases "chain_set eqk k v ?es")
    case None
    then have no: "assoc eqk ?es k = None" by (simp add: chain_set_None)
    let ?h = "h\<lparr>hs_ha := (hs_ha h)[?i := (k, v) # ?es], hs_count := hs_count h + 1\<rparr>"
    have "\<forall>e \<in> set ?es. \<not> eqk k (fst e)" using no by (simp add: assoc_None_iff)
    then have "table_ok K eqk hv ?h"
      using T(7,8,9) [OF i] k i by (intro update_bucket_ok [OF ok i]) auto
    moreover have "hash_lookup eqk hv ?h k' = (if eqk k' k then Some v else hash_lookup eqk hv h k')"
      if "k' \<in> K" for k' using that k by (intro lookup_update_bucket [OF ok]) auto
    ultimately show ?thesis using None no put by (intro that [of ?h]) (simp_all add: hash_lookup_def)
  next
    case (Some es')
    note S = chain_set_Some [OF Some k keys]
    let ?h = "h\<lparr>hs_ha := (hs_ha h)[?i := es'], hs_count := hs_count h\<rparr>"
    have h: "?h = h\<lparr>hs_ha := (hs_ha h)[?i := es']\<rparr>" by simp
    have len: "length es' = length ?es" using map_eq_imp_length_eq [OF S(1)] .
    have img: "fst ` set es' = fst ` set ?es" using arg_cong [OF S(1), of set] by simp
    have "fst e \<in> K \<and> hv (fst e) mod hs_size h = ?i" if "e \<in> set es'" for e
    proof -
      have "fst e \<in> fst ` set ?es" unfolding img [symmetric] using that by simp
      then obtain e' where "e' \<in> set ?es" "fst e = fst e'" by auto
      then show ?thesis using T(7,8) [OF i] by simp
    qed
    moreover have "apart eqk es'"
      using T(9) [OF i] sorted_wrt_map [of "\<lambda>a b. \<not> eqk a b" fst es']
        sorted_wrt_map [of "\<lambda>a b. \<not> eqk a b" fst ?es] S(1) by (simp add: apart_def)
    ultimately have "table_ok K eqk hv ?h" using len by (intro update_bucket_ok [OF ok i]) auto
    moreover have "hash_lookup eqk hv ?h k' = (if eqk k' k then Some v else hash_lookup eqk hv h k')"
      if "k' \<in> K" for k' using that k S(2) by (intro lookup_update_bucket [OF ok]) auto
    moreover have "hash_lookup eqk hv h k \<noteq> None"
      using Some chain_set_None [of k v ?es] by (auto simp: hash_lookup_def)
    ultimately show ?thesis using Some put by (intro that [of ?h]) (simp_all add: h)
  qed
qed

end

section \<open>Resizing\<close>

definition loaded :: "('k, 'v) idio_hash \<Rightarrow> bool" where
  "loaded h \<longleftrightarrow> hs_count h \<le> load_high (hs_size h)"

lemma load_high_half: "sz div 2 \<le> load_high sz" and load_high_mono: "s \<le> t \<Longrightarrow> load_high s \<le> load_high t"
  by (simp_all add: load_high_def add_mono div_le_mono)

lemma concat_upt: "concat xss = concat (map (\<lambda>i. xss ! i) [0..<length xss])"
  by (simp add: map_nth)

context hash_key
begin

text \<open>All entries, in the order of the buckets.\<close>

lemma entries_ok:
  assumes "table_ok K eqk hv h"
  shows "fst ` set (concat (hs_ha h)) \<subseteq> K" "apart eqk (concat (hs_ha h))"
    "k \<in> K \<Longrightarrow> assoc eqk (concat (hs_ha h)) k = hash_lookup eqk hv h k"
proof -
  note T = table_okD [OF assms]
  show keys: "fst ` set (concat (hs_ha h)) \<subseteq> K"
    using T(5,7) by (fastforce simp: in_set_conv_nth [of _ "hs_ha h"])
  have far: "\<not> eqk k (fst e)" if "k \<in> K" "i < hs_size h" "e \<in> set (hs_ha h ! i)" "hv k mod hs_size h \<noteq> i" for k i e
    using that T(7,8) [OF that(2,3)] hv_eq [of k "fst e"] by auto
  have "apart eqk (concat (map (\<lambda>i. hs_ha h ! i) [n..<n + m]))" if "n + m \<le> hs_size h" for n m
    using that
  proof (induction m)
    case (Suc m)
    have "\<not> eqk (fst e) (fst e')" if "j < m" "e \<in> set (hs_ha h ! (n + j))" "e' \<in> set (hs_ha h ! (n + m))" for j e e'
      using that Suc.prems far [of "fst e" "n + m" e'] T(7,8) [of "n + j" e] by auto
    then have "\<forall>e \<in> set (concat (map (\<lambda>i. hs_ha h ! i) [n..<n + m])). \<forall>e' \<in> set (hs_ha h ! (n + m)). \<not> eqk (fst e) (fst e')"
      by (auto simp: le_iff_add)
    then show ?case
      using Suc.IH Suc.prems T(9) [of "n + m"] by (simp add: apart_def sorted_wrt_append)
  qed simp
  from this [of 0 "hs_size h"] show "apart eqk (concat (hs_ha h))"
    using T(5) by (subst concat_upt) simp
  show "assoc eqk (concat (hs_ha h)) k = hash_lookup eqk hv h k" if k: "k \<in> K"
  proof -
    let ?i = "hv k mod hs_size h"
    have i: "?i < hs_size h" using T(3) by simp
    have no: "assoc eqk (concat (map (\<lambda>i. hs_ha h ! i) is)) k = None"
      if "\<forall>j \<in> set is. j < hs_size h \<and> j \<noteq> ?i" for "is"
      using that far [OF k] by (auto simp: assoc_None_iff)
    have "[0..<hs_size h] = [0..<?i] @ [?i..<hs_size h]"
      using upt_add_eq_append [of 0 ?i "hs_size h - ?i"] i by simp
    then have "[0..<hs_size h] = [0..<?i] @ [?i] @ [Suc ?i..<hs_size h]" using i by (simp add: upt_conv_Cons)
    then have "concat (hs_ha h) = concat (map (\<lambda>i. hs_ha h ! i) [0..<?i]) @ hs_ha h ! ?i @
        concat (map (\<lambda>i. hs_ha h ! i) [Suc ?i..<hs_size h])"
      using concat_upt [of "hs_ha h"] T(5) by simp
    then show ?thesis
      using no [of "[0..<?i]"] no [of "[Suc ?i..<hs_size h]"] i
      by (simp add: assoc_append hash_lookup_def split: option.split)
  qed
qed

text \<open>
  Putting entries into a table with room for them: the depth of the calls is one,
  since no put resizes.
\<close>

lemma fold_puts:
  assumes "table_ok K eqk hv h" "fst ` set es \<subseteq> K" "apart eqk es"
    and "\<And>e. e \<in> set es \<Longrightarrow> hash_lookup eqk hv h (fst e) = None"
    and "hs_count h + length es \<le> load_high (hs_size h)"
  shows "\<exists>h'. fold_comp (\<lambda>(k, v) h. hash_put (Suc n) h k v) es h = ret h' \<and> table_ok K eqk hv h' \<and>
    hs_size h' = hs_size h \<and> hs_count h' = hs_count h + length es \<and>
    (\<forall>k \<in> K. hash_lookup eqk hv h' k = (case assoc eqk es k of Some v \<Rightarrow> Some v | None \<Rightarrow> hash_lookup eqk hv h k))"
  using assms
proof (induction es arbitrary: h)
  case (Cons e es)
  obtain k v where e: "e = (k, v)" by (cases e)
  then have k: "k \<in> K" using Cons.prems(2) by simp
  obtain h1 where h1: "put_entry h k v = ret h1" "table_ok K eqk hv h1" "hs_size h1 = hs_size h"
    "hs_count h1 = Suc (hs_count h)"
    "\<And>k'. k' \<in> K \<Longrightarrow> hash_lookup eqk hv h1 k' = (if eqk k' k then Some v else hash_lookup eqk hv h k')"
    using put_entry_ok [OF Cons.prems(1) k, of v] Cons.prems(4) [of e] e by auto
  have put: "hash_put (Suc n) h k v = ret h1"
    using h1(1,3,4) Cons.prems(5) table_okD(1) [OF Cons.prems(1)] by (simp add: hash_put.simps)
  have "hash_lookup eqk hv h1 (fst e') = None" if "e' \<in> set es" for e'
  proof -
    have "fst e' \<in> K" "\<not> eqk k (fst e')" using that Cons.prems(2,3) e by auto
    then have "\<not> eqk (fst e') k" using eq_sym k by blast
    then show ?thesis using h1(5) [OF \<open>fst e' \<in> K\<close>] Cons.prems(4) [of e'] that by simp
  qed
  then obtain h' where h': "fold_comp (\<lambda>(k, v) h. hash_put (Suc n) h k v) es h1 = ret h'" "table_ok K eqk hv h'"
    "hs_size h' = hs_size h" "hs_count h' = hs_count h + length (e # es)"
    "\<forall>k \<in> K. hash_lookup eqk hv h' k = (case assoc eqk es k of Some v \<Rightarrow> Some v | None \<Rightarrow> hash_lookup eqk hv h1 k)"
    using Cons.IH [OF h1(2)] Cons.prems(2,3,5) h1(3,4) by auto
  have "hash_lookup eqk hv h' k' = (case assoc eqk (e # es) k' of Some v \<Rightarrow> Some v | None \<Rightarrow> hash_lookup eqk hv h k')"
    if k': "k' \<in> K" for k'
  proof (cases "eqk k' k")
    case True
    have "\<not> eqk k' (fst e')" if "e' \<in> set es" for e'
    proof -
      have "fst e' \<in> K" "\<not> eqk k (fst e')" using that Cons.prems(2,3) e by auto
      then show ?thesis using True eq_cong [OF k' k] by blast
    qed
    then have "assoc eqk es k' = None" by (simp add: assoc_None_iff)
    then show ?thesis using h'(5) h1(5) [OF k'] k' True e by simp
  qed (use h'(5) h1(5) [OF k'] k' e in \<open>simp split: option.split\<close>)
  then show ?case using h' put e by auto
qed simp

lemma hash_resize_ok:
  assumes ok: "table_ok K eqk hv h"
    and nsize: "nsize = resize_size (hs_size h) (hs_count h) larger" "nsize \<le> 2 ^ 62" "hs_count h \<le> load_high nsize"
  obtains h' where "hash_resize (hash_put (Suc n)) h larger = ret h'" "table_ok K eqk hv h'" "loaded h'"
    "hs_count h' = hs_count h" "nsize \<le> hs_size h'" "\<And>k. k \<in> K \<Longrightarrow> hash_lookup eqk hv h' k = hash_lookup eqk hv h k"
proof -
  note T = table_okD [OF ok]
  have os: "hs_mask h + 1 = hs_size h" using T(3,4) by simp
  show thesis
  proof (cases "nsize = hs_size h")
    case True
    then show ?thesis using ok nsize os T(1) by (intro that [of h]) (simp_all add: hash_resize_def loaded_def)
  next
    case False
    let ?h0 = "(idio_assign_hash_he h nsize)\<lparr>hs_count := 0\<rparr>"
    note A = assign_hash_he_ok [OF T(2,1) nsize(2) refl]
    have room: "hs_count ?h0 + length (concat (hs_ha h)) \<le> load_high (hs_size ?h0)"
      using nsize(3) load_high_mono [OF A(2)] T(6) A(3) by simp
    note E = entries_ok [OF ok]
    obtain h' where h': "fold_comp (\<lambda>(k, v) h. hash_put (Suc n) h k v) (concat (hs_ha h)) ?h0 = ret h'"
      "table_ok K eqk hv h'" "hs_size h' = hs_size ?h0" "hs_count h' = length (concat (hs_ha h))"
      "\<forall>k \<in> K. hash_lookup eqk hv h' k = assoc eqk (concat (hs_ha h)) k"
      using fold_puts [OF A(1) E(1,2) A(4) room, of n] A(3,4) by (auto simp: option.case_eq_if)
    then show ?thesis
      using False nsize(1) os T(1,6) E(3) A(2,3) room
      by (intro that [of h']) (simp_all add: hash_resize_def loaded_def)
  qed
qed

lemma hash_put_ok:
  assumes ok: "table_ok K eqk hv h" and k: "k \<in> K" and c: "hs_count h < 2 ^ 60"
  obtains h' where "hash_put (Suc (Suc n)) h k v = ret h'" "table_ok K eqk hv h'" "loaded h'"
    "hs_count h' = (if hash_lookup eqk hv h k = None then Suc (hs_count h) else hs_count h)"
    "\<And>k'. k' \<in> K \<Longrightarrow> hash_lookup eqk hv h' k' = (if eqk k' k then Some v else hash_lookup eqk hv h k')"
proof -
  obtain h1 where h1: "put_entry h k v = ret h1" "table_ok K eqk hv h1" "hs_size h1 = hs_size h"
    "hs_count h1 = (if hash_lookup eqk hv h k = None then Suc (hs_count h) else hs_count h)"
    "\<And>k'. k' \<in> K \<Longrightarrow> hash_lookup eqk hv h1 k' = (if eqk k' k then Some v else hash_lookup eqk hv h k')"
    using put_entry_ok [OF ok k, of v] by blast
  have nc: "\<not> hs_const h" using table_okD(1) [OF ok] .
  show thesis
  proof (cases "load_high (hs_size h1) < hs_count h1")
    case False
    then show ?thesis using h1 nc by (intro that [of h1]) (simp_all add: hash_put.simps loaded_def)
  next
    case True
    let ?d = "double_loop (hs_count h1) (hs_size h1)"
    note D = double_loop_bounds [OF table_okD(3) [OF h1(2)], of "hs_count h1"]
    have d: "resize_size (hs_size h1) (hs_count h1) True = ?d * 2" using True by (simp add: resize_size_def)
    have "hs_count h1 \<le> 2 ^ 60" using h1(4) c by auto
    moreover have "hs_size h1 div 2 < hs_count h1" using True load_high_half [of "hs_size h1"] by simp
    ultimately have "?d * 2 \<le> 2 ^ 62" using D(3) by simp
    moreover have "hs_count h1 \<le> load_high (?d * 2)" using load_high_half [of "?d * 2"] D(1) by simp
    ultimately obtain h' where "hash_resize (hash_put (Suc n)) h1 True = ret h'" "table_ok K eqk hv h'" "loaded h'"
      "hs_count h' = hs_count h1" "\<And>k. k \<in> K \<Longrightarrow> hash_lookup eqk hv h' k = hash_lookup eqk hv h1 k"
      using hash_resize_ok [OF h1(2) d [symmetric], of n] by metis
    then show ?thesis using h1 nc True by (intro that [of h']) (simp_all add: hash_put.simps)
  qed
qed

end

section \<open>The operations on the map\<close>

definition hash_ok :: "'k set \<Rightarrow> ('k \<Rightarrow> 'k \<Rightarrow> bool) \<Rightarrow> ('k \<Rightarrow> nat) \<Rightarrow> ('k, 'v) idio_hash \<Rightarrow> bool" where
  "hash_ok K eqk hv h \<longleftrightarrow> table_ok K eqk hv h \<and> loaded h"

text \<open>Few enough entries that no size overflows.\<close>

definition hash_room :: "('k, 'v) idio_hash \<Rightarrow> nat" where
  "hash_room h = 2 ^ 60 - hs_count h"

context hash_key
begin

lemma new_hash_ok:
  assumes "functions_ok K eqk hv h" "\<not> hs_const h" "hs_count h = 0" "sz \<le> 2 ^ 62"
  shows "hash_ok K eqk hv (idio_assign_hash_he h sz)" "hash_lookup eqk hv (idio_assign_hash_he h sz) k = None"
    "hs_count (idio_assign_hash_he h sz) = 0"
proof -
  have eq: "(idio_assign_hash_he h sz)\<lparr>hs_count := 0\<rparr> = idio_assign_hash_he h sz"
    using assms(3) by (simp add: idio_assign_hash_he_def Let_def)
  note A = assign_hash_he_ok [OF assms(1,2,4) eq [symmetric]]
  show "hash_ok K eqk hv (idio_assign_hash_he h sz)" using A by (simp add: hash_ok_def loaded_def)
  show "hash_lookup eqk hv (idio_assign_hash_he h sz) k = None" using A by simp
  show "hs_count (idio_assign_hash_he h sz) = 0" using A by simp
qed

lemma put_ok:
  assumes "hash_ok K eqk hv h" "k \<in> K" "0 < hash_room h"
  obtains h' where "idio_hash_put h (Some k) v = ret h'" "hash_ok K eqk hv h'"
    "hs_count h' = (if hash_lookup eqk hv h k = None then Suc (hs_count h) else hs_count h)"
    "\<And>k'. k' \<in> K \<Longrightarrow> hash_lookup eqk hv h' k' = (if eqk k' k then Some v else hash_lookup eqk hv h k')"
proof -
  have ok: "table_ok K eqk hv h" "hs_count h < 2 ^ 60" "\<not> hs_const h"
    using assms table_okD(1) [of K eqk hv h] by (simp_all add: hash_ok_def hash_room_def)
  obtain h' where "hash_put (Suc (Suc 0)) h k v = ret h'" "table_ok K eqk hv h'" "loaded h'"
    "hs_count h' = (if hash_lookup eqk hv h k = None then Suc (hs_count h) else hs_count h)"
    "\<And>k'. k' \<in> K \<Longrightarrow> hash_lookup eqk hv h' k' = (if eqk k' k then Some v else hash_lookup eqk hv h k')"
    using hash_put_ok [OF ok(1) assms(2) ok(2), of 0 v] by blast
  moreover have "idio_hash_put h (Some k) v = hash_put (Suc (Suc 0)) h k v"
    using ok(3) by (simp add: idio_hash_put_def put_depth_def numeral_2_eq_2)
  ultimately show ?thesis by (intro that [of h']) (simp_all add: hash_ok_def)
qed

lemma shrink_size:
  assumes "c < sz div 16"
  shows "c \<le> load_high (resize_size sz c False)" "resize_size sz c False \<le> max 8 (sz div 4)"
proof -
  have "c < sz" using assms by linarith
  note H = halve_loop_bounds(2) [OF this]
  have r: "resize_size sz c False = max (max 8 (sz div 16)) (halve_loop c sz * 4)"
    using assms by (simp add: resize_size_def max.strict_coboundedI2)
  have "c \<le> (halve_loop c sz * 4) div 2" using H by simp
  also have "\<dots> \<le> load_high (halve_loop c sz * 4)" by (rule load_high_half)
  also have "\<dots> \<le> load_high (resize_size sz c False)" by (rule load_high_mono) (simp add: r)
  finally show "c \<le> load_high (resize_size sz c False)" .
  have "halve_loop c sz * 4 \<le> sz div 4" using H assms by linarith
  then show "resize_size sz c False \<le> max 8 (sz div 4)" unfolding r by (auto simp: max_def)
qed

lemma delete_ok:
  assumes h: "hash_ok K eqk hv h" and k: "k \<in> K"
  obtains h' where "idio_hash_delete h (Some k) = ret (h', hash_lookup eqk hv h k \<noteq> None)" "hash_ok K eqk hv h'"
    "hs_count h' = (if hash_lookup eqk hv h k = None then hs_count h else hs_count h - 1)"
    "\<And>k'. k' \<in> K \<Longrightarrow> hash_lookup eqk hv h' k' = (if eqk k' k then None else hash_lookup eqk hv h k')"
proof -
  let ?i = "hv k mod hs_size h"
  let ?es = "hs_ha h ! ?i"
  have ok: "table_ok K eqk hv h" and ld: "loaded h" using h by (simp_all add: hash_ok_def)
  note T = table_okD [OF ok]
  have i: "?i < hs_size h" using T(3) by simp
  have keys: "fst ` set ?es \<subseteq> K" using T(7) [OF i] by auto
  note B = chain_search(3) [OF equal_eq [OF ok k i]]
  note simps = idio_hash_delete_def T(1) index_eq [OF ok k] bucket_eq [OF ok] B
  show thesis
  proof (cases "chain_delete eqk k ?es")
    case None
    then have no: "hash_lookup eqk hv h k = None" by (simp add: chain_delete_None hash_lookup_def)
    have "eqk k' k \<Longrightarrow> hash_lookup eqk hv h k' = None" if "k' \<in> K" for k'
      using no assoc_cong [OF k that _ eq_sym [OF that k]] entries_ok(1,3) [OF ok] k that by metis
    then show ?thesis using None no h by (intro that [of h]) (auto simp: simps)
  next
    case (Some es')
    note D = chain_delete_Some [OF Some k keys T(9) [OF i]]
    let ?h = "h\<lparr>hs_ha := (hs_ha h)[?i := es'], hs_count := hs_count h - 1\<rparr>"
    have "length ?es \<le> hs_count h"
      using length_concat_update [of ?i "hs_ha h" "[]"] T(5,6) i by simp
    then have okh: "table_ok K eqk hv ?h"
      using D(1,2,3) T(7,8) [OF i] by (intro update_bucket_ok [OF ok i]) auto
    have look: "hash_lookup eqk hv ?h k' = (if eqk k' k then None else hash_lookup eqk hv h k')" if "k' \<in> K" for k'
      using that k D(4) by (intro lookup_update_bucket [OF ok]) auto
    have some: "hash_lookup eqk hv h k \<noteq> None"
      using Some chain_delete_None [of k ?es] by (auto simp: hash_lookup_def)
    show ?thesis
    proof (cases "hs_count ?h < hs_size ?h div 16")
      case False
      then have "idio_hash_delete h (Some k) = ret (?h, True)" using Some by (simp add: simps Let_def)
      moreover have "loaded ?h" using ld by (simp add: loaded_def)
      ultimately show ?thesis using okh look some by (intro that [of ?h]) (auto simp: hash_ok_def)
    next
      case True
      let ?n = "resize_size (hs_size ?h) (hs_count ?h) False"
      note S = shrink_size [OF True]
      obtain m where "m < 64" "hs_size h = 2 ^ m" using T(10) by blast
      then have "hs_size h \<le> 2 ^ 63" using power_increasing [of m 63 "2::nat"] by simp
      then have "?n \<le> 2 ^ 62" using S(2) by (auto simp: max_def split: if_splits)
      then obtain h' where h': "hash_resize (hash_put (Suc (Suc 0))) ?h False = ret h'" "table_ok K eqk hv h'" "loaded h'"
        "hs_count h' = hs_count ?h" "\<And>k. k \<in> K \<Longrightarrow> hash_lookup eqk hv h' k = hash_lookup eqk hv ?h k"
        using hash_resize_ok [OF okh refl _ S(1), of "Suc 0"] by metis
      have "idio_hash_delete h (Some k) = ret (h', True)"
        using Some True h'(1) by (simp add: simps Let_def idio_hash_resize_def put_depth_def numeral_2_eq_2)
      then show ?thesis using h' look some by (intro that [of h']) (auto simp: hash_ok_def)
    qed
  qed
qed

end

section \<open>Clients of the table\<close>

text \<open>
  What \<^verbatim>\<open>alist->hash\<close>, \<^verbatim>\<open>copy-hash\<close>, \<^verbatim>\<open>merge-hash!\<close> and \<^verbatim>\<open>hash-update!\<close> use of a table:
  \<open>look\<close> is the map it stands for, \<open>put\<close> and \<open>has\<close> act on it while there is room.
\<close>

locale map_table =
  fixes K :: "'k set" and eqk :: "'k \<Rightarrow> 'k \<Rightarrow> bool" and ok :: "'h \<Rightarrow> bool" and room :: "'h \<Rightarrow> nat"
    and look :: "'h \<Rightarrow> 'k \<Rightarrow> 'v option"
    and put :: "'h \<Rightarrow> 'k option \<Rightarrow> 'v \<Rightarrow> 'h comp" and has :: "'h \<Rightarrow> 'k option \<Rightarrow> bool comp"
  assumes put: "ok h \<Longrightarrow> k \<in> K \<Longrightarrow> 0 < room h \<Longrightarrow>
      \<exists>h'. put h (Some k) v = ret h' \<and> ok h' \<and> room h \<le> Suc (room h') \<and>
        (\<forall>k' \<in> K. look h' k' = (if eqk k' k then Some v else look h k'))"
    and has: "ok h \<Longrightarrow> k \<in> K \<Longrightarrow> has h (Some k) = ret (look h k \<noteq> None)"
    and look_eq: "ok h \<Longrightarrow> k \<in> K \<Longrightarrow> k' \<in> K \<Longrightarrow> eqk k' k \<Longrightarrow> look h k' = look h k"
begin

text \<open>The last of several values for equal keys stays.\<close>

lemma put_all:
  assumes "ok h" "fst ` set es \<subseteq> K" "length es \<le> room h"
  shows "\<exists>h'. fold_comp (\<lambda>(k, v) h. put h (Some k) v) es h = ret h' \<and> ok h' \<and> room h \<le> room h' + length es \<and>
    (\<forall>k \<in> K. look h' k = (case assoc eqk (rev es) k of Some v \<Rightarrow> Some v | None \<Rightarrow> look h k))"
  using assms
proof (induction es arbitrary: h)
  case (Cons e es)
  obtain k v where e: "e = (k, v)" by (cases e)
  then have k: "k \<in> K" "0 < room h" using Cons.prems(2,3) by auto
  obtain h1 where h1: "put h (Some k) v = ret h1" "ok h1" "room h \<le> Suc (room h1)"
    "\<forall>k' \<in> K. look h1 k' = (if eqk k' k then Some v else look h k')"
    using put [OF Cons.prems(1) k] by blast
  moreover obtain h' where "fold_comp (\<lambda>(k, v) h. put h (Some k) v) es h1 = ret h'" "ok h'"
    "room h1 \<le> room h' + length es"
    "\<forall>k \<in> K. look h' k = (case assoc eqk (rev es) k of Some v \<Rightarrow> Some v | None \<Rightarrow> look h1 k)"
    using Cons.IH [OF h1(2)] Cons.prems(2,3) h1(3) by auto
  ultimately show ?case using e by (auto simp: assoc_append split: option.split)
qed simp

text \<open>An association list: the first value for equal keys stays.\<close>

lemma put_absent_all:
  assumes "ok h" "fst ` set es \<subseteq> K" "length es \<le> room h"
  shows "\<exists>h'. fold_comp (\<lambda>(k, v) h. bind_comp (has h (Some k)) (\<lambda>b. if \<not> b then put h (Some k) v else ret h)) es h = ret h' \<and>
    ok h' \<and> room h \<le> room h' + length es \<and>
    (\<forall>k \<in> K. look h' k = (case look h k of Some v \<Rightarrow> Some v | None \<Rightarrow> assoc eqk es k))"
  using assms
proof (induction es arbitrary: h)
  case Nil
  then show ?case by (auto split: option.split)
next
  case (Cons e es)
  obtain k v where e: "e = (k, v)" by (cases e)
  then have k: "k \<in> K" "0 < room h" using Cons.prems(2,3) by auto
  define step where "step = bind_comp (has h (Some k)) (\<lambda>b. if \<not> b then put h (Some k) v else ret h)"
  have "\<exists>h1. step = ret h1 \<and> ok h1 \<and> room h \<le> Suc (room h1) \<and>
      (\<forall>k' \<in> K. look h1 k' = (if eqk k' k \<and> look h k = None then Some v else look h k'))"
    using put [OF Cons.prems(1) k, of v] has [OF Cons.prems(1) k(1)] Cons.prems(1)
    by (cases "look h k") (auto simp: step_def)
  then obtain h1 where h1: "step = ret h1" "ok h1" "room h \<le> Suc (room h1)"
    "\<forall>k' \<in> K. look h1 k' = (if eqk k' k \<and> look h k = None then Some v else look h k')" by blast
  obtain h' where h': "fold_comp (\<lambda>(k, v) h. bind_comp (has h (Some k)) (\<lambda>b. if \<not> b then put h (Some k) v else ret h)) es h1 = ret h'"
    "ok h'" "room h1 \<le> room h' + length es"
    "\<forall>k \<in> K. look h' k = (case look h1 k of Some v \<Rightarrow> Some v | None \<Rightarrow> assoc eqk es k)"
    using Cons.IH [OF h1(2)] Cons.prems(2,3) h1(3) by auto
  have "look h' k' = (case look h k' of Some v \<Rightarrow> Some v | None \<Rightarrow> assoc eqk (e # es) k')" if "k' \<in> K" for k'
    using h'(4) h1(4) that look_eq [OF Cons.prems(1) k(1) that] e by (auto split: option.split)
  then show ?case using h' h1(1,3) e by (auto simp: step_def)
qed

end

context hash_key
begin

lemma map_table_hash:
  "map_table K eqk (hash_ok K eqk hv) hash_room (hash_lookup eqk hv)
     (idio_hash_put :: ('k, 'v) idio_hash \<Rightarrow> 'k option \<Rightarrow> 'v \<Rightarrow> ('k, 'v) idio_hash comp) idio_hash_exists_key"
proof
  fix h :: "('k, 'v) idio_hash" and k v
  assume h: "hash_ok K eqk hv h" and k: "k \<in> K" and r: "0 < hash_room h"
  obtain h' where "idio_hash_put h (Some k) v = ret h'" "hash_ok K eqk hv h'"
    "hs_count h' \<le> Suc (hs_count h)"
    "\<And>k'. k' \<in> K \<Longrightarrow> hash_lookup eqk hv h' k' = (if eqk k' k then Some v else hash_lookup eqk hv h k')"
    using put_ok [OF h k r, of v] by (metis le_SucI order_refl)
  then show "\<exists>h'. idio_hash_put h (Some k) v = ret h' \<and> hash_ok K eqk hv h' \<and> hash_room h \<le> Suc (hash_room h') \<and>
      (\<forall>k' \<in> K. hash_lookup eqk hv h' k' = (if eqk k' k then Some v else hash_lookup eqk hv h k'))"
    by (auto simp: hash_room_def)
next
  fix h :: "('k, 'v) idio_hash" and k
  assume "hash_ok K eqk hv h" "k \<in> K"
  then show "idio_hash_exists_key h (Some k) = ret (hash_lookup eqk hv h k \<noteq> None)"
    by (simp add: exists_key_eq hash_ok_def)
next
  fix h :: "('k, 'v) idio_hash" and k k'
  assume h: "hash_ok K eqk hv h" and k: "k \<in> K" "k' \<in> K" "eqk k' k"
  then have "table_ok K eqk hv h" by (simp add: hash_ok_def)
  from entries_ok(1,3) [OF this] k show "hash_lookup eqk hv h k' = hash_lookup eqk hv h k"
    using assoc_cong [OF k(2,1) _ k(3)] by metis
qed

end

sublocale hash_key \<subseteq> ht: map_table K eqk "hash_ok K eqk hv" hash_room "hash_lookup eqk hv"
    "idio_hash_put :: ('k, 'v) idio_hash \<Rightarrow> 'k option \<Rightarrow> 'v \<Rightarrow> ('k, 'v) idio_hash comp" idio_hash_exists_key
  by (rule map_table_hash)

context hash_key
begin

lemma merge_ok:
  fixes h1 h2 :: "('k, 'v) idio_hash"
  assumes "hash_ok K eqk hv h1" "table_ok K eqk hv h2" "hs_count h2 \<le> hash_room h1"
  obtains h' where "idio_merge_hash h1 h2 = ret h'" "hash_ok K eqk hv h'"
    "\<And>k. k \<in> K \<Longrightarrow> hash_lookup eqk hv h' k =
      (case hash_lookup eqk hv h2 k of Some v \<Rightarrow> Some v | None \<Rightarrow> hash_lookup eqk hv h1 k)"
proof -
  note E = entries_ok [OF assms(2)]
  have rev: "assoc eqk (rev es) k = assoc eqk es k" if "apart eqk es" "fst ` set es \<subseteq> K" "k \<in> K" for es :: "('k \<times> 'v) list" and k
    using that
  proof (induction es)
    case (Cons e es)
    have "eqk k (fst e) \<Longrightarrow> assoc eqk es k = None"
      unfolding assoc_None_iff using Cons.prems eq_cong [OF Cons.prems(3), of "fst e"] by fastforce
    then show ?case using Cons by (auto simp: assoc_append split: option.split)
  qed simp
  have "length (concat (hs_ha h2)) \<le> hash_room h1" using assms(3) table_okD(6) [OF assms(2)] by simp
  from ht.put_all [OF assms(1) E(1) this] obtain h' where h': "idio_merge_hash h1 h2 = ret h'" "hash_ok K eqk hv h'"
    "\<forall>k \<in> K. hash_lookup eqk hv h' k = (case assoc eqk (rev (concat (hs_ha h2))) k of
      Some v \<Rightarrow> Some v | None \<Rightarrow> hash_lookup eqk hv h1 k)"
    using table_okD(1) [of K eqk hv h1] assms(1) by (auto simp: idio_merge_hash_def hash_ok_def)
  then show ?thesis using rev [OF E(2,1)] E(3) by (intro that [of h']) simp_all
qed

lemma copy_ok:
  fixes h :: "('k, 'v) idio_hash"
  assumes "table_ok K eqk hv h" "hs_count h \<le> 2 ^ 60"
  obtains h' where "idio_copy_hash idio_copy h False = ret h'" "hash_ok K eqk hv h'"
    "\<And>k. k \<in> K \<Longrightarrow> hash_lookup eqk hv h' k = hash_lookup eqk hv h k"
proof -
  let ?n = "\<lparr>hs_const = False, hs_size = 0, hs_mask = 0, hs_count = 0, hs_comp = hs_comp h,
         hs_hash = hs_hash h, hs_ha = []\<rparr> :: ('k, 'v) idio_hash"
  have "functions_ok K eqk hv ?n" using table_okD(2) [OF assms(1)] by (simp add: functions_ok_def)
  then have N: "hash_ok K eqk hv (idio_assign_hash_he ?n (hs_count h))"
    "\<And>k. hash_lookup eqk hv (idio_assign_hash_he ?n (hs_count h)) k = None"
    "hs_count (idio_assign_hash_he ?n (hs_count h)) = 0"
    using new_hash_ok [of ?n "hs_count h"] assms(2) by simp_all
  have "hs_count h \<le> hash_room (idio_assign_hash_he ?n (hs_count h))"
    using N(3) assms(2) by (simp add: hash_room_def)
  then obtain h' where "idio_merge_hash (idio_assign_hash_he ?n (hs_count h)) h = ret h'" "hash_ok K eqk hv h'"
    "\<And>k. k \<in> K \<Longrightarrow> hash_lookup eqk hv h' k = (case hash_lookup eqk hv h k of Some v \<Rightarrow> Some v | None \<Rightarrow> None)"
    using merge_ok [OF N(1) assms(1)] unfolding N(2) by blast
  moreover have "\<not> hs_const (idio_assign_hash_he ?n (hs_count h))"
    by (simp add: idio_assign_hash_he_def Let_def)
  ultimately show ?thesis
    by (intro that [of h']) (auto simp: idio_copy_hash_def idio_merge_hash_def split: option.split)
qed

lemma alist_ok:
  fixes es :: "('k \<times> 'v) list"
  assumes "hash_ok K eqk hv h" "fst ` set es \<subseteq> K" "length es \<le> hash_room h"
    "\<And>k. k \<in> K \<Longrightarrow> hash_lookup eqk hv h k = None"
  obtains h' where "alist_loop (map (\<lambda>(k, v). Some (Some k, v)) es) h = ret h'" "hash_ok K eqk hv h'"
    "\<And>k. k \<in> K \<Longrightarrow> hash_lookup eqk hv h' k = assoc eqk es k"
proof -
  have "alist_loop (map (\<lambda>(k, v). Some (Some k, v)) es) =
      fold_comp (\<lambda>(k, v) h :: ('k, 'v) idio_hash. bind_comp (idio_hash_exists_key h (Some k)) (\<lambda>b.
        if \<not> b then idio_hash_put h (Some k) v else ret h)) es"
  proof (induction es)
    case (Cons e es)
    show ?case by (rule ext) (cases e; simp add: Cons.IH bind_comp_assoc)
  qed (simp add: fun_eq_iff)
  then show ?thesis
    using ht.put_absent_all [OF assms(1-3)] assms(4) that by (auto split: option.splits)
qed

end

section \<open>The default functions\<close>

text \<open>On immediate values and strings \<^verbatim>\<open>equal?\<close> and the default hash agree.\<close>

definition basic_keys :: "basic_key set" where
  "basic_keys = {k. case k of Bignum_key p b \<Rightarrow> False | _ \<Rightarrow> True}"

interpretation bk: hash_key basic_keys key_equalp hash_default
  by standard (auto simp: basic_keys_def key_equalp_def hash_default_def split: basic_key.splits)

definition basic_functions :: "basic_key c_functions" where
  "basic_functions = C_functions key_equalp key_equalp key_equalp (\<lambda>_. hash_default)"

lemma default_functions_ok:
  "hs_comp h = Comp_C eqk \<Longrightarrow> hs_hash h = Hash_C hv \<Longrightarrow> functions_ok K eqk hv h"
  by (simp add: functions_ok_def comp_fun_def hash_fun_def)

lemma make_hash_ok:
  assumes "sz = None \<or> (\<exists>i. sz = Some (Fixnum i) \<and> 0 \<le> i \<and> in_fixnum i)"
  obtains h where "idio_hash_make_hash basic_functions Equiv_nil None sz = ret h"
    "hash_ok basic_keys key_equalp hash_default h" "\<And>k. hash_lookup key_equalp hash_default h k = None"
    "hs_count h = 0"
proof -
  define n :: nat where "n = (case sz of Some (Fixnum i) \<Rightarrow> nat (i mod 18446744073709551616) | _ \<Rightarrow> 32)"
  have n: "n \<le> 2 ^ 62" using assms by (auto simp: n_def in_fixnum_iff nat_le_iff)
  let ?h = "\<lparr>hs_const = False, hs_size = 0, hs_mask = 0, hs_count = 0, hs_comp = Comp_C key_equalp,
      hs_hash = Hash_C hash_default, hs_ha = []\<rparr>"
  have "idio_hash_make_hash basic_functions Equiv_nil None sz = ret (idio_assign_hash_he ?h n)"
    using assms by (auto simp: idio_hash_make_hash_def new_hash_def make_comp_def basic_functions_def n_def)
  moreover have "functions_ok basic_keys key_equalp hash_default ?h" by (rule default_functions_ok) simp_all
  ultimately show ?thesis using bk.new_hash_ok [of ?h n] n by (intro that) simp_all
qed

text \<open>
  A negative size is a \<^verbatim>\<open>size_t\<close> whose mask has all bits: the table has no bucket, and
  any access is outside it.
\<close>

lemma hash_mask_negative:
  assumes "in_fixnum i" "i < 0"
  shows "hash_mask (nat (i mod 18446744073709551616)) = 18446744073709551615"
proof -
  define s where "s = nat (i mod 18446744073709551616)"
  have "i mod 18446744073709551616 = i + 18446744073709551616"
    using assms mod_pos_pos_trivial [of "i + 18446744073709551616" 18446744073709551616]
    by (simp add: in_fixnum_iff)
  then have s: "(2::nat) ^ 63 < s" "s < 2 ^ 64" using assms by (simp_all add: s_def in_fixnum_iff)
  obtain b where b: "mask_loop s 0 = 2 ^ b - 1" "s < 2 ^ b" "0 < b \<longrightarrow> 2 ^ (b - 1) \<le> s"
    using mask_loop_eq [of s 0] by auto
  have "b \<noteq> 0" using b(2) s(1) by (cases b) auto
  then have "(2::nat) ^ (b - 1) < 2 ^ 64" using b(3) s(2) by simp
  then have "b - 1 < 64" by (simp only: power_strict_increasing_iff)
  moreover have "(2::nat) ^ 63 < 2 ^ b" using b(2) s(1) by simp
  then have "63 < b" by (simp only: power_strict_increasing_iff)
  ultimately have "b = 64" by simp
  have "s AND (2 ^ 63 - 1) = s mod 2 ^ 63"
    by (simp only: take_bit_eq_mod [symmetric] take_bit_eq_mask mask_eq_exp_minus_1)
  also have "\<dots> = s - 2 ^ 63" using s by (simp add: mod_if)
  finally have "s AND 9223372036854775807 \<noteq> 0" using s(1) by simp
  then show ?thesis using b(1) \<open>b = 64\<close> by (simp add: hash_mask_def flip: s_def)
qed

lemma negative_size_no_bucket:
  assumes "in_fixnum i" "i < 0"
  shows "\<exists>h. idio_hash_make_hash basic_functions Equiv_nil None (Some (Fixnum i)) = ret h \<and>
    idio_hash_ref S_unspec h (Some k) = raise Segmentation_fault \<and>
    idio_hash_put h (Some k) v = raise Segmentation_fault"
  using hash_mask_negative [OF assms]
  by (simp add: idio_hash_make_hash_def new_hash_def make_comp_def basic_functions_def idio_assign_hash_he_def
      idio_hash_ref_def idio_hash_he_def hash_he_def idio_hash_index_def hash_fun_def bucket_def
      idio_hash_put_def put_depth_def numeral_2_eq_2 hash_put.simps put_entry_def)

text \<open>
  Bignums are hashed by the address of their significand: a key that is equal to one
  in the table is not found when the hashes differ.
\<close>

lemma bignum_key_lost:
  assumes "hash_default (Bignum_key p b) mod 32 \<noteq> hash_default (Bignum_key q b) mod 32"
    and h: "idio_hash_make_hash basic_functions Equiv_nil None None = ret h"
  shows "\<exists>h'. idio_hash_put h (Some (Bignum_key p b)) v = ret h' \<and>
    idio_hash_exists_key h' (Some (Bignum_key q b)) = ret False"
proof -
  have mask: "hash_mask 32 = 31" by (simp add: hash_mask_def mask_loop.simps)
  have h: "h = \<lparr>hs_const = False, hs_size = 32, hs_mask = 31, hs_count = 0, hs_comp = Comp_C key_equalp,
      hs_hash = Hash_C hash_default, hs_ha = replicate 32 []\<rparr>"
    using h by (simp add: idio_hash_make_hash_def new_hash_def make_comp_def basic_functions_def
        idio_assign_hash_he_def mask)
  have m: "n AND 31 = n mod 32" for n :: nat
    using take_bit_eq_mod [of 5 n] take_bit_eq_mask [of 5 n] by (simp add: mask_eq_exp_minus_1)
  show ?thesis using assms(1)
    by (simp add: h idio_hash_put_def put_depth_def numeral_2_eq_2 hash_put.simps put_entry_def idio_hash_index_def
        hash_fun_def bucket_def m load_high_def idio_hash_exists_key_def idio_hash_he_def hash_he_def)
qed

section \<open>Listing\<close>

lemma keys_to_list_eq:
  "idio_hash_keys_to_list h = rev (map fst (concat (hs_ha h)))"
  "idio_hash_values_to_list h = rev (map snd (concat (hs_ha h)))"
proof -
  have f: "fold (\<lambda>es r. fold (\<lambda>e r. f e # r) es r) xss r = rev (map f (concat xss)) @ r" for f :: "'x \<Rightarrow> 'y" and xss r
  proof -
    have "fold (\<lambda>e r. f e # r) es r = rev (map f es) @ r" for es r
      by (induction es arbitrary: r) simp_all
    then show ?thesis by (induction xss arbitrary: r) simp_all
  qed
  show "idio_hash_keys_to_list h = rev (map fst (concat (hs_ha h)))"
    unfolding idio_hash_keys_to_list_def by (rule trans [OF f]) simp
  show "idio_hash_values_to_list h = rev (map snd (concat (hs_ha h)))"
    unfolding idio_hash_values_to_list_def by (rule trans [OF f]) simp
qed

context hash_key
begin

text \<open>Each key of the map is listed once.\<close>

lemma keys_to_list_ok:
  assumes "table_ok K eqk hv h"
  shows "length (idio_hash_keys_to_list h) = hs_count h"
    "set (idio_hash_keys_to_list h) \<subseteq> K"
    "k \<in> K \<Longrightarrow> (\<exists>k' \<in> set (idio_hash_keys_to_list h). eqk k k') \<longleftrightarrow> hash_lookup eqk hv h k \<noteq> None"
    "sorted_wrt (\<lambda>k k'. \<not> eqk k k') (idio_hash_keys_to_list h)"
proof -
  note E = entries_ok [OF assms]
  show "length (idio_hash_keys_to_list h) = hs_count h"
    using table_okD(6) [OF assms] by (simp add: keys_to_list_eq)
  show "set (idio_hash_keys_to_list h) \<subseteq> K" using E(1) by (simp add: keys_to_list_eq)
  show "k \<in> K \<Longrightarrow> (\<exists>k' \<in> set (idio_hash_keys_to_list h). eqk k k') \<longleftrightarrow> hash_lookup eqk hv h k \<noteq> None"
    using E(3) [of k] assoc_None_iff [of eqk "concat (hs_ha h)" k] by (auto simp: keys_to_list_eq simp del: set_concat)
  have "sorted_wrt (\<lambda>k k'. \<not> eqk k' k) ks" if "sorted_wrt (\<lambda>k k'. \<not> eqk k k') ks" "set ks \<subseteq> K" for ks
    using that eq_sym by (induction ks) (auto simp: subset_iff)
  from this [of "map fst (concat (hs_ha h))"] show "sorted_wrt (\<lambda>k k'. \<not> eqk k k') (idio_hash_keys_to_list h)"
    using E(1,2) by (simp add: keys_to_list_eq sorted_wrt_rev sorted_wrt_map apart_def)
qed

end

end
