(* ===== verification/Idio_Bitset.thy ===== *)
theory Idio_Bitset
  imports Idio_Array
begin

text \<open>
  Bitsets (\<^verbatim>\<open>src/src/bitset.c\<close>): a size and an array of 32-bit words, one word
  longer than the size needs when that is a multiple of 32. No array is allocated
  for the size 0. Sizes and bits are \<^verbatim>\<open>size_t\<close>; a bit is read as \<^verbatim>\<open>ptrdiff_t\<close>, so
  a negative one becomes a large size.
\<close>

unbundle bit_operations_syntax

section \<open>The bitset\<close>

type_synonym bitset_word = "32 word"

abbreviation (input) BITS_PER_WORD :: nat where "BITS_PER_WORD \<equiv> 32"

record idio_bitset =
  bs_size :: nat
  bs_words :: "bitset_word list"

definition idio_bitset :: "nat \<Rightarrow> idio_bitset" where
  "idio_bitset sz =
    \<lparr>bs_size = sz, bs_words = (if sz = 0 then [] else replicate (sz div BITS_PER_WORD + 1) 0)\<rparr>"

text \<open>\<^verbatim>\<open>IDIO_BITSET_WORDS (bs, i)\<close>, read and assigned to.\<close>

definition bs_word :: "idio_bitset \<Rightarrow> nat \<Rightarrow> bitset_word result" where
  "bs_word bs i = (if i < length (bs_words bs) then Inr (bs_words bs ! i) else Inl Segmentation_fault)"

definition bs_word_set :: "idio_bitset \<Rightarrow> nat \<Rightarrow> bitset_word \<Rightarrow> idio_bitset result" where
  "bs_word_set bs i w =
    (if i < length (bs_words bs) then Inr (bs\<lparr>bs_words := (bs_words bs)[i := w]\<rparr>) else Inl Segmentation_fault)"

text \<open>The 64-bit constant \<^verbatim>\<open>1UL\<close> is shifted by less than 32, so the operations fit a word.\<close>

definition idio_bitset_set :: "idio_bitset \<Rightarrow> nat \<Rightarrow> idio_bitset result" where
  "idio_bitset_set bs k =
    (if bs_size bs \<le> k then Inl (Bitset_bounds_error k (bs_size bs))
     else let i = k div BITS_PER_WORD
          in bind_result (bs_word bs i) (\<lambda>w. bs_word_set bs i (w OR push_bit (k mod BITS_PER_WORD) 1)))"

definition idio_bitset_clear :: "idio_bitset \<Rightarrow> nat \<Rightarrow> idio_bitset result" where
  "idio_bitset_clear bs k =
    (if bs_size bs \<le> k then Inl (Bitset_bounds_error k (bs_size bs))
     else let i = k div BITS_PER_WORD; msk = push_bit (k mod BITS_PER_WORD) 1
          in bind_result (bs_word bs i) (\<lambda>w. bs_word_set bs i (w AND NOT msk)))"

definition idio_bitset_ref :: "idio_bitset \<Rightarrow> nat \<Rightarrow> bool result" where
  "idio_bitset_ref bs k =
    (if bs_size bs \<le> k then Inl (Bitset_bounds_error k (bs_size bs))
     else let i = k div BITS_PER_WORD
          in bind_result (bs_word bs i) (\<lambda>w. Inr (w AND push_bit (k mod BITS_PER_WORD) 1 \<noteq> 0)))"

definition idio_copy_bitset :: "idio_bitset \<Rightarrow> idio_bitset result" where
  "idio_copy_bitset obs =
    (let sz = bs_size obs; n = sz div BITS_PER_WORD + 1
     in fold_result (\<lambda>i nbs. bind_result (bs_word obs i) (\<lambda>w. bs_word_set nbs i w)) [0..<n] (idio_bitset sz))"

text \<open>The words that hold bits below the size.\<close>

definition n_ul :: "nat \<Rightarrow> nat" where
  "n_ul sz = (let excess = sz mod BITS_PER_WORD in if excess \<noteq> 0 then sz div BITS_PER_WORD + 1 else sz div BITS_PER_WORD)"

section \<open>The operations on several bitsets\<close>

definition word_loop :: "(bitset_word \<Rightarrow> bitset_word \<Rightarrow> bitset_word) \<Rightarrow> idio_bitset \<Rightarrow> idio_bitset \<Rightarrow> idio_bitset result" where
  "word_loop f bs r =
    fold_result (\<lambda>i r.
      bind_result (bs_word bs i) (\<lambda>b. bind_result (bs_word r i) (\<lambda>a. bs_word_set r i (f a b))))
      [0..<n_ul (bs_size bs)] r"

text \<open>
  The loop the five primitives share; \<open>None\<close> in the list is an argument that is not a
  bitset, \<open>None\<close> as the result is \<^verbatim>\<open>#n\<close>.
\<close>

fun bitset_args ::
  "(bitset_word \<Rightarrow> bitset_word \<Rightarrow> bitset_word) \<Rightarrow> idio_bitset option \<Rightarrow> idio_bitset option list \<Rightarrow>
    idio_bitset option result" where
  "bitset_args f r [] = Inr r"
| "bitset_args f r (None # args) = Inl (Param_type_error ''bitset'')"
| "bitset_args f None (Some bs # args) =
    bind_result (idio_copy_bitset bs) (\<lambda>r. bitset_args f (Some r) args)"
| "bitset_args f (Some r) (Some bs # args) =
    (if bs_size bs \<noteq> bs_size r then Inl (Bitset_size_mismatch_error (bs_size bs) (bs_size r))
     else bind_result (word_loop f bs r) (\<lambda>r. bitset_args f (Some r) args))"

definition merge_bitset :: "idio_bitset option list \<Rightarrow> idio_bitset option result" where
  "merge_bitset args = bitset_args (\<lambda>r b. r OR b) None args"

definition and_bitset :: "idio_bitset option list \<Rightarrow> idio_bitset option result" where
  "and_bitset args = bitset_args (\<lambda>r b. r AND b) None args"

definition ior_bitset :: "idio_bitset option list \<Rightarrow> idio_bitset option result" where
  "ior_bitset args = bitset_args (\<lambda>r b. r OR b) None args"

definition xor_bitset :: "idio_bitset option list \<Rightarrow> idio_bitset option result" where
  "xor_bitset args = bitset_args (\<lambda>r b. r XOR b) None args"

definition subtract_bitset :: "idio_bitset option list \<Rightarrow> idio_bitset option result" where
  "subtract_bitset args = bitset_args (\<lambda>r b. if b \<noteq> 0 then r AND NOT b else r) None args"

definition idio_not_bitset :: "idio_bitset \<Rightarrow> idio_bitset result" where
  "idio_not_bitset bs =
    bind_result (idio_copy_bitset bs)
      (fold_result (\<lambda>i r. bind_result (bs_word bs i) (\<lambda>w. bs_word_set r i (NOT w))) [0..<n_ul (bs_size bs)])"

text \<open>\<^verbatim>\<open>idio_equal_bitsetp\<close>: only the bits below the size of the last word are compared.\<close>

definition equal_word :: "nat \<Rightarrow> idio_bitset \<Rightarrow> idio_bitset \<Rightarrow> nat \<Rightarrow> bool result" where
  "equal_word sz bs bs2 i =
    (let excess = sz mod BITS_PER_WORD
     in bind_result (bs_word bs i) (\<lambda>a. bind_result (bs_word bs2 i) (\<lambda>b.
       if excess \<noteq> 0 \<and> i = n_ul sz - 1
       then let msk = drop_bit (BITS_PER_WORD - excess) (- 1) in Inr (a AND msk = b AND msk)
       else Inr (a = b))))"

fun equal_loop :: "idio_bitset \<Rightarrow> idio_bitset \<Rightarrow> nat list \<Rightarrow> bool result" where
  "equal_loop bs bs2 [] = Inr True"
| "equal_loop bs bs2 (i # is) =
    bind_result (equal_word (bs_size bs) bs bs2 i) (\<lambda>e. if e then equal_loop bs bs2 is else Inr False)"

fun equal_args :: "idio_bitset \<Rightarrow> idio_bitset option list \<Rightarrow> bool result" where
  "equal_args bs [] = Inr True"
| "equal_args bs (None # args) = Inl (Param_type_error ''bitset'')"
| "equal_args bs (Some bs2 # args) =
    (if bs_size bs \<noteq> bs_size bs2 then Inr False
     else bind_result (equal_loop bs bs2 [0..<n_ul (bs_size bs)]) (\<lambda>e. if e then equal_args bs args else Inr False))"

definition idio_equal_bitsetp :: "idio_bitset option list \<Rightarrow> bool result" where
  "idio_equal_bitsetp args =
    (case args of [] \<Rightarrow> Inr True | None # _ \<Rightarrow> Inl (Param_type_error ''bitset'') | Some bs # args \<Rightarrow> equal_args bs args)"

section \<open>Visiting the bits\<close>

text \<open>
  The function that is called may change the world \<open>'w\<close> the bitset is in; a word is
  read before its bits are visited.
\<close>

definition bitset_for_each_set :: "('w \<Rightarrow> idio_bitset) \<Rightarrow> (nat \<Rightarrow> 'w \<Rightarrow> 'w comp) \<Rightarrow> 'w \<Rightarrow> 'w comp" where
  "bitset_for_each_set bs f w =
    fold_comp (\<lambda>i w. bind_comp (Some (bs_word (bs w) i)) (\<lambda>ul.
        if ul \<noteq> 0
        then fold_comp (\<lambda>j w. if ul AND push_bit j 1 \<noteq> 0 then f (i * BITS_PER_WORD + j) w else ret w)
               [0..<BITS_PER_WORD] w
        else ret w))
      [0..<n_ul (bs_size (bs w))] w"

definition fold_bitset ::
  "('w \<Rightarrow> idio_bitset) \<Rightarrow> (nat \<Rightarrow> 'v \<Rightarrow> 'w \<Rightarrow> ('v \<times> 'w) comp) \<Rightarrow> 'v \<Rightarrow> 'w \<Rightarrow> ('v \<times> 'w) comp" where
  "fold_bitset bs f v w =
    fold_comp (\<lambda>i (v, w). bind_comp (Some (bs_word (bs w) i)) (\<lambda>ul.
        if ul \<noteq> 0
        then fold_comp (\<lambda>j (v, w). if ul AND push_bit j 1 \<noteq> 0 then f (i * BITS_PER_WORD + j) v w else ret (v, w))
               [0..<BITS_PER_WORD] (v, w)
        else ret (v, w)))
      [0..<n_ul (bs_size (bs w))] (v, w)"

section \<open>The primitives\<close>

text \<open>A \<^verbatim>\<open>ptrdiff_t\<close> converted to \<^verbatim>\<open>size_t\<close>.\<close>

definition size_of_ptrdiff :: "int \<Rightarrow> nat" where
  "size_of_ptrdiff i = nat (i mod 18446744073709551616)"

definition make_bitset :: "'c idio_num \<Rightarrow> idio_bitset comp" where
  "make_bitset sz = bind_comp (index_value sz) (\<lambda>bsz. ret (idio_bitset (size_of_ptrdiff bsz)))"

definition bitset_size :: "idio_bitset \<Rightarrow> 'c idio_num" where
  "bitset_size bs = idio_integer (int (bs_size bs))"

text \<open>A bit is a Unicode code point or an integer.\<close>

datatype 'c bit_arg = Bit_unicode nat | Bit_num "'c idio_num"

definition bit_value :: "'c bit_arg \<Rightarrow> int comp" where
  "bit_value k =
    (case k of Bit_unicode u \<Rightarrow> ret (int u)
     | Bit_num n \<Rightarrow> (case n of Fixnum _ \<Rightarrow> index_value n | Bignum _ \<Rightarrow> index_value n
        | _ \<Rightarrow> raise (Param_type_error ''unicode|integer'')))"

definition bitset_set :: "idio_bitset \<Rightarrow> 'c bit_arg \<Rightarrow> idio_bitset comp" where
  "bitset_set bs k = bind_comp (bit_value k) (\<lambda>i. Some (idio_bitset_set bs (size_of_ptrdiff i)))"

definition bitset_clear :: "idio_bitset \<Rightarrow> 'c bit_arg \<Rightarrow> idio_bitset comp" where
  "bitset_clear bs k = bind_comp (bit_value k) (\<lambda>i. Some (idio_bitset_clear bs (size_of_ptrdiff i)))"

definition bitset_ref :: "idio_bitset \<Rightarrow> 'c bit_arg \<Rightarrow> bool comp" where
  "bitset_ref bs k = bind_comp (bit_value k) (\<lambda>i. Some (idio_bitset_ref bs (size_of_ptrdiff i)))"

end
