(* ===== verification/Bitset_Props.thy ===== *)
theory Bitset_Props
  imports Idio_Bitset
begin

text \<open>
  What the operations of \<^theory_text>\<open>Idio_Bitset\<close> do to the set of bits below the size.
  \<open>bitset_ok\<close> is the invariant of the words' length, \<open>clean\<close> says that no bit is set
  from the size on: every operation but \<^verbatim>\<open>not-bitset\<close> keeps it.
\<close>

unbundle bit_operations_syntax

section \<open>The invariant and the set of bits\<close>

definition bitset_ok :: "idio_bitset \<Rightarrow> bool" where
  "bitset_ok bs \<longleftrightarrow> length (bs_words bs) = (if bs_size bs = 0 then 0 else bs_size bs div 32 + 1)"

definition raw_bit :: "idio_bitset \<Rightarrow> nat \<Rightarrow> bool" where
  "raw_bit bs k \<longleftrightarrow> k div 32 < length (bs_words bs) \<and> bit (bs_words bs ! (k div 32)) (k mod 32)"

definition bits_of :: "idio_bitset \<Rightarrow> nat set" where
  "bits_of bs = {k. k < bs_size bs \<and> raw_bit bs k}"

definition clean :: "idio_bitset \<Rightarrow> bool" where
  "clean bs \<longleftrightarrow> (\<forall>k. raw_bit bs k \<longrightarrow> k < bs_size bs)"

lemma div_less_n_ul: "k < sz \<Longrightarrow> k div 32 < n_ul sz"
proof -
  assume k: "k < sz"
  have "k div 32 \<le> sz div 32" using k by (simp add: div_le_mono)
  moreover have "sz mod 32 \<noteq> 0" if "k div 32 = sz div 32"
  proof
    assume "sz mod 32 = 0"
    then have "sz = sz div 32 * 32" using div_mult_mod_eq [of sz 32] by simp
    also have "\<dots> \<le> k" using that div_mult_mod_eq [of k 32] by linarith
    finally show False using k by simp
  qed
  ultimately show ?thesis by (cases "k div 32 = sz div 32") (simp_all add: n_ul_def Let_def)
qed

lemma n_ul_le: "bitset_ok bs \<Longrightarrow> n_ul (bs_size bs) \<le> length (bs_words bs)"
  by (auto simp: n_ul_def Let_def bitset_ok_def)

lemma bit_in_words: "bitset_ok bs \<Longrightarrow> k < bs_size bs \<Longrightarrow> k div 32 < length (bs_words bs)"
  using div_less_n_ul [of k "bs_size bs"] n_ul_le [of bs] by simp

lemma n_ul_mult: "i < n_ul sz \<Longrightarrow> j < 32 \<Longrightarrow> sz mod 32 = 0 \<or> i \<noteq> n_ul sz - 1 \<Longrightarrow> i * 32 + j < sz"
proof -
  assume i: "i < n_ul sz" and j: "j < (32::nat)" and e: "sz mod 32 = 0 \<or> i \<noteq> n_ul sz - 1"
  have "i < sz div 32" using i e by (auto simp: n_ul_def Let_def split: if_splits)
  then have "Suc i * 32 \<le> sz div 32 * 32" by (intro mult_le_mono1) simp
  then show ?thesis using j div_mult_mod_eq [of sz 32] by simp
qed

lemma n_ul_last: "i = n_ul sz - 1 \<Longrightarrow> sz mod 32 \<noteq> 0 \<Longrightarrow> i * 32 + j < sz \<longleftrightarrow> j < sz mod 32"
proof -
  assume i: "i = n_ul sz - 1" "sz mod 32 \<noteq> 0"
  then have "i = sz div 32" by (simp add: n_ul_def Let_def)
  then show ?thesis using div_mult_mod_eq [of sz 32] by linarith
qed

text \<open>A loop that changes the first \<open>n\<close> words, each on its own.\<close>

lemma words_loop:
  assumes "n \<le> length (bs_words r)"
    and "\<And>i r'. i < n \<Longrightarrow> length (bs_words r') = length (bs_words r) \<Longrightarrow>
      f i r' = Inr (r'\<lparr>bs_words := (bs_words r')[i := g i (bs_words r' ! i)]\<rparr>)"
  shows "fold_result f [0..<n] r =
    Inr (r\<lparr>bs_words := map (\<lambda>i. if i < n then g i (bs_words r ! i) else bs_words r ! i) [0..<length (bs_words r)]\<rparr>)"
proof -
  define S where "S j = r\<lparr>bs_words :=
    map (\<lambda>i. if i < j then g i (bs_words r ! i) else bs_words r ! i) [0..<length (bs_words r)]\<rparr>" for j
  have "f j (S j) = Inr (S (Suc j))" if "j < n" for j
  proof -
    have "f j (S j) = Inr ((S j)\<lparr>bs_words := (bs_words (S j))[j := g j (bs_words (S j) ! j)]\<rparr>)"
      by (rule assms(2)) (simp_all add: that S_def)
    also have "(S j)\<lparr>bs_words := (bs_words (S j))[j := g j (bs_words (S j) ! j)]\<rparr> = S (Suc j)"
    proof -
      have "(map (\<lambda>i. if i < j then g i (bs_words r ! i) else bs_words r ! i) [0..<length (bs_words r)])
          [j := g j (bs_words r ! j)] =
        map (\<lambda>i. if i < Suc j then g i (bs_words r ! i) else bs_words r ! i) [0..<length (bs_words r)]"
        using that assms(1) by (intro nth_equalityI) (auto simp: nth_list_update less_Suc_eq)
      then show ?thesis using that assms(1) by (simp add: S_def)
    qed
    finally show ?thesis .
  qed
  then have "fold_result f [0..<n] (S 0) = Inr (S n)" by (intro fold_result_upt) simp_all
  moreover have "S 0 = r" by (simp add: S_def map_nth)
  ultimately show ?thesis by (simp add: S_def)
qed

section \<open>Single bits\<close>

lemma and_push_bit_1: "(w::bitset_word) AND push_bit j 1 \<noteq> 0 \<longleftrightarrow> bit w j"
  by (simp only: bit_iff_and_push_bit_not_eq_0)

lemma idio_bitset_ok [simp]: "bitset_ok (idio_bitset sz)" "clean (idio_bitset sz)" "bits_of (idio_bitset sz) = {}"
  "bs_size (idio_bitset sz) = sz"
proof -
  have r: "\<not> raw_bit (idio_bitset sz) k" for k
    by (simp add: raw_bit_def idio_bitset_def del: replicate_Suc)
  then show "clean (idio_bitset sz)" "bits_of (idio_bitset sz) = {}" by (simp_all add: clean_def bits_of_def)
  show "bitset_ok (idio_bitset sz)" "bs_size (idio_bitset sz) = sz"
    by (simp_all add: bitset_ok_def idio_bitset_def)
qed

text \<open>Replacing the word of a bit.\<close>

lemma raw_bit_update:
  assumes "k div 32 < length (bs_words bs)"
  shows "raw_bit (bs\<lparr>bs_words := (bs_words bs)[k div 32 := w]\<rparr>) j \<longleftrightarrow>
    (if j div 32 = k div 32 then bit w (j mod 32) else raw_bit bs j)"
  using assms by (auto simp: raw_bit_def nth_list_update)

lemma same_bit: "(j::nat) div 32 = k div 32 \<Longrightarrow> j mod 32 = k mod 32 \<longleftrightarrow> j = k"
  using div_mult_mod_eq [of j 32] div_mult_mod_eq [of k 32] by auto

lemma bitset_set_ok:
  assumes "bitset_ok bs" "k < bs_size bs"
  obtains bs' where "idio_bitset_set bs k = Inr bs'" "bitset_ok bs'" "bs_size bs' = bs_size bs"
    "raw_bit bs' = (raw_bit bs)(k := True)"
proof
  let ?bs' = "bs\<lparr>bs_words := (bs_words bs)[k div 32 := bs_words bs ! (k div 32) OR push_bit (k mod 32) 1]\<rparr>"
  note l = bit_in_words [OF assms]
  show "idio_bitset_set bs k = Inr ?bs'"
    using assms(2) l by (simp add: idio_bitset_set_def bs_word_def bs_word_set_def Let_def)
  show "bitset_ok ?bs'" "bs_size ?bs' = bs_size bs" using assms(1) by (simp_all add: bitset_ok_def)
  show "raw_bit ?bs' = (raw_bit bs)(k := True)"
    using l by (auto simp: fun_eq_iff raw_bit_update [OF l] bit_simps same_bit)
      (auto simp: raw_bit_def)
qed

lemma bitset_clear_ok:
  assumes "bitset_ok bs" "k < bs_size bs"
  obtains bs' where "idio_bitset_clear bs k = Inr bs'" "bitset_ok bs'" "bs_size bs' = bs_size bs"
    "raw_bit bs' = (raw_bit bs)(k := False)"
proof
  let ?bs' = "bs\<lparr>bs_words := (bs_words bs)[k div 32 := bs_words bs ! (k div 32) AND NOT (push_bit (k mod 32) 1)]\<rparr>"
  note l = bit_in_words [OF assms]
  show "idio_bitset_clear bs k = Inr ?bs'"
    using assms(2) l by (simp add: idio_bitset_clear_def bs_word_def bs_word_set_def Let_def)
  show "bitset_ok ?bs'" "bs_size ?bs' = bs_size bs" using assms(1) by (simp_all add: bitset_ok_def)
  show "raw_bit ?bs' = (raw_bit bs)(k := False)"
    using l by (auto simp: fun_eq_iff raw_bit_update [OF l] bit_simps same_bit)
      (auto simp: raw_bit_def)
qed

lemma bitset_ref_eq:
  assumes "bitset_ok bs" "k < bs_size bs"
  shows "idio_bitset_ref bs k = Inr (k \<in> bits_of bs)"
  using assms bit_in_words [OF assms]
  by (simp add: idio_bitset_ref_def bs_word_def bits_of_def raw_bit_def Let_def and_push_bit_1 del: push_bit_of_1)

lemma out_of_bounds:
  assumes "bs_size bs \<le> k"
  shows "idio_bitset_set bs k = Inl (Bitset_bounds_error k (bs_size bs))"
    "idio_bitset_clear bs k = Inl (Bitset_bounds_error k (bs_size bs))"
    "idio_bitset_ref bs k = Inl (Bitset_bounds_error k (bs_size bs))"
  using assms by (simp_all add: idio_bitset_set_def idio_bitset_clear_def idio_bitset_ref_def)

section \<open>Copying\<close>

text \<open>A copy is equal word by word; copying the empty bitset follows a null pointer.\<close>

lemma copy_bitset_eq:
  assumes "bitset_ok bs"
  shows "idio_copy_bitset bs = (if bs_size bs = 0 then Inl Segmentation_fault else Inr bs)"
proof (cases "bs_size bs = 0")
  case True
  then show ?thesis using assms by (simp add: idio_copy_bitset_def bs_word_def bitset_ok_def upt_rec)
next
  case False
  let ?n = "bs_size bs div 32 + 1"
  have l: "length (bs_words bs) = ?n" "length (bs_words (idio_bitset (bs_size bs))) = ?n"
    using assms False by (simp_all add: bitset_ok_def idio_bitset_def)
  have "fold_result (\<lambda>i nbs. bind_result (bs_word bs i) (\<lambda>w. bs_word_set nbs i w)) [0..<?n] (idio_bitset (bs_size bs)) =
    Inr ((idio_bitset (bs_size bs))\<lparr>bs_words := map (\<lambda>i. if i < ?n then bs_words bs ! i else bs_words (idio_bitset (bs_size bs)) ! i)
      [0..<length (bs_words (idio_bitset (bs_size bs)))]\<rparr>)"
    by (rule words_loop [where g = "\<lambda>i _. bs_words bs ! i"]) (simp_all add: l bs_word_def bs_word_set_def)
  also have "map (\<lambda>i. if i < ?n then bs_words bs ! i else bs_words (idio_bitset (bs_size bs)) ! i)
      [0..<length (bs_words (idio_bitset (bs_size bs)))] = bs_words bs"
    unfolding l(2) by (rule nth_equalityI) (simp_all add: l(1) del: upt_Suc)
  finally show ?thesis using False by (simp add: idio_copy_bitset_def Let_def idio_bitset_def del: upt_Suc fold_result_append)
qed

section \<open>Operations on several bitsets\<close>

lemma word_loop_ok:
  assumes "bitset_ok bs" "bitset_ok r" "bs_size bs = bs_size r"
  obtains r' where "word_loop f bs r = Inr r'" "bitset_ok r'" "bs_size r' = bs_size r"
    "\<And>i. i < length (bs_words r) \<Longrightarrow> bs_words r' ! i =
      (if i < n_ul (bs_size r) then f (bs_words r ! i) (bs_words bs ! i) else bs_words r ! i)"
    "length (bs_words r') = length (bs_words r)"
proof
  let ?ws = "map (\<lambda>i. if i < n_ul (bs_size r) then f (bs_words r ! i) (bs_words bs ! i) else bs_words r ! i)
    [0..<length (bs_words r)]"
  note n = n_ul_le [OF assms(2)]
  have l: "length (bs_words bs) = length (bs_words r)" using assms by (simp add: bitset_ok_def)
  show "word_loop f bs r = Inr (r\<lparr>bs_words := ?ws\<rparr>)"
    unfolding word_loop_def assms(3)
    by (rule words_loop [where g = "\<lambda>i a. f a (bs_words bs ! i)"])
      (use n l in \<open>simp_all add: bs_word_def bs_word_set_def\<close>)
  show "bitset_ok (r\<lparr>bs_words := ?ws\<rparr>)" "bs_size (r\<lparr>bs_words := ?ws\<rparr>) = bs_size r"
    "length (bs_words (r\<lparr>bs_words := ?ws\<rparr>)) = length (bs_words r)"
    using assms(2) by (simp_all add: bitset_ok_def)
  show "bs_words (r\<lparr>bs_words := ?ws\<rparr>) ! i =
      (if i < n_ul (bs_size r) then f (bs_words r ! i) (bs_words bs ! i) else bs_words r ! i)"
    if "i < length (bs_words r)" for i using that by simp
qed

text \<open>The two bitsets a mixed-size call would combine are not: the sizes have to match.\<close>

definition same_sizes :: "idio_bitset list \<Rightarrow> bool" where
  "same_sizes bss \<longleftrightarrow> (\<forall>bs \<in> set bss. bs_size bs = bs_size (hd bss))"

text \<open>
  An operation on words that acts bit by bit (\<open>g\<close>) gives one on sets of bits: the
  four folds of the code are instances.
\<close>

locale bitwise =
  fixes f :: "bitset_word \<Rightarrow> bitset_word \<Rightarrow> bitset_word" and g :: "bool \<Rightarrow> bool \<Rightarrow> bool"
  assumes bitwise: "j < 32 \<Longrightarrow> bit (f a b) j \<longleftrightarrow> g (bit a j) (bit b j)"
begin

lemma word_loop_bits:
  assumes "bitset_ok bs" "bitset_ok r" "bs_size bs = bs_size r"
  obtains r' where "word_loop f bs r = Inr r'" "bitset_ok r'" "bs_size r' = bs_size r"
    "\<And>k. k < bs_size r \<Longrightarrow> k \<in> bits_of r' \<longleftrightarrow> g (k \<in> bits_of r) (k \<in> bits_of bs)"
    "\<not> g False False \<Longrightarrow> clean r \<Longrightarrow> clean bs \<Longrightarrow> clean r'"
proof -
  obtain r' where r': "word_loop f bs r = Inr r'" "bitset_ok r'" "bs_size r' = bs_size r"
    and w: "\<And>i. i < length (bs_words r) \<Longrightarrow> bs_words r' ! i =
      (if i < n_ul (bs_size r) then f (bs_words r ! i) (bs_words bs ! i) else bs_words r ! i)"
    and l: "length (bs_words r') = length (bs_words r)"
    by (rule word_loop_ok [OF assms, of f]) blast
  have lb: "length (bs_words bs) = length (bs_words r)" using assms by (simp add: bitset_ok_def)
  have raw: "raw_bit r' k \<longleftrightarrow> (if k div 32 < n_ul (bs_size r) then g (raw_bit r k) (raw_bit bs k) else raw_bit r k)"
    if "k div 32 < length (bs_words r)" for k
    using that by (simp add: raw_bit_def l lb w bitwise)
  show thesis
  proof
    show "word_loop f bs r = Inr r'" "bitset_ok r'" "bs_size r' = bs_size r" by (fact r')+
    show "k \<in> bits_of r' \<longleftrightarrow> g (k \<in> bits_of r) (k \<in> bits_of bs)" if "k < bs_size r" for k
      using raw [OF bit_in_words [OF assms(2) that]] that div_less_n_ul [OF that] assms(3) r'(3)
      by (simp add: bits_of_def)
    show "clean r'" if "\<not> g False False" "clean r" "clean bs"
      unfolding clean_def
    proof (intro allI impI)
      fix k assume k: "raw_bit r' k"
      then have "k div 32 < length (bs_words r)" using l by (simp add: raw_bit_def)
      then have "raw_bit r k \<or> raw_bit bs k" using raw [of k] k that(1) by (cases "raw_bit r k"; cases "raw_bit bs k") (auto split: if_splits)
      then show "k < bs_size r'" using that(2,3) assms(3) r'(3) by (auto simp: clean_def)
    qed
  qed
qed

lemma args_ok:
  assumes "bitset_ok r" "\<forall>bs \<in> set bss. bitset_ok bs \<and> bs_size bs = bs_size r"
  shows "\<exists>r'. bitset_args f (Some r) (map Some bss) = Inr (Some r') \<and> bitset_ok r' \<and> bs_size r' = bs_size r \<and>
    (\<forall>k < bs_size r. k \<in> bits_of r' \<longleftrightarrow> foldl (\<lambda>b bs. g b (k \<in> bits_of bs)) (k \<in> bits_of r) bss) \<and>
    (\<not> g False False \<longrightarrow> clean r \<longrightarrow> (\<forall>bs \<in> set bss. clean bs) \<longrightarrow> clean r')"
  using assms
proof (induction bss arbitrary: r)
  case (Cons bs bss)
  have "bitset_ok bs" "bs_size bs = bs_size r" using Cons.prems(2) by simp_all
  then obtain r1 where r1: "word_loop f bs r = Inr r1" "bitset_ok r1" "bs_size r1 = bs_size r"
    "\<And>k. k < bs_size r \<Longrightarrow> k \<in> bits_of r1 \<longleftrightarrow> g (k \<in> bits_of r) (k \<in> bits_of bs)"
    "\<not> g False False \<Longrightarrow> clean r \<Longrightarrow> clean bs \<Longrightarrow> clean r1"
    using word_loop_bits [OF _ Cons.prems(1), of bs] by blast
  have "\<forall>bs \<in> set bss. bitset_ok bs \<and> bs_size bs = bs_size r1" using Cons.prems(2) r1(3) by simp
  from Cons.IH [OF r1(2) this] obtain r' where r':
    "bitset_args f (Some r1) (map Some bss) = Inr (Some r')" "bitset_ok r'" "bs_size r' = bs_size r1"
    "\<forall>k < bs_size r1. k \<in> bits_of r' \<longleftrightarrow> foldl (\<lambda>b bs. g b (k \<in> bits_of bs)) (k \<in> bits_of r1) bss"
    "\<not> g False False \<longrightarrow> clean r1 \<longrightarrow> (\<forall>bs \<in> set bss. clean bs) \<longrightarrow> clean r'"
    by blast
  show ?case
  proof (intro exI conjI)
    show "bitset_args f (Some r) (map Some (bs # bss)) = Inr (Some r')"
      using r1(1) r'(1) \<open>bs_size bs = bs_size r\<close> by simp
    show "\<forall>k < bs_size r. k \<in> bits_of r' \<longleftrightarrow> foldl (\<lambda>b bs. g b (k \<in> bits_of bs)) (k \<in> bits_of r) (bs # bss)"
      using r'(4) r1(3,4) by simp
    show "\<not> g False False \<longrightarrow> clean r \<longrightarrow> (\<forall>bs \<in> set (bs # bss). clean bs) \<longrightarrow> clean r'"
      using r'(5) r1(5) by (metis list.set_intros(1,2))
    show "bitset_ok r'" "bs_size r' = bs_size r" using r'(2,3) r1(3) by simp_all
  qed
qed simp

lemma primitive_ok:
  assumes "\<forall>bs \<in> set (b # bss). bitset_ok bs \<and> bs_size bs = bs_size b" "0 < bs_size b"
  shows "\<exists>r'. bitset_args f None (map Some (b # bss)) = Inr (Some r') \<and> bitset_ok r' \<and> bs_size r' = bs_size b \<and>
    (\<forall>k < bs_size b. k \<in> bits_of r' \<longleftrightarrow> foldl (\<lambda>b bs. g b (k \<in> bits_of bs)) (k \<in> bits_of b) bss) \<and>
    (\<not> g False False \<longrightarrow> (\<forall>bs \<in> set (b # bss). clean bs) \<longrightarrow> clean r')"
proof -
  have b: "bitset_ok b" "\<forall>bs \<in> set bss. bitset_ok bs \<and> bs_size bs = bs_size b" using assms(1) by simp_all
  have "bitset_args f None (map Some (b # bss)) = bitset_args f (Some b) (map Some bss)"
    using assms(2) by (simp add: copy_bitset_eq [OF b(1)])
  moreover obtain r' where "bitset_args f (Some b) (map Some bss) = Inr (Some r')" "bitset_ok r'" "bs_size r' = bs_size b"
    "\<forall>k < bs_size b. k \<in> bits_of r' \<longleftrightarrow> foldl (\<lambda>b bs. g b (k \<in> bits_of bs)) (k \<in> bits_of b) bss"
    "\<not> g False False \<longrightarrow> clean b \<longrightarrow> (\<forall>bs \<in> set bss. clean bs) \<longrightarrow> clean r'"
    using args_ok [OF b] by blast
  ultimately show ?thesis by (intro exI [of _ r'] conjI) simp_all
qed

end

interpretation ior: bitwise "\<lambda>a b. a OR b" "\<lambda>x y. x \<or> y" by unfold_locales (simp add: bit_or_iff)

interpretation conj: bitwise "\<lambda>a b. a AND b" "\<lambda>x y. x \<and> y" by unfold_locales (simp add: bit_and_iff)

interpretation xor: bitwise "\<lambda>a b. a XOR b" "\<lambda>x y. x \<noteq> y" by unfold_locales (simp add: bit_xor_iff)

interpretation sub: bitwise "\<lambda>a b. if b \<noteq> 0 then a AND NOT b else a" "\<lambda>x y. x \<and> \<not> y"
  by unfold_locales (auto simp: bit_simps)

text \<open>The foldings of the four Boolean functions.\<close>

lemma foldl_bits:
  "foldl (\<lambda>b bs. b \<or> k \<in> bits_of bs) b bss \<longleftrightarrow> b \<or> (\<exists>bs \<in> set bss. k \<in> bits_of bs)"
  "foldl (\<lambda>b bs. b \<and> k \<in> bits_of bs) b bss \<longleftrightarrow> b \<and> (\<forall>bs \<in> set bss. k \<in> bits_of bs)"
  "foldl (\<lambda>b bs. b \<noteq> (k \<in> bits_of bs)) b bss \<longleftrightarrow> b \<noteq> odd (length (filter (\<lambda>bs. k \<in> bits_of bs) bss))"
  "foldl (\<lambda>b bs. b \<and> k \<notin> bits_of bs) b bss \<longleftrightarrow> b \<and> \<not> (\<exists>bs \<in> set bss. k \<in> bits_of bs)"
  by (induction bss arbitrary: b) auto

lemma bits_below: "bitset_ok bs \<Longrightarrow> k \<in> bits_of bs \<Longrightarrow> k < bs_size bs"
  by (simp add: bits_of_def)

text \<open>
  The five primitives as operations on sets; \<open>bitset_result\<close> collects what they return when
  the arguments are the bitsets of the list: a bitset of their size for the set, that is clean if they
  all are.
\<close>

definition bitset_result :: "idio_bitset option result \<Rightarrow> idio_bitset list \<Rightarrow> nat set \<Rightarrow> bool" where
  "bitset_result r args B \<longleftrightarrow>
    (\<exists>bs. r = Inr (Some bs) \<and> bitset_ok bs \<and> bs_size bs = bs_size (hd args) \<and> bits_of bs = B \<and>
      ((\<forall>a \<in> set args. clean a) \<longrightarrow> clean bs))"

lemma bitset_primitives_ok:
  assumes "\<forall>bs \<in> set (b # bss). bitset_ok bs \<and> bs_size bs = bs_size b" "0 < bs_size b"
  shows "bitset_result (ior_bitset (map Some (b # bss))) (b # bss) (\<Union>bs \<in> set (b # bss). bits_of bs)"
    "bitset_result (merge_bitset (map Some (b # bss))) (b # bss) (\<Union>bs \<in> set (b # bss). bits_of bs)"
    "bitset_result (and_bitset (map Some (b # bss))) (b # bss) (\<Inter>bs \<in> set (b # bss). bits_of bs)"
    "bitset_result (subtract_bitset (map Some (b # bss))) (b # bss) (bits_of b - (\<Union>bs \<in> set bss. bits_of bs))"
    "bitset_result (xor_bitset (map Some (b # bss))) (b # bss)
      {k. odd (length (filter (\<lambda>bs. k \<in> bits_of bs) (b # bss)))}"
proof -
  note ok = assms(1)
  have below: "k < bs_size b" if "bs \<in> set (b # bss)" "k \<in> bits_of bs" for bs k
    using ok that bits_below by metis
  have odd_below: "{k. odd (length (filter (\<lambda>bs. k \<in> bits_of bs) (b # bss)))} \<subseteq> (\<Union>bs \<in> set (b # bss). bits_of bs)"
  proof
    fix k assume "k \<in> {k. odd (length (filter (\<lambda>bs. k \<in> bits_of bs) (b # bss)))}"
    then have "filter (\<lambda>bs. k \<in> bits_of bs) (b # bss) \<noteq> []" by (metis even_zero list.size(3) mem_Collect_eq)
    then show "k \<in> (\<Union>bs \<in> set (b # bss). bits_of bs)" unfolding filter_empty_conv by blast
  qed
  have res: "bitset_result r (b # bss) B"
    if r: "\<exists>r'. r = Inr (Some r') \<and> bitset_ok r' \<and> bs_size r' = bs_size b \<and>
        (\<forall>k < bs_size b. k \<in> bits_of r' \<longleftrightarrow> Q k) \<and> (\<not> d \<longrightarrow> (\<forall>bs \<in> set (b # bss). clean bs) \<longrightarrow> clean r')"
      and d: "\<not> d" and B: "B \<subseteq> (\<Union>bs \<in> set (b # bss). bits_of bs)" "\<And>k. k < bs_size b \<Longrightarrow> Q k \<longleftrightarrow> k \<in> B" for r B Q d
  proof -
    obtain r' where r': "r = Inr (Some r')" "bitset_ok r'" "bs_size r' = bs_size b"
      "\<forall>k < bs_size b. k \<in> bits_of r' \<longleftrightarrow> Q k" "(\<forall>bs \<in> set (b # bss). clean bs) \<longrightarrow> clean r'" using r d by blast
    have "k \<in> bits_of r' \<longleftrightarrow> k \<in> B" for k
    proof (cases "k < bs_size b")
      case True
      then show ?thesis using r'(4) B(2) by simp
    next
      case False
      then have "k \<notin> B" using B(1) below by blast
      then show ?thesis using False bits_below [OF r'(2), of k] r'(3) by auto
    qed
    then have "bits_of r' = B" by blast
    then show ?thesis using r' by (simp add: bitset_result_def)
  qed
  show "bitset_result (ior_bitset (map Some (b # bss))) (b # bss) (\<Union>bs \<in> set (b # bss). bits_of bs)"
    unfolding ior_bitset_def by (rule res [OF ior.primitive_ok [OF ok assms(2)]]) (simp, force, simp only: foldl_bits, simp)
  show "bitset_result (merge_bitset (map Some (b # bss))) (b # bss) (\<Union>bs \<in> set (b # bss). bits_of bs)"
    unfolding merge_bitset_def by (rule res [OF ior.primitive_ok [OF ok assms(2)]]) (simp, force, simp only: foldl_bits, simp)
  show "bitset_result (and_bitset (map Some (b # bss))) (b # bss) (\<Inter>bs \<in> set (b # bss). bits_of bs)"
    unfolding and_bitset_def by (rule res [OF conj.primitive_ok [OF ok assms(2)]]) (simp, force, simp only: foldl_bits, simp)
  show "bitset_result (subtract_bitset (map Some (b # bss))) (b # bss) (bits_of b - (\<Union>bs \<in> set bss. bits_of bs))"
    unfolding subtract_bitset_def by (rule res [OF sub.primitive_ok [OF ok assms(2)]]) (simp, force, simp only: foldl_bits, simp)
  show "bitset_result (xor_bitset (map Some (b # bss))) (b # bss)
      {k. odd (length (filter (\<lambda>bs. k \<in> bits_of bs) (b # bss)))}"
    unfolding xor_bitset_def
    by (rule res [OF xor.primitive_ok [OF ok assms(2)]]) (simp, rule odd_below, simp only: foldl_bits, simp)
qed

text \<open>The copy that each of them starts with reads a word, and a bitset of size 0 has none.\<close>

lemma bitset_primitives_empty:
  assumes "bitset_ok b" "bs_size b = 0"
  shows "bitset_args f None (Some b # args) = Inl Segmentation_fault" "idio_not_bitset b = Inl Segmentation_fault"
  using assms by (simp_all add: copy_bitset_eq idio_not_bitset_def)

text \<open>The first bitset of another size, and the first argument that is no bitset, end the call.\<close>

lemma size_mismatch:
  assumes "bitset_ok b" "0 < bs_size b" "bs_size c \<noteq> bs_size b"
  shows "bitset_args f None (Some b # Some c # args) = Inl (Bitset_size_mismatch_error (bs_size c) (bs_size b))"
  using assms by (simp add: copy_bitset_eq)

lemma no_bitset:
  "bitset_args f r (None # args) = Inl (Param_type_error ''bitset'')"
  by (cases r) simp_all

section \<open>Complement\<close>

lemma not_bitset_raw:
  assumes "bitset_ok bs" "0 < bs_size bs"
  obtains r where "idio_not_bitset bs = Inr r" "bitset_ok r" "bs_size r = bs_size bs"
    "\<And>k. raw_bit r k \<longleftrightarrow> (if k div 32 < n_ul (bs_size bs) then \<not> raw_bit bs k else raw_bit bs k)"
proof
  let ?r = "bs\<lparr>bs_words := map (\<lambda>i. if i < n_ul (bs_size bs) then NOT (bs_words bs ! i) else bs_words bs ! i)
    [0..<length (bs_words bs)]\<rparr>"
  note n = n_ul_le [OF assms(1)]
  have "fold_result (\<lambda>i r. bind_result (bs_word bs i) (\<lambda>w. bs_word_set r i (NOT w))) [0..<n_ul (bs_size bs)] bs = Inr ?r"
    by (rule words_loop [where g = "\<lambda>i _. NOT (bs_words bs ! i)"])
      (use n in \<open>simp_all add: bs_word_def bs_word_set_def\<close>)
  then show "idio_not_bitset bs = Inr ?r"
    using assms(2) by (simp add: idio_not_bitset_def copy_bitset_eq [OF assms(1)])
  show "bitset_ok ?r" "bs_size ?r = bs_size bs" using assms(1) by (simp_all add: bitset_ok_def)
  show "raw_bit ?r k \<longleftrightarrow> (if k div 32 < n_ul (bs_size bs) then \<not> raw_bit bs k else raw_bit bs k)" for k
    using n by (auto simp: raw_bit_def bit_not_iff)
qed

lemma not_bitset_ok:
  assumes "bitset_ok bs" "0 < bs_size bs"
  obtains r where "idio_not_bitset bs = Inr r" "bitset_ok r" "bs_size r = bs_size bs"
    "bits_of r = {..<bs_size bs} - bits_of bs"
proof (rule not_bitset_raw [OF assms])
  fix r assume r: "idio_not_bitset bs = Inr r" "bitset_ok r" "bs_size r = bs_size bs"
    and raw: "\<And>k. raw_bit r k \<longleftrightarrow> (if k div 32 < n_ul (bs_size bs) then \<not> raw_bit bs k else raw_bit bs k)"
  have "bits_of r = {..<bs_size bs} - bits_of bs"
    by (auto simp: bits_of_def r(3) raw div_less_n_ul)
  then show thesis using that r by blast
qed

text \<open>The unused bits of the last word are set, so the result is clean exactly when there are none.\<close>

lemma not_bitset_clean:
  assumes "bitset_ok bs" "0 < bs_size bs" "clean bs" "idio_not_bitset bs = Inr r"
  shows "clean r \<longleftrightarrow> bs_size bs mod 32 = 0"
proof (rule not_bitset_raw [OF assms(1,2)])
  fix r' assume r': "idio_not_bitset bs = Inr r'" "bitset_ok r'" "bs_size r' = bs_size bs"
    and raw: "\<And>k. raw_bit r' k \<longleftrightarrow> (if k div 32 < n_ul (bs_size bs) then \<not> raw_bit bs k else raw_bit bs k)"
  have r: "r' = r" using r'(1) assms(4) by simp
  let ?k = "bs_size bs"
  show ?thesis
  proof (cases "?k mod 32 = 0")
    case True
    have "k < bs_size r" if k: "raw_bit r k" for k
    proof (rule ccontr)
      assume n: "\<not> k < bs_size r"
      have "n_ul ?k = ?k div 32" using True by (simp add: n_ul_def)
      also have "\<dots> \<le> k div 32" using n r r'(3) by (intro div_le_mono) simp
      finally have "raw_bit bs k" using raw [of k] k r by simp
      then show False using assms(3) n r r'(3) by (simp add: clean_def)
    qed
    then show ?thesis using True by (simp add: clean_def)
  next
    case False
    then have "?k div 32 < n_ul ?k" by (simp add: n_ul_def)
    moreover have "\<not> raw_bit bs ?k" using assms(3) by (auto simp: clean_def)
    ultimately have "raw_bit r ?k" using raw [of ?k] r by simp
    then have "\<not> clean r" using r r'(3) unfolding clean_def by (metis less_irrefl)
    then show ?thesis using False by simp
  qed
qed

section \<open>Equality\<close>

lemma equal_words_below:
  fixes a b :: bitset_word
  assumes "e < 32"
  shows "a AND drop_bit (32 - e) (- 1) = b AND drop_bit (32 - e) (- 1) \<longleftrightarrow> (\<forall>j < 32. j < e \<longrightarrow> (bit a j \<longleftrightarrow> bit b j))"
proof -
  have w: "a' = b' \<longleftrightarrow> (\<forall>j < 32. bit a' j \<longleftrightarrow> bit b' j)" for a' b' :: bitset_word
    using bit_word_eqI [of a' b'] by auto
  have m: "bit (drop_bit (32 - e) (- 1) :: bitset_word) j \<longleftrightarrow> j < e" if "j < 32" for j
    using that assms by (auto simp: bit_simps)
  show ?thesis unfolding w [of "a AND _"] bit_and_iff using m by blast
qed

lemma equal_word_ok:
  assumes "bitset_ok a" "bitset_ok b" "bs_size a = bs_size b" "i < n_ul (bs_size a)"
  shows "equal_word (bs_size a) a b i =
    Inr (\<forall>j < 32. i * 32 + j < bs_size a \<longrightarrow> (raw_bit a (i * 32 + j) \<longleftrightarrow> raw_bit b (i * 32 + j)))"
proof -
  let ?e = "bs_size a mod 32"
  have l: "i < length (bs_words a)" "i < length (bs_words b)"
    using assms n_ul_le [OF assms(1)] n_ul_le [OF assms(2)] by simp_all
  have raw: "raw_bit a (i * 32 + j) \<longleftrightarrow> bit (bs_words a ! i) j" "raw_bit b (i * 32 + j) \<longleftrightarrow> bit (bs_words b ! i) j"
    if "j < 32" for j using that l by (simp_all add: raw_bit_def)
  show ?thesis
  proof (cases "?e \<noteq> 0 \<and> i = n_ul (bs_size a) - 1")
    case True
    have "equal_word (bs_size a) a b i =
        Inr (bs_words a ! i AND drop_bit (32 - ?e) (- 1) = bs_words b ! i AND drop_bit (32 - ?e) (- 1))"
      using True l unfolding equal_word_def Let_def bs_word_def by (simp only: if_True if_False bind_result_simps simp_thms)
    also have "bs_words a ! i AND drop_bit (32 - ?e) (- 1) = bs_words b ! i AND drop_bit (32 - ?e) (- 1) \<longleftrightarrow>
        (\<forall>j < 32. j < ?e \<longrightarrow> (bit (bs_words a ! i) j \<longleftrightarrow> bit (bs_words b ! i) j))"
      by (rule equal_words_below) simp
    also have "\<dots> \<longleftrightarrow> (\<forall>j < 32. i * 32 + j < bs_size a \<longrightarrow> (raw_bit a (i * 32 + j) \<longleftrightarrow> raw_bit b (i * 32 + j)))"
      using raw n_ul_last [of i "bs_size a"] True by blast
    finally show ?thesis .
  next
    case False
    then have below: "i * 32 + j < bs_size a" if "j < 32" for j
      using False by (intro n_ul_mult [OF assms(4) that]) blast
    have "equal_word (bs_size a) a b i = Inr (bs_words a ! i = bs_words b ! i)"
      unfolding equal_word_def Let_def bs_word_def if_P [OF l(1)] if_P [OF l(2)] bind_result_simps by (rule if_not_P [OF False])
    also have "bs_words a ! i = bs_words b ! i \<longleftrightarrow> (\<forall>j < 32. bit (bs_words a ! i) j \<longleftrightarrow> bit (bs_words b ! i) j)"
      using bit_word_eqI [of "bs_words a ! i" "bs_words b ! i"] by auto
    also have "\<dots> \<longleftrightarrow> (\<forall>j < 32. i * 32 + j < bs_size a \<longrightarrow> (raw_bit a (i * 32 + j) \<longleftrightarrow> raw_bit b (i * 32 + j)))"
      using raw below by blast
    finally show ?thesis .
  qed
qed

lemma equal_loop_ok:
  assumes "bitset_ok a" "bitset_ok b" "bs_size a = bs_size b" "\<forall>i \<in> set is. i < n_ul (bs_size a)"
  shows "equal_loop a b is =
    Inr (\<forall>i \<in> set is. \<forall>j < 32. i * 32 + j < bs_size a \<longrightarrow> (raw_bit a (i * 32 + j) \<longleftrightarrow> raw_bit b (i * 32 + j)))"
  using assms(4)
proof (induction "is")
  case (Cons i "is")
  then show ?case using equal_word_ok [OF assms(1-3), of i] by simp
qed simp

lemma equal_bitset_ok:
  assumes "bitset_ok a" "bitset_ok b" "bs_size a = bs_size b"
  shows "equal_loop a b [0..<n_ul (bs_size a)] = Inr (bits_of a = bits_of b)"
proof -
  have "(\<forall>i \<in> set [0..<n_ul (bs_size a)]. \<forall>j < 32. i * 32 + j < bs_size a \<longrightarrow>
      (raw_bit a (i * 32 + j) \<longleftrightarrow> raw_bit b (i * 32 + j))) \<longleftrightarrow>
    (\<forall>k < bs_size a. raw_bit a k \<longleftrightarrow> raw_bit b k)" (is "?l \<longleftrightarrow> ?r")
  proof
    assume l: ?l
    show ?r
    proof (intro allI impI)
      fix k assume k: "k < bs_size a"
      have "k div 32 \<in> set [0..<n_ul (bs_size a)]" "k mod 32 < 32" using div_less_n_ul [OF k] by simp_all
      then show "raw_bit a k \<longleftrightarrow> raw_bit b k" using l k div_mult_mod_eq [of k 32] by metis
    qed
  qed blast
  also have "\<dots> \<longleftrightarrow> bits_of a = bits_of b" using assms(3) by (auto simp: bits_of_def)
  finally show ?thesis using equal_loop_ok [OF assms, of "[0..<n_ul (bs_size a)]"] by simp
qed

lemma equal_bitsetp_ok:
  assumes "\<forall>b \<in> set (a # bss). bitset_ok b"
  shows "idio_equal_bitsetp (map Some (a # bss)) =
    Inr (\<forall>b \<in> set bss. bs_size b = bs_size a \<and> bits_of b = bits_of a)"
proof -
  have "equal_args a (map Some bss) = Inr (\<forall>b \<in> set bss. bs_size b = bs_size a \<and> bits_of b = bits_of a)"
    using assms
  proof (induction bss)
    case (Cons b bss)
    have ab: "bitset_ok a" "bitset_ok b" and IH: "equal_args a (map Some bss) =
      Inr (\<forall>b \<in> set bss. bs_size b = bs_size a \<and> bits_of b = bits_of a)"
      using Cons.prems Cons.IH by simp_all
    show ?case using equal_bitset_ok [OF ab] IH by auto
  qed simp
  then show ?thesis by (simp add: idio_equal_bitsetp_def)
qed

section \<open>Visiting the bits\<close>

lemma fold_comp_filter:
  "fold_comp (\<lambda>j w. if P j then f (g j) w else ret w) js w = fold_comp f (map g (filter P js)) w"
proof (induction js arbitrary: w)
  case (Cons j js)
  then have IH: "fold_comp (\<lambda>j w. if P j then f (g j) w else ret w) js = fold_comp f (map g (filter P js))" by blast
  show ?case by (simp add: IH)
qed simp

lemma upt_block: "[0..<Suc n * m] = [0..<n * m] @ map (\<lambda>j. n * m + j) [0..<m]"
proof -
  have "Suc n * m = n * m + m" by simp
  moreover have "[0..<n * m + m] = [0..<n * m] @ [n * m..<n * m + m]" by (rule upt_add_eq_append) simp
  moreover have "map (\<lambda>j. n * m + j) [0..<m] = [n * m..<n * m + m]"
    by (rule nth_equalityI) simp_all
  ultimately show ?thesis by (simp only:)
qed

lemma chunks:
  "concat (map (\<lambda>i. map (\<lambda>j. i * m + j) (filter (\<lambda>j. P (i * m + j)) [0..<m])) [0..<n]) = filter P [0..<n * m]"
proof (induction n)
  case (Suc n)
  have "filter P [0..<Suc n * m] = filter P [0..<n * m] @
      map (\<lambda>j. n * m + j) (filter (\<lambda>j. P (n * m + j)) [0..<m])"
    by (simp only: upt_block filter_append filter_map o_def)
  then show ?case using Suc by simp
qed simp

lemma for_each_ok:
  assumes keep: "\<And>k w w'. f k w = ret w' \<Longrightarrow> bs w' = bs w"
    and ok: "bitset_ok (bs w)"
  shows "bitset_for_each_set bs f w = fold_comp f (filter (raw_bit (bs w)) [0..<n_ul (bs_size (bs w)) * 32]) w"
proof -
  define B where "B = bs w"
  define chunk where "chunk i = map (\<lambda>j. i * 32 + j) (filter (\<lambda>j. raw_bit B (i * 32 + j)) [0..<32])" for i
  define body where "body i w = bind_comp (Some (bs_word (bs w) i)) (\<lambda>ul.
        if ul \<noteq> 0
        then fold_comp (\<lambda>j w. if ul AND push_bit j 1 \<noteq> 0 then f (i * 32 + j) w else ret w) [0..<32] w
        else ret w)" for i w
  have body: "body i w = fold_comp f (chunk i) w" if w: "bs w = B" and i: "i < n_ul (bs_size B)" for i w
  proof -
    have l: "i < length (bs_words B)" using i n_ul_le [of B] ok by (simp add: B_def)
    have raw: "raw_bit B (i * 32 + j) \<longleftrightarrow> bit (bs_words B ! i) j" if "j \<in> set [0..<32]" for j
      using that l by (simp add: raw_bit_def)
    then have c: "chunk i = map (\<lambda>j. i * 32 + j) (filter (\<lambda>j. bit (bs_words B ! i) j) [0..<32])"
      unfolding chunk_def by (intro arg_cong [where f = "map _"] filter_cong) auto
    have b: "body i w = (if bs_words B ! i \<noteq> 0
        then fold_comp (\<lambda>j w. if bs_words B ! i AND push_bit j 1 \<noteq> 0 then f (i * 32 + j) w else ret w) [0..<32] w
        else ret w)"
    proof -
      have "Some (bs_word (bs w) i) = ret (bs_words B ! i)" using w l by (simp add: bs_word_def)
      then show ?thesis by (simp only: body_def comp_simps)
    qed
    show ?thesis
    proof (cases "bs_words B ! i = 0")
      case True
      then show ?thesis using b c by simp
    next
      case False
      then show ?thesis unfolding b c and_push_bit_1
        using fold_comp_filter [of "bit (bs_words B ! i)" f "\<lambda>j. i * 32 + j"] by simp
    qed
  qed
  have "fold_comp body is w = fold_comp f (concat (map chunk is)) w"
    if "bs w = B" "\<forall>i \<in> set is. i < n_ul (bs_size B)" for w "is"
    using that
  proof (induction "is" arbitrary: w)
    case (Cons i "is")
    have b: "body i w = fold_comp f (chunk i) w" using body Cons.prems by simp
    have "fold_comp body is w' = fold_comp f (concat (map chunk is)) w'" if "fold_comp f (chunk i) w = ret w'" for w'
      using Cons.IH [of w'] Cons.prems fold_comp_keeps [of f bs, OF keep that] by simp
    then have "bind_comp (fold_comp f (chunk i) w) (fold_comp body is) =
        bind_comp (fold_comp f (chunk i) w) (fold_comp f (concat (map chunk is)))"
      by (rule bind_comp_cong_ret)
    then show ?case by (simp add: b fold_comp_append)
  qed simp
  from this [of w "[0..<n_ul (bs_size B)]"] have
    "fold_comp body [0..<n_ul (bs_size B)] w = fold_comp f (concat (map chunk [0..<n_ul (bs_size B)])) w"
    by (simp add: B_def)
  moreover have "bitset_for_each_set bs f w = fold_comp body [0..<n_ul (bs_size B)] w"
    by (simp add: bitset_for_each_set_def body_def [abs_def] B_def)
  moreover have "concat (map chunk [0..<n_ul (bs_size B)]) = filter (raw_bit B) [0..<n_ul (bs_size B) * 32]"
    unfolding chunk_def by (rule chunks)
  ultimately show ?thesis by (simp add: B_def)
qed

lemma fold_bitset_for_each:
  "fold_bitset bs f v w = bitset_for_each_set (\<lambda>(v, w). bs w) (\<lambda>k (v, w). f k v w) (v, w)"
proof -
  have p: "(\<lambda>j (v, w). if ul AND push_bit j 1 \<noteq> 0 then f (i * 32 + j) v w else ret (v, w)) =
      (\<lambda>j s. if ul AND push_bit j 1 \<noteq> 0 then (case s of (v, w) \<Rightarrow> f (i * 32 + j) v w) else ret s)"
    for ul :: bitset_word and i
    by (intro ext) (simp split: prod.splits)
  show ?thesis unfolding fold_bitset_def bitset_for_each_set_def p prod.case
    by (rule arg_cong [where f = "\<lambda>b. fold_comp b _ _"]) (auto simp: fun_eq_iff)
qed

text \<open>On a clean bitset the bits of the set are visited, in increasing order.\<close>

lemma visited_clean:
  assumes "bitset_ok bs" "clean bs"
  shows "filter (raw_bit bs) [0..<n_ul (bs_size bs) * 32] = sorted_list_of_set (bits_of bs)"
proof (rule sorted_distinct_set_unique)
  show "set (filter (raw_bit bs) [0..<n_ul (bs_size bs) * 32]) = set (sorted_list_of_set (bits_of bs))"
  proof -
    have "finite (bits_of bs)" by (rule finite_subset [of _ "{..<bs_size bs}"]) (auto simp: bits_of_def)
    moreover have "k < n_ul (bs_size bs) * 32" if "k < bs_size bs" for k
      using div_less_n_ul [OF that] by (simp add: div_less_iff_less_mult)
    ultimately show ?thesis using assms(2) by (auto simp: bits_of_def clean_def)
  qed
qed (simp_all add: sorted_wrt_filter)

section \<open>The primitives\<close>

lemma make_bitset_ints:
  assumes "num_int n = Some i" "\<bar>i\<bar> \<le> INTPTR_MAX"
  shows "make_bitset n = ret (idio_bitset (if 0 \<le> i then nat i else 18446744073709551616 - nat (- i)))"
proof -
  have "size_of_ptrdiff i = (if 0 \<le> i then nat i else 18446744073709551616 - nat (- i))"
  proof (cases "0 \<le> i")
    case False
    then have "i mod 18446744073709551616 = i + 18446744073709551616"
      using assms(2) mod_pos_pos_trivial [of "i + 18446744073709551616" 18446744073709551616]
      by (simp add: INTPTR_MAX_def)
    then show ?thesis using False assms(2) by (simp add: size_of_ptrdiff_def INTPTR_MAX_def nat_diff_distrib')
  qed (use assms(2) in \<open>simp add: size_of_ptrdiff_def INTPTR_MAX_def\<close>)
  then show ?thesis using assms by (simp add: make_bitset_def index_value_ints)
qed

lemma bit_value_ints:
  "num_int n = Some i \<Longrightarrow> \<bar>i\<bar> \<le> INTPTR_MAX \<Longrightarrow> bit_value (Bit_num n) = ret i"
  "bit_value (Bit_unicode u) = ret (int u)"
  using index_value_ints [of n i] by (auto simp: bit_value_def elim!: num_int_cases)

text \<open>
  The complement of a bitset whose size is no multiple of 32 is not clean: the
  visits then go beyond the size.
\<close>

lemma not_bitset_visits:
  assumes "bitset_ok bs" "clean bs" "bs_size bs mod 32 \<noteq> 0"
  obtains r k where "idio_not_bitset bs = Inr r" "bs_size bs \<le> k"
    "k \<in> set (filter (raw_bit r) [0..<n_ul (bs_size r) * 32])"
proof -
  have s: "0 < bs_size bs" using assms(3) by (cases "bs_size bs = 0") simp_all
  obtain r where r: "idio_not_bitset bs = Inr r" "bs_size r = bs_size bs"
    and raw: "\<And>k. raw_bit r k \<longleftrightarrow> (if k div 32 < n_ul (bs_size bs) then \<not> raw_bit bs k else raw_bit bs k)"
    using not_bitset_raw [OF assms(1) s] by blast
  let ?k = "bs_size bs"
  have n: "n_ul ?k = Suc (?k div 32)" using assms(3) by (simp add: n_ul_def)
  have "\<not> raw_bit bs ?k" using assms(2) by (auto simp: clean_def)
  moreover have "?k < n_ul ?k * 32" unfolding n by (simp add: dividend_less_times_div mult.commute)
  ultimately have "?k \<in> set (filter (raw_bit r) [0..<n_ul (bs_size r) * 32])" using r(2) raw n by simp
  then show thesis using that r(1) by blast
qed

end
