(* ===== verification/Code_Align.thy ===== *)
theory Code_Align
  imports Codegen
begin

text \<open>
  What the code generator emits is a sequence of whole instructions for the reader of the
  machine: reading at its first byte, and each time behind the instruction read before, ends
  at its end; and the distance of every jump, of every block that is left early and to the
  code of every function leads to the start of one of these instructions, or to the end.
\<close>

section \<open>Instructions one after the other\<close>

text \<open>The distance, from behind an instruction, that the instruction says code is to be found at.\<close>

definition distance_of :: "nat \<Rightarrow> nat list \<Rightarrow> nat option" where
  "distance_of ins ns =
    (if ins \<in> {IDIO_A_SHORT_GOTO, IDIO_A_LONG_GOTO, IDIO_A_SHORT_JUMP_FALSE, IDIO_A_LONG_JUMP_FALSE,
         IDIO_A_SHORT_JUMP_TRUE, IDIO_A_LONG_JUMP_TRUE, IDIO_A_PUSH_ABORT, IDIO_A_CREATE_FUNCTION}
     then Some (ns ! 0)
     else if ins = IDIO_A_PUSH_ESCAPER then Some (ns ! 1) else None)"

text \<open>
  \<open>parsed bc pc inss pc'\<close>: reading from \<open>pc\<close> on, one instruction behind the other, comes to
  \<open>pc'\<close>; each instruction that is read with the place behind it.
\<close>

inductive parsed :: "byte list \<Rightarrow> nat \<Rightarrow> ((nat \<times> nat list) \<times> nat) list \<Rightarrow> nat \<Rightarrow> bool" for bc where
  parsed_end: "parsed bc pc [] pc"
| parsed_ins: "fetch bc pc = Inr (ins, pc') \<Longrightarrow> parsed bc pc' inss pc'' \<Longrightarrow> parsed bc pc ((ins, pc') # inss) pc''"

definition targets_ok :: "((nat \<times> nat list) \<times> nat) list \<Rightarrow> bool" where
  "targets_ok inss \<longleftrightarrow>
    (\<forall>op ns pc' off. ((op, ns), pc') \<in> set inss \<longrightarrow> distance_of op ns = Some off \<longrightarrow> pc' + off \<in> snd ` set inss)"

definition whole_code :: "byte list \<Rightarrow> nat \<Rightarrow> nat \<Rightarrow> bool" where
  "whole_code bc pc pc' \<longleftrightarrow> (\<exists>inss. parsed bc pc inss pc' \<and> targets_ok inss)"

lemma parsed_append: "parsed bc a is b \<Longrightarrow> parsed bc b js c \<Longrightarrow> parsed bc a (is @ js) c"
  by (induction rule: parsed.induct) (auto intro: parsed.intros)

lemma parsed_last: "parsed bc a is b \<Longrightarrow> b \<in> insert a (snd ` set is)"
  by (induction rule: parsed.induct) auto

lemma targets_ok_Nil [simp]: "targets_ok []"
  by (simp add: targets_ok_def)

lemma targets_ok_append: "targets_ok is \<Longrightarrow> targets_ok js \<Longrightarrow> targets_ok (is @ js)"
  unfolding targets_ok_def set_append image_Un by blast

lemma targets_ok_Cons:
  "targets_ok is \<Longrightarrow> (\<And>off. distance_of op ns = Some off \<Longrightarrow> pc' + off \<in> insert pc' (snd ` set is)) \<Longrightarrow>
    targets_ok (((op, ns), pc') # is)"
  by (fastforce simp: targets_ok_def)

lemma whole_nothing [simp]: "whole_code bc pc pc"
  unfolding whole_code_def using parsed_end targets_ok_Nil by blast

lemma whole_append: "whole_code bc a b \<Longrightarrow> whole_code bc b c \<Longrightarrow> whole_code bc a c"
  unfolding whole_code_def using parsed_append targets_ok_append by blast

text \<open>An instruction before code with the place it leads to, which splits that code in two.\<close>

lemma whole_jump:
  assumes "fetch bc a = Inr ((op, ns), b)" "\<And>off. distance_of op ns = Some off \<Longrightarrow> b + off = m"
    "parsed bc b is1 m" "parsed bc m is2 c" "targets_ok (is1 @ is2)"
  shows "whole_code bc a c"
proof -
  have "parsed bc a (((op, ns), b) # is1 @ is2) c" by (rule parsed_ins [OF assms(1) parsed_append [OF assms(3,4)]])
  moreover have "targets_ok (((op, ns), b) # is1 @ is2)"
    using parsed_last [OF assms(3)] assms(2) by (intro targets_ok_Cons assms(5)) auto
  ultimately show ?thesis unfolding whole_code_def by blast
qed

lemma whole_jump_over:
  "fetch bc a = Inr ((op, ns), b) \<Longrightarrow> (\<And>off. distance_of op ns = Some off \<Longrightarrow> b + off = c) \<Longrightarrow> whole_code bc b c \<Longrightarrow>
    whole_code bc a c"
  unfolding whole_code_def [of bc b] using whole_jump parsed_end by (metis append_Nil2)

text \<open>Two branches: the first jump leads to behind the second.\<close>

lemma whole_branches:
  assumes "fetch bc a = Inr ((op, ns), b)" "distance_of op ns = Some (d - b)" "whole_code bc b c" "c \<le> d" "b \<le> c"
    "fetch bc c = Inr ((op', ns'), d)" "distance_of op' ns' = Some (e - d)" "d \<le> e" "whole_code bc d e"
  shows "whole_code bc a e"
proof -
  obtain is1 is2 where i: "parsed bc b is1 c" "targets_ok is1" "parsed bc d is2 e" "targets_ok is2"
    using assms(3,9) unfolding whole_code_def by blast
  have "targets_ok (((op', ns'), d) # is2)" using parsed_last [OF i(3)] assms(7,8) by (intro targets_ok_Cons i(4)) auto
  then have t: "targets_ok ((is1 @ [((op', ns'), d)]) @ is2)" using targets_ok_append [OF i(2)] by simp
  have "parsed bc b (is1 @ [((op', ns'), d)]) d" by (intro parsed_append [OF i(1)] parsed_ins [OF assms(6)] parsed_end)
  then show ?thesis using whole_jump [OF assms(1) _ _ i(3) t] assms(2,4,5) by simp
qed

section \<open>Pieces of code\<close>

text \<open>Wherever a piece stands; the distances are numbers of 64 bits.\<close>

definition whole :: "byte list \<Rightarrow> bool" where
  "whole bs \<longleftrightarrow> (length bs < 2 ^ 64 \<longrightarrow> (\<forall>pre post. whole_code (pre @ bs @ post) (length pre) (length pre + length bs)))"

named_theorems whole

lemma wholeI:
  "(\<And>pre post. length bs < 2 ^ 64 \<Longrightarrow> whole_code (pre @ bs @ post) (length pre) (length pre + length bs)) \<Longrightarrow> whole bs"
  by (simp add: whole_def)

lemma wholeD: "whole bs \<Longrightarrow> length bs < 2 ^ 64 \<Longrightarrow> whole_code (pre @ bs @ post) (length pre) (length pre + length bs)"
  by (simp add: whole_def)

lemma whole_Nil [whole]: "whole []"
  by (simp add: whole_def)

lemma whole_seq [whole]: "whole bs \<Longrightarrow> whole cs \<Longrightarrow> whole (bs @ cs)"
proof (rule wholeI)
  fix pre post assume h: "whole bs" "whole cs" "length (bs @ cs) < 2 ^ 64"
  show "whole_code (pre @ (bs @ cs) @ post) (length pre) (length pre + length (bs @ cs))"
    using whole_append wholeD [OF h(1), of pre "cs @ post"] wholeD [OF h(2), of "pre @ bs" post] h(3) by (auto simp: add.assoc)
qed

text \<open>The operands as the generator writes them.\<close>

lemma reads_op:
  assumes "op < 256" "reads (get_operands (operands op)) bs ns"
  shows "reads fetch (IDIO_IA_PUSH1 op @ bs) (op, ns)"
proof -
  have "reads (\<lambda>bc pc. bind_result (IDIO_IA_GET_NEXT bc pc) (\<lambda>(ins, pc).
      bind_result (get_operands (operands ins) bc pc) (\<lambda>(ns, pc). Inr ((ins, ns), pc)))) ([IDIO_I op] @ bs) (op, ns)"
    using reads_map [OF assms(2), of "Pair op"] assms(1) by (intro reads_bind [OF get_next]) simp
  then show ?thesis by (simp add: reads_def fetch_def IDIO_IA_PUSH1_def)
qed

lemma reads_operands_Nil: "reads (get_operands []) [] []"
  by (simp add: reads_def)

lemma reads_operands_1: "reads (get_operand p) b n \<Longrightarrow> reads (get_operands [p]) b [n]"
  using reads_operands_Cons [OF _ reads_operands_Nil] by fastforce

lemma reads_VARUINT: "reads (get_operand Varuint) (IDIO_IA_PUSH_VARUINT i) (u64 i)"
  using varuint_roundtrip [of "u64 i"] by (simp add: IDIO_IA_PUSH_VARUINT_def u64_def nat_less_iff)

lemma reads_REF: "reads (get_operand Ref) (IDIO_IA_PUSH_REF i) (u64 i mod 65536)"
  using uint16_roundtrip [of "u64 i"] by (simp add: IDIO_IA_PUSH_REF_def)

lemma reads_Byte: "reads (get_operand Byte) [b] (unat b)"
  using get_next by simp

lemmas reads_pieces = reads_operands_Cons reads_operands_1 reads_VARUINT reads_REF reads_Byte

lemma whole_ins:
  assumes "reads fetch bs (op, ns)" "distance_of op ns = None"
  shows "whole bs"
  using readsD [OF assms(1)] assms(2) by (intro wholeI whole_jump_over [OF _ _ whole_nothing]) auto

lemma whole_op_0 [whole]: "operands op = [] \<Longrightarrow> op < 256 \<Longrightarrow> distance_of op [] = None \<Longrightarrow> whole (IDIO_IA_PUSH1 op)"
  using whole_ins [OF reads_op [of op "[]" "[]"]] by (simp add: reads_operands_Nil)

lemma whole_op_1 [whole]:
  "operands op = [Varuint] \<Longrightarrow> op < 256 \<Longrightarrow> (\<And>n. distance_of op [n] = None) \<Longrightarrow> whole (IDIO_IA_PUSH1 op @ IDIO_IA_PUSH_VARUINT i)"
  "operands op = [Ref] \<Longrightarrow> op < 256 \<Longrightarrow> (\<And>n. distance_of op [n] = None) \<Longrightarrow> whole (IDIO_IA_PUSH1 op @ IDIO_IA_PUSH_REF i)"
  "operands op = [Byte] \<Longrightarrow> op < 256 \<Longrightarrow> (\<And>n. distance_of op [n] = None) \<Longrightarrow> whole (IDIO_IA_PUSH1 op @ [b])"
  using reads_pieces(2-5) by (metis whole_ins reads_op)+

lemma whole_op_2 [whole]:
  "operands op = [Varuint, Varuint] \<Longrightarrow> op < 256 \<Longrightarrow> (\<And>n n'. distance_of op [n, n'] = None) \<Longrightarrow>
    whole (IDIO_IA_PUSH1 op @ IDIO_IA_PUSH_VARUINT i @ IDIO_IA_PUSH_VARUINT j)"
  "operands op = [Ref, Varuint] \<Longrightarrow> op < 256 \<Longrightarrow> (\<And>n n'. distance_of op [n, n'] = None) \<Longrightarrow>
    whole (IDIO_IA_PUSH1 op @ IDIO_IA_PUSH_REF i @ IDIO_IA_PUSH_VARUINT j)"
  using reads_pieces by (metis whole_ins reads_op)+

section \<open>Jumps, branches and functions\<close>

text \<open>Code behind a piece that leads over the first part of it.\<close>

lemma u64_length: "n < 2 ^ 64 \<Longrightarrow> u64 (int n) = n"
  by (simp add: u64_def)

lemma whole_over:
  assumes "reads fetch b (op, ns)" "length bs < 2 ^ 64 \<Longrightarrow> distance_of op ns = Some (length bs)" "whole bs"
  shows "whole (b @ bs)"
proof (rule wholeI)
  fix pre post assume l: "length (b @ bs) < 2 ^ 64"
  then have "whole_code ((pre @ b) @ bs @ post) (length (pre @ b)) (length (pre @ b) + length bs)"
    by (intro wholeD assms(3)) simp
  moreover have "fetch (pre @ (b @ bs) @ post) (length pre) = Inr ((op, ns), length pre + length b)"
    using readsD [OF assms(1), of pre "bs @ post"] by simp
  moreover have "length bs < 2 ^ 64" using l by simp
  ultimately show "whole_code (pre @ (b @ bs) @ post) (length pre) (length pre + length (b @ bs))"
    using whole_jump_over [of "pre @ (b @ bs) @ post" "length pre" op ns "length pre + length b"] assms(2) by (simp add: add.assoc)
qed

lemma reads_jump:
  assumes "short < 256" "long < 256" "operands short = [Byte]" "operands long = [Varuint]" "l < 2 ^ 64"
  shows "reads fetch (jump short long l) (if l \<le> IDIO_IA_VARUINT_1BYTE then short else long, [l])"
proof (cases "l \<le> IDIO_IA_VARUINT_1BYTE")
  case True
  have "reads (get_operands (operands short)) [IDIO_I l] [l]"
    using reads_operands_1 [OF reads_Byte, of "IDIO_I l"] assms(3) True by (simp add: IDIO_IA_VARUINT_1BYTE_def)
  then show ?thesis using reads_op [OF assms(1)] True by (simp add: jump_def IDIO_IA_PUSH1_def)
next
  case False
  have "reads (get_operands (operands long)) (idio_ia_compute_varuint l) [l]"
    using reads_operands_1 [of Varuint, OF _] varuint_roundtrip [OF assms(5)] assms(4) by simp
  then show ?thesis using reads_op [OF assms(2)] False by (simp add: jump_def)
qed

definition jump_pair :: "nat \<Rightarrow> nat \<Rightarrow> bool" where
  "jump_pair short long \<longleftrightarrow> (short, long) \<in> {(IDIO_A_SHORT_GOTO, IDIO_A_LONG_GOTO),
    (IDIO_A_SHORT_JUMP_FALSE, IDIO_A_LONG_JUMP_FALSE), (IDIO_A_SHORT_JUMP_TRUE, IDIO_A_LONG_JUMP_TRUE)}"

lemma reads_jump_pair:
  assumes "jump_pair short long" "l < 2 ^ 64"
  obtains op where "reads fetch (jump short long l) (op, [l])" "distance_of op [l] = Some l"
  using that reads_jump [of short long l] assms by (auto simp: jump_pair_def distance_of_def split: if_splits)

lemma whole_jump_to_end: "jump_pair short long \<Longrightarrow> whole bs \<Longrightarrow> whole (jump short long (length bs) @ bs)"
  by (cases "length bs < 2 ^ 64", metis reads_jump_pair whole_over) (simp add: whole_def)

lemma whole_alternative:
  assumes "whole m2" "whole m3"
  shows "whole (alternative_code m2 m3)"
proof (rule wholeI)
  fix pre post
  let ?g = "jump IDIO_A_SHORT_GOTO IDIO_A_LONG_GOTO (length m3)"
  let ?j = "jump IDIO_A_SHORT_JUMP_FALSE IDIO_A_LONG_JUMP_FALSE (length m2 + length ?g)"
  have c: "alternative_code m2 m3 = ?j @ m2 @ ?g @ m3"
    by (simp add: alternative_code_def jump_def Let_def IDIO_IA_PUSH1_def)
  assume "length (alternative_code m2 m3) < 2 ^ 64"
  then have l: "length m2 + length ?g < 2 ^ 64" "length m3 < 2 ^ 64" "length m2 < 2 ^ 64" by (simp_all add: c)
  obtain op where j: "reads fetch ?j (op, [length m2 + length ?g])" "distance_of op [length m2 + length ?g] = Some (length m2 + length ?g)"
    by (rule reads_jump_pair [OF _ l(1), of IDIO_A_SHORT_JUMP_FALSE IDIO_A_LONG_JUMP_FALSE]) (simp_all add: jump_pair_def)
  obtain op' where g: "reads fetch ?g (op', [length m3])" "distance_of op' [length m3] = Some (length m3)"
    by (rule reads_jump_pair [OF _ l(2), of IDIO_A_SHORT_GOTO IDIO_A_LONG_GOTO]) (simp_all add: jump_pair_def)
  let ?bc = "pre @ (?j @ m2 @ ?g @ m3) @ post"
  have "whole_code ?bc (length pre + length ?j) (length pre + length ?j + length m2)"
    using wholeD [OF assms(1) l(3), of "pre @ ?j" "?g @ m3 @ post"] by simp
  moreover have "whole_code ?bc (length pre + length ?j + length m2 + length ?g) (length pre + length ?j + length m2 + length ?g + length m3)"
    using wholeD [OF assms(2) l(2), of "pre @ ?j @ m2 @ ?g" post] by (simp add: add.assoc)
  moreover have "fetch ?bc (length pre) = Inr ((op, [length m2 + length ?g]), length pre + length ?j)"
    using readsD [OF j(1), of pre "m2 @ ?g @ m3 @ post"] by simp
  moreover have "fetch ?bc (length pre + length ?j + length m2) = Inr ((op', [length m3]), length pre + length ?j + length m2 + length ?g)"
    using readsD [OF g(1), of "pre @ ?j @ m2" "m3 @ post"] by (simp add: add.assoc)
  ultimately have "whole_code ?bc (length pre) (length pre + length ?j + length m2 + length ?g + length m3)"
    using whole_branches [of ?bc "length pre" op "[length m2 + length ?g]" "length pre + length ?j"
      "length pre + length ?j + length m2 + length ?g" "length pre + length ?j + length m2" op' "[length m3]"
      "length pre + length ?j + length m2 + length ?g + length m3"] j(2) g(2) by simp
  then show "whole_code (pre @ alternative_code m2 m3 @ post) (length pre) (length pre + length (alternative_code m2 m3))"
    unfolding c by (simp add: add.assoc)
qed

lemma whole_link_clauses: "jump_pair short long \<Longrightarrow> list_all whole iacs \<Longrightarrow> whole (link_clauses short long iacs)"
proof (induction iacs)
  case (Cons iac iacs)
  then show ?case using whole_jump_to_end [of short long "iac @ link_clauses short long iacs"]
    by (simp add: Let_def whole_seq)
qed (simp add: whole)

lemma whole_block:
  assumes "whole bs"
  shows "whole (IDIO_IA_PUSH1 IDIO_A_PUSH_ABORT @ IDIO_IA_PUSH_VARUINT (int (length bs)) @ bs)"
    "whole (IDIO_IA_PUSH1 IDIO_A_PUSH_ESCAPER @ IDIO_IA_PUSH_REF ci @ IDIO_IA_PUSH_VARUINT (int (length bs)) @ bs)"
proof -
  have "reads fetch (IDIO_IA_PUSH1 IDIO_A_PUSH_ABORT @ IDIO_IA_PUSH_VARUINT (int (length bs)))
      (IDIO_A_PUSH_ABORT, [u64 (int (length bs))])"
    by (rule reads_op) (simp_all add: reads_pieces del: get_operand.simps get_operands.simps)
  from whole_over [OF this _ assms]
  show "whole (IDIO_IA_PUSH1 IDIO_A_PUSH_ABORT @ IDIO_IA_PUSH_VARUINT (int (length bs)) @ bs)"
    by (simp add: distance_of_def u64_length)
  have "reads fetch (IDIO_IA_PUSH1 IDIO_A_PUSH_ESCAPER @ IDIO_IA_PUSH_REF ci @ IDIO_IA_PUSH_VARUINT (int (length bs)))
      (IDIO_A_PUSH_ESCAPER, [u64 ci mod 65536, u64 (int (length bs))])"
    by (rule reads_op) (simp_all add: reads_pieces del: get_operand.simps get_operands.simps)
  from whole_over [OF this _ assms]
  show "whole (IDIO_IA_PUSH1 IDIO_A_PUSH_ESCAPER @ IDIO_IA_PUSH_REF ci @ IDIO_IA_PUSH_VARUINT (int (length bs)) @ bs)"
    by (simp add: distance_of_def u64_length)
qed

text \<open>A function: its features, the jump over its code, which they lead behind, and its code.\<close>

lemma reads_create:
  assumes "gl \<le> 240"
  shows "reads fetch (IDIO_IA_PUSH1 IDIO_A_CREATE_FUNCTION @ IDIO_IA_PUSH1 gl @ IDIO_IA_PUSH_VARUINT a @ IDIO_IA_PUSH_VARUINT b @
    IDIO_IA_PUSH_VARUINT c @ IDIO_IA_PUSH_VARUINT d @ IDIO_IA_PUSH_VARUINT e)
    (IDIO_A_CREATE_FUNCTION, [gl, u64 a, u64 b, u64 c, u64 d, u64 e])"
proof -
  have "reads (get_operand Varuint) (IDIO_IA_PUSH1 gl) gl" using varuint_1 [OF assms] by (simp add: IDIO_IA_PUSH1_def)
  then show ?thesis by (intro reads_op) (simp_all add: reads_pieces del: get_operand.simps get_operands.simps)
qed

lemma whole_function:
  assumes "whole tf"
  shows "whole (function_code tf nci fci dsci sei)"
proof (rule wholeI)
  fix pre post
  let ?g = "jump IDIO_A_SHORT_GOTO IDIO_A_LONG_GOTO (length tf)"
  let ?c = "IDIO_IA_PUSH1 IDIO_A_CREATE_FUNCTION @ IDIO_IA_PUSH1 (length ?g) @ IDIO_IA_PUSH_VARUINT (int (length tf)) @
    IDIO_IA_PUSH_VARUINT nci @ IDIO_IA_PUSH_VARUINT fci @ IDIO_IA_PUSH_VARUINT dsci @ IDIO_IA_PUSH_VARUINT sei"
  have c: "function_code tf nci fci dsci sei = ?c @ ?g @ tf"
    by (simp add: function_code_def jump_def Let_def IDIO_IA_PUSH1_def numeral_2_eq_2)
  assume "length (function_code tf nci fci dsci sei) < 2 ^ 64"
  then have l: "length tf < 2 ^ 64" by (simp add: c)
  have gl: "length ?g \<le> 240" using varuint_length(2) [of "length tf"] by (simp add: jump_def IDIO_IA_PUSH1_def)
  obtain op' where g: "reads fetch ?g (op', [length tf])" "distance_of op' [length tf] = Some (length tf)"
    by (rule reads_jump_pair [OF _ l, of IDIO_A_SHORT_GOTO IDIO_A_LONG_GOTO]) (simp_all add: jump_pair_def)
  let ?bc = "pre @ (?c @ ?g @ tf) @ post" and ?n = "length pre + length ?c"
  let ?ns = "[length ?g, u64 (int (length tf)), u64 nci, u64 fci, u64 dsci, u64 sei]"
  have "whole_code ?bc (?n + length ?g) (?n + length ?g + length tf)"
    using wholeD [OF assms l, of "pre @ ?c @ ?g" post] by (simp add: add.assoc)
  moreover have "fetch ?bc (length pre) = Inr ((IDIO_A_CREATE_FUNCTION, ?ns), ?n)"
    using readsD [OF reads_create [OF gl], of pre "int (length tf)" nci fci dsci sei "?g @ tf @ post"] by simp
  moreover have "fetch ?bc ?n = Inr ((op', [length tf]), ?n + length ?g)"
    using readsD [OF g(1), of "pre @ ?c" "tf @ post"] by (simp add: add.assoc)
  moreover have "distance_of IDIO_A_CREATE_FUNCTION ?ns = Some (length ?g)" by (simp add: distance_of_def)
  ultimately have "whole_code ?bc (length pre) (?n + length ?g + length tf)"
    using whole_branches [of ?bc "length pre" IDIO_A_CREATE_FUNCTION ?ns ?n "?n + length ?g" ?n op' "[length tf]" "?n + length ?g + length tf"]
      g(2) by simp
  then show "whole_code (pre @ function_code tf nci fci dsci sei @ post) (length pre) (length pre + length (function_code tf nci fci dsci sei))"
    unfolding c by (simp add: add.assoc)
qed

section \<open>The generator\<close>

text \<open>\<open>gives P g\<close>: what \<open>g\<close> returns has \<open>P\<close>, and it adds whole code to the byte code of the environment.\<close>

definition gives :: "('b \<Rightarrow> bool) \<Rightarrow> (eenv \<Rightarrow> ('b \<times> eenv) result) \<Rightarrow> bool" where
  "gives P g \<longleftrightarrow> (\<forall>ee x ee'. g ee = Inr (x, ee') \<longrightarrow>
    P x \<and> (\<exists>fs. ee_byte_code ee' = ee_byte_code ee @ fs \<and> whole fs))"

named_theorems gives

lemma givesD: "gives P g \<Longrightarrow> g ee = Inr (x, ee') \<Longrightarrow> P x \<and> (\<exists>fs. ee_byte_code ee' = ee_byte_code ee @ fs \<and> whole fs)"
  by (simp add: gives_def)

lemma gives_error [gives]: "gives P (\<lambda>ee. Inl e)"
  by (simp add: gives_def)

lemma gives_emit [gives]: "whole bs \<Longrightarrow> gives whole (emit bs)"
  by (auto simp: gives_def emit_def whole_Nil)

lemma gives_same: "P x \<Longrightarrow> gives P (\<lambda>ee. Inr (x, ee))"
  by (auto simp: gives_def whole_Nil)

lemma gives_bind_result:
  assumes "gives P g" "\<And>x. P x \<Longrightarrow> gives Q (f x)"
  shows "gives Q (\<lambda>ee. bind_result (g ee) (\<lambda>(x, ee). f x ee))"
  unfolding gives_def
proof (intro allI impI)
  fix ee y ee' assume "bind_result (g ee) (\<lambda>(x, ee). f x ee) = Inr (y, ee')"
  then obtain x e where r: "g ee = Inr (x, e)" "f x e = Inr (y, ee')" by auto
  obtain fs where f: "P x" "ee_byte_code e = ee_byte_code ee @ fs" "whole fs" using givesD [OF assms(1) r(1)] by blast
  obtain gs where h: "Q y" "ee_byte_code ee' = ee_byte_code e @ gs" "whole gs" using givesD [OF assms(2) [OF f(1)] r(2)] by blast
  show "Q y \<and> (\<exists>fs. ee_byte_code ee' = ee_byte_code ee @ fs \<and> whole fs)"
    using f(2) h whole_seq [OF f(3) h(3)] by auto
qed

lemma gives_bind [gives]: "gives whole g \<Longrightarrow> (\<And>bs. whole bs \<Longrightarrow> gives whole (f bs)) \<Longrightarrow> gives whole (bind_cg g f)"
  unfolding bind_cg_def by (rule gives_bind_result)

lemma gives_seq [gives]: "gives whole g \<Longrightarrow> gives whole h \<Longrightarrow> gives whole (seq_cg g h)"
  unfolding seq_cg_def
  by (rule gives_bind_result, assumption, rule gives_bind_result, assumption) (rule gives_same, rule whole_seq)

lemma gives_seqs [gives]: "gives whole (seqs [])" "gives whole g \<Longrightarrow> gives whole (seqs gs) \<Longrightarrow> gives whole (seqs (g # gs))"
  by (simp_all add: gives whole_Nil)

lemma gives_seqs_map: "(\<And>m. m \<in> set ms \<Longrightarrow> gives whole (f m)) \<Longrightarrow> gives whole (seqs (map f ms))"
  by (induction ms) (auto intro!: gives whole_Nil)

lemma tables_byte_code:
  "idio_codegen_constants_lookup_or_extend ee v = (ci, ee') \<Longrightarrow> ee_byte_code ee' = ee_byte_code ee"
  "idio_codegen_extend_src_exprs cx ee src = (sei, ee') \<Longrightarrow> ee_byte_code ee' = ee_byte_code ee"
proof -
  show a: "idio_codegen_constants_lookup_or_extend ee v = (ci, ee') \<Longrightarrow> ee_byte_code ee' = ee_byte_code ee" for ee ee' v ci
    by (auto simp: idio_codegen_constants_lookup_or_extend_def idio_codegen_extend_constants_def Let_def split: option.splits if_splits)
  show "idio_codegen_extend_src_exprs cx ee src = (sei, ee') \<Longrightarrow> ee_byte_code ee' = ee_byte_code ee"
    by (auto simp: idio_codegen_extend_src_exprs_def Let_def dest!: a split: option.splits if_splits prod.splits)
qed

lemma gives_index [gives]:
  "(\<And>ci. gives whole (f ci)) \<Longrightarrow> gives whole (with_constant v f)"
  "(\<And>sei. gives whole (f sei)) \<Longrightarrow> gives whole (with_src_expr gx src f)"
  unfolding gives_def with_constant_def with_src_expr_def
  by (auto split: prod.splits dest!: tables_byte_code) metis+

lemma gives_append [gives]: "whole bs \<Longrightarrow> gives whole (append_byte_code bs)"
  by (auto simp: gives_def append_byte_code_def whole_Nil)

lemma gives_op [gives]:
  "operands op = [] \<Longrightarrow> op < 256 \<Longrightarrow> distance_of op [] = None \<Longrightarrow> gives whole (op_only op)"
  "operands op = [Ref] \<Longrightarrow> op < 256 \<Longrightarrow> (\<And>n. distance_of op [n] = None) \<Longrightarrow> gives whole (op_ref op i)"
  "operands op = [Varuint] \<Longrightarrow> op < 256 \<Longrightarrow> (\<And>n. distance_of op [n] = None) \<Longrightarrow> gives whole (op_varuint op i)"
  unfolding op_only_def op_ref_def op_varuint_def by (intro gives whole; simp)+

lemma gives_rcse [gives]: "gives whole g \<Longrightarrow> gives whole (rcse b g)"
  unfolding rcse_def by (cases b) (simp_all del: seqs.simps add: gives whole distance_of_def)

lemma gives_src [gives]: "gives whole (IDIO_CODEGEN_SRC_EXPR gx e)"
  unfolding IDIO_CODEGEN_SRC_EXPR_def by (cases "cx_isa_pair gx e") (simp_all add: gives whole distance_of_def)

lemma gives_alternative [gives]:
  "gives whole g \<Longrightarrow> gives whole g1 \<Longrightarrow> gives whole g2 \<Longrightarrow> gives whole g3 \<Longrightarrow> gives whole (cg_alternative g g1 g2 g3)"
  unfolding cg_alternative_def by (intro gives whole_alternative)

lemma gives_clauses: "list_all (gives whole) gs \<Longrightarrow> gives (list_all whole) (clauses tailp gs)"
proof (induction gs)
  case (Cons g gs)
  have "gives (list_all whole) (\<lambda>ee. bind_result (clauses tailp gs ee) (\<lambda>(iacs, ee). Inr (iac # iacs, ee)))"
    if "whole iac" for iac
    by (rule gives_bind_result [OF Cons.IH]) (use Cons.prems that in \<open>simp_all add: gives_same\<close>)
  moreover have "gives whole (rcse (gs \<noteq> [] \<or> \<not> tailp) g)" using Cons.prems by (simp add: gives_rcse)
  ultimately show ?case unfolding clauses.simps by (intro gives_bind_result [of whole])
qed (auto simp: gives_def whole_Nil)

lemma gives_and_or:
  assumes "jump_pair short long" "gives whole g" "\<And>m. m \<in> set ms \<Longrightarrow> gives whole (f m)"
  shows "gives whole (cg_and_or short long tailp g (map f ms))"
proof -
  have "gives whole (\<lambda>ee. bind_result (clauses tailp (map f ms) ee) (\<lambda>(iacs, ee). Inr (link_clauses short long iacs, ee)))"
    using assms(3) by (intro gives_bind_result [OF gives_clauses] gives_same whole_link_clauses assms(1)) (auto simp: list_all_iff)
  then show ?thesis unfolding cg_and_or_def by (intro gives assms(2))
qed

lemma whole_shallow:
  assumes "op0 < 250" "op < 256" "operands op = [Varuint]" "\<And>n. distance_of op [n] = None"
    "\<forall>i \<in> {0, 1, 2, 3}. operands (op0 + i) = [] \<and> distance_of (op0 + i) [] = None"
  shows "whole (cg_shallow op0 op j)"
proof -
  have "operands op0 = []" "operands (op0 + 1) = []" "operands (op0 + 2) = []" "operands (op0 + 3) = []"
    "distance_of op0 [] = None" "distance_of (op0 + 1) [] = None" "distance_of (op0 + 2) [] = None" "distance_of (op0 + 3) [] = None"
    using assms(5) by auto
  then show ?thesis using assms(1-4) unfolding cg_shallow_def by (simp add: whole)
qed

lemma gives_constant: "gives whole (cg_constant c)"
  by (cases c) (simp_all add: cg_constant_def gives whole distance_of_def)

lemma whole_arity: "whole (cg_arity_eq n)" "whole (cg_arity_ge n)" "whole (cg_allocate n)"
  using whole_seq [of "IDIO_IA_PUSH1 IDIO_A_ARITYGEP @ IDIO_IA_PUSH_VARUINT (n + 1)" "IDIO_IA_PUSH1 IDIO_A_PACK_FRAME @ IDIO_IA_PUSH_VARUINT n"]
  by (simp_all add: cg_arity_eq_def cg_arity_ge_def cg_allocate_def whole distance_of_def)

lemma gives_closure:
  assumes "whole check" "gives whole g"
  shows "gives whole (cg_closure gx check g name formals docstr src vi)"
proof -
  have b: "gives whole (seqs [emit (check @ IDIO_IA_PUSH1 IDIO_A_LINK_FRAME @ IDIO_IA_PUSH_VARUINT fci @ IDIO_IA_PUSH_VARUINT sei),
      g, emit (IDIO_IA_PUSH1 IDIO_A_RETURN)])" for fci sei
    using assms by (simp add: gives whole distance_of_def del: seqs.simps)
  have "whole (function_code tf nci fci dsci sei @ IDIO_IA_PUSH1 IDIO_A_VAL_SET @ IDIO_IA_PUSH_REF vi)"
    if "whole tf" for tf nci fci dsci sei
    using whole_function [OF that] by (simp add: whole distance_of_def)
  moreover have "whole (IDIO_IA_PUSH1 IDIO_A_CREATE_CLOSURE @ IDIO_IA_PUSH_REF vi)" by (simp add: whole distance_of_def)
  ultimately show ?thesis unfolding cg_closure_def by (intro gives_index gives_bind b gives_seq gives_append gives_emit)
qed

lemma gives_primcall:
  assumes "op \<le> 240" "operands op = [Varuint]" "\<And>n. distance_of op [n] = None"
  shows "gives whole (emit (IDIO_IA_PUSH_VARUINT (int op) @ IDIO_IA_PUSH_VARUINT pd))"
proof -
  have "IDIO_IA_PUSH_VARUINT (int op) = IDIO_IA_PUSH1 op"
    using assms(1) varuint_length_1 [of op] by (simp add: IDIO_IA_PUSH_VARUINT_def IDIO_IA_PUSH1_def u64_def IDIO_IA_VARUINT_1BYTE_def)
  then show ?thesis using assms by (simp add: gives whole)
qed

lemma gives_primcalls:
  "gives whole (emit (IDIO_IA_PUSH_VARUINT 91 @ IDIO_IA_PUSH_VARUINT pd))"
  "gives whole (emit (IDIO_IA_PUSH_VARUINT 92 @ IDIO_IA_PUSH_VARUINT pd))"
  "gives whole (emit (IDIO_IA_PUSH_VARUINT 93 @ IDIO_IA_PUSH_VARUINT pd))"
  using gives_primcall [of IDIO_A_PRIMCALL0 pd] gives_primcall [of IDIO_A_PRIMCALL1 pd] gives_primcall [of IDIO_A_PRIMCALL2 pd]
  by (simp_all add: distance_of_def)

lemma compile_gives: "gives whole (idio_codegen_compile gx m)"
proof (induction m)
  case (I_AND tailp m1 ms)
  then show ?case by (simp add: gives_and_or jump_pair_def)
next
  case (I_OR tailp m1 ms)
  then show ?case by (simp add: gives_and_or jump_pair_def)
next
  case (I_BEGIN ms)
  then show ?case by (simp add: gives_seqs_map gives)
next
  case (I_list ms)
  then show ?case by (simp add: gives_seqs_map gives)
next
  case (I_SYM_DEF name kind si)
  then show ?case by (simp add: gives whole distance_of_def)
next
  case (I_PUSH_ESCAPER ci mp)
  then show ?case by (simp add: gives whole_block)
next
  case (I_PUSH_ABORT m1)
  then show ?case by (simp add: gives whole_block)
qed (simp_all add: gives gives_constant gives_closure gives_primcalls whole_shallow whole_arity whole distance_of_def del: seqs.simps)

text \<open>
  The code of the functions goes before that of the expression they are in, so the code
  starts where the byte code ended.
\<close>

lemma codegen_gives:
  assumes "idio_codegen gx m ee = Inr (pc, ee')"
  shows "pc = length (ee_byte_code ee) \<and> (\<exists>bs. ee_byte_code ee' = ee_byte_code ee @ bs \<and> whole bs)"
proof -
  obtain ia e where c: "idio_codegen_compile gx m ee = Inr (ia, e)" "pc = length (ee_byte_code ee)"
    "ee_byte_code ee' = ee_byte_code e @ (if ia = [] then IDIO_IA_PUSH1 IDIO_A_NOP else ia)"
    using assms by (auto simp: idio_codegen_def Let_def)
  obtain fs where f: "whole ia" "ee_byte_code e = ee_byte_code ee @ fs" "whole fs"
    using givesD [OF compile_gives c(1)] by blast
  have "whole (if ia = [] then IDIO_IA_PUSH1 IDIO_A_NOP else ia)" using f(1) by (simp add: whole distance_of_def)
  then show ?thesis using c(2,3) f(2) whole_seq [OF f(3)] by auto
qed

end
