(* ===== verification/Idio_Gc.thy ===== *)
theory Idio_Gc
  imports Idio_Value
begin

text \<open>
  The garbage collector (\<^verbatim>\<open>src/src/gc.c\<close>): the free and used lists, marking with a grey
  list, weak tables, sweeping, protected roots and the switches that hold a
  collection back. There is one generation, as no code starts another.

  The objects are a list and a pointer is an index into it; \<^verbatim>\<open>next\<close> and the grey link
  of an object make the lists of the model. An object is known by its type and
  the values in it. Of the statistics those that steer the collector are kept.
\<close>

section \<open>Objects\<close>

text \<open>
  The types whose contents the collector looks at, with all their values, also
  those it does not follow: the name of a closure and the function of a frame. \<open>None\<close> in an
  array is \<^verbatim>\<open>NULL\<close>; the flag of a hash table tells that its keys are C strings, the number is
  its count of entries.
\<close>

datatype (plugins only: code size) gobj =
    G_none
  | G_string | G_symbol | G_keyword | G_bignum | G_bitset | G_C_type
  | G_C_pointer idio_value
  | G_substring idio_value
  | G_pair idio_value idio_value
  | G_array idio_value "idio_value option list"
  | G_hash bool int "(idio_value \<times> idio_value) list list" idio_value idio_value
  | G_closure idio_value idio_value idio_value
  | G_primitive
  | G_module idio_value idio_value idio_value idio_value idio_value
  | G_frame idio_value idio_value "idio_value list" idio_value
  | G_handle idio_value idio_value
  | G_struct_type idio_value idio_value "idio_value list"
  | G_struct_instance idio_value "idio_value list"
  | G_thread "idio_value list"
  | G_continuation "idio_value list"

datatype colour = BLACK | DGREY | LGREY | WHITE

record cell =
  c_obj :: gobj
  c_colour :: colour
  c_free :: bool
  c_sticky :: bool
  c_finalizer :: bool

text \<open>
  \<^verbatim>\<open>idio_gc_t\<close>: \<open>gc_finalizer_hash\<close> is the table of finalizers, or \<^verbatim>\<open>#n\<close>; the finalizers are
  C functions, of which the objects they were called for are recorded.
\<close>

record gc =
  gc_heap :: "cell list"
  gc_used :: "nat list"
  gc_free :: "nat list"
  gc_grey :: "nat list"
  gc_weak :: "nat list"
  gc_roots :: "idio_value list"
  gc_autos :: "idio_value list"
  gc_pause :: int
  gc_request :: bool
  gc_nfree :: nat
  gc_igets :: nat
  gc_finalizer_hash :: idio_value
  gc_finalized :: "nat list"

definition idio_gc_obj_new :: gc where
  "idio_gc_obj_new = \<lparr>gc_heap = [], gc_used = [], gc_free = [], gc_grey = [], gc_weak = [], gc_roots = [], gc_autos = [],
     gc_pause = 0, gc_request = False, gc_nfree = 0, gc_igets = 0, gc_finalizer_hash = idio_S_nil, gc_finalized = []\<rparr>"

text \<open>A pointer outside the objects is never followed in the runs of the theorems.\<close>

definition cell_at :: "gc \<Rightarrow> nat \<Rightarrow> cell" where
  "cell_at g a = (if a < length (gc_heap g) then gc_heap g ! a
     else \<lparr>c_obj = G_none, c_colour = WHITE, c_free = True, c_sticky = False, c_finalizer = False\<rparr>)"

definition set_cell :: "nat \<Rightarrow> (cell \<Rightarrow> cell) \<Rightarrow> gc \<Rightarrow> gc" where
  "set_cell a f g = g\<lparr>gc_heap := (gc_heap g)[a := f (cell_at g a)]\<rparr>"

definition set_colour :: "nat \<Rightarrow> colour \<Rightarrow> gc \<Rightarrow> gc" where
  "set_colour a col = set_cell a (c_colour_update (\<lambda>_. col))"

section \<open>Allocation\<close>

definition IDIO_GC_ALLOC_POOL :: nat where "IDIO_GC_ALLOC_POOL = 1000"
definition IDIO_GC_ALLOC_MANY :: nat where "IDIO_GC_ALLOC_MANY = 500000"

text \<open>The pool is linked from the last object to the first.\<close>

definition blank_cell :: cell where
  "blank_cell = \<lparr>c_obj = G_none, c_colour = WHITE, c_free = True, c_sticky = False, c_finalizer = False\<rparr>"

definition idio_gc_get_alloc :: "gc \<Rightarrow> nat \<times> gc" where
  "idio_gc_get_alloc g =
    (let n = length (gc_heap g);
         pool = rev [n..<n + IDIO_GC_ALLOC_POOL] @ gc_free g
     in (hd pool, g\<lparr>gc_request := True, gc_heap := gc_heap g @ replicate IDIO_GC_ALLOC_POOL blank_cell,
           gc_free := tl pool, gc_nfree := gc_nfree g + IDIO_GC_ALLOC_POOL - 1\<rparr>))"

definition idio_gc_get :: "gobj \<Rightarrow> gc \<Rightarrow> nat \<times> gc" where
  "idio_gc_get ob g =
    (let (a, g) =
       (case gc_free g of
          [] \<Rightarrow> idio_gc_get_alloc g
        | a # free \<Rightarrow> (a, g\<lparr>gc_nfree := gc_nfree g - 1, gc_free := free\<rparr>));
       g = (if IDIO_GC_ALLOC_MANY < gc_igets g then g\<lparr>gc_request := True\<rparr> else g);
       g = g\<lparr>gc_igets := gc_igets g + 1\<rparr>;
       g = set_cell a (\<lambda>_. \<lparr>c_obj = ob, c_colour = WHITE, c_free = False, c_sticky = False, c_finalizer = False\<rparr>) g
     in (a, g\<lparr>gc_used := a # gc_used g\<rparr>))"

section \<open>Marking\<close>

text \<open>
  \<^verbatim>\<open>idio_gc_gcc_mark\<close>, that is called with two of the colours. White is only set. Black is
  set at once on objects that hold no others; the others go to the grey list.
\<close>

definition compound :: "gobj \<Rightarrow> bool" where
  "compound ob =
    (case ob of
       G_pair _ _ \<Rightarrow> True | G_array _ _ \<Rightarrow> True | G_hash _ _ _ _ _ \<Rightarrow> True | G_closure _ _ _ \<Rightarrow> True
     | G_primitive \<Rightarrow> True | G_module _ _ _ _ _ \<Rightarrow> True | G_frame _ _ _ _ \<Rightarrow> True | G_handle _ _ \<Rightarrow> True
     | G_struct_type _ _ _ \<Rightarrow> True | G_struct_instance _ _ \<Rightarrow> True | G_thread _ \<Rightarrow> True | G_continuation _ \<Rightarrow> True
     | _ \<Rightarrow> False)"

definition mark_white :: "gc \<Rightarrow> idio_value \<Rightarrow> gc" where
  "mark_white g v =
    (case v of
       V_pointer a \<Rightarrow> if c_obj (cell_at g a) = G_none then g else set_colour a WHITE g
     | _ \<Rightarrow> g)"

definition marked :: "gc \<Rightarrow> nat \<Rightarrow> bool" where
  "marked g a \<longleftrightarrow> c_colour (cell_at g a) = BLACK \<or> c_colour (cell_at g a) = LGREY"

definition unmarked :: "gc \<Rightarrow> nat set" where
  "unmarked g = {a. a < length (gc_heap g) \<and> \<not> marked g a}"

lemma cell_at_set_cell [simp]:
  "cell_at (set_cell a f g) b = (if b = a \<and> a < length (gc_heap g) then f (cell_at g a) else cell_at g b)"
  by (simp add: cell_at_def set_cell_def)

lemma set_cell_simps [simp]:
  "length (gc_heap (set_cell a f g)) = length (gc_heap g)"
  "gc_used (set_cell a f g) = gc_used g" "gc_free (set_cell a f g) = gc_free g"
  "gc_grey (set_cell a f g) = gc_grey g" "gc_weak (set_cell a f g) = gc_weak g"
  "gc_roots (set_cell a f g) = gc_roots g" "gc_autos (set_cell a f g) = gc_autos g"
  "gc_pause (set_cell a f g) = gc_pause g" "gc_request (set_cell a f g) = gc_request g"
  "gc_nfree (set_cell a f g) = gc_nfree g" "gc_igets (set_cell a f g) = gc_igets g"
  "gc_finalizer_hash (set_cell a f g) = gc_finalizer_hash g" "gc_finalized (set_cell a f g) = gc_finalized g"
  by (simp_all add: set_cell_def)

lemma cell_at_upd [simp]:
  "cell_at (gc_used_update f1 g) a = cell_at g a" "cell_at (gc_free_update f1 g) a = cell_at g a"
  "cell_at (gc_grey_update f1 g) a = cell_at g a" "cell_at (gc_weak_update f1 g) a = cell_at g a"
  "cell_at (gc_roots_update f2 g) a = cell_at g a" "cell_at (gc_autos_update f2 g) a = cell_at g a"
  "cell_at (gc_pause_update f3 g) a = cell_at g a" "cell_at (gc_request_update f4 g) a = cell_at g a"
  "cell_at (gc_nfree_update f5 g) a = cell_at g a" "cell_at (gc_igets_update f5 g) a = cell_at g a"
  "cell_at (gc_finalizer_hash_update f6 g) a = cell_at g a" "cell_at (gc_finalized_update f1 g) a = cell_at g a"
  by (simp_all add: cell_at_def)

lemma unmarked_less:
  assumes "a < length (gc_heap g)" "\<not> marked g a" "col = BLACK \<or> col = LGREY"
  shows "card (unmarked (set_colour a col g)) < card (unmarked g)"
  unfolding unmarked_def set_colour_def using assms
  by (intro psubset_card_mono) (auto simp: marked_def split: if_splits)

lemma cell_bound: "c_obj (cell_at g a) \<noteq> G_none \<Longrightarrow> a < length (gc_heap g)"
  by (simp add: cell_at_def split: if_splits)

function mark_black :: "gc \<Rightarrow> idio_value \<Rightarrow> gc" where
  "mark_black g v =
    (case v of
       V_pointer a \<Rightarrow>
         if c_obj (cell_at g a) = G_none then g
         else if marked g a then g
         else (case c_obj (cell_at g a) of
             G_substring parent \<Rightarrow> mark_black (set_colour a BLACK g) parent
           | ob \<Rightarrow> if compound ob then (set_colour a LGREY g)\<lparr>gc_grey := a # gc_grey g\<rparr>
               else set_colour a BLACK g)
     | _ \<Rightarrow> g)"
  by pat_completeness auto
termination
  by (relation "measure (\<lambda>(g, v). card (unmarked g))") (auto intro!: unmarked_less intro: cell_bound)

declare mark_black.simps [simp del]

text \<open>
  What \<^verbatim>\<open>idio_gc_process_grey\<close> marks for an object, in its order. It takes the object
  off the grey list first. \<open>G_C_pointer\<close> has a branch there, though no such object is ever grey.
\<close>

definition followed :: "gobj \<Rightarrow> idio_value list option" where
  "followed ob =
    (case ob of
       G_pair h t \<Rightarrow> Some [h, t]
     | G_array dv ae \<Rightarrow> Some (dv # concat (map (\<lambda>e. case e of None \<Rightarrow> [] | Some v \<Rightarrow> [v]) ae))
     | G_hash string_keys count ha cmp hash \<Rightarrow>
         Some (concat (map (\<lambda>(k, v). (if string_keys \<or> k = idio_S_nil then [] else [k]) @ (if v = idio_S_nil then [] else [v]))
           (concat ha)) @ [cmp, hash])
     | G_closure name frame env \<Rightarrow> Some [frame, env]
     | G_primitive \<Rightarrow> Some []
     | G_module name exports imports symbols identity \<Rightarrow> Some [name, exports, imports, symbols, identity]
     | G_frame next names args func \<Rightarrow> Some (next # names # args)
     | G_handle filename pathname \<Rightarrow> Some [filename, pathname]
     | G_struct_type name parent fs \<Rightarrow> Some (name # parent # fs)
     | G_struct_instance typ fs \<Rightarrow> Some (typ # fs)
     | G_thread vs \<Rightarrow> Some vs
     | G_continuation vs \<Rightarrow> Some vs
     | G_C_pointer ptype \<Rightarrow> Some [ptype]
     | _ \<Rightarrow> None)"

definition idio_gc_process_grey :: "gc \<Rightarrow> gc result" where
  "idio_gc_process_grey g =
    (case gc_grey g of
       [] \<Rightarrow> Inr g
     | a # grey \<Rightarrow>
        let ob = c_obj (cell_at g a); g = set_colour a BLACK g
        in case followed ob of
             None \<Rightarrow> Inl (Coding_error ''unexpected type'')
           | Some vs \<Rightarrow> Inr (fold (\<lambda>v g. mark_black g v) vs (if compound ob then g\<lparr>gc_grey := grey\<rparr> else g)))"

text \<open>
  The loop \<^verbatim>\<open>while (NULL != gc->grey)\<close>. Every turn takes a compound object off the list,
  and only unmarked objects are put on it, so twice the number of objects and the length
  of the list are enough turns.
\<close>

fun grey_loop :: "nat \<Rightarrow> gc \<Rightarrow> gc result" where
  "grey_loop 0 g = (if gc_grey g = [] then Inr g else Inl Diverges)"
| "grey_loop (Suc fuel) g = (if gc_grey g = [] then Inr g else bind_result (idio_gc_process_grey g) (grey_loop fuel))"

definition process_all_grey :: "gc \<Rightarrow> gc result" where
  "process_all_grey g = grey_loop (2 * length (gc_heap g) + length (gc_grey g)) g"

section \<open>Weak tables\<close>

text \<open>
  The value of a weak table's entry is marked if its key is black. The count is that of
  the variable \<^verbatim>\<open>modified\<close>.
\<close>

definition weak_entries :: "gc \<Rightarrow> nat \<Rightarrow> (idio_value \<times> idio_value) list list option" where
  "weak_entries g a = (case c_obj (cell_at g a) of G_hash _ _ ha _ _ \<Rightarrow> Some ha | _ \<Rightarrow> None)"

definition is_black :: "gc \<Rightarrow> nat \<Rightarrow> bool" where
  "is_black g a \<longleftrightarrow> c_colour (cell_at g a) = BLACK"

fun mark_entry_value :: "idio_value \<times> idio_value \<Rightarrow> gc \<times> nat \<Rightarrow> gc \<times> nat" where
  "mark_entry_value (V_pointer k, v) (g, modified) =
    (if is_black g k then (mark_black g v, modified + 1) else (g, modified))"
| "mark_entry_value _ (g, modified) = (g, modified)"

fun mark_table_values :: "nat list \<Rightarrow> gc \<times> nat \<Rightarrow> (gc \<times> nat) result" where
  "mark_table_values [] gm = Inr gm"
| "mark_table_values (o' # os) gm =
    (case weak_entries (fst gm) o' of
       None \<Rightarrow> Inl (Coding_error ''unexpected weak object type'')
     | Some ha \<Rightarrow> mark_table_values os (fold mark_entry_value (concat ha) gm))"

text \<open>
  The first pass. The variable that runs along the weak list is set before the loop
  \<^verbatim>\<open>while (modified)\<close> and not in it: the second turn of that loop finds it at the end of
  the list, marks nothing and is the last.
\<close>

definition weak_pass1 :: "gc \<Rightarrow> gc result" where
  "weak_pass1 g =
    bind_result (mark_table_values (gc_weak g) (g, 0)) (\<lambda>(g, modified).
    bind_result (process_all_grey g) (\<lambda>g.
      if modified = 0 then Inr g
      else bind_result (mark_table_values [] (g, 0)) (\<lambda>(g, modified). process_all_grey g)))"

text \<open>
  \<^verbatim>\<open>idio_gc_finalizer_run\<close>, with the table of finalizers searched for the object. The
  flag of the object is cleared afterwards.
\<close>

definition finalizer_entries :: "gc \<Rightarrow> (idio_value \<times> idio_value) list" where
  "finalizer_entries g =
    (case gc_finalizer_hash g of
       V_pointer f \<Rightarrow> (case weak_entries g f of None \<Rightarrow> [] | Some ha \<Rightarrow> concat ha)
     | _ \<Rightarrow> [])"

definition idio_gc_deregister_finalizer :: "nat \<Rightarrow> gc \<Rightarrow> gc" where
  "idio_gc_deregister_finalizer a g =
    (if c_finalizer (cell_at g a) then set_cell a (c_finalizer_update (\<lambda>_. False)) g else g)"

definition idio_gc_finalizer_run :: "nat \<Rightarrow> gc \<Rightarrow> gc result" where
  "idio_gc_finalizer_run a g =
    (if gc_finalizer_hash g = idio_S_nil then Inr g
     else if V_pointer a \<in> fst ` set (finalizer_entries g)
     then Inr (idio_gc_deregister_finalizer a (g\<lparr>gc_finalized := gc_finalized g @ [a]\<rparr>))
     else Inl (Process_exit 4))"

text \<open>
  The second pass, for one entry of a chain: it stays with its value marked if the key
  is black or no object, else it is dropped and the finalizer of the key is run.
\<close>

fun keep_entry :: "idio_value \<times> idio_value \<Rightarrow> gc \<Rightarrow> (bool \<times> gc) result" where
  "keep_entry (V_pointer k, v) g =
    (if is_black g k then Inr (True, mark_black g v)
     else if c_finalizer (cell_at g k) then map_result (Pair False) (idio_gc_finalizer_run k g)
     else Inr (False, g))"
| "keep_entry _ g = Inr (True, g)"

text \<open>
  The chain's link that leads to the entry is changed at once, before the next entry is looked
  at, and the table's count goes down by one.
\<close>

definition set_entries :: "nat \<Rightarrow> (idio_value \<times> idio_value) list list \<Rightarrow> gc \<Rightarrow> gc" where
  "set_entries a ha =
    set_cell a (\<lambda>c. case c_obj c of G_hash sk n _ cmp hash \<Rightarrow> c\<lparr>c_obj := G_hash sk (n - 1) ha cmp hash\<rparr> | _ \<Rightarrow> c)"

fun purge_chain :: "nat \<Rightarrow> nat \<Rightarrow> (idio_value \<times> idio_value) list \<Rightarrow> (idio_value \<times> idio_value) list \<Rightarrow> gc \<Rightarrow> gc result" where
  "purge_chain a i kept [] g = Inr g"
| "purge_chain a i kept (e # es) g =
    bind_result (keep_entry e g) (\<lambda>(keep, g).
      if keep then purge_chain a i (kept @ [e]) es g
      else case weak_entries g a of
          None \<Rightarrow> Inl Segmentation_fault
        | Some ha \<Rightarrow> purge_chain a i kept es (set_entries a (ha[i := kept @ es]) g))"

fun purge_chains :: "nat \<Rightarrow> nat \<Rightarrow> (idio_value \<times> idio_value) list list \<Rightarrow> gc \<Rightarrow> gc result" where
  "purge_chains a i [] g = Inr g"
| "purge_chains a i (es # ess) g = bind_result (purge_chain a i [] es g) (purge_chains a (i + 1) ess)"

fun purge_tables :: "nat list \<Rightarrow> gc \<Rightarrow> gc result" where
  "purge_tables [] g = Inr g"
| "purge_tables (o' # os) g =
    (case weak_entries g o' of
       None \<Rightarrow> Inl (Coding_error ''unexpected weak object type'')
     | Some ha \<Rightarrow> bind_result (purge_chains o' 0 ha g) (purge_tables os))"

definition idio_gc_mark_weak :: "gc \<Rightarrow> gc result" where
  "idio_gc_mark_weak g =
    bind_result (weak_pass1 g) (\<lambda>g. bind_result (purge_tables (gc_weak g) g) process_all_grey)"

definition idio_gc_mark :: "gc \<Rightarrow> gc result" where
  "idio_gc_mark g =
    (let g = fold (\<lambda>a g. mark_white g (V_pointer a)) (gc_used g) g;
         g = g\<lparr>gc_grey := []\<rparr>;
         g = fold (\<lambda>v g. mark_black g v) (gc_roots g) g;
         g = fold (\<lambda>v g. mark_black g v) (gc_autos g) g
     in bind_result (process_all_grey g) idio_gc_mark_weak)"

section \<open>Sweeping\<close>

text \<open>
  Free objects above the limit go back to the C allocator. \<^verbatim>\<open>idio_gc_sweep_free_value\<close> runs the
  object's finalizer and frees what C memory it has. For a closure or a primitive it also
  calls \<^verbatim>\<open>idio_delete_properties\<close>, which deletes the entry of the object from the table of
  properties: that table is weak (\<^verbatim>\<open>symbol.c\<close>), so the second pass over the weak tables has dropped
  the entry of an object that is swept already, and the call, which finds none, is left out.
\<close>

fun trim_free :: "nat \<Rightarrow> gc \<Rightarrow> gc" where
  "trim_free 0 g = g"
| "trim_free (Suc n) g =
    (if IDIO_GC_ALLOC_MANY < gc_nfree g
     then trim_free n (g\<lparr>gc_free := tl (gc_free g), gc_nfree := gc_nfree g - 1\<rparr>)
     else g)"

definition idio_gc_sweep_free_value :: "nat \<Rightarrow> gc \<Rightarrow> gc result" where
  "idio_gc_sweep_free_value a g =
    bind_result (if c_finalizer (cell_at g a) then idio_gc_finalizer_run a g else Inr g) (\<lambda>g.
      if c_obj (cell_at g a) = G_none
      then Inl (Coding_error ''idio_gc_sweep_free_value cannot process an IDIO_TYPE_NONE'')
      else Inr g)"

text \<open>The used list, in two parts: the objects kept so far and those not looked at.\<close>

fun sweep_loop :: "nat list \<Rightarrow> nat list \<Rightarrow> gc \<Rightarrow> gc result" where
  "sweep_loop kept [] g = Inr g"
| "sweep_loop kept (co # used) g =
    (let c = cell_at g co in
     if \<not> c_sticky c \<and> c_colour c = WHITE
     then bind_result (idio_gc_sweep_free_value co (g\<lparr>gc_used := kept @ used\<rparr>)) (\<lambda>g.
       let g = set_cell co (\<lambda>c. c\<lparr>c_obj := G_none, c_free := True\<rparr>) g
       in sweep_loop kept used (g\<lparr>gc_free := co # gc_free g, gc_nfree := gc_nfree g + 1\<rparr>))
     else sweep_loop (kept @ [co]) used g)"

definition idio_gc_sweep :: "gc \<Rightarrow> gc result" where
  "idio_gc_sweep g = (let g = trim_free (gc_nfree g) g in sweep_loop [] (gc_used g) g)"

section \<open>Collections\<close>

definition idio_gc_collect :: "gc \<Rightarrow> gc result" where
  "idio_gc_collect g =
    (if gc_pause g \<noteq> 0 then Inr g
     else bind_result (idio_gc_mark (g\<lparr>gc_request := False\<rparr>)) (\<lambda>g.
       map_result (\<lambda>g. g\<lparr>gc_igets := 0\<rparr>) (idio_gc_sweep g)))"

definition idio_gc_possibly_collect :: "gc \<Rightarrow> gc result" where
  "idio_gc_possibly_collect g = (if gc_pause g = 0 \<and> gc_request g then idio_gc_collect g else Inr g)"

definition idio_gc_get_pause :: "gc \<Rightarrow> int" where "idio_gc_get_pause g = gc_pause g"
definition idio_gc_pause :: "gc \<Rightarrow> gc" where "idio_gc_pause g = g\<lparr>gc_pause := gc_pause g + 1\<rparr>"
definition idio_gc_resume :: "gc \<Rightarrow> gc" where
  "idio_gc_resume g = (let p = gc_pause g - 1 in g\<lparr>gc_pause := (if p < 0 then 0 else p)\<rparr>)"
definition idio_gc_reset :: "int \<Rightarrow> gc \<Rightarrow> gc" where "idio_gc_reset pause g = g\<lparr>gc_pause := pause\<rparr>"

section \<open>Roots, weak tables and finalizers\<close>

text \<open>A protected object takes the place of an empty root before a new root is made, at the front.\<close>

fun protect_in :: "idio_value \<Rightarrow> idio_value list \<Rightarrow> idio_value list option" where
  "protect_in v [] = None"
| "protect_in v (r # rs) =
    (if v = r then Some (r # rs)
     else if r = idio_S_nil then Some (v # rs)
     else map_option (Cons r) (protect_in v rs))"

definition is_pointer :: "idio_value \<Rightarrow> bool" where
  "is_pointer v = (case v of V_pointer _ \<Rightarrow> True | _ \<Rightarrow> False)"

definition idio_gc_protect :: "idio_value \<Rightarrow> gc \<Rightarrow> gc" where
  "idio_gc_protect v g =
    (if \<not> is_pointer v then g
     else g\<lparr>gc_roots := (case protect_in v (gc_roots g) of None \<Rightarrow> v # gc_roots g | Some rs \<Rightarrow> rs)\<rparr>)"

definition idio_gc_protect_auto :: "idio_value \<Rightarrow> gc \<Rightarrow> gc" where
  "idio_gc_protect_auto v g =
    (if \<not> is_pointer v then g
     else g\<lparr>gc_autos := (case protect_in v (gc_autos g) of None \<Rightarrow> v # gc_autos g | Some rs \<Rightarrow> rs)\<rparr>)"

text \<open>An object that is not protected is only reported on the error stream.\<close>

definition idio_gc_expose :: "idio_value \<Rightarrow> gc \<Rightarrow> gc" where
  "idio_gc_expose v g = (if \<not> is_pointer v then g else g\<lparr>gc_roots := remove1 v (gc_roots g)\<rparr>)"

definition idio_gc_expose_roots :: "gc \<Rightarrow> gc" where "idio_gc_expose_roots g = g\<lparr>gc_roots := []\<rparr>"
definition idio_gc_expose_autos :: "gc \<Rightarrow> gc" where "idio_gc_expose_autos g = g\<lparr>gc_autos := []\<rparr>"

text \<open>\<^verbatim>\<open>abort\<close> ends the process.\<close>

definition idio_gc_add_weak_object :: "nat \<Rightarrow> gc \<Rightarrow> gc result" where
  "idio_gc_add_weak_object a g =
    (if a \<in> set (gc_used g) then Inr (g\<lparr>gc_used := remove1 a (gc_used g), gc_weak := a # gc_weak g\<rparr>)
     else Inl (Process_exit 134))"

definition idio_gc_remove_weak_object :: "nat \<Rightarrow> gc \<Rightarrow> gc result" where
  "idio_gc_remove_weak_object a g =
    (if a \<in> set (gc_weak g) then Inr (g\<lparr>gc_weak := remove1 a (gc_weak g), gc_used := a # gc_used g\<rparr>)
     else Inl (Process_exit 134))"


end
