(* ===== verification/Gc_Props.thy ===== *)
theory Gc_Props
  imports Idio_Gc
begin

text \<open>
  What the garbage collector keeps and frees: the invariant of the three colours, the
  end of the grey loop and the sweep.
\<close>

section \<open>Marking one value\<close>

definition live :: "gc \<Rightarrow> nat \<Rightarrow> bool" where
  "live g a \<longleftrightarrow> c_obj (cell_at g a) \<noteq> G_none"

text \<open>The values of an object the collector goes to.\<close>

definition held :: "gobj \<Rightarrow> idio_value list" where
  "held ob = (case ob of G_substring p \<Rightarrow> [p] | _ \<Rightarrow> if compound ob then the (followed ob) else [])"

lemma held_compound: "compound ob \<Longrightarrow> followed ob = Some (held ob)"
  by (cases ob) (simp_all add: compound_def held_def followed_def)

lemma held_leaf: "\<not> compound ob \<Longrightarrow> (\<And>p. ob \<noteq> G_substring p) \<Longrightarrow> held ob = []"
  by (cases ob) (auto simp: compound_def held_def)

lemma live_bound: "live g a \<Longrightarrow> a < length (gc_heap g)"
  unfolding live_def by (rule cell_bound)

definition to_mark :: "gc \<Rightarrow> idio_value \<Rightarrow> nat \<Rightarrow> bool" where
  "to_mark g v a \<longleftrightarrow> v = V_pointer a \<and> live g a \<and> \<not> marked g a"

lemma mark_black_skip: "(\<And>a. \<not> to_mark g v a) \<Longrightarrow> mark_black g v = g"
proof (cases v)
  case (V_pointer a)
  assume "\<And>a. \<not> to_mark g v a"
  then have "c_obj (cell_at g a) = G_none \<or> marked g a" using V_pointer by (auto simp: to_mark_def live_def)
  then show ?thesis by (elim disjE; subst mark_black.simps; simp add: V_pointer)
qed (subst mark_black.simps, simp)+

lemma mark_black_substring:
  "to_mark g v a \<Longrightarrow> c_obj (cell_at g a) = G_substring p \<Longrightarrow> mark_black g v = mark_black (set_colour a BLACK g) p"
  by (subst mark_black.simps) (simp add: to_mark_def live_def)

lemma mark_black_compound:
  "to_mark g v a \<Longrightarrow> compound (c_obj (cell_at g a)) \<Longrightarrow>
    mark_black g v = (set_colour a LGREY g)\<lparr>gc_grey := a # gc_grey g\<rparr>"
  by (subst mark_black.simps) (simp add: to_mark_def live_def compound_def split: gobj.splits)

lemma mark_black_leaf:
  "to_mark g v a \<Longrightarrow> held (c_obj (cell_at g a)) = [] \<Longrightarrow> \<not> compound (c_obj (cell_at g a)) \<Longrightarrow>
    mark_black g v = set_colour a BLACK g"
  by (subst mark_black.simps) (simp add: to_mark_def live_def compound_def held_def split: gobj.splits)

lemma mark_black_induct [case_names skip substring compound leaf]:
  assumes "\<And>g v. (\<And>a. \<not> to_mark g v a) \<Longrightarrow> P g v g"
    and "\<And>g v a p g'. to_mark g v a \<Longrightarrow> c_obj (cell_at g a) = G_substring p \<Longrightarrow> P (set_colour a BLACK g) p g' \<Longrightarrow> P g v g'"
    and "\<And>g v a. to_mark g v a \<Longrightarrow> compound (c_obj (cell_at g a)) \<Longrightarrow>
      P g v ((set_colour a LGREY g)\<lparr>gc_grey := a # gc_grey g\<rparr>)"
    and "\<And>g v a. to_mark g v a \<Longrightarrow> held (c_obj (cell_at g a)) = [] \<Longrightarrow> \<not> compound (c_obj (cell_at g a)) \<Longrightarrow>
      P g v (set_colour a BLACK g)"
  shows "P g v (mark_black g v)"
proof (induction "card (unmarked g)" arbitrary: g v rule: less_induct)
  case less
  show ?case
  proof (cases "\<exists>a. to_mark g v a")
    case True
    then obtain a where a: "to_mark g v a" by blast
    show ?thesis
    proof (cases "\<exists>p. c_obj (cell_at g a) = G_substring p")
      case True
      then obtain p where p: "c_obj (cell_at g a) = G_substring p" by blast
      have "card (unmarked (set_colour a BLACK g)) < card (unmarked g)"
        using a by (intro unmarked_less live_bound) (simp_all add: to_mark_def)
      then show ?thesis unfolding mark_black_substring [OF a p] by (intro assms(2) [OF a p] less)
    next
      case False
      then show ?thesis using assms(3,4) [OF a] mark_black_compound [OF a] mark_black_leaf [OF a]
          held_leaf [of "c_obj (cell_at g a)"] by (cases "compound (c_obj (cell_at g a))") auto
    qed
  next
    case False
    then show ?thesis using assms(1) mark_black_skip by metis
  qed
qed

text \<open>Marking changes the colours and the grey list.\<close>

definition uncoloured :: "gc \<Rightarrow> gc" where
  "uncoloured g = g\<lparr>gc_heap := map (c_colour_update (\<lambda>_. WHITE)) (gc_heap g), gc_grey := []\<rparr>"

lemma uncoloured_set_colour [simp]: "uncoloured (set_colour a col g) = uncoloured g"
proof (cases "a < length (gc_heap g)")
  case True
  let ?w = "c_colour_update (\<lambda>_. WHITE)"
  have "map ?w ((gc_heap g)[a := c_colour_update (\<lambda>_. col) (gc_heap g ! a)]) = (map ?w (gc_heap g))[a := ?w (gc_heap g ! a)]"
    by (simp add: map_update)
  also have "\<dots> = map ?w (gc_heap g)" using list_update_id [of "map ?w (gc_heap g)" a] True by simp
  finally show ?thesis using True by (simp add: uncoloured_def set_colour_def set_cell_def cell_at_def)
next
  case False
  then have "(gc_heap g)[a := x] = gc_heap g" for x by (simp add: list_update_beyond)
  then show ?thesis by (simp add: uncoloured_def set_colour_def set_cell_def)
qed

lemma uncoloured_grey [simp]: "uncoloured (gc_grey_update f g) = uncoloured g"
  by (simp add: uncoloured_def)

lemma uncoloured_mark [simp]: "uncoloured (mark_black g v) = uncoloured g"
  by (rule mark_black_induct [where P = "\<lambda>g v g'. uncoloured g' = uncoloured g"]) simp_all

lemma uncoloured_fold [simp]: "uncoloured (fold (\<lambda>v g. mark_black g v) vs g) = uncoloured g"
  by (induction vs arbitrary: g) simp_all

lemma same_obj:
  assumes "uncoloured g' = uncoloured g"
  shows "c_obj (cell_at g' a) = c_obj (cell_at g a)" "length (gc_heap g') = length (gc_heap g)" "live g' a = live g a"
    "gc_used g' = gc_used g" "gc_weak g' = gc_weak g" "gc_free g' = gc_free g" "gc_roots g' = gc_roots g"
    "gc_autos g' = gc_autos g" "gc_finalizer_hash g' = gc_finalizer_hash g"
    "c_sticky (cell_at g' a) = c_sticky (cell_at g a)" "c_finalizer (cell_at g' a) = c_finalizer (cell_at g a)"
proof -
  have m: "map (c_colour_update (\<lambda>_. WHITE)) (gc_heap g') = map (c_colour_update (\<lambda>_. WHITE)) (gc_heap g)"
    using arg_cong [OF assms, of gc_heap] by (simp add: uncoloured_def)
  then show l: "length (gc_heap g') = length (gc_heap g)" using map_eq_imp_length_eq by blast
  have "c_colour_update (\<lambda>_. WHITE) (gc_heap g' ! a) = c_colour_update (\<lambda>_. WHITE) (gc_heap g ! a)" if "a < length (gc_heap g)"
    using arg_cong [OF m, of "\<lambda>xs. xs ! a"] that l by simp
  then have c: "c_obj (gc_heap g' ! a) = c_obj (gc_heap g ! a)" "c_sticky (gc_heap g' ! a) = c_sticky (gc_heap g ! a)"
    "c_finalizer (gc_heap g' ! a) = c_finalizer (gc_heap g ! a)" if "a < length (gc_heap g)"
    using that by (metis cell.select_convs cell.surjective cell.update_convs(2))+
  then show "c_obj (cell_at g' a) = c_obj (cell_at g a)" "c_sticky (cell_at g' a) = c_sticky (cell_at g a)"
    "c_finalizer (cell_at g' a) = c_finalizer (cell_at g a)" using l by (simp_all add: cell_at_def)
  then show "live g' a = live g a" by (simp add: live_def)
  show "gc_used g' = gc_used g" using arg_cong [OF assms, of gc_used] by (simp add: uncoloured_def)
  show "gc_weak g' = gc_weak g" using arg_cong [OF assms, of gc_weak] by (simp add: uncoloured_def)
  show "gc_free g' = gc_free g" using arg_cong [OF assms, of gc_free] by (simp add: uncoloured_def)
  show "gc_roots g' = gc_roots g" using arg_cong [OF assms, of gc_roots] by (simp add: uncoloured_def)
  show "gc_autos g' = gc_autos g" using arg_cong [OF assms, of gc_autos] by (simp add: uncoloured_def)
  show "gc_finalizer_hash g' = gc_finalizer_hash g"
    using arg_cong [OF assms, of gc_finalizer_hash] by (simp add: uncoloured_def)
qed

section \<open>The invariant of the three colours\<close>

text \<open>
  The grey list holds the grey objects, all of them compound; a black object outside of
  \<open>S\<close> holds marked objects only. \<open>S\<close> is for the objects that are being marked and for weak tables.
\<close>

definition is_grey :: "gc \<Rightarrow> nat \<Rightarrow> bool" where
  "is_grey g a \<longleftrightarrow> c_colour (cell_at g a) = LGREY"

lemma marked_iff: "marked g a \<longleftrightarrow> is_black g a \<or> is_grey g a"
  by (simp add: marked_def is_black_def is_grey_def)

definition covered :: "gc \<Rightarrow> idio_value \<Rightarrow> bool" where
  "covered g v \<longleftrightarrow> (\<forall>b. v = V_pointer b \<longrightarrow> live g b \<longrightarrow> marked g b)"

definition tricolour :: "nat set \<Rightarrow> gc \<Rightarrow> bool" where
  "tricolour S g \<longleftrightarrow>
    distinct (gc_grey g) \<and> set (gc_grey g) = {a. is_grey g a} \<and> (\<forall>a. is_grey g a \<longrightarrow> compound (c_obj (cell_at g a))) \<and>
    (\<forall>a. is_black g a \<longrightarrow> a \<notin> S \<longrightarrow> (\<forall>v \<in> set (held (c_obj (cell_at g a))). covered g v))"

definition work :: "gc \<Rightarrow> nat" where "work g = 2 * card (unmarked g) + length (gc_grey g)"

text \<open>What marking does to the state, whatever the value.\<close>

definition advance :: "gc \<Rightarrow> gc \<Rightarrow> bool" where
  "advance g g' \<longleftrightarrow> uncoloured g' = uncoloured g \<and> (\<forall>a. marked g a \<longrightarrow> marked g' a) \<and>
    (\<forall>a. marked g' a \<or> c_colour (cell_at g' a) = c_colour (cell_at g a)) \<and> work g' \<le> work g"

lemma advance_refl [simp]: "advance g g"
  by (simp add: advance_def)

lemma advance_trans [trans]: "advance g1 g2 \<Longrightarrow> advance g2 g3 \<Longrightarrow> advance g1 g3"
  unfolding advance_def by (metis order_trans)

lemma colour_of_set_colour:
  assumes "live g a"
  shows "is_black (set_colour a col g) b \<longleftrightarrow> (if b = a then col = BLACK else is_black g b)"
    "is_grey (set_colour a col g) b \<longleftrightarrow> (if b = a then col = LGREY else is_grey g b)"
    "marked (set_colour a col g) b \<longleftrightarrow> (if b = a then col = BLACK \<or> col = LGREY else marked g b)"
    "c_obj (cell_at (set_colour a col g) b) = c_obj (cell_at g b)" "live (set_colour a col g) b = live g b"
    "c_colour (cell_at (set_colour a col g) b) = (if b = a then col else c_colour (cell_at g b))"
  using live_bound [OF assms] by (simp_all add: is_black_def is_grey_def marked_def live_def set_colour_def)

lemma colour_of_grey [simp]:
  "is_black (gc_grey_update f g) b = is_black g b" "is_grey (gc_grey_update f g) b = is_grey g b"
  "marked (gc_grey_update f g) b = marked g b" "live (gc_grey_update f g) b = live g b"
  "covered (gc_grey_update f g) v = covered g v" "unmarked (gc_grey_update f g) = unmarked g"
  by (simp_all add: is_black_def is_grey_def marked_def live_def covered_def unmarked_def)

lemma grey_of_set_colour [simp]: "gc_grey (set_colour a col g) = gc_grey g"
  by (simp add: set_colour_def)

lemma unmarked_step:
  assumes "to_mark g v a" "col = BLACK \<or> col = LGREY"
  shows "card (unmarked (set_colour a col g)) < card (unmarked g)"
  using assms by (intro unmarked_less live_bound) (simp_all add: to_mark_def)

lemma covered_same:
  assumes "uncoloured g' = uncoloured g" "\<And>b. marked g b \<Longrightarrow> marked g' b" "covered g v"
  shows "covered g' v"
  using assms(3) assms(2) same_obj(3) [OF assms(1)] by (auto simp: covered_def)

lemma covered_advance: "advance g g' \<Longrightarrow> covered g v \<Longrightarrow> covered g' v"
  by (rule covered_same) (auto simp: advance_def)

lemma mark_black_advance: "advance g (mark_black g v)"
proof (rule mark_black_induct [where P = "\<lambda>g v g'. advance g g'"])
  fix g v a p g'
  assume a: "to_mark g v a" and adv: "advance (set_colour a BLACK g) g'"
  have l: "live g a" using a by (simp add: to_mark_def)
  have "advance g (set_colour a BLACK g)"
    using unmarked_step [OF a, of BLACK] by (simp add: advance_def work_def colour_of_set_colour [OF l])
  then show "advance g g'" using adv by (rule advance_trans)
next
  fix g v a
  assume a: "to_mark g v a"
  have l: "live g a" using a by (simp add: to_mark_def)
  show "advance g ((set_colour a LGREY g)\<lparr>gc_grey := a # gc_grey g\<rparr>)"
    using unmarked_step [OF a, of LGREY] by (simp add: advance_def work_def colour_of_set_colour [OF l])
  show "advance g (set_colour a BLACK g)"
    using unmarked_step [OF a, of BLACK] by (simp add: advance_def work_def colour_of_set_colour [OF l])
qed simp

lemma tricolour_blacken:
  assumes t: "tricolour S g" and l: "live g a" and n: "\<not> is_grey g a" and a: "a \<in> S \<or> held (c_obj (cell_at g a)) = []"
  shows "tricolour S (set_colour a BLACK g)"
proof -
  have c: "covered (set_colour a BLACK g) v" if "covered g v" for v
    by (rule covered_same [OF _ _ that]) (simp_all add: colour_of_set_colour [OF l])
  have "set (gc_grey (set_colour a BLACK g)) = {b. is_grey (set_colour a BLACK g) b}"
    using t n by (auto simp: tricolour_def colour_of_set_colour [OF l])
  then show ?thesis using t a c by (auto simp: tricolour_def colour_of_set_colour [OF l] split: if_splits)
qed

lemma tricolour_grey:
  assumes t: "tricolour S g" and l: "live g a" and n: "\<not> marked g a" and a: "compound (c_obj (cell_at g a))"
  shows "tricolour S ((set_colour a LGREY g)\<lparr>gc_grey := a # gc_grey g\<rparr>)"
proof -
  have c: "covered (set_colour a LGREY g) v" if "covered g v" for v
    by (rule covered_same [OF _ _ that]) (simp_all add: colour_of_set_colour [OF l])
  have "a \<notin> set (gc_grey g)" using t n by (simp add: tricolour_def marked_iff)
  then show ?thesis using t a c by (auto simp: tricolour_def colour_of_set_colour [OF l] split: if_splits)
qed

lemma tricolour_insert:
  "tricolour (insert a S) g \<Longrightarrow> (\<And>v. v \<in> set (held (c_obj (cell_at g a))) \<Longrightarrow> covered g v) \<Longrightarrow> tricolour S g"
  by (auto simp: tricolour_def)

lemma tricolour_mono: "tricolour S g \<Longrightarrow> S \<subseteq> T \<Longrightarrow> tricolour T g"
  by (auto simp: tricolour_def)

lemma covered_skip: "(\<And>a. \<not> to_mark g v a) \<Longrightarrow> covered g v"
  by (auto simp: covered_def to_mark_def)

lemma covered_black: "to_mark g v a \<Longrightarrow> col = BLACK \<or> col = LGREY \<Longrightarrow> covered (set_colour a col g) v"
  by (auto simp: covered_def to_mark_def colour_of_set_colour)

lemma mark_black_tricolour:
  "tricolour S g \<Longrightarrow> tricolour S (mark_black g v) \<and> covered (mark_black g v) v"
proof (rule mark_black_induct [where P = "\<lambda>g v g'. \<forall>S. tricolour S g \<longrightarrow> advance g g' \<and> tricolour S g' \<and> covered g' v", THEN spec, THEN mp, THEN conjunct2])
  fix g v a p g'
  assume a: "to_mark g v a" and p: "c_obj (cell_at g a) = G_substring p"
    and IH: "\<forall>S. tricolour S (set_colour a BLACK g) \<longrightarrow> advance (set_colour a BLACK g) g' \<and> tricolour S g' \<and> covered g' p"
  have l: "live g a" and n: "\<not> marked g a" using a by (simp_all add: to_mark_def)
  have u: "advance g (set_colour a BLACK g)"
    using unmarked_step [OF a, of BLACK] by (simp add: advance_def work_def colour_of_set_colour [OF l])
  show "\<forall>S. tricolour S g \<longrightarrow> advance g g' \<and> tricolour S g' \<and> covered g' v"
  proof (intro allI impI)
    fix S
    assume "tricolour S g"
    then have "tricolour (insert a S) g" by (rule tricolour_mono) auto
    then have "tricolour (insert a S) (set_colour a BLACK g)"
      using n by (intro tricolour_blacken l) (simp_all add: marked_iff)
    with IH have g': "advance (set_colour a BLACK g) g'" "tricolour (insert a S) g'" "covered g' p" by auto
    have ob: "c_obj (cell_at g' a) = G_substring p"
      using same_obj(1) [of g' "set_colour a BLACK g"] g'(1) p by (simp add: advance_def colour_of_set_colour [OF l])
    have "tricolour S g'" using g'(2,3) ob by (intro tricolour_insert [OF g'(2)]) (simp add: held_def)
    moreover have "covered g' v" using covered_advance [OF g'(1) covered_black [OF a]] by simp
    ultimately show "advance g g' \<and> tricolour S g' \<and> covered g' v" using advance_trans [OF u g'(1)] by simp
  qed
next
  fix g v a
  assume a: "to_mark g v a"
  have l: "live g a" and n: "\<not> marked g a" using a by (simp_all add: to_mark_def)
  have adv: "advance g (set_colour a BLACK g)" "advance g ((set_colour a LGREY g)\<lparr>gc_grey := a # gc_grey g\<rparr>)"
    using unmarked_step [OF a, of BLACK] unmarked_step [OF a, of LGREY] by (simp_all add: advance_def work_def colour_of_set_colour [OF l])
  { assume "compound (c_obj (cell_at g a))"
    then show "\<forall>S. tricolour S g \<longrightarrow> advance g ((set_colour a LGREY g)\<lparr>gc_grey := a # gc_grey g\<rparr>) \<and>
        tricolour S ((set_colour a LGREY g)\<lparr>gc_grey := a # gc_grey g\<rparr>) \<and> covered ((set_colour a LGREY g)\<lparr>gc_grey := a # gc_grey g\<rparr>) v"
      using adv(2) tricolour_grey [OF _ l n] covered_black [OF a, of LGREY] by simp }
  { assume "held (c_obj (cell_at g a)) = []"
    then show "\<forall>S. tricolour S g \<longrightarrow> advance g (set_colour a BLACK g) \<and> tricolour S (set_colour a BLACK g) \<and> covered (set_colour a BLACK g) v"
      using adv(1) tricolour_blacken [OF _ l] n covered_black [OF a, of BLACK] by (simp add: marked_iff) }
qed (simp add: covered_skip)

section \<open>The grey loop\<close>

definition mark_list :: "idio_value list \<Rightarrow> gc \<Rightarrow> gc" where
  "mark_list vs g = fold (\<lambda>v g. mark_black g v) vs g"

lemma mark_list_simps [simp]: "mark_list [] g = g" "mark_list (v # vs) g = mark_list vs (mark_black g v)"
  by (simp_all add: mark_list_def)

lemma mark_list_advance: "advance g (mark_list vs g)"
  by (induction vs arbitrary: g) (auto intro: advance_trans mark_black_advance)

lemma mark_list_tricolour:
  "tricolour S g \<Longrightarrow> tricolour S (mark_list vs g) \<and> (\<forall>v \<in> set vs. covered (mark_list vs g) v)"
proof (induction vs arbitrary: g)
  case (Cons v vs)
  have "tricolour S (mark_black g v)" "covered (mark_black g v) v" using mark_black_tricolour [OF Cons.prems] by simp_all
  then show ?case using Cons.IH covered_advance [OF mark_list_advance] by fastforce
qed simp

text \<open>
  The values in an object. The name of a closure and the function of a frame are left out, as
  the collector does not follow them: nothing here says that they are kept, and the
  function of a frame can indeed be freed while the frame is in use, which is a bug of the code
  (\<^verbatim>\<open>gc.c\<close>, the case of frames in \<^verbatim>\<open>idio_gc_process_grey\<close>); neither are the keys of a table of
  strings, that are no objects. An object can be reached
  from the values in \<open>R\<close>, without going through the tables in \<open>W\<close>.
\<close>

definition contents :: "gobj \<Rightarrow> idio_value set" where
  "contents ob =
    (case ob of
       G_substring parent \<Rightarrow> {parent}
     | G_pair h t \<Rightarrow> {h, t}
     | G_array dv ae \<Rightarrow> insert dv {v. Some v \<in> set ae}
     | G_hash string_keys count ha cmp hash \<Rightarrow>
         {cmp, hash} \<union> {v. \<exists>k. (k, v) \<in> set (concat ha)} \<union> {k. \<not> string_keys \<and> (\<exists>v. (k, v) \<in> set (concat ha))}
     | G_closure name frame env \<Rightarrow> {frame, env}
     | G_module name exports imports symbols identity \<Rightarrow> {name, exports, imports, symbols, identity}
     | G_frame next names args func \<Rightarrow> {next, names} \<union> set args
     | G_handle filename pathname \<Rightarrow> {filename, pathname}
     | G_struct_type name parent fs \<Rightarrow> {name, parent} \<union> set fs
     | G_struct_instance typ fs \<Rightarrow> {typ} \<union> set fs
     | G_thread vs \<Rightarrow> set vs
     | G_continuation vs \<Rightarrow> set vs
     | _ \<Rightarrow> {})"

lemma followed_entries:
  "V_pointer b \<in> set (concat (map (\<lambda>(k, v). (if sk \<or> k = idio_S_nil then [] else [k]) @ (if v = idio_S_nil then [] else [v])) es)) \<longleftrightarrow>
    (\<exists>k. (k, V_pointer b) \<in> set es) \<or> (\<not> sk \<and> (\<exists>v. (V_pointer b, v) \<in> set es))"
proof (induction es)
  case (Cons e es)
  obtain k v where e: "e = (k, v)" by (cases e)
  have "V_pointer b \<in> set ((if sk \<or> k = idio_S_nil then [] else [k]) @ (if v = idio_S_nil then [] else [v])) \<longleftrightarrow>
    v = V_pointer b \<or> (\<not> sk \<and> k = V_pointer b)" by auto
  with Cons show ?case
    unfolding e by (simp only: list.map concat.simps prod.case set_append Un_iff list.set insert_iff prod.inject) blast
qed simp

lemma contents_held: "V_pointer b \<in> set (held ob) \<longleftrightarrow> V_pointer b \<in> contents ob"
proof (cases ob)
  case (G_array dv ae)
  then show ?thesis by (auto simp: held_def compound_def followed_def contents_def split: option.splits)
next
  case (G_hash sk n ha cmp hash)
  then have "held ob = concat (map (\<lambda>(k, v). (if sk \<or> k = idio_S_nil then [] else [k]) @ (if v = idio_S_nil then [] else [v]))
      (concat ha)) @ [cmp, hash]" by (simp add: held_def compound_def followed_def)
  then have "V_pointer b \<in> set (held ob) \<longleftrightarrow>
      ((\<exists>k. (k, V_pointer b) \<in> set (concat ha)) \<or> (\<not> sk \<and> (\<exists>v. (V_pointer b, v) \<in> set (concat ha)))) \<or>
      V_pointer b = cmp \<or> V_pointer b = hash"
    by (simp only: set_append Un_iff followed_entries list.set insert_iff empty_iff simp_thms)
  then show ?thesis using G_hash by (auto simp: contents_def)
qed (auto simp: held_def compound_def followed_def contents_def)

inductive reach :: "nat set \<Rightarrow> gc \<Rightarrow> idio_value set \<Rightarrow> nat \<Rightarrow> bool" for W g R where
  reach_root: "V_pointer a \<in> R \<Longrightarrow> live g a \<Longrightarrow> reach W g R a"
| reach_step: "reach W g R a \<Longrightarrow> a \<notin> W \<Longrightarrow> V_pointer b \<in> contents (c_obj (cell_at g a)) \<Longrightarrow> live g b \<Longrightarrow> reach W g R b"

lemma reach_live: "reach W g R a \<Longrightarrow> live g a"
  by (induction rule: reach.induct)

text \<open>\<open>P\<close> is a set of objects that is closed under what objects hold.\<close>

definition closed :: "gc \<Rightarrow> (nat \<Rightarrow> bool) \<Rightarrow> bool" where
  "closed g P \<longleftrightarrow> (\<forall>a b. P a \<longrightarrow> V_pointer b \<in> set (held (c_obj (cell_at g a))) \<longrightarrow> live g b \<longrightarrow> P b)"

definition only :: "(nat \<Rightarrow> bool) \<Rightarrow> gc \<Rightarrow> bool" where
  "only P g \<longleftrightarrow> closed g P \<and> (\<forall>a. marked g a \<longrightarrow> P a)"

definition inside :: "(nat \<Rightarrow> bool) \<Rightarrow> gc \<Rightarrow> idio_value \<Rightarrow> bool" where
  "inside P g v \<longleftrightarrow> (\<forall>b. v = V_pointer b \<longrightarrow> live g b \<longrightarrow> P b)"

lemma closed_reach: "closed g (reach {} g R)"
  by (auto simp: closed_def contents_held intro: reach_step)

lemma only_colour: "only P g \<Longrightarrow> live g a \<Longrightarrow> P a \<Longrightarrow> only P (set_colour a col g)"
  by (auto simp: only_def closed_def colour_of_set_colour split: if_splits)

lemma only_grey [simp]: "only P (gc_grey_update f g) = only P g"
  by (simp add: only_def closed_def)

lemma mark_black_only: "only P g \<Longrightarrow> inside P g v \<Longrightarrow> only P (mark_black g v)"
proof (rule mark_black_induct [where P = "\<lambda>g v g'. only P g \<longrightarrow> inside P g v \<longrightarrow> only P g'", THEN mp, THEN mp])
  fix g v a p g'
  assume a: "to_mark g v a" and p: "c_obj (cell_at g a) = G_substring p"
    and IH: "only P (set_colour a BLACK g) \<longrightarrow> inside P (set_colour a BLACK g) p \<longrightarrow> only P g'"
  have l: "live g a" using a by (simp add: to_mark_def)
  show "only P g \<longrightarrow> inside P g v \<longrightarrow> only P g'"
  proof (intro impI)
    assume o: "only P g" and i: "inside P g v"
    have pa: "P a" using i a l by (simp add: inside_def to_mark_def)
    have "inside P (set_colour a BLACK g) p"
      using o pa p by (auto simp: inside_def only_def closed_def colour_of_set_colour [OF l] held_def)
    then show "only P g'" using IH only_colour [OF o l pa] by simp
  qed
next
  fix g v a
  assume a: "to_mark g v a"
  then show "only P g \<longrightarrow> inside P g v \<longrightarrow> only P ((set_colour a LGREY g)\<lparr>gc_grey := a # gc_grey g\<rparr>)"
    "only P g \<longrightarrow> inside P g v \<longrightarrow> only P (set_colour a BLACK g)"
    by (auto simp: to_mark_def inside_def intro!: only_colour)
qed simp_all

lemma inside_advance: "advance g g' \<Longrightarrow> inside P g v \<Longrightarrow> inside P g' v"
  using same_obj(3) [of g' g] by (auto simp: inside_def advance_def)

lemma mark_list_only: "only P g \<Longrightarrow> (\<And>v. v \<in> set vs \<Longrightarrow> inside P g v) \<Longrightarrow> only P (mark_list vs g)"
  by (induction vs arbitrary: g) (auto intro: mark_black_only inside_advance [OF mark_black_advance])

lemma process_grey_step:
  assumes t: "tricolour S g" and g: "gc_grey g = a # rest"
  obtains g' where "idio_gc_process_grey g = Inr g'" "advance g g'" "work g' < work g" "tricolour S g'"
    "\<And>P. only P g \<Longrightarrow> only P g'"
proof -
  let ?ob = "c_obj (cell_at g a)" and ?g1 = "(set_colour a BLACK g)\<lparr>gc_grey := rest\<rparr>"
  have gr: "is_grey g a" "a \<notin> set rest" and c: "compound ?ob" using t g by (auto simp: tricolour_def)
  have l: "live g a" using c by (auto simp: live_def compound_def)
  have m: "marked ?g1 b = marked g b" for b using gr by (simp add: colour_of_set_colour [OF l] marked_iff)
  have "length (gc_heap ?g1) = length (gc_heap g)" by (simp add: set_colour_def)
  then have "unmarked ?g1 = unmarked g" using m by (simp add: unmarked_def)
  moreover have "marked g a" using gr(1) by (simp add: marked_iff)
  ultimately have w: "work ?g1 < work g" and adv: "advance g ?g1"
    using g m colour_of_set_colour(6) [OF l] by (simp_all add: work_def advance_def)
  have cov: "covered ?g1 v" if "covered g v" for v using covered_advance [OF adv that] .
  have "set rest = {b. is_grey ?g1 b}"
  proof -
    have "set rest = {b. is_grey g b} - {a}" using t gr(2) g by (auto simp: tricolour_def)
    then show ?thesis by (auto simp: colour_of_set_colour [OF l] split: if_splits)
  qed
  then have t1: "tricolour (insert a S) ?g1"
    using t g cov by (auto simp: tricolour_def colour_of_set_colour [OF l] split: if_splits)
  let ?g2 = "mark_list (held ?ob) ?g1"
  have t2: "tricolour (insert a S) ?g2" "\<forall>v \<in> set (held ?ob). covered ?g2 v"
    using mark_list_tricolour [OF t1] by simp_all
  have adv2: "advance g ?g2" and w2: "work ?g2 < work g"
    using advance_trans [OF adv mark_list_advance] mark_list_advance [of ?g1 "held ?ob"] w by (simp_all add: advance_def)
  have ob2: "c_obj (cell_at ?g2 a) = ?ob" using adv2 by (intro same_obj(1)) (simp add: advance_def)
  have "idio_gc_process_grey g = Inr ?g2"
    using g c held_compound [OF c] by (simp add: idio_gc_process_grey_def mark_list_def)
  moreover have "tricolour S ?g2" by (rule tricolour_insert [OF t2(1)]) (use ob2 t2(2) in simp)
  moreover have "only P ?g2" if o: "only P g" for P
  proof -
    have pa: "P a" using o gr(1) by (simp add: only_def marked_iff)
    have "inside P g v" if "v \<in> set (held ?ob)" for v using o pa that by (auto simp: only_def closed_def inside_def)
    then show ?thesis
      using only_colour [OF o l pa] by (intro mark_list_only) (auto intro: inside_advance [OF adv])
  qed
  ultimately show thesis using that adv2 w2 by blast
qed

lemma grey_loop_ends:
  assumes "tricolour S g" "work g \<le> fuel"
  obtains g' where "grey_loop fuel g = Inr g'" "advance g g'" "tricolour S g'" "gc_grey g' = []"
    "\<And>P. only P g \<Longrightarrow> only P g'"
  using assms
proof (induction fuel arbitrary: g thesis)
  case 0
  then show ?case by (simp add: work_def)
next
  case (Suc fuel)
  show ?case
  proof (cases "gc_grey g")
    case Nil
    then show ?thesis using Suc.prems(1)[of g] Suc.prems(2) by simp
  next
    case (Cons a rest)
    from process_grey_step [OF Suc.prems(2) Cons] obtain g1 where g1: "idio_gc_process_grey g = Inr g1" "advance g g1"
      "work g1 < work g" "tricolour S g1" "\<And>P. only P g \<Longrightarrow> only P g1" by blast
    have "work g1 \<le> fuel" using g1(3) Suc.prems(3) by simp
    from Suc.IH [OF _ g1(4) this] obtain g2 where g2: "grey_loop fuel g1 = Inr g2" "advance g1 g2"
      "tricolour S g2" "gc_grey g2 = []" "\<And>P. only P g1 \<Longrightarrow> only P g2" by blast
    have "grey_loop (Suc fuel) g = Inr g2" using Cons g1(1) g2(1) by simp
    then show ?thesis using Suc.prems(1) advance_trans [OF g1(2) g2(2)] g2(3,4) g1(5) g2(5) by blast
  qed
qed

lemma work_bound: "work g \<le> 2 * length (gc_heap g) + length (gc_grey g)"
proof -
  have "card (unmarked g) \<le> card {..<length (gc_heap g)}" by (rule card_mono) (auto simp: unmarked_def)
  then show ?thesis by (simp add: work_def)
qed

lemma process_all_grey_ends:
  assumes "tricolour S g"
  obtains g' where "process_all_grey g = Inr g'" "advance g g'" "tricolour S g'" "gc_grey g' = []"
    "\<And>P. only P g \<Longrightarrow> only P g'"
  using grey_loop_ends [OF assms work_bound] unfolding process_all_grey_def by blast

end
