(* ===== verification/Gc_Collect.thy ===== *)
theory Gc_Collect
  imports Gc_Props
begin

text \<open>
  A whole collection: weak tables, the sweep, and the invariant of the lists of objects
  that allocation and collection keep.
\<close>

section \<open>The lists of objects\<close>

text \<open>
  Every object is on one of the lists, once; the used and the weak ones are those that
  have a type. Between collections only used objects may be grey, of the last one's marking.
\<close>

definition heap_ok :: "gc \<Rightarrow> bool" where
  "heap_ok g \<longleftrightarrow>
    distinct (gc_used g @ gc_weak g @ gc_free g) \<and>
    set (gc_used g) \<union> set (gc_weak g) = {a. live g a} \<and>
    set (gc_free g) \<subseteq> {a. a < length (gc_heap g)} \<and>
    gc_nfree g = length (gc_free g) \<and>
    (\<forall>a. is_grey g a \<longrightarrow> a \<in> set (gc_used g))"

section \<open>Before the sweep\<close>

text \<open>
  \<open>grows W\<close>: objects outside of the tables \<open>W\<close> stay the same, and no object loses its mark.
\<close>

definition grows :: "nat set \<Rightarrow> gc \<Rightarrow> gc \<Rightarrow> bool" where
  "grows W g g' \<longleftrightarrow>
    (\<forall>a. a \<notin> W \<longrightarrow> c_obj (cell_at g' a) = c_obj (cell_at g a)) \<and> (\<forall>a. live g' a = live g a) \<and>
    (\<forall>a. c_sticky (cell_at g' a) = c_sticky (cell_at g a)) \<and> (\<forall>a. marked g a \<longrightarrow> marked g' a) \<and>
    length (gc_heap g') = length (gc_heap g) \<and> gc_used g' = gc_used g \<and> gc_weak g' = gc_weak g \<and>
    gc_free g' = gc_free g \<and> gc_nfree g' = gc_nfree g"

lemma grows_refl [simp]: "grows W g g"
  by (simp add: grows_def)

lemma grows_trans [trans]: "grows W g1 g2 \<Longrightarrow> grows W g2 g3 \<Longrightarrow> grows W g1 g3"
  by (auto simp: grows_def)

lemma grows_advance: "advance g g' \<Longrightarrow> grows W g g'"
proof -
  assume a: "advance g g'"
  then have u: "uncoloured g' = uncoloured g" by (simp add: advance_def)
  have "gc_nfree g' = gc_nfree g" using arg_cong [OF u, of gc_nfree] by (simp add: uncoloured_def)
  then show ?thesis using a same_obj [OF u] by (simp add: grows_def advance_def)
qed

lemma grows_covered: "grows W g g' \<Longrightarrow> covered g v \<Longrightarrow> covered g' v"
  by (auto simp: grows_def covered_def)

lemma grows_marked: "grows W g g' \<Longrightarrow> marked g a \<Longrightarrow> marked g' a"
  by (simp add: grows_def)

text \<open>What a step of the weak passes does: it grows the marks and keeps the colours' invariant.\<close>

definition good :: "nat set \<Rightarrow> gc \<Rightarrow> gc \<Rightarrow> bool" where
  "good W g g' \<longleftrightarrow> grows W g g' \<and> tricolour W g'"

definition good_result :: "nat set \<Rightarrow> gc \<Rightarrow> gc result \<Rightarrow> bool" where
  "good_result W g r \<longleftrightarrow> (case r of Inr g' \<Rightarrow> good W g g' | Inl e \<Rightarrow> e \<noteq> Diverges)"

lemma good_refl: "tricolour W g \<Longrightarrow> good W g g"
  by (simp add: good_def)

lemma good_trans: "good W g g1 \<Longrightarrow> good W g1 g2 \<Longrightarrow> good W g g2"
  by (auto simp: good_def intro: grows_trans)

lemma good_result_Inr: "good_result W g (Inr g') = good W g g'"
  by (simp add: good_result_def)

lemma good_result_trans: "good W g g1 \<Longrightarrow> good_result W g1 r \<Longrightarrow> good_result W g r"
  by (auto simp: good_result_def intro: good_trans split: sum.splits)

lemma good_result_bind:
  assumes "good_result W g r" "\<And>g'. good W g g' \<Longrightarrow> good_result W g' (f g')"
  shows "good_result W g (bind_result r f)"
proof (cases r)
  case (Inr g')
  then have g': "good W g g'" using assms(1) by (simp add: good_result_def)
  from assms(2) [OF g'] show ?thesis using Inr good_trans [OF g'] by (auto simp: good_result_def split: sum.splits)
qed (use assms(1) in \<open>simp add: good_result_def\<close>)

lemma good_mark: "tricolour W g \<Longrightarrow> good W g (mark_black g v)"
  using mark_black_tricolour grows_advance [OF mark_black_advance] by (simp add: good_def)

lemma good_grey: "tricolour W g \<Longrightarrow> good_result W g (process_all_grey g)"
  using process_all_grey_ends [of W g] grows_advance by (metis good_def good_result_def sum.case(2))

lemma good_entries:
  "tricolour W (fst gm) \<Longrightarrow> good W (fst gm) (fst (fold mark_entry_value es gm))"
proof (induction es arbitrary: gm)
  case (Cons e es)
  obtain k v where e: "e = (k, v)" by (cases e)
  obtain g m where gm: "gm = (g, m)" by (cases gm)
  have "good W g (fst (mark_entry_value e gm))"
    using good_mark [of W g v] good_refl [of W g] Cons.prems by (cases k) (simp_all add: e gm)
  then show ?case using Cons.IH [of "mark_entry_value e gm"] by (auto simp: gm good_def intro: grows_trans)
qed (simp add: good_refl)

lemma good_tables:
  "tricolour W (fst gm) \<Longrightarrow> good_result W (fst gm) (map_result fst (mark_table_values os gm))"
proof (induction os arbitrary: gm)
  case Nil
  then show ?case by (simp add: good_refl good_result_def)
next
  case (Cons o' os)
  show ?case
  proof (cases "weak_entries (fst gm) o'")
    case None
    then show ?thesis by (simp add: good_result_def)
  next
    case (Some ha)
    have g: "good W (fst gm) (fst (fold mark_entry_value (concat ha) gm))" by (rule good_entries [OF Cons.prems])
    then have "good_result W (fst (fold mark_entry_value (concat ha) gm)) (map_result fst (mark_table_values os (fold mark_entry_value (concat ha) gm)))"
      by (intro Cons.IH) (simp add: good_def)
    then show ?thesis using g Some by (auto simp: good_result_def intro: good_trans split: sum.splits)
  qed
qed

lemma good_pass1: "tricolour W g \<Longrightarrow> good_result W g (weak_pass1 g)"
proof -
  assume t: "tricolour W g"
  have m: "good_result W g (map_result fst (mark_table_values (gc_weak g) (g, 0)))"
    using good_tables [of W "(g, 0)" "gc_weak g"] t by simp
  have "weak_pass1 g = bind_result (mark_table_values (gc_weak g) (g, 0)) (\<lambda>(g1, n).
      bind_result (process_all_grey g1) (\<lambda>g2. if n = 0 then Inr g2 else process_all_grey g2))"
    by (simp add: weak_pass1_def if_distrib cong: if_cong)
  moreover have "good_result W g1 (bind_result (process_all_grey g1) (\<lambda>g2. if n = 0 then Inr g2 else process_all_grey g2))"
    if "good W g g1" for g1 and n :: nat
  proof (rule good_result_bind)
    show "good_result W g1 (process_all_grey g1)" using that by (intro good_grey) (simp add: good_def)
    fix g2
    assume "good W g1 g2"
    then have t2: "tricolour W g2" by (simp add: good_def)
    then show "good_result W g2 (if n = 0 then Inr g2 else process_all_grey g2)"
      using good_grey [OF t2] good_refl [OF t2] by (simp add: good_result_def)
  qed
  ultimately show ?thesis
    using m good_result_trans by (cases "mark_table_values (gc_weak g) (g, 0)") (auto simp: good_result_def [of _ _ "Inl _"] good_result_Inr)
qed

text \<open>Finalizers and entries that are dropped leave the colours alone.\<close>

lemma good_cell:
  assumes t: "tricolour W g" and col: "\<And>c. c_colour (f c) = c_colour c" "\<And>c. c_sticky (f c) = c_sticky c"
    and ob: "a \<notin> W \<Longrightarrow> c_obj (f (cell_at g a)) = c_obj (cell_at g a)"
      "compound (c_obj (f (cell_at g a))) = compound (c_obj (cell_at g a))"
      "c_obj (f (cell_at g a)) = G_none \<longleftrightarrow> c_obj (cell_at g a) = G_none"
  shows "good W g (set_cell a f g)"
proof -
  have c: "is_black (set_cell a f g) b = is_black g b" "is_grey (set_cell a f g) b = is_grey g b"
    "marked (set_cell a f g) b = marked g b" "c_sticky (cell_at (set_cell a f g) b) = c_sticky (cell_at g b)"
    "live (set_cell a f g) b = live g b" "compound (c_obj (cell_at (set_cell a f g) b)) = compound (c_obj (cell_at g b))" for b
    using col ob by (simp_all add: is_black_def is_grey_def marked_def live_def)
  have o: "c_obj (cell_at (set_cell a f g) b) = c_obj (cell_at g b)" if "b \<notin> W" for b using ob(1) that by auto
  have "covered (set_cell a f g) v = covered g v" for v by (simp add: covered_def c)
  then have "tricolour W (set_cell a f g)" using t by (simp add: tricolour_def c o del: cell_at_set_cell)
  then show ?thesis using c o by (simp add: good_def grows_def)
qed

lemma good_finalized: "good W g g' \<Longrightarrow> good W (gc_finalized_update f g) g' "
  by (auto simp: good_def grows_def live_def marked_def)

lemma tricolour_finalized [simp]: "tricolour W (gc_finalized_update f g) = tricolour W g"
  by (simp add: tricolour_def is_black_def is_grey_def covered_def live_def marked_def)

lemma good_finalizer: "tricolour W g \<Longrightarrow> good_result W g (idio_gc_finalizer_run a g)"
proof -
  assume t: "tricolour W g"
  have "good W g (g\<lparr>gc_finalized := x\<rparr>)" for x
    using t by (simp add: good_def grows_def live_def marked_def)
  moreover have "good W (g\<lparr>gc_finalized := x\<rparr>) (idio_gc_deregister_finalizer a (g\<lparr>gc_finalized := x\<rparr>))" for x
    using good_cell [of W "g\<lparr>gc_finalized := x\<rparr>" "c_finalizer_update (\<lambda>_. False)" a] t good_refl [of W "g\<lparr>gc_finalized := x\<rparr>"]
    by (simp add: idio_gc_deregister_finalizer_def)
  ultimately have "good W g (idio_gc_deregister_finalizer a (g\<lparr>gc_finalized := x\<rparr>))" for x by (rule good_trans)
  then show ?thesis using good_refl [OF t] by (simp add: idio_gc_finalizer_run_def good_result_def)
qed

lemma good_keep: "tricolour W g \<Longrightarrow> good_result W g (map_result snd (keep_entry e g))"
proof -
  assume t: "tricolour W g"
  obtain k v where e: "e = (k, v)" by (cases e)
  have s: "map_result snd (map_result (Pair False) r) = r" for r :: "gc result" by (cases r) simp_all
  show ?thesis
    using good_mark [OF t] good_refl [OF t] good_finalizer [OF t] by (cases k) (simp_all add: e s good_result_def)
qed

lemma good_set_entries: "tricolour W g \<Longrightarrow> a \<in> W \<Longrightarrow> good W g (set_entries a ha g)"
  unfolding set_entries_def by (rule good_cell) (simp_all add: compound_def split: gobj.splits)

lemma good_purge_chain: "tricolour W g \<Longrightarrow> a \<in> W \<Longrightarrow> good_result W g (purge_chain a i kept es g)"
proof (induction es arbitrary: g kept)
  case Nil
  then show ?case by (simp add: good_refl good_result_def)
next
  case (Cons e es)
  note k = good_keep [OF Cons.prems(1), of e]
  show ?case
  proof (cases "keep_entry e g")
    case (Inl x)
    then show ?thesis using k by (simp add: good_result_def)
  next
    case (Inr r)
    obtain keep g1 where r: "r = (keep, g1)" by (cases r)
    have g1: "good W g g1" using k Inr r by (simp add: good_result_def)
    then have t1: "tricolour W g1" by (simp add: good_def)
    have "good_result W g1 (if keep then purge_chain a i (kept @ [e]) es g1
        else case weak_entries g1 a of None \<Rightarrow> Inl Segmentation_fault
          | Some ha \<Rightarrow> purge_chain a i kept es (set_entries a (ha[i := kept @ es]) g1))"
    proof (cases "keep \<or> weak_entries g1 a = None")
      case True
      then show ?thesis using Cons.IH [OF t1 Cons.prems(2)] by (auto simp: good_result_def)
    next
      case False
      then obtain ha where ha: "\<not> keep" "weak_entries g1 a = Some ha" by auto
      let ?g2 = "set_entries a (ha[i := kept @ es]) g1"
      have g2: "good W g1 ?g2" by (rule good_set_entries [OF t1 Cons.prems(2)])
      then have "good_result W ?g2 (purge_chain a i kept es ?g2)" by (intro Cons.IH Cons.prems(2)) (simp add: good_def)
      then show ?thesis using ha g2 by (auto simp: good_result_def intro: good_trans split: sum.splits)
    qed
    then show ?thesis using Inr r g1 by (auto simp: good_result_def intro: good_trans split: sum.splits)
  qed
qed

lemma good_purge_chains: "tricolour W g \<Longrightarrow> a \<in> W \<Longrightarrow> good_result W g (purge_chains a i ess g)"
  by (induction ess arbitrary: g i)
    (auto simp: good_refl good_result_def [of _ _ "Inr _"] good_def [of _ _ "_ :: gc"] intro!: good_result_bind good_purge_chain)

lemma good_purge_tables: "tricolour W g \<Longrightarrow> set os \<subseteq> W \<Longrightarrow> good_result W g (purge_tables os g)"
proof (induction os arbitrary: g)
  case Nil
  then show ?case by (simp add: good_refl good_result_def)
next
  case (Cons o' os)
  have "good_result W g (bind_result (purge_chains o' 0 ha g) (purge_tables os))" for ha
  proof (rule good_result_bind)
    show "good_result W g (purge_chains o' 0 ha g)" using Cons.prems by (intro good_purge_chains) simp_all
    fix g'
    assume "good W g g'"
    then show "good_result W g' (purge_tables os g')" using Cons.prems by (intro Cons.IH) (simp_all add: good_def)
  qed
  then show ?case by (auto simp: good_result_def [of _ _ "Inl _"] split: option.splits)
qed

lemma good_weak: "tricolour (set (gc_weak g)) g \<Longrightarrow> good_result (set (gc_weak g)) g (idio_gc_mark_weak g)"
  unfolding idio_gc_mark_weak_def
proof (rule good_result_bind)
  assume t: "tricolour (set (gc_weak g)) g"
  then show "good_result (set (gc_weak g)) g (weak_pass1 g)" by (rule good_pass1)
  fix g1
  assume "good (set (gc_weak g)) g g1"
  then have g1: "tricolour (set (gc_weak g)) g1" "gc_weak g1 = gc_weak g" by (simp_all add: good_def grows_def)
  show "good_result (set (gc_weak g)) g1 (bind_result (purge_tables (gc_weak g1) g1) process_all_grey)"
    using g1 by (intro good_result_bind good_purge_tables good_grey) (simp_all add: good_def)
qed

lemma grey_loop_empty: "grey_loop fuel g = Inr g' \<Longrightarrow> gc_grey g' = []"
  by (induction fuel arbitrary: g) (auto split: if_splits)

lemma mark_weak_empty: "idio_gc_mark_weak g = Inr g' \<Longrightarrow> gc_grey g' = []"
  by (auto simp: idio_gc_mark_weak_def process_all_grey_def dest: grey_loop_empty)

text \<open>All used objects are white when the marking starts.\<close>

definition whiten :: "nat list \<Rightarrow> gc \<Rightarrow> gc" where
  "whiten us g = (fold (\<lambda>a g. mark_white g (V_pointer a)) us g)\<lparr>gc_grey := []\<rparr>"

lemma mark_white_pointer: "mark_white g (V_pointer a) = (if live g a then set_colour a WHITE g else g)"
  by (simp add: mark_white_def live_def)

lemma mark_white_cell:
  "cell_at (mark_white g (V_pointer a)) b = (if b = a \<and> live g b then (cell_at g b)\<lparr>c_colour := WHITE\<rparr> else cell_at g b)"
  using live_bound [of g a] by (auto simp: mark_white_pointer set_colour_def)

lemma mark_white_live [simp]: "live (mark_white g (V_pointer a)) b = live g b"
  by (simp add: live_def mark_white_cell)

lemma fold_white:
  "cell_at (fold (\<lambda>a g. mark_white g (V_pointer a)) us g) b =
     (if b \<in> set us \<and> live g b then (cell_at g b)\<lparr>c_colour := WHITE\<rparr> else cell_at g b)"
  by (induction us arbitrary: g) (auto simp: mark_white_cell)

lemma fold_white_uncoloured: "uncoloured (fold (\<lambda>a g. mark_white g (V_pointer a)) us g) = uncoloured g"
  by (induction us arbitrary: g) (simp_all add: mark_white_pointer)

lemma whiten_cell: "cell_at (whiten us g) b = (if b \<in> set us \<and> live g b then (cell_at g b)\<lparr>c_colour := WHITE\<rparr> else cell_at g b)"
  by (simp add: whiten_def fold_white)

lemma whiten_uncoloured [simp]: "uncoloured (whiten us g) = uncoloured g"
  by (simp add: whiten_def fold_white_uncoloured)

lemma whiten_tricolour:
  assumes "heap_ok g"
  shows "tricolour (set (gc_weak g)) (whiten (gc_used g) g)" "\<not> is_grey (whiten (gc_used g) g) b"
proof -
  show n: "\<not> is_grey (whiten (gc_used g) g) b" for b
    using assms by (auto simp: is_grey_def whiten_cell heap_ok_def)
  have "c_obj (cell_at (whiten (gc_used g) g) b) = G_none" if "is_black (whiten (gc_used g) g) b" "b \<notin> set (gc_weak g)" for b
  proof -
    have "b \<notin> set (gc_used g) \<or> \<not> live g b" using that(1) by (auto simp: is_black_def whiten_cell split: if_splits)
    then have "\<not> live g b" using that(2) assms by (auto simp: heap_ok_def)
    then show ?thesis by (simp add: whiten_cell live_def)
  qed
  then show "tricolour (set (gc_weak g)) (whiten (gc_used g) g)"
    using n by (auto simp: tricolour_def held_def compound_def whiten_def)
qed

lemma idio_gc_mark_eq:
  "idio_gc_mark g = bind_result (process_all_grey (mark_list (gc_roots g @ gc_autos g) (whiten (gc_used g) g))) idio_gc_mark_weak"
proof -
  let ?w = "whiten (gc_used g) g"
  have r: "gc_roots ?w = gc_roots g" "gc_autos (mark_list vs ?w) = gc_autos g" for vs
    using same_obj(7) [of ?w g] same_obj(8) [of "mark_list vs ?w" g] mark_list_advance [of ?w vs] by (simp_all add: advance_def)
  show ?thesis using r by (simp add: idio_gc_mark_def Let_def mark_list_def whiten_def)
qed

text \<open>The state after the marks of the roots, and after the grey objects reached from them.\<close>

lemma held_live: "v \<in> set (held (c_obj (cell_at g a))) \<Longrightarrow> live g a"
  by (cases "c_obj (cell_at g a)") (simp_all add: live_def held_def compound_def)

lemma closed_live_reach: "closed g (\<lambda>a. live g a \<longrightarrow> reach {} g R a)"
  unfolding closed_def by (intro allI impI) (metis contents_held empty_iff held_live reach_step)

lemma mark_roots:
  assumes ok: "heap_ok g"
  obtains g' where
    "process_all_grey (mark_list (gc_roots g @ gc_autos g) (whiten (gc_used g) g)) = Inr g'"
    "advance (whiten (gc_used g) g) g'" "tricolour (set (gc_weak g)) g'" "gc_grey g' = []"
    "\<And>v. v \<in> set (gc_roots g) \<union> set (gc_autos g) \<Longrightarrow> covered g' v"
    "\<And>a. gc_weak g = [] \<Longrightarrow> marked g' a \<Longrightarrow> live g a \<Longrightarrow> reach {} g (set (gc_roots g) \<union> set (gc_autos g)) a"
proof -
  let ?w = "whiten (gc_used g) g" and ?R = "set (gc_roots g) \<union> set (gc_autos g)"
  let ?m = "mark_list (gc_roots g @ gc_autos g) ?w" and ?P = "\<lambda>a. live g a \<longrightarrow> reach {} g ?R a"
  have m: "tricolour (set (gc_weak g)) ?m" "\<forall>v \<in> ?R. covered ?m v"
    using mark_list_tricolour [OF whiten_tricolour(1) [OF ok], of "gc_roots g @ gc_autos g"] by auto
  obtain g' where g': "process_all_grey ?m = Inr g'" "advance ?m g'" "tricolour (set (gc_weak g)) g'" "gc_grey g' = []"
    "\<And>P. only P ?m \<Longrightarrow> only P g'" using process_all_grey_ends [OF m(1)] by blast
  have o: "c_obj (cell_at ?w a) = c_obj (cell_at g a)" "live ?w a = live g a" for a using same_obj(1,3) [of ?w g] by simp_all
  have "only ?P ?w" if "gc_weak g = []"
  proof -
    have "\<not> live g a" if "marked ?w a" for a
      using whiten_tricolour(2) [OF ok] ok that \<open>gc_weak g = []\<close>
      by (auto simp: marked_iff is_black_def is_grey_def whiten_cell heap_ok_def split: if_splits)
    then have "?P a" if "marked ?w a" for a using that by simp
    moreover have "closed ?w ?P" using closed_live_reach by (simp add: closed_def o)
    ultimately show ?thesis by (simp add: only_def)
  qed
  then have "only ?P g'" if "gc_weak g = []"
    using that o(2) by (intro g'(5) mark_list_only) (auto simp: inside_def intro: reach_root)
  then have "\<And>a. gc_weak g = [] \<Longrightarrow> marked g' a \<Longrightarrow> live g a \<Longrightarrow> reach {} g ?R a" by (simp add: only_def)
  moreover have "\<And>v. v \<in> ?R \<Longrightarrow> covered g' v" using m(2) covered_advance [OF g'(2)] by blast
  ultimately show thesis using that [OF g'(1) advance_trans [OF mark_list_advance g'(2)] g'(3,4)] by blast
qed

section \<open>What weak tables keep\<close>

text \<open>
  An entry left in a weak table has a marked key and a marked value, if the key is an
  object at all.
\<close>

definition entry_ok :: "gc \<Rightarrow> idio_value \<times> idio_value \<Rightarrow> bool" where
  "entry_ok g e \<longleftrightarrow> (\<forall>a. fst e = V_pointer a \<longrightarrow> marked g a \<and> covered g (snd e))"

lemma entry_ok_grows: "grows W g g' \<Longrightarrow> entry_ok g e \<Longrightarrow> entry_ok g' e"
  by (auto simp: entry_ok_def intro: grows_covered grows_marked)

definition same_objects :: "gc \<Rightarrow> gc \<Rightarrow> bool" where
  "same_objects g g' \<longleftrightarrow> (\<forall>b. c_obj (cell_at g' b) = c_obj (cell_at g b))"

lemma same_objects_finalizer: "idio_gc_finalizer_run a g = Inr g' \<Longrightarrow> same_objects g g'"
  by (auto simp: idio_gc_finalizer_run_def idio_gc_deregister_finalizer_def same_objects_def split: if_splits)

lemma same_objects_advance: "advance g g' \<Longrightarrow> same_objects g g'"
  unfolding same_objects_def advance_def using same_obj(1) by blast

lemma keep_entry_ok:
  assumes t: "tricolour W g" and k: "keep_entry e g = Inr (keep, g')"
  shows "same_objects g g'" "keep \<Longrightarrow> entry_ok g' e" "good W g g'"
proof -
  show "good W g g'" using good_keep [OF t, of e] k by (simp add: good_result_Inr)
  obtain x v where e: "e = (x, v)" by (cases e)
  show "same_objects g g'" using k same_objects_advance [OF mark_black_advance] same_objects_finalizer
    by (cases x) (auto simp: e same_objects_def split: if_splits)
  assume keep
  show "entry_ok g' e"
  proof (cases x)
    case (V_pointer a)
    with k \<open>keep\<close> have "is_black g a" "g' = mark_black g v" by (auto simp: e split: if_splits)
    moreover have "marked (mark_black g v) a"
      using calculation(1) mark_black_advance [of g v] by (simp add: advance_def marked_iff)
    ultimately show ?thesis using mark_black_tricolour [OF t, of v] V_pointer by (simp add: entry_ok_def e)
  qed (simp_all add: entry_ok_def e)
qed

lemma weak_entries_same: "same_objects g g' \<Longrightarrow> weak_entries g' a = weak_entries g a"
  by (simp add: same_objects_def weak_entries_def)

lemma weak_entries_set:
  assumes "weak_entries g a = Some ha"
  shows "weak_entries (set_entries a ha' g) a = Some ha'" "b \<noteq> a \<Longrightarrow> c_obj (cell_at (set_entries a ha' g) b) = c_obj (cell_at g b)"
proof -
  have "live g a" using assms by (auto simp: weak_entries_def live_def split: gobj.splits)
  then show "weak_entries (set_entries a ha' g) a = Some ha'"
    using assms live_bound by (auto simp: weak_entries_def set_entries_def split: gobj.splits)
qed (simp add: set_entries_def)

lemma purge_chain_entries:
  assumes "tricolour W g" "a \<in> W" "weak_entries g a = Some ha" "i < length ha" "ha ! i = kept @ es"
    "\<forall>e \<in> set kept. entry_ok g e" "purge_chain a i kept es g = Inr g'"
  shows "\<exists>es'. weak_entries g' a = Some (ha[i := es']) \<and> (\<forall>e \<in> set es'. entry_ok g' e) \<and>
    (\<forall>b. b \<noteq> a \<longrightarrow> c_obj (cell_at g' b) = c_obj (cell_at g b))"
  using assms
proof (induction es arbitrary: g kept ha)
  case Nil
  then show ?case using list_update_id [of ha i] by (intro exI [of _ kept]) simp
next
  case (Cons e es)
  from Cons.prems(7) obtain keep g1 where k: "keep_entry e g = Inr (keep, g1)" by (auto simp: bind_result_def split: sum.splits)
  note g1 = keep_entry_ok [OF Cons.prems(1) k]
  have t1: "tricolour W g1" and gr: "grows W g g1" using g1(3) by (simp_all add: good_def)
  have w1: "weak_entries g1 a = Some ha" using weak_entries_same [OF g1(1)] Cons.prems(3) by simp
  have kept: "\<forall>e \<in> set kept. entry_ok g1 e" using Cons.prems(6) entry_ok_grows [OF gr] by blast
  show ?case
  proof (cases keep)
    case True
    with Cons.prems(7) k have "purge_chain a i (kept @ [e]) es g1 = Inr g'" by simp
    with Cons.IH [OF t1 Cons.prems(2) w1 Cons.prems(4)] Cons.prems(5) kept g1(2) True obtain es' where
      "weak_entries g' a = Some (ha[i := es'])" "\<forall>e \<in> set es'. entry_ok g' e"
      "\<forall>b. b \<noteq> a \<longrightarrow> c_obj (cell_at g' b) = c_obj (cell_at g1 b)" by fastforce
    then show ?thesis using g1(1) by (auto simp: same_objects_def)
  next
    case False
    let ?g2 = "set_entries a (ha[i := kept @ es]) g1"
    have g2: "good W g1 ?g2" by (rule good_set_entries [OF t1 Cons.prems(2)])
    then have t2: "tricolour W ?g2" and gr2: "grows W g1 ?g2" by (simp_all add: good_def)
    have "purge_chain a i kept es ?g2 = Inr g'" using Cons.prems(7) k False w1 by simp
    with Cons.IH [OF t2 Cons.prems(2) weak_entries_set(1) [OF w1]] Cons.prems(4) kept entry_ok_grows [OF gr2] obtain es' where
      "weak_entries g' a = Some (ha[i := es'])" "\<forall>e \<in> set es'. entry_ok g' e"
      "\<forall>b. b \<noteq> a \<longrightarrow> c_obj (cell_at g' b) = c_obj (cell_at ?g2 b)" by fastforce
    then show ?thesis using g1(1) weak_entries_set(2) [OF w1] by (auto simp: same_objects_def)
  qed
qed

lemma purge_chains_entries:
  assumes "tricolour W g" "a \<in> W" "weak_entries g a = Some ha" "ess = drop i ha"
    "\<forall>e \<in> set (concat (take i ha)). entry_ok g e" "purge_chains a i ess g = Inr g'"
  shows "\<exists>ha'. weak_entries g' a = Some ha' \<and> (\<forall>e \<in> set (concat ha'). entry_ok g' e) \<and>
    (\<forall>b. b \<noteq> a \<longrightarrow> c_obj (cell_at g' b) = c_obj (cell_at g b))"
  using assms
proof (induction ess arbitrary: g i ha)
  case Nil
  then show ?case by simp
next
  case (Cons es ess)
  from Cons.prems(4) have i: "i < length ha" "ha ! i = [] @ es" "ess = drop (Suc i) ha"
    by (metis drop_all linorder_not_less list.discI) (metis Cons.prems(4) append_Nil nth_via_drop, metis Cons.prems(4) drop_Suc list.sel(3) tl_drop)
  from Cons.prems(6) obtain g1 where g1: "purge_chain a i [] es g = Inr g1" "purge_chains a (i + 1) ess g1 = Inr g'" by auto
  from purge_chain_entries [OF Cons.prems(1-3) i(1,2) _ g1(1)] obtain es' where
    es: "weak_entries g1 a = Some (ha[i := es'])" "\<forall>e \<in> set es'. entry_ok g1 e"
      "\<forall>b. b \<noteq> a \<longrightarrow> c_obj (cell_at g1 b) = c_obj (cell_at g b)" by auto
  have good: "good W g g1" using good_purge_chain [OF Cons.prems(1,2), of i "[]" es] g1(1) by (simp add: good_result_Inr)
  have "\<forall>e \<in> set (concat (take i ha)). entry_ok g1 e" using Cons.prems(5) entry_ok_grows good by (auto simp: good_def)
  then have "\<forall>e \<in> set (concat (take (i + 1) (ha[i := es']))). entry_ok g1 e"
    using es(2) i(1) by (auto simp: take_Suc_conv_app_nth)
  with Cons.IH [OF _ Cons.prems(2) es(1) _ _ g1(2)] good i(3) es(3) show ?case by (fastforce simp: good_def)
qed

lemma purge_tables_other:
  assumes "tricolour W g" "set os \<subseteq> W" "purge_tables os g = Inr g'" "b \<notin> set os"
  shows "c_obj (cell_at g' b) = c_obj (cell_at g b)"
  using assms
proof (induction os arbitrary: g)
  case (Cons o' os)
  from Cons.prems(3) obtain ha g1 where g1: "weak_entries g o' = Some ha" "purge_chains o' 0 ha g = Inr g1" "purge_tables os g1 = Inr g'"
    by (auto split: option.splits)
  have "good W g g1" using good_purge_chains [OF Cons.prems(1), of o' 0 ha] g1(2) Cons.prems(2) by (simp add: good_result_Inr)
  then have "c_obj (cell_at g' b) = c_obj (cell_at g1 b)" using Cons.IH [OF _ _ g1(3)] Cons.prems(2,4) by (simp add: good_def)
  also have "\<dots> = c_obj (cell_at g b)"
    using purge_chains_entries [OF Cons.prems(1) _ g1(1) _ _ g1(2)] Cons.prems(2,4) by auto
  finally show ?case .
qed simp

lemma purge_tables_entries:
  assumes "tricolour W g" "set os \<subseteq> W" "distinct os" "purge_tables os g = Inr g'" "t \<in> set os"
  shows "\<exists>ha. weak_entries g' t = Some ha \<and> (\<forall>e \<in> set (concat ha). entry_ok g' e)"
  using assms
proof (induction os arbitrary: g t)
  case (Cons o' os)
  from Cons.prems(4) obtain ha g1 where g1: "weak_entries g o' = Some ha" "purge_chains o' 0 ha g = Inr g1" "purge_tables os g1 = Inr g'"
    by (auto split: option.splits)
  from purge_chains_entries [OF Cons.prems(1) _ g1(1) _ _ g1(2)] Cons.prems(2) obtain ha' where
    ha: "weak_entries g1 o' = Some ha'" "\<forall>e \<in> set (concat ha'). entry_ok g1 e" by auto
  have "good W g g1" using good_purge_chains [OF Cons.prems(1), of o' 0 ha] g1(2) Cons.prems(2) by (simp add: good_result_Inr)
  then have t1: "tricolour W g1" by (simp add: good_def)
  show ?case
  proof (cases "t = o'")
    case True
    have "good W g1 g'" using good_purge_tables [OF t1, of os] g1(3) Cons.prems(2) by (simp add: good_result_Inr)
    moreover have "weak_entries g' o' = weak_entries g1 o'"
      using purge_tables_other [OF t1 _ g1(3), of o'] Cons.prems(2,3) by (simp add: weak_entries_def)
    ultimately show ?thesis using True ha entry_ok_grows by (auto simp: good_def)
  next
    case False
    then show ?thesis using Cons.IH [OF t1 _ _ g1(3)] Cons.prems(2,3,5) by simp
  qed
qed simp

end
