(* ===== verification/Gc_Safe.thy ===== *)
theory Gc_Safe
  imports Gc_Collect
begin

text \<open>
  The sweep and what a collection keeps: the objects that can be reached, unchanged, and
  the invariant of the lists of objects.
\<close>

section \<open>The sweep\<close>

definition spared :: "gc \<Rightarrow> nat \<Rightarrow> bool" where
  "spared g a \<longleftrightarrow> c_sticky (cell_at g a) \<or> c_colour (cell_at g a) \<noteq> WHITE"

text \<open>What the sweep of the objects \<open>us\<close> does.\<close>

definition swept :: "nat list \<Rightarrow> gc \<Rightarrow> gc \<Rightarrow> bool" where
  "swept us g g' \<longleftrightarrow>
    gc_free g' = rev (filter (\<lambda>a. \<not> spared g a) us) @ gc_free g \<and>
    gc_nfree g' = length (filter (\<lambda>a. \<not> spared g a) us) + gc_nfree g \<and>
    length (gc_heap g') = length (gc_heap g) \<and> gc_weak g' = gc_weak g \<and>
    (\<forall>b. c_colour (cell_at g' b) = c_colour (cell_at g b)) \<and>
    (\<forall>b. b \<in> set us \<longrightarrow> \<not> spared g b \<longrightarrow> c_obj (cell_at g' b) = G_none) \<and>
    (\<forall>b. \<not> (b \<in> set us \<and> \<not> spared g b) \<longrightarrow> cell_at g' b = cell_at g b)"

lemma finalizer_run_fields:
  assumes "idio_gc_finalizer_run a g = Inr g'"
  shows "gc_used g' = gc_used g" "gc_free g' = gc_free g" "gc_nfree g' = gc_nfree g" "gc_weak g' = gc_weak g"
    "length (gc_heap g') = length (gc_heap g)" "b \<noteq> a \<Longrightarrow> cell_at g' b = cell_at g b"
    "c_colour (cell_at g' b) = c_colour (cell_at g b)" "c_sticky (cell_at g' b) = c_sticky (cell_at g b)"
  using assms by (auto simp: idio_gc_finalizer_run_def idio_gc_deregister_finalizer_def split: if_splits)

lemma sweep_value_fields:
  assumes "idio_gc_sweep_free_value a g = Inr g'"
  shows "gc_used g' = gc_used g" "gc_free g' = gc_free g" "gc_nfree g' = gc_nfree g" "gc_weak g' = gc_weak g"
    "length (gc_heap g') = length (gc_heap g)" "b \<noteq> a \<Longrightarrow> cell_at g' b = cell_at g b"
    "c_colour (cell_at g' b) = c_colour (cell_at g b)" "c_sticky (cell_at g' b) = c_sticky (cell_at g b)" "live g' a"
proof -
  have "g' = g \<or> idio_gc_finalizer_run a g = Inr g'" and l: "live g' a"
    using assms by (auto simp: idio_gc_sweep_free_value_def live_def split: if_splits)
  then show "gc_used g' = gc_used g" "gc_free g' = gc_free g" "gc_nfree g' = gc_nfree g" "gc_weak g' = gc_weak g"
    "length (gc_heap g') = length (gc_heap g)" "b \<noteq> a \<Longrightarrow> cell_at g' b = cell_at g b"
    "c_colour (cell_at g' b) = c_colour (cell_at g b)" "c_sticky (cell_at g' b) = c_sticky (cell_at g b)"
    by (elim disjE; simp add: finalizer_run_fields)+
  show "live g' a" by (rule l)
qed

definition freed :: "nat \<Rightarrow> gc \<Rightarrow> gc" where
  "freed a g = (set_cell a (\<lambda>c. c\<lparr>c_obj := G_none, c_free := True\<rparr>) g)\<lparr>gc_free := a # gc_free g, gc_nfree := gc_nfree g + 1\<rparr>"

lemma sweep_loop_spared: "spared g a \<Longrightarrow> sweep_loop kept (a # us) g = sweep_loop (kept @ [a]) us g"
  by (auto simp: spared_def Let_def)

lemma sweep_loop_freed:
  "\<not> spared g a \<Longrightarrow> sweep_loop kept (a # us) g =
    bind_result (idio_gc_sweep_free_value a (g\<lparr>gc_used := kept @ us\<rparr>)) (\<lambda>g. sweep_loop kept us (freed a g))"
  by (simp add: spared_def Let_def freed_def)

lemmas sweep_loop_Cons = sweep_loop_spared sweep_loop_freed

lemma freed_simps [simp]:
  "gc_used (freed a g) = gc_used g" "gc_free (freed a g) = a # gc_free g" "gc_nfree (freed a g) = gc_nfree g + 1"
  "gc_weak (freed a g) = gc_weak g" "length (gc_heap (freed a g)) = length (gc_heap g)"
  "gc_finalizer_hash (freed a g) = gc_finalizer_hash g"
  by (simp_all add: freed_def)

lemma freed_cell:
  "cell_at (freed a g) b = (if b = a \<and> a < length (gc_heap g) then (cell_at g a)\<lparr>c_obj := G_none, c_free := True\<rparr> else cell_at g b)"
  by (simp add: freed_def)

lemma sweep_loop_swept:
  assumes "sweep_loop kept us g = Inr g'" "gc_used g = kept @ us" "distinct us"
  shows "swept us g g' \<and> gc_used g' = kept @ filter (spared g) us"
  using assms
proof (induction us arbitrary: kept g)
  case Nil
  then show ?case by (simp add: swept_def)
next
  case (Cons a us)
  show ?case
  proof (cases "spared g a")
    case True
    with Cons.prems have "swept us g g' \<and> gc_used g' = (kept @ [a]) @ filter (spared g) us"
      by (intro Cons.IH) (simp_all add: sweep_loop_Cons del: sweep_loop.simps)
    then show ?thesis using True by (auto simp: swept_def)
  next
    case False
    from Cons.prems(1) False obtain g1 where g1: "idio_gc_sweep_free_value a (g\<lparr>gc_used := kept @ us\<rparr>) = Inr g1"
      "sweep_loop kept us (freed a g1) = Inr g'" by (auto simp: sweep_loop_Cons simp del: sweep_loop.simps)
    note f = sweep_value_fields [OF g1(1), simplified]
    have cell: "b \<noteq> a \<Longrightarrow> cell_at (freed a g1) b = cell_at g b" "c_obj (cell_at (freed a g1) a) = G_none"
      "c_colour (cell_at (freed a g1) b) = c_colour (cell_at g b)" "c_sticky (cell_at (freed a g1) b) = c_sticky (cell_at g b)" for b
      using f(6,7,8) live_bound [OF f(9)] by (simp_all add: freed_cell)
    have sp: "spared (freed a g1) = spared g" using cell(3,4) by (simp add: spared_def fun_eq_iff)
    have "swept us (freed a g1) g' \<and> gc_used g' = kept @ filter (spared g) us"
      using Cons.IH [OF g1(2)] f(1) Cons.prems(3) by (simp add: sp)
    moreover have "a \<notin> set us" using Cons.prems(3) by simp
    moreover have "cell_at (freed a g1) b = cell_at g b" if "spared g b" for b
      using that False by (cases "b = a") (simp_all add: cell(1))
    ultimately show ?thesis using False f(2-5) cell by (auto simp: swept_def sp)
  qed
qed

lemma sweep_loop_runs:
  assumes "gc_finalizer_hash g = idio_S_nil" "distinct us" "\<forall>a \<in> set us. live g a"
  shows "\<exists>g'. sweep_loop kept us g = Inr g'"
  using assms
proof (induction us arbitrary: kept g)
  case (Cons a us)
  let ?g1 = "g\<lparr>gc_used := kept @ us\<rparr>"
  have r: "idio_gc_sweep_free_value a ?g1 = Inr ?g1"
    using Cons.prems by (simp add: idio_gc_sweep_free_value_def idio_gc_finalizer_run_def live_def)
  have "live (freed a ?g1) b" if "b \<in> set us" for b
    using Cons.prems that by (auto simp: live_def freed_cell)
  then have "\<exists>g'. sweep_loop kept us (freed a ?g1) = Inr g'" using Cons.prems by (intro Cons.IH) simp_all
  moreover have "\<exists>g'. sweep_loop (kept @ [a]) us g = Inr g'" using Cons.prems by (intro Cons.IH) simp_all
  ultimately show ?case using r by (cases "spared g a") (simp_all add: sweep_loop_Cons del: sweep_loop.simps)
qed simp

lemma set_tl: "set (tl xs) \<subseteq> set xs"
  by (cases xs) auto

lemma trim_free_fields:
  "gc_used (trim_free n g) = gc_used g" "gc_weak (trim_free n g) = gc_weak g" "gc_heap (trim_free n g) = gc_heap g"
  "gc_finalizer_hash (trim_free n g) = gc_finalizer_hash g" "cell_at (trim_free n g) a = cell_at g a"
  "set (gc_free (trim_free n g)) \<subseteq> set (gc_free g)" "distinct (gc_free g) \<Longrightarrow> distinct (gc_free (trim_free n g))"
  "gc_nfree g = length (gc_free g) \<Longrightarrow> gc_nfree (trim_free n g) = length (gc_free (trim_free n g))"
  by (induction n arbitrary: g) (use set_tl in \<open>fastforce simp: distinct_tl cell_at_def split: if_splits\<close>)+

section \<open>A collection\<close>

lemma request_simps [simp]:
  "live (gc_request_update f g) a = live g a" "is_grey (gc_request_update f g) a = is_grey g a"
  "heap_ok (gc_request_update f g) = heap_ok g"
  by (simp_all add: live_def is_grey_def heap_ok_def)

lemma reach_request [simp]: "reach W (gc_request_update f g) R a = reach W g R a"
proof
  show "reach W (gc_request_update f g) R a \<Longrightarrow> reach W g R a"
    by (induction rule: reach.induct) (auto intro: reach_root reach_step)
  show "reach W g R a \<Longrightarrow> reach W (gc_request_update f g) R a"
    by (induction rule: reach.induct) (auto intro: reach_root reach_step)
qed

abbreviation roots :: "gc \<Rightarrow> idio_value set" where
  "roots g \<equiv> set (gc_roots g) \<union> set (gc_autos g)"

lemma reach_marked:
  assumes t: "tricolour W g1" and e: "gc_grey g1 = []" and c: "\<And>v. v \<in> R \<Longrightarrow> covered g1 v"
    and o: "\<And>b. b \<notin> W \<Longrightarrow> c_obj (cell_at g1 b) = c_obj (cell_at g b)" and l: "\<And>b. live g1 b = live g b"
    and r: "reach W g R a"
  shows "marked g1 a"
  using r
proof (induction rule: reach.induct)
  case (reach_root a)
  then show ?case using c [of "V_pointer a"] l by (simp add: covered_def)
next
  case (reach_step a b)
  have "is_black g1 a" using reach_step.IH t e by (auto simp: marked_iff tricolour_def)
  then have "covered g1 (V_pointer b)" using t reach_step.hyps(2,3) o by (auto simp: tricolour_def contents_held)
  then show ?case using l reach_step.hyps(4) by (simp add: covered_def)
qed

text \<open>What holds when the sweep starts.\<close>

definition ready :: "gc \<Rightarrow> gc \<Rightarrow> bool" where
  "ready g g1 \<longleftrightarrow>
    grows (set (gc_weak g)) (whiten (gc_used g) g) g1 \<and> tricolour (set (gc_weak g)) g1 \<and> gc_grey g1 = [] \<and>
    (\<forall>v \<in> roots g. covered g1 v) \<and>
    (\<forall>t \<in> set (gc_weak g). \<exists>ha. weak_entries g1 t = Some ha \<and> (\<forall>e \<in> set (concat ha). entry_ok g1 e))"

lemma weak_ready:
  assumes t: "tricolour (set (gc_weak g)) g" and d: "distinct (gc_weak g)" and m: "idio_gc_mark_weak g = Inr g1"
  shows "good (set (gc_weak g)) g g1"
    "\<forall>t \<in> set (gc_weak g). \<exists>ha. weak_entries g1 t = Some ha \<and> (\<forall>e \<in> set (concat ha). entry_ok g1 e)"
proof -
  show "good (set (gc_weak g)) g g1" using good_weak [OF t] m by (simp add: good_result_Inr)
  let ?W = "set (gc_weak g)"
  from m obtain a b where ab: "weak_pass1 g = Inr a" "purge_tables (gc_weak a) a = Inr b" "process_all_grey b = Inr g1"
    by (auto simp: idio_gc_mark_weak_def)
  have a: "tricolour ?W a" "gc_weak a = gc_weak g"
    using good_pass1 [OF t] ab(1) by (simp_all add: good_result_Inr good_def grows_def)
  have b: "tricolour ?W b" using good_purge_tables [OF a(1), of "gc_weak a"] ab(2) a(2) by (simp add: good_result_Inr good_def)
  obtain g2 where "process_all_grey b = Inr g2" "advance b g2" using process_all_grey_ends [OF b] by blast
  then have adv: "advance b g1" using ab(3) by simp
  show "\<forall>t \<in> ?W. \<exists>ha. weak_entries g1 t = Some ha \<and> (\<forall>e \<in> set (concat ha). entry_ok g1 e)"
  proof
    fix t
    assume "t \<in> ?W"
    then obtain ha where "weak_entries b t = Some ha" "\<forall>e \<in> set (concat ha). entry_ok b e"
      using purge_tables_entries [OF a(1) _ _ ab(2), of t] a(2) d by auto
    then show "\<exists>ha. weak_entries g1 t = Some ha \<and> (\<forall>e \<in> set (concat ha). entry_ok g1 e)"
      using weak_entries_same [OF same_objects_advance [OF adv]] entry_ok_grows [OF grows_advance [OF adv]] by simp
  qed
qed

lemma whiten_fields:
  "gc_used (whiten us g) = gc_used g" "gc_weak (whiten us g) = gc_weak g" "gc_free (whiten us g) = gc_free g"
  "length (gc_heap (whiten us g)) = length (gc_heap g)" "gc_nfree (whiten us g) = gc_nfree g"
  "live (whiten us g) b = live g b" "c_obj (cell_at (whiten us g) b) = c_obj (cell_at g b)"
  "c_sticky (cell_at (whiten us g) b) = c_sticky (cell_at g b)" "gc_finalizer_hash (whiten us g) = gc_finalizer_hash g"
  using arg_cong [OF whiten_uncoloured [of us g], of gc_nfree]
  by (simp_all add: same_obj [OF whiten_uncoloured] uncoloured_def)

lemma mark_ready:
  assumes ok: "heap_ok g" and m: "idio_gc_mark g = Inr g1"
  shows "ready g g1"
proof -
  let ?w = "whiten (gc_used g) g"
  obtain g' where g': "process_all_grey (mark_list (gc_roots g @ gc_autos g) ?w) = Inr g'" "advance ?w g'"
    "tricolour (set (gc_weak g)) g'" "\<And>v. v \<in> roots g \<Longrightarrow> covered g' v" by (rule mark_roots [OF ok], rule that)
  have "uncoloured g' = uncoloured ?w" using g'(2) by (simp only: advance_def)
  from same_obj(5) [OF this] have weak: "gc_weak g' = gc_weak g" by (simp add: whiten_fields)
  have mw: "idio_gc_mark_weak g' = Inr g1" using m g'(1) by (simp add: idio_gc_mark_eq)
  have "distinct (gc_weak g')" using ok weak by (simp add: heap_ok_def)
  note r = weak_ready [OF _ this mw, unfolded weak, OF g'(3)]
  have gr: "grows (set (gc_weak g)) g' g1" and t: "tricolour (set (gc_weak g)) g1" using r(1) by (simp_all add: good_def)
  have "grows (set (gc_weak g)) ?w g1" using grows_trans [OF grows_advance [OF g'(2)] gr] .
  moreover have "\<forall>v \<in> roots g. covered g1 v" using g'(4) grows_covered [OF gr] by blast
  ultimately show ?thesis using t mark_weak_empty [OF mw] r(2) by (simp add: ready_def)
qed

text \<open>The marks decide about each object.\<close>

definition collected :: "gc \<Rightarrow> gc \<Rightarrow> gc \<Rightarrow> bool" where
  "collected g g1 g' \<longleftrightarrow>
    gc_used g' = filter (spared g1) (gc_used g) \<and> gc_weak g' = gc_weak g \<and> length (gc_heap g') = length (gc_heap g) \<and>
    (\<exists>fs. gc_free g' = rev (filter (\<lambda>a. \<not> spared g1 a) (gc_used g)) @ fs \<and> set fs \<subseteq> set (gc_free g) \<and> distinct fs) \<and>
    gc_nfree g' = length (gc_free g') \<and>
    (\<forall>b. is_grey g' b = is_grey g1 b) \<and>
    (\<forall>b. c_obj (cell_at g' b) = (if b \<in> set (gc_used g) \<and> \<not> spared g1 b then G_none else c_obj (cell_at g1 b)))"

lemma sweep_collected:
  assumes ok: "heap_ok g" and r: "ready g g1" and s: "idio_gc_sweep g1 = Inr g'"
  shows "collected g g1 g'"
proof -
  have f: "gc_used g1 = gc_used g" "gc_weak g1 = gc_weak g" "gc_free g1 = gc_free g" "gc_nfree g1 = gc_nfree g"
    "length (gc_heap g1) = length (gc_heap g)" using r by (simp_all add: ready_def grows_def whiten_fields)
  let ?t = "trim_free (gc_nfree g1) g1"
  have sl: "sweep_loop [] (gc_used g1) ?t = Inr g'"
    using s by (simp add: idio_gc_sweep_def Let_def trim_free_fields)
  have sp: "spared (trim_free n g1) = spared g1" for n by (simp add: spared_def fun_eq_iff trim_free_fields)
  have nf: "gc_nfree ?t = length (gc_free ?t)" "distinct (gc_free ?t)" "set (gc_free ?t) \<subseteq> set (gc_free g)"
    using ok f trim_free_fields(6-8) [where g = g1 and n = "gc_nfree g1"] by (simp_all add: heap_ok_def)
  have "swept (gc_used g) ?t g' \<and> gc_used g' = [] @ filter (spared ?t) (gc_used g)"
    using ok sl by (intro sweep_loop_swept) (simp_all add: trim_free_fields f heap_ok_def)
  then show ?thesis using nf
    by (auto simp: swept_def collected_def sp trim_free_fields f is_grey_def)
qed

lemma collect_phases:
  assumes "gc_pause g = 0" "idio_gc_collect g = Inr g'"
  obtains g1 g2 where "idio_gc_mark (g\<lparr>gc_request := False\<rparr>) = Inr g1" "idio_gc_sweep g1 = Inr g2" "g' = g2\<lparr>gc_igets := 0\<rparr>"
  using assms by (auto simp: idio_gc_collect_def)

lemma live_eq: "heap_ok g \<Longrightarrow> live g a \<longleftrightarrow> a \<in> set (gc_used g) \<or> a \<in> set (gc_weak g)"
  by (auto simp: heap_ok_def)

lemma ready_live: "ready g g1 \<Longrightarrow> live g1 a = live g a"
  by (simp add: ready_def grows_def whiten_fields)

lemma ready_object: "ready g g1 \<Longrightarrow> a \<notin> set (gc_weak g) \<Longrightarrow> c_obj (cell_at g1 a) = c_obj (cell_at g a)"
  by (simp add: ready_def grows_def whiten_fields)

lemma marked_spared: "marked g a \<Longrightarrow> spared g a"
  by (auto simp: marked_def spared_def)

lemma collected_live:
  "collected g g1 g' \<Longrightarrow> live g' a \<longleftrightarrow> live g1 a \<and> (a \<in> set (gc_used g) \<longrightarrow> spared g1 a)"
  by (auto simp: collected_def live_def)

lemma collected_heap_ok:
  assumes ok: "heap_ok g" and r: "ready g g1" and c: "collected g g1 g'"
  shows "heap_ok g'"
proof -
  have "\<not> is_grey g' a" for a using r c by (auto simp: ready_def tricolour_def collected_def)
  moreover have "set (gc_used g') \<union> set (gc_weak g') = {a. live g' a}"
    using live_eq [OF ok] ready_live [OF r] collected_live [OF c] ok c by (auto simp: collected_def heap_ok_def)
  moreover have "distinct (gc_used g' @ gc_weak g' @ gc_free g')"
  proof -
    from c obtain fs where fs: "gc_free g' = rev (filter (\<lambda>a. \<not> spared g1 a) (gc_used g)) @ fs"
      "set fs \<subseteq> set (gc_free g)" "distinct fs" by (auto simp: collected_def)
    have "set fs \<inter> set (gc_used g) = {}" "set fs \<inter> set (gc_weak g) = {}" using fs(2) ok by (auto simp: heap_ok_def)
    then show ?thesis using ok c fs(1,3) by (auto simp: collected_def heap_ok_def)
  qed
  moreover have "set (gc_free g') \<subseteq> set (gc_used g) \<union> set (gc_free g)" using c by (auto simp: collected_def)
  then have "set (gc_free g') \<subseteq> {a. a < length (gc_heap g')}"
    using ok c live_bound live_eq [OF ok] by (auto simp: collected_def heap_ok_def subset_iff)
  ultimately show ?thesis using c by (simp add: heap_ok_def collected_def)
qed

lemma igets_simps [simp]:
  "live (gc_igets_update f g) a = live g a" "is_grey (gc_igets_update f g) a = is_grey g a"
  "heap_ok (gc_igets_update f g) = heap_ok g" "weak_entries (gc_igets_update f g) a = weak_entries g a"
  by (simp_all add: live_def is_grey_def heap_ok_def weak_entries_def)

lemma collect_ready:
  assumes ok: "heap_ok g" and p: "gc_pause g = 0" and c: "idio_gc_collect g = Inr g'"
  obtains g0 g1 g2 where "g0 = g\<lparr>gc_request := False\<rparr>" "heap_ok g0" "ready g0 g1" "collected g0 g1 g2" "g' = g2\<lparr>gc_igets := 0\<rparr>"
proof -
  let ?g0 = "g\<lparr>gc_request := False\<rparr>"
  obtain g1 g2 where g: "idio_gc_mark ?g0 = Inr g1" "idio_gc_sweep g1 = Inr g2" "g' = g2\<lparr>gc_igets := 0\<rparr>"
    by (rule collect_phases [OF p c])
  have ok0: "heap_ok ?g0" using ok by simp
  note r = mark_ready [OF ok0 g(1)]
  from that [OF refl ok0 r sweep_collected [OF ok0 r g(2)] g(3)] show thesis .
qed

lemma heap_ok_collect:
  assumes ok: "heap_ok g" and c: "idio_gc_collect g = Inr g'"
  shows "heap_ok g'"
proof (cases "gc_pause g = 0")
  case True
  obtain g0 g1 g2 where "g0 = g\<lparr>gc_request := False\<rparr>" "heap_ok g0" "ready g0 g1" "collected g0 g1 g2" "g' = g2\<lparr>gc_igets := 0\<rparr>"
    by (rule collect_ready [OF ok True c])
  then show ?thesis using collected_heap_ok [of g0 g1 g2] by simp
qed (use assms in \<open>simp add: idio_gc_collect_def\<close>)

text \<open>What the entries of the weak tables refer to, after a collection, whose keys are objects.\<close>

definition weak_held :: "gc \<Rightarrow> gc \<Rightarrow> idio_value set" where
  "weak_held g g' = {u. \<exists>t \<in> set (gc_weak g). \<exists>ha k v. weak_entries g' t = Some ha \<and> (V_pointer k, v) \<in> set (concat ha) \<and>
    u \<in> {V_pointer k, v}}"

lemma weak_held_covered:
  assumes "heap_ok g0" "ready g0 g1" "collected g0 g1 g2" "v \<in> weak_held g0 g2"
  shows "covered g1 v"
proof -
  obtain t ha k u where t: "t \<in> set (gc_weak g0)" "weak_entries g2 t = Some ha" "(V_pointer k, u) \<in> set (concat ha)" "v \<in> {V_pointer k, u}"
    using assms(4) unfolding weak_held_def by blast
  obtain ha' where ha: "weak_entries g1 t = Some ha'" "\<forall>e \<in> set (concat ha'). entry_ok g1 e"
    using assms(2) t(1) by (auto simp: ready_def)
  have "t \<notin> set (gc_used g0)" using assms(1) t(1) by (auto simp: heap_ok_def)
  then have "ha' = ha" using ha(1) t(2) assms(3) by (simp add: collected_def weak_entries_def)
  then have "entry_ok g1 (V_pointer k, u)" using ha(2) t(3) by blast
  then show ?thesis using t(4) by (auto simp: entry_ok_def covered_def)
qed

text \<open>
  What can be reached is kept as it is, also from such an entry that a weak table keeps; a weak
  table is kept too.
\<close>

lemma reachable_kept:
  assumes ok: "heap_ok g" and c: "idio_gc_collect g = Inr g'" and r: "reach (set (gc_weak g)) g (roots g \<union> weak_held g g') a"
  shows "live g' a \<and> (a \<notin> set (gc_weak g) \<longrightarrow> c_obj (cell_at g' a) = c_obj (cell_at g a))"
proof (cases "gc_pause g = 0")
  case True
  obtain g0 g1 g2 where g: "g0 = g\<lparr>gc_request := False\<rparr>" "heap_ok g0" "ready g0 g1" "collected g0 g1 g2" "g' = g2\<lparr>gc_igets := 0\<rparr>"
    by (rule collect_ready [OF ok True c])
  have "marked g1 a"
  proof (rule reach_marked)
    show "reach (set (gc_weak g)) g (roots g \<union> weak_held g g') a" by (rule r)
    show "tricolour (set (gc_weak g)) g1" "gc_grey g1 = []" using g(1,3) by (simp_all add: ready_def)
    show "covered g1 v" if "v \<in> roots g \<union> weak_held g g'" for v
    proof (cases "v \<in> roots g")
      case False
      then have "v \<in> weak_held g0 g2" using that g(1,5) by (simp add: weak_held_def)
      then show ?thesis by (rule weak_held_covered [OF g(2-4)])
    qed (use g(1,3) in \<open>auto simp: ready_def\<close>)
    show "c_obj (cell_at g1 b) = c_obj (cell_at g b)" if "b \<notin> set (gc_weak g)" for b
      using ready_object [OF g(3)] that g(1) by simp
    show "live g1 b = live g b" for b using ready_live [OF g(3)] g(1) by simp
  qed
  then have sp: "spared g1 a" by (rule marked_spared)
  have "live g2 a" using sp collected_live [OF g(4)] ready_live [OF g(3)] reach_live [OF r] g(1) by simp
  moreover have "c_obj (cell_at g2 a) = c_obj (cell_at g1 a)" using sp g(4) by (simp add: collected_def)
  ultimately show ?thesis using g(1,5) ready_object [OF g(3), of a] by simp
qed (use c reach_live [OF r] in \<open>simp add: idio_gc_collect_def\<close>)

section \<open>Without weak tables\<close>

text \<open>
  The collection then ends and keeps exactly what can be reached, and what is sticky.
\<close>

lemma grey_loop_nil: "gc_grey g = [] \<Longrightarrow> grey_loop n g = Inr g"
  by (cases n) simp_all

lemma mark_weak_nil: "gc_weak g = [] \<Longrightarrow> gc_grey g = [] \<Longrightarrow> idio_gc_mark_weak g = Inr g"
  by (simp add: idio_gc_mark_weak_def weak_pass1_def process_all_grey_def grey_loop_nil)

lemma mark_exact:
  assumes ok: "heap_ok g" and w: "gc_weak g = []"
  obtains g1 where "idio_gc_mark g = Inr g1" "gc_finalizer_hash g1 = gc_finalizer_hash g"
    "\<And>a. live g a \<Longrightarrow> spared g1 a \<longleftrightarrow> reach {} g (roots g) a \<or> c_sticky (cell_at g a)"
proof -
  let ?w = "whiten (gc_used g) g"
  obtain g1 where g1: "process_all_grey (mark_list (gc_roots g @ gc_autos g) ?w) = Inr g1" "advance ?w g1"
    "gc_grey g1 = []" "\<And>a. gc_weak g = [] \<Longrightarrow> marked g1 a \<Longrightarrow> live g a \<Longrightarrow> reach {} g (roots g) a"
    by (rule mark_roots [OF ok], rule that)
  have u: "uncoloured g1 = uncoloured ?w" using g1(2) by (simp only: advance_def)
  have "gc_weak g1 = []" using same_obj(5) [OF u] w by (simp add: whiten_fields)
  then have m: "idio_gc_mark g = Inr g1" using g1(1,3) mark_weak_nil by (simp add: idio_gc_mark_eq)
  have r: "ready g g1" by (rule mark_ready [OF ok m])
  have "spared g1 a \<longleftrightarrow> reach {} g (roots g) a \<or> c_sticky (cell_at g a)" if l: "live g a" for a
  proof -
    have st: "c_sticky (cell_at g1 a) = c_sticky (cell_at g a)" using r by (simp add: ready_def grows_def whiten_fields)
    have "a \<in> set (gc_used g)" using live_eq [OF ok] l w by simp
    then have "c_colour (cell_at ?w a) = WHITE" using l by (simp add: whiten_cell)
    then have "marked g1 a \<or> c_colour (cell_at g1 a) = WHITE" using g1(2) by (metis advance_def)
    then have sp: "spared g1 a \<longleftrightarrow> marked g1 a \<or> c_sticky (cell_at g a)"
      using marked_spared st by (auto simp: spared_def)
    have "marked g1 a \<longleftrightarrow> reach {} g (roots g) a"
    proof
      assume "reach {} g (roots g) a"
      then show "marked g1 a" using r w ready_object [OF r] ready_live [OF r]
        by (intro reach_marked [of "{}" g1 "roots g" g a]) (auto simp: ready_def)
    qed (use g1(4) w l in simp)
    then show ?thesis using sp by simp
  qed
  moreover have "gc_finalizer_hash g1 = gc_finalizer_hash g" using same_obj(9) [OF u] by (simp add: whiten_fields)
  ultimately show thesis using that m by blast
qed

lemma collect_exact:
  assumes ok: "heap_ok g" and w: "gc_weak g = []" and p: "gc_pause g = 0" and f: "gc_finalizer_hash g = idio_S_nil"
  obtains g' where "idio_gc_collect g = Inr g'"
    "\<And>a. live g' a \<longleftrightarrow> live g a \<and> (reach {} g (roots g) a \<or> c_sticky (cell_at g a))"
    "\<And>a. live g' a \<Longrightarrow> c_obj (cell_at g' a) = c_obj (cell_at g a)"
proof -
  let ?g0 = "g\<lparr>gc_request := False\<rparr>"
  have ok0: "heap_ok ?g0" and w0: "gc_weak ?g0 = []" using ok w by simp_all
  obtain g1 where g1: "idio_gc_mark ?g0 = Inr g1" "gc_finalizer_hash g1 = gc_finalizer_hash ?g0"
    "\<And>a. live ?g0 a \<Longrightarrow> spared g1 a \<longleftrightarrow> reach {} ?g0 (roots ?g0) a \<or> c_sticky (cell_at ?g0 a)"
    by (rule mark_exact [OF ok0 w0], rule that)
  note r = mark_ready [OF ok0 g1(1)]
  have u: "gc_used g1 = gc_used g" using r by (simp add: ready_def grows_def whiten_fields)
  have "\<exists>g2. sweep_loop [] (gc_used g1) (trim_free (gc_nfree g1) g1) = Inr g2"
  proof (rule sweep_loop_runs)
    show "gc_finalizer_hash (trim_free (gc_nfree g1) g1) = idio_S_nil" using g1(2) f by (simp add: trim_free_fields)
    show "distinct (gc_used g1)" using ok u by (simp add: heap_ok_def)
    have "live g1 a" if "a \<in> set (gc_used g)" for a using that live_eq [OF ok, of a] ready_live [OF r, of a] by simp
    then show "\<forall>a \<in> set (gc_used g1). live (trim_free (gc_nfree g1) g1) a"
      using u by (simp add: live_def trim_free_fields)
  qed
  then obtain g2 where g2: "idio_gc_sweep g1 = Inr g2" by (auto simp: idio_gc_sweep_def Let_def trim_free_fields)
  note c = sweep_collected [OF ok0 r g2]
  have "idio_gc_collect g = Inr (g2\<lparr>gc_igets := 0\<rparr>)" using p g1(1) g2 by (simp add: idio_gc_collect_def)
  moreover have l: "live g2 a \<longleftrightarrow> live g a \<and> (reach {} g (roots g) a \<or> c_sticky (cell_at g a))" for a
    using collected_live [OF c, of a] ready_live [OF r, of a] live_eq [OF ok, of a] w g1(3) [of a] by auto
  moreover have "c_obj (cell_at g2 a) = c_obj (cell_at g a)" if "live g2 a" for a
  proof -
    have "c_obj (cell_at g2 a) = c_obj (cell_at g1 a)" using that c by (simp add: collected_def live_def split: if_splits)
    then show ?thesis using ready_object [OF r, of a] w by simp
  qed
  ultimately show thesis using that [of "g2\<lparr>gc_igets := 0\<rparr>"] by simp
qed

section \<open>A collection ends\<close>

lemma mark_ends: "heap_ok g \<Longrightarrow> idio_gc_mark g \<noteq> Inl Diverges"
proof -
  assume ok: "heap_ok g"
  let ?w = "whiten (gc_used g) g"
  obtain g' where g': "process_all_grey (mark_list (gc_roots g @ gc_autos g) ?w) = Inr g'" "advance ?w g'"
    "tricolour (set (gc_weak g)) g'" by (rule mark_roots [OF ok], rule that)
  have u: "uncoloured g' = uncoloured ?w" using g'(2) by (simp only: advance_def)
  have "gc_weak g' = gc_weak g" using same_obj(5) [OF u] by (simp add: whiten_fields)
  then have "good_result (set (gc_weak g)) g' (idio_gc_mark_weak g')" using good_weak [of g'] g'(3) by simp
  then show ?thesis using g'(1) by (auto simp: idio_gc_mark_eq good_result_def)
qed

lemma finalizer_run_ends: "idio_gc_finalizer_run a g \<noteq> Inl Diverges"
  by (simp add: idio_gc_finalizer_run_def)

lemma sweep_value_ends: "idio_gc_sweep_free_value a g \<noteq> Inl Diverges"
  using finalizer_run_ends [of a g]
  by (cases "idio_gc_finalizer_run a g") (auto simp: idio_gc_sweep_free_value_def)

lemma sweep_loop_ends: "sweep_loop kept us g \<noteq> Inl Diverges"
proof (induction us arbitrary: kept g)
  case (Cons a us)
  then show ?case using sweep_value_ends [of a "g\<lparr>gc_used := kept @ us\<rparr>"]
    by (cases "spared g a"; cases "idio_gc_sweep_free_value a (g\<lparr>gc_used := kept @ us\<rparr>)")
      (simp_all add: sweep_loop_Cons del: sweep_loop.simps)
qed simp

lemma collect_ends: "heap_ok g \<Longrightarrow> idio_gc_collect g \<noteq> Inl Diverges"
  using mark_ends [of "g\<lparr>gc_request := False\<rparr>"] sweep_loop_ends
  by (cases "idio_gc_mark (g\<lparr>gc_request := False\<rparr>)") (auto simp: idio_gc_collect_def idio_gc_sweep_def Let_def map_result_def split: sum.splits)

end
