(* ===== verification/Gc_Alloc.thy ===== *)
theory Gc_Alloc
  imports Gc_Safe Vm_Frame
begin

text \<open>
  Allocation as an interface: a new object is at an address where there is none, and the
  others stay. The collector's lists and the virtual machine's model, where addresses are
  never used again, both keep to it.
\<close>

section \<open>The interface\<close>

fun alloc_list :: "('o \<Rightarrow> 's \<Rightarrow> nat \<times> 's) \<Rightarrow> 'o list \<Rightarrow> 's \<Rightarrow> nat list \<times> 's" where
  "alloc_list alloc [] s = ([], s)"
| "alloc_list alloc (ob # obs) s =
    (let (a, s) = alloc ob s; (as, s) = alloc_list alloc obs s in (a # as, s))"

lemma map_upds_nth_distinct:
  "distinct xs \<Longrightarrow> length xs = length ys \<Longrightarrow> i < length xs \<Longrightarrow> (m(xs [\<mapsto>] ys)) (xs ! i) = Some (ys ! i)"
proof (induction xs arbitrary: m ys i)
  case (Cons x xs)
  then obtain y ys' where "ys = y # ys'" by (cases ys) auto
  with Cons show ?case by (cases i) (auto simp: in_set_conv_nth)
qed simp

locale allocator =
  fixes alloc :: "'o \<Rightarrow> 's \<Rightarrow> nat \<times> 's" and ok :: "'s \<Rightarrow> bool" and obj :: "'s \<Rightarrow> nat \<Rightarrow> 'o option"
    and valid :: "'o \<Rightarrow> bool"
  assumes alloc_ok: "ok s \<Longrightarrow> valid ob \<Longrightarrow> alloc ob s = (a, s') \<Longrightarrow> ok s'"
    and alloc_fresh: "ok s \<Longrightarrow> valid ob \<Longrightarrow> alloc ob s = (a, s') \<Longrightarrow> obj s a = None"
    and alloc_obj: "ok s \<Longrightarrow> valid ob \<Longrightarrow> alloc ob s = (a, s') \<Longrightarrow> obj s' = (obj s)(a \<mapsto> ob)"
begin

lemma alloc_list_ok:
  "ok s \<Longrightarrow> list_all valid obs \<Longrightarrow> alloc_list alloc obs s = (as, s') \<Longrightarrow>
    ok s' \<and> length as = length obs \<and> distinct as \<and> set as \<inter> dom (obj s) = {} \<and> obj s' = (obj s)(as [\<mapsto>] obs)"
proof (induction obs arbitrary: s as s')
  case (Cons ob obs)
  obtain a s1 where a: "alloc ob s = (a, s1)" by (cases "alloc ob s")
  obtain bs s2 where bs: "alloc_list alloc obs s1 = (bs, s2)" by (cases "alloc_list alloc obs s1")
  have as: "as = a # bs" "s' = s2" using Cons.prems(3) a bs by simp_all
  have v: "valid ob" "list_all valid obs" using Cons.prems(2) by simp_all
  note new = alloc_fresh [OF Cons.prems(1) v(1) a] alloc_obj [OF Cons.prems(1) v(1) a]
  have IH: "ok s2 \<and> length bs = length obs \<and> distinct bs \<and> set bs \<inter> dom (obj s1) = {} \<and> obj s2 = (obj s1)(bs [\<mapsto>] obs)"
    by (rule Cons.IH [OF alloc_ok [OF Cons.prems(1) v(1) a] v(2) bs])
  have "a \<notin> set bs" "set bs \<inter> dom (obj s) = {}" using IH new(2) by auto
  then show ?case using IH new as by auto
qed simp

lemma alloc_list_apart:
  assumes "ok s" "list_all valid obs" "alloc_list alloc obs s = (as, s')"
  shows "distinct as" "set as \<inter> dom (obj s) = {}" "i < length obs \<Longrightarrow> obj s' (as ! i) = Some (obs ! i)"
    "obj s b \<noteq> None \<Longrightarrow> obj s' b = obj s b"
proof -
  note r = alloc_list_ok [OF assms]
  show "distinct as" "set as \<inter> dom (obj s) = {}" using r by simp_all
  have o: "obj s' = (obj s)(as [\<mapsto>] obs)" using r by simp
  show "obj s' (as ! i) = Some (obs ! i)" if "i < length obs"
    using r that o by (simp add: map_upds_nth_distinct)
  show "obj s' b = obj s b" if "obj s b \<noteq> None"
  proof -
    have "b \<notin> set as" using r that by auto
    then show ?thesis by (simp add: o)
  qed
qed

end

section \<open>The collector's lists\<close>

definition obj_of :: "gc \<Rightarrow> nat \<Rightarrow> gobj option" where
  "obj_of g a = (if live g a then Some (c_obj (cell_at g a)) else None)"

text \<open>A list of free objects from which the first is taken.\<close>

lemma cell_at_append: "gc_heap g1 = gc_heap g @ replicate n blank_cell \<Longrightarrow> cell_at g1 a = cell_at g a"
  by (auto simp: cell_at_def blank_cell_def nth_append)

definition obtain_cell :: "gc \<Rightarrow> nat \<times> gc" where
  "obtain_cell g = (case gc_free g of [] \<Rightarrow> idio_gc_get_alloc g | a # free \<Rightarrow> (a, g\<lparr>gc_nfree := gc_nfree g - 1, gc_free := free\<rparr>))"

lemma pool_shape:
  "rev [n..<n + IDIO_GC_ALLOC_POOL] = (n + 999) # rev [n..<n + 999]"
proof -
  have "[n..<n + 1000] = [n..<n + 999] @ [n + 999]" using upt_Suc_append [of n "n + 999"] by (simp add: add.commute)
  then show ?thesis by (simp add: IDIO_GC_ALLOC_POOL_def)
qed

lemma obtain_cell_ok:
  assumes ok: "heap_ok g" and c: "obtain_cell g = (a, g1)"
  shows "a < length (gc_heap g1)" "\<not> live g a" "\<And>b. cell_at g1 b = cell_at g b" "a \<notin> set (gc_free g1)"
    "distinct (gc_free g1)" "set (gc_free g1) \<subseteq> {b. b < length (gc_heap g1) \<and> \<not> live g b}" "gc_nfree g1 = length (gc_free g1)"
    "gc_used g1 = gc_used g" "gc_weak g1 = gc_weak g"
proof -
  have free: "\<not> live g b" if "b \<in> set (gc_free g)" for b using that ok by (auto simp: live_eq heap_ok_def)
  have over: "\<not> live g b" if "length (gc_heap g) \<le> b" for b using that live_bound [of g b] by auto
  have "a < length (gc_heap g1) \<and> \<not> live g a \<and> (\<forall>b. cell_at g1 b = cell_at g b) \<and> a \<notin> set (gc_free g1) \<and>
    distinct (gc_free g1) \<and> set (gc_free g1) \<subseteq> {b. b < length (gc_heap g1) \<and> \<not> live g b} \<and> gc_nfree g1 = length (gc_free g1) \<and>
    gc_used g1 = gc_used g \<and> gc_weak g1 = gc_weak g"
  proof (cases "gc_free g")
    case Nil
    then have "a = length (gc_heap g) + 999"
      "g1 = g\<lparr>gc_request := True, gc_heap := gc_heap g @ replicate 1000 blank_cell, gc_free := rev [length (gc_heap g)..<length (gc_heap g) + 999],
        gc_nfree := gc_nfree g + 999\<rparr>"
      using c by (simp_all add: obtain_cell_def idio_gc_get_alloc_def Let_def pool_shape add.commute)
        (auto simp: IDIO_GC_ALLOC_POOL_def add.commute)
    moreover have "cell_at g1 b = cell_at g b" for b
      using calculation(2) by (intro cell_at_append) simp
    ultimately show ?thesis using over ok Nil by (simp add: heap_ok_def subset_iff)
  next
    case (Cons b free)
    then have "a = b" "g1 = g\<lparr>gc_nfree := gc_nfree g - 1, gc_free := free\<rparr>" using c by (simp_all add: obtain_cell_def)
    then show ?thesis using Cons ok free by (auto simp: heap_ok_def)
  qed
  then show "a < length (gc_heap g1)" "\<not> live g a" "\<And>b. cell_at g1 b = cell_at g b" "a \<notin> set (gc_free g1)"
    "distinct (gc_free g1)" "set (gc_free g1) \<subseteq> {b. b < length (gc_heap g1) \<and> \<not> live g b}" "gc_nfree g1 = length (gc_free g1)"
    "gc_used g1 = gc_used g" "gc_weak g1 = gc_weak g" by simp_all
qed

lemma idio_gc_get_eq:
  "Idio_Gc.idio_gc_get ob g =
    (let (a, g1) = obtain_cell g;
         g2 = (if IDIO_GC_ALLOC_MANY < gc_igets g1 then g1\<lparr>gc_request := True\<rparr> else g1)
     in (a, (set_cell a (\<lambda>_. \<lparr>c_obj = ob, c_colour = WHITE, c_free = False, c_sticky = False, c_finalizer = False\<rparr>)
           (g2\<lparr>gc_igets := gc_igets g2 + 1\<rparr>))\<lparr>gc_used := a # gc_used g2\<rparr>))"
  by (simp add: Idio_Gc.idio_gc_get_def obtain_cell_def Let_def split: list.splits prod.splits)

lemma get_ok:
  assumes ok: "heap_ok g" and ob: "ob \<noteq> G_none" and g: "Idio_Gc.idio_gc_get ob g = (a, g')"
  shows "heap_ok g'" "\<not> live g a" "c_obj (cell_at g' a) = ob" "\<And>b. b \<noteq> a \<Longrightarrow> cell_at g' b = cell_at g b"
proof -
  obtain a1 g1 where c: "obtain_cell g = (a1, g1)" by (cases "obtain_cell g")
  note o = obtain_cell_ok [OF ok c]
  have a: "a1 = a" using g by (simp add: idio_gc_get_eq c Let_def)
  have f: "gc_used g' = a # gc_used g1" "gc_weak g' = gc_weak g1" "gc_free g' = gc_free g1" "gc_nfree g' = gc_nfree g1"
    "length (gc_heap g') = length (gc_heap g1)"
    "\<And>b. cell_at g' b = (if b = a then \<lparr>c_obj = ob, c_colour = WHITE, c_free = False, c_sticky = False, c_finalizer = False\<rparr> else cell_at g1 b)"
    using g o(1) by (auto simp: idio_gc_get_eq c a Let_def split: if_splits)
  show "\<not> live g a" using o(2) a by simp
  show "c_obj (cell_at g' a) = ob" using f(6) by simp
  show cell: "cell_at g' b = cell_at g b" if "b \<noteq> a" for b using that f(6) o(3) by simp
  have l: "live g' b = (b = a \<or> live g b)" for b using f(6) [of b] o(3) ob by (simp add: live_def)
  have u: "a \<notin> set (gc_used g) \<union> set (gc_weak g)" using o(2) a live_eq [OF ok, of a] by simp
  have gr: "is_grey g' b \<longrightarrow> b \<in> set (gc_used g')" for b
    using f(1,6) o(3,8) ok by (auto simp: is_grey_def heap_ok_def)
  have "distinct (gc_used g' @ gc_weak g' @ gc_free g')"
    using ok f(1-3) u o(4-6,8,9) a live_eq [OF ok] by (auto simp: heap_ok_def)
  moreover have "set (gc_used g') \<union> set (gc_weak g') = {b. live g' b}"
    using f(1,2) o(8,9) l live_eq [OF ok] by auto
  ultimately show "heap_ok g'" using f(3-5) o(6,7) gr by (auto simp: heap_ok_def)
qed

interpretation collector: allocator Idio_Gc.idio_gc_get heap_ok obj_of "\<lambda>ob. ob \<noteq> G_none"
proof
  fix g :: gc and ob a g'
  assume g: "heap_ok g" "ob \<noteq> G_none" "Idio_Gc.idio_gc_get ob g = (a, g')"
  note r = get_ok [OF g]
  show "heap_ok g'" by (rule r(1))
  show "obj_of g a = None" using r(2) by (simp add: obj_of_def)
  show "obj_of g' = (obj_of g)(a \<mapsto> ob)" using r(3,4) g(2) by (auto simp: obj_of_def live_def fun_eq_iff)
qed

section \<open>The virtual machine's heap\<close>

definition vm_alloc :: "idio_obj \<Rightarrow> vm \<Rightarrow> nat \<times> vm" where
  "vm_alloc ob s = (case Vm_Frame.idio_gc_get ob s of (Inr (V_pointer a), s) \<Rightarrow> (a, s) | (_, s) \<Rightarrow> (0, s))"

definition vm_unused :: "vm \<Rightarrow> bool" where
  "vm_unused s \<longleftrightarrow> (\<forall>a. vm_next s \<le> a \<longrightarrow> vm_heap s a = None)"

interpretation machine: allocator vm_alloc vm_unused vm_heap "\<lambda>_. True"
  by unfold_locales (auto simp: vm_alloc_def Vm_Frame.idio_gc_get_def vm_unused_def)

section \<open>The life of the heap\<close>

text \<open>
  The states the collector can be in, whatever the program does: allocation, changes of
  objects, roots, weak tables, the switches and collections in any order.
\<close>

inductive gc_run :: "gc \<Rightarrow> bool" where
  run_new: "gc_run idio_gc_obj_new"
| run_get: "gc_run g \<Longrightarrow> ob \<noteq> G_none \<Longrightarrow> Idio_Gc.idio_gc_get ob g = (a, g') \<Longrightarrow> gc_run g'"
| run_write: "gc_run g \<Longrightarrow> live g a \<Longrightarrow> ob \<noteq> G_none \<Longrightarrow> gc_run (set_cell a (c_obj_update (\<lambda>_. ob)) g)"
| run_finalizer: "gc_run g \<Longrightarrow> gc_run (set_cell a (c_finalizer_update (\<lambda>_. fin)) g)"
| run_protect: "gc_run g \<Longrightarrow> gc_run (idio_gc_protect v g)"
| run_protect_auto: "gc_run g \<Longrightarrow> gc_run (idio_gc_protect_auto v g)"
| run_expose: "gc_run g \<Longrightarrow> gc_run (idio_gc_expose v g)"
| run_add_weak: "gc_run g \<Longrightarrow> idio_gc_add_weak_object a g = Inr g' \<Longrightarrow> gc_run g'"
| run_remove_weak: "gc_run g \<Longrightarrow> idio_gc_remove_weak_object a g = Inr g' \<Longrightarrow> gc_run g'"
| run_pause: "gc_run g \<Longrightarrow> gc_run (idio_gc_pause g)"
| run_resume: "gc_run g \<Longrightarrow> gc_run (idio_gc_resume g)"
| run_collect: "gc_run g \<Longrightarrow> idio_gc_collect g = Inr g' \<Longrightarrow> gc_run g'"

definition gc_inv :: "gc \<Rightarrow> bool" where
  "gc_inv g \<longleftrightarrow> heap_ok g \<and> (\<forall>a. \<not> is_grey g a)"

lemma gc_inv_cong:
  assumes "gc_inv g" "\<And>a. live g' a = live g a" "\<And>a. is_grey g' a = is_grey g a" "gc_used g' = gc_used g"
    "gc_weak g' = gc_weak g" "gc_free g' = gc_free g" "gc_nfree g' = gc_nfree g" "length (gc_heap g') = length (gc_heap g)"
  shows "gc_inv g'"
  using assms by (simp add: gc_inv_def heap_ok_def)

lemma gc_inv_get:
  assumes i: "gc_inv g" and ob: "ob \<noteq> G_none" and g: "Idio_Gc.idio_gc_get ob g = (a, g')"
  shows "gc_inv g'"
proof -
  note r = get_ok [OF _ ob g]
  have ok: "heap_ok g" using i by (simp add: gc_inv_def)
  obtain a1 g1 where c: "obtain_cell g = (a1, g1)" by (cases "obtain_cell g")
  have "c_colour (cell_at g' a) = WHITE"
    using g obtain_cell_ok(1) [OF ok c] by (auto simp: idio_gc_get_eq c Let_def)
  then have "\<not> is_grey g' b" for b using r(4) [OF ok, of b] i by (cases "b = a") (simp_all add: gc_inv_def is_grey_def)
  then show ?thesis using r(1) [OF ok] by (simp add: gc_inv_def)
qed

lemma gc_inv_collect: "gc_inv g \<Longrightarrow> idio_gc_collect g = Inr g' \<Longrightarrow> gc_inv g'"
proof (cases "gc_pause g = 0")
  case True
  assume i: "gc_inv g" and c: "idio_gc_collect g = Inr g'"
  then have ok: "heap_ok g" by (simp add: gc_inv_def)
  obtain g0 g1 g2 where "g0 = g\<lparr>gc_request := False\<rparr>" "heap_ok g0" "ready g0 g1" "collected g0 g1 g2" "g' = g2\<lparr>gc_igets := 0\<rparr>"
    by (rule collect_ready [OF ok True c])
  then have "\<not> is_grey g' a" for a by (auto simp: ready_def tricolour_def collected_def)
  then show ?thesis using heap_ok_collect [OF ok c] by (simp add: gc_inv_def)
qed (simp add: idio_gc_collect_def)

lemma gc_run_inv: "gc_run g \<Longrightarrow> gc_inv g"
proof (induction rule: gc_run.induct)
  case run_new
  have "cell_at idio_gc_obj_new a = blank_cell" for a by (simp add: cell_at_def idio_gc_obj_new_def blank_cell_def)
  then show ?case by (simp add: gc_inv_def heap_ok_def live_def is_grey_def) (simp add: blank_cell_def idio_gc_obj_new_def)
next
  case (run_write g a ob)
  then show ?case by (elim gc_inv_cong) (auto simp: live_def is_grey_def)
next
  case (run_finalizer g a fin)
  then show ?case by (elim gc_inv_cong) (auto simp: live_def is_grey_def)
next
  case (run_add_weak g a g')
  then show ?case
    by (auto simp: gc_inv_def heap_ok_def idio_gc_add_weak_object_def live_def is_grey_def split: if_splits)
next
  case (run_remove_weak g a g')
  then show ?case
    by (auto simp: gc_inv_def heap_ok_def idio_gc_remove_weak_object_def live_def is_grey_def split: if_splits)
next
  case (run_get g ob a g')
  then show ?case using gc_inv_get by blast
next
  case (run_collect g g')
  then show ?case using gc_inv_collect by blast
qed (elim gc_inv_cong; simp add: live_def is_grey_def idio_gc_protect_def idio_gc_protect_auto_def idio_gc_expose_def
    idio_gc_pause_def idio_gc_resume_def Let_def)+

section \<open>Weak tables lose entries\<close>

text \<open>
  Three strings and a value, with the first string a root: each of the first two is the key
  of the next. The first pass reaches the second string, the second pass, in the order of
  the table, drops the third string's entry before it marks the third string.
\<close>

definition plain_cell :: "colour \<Rightarrow> gobj \<Rightarrow> cell" where
  "plain_cell col ob = \<lparr>c_obj = ob, c_colour = col, c_free = False, c_sticky = False, c_finalizer = False\<rparr>"

definition weak_sample :: "(idio_value \<times> idio_value) list \<Rightarrow> gc" where
  "weak_sample es = idio_gc_obj_new
     \<lparr>gc_heap := plain_cell BLACK (G_hash False 1 [es] idio_S_nil idio_S_nil) # replicate 4 (plain_cell WHITE G_string),
      gc_used := [1, 2, 3, 4], gc_weak := [0], gc_roots := [V_pointer 1]\<rparr>"

lemma weak_sample_cell:
  "cell_at (weak_sample es) a =
    (if a = 0 then plain_cell BLACK (G_hash False 1 [es] idio_S_nil idio_S_nil)
     else if a < 5 then plain_cell WHITE G_string else blank_cell)"
  by (cases a) (auto simp: cell_at_def weak_sample_def blank_cell_def)

lemma weak_sample_ok: "heap_ok (weak_sample es)"
proof -
  have l: "live (weak_sample es) a \<longleftrightarrow> a < 5" for a by (auto simp: live_def weak_sample_cell plain_cell_def blank_cell_def)
  have g: "\<not> is_grey (weak_sample es) a" for a by (simp add: is_grey_def weak_sample_cell plain_cell_def blank_cell_def)
  have "{a. a < 5} = {0, 1, 2, 3, 4 :: nat}" by auto
  moreover have "gc_used (weak_sample es) = [1, 2, 3, 4]" "gc_weak (weak_sample es) = [0]" "gc_free (weak_sample es) = []"
    "gc_nfree (weak_sample es) = 0" by (simp_all add: weak_sample_def idio_gc_obj_new_def)
  ultimately show ?thesis by (simp add: heap_ok_def l g insert_commute)
qed

definition after :: "gc result \<Rightarrow> (gc \<Rightarrow> 'a) \<Rightarrow> 'a option" where
  "after r f = (case r of Inr g \<Rightarrow> Some (f g) | Inl e \<Rightarrow> None)"

lemma weak_entry_lost:
  "after (idio_gc_collect (weak_sample [(V_pointer 3, V_pointer 4), (V_pointer 2, V_pointer 3), (V_pointer 1, V_pointer 2)]))
     (\<lambda>g. (weak_entries g 0, map (\<lambda>a. c_obj (cell_at g a)) [3, 4])) =
   Some (Some [[(V_pointer 2, V_pointer 3), (V_pointer 1, V_pointer 2)]], [G_string, G_none])"
  by code_simp

text \<open>The value under a key that is no object is not marked: the table refers to a free object.\<close>

lemma weak_value_dangles:
  "after (idio_gc_collect (weak_sample [(V_fixnum 1, V_pointer 4)])) (\<lambda>g. (weak_entries g 0, c_obj (cell_at g 4))) =
   Some (Some [[(V_fixnum 1, V_pointer 4)]], G_none)"
  by code_simp

section \<open>A heap without weak tables\<close>

text \<open>A root that is a pair of a string; another string is not reached.\<close>

definition pair_sample :: gc where
  "pair_sample = idio_gc_obj_new
     \<lparr>gc_heap := [plain_cell WHITE (G_pair (V_pointer 1) idio_S_nil), plain_cell BLACK G_string, plain_cell BLACK G_string],
      gc_used := [2, 0, 1], gc_roots := [V_pointer 0]\<rparr>"

lemma pair_sample_cell:
  "cell_at pair_sample a =
    (if a = 0 then plain_cell WHITE (G_pair (V_pointer 1) idio_S_nil)
     else if a < 3 then plain_cell BLACK G_string else blank_cell)"
  by (cases a; cases "a - 1"; cases "a - 2") (auto simp: cell_at_def pair_sample_def blank_cell_def nth_Cons split: nat.splits)

lemma pair_sample_live: "live pair_sample a \<longleftrightarrow> a < 3"
  by (auto simp: live_def pair_sample_cell plain_cell_def blank_cell_def)

lemma pair_sample_ok: "heap_ok pair_sample"
proof -
  have g: "\<not> is_grey pair_sample a" for a by (simp add: is_grey_def pair_sample_cell plain_cell_def blank_cell_def)
  have "{a. a < 3} = {0, 1, 2 :: nat}" by auto
  moreover have "gc_used pair_sample = [2, 0, 1]" "gc_weak pair_sample = []" "gc_free pair_sample = []" "gc_nfree pair_sample = 0"
    by (simp_all add: pair_sample_def idio_gc_obj_new_def)
  ultimately show ?thesis by (simp add: heap_ok_def pair_sample_live g insert_commute)
qed

lemma pair_sample_reach:
  "live pair_sample 0 \<and> reach {} pair_sample (roots pair_sample) 0"
  "live pair_sample 1 \<and> reach {} pair_sample (roots pair_sample) 1"
  "\<not> (reach {} pair_sample (roots pair_sample) 2 \<or> c_sticky (cell_at pair_sample 2))"
proof -
  have r: "roots pair_sample = {V_pointer 0}" by (simp add: pair_sample_def idio_gc_obj_new_def)
  have z: "reach {} pair_sample (roots pair_sample) 0" by (rule reach_root) (simp_all add: r pair_sample_live)
  show "live pair_sample 0 \<and> reach {} pair_sample (roots pair_sample) 0" using z by (simp add: pair_sample_live)
  have "reach {} pair_sample (roots pair_sample) 1"
    by (rule reach_step [OF z]) (simp_all add: pair_sample_cell pair_sample_live plain_cell_def contents_def)
  then show "live pair_sample 1 \<and> reach {} pair_sample (roots pair_sample) 1" by (simp add: pair_sample_live)
  have "a < 2" if "reach {} pair_sample (roots pair_sample) a" for a
    using that by (induction rule: reach.induct)
      (auto simp: r pair_sample_cell plain_cell_def contents_def blank_cell_def split: if_splits)
  then show "\<not> (reach {} pair_sample (roots pair_sample) 2 \<or> c_sticky (cell_at pair_sample 2))"
    by (auto simp: pair_sample_cell plain_cell_def)
qed

end
