(* ===== verification/Idio_String.thy ===== *)
theory Idio_String
  imports Idio_Array
begin

text \<open>
  Unicode text (\<^verbatim>\<open>src/src/unicode.c\<close>, \<^verbatim>\<open>src/src/string.c\<close>): the UTF-8 decoder and encoder,
  strings with one, two or four bytes for each code point, and substrings.

  A buffer is the list of its units. Of a string's bytes the count is kept, as \<^verbatim>\<open>blen\<close>. A
  write past the memory that was allocated is an error of the model.
\<close>

unbundle bit_operations_syntax

section \<open>The UTF-8 decoder\<close>

definition idio_utf8d :: "nat list" where
  "idio_utf8d =
   [0,0,0,0,0,0,0,0,0,0,0,0,0,0,0,0, 0,0,0,0,0,0,0,0,0,0,0,0,0,0,0,0,
    0,0,0,0,0,0,0,0,0,0,0,0,0,0,0,0, 0,0,0,0,0,0,0,0,0,0,0,0,0,0,0,0,
    0,0,0,0,0,0,0,0,0,0,0,0,0,0,0,0, 0,0,0,0,0,0,0,0,0,0,0,0,0,0,0,0,
    0,0,0,0,0,0,0,0,0,0,0,0,0,0,0,0, 0,0,0,0,0,0,0,0,0,0,0,0,0,0,0,0,
    1,1,1,1,1,1,1,1,1,1,1,1,1,1,1,1, 9,9,9,9,9,9,9,9,9,9,9,9,9,9,9,9,
    7,7,7,7,7,7,7,7,7,7,7,7,7,7,7,7, 7,7,7,7,7,7,7,7,7,7,7,7,7,7,7,7,
    8,8,2,2,2,2,2,2,2,2,2,2,2,2,2,2, 2,2,2,2,2,2,2,2,2,2,2,2,2,2,2,2,
    10,3,3,3,3,3,3,3,3,3,3,3,3,4,3,3, 11,6,6,6,5,8,8,8,8,8,8,8,8,8,8,8,
    0,12,24,36,60,96,84,12,12,12,48,72, 12,12,12,12,12,12,12,12,12,12,12,12,
    12,0,12,12,12,12,12,0,12,0,12,12, 12,24,12,12,12,12,12,24,12,24,12,12,
    12,12,12,12,12,12,12,24,12,12,12,12, 12,24,12,12,12,12,12,12,12,24,12,12,
    12,12,12,12,12,12,12,36,12,36,12,12, 12,36,12,12,12,12,12,36,12,36,12,12,
    12,36,12,12,12,12,12,12,12,12,12,12]"

definition IDIO_UTF8_ACCEPT :: nat where "IDIO_UTF8_ACCEPT = 0"
definition IDIO_UTF8_REJECT :: nat where "IDIO_UTF8_REJECT = 12"

definition idio_utf8_decode :: "nat \<Rightarrow> nat \<Rightarrow> nat \<Rightarrow> nat \<times> nat" where
  "idio_utf8_decode state codep b =
    (let type = idio_utf8d ! b;
         codep = (if state \<noteq> IDIO_UTF8_ACCEPT then (b AND 0x3f) OR push_bit 6 codep
                  else drop_bit type 0xff AND b)
     in (idio_utf8d ! (256 + state + type), codep))"

text \<open>
  The inner loop of the functions that read UTF-8: the bytes of one code point. When the
  bytes end in the middle, the code point is what was read so far.
\<close>

fun decode_one :: "nat \<Rightarrow> nat \<Rightarrow> nat list \<Rightarrow> nat \<times> nat \<times> nat list" where
  "decode_one state codepoint [] = (state, codepoint, [])"
| "decode_one state codepoint (b # bs) =
    (let (state, codepoint) = idio_utf8_decode state codepoint b
     in if state = IDIO_UTF8_ACCEPT then (state, codepoint, bs)
        else if state = IDIO_UTF8_REJECT then (state, 0xFFFD, bs)
        else decode_one state codepoint bs)"

lemma decode_one_shorter: "length (snd (snd (decode_one state codepoint bs))) \<le> length bs"
proof (induction bs arbitrary: state codepoint)
  case (Cons b bs)
  show ?case using Cons [of "fst (idio_utf8_decode state codepoint b)" "snd (idio_utf8_decode state codepoint b)"]
    by (cases "idio_utf8_decode state codepoint b") (simp add: Let_def)
qed simp

lemma decode_one_less: "decode_one state codepoint (b # bs) = (state', codepoint', rest) \<Longrightarrow> length rest < length (b # bs)"
  using decode_one_shorter [of "fst (idio_utf8_decode state codepoint b)" "snd (idio_utf8_decode state codepoint b)" bs]
  by (auto simp: Let_def split: prod.splits if_splits)

text \<open>The outer loop, for each code point from the state \<^verbatim>\<open>IDIO_UTF8_ACCEPT\<close>.\<close>

function decode_all :: "nat \<Rightarrow> nat list \<Rightarrow> nat list" where
  "decode_all codepoint [] = []"
| "decode_all codepoint (b # bs) =
    (case decode_one IDIO_UTF8_ACCEPT codepoint (b # bs) of (state, codepoint, rest) \<Rightarrow>
      codepoint # decode_all codepoint rest)"
  by pat_completeness auto

termination
  by (relation "measure (\<lambda>(c, bs). length bs)") (auto simp del: decode_one.simps dest!: decode_one_less [OF sym])

text \<open>As \<open>decode_all\<close>, but the state goes on from one code point to the next.\<close>

function decode_on :: "nat \<Rightarrow> nat \<Rightarrow> nat list \<Rightarrow> nat list" where
  "decode_on state codepoint [] = []"
| "decode_on state codepoint (b # bs) =
    (case decode_one state codepoint (b # bs) of (state, codepoint, rest) \<Rightarrow>
      codepoint # decode_on state codepoint rest)"
  by pat_completeness auto

termination
proof (relation "measure (\<lambda>(s, c, bs). length bs)")
  fix state codepoint b bs state' y codepoint' rest
  assume "(state', y) = decode_one state codepoint (b # bs)" "(codepoint', rest) = y"
  then have "decode_one state codepoint (b # bs) = (state', codepoint', rest)" by (simp del: decode_one.simps)
  from decode_one_less [OF this]
  show "((state', codepoint', rest), state, codepoint, b # bs) \<in> measure (\<lambda>(s, c, bs). length bs)" by simp
qed simp

section \<open>Code points\<close>

definition idio_unicode_valid_code_point :: "nat \<Rightarrow> bool" where
  "idio_unicode_valid_code_point cp \<longleftrightarrow> \<not> (0x10FFFF < cp)"

definition idio_unicode_character_code_point :: "nat \<Rightarrow> bool" where
  "idio_unicode_character_code_point cp \<longleftrightarrow>
    \<not> (\<not> idio_unicode_valid_code_point cp \<or> (0xFDD0 \<le> cp \<and> cp \<le> 0xFDEF) \<or> (0xD800 \<le> cp \<and> cp \<le> 0xDFFF) \<or>
       cp AND 0xFFFF = 0xFFFE \<or> cp AND 0xFFFF = 0xFFFF)"

definition idio_utf8_code_point :: "nat \<Rightarrow> nat list result" where
  "idio_utf8_code_point c =
    (if idio_unicode_valid_code_point c
     then Inr
       (if 0x10000 \<le> c then
          [0xf0 OR drop_bit 18 (c AND push_bit 18 0x07), 0x80 OR drop_bit 12 (c AND push_bit 12 0x3f),
           0x80 OR drop_bit 6 (c AND push_bit 6 0x3f), 0x80 OR (c AND 0x3f)]
        else if 0x0800 \<le> c then
          [0xe0 OR drop_bit 12 (c AND push_bit 12 0x0f), 0x80 OR drop_bit 6 (c AND push_bit 6 0x3f), 0x80 OR (c AND 0x3f)]
        else if 0x0080 \<le> c then [0xc0 OR drop_bit 6 (c AND push_bit 6 0x1f), 0x80 OR (c AND 0x3f)]
        else [c AND 0x7f])
     else Inl (Param_value_error ''idio_utf8_code_point'' ''Unicode code point''))"

section \<open>Strings\<close>

datatype string_flag =
    FLAG_1BYTE | FLAG_2BYTE | FLAG_4BYTE | FLAG_OCTET | FLAG_PATHNAME | FLAG_FD_PATHNAME | FLAG_FIFO_PATHNAME

record idio_string =
  str_const :: bool
  str_blen :: nat
  str_len :: nat
  str_flags :: string_flag
  str_s :: "nat list"

text \<open>
  A substring has its parent, the offset of its units in the parent's and a length. The
  parent of a model's substring is a value; a change through the substring comes back in it.
\<close>

datatype str = String idio_string | Substring idio_string nat nat

definition flag_width :: "string_flag \<Rightarrow> nat" where
  "flag_width fl = (case fl of FLAG_2BYTE \<Rightarrow> 2 | FLAG_4BYTE \<Rightarrow> 4 | _ \<Rightarrow> 1)"

definition parent_string :: "str \<Rightarrow> idio_string" where
  "parent_string s = (case s of String p \<Rightarrow> p | Substring p off len \<Rightarrow> p)"

definition idio_string_storage_size :: "str \<Rightarrow> nat" where
  "idio_string_storage_size s = flag_width (str_flags (parent_string s))"

definition idio_string_len :: "str \<Rightarrow> nat" where
  "idio_string_len s = (case s of String p \<Rightarrow> str_len p | Substring p off len \<Rightarrow> len)"

definition offset_of :: "str \<Rightarrow> nat" where
  "offset_of s = (case s of String p \<Rightarrow> 0 | Substring p off len \<Rightarrow> off)"

text \<open>The code points: the units from the string's start.\<close>

definition codes :: "str \<Rightarrow> nat list" where
  "codes s = take (idio_string_len s) (drop (offset_of s) (str_s (parent_string s)))"

definition widen :: "string_flag \<Rightarrow> nat \<Rightarrow> string_flag" where
  "widen fl codepoint =
    (if 0xffff < codepoint then FLAG_4BYTE
     else if 0xff < codepoint \<and> fl = FLAG_1BYTE then FLAG_2BYTE
     else fl)"

text \<open>A code point stored in a unit of the width is cut to its bits.\<close>

definition stored :: "string_flag \<Rightarrow> nat list \<Rightarrow> nat list" where
  "stored fl cps = map (take_bit (8 * flag_width fl)) cps"

text \<open>
  \<^verbatim>\<open>idio_string_C_len\<close> reads the bytes twice, once to find the width; the variable
  \<^verbatim>\<open>codepoint\<close> has no value at first.
\<close>

definition idio_string_C_len :: "nat \<Rightarrow> nat list \<Rightarrow> idio_string" where
  "idio_string_C_len codepoint bs =
    (let cps = decode_all codepoint bs; fl = fold (\<lambda>c fl. widen fl c) cps FLAG_1BYTE; cp_count = length cps
     in \<lparr>str_const = False, str_blen = cp_count * flag_width fl, str_len = cp_count, str_flags = fl, str_s = stored fl cps\<rparr>)"

definition idio_octet_string_C_len :: "nat list \<Rightarrow> idio_string" where
  "idio_octet_string_C_len bs =
    \<lparr>str_const = False, str_blen = length bs, str_len = length bs, str_flags = FLAG_OCTET, str_s = bs\<rparr>"

text \<open>
  \<^verbatim>\<open>idio_string_C_array_lens\<close>: the state is reset for each code point when they are
  counted, but for each string when they are stored.
\<close>

definition idio_string_C_array_lens :: "nat \<Rightarrow> nat list list \<Rightarrow> idio_string result" where
  "idio_string_C_array_lens codepoint bss =
    (let cps = concat (map (decode_all codepoint) bss); fl = fold (\<lambda>c fl. widen fl c) cps FLAG_1BYTE;
         reqd_bytes = length cps * flag_width fl;
         cps = concat (map (decode_on IDIO_UTF8_ACCEPT codepoint) bss)
     in if reqd_bytes + 1 < length cps * flag_width fl then Inl Segmentation_fault
        else Inr \<lparr>str_const = False, str_blen = reqd_bytes, str_len = length cps, str_flags = fl, str_s = stored fl cps\<rparr>)"

section \<open>Printing a string\<close>

definition is_octet :: "string_flag \<Rightarrow> bool" where "is_octet fl \<longleftrightarrow> fl = FLAG_OCTET"
definition is_pathname :: "string_flag \<Rightarrow> bool" where
  "is_pathname fl \<longleftrightarrow> fl = FLAG_PATHNAME \<or> fl = FLAG_FD_PATHNAME \<or> fl = FLAG_FIFO_PATHNAME"

text \<open>The letter of C's escape for a control character, a quote or a backslash.\<close>

definition escape_letter :: "nat \<Rightarrow> nat option" where
  "escape_letter c =
    (if c = 7 then Some 97 else if c = 8 then Some 98 else if c = 27 then Some 101 else if c = 12 then Some 102
     else if c = 10 then Some 110 else if c = 13 then Some 114 else if c = 9 then Some 116 else if c = 11 then Some 118
     else if c = 34 then Some 34 else if c = 92 then Some 92 else None)"

definition hex_escape :: "(nat \<Rightarrow> bool) \<Rightarrow> string_flag \<Rightarrow> nat \<Rightarrow> bool" where
  "hex_escape isprint fl c \<longleftrightarrow> ((is_pathname fl \<or> is_octet fl) \<and> \<not> isprint c) \<or> c < 0x20"

definition idio_HEX_digits :: "nat list" where
  "idio_HEX_digits = [48, 49, 50, 51, 52, 53, 54, 55, 56, 57, 65, 66, 67, 68, 69, 70]"

text \<open>The bytes that are reserved for a code point, then those that are written.\<close>

definition code_size :: "(nat \<Rightarrow> bool) \<Rightarrow> bool \<Rightarrow> string_flag \<Rightarrow> nat \<Rightarrow> nat" where
  "code_size isprint escapes fl c =
    (if 0x10000 \<le> c then 4 else if 0x0800 \<le> c then 3 else if 0x0080 \<le> c then 2 else 1) +
    (if escapes then (case escape_letter c of Some _ \<Rightarrow> 1 | None \<Rightarrow> if hex_escape isprint fl c then 3 else 0) else 0)"

definition code_bytes :: "(nat \<Rightarrow> bool) \<Rightarrow> bool \<Rightarrow> string_flag \<Rightarrow> nat \<Rightarrow> nat list result" where
  "code_bytes isprint escapes fl c =
    (if escapes \<and> escape_letter c \<noteq> None then Inr [92, the (escape_letter c)]
     else if escapes \<and> hex_escape isprint fl c
     then Inr [92, 120, idio_HEX_digits ! drop_bit 4 (c AND 0xf0), idio_HEX_digits ! (c AND 0x0f)]
     else if is_pathname fl \<or> is_octet fl then Inr [take_bit 8 c]
     else idio_utf8_code_point c)"

definition quote_prefix :: "string_flag \<Rightarrow> nat list" where
  "quote_prefix fl =
    (if is_pathname fl then [37, 80] @ (if fl = FLAG_FIFO_PATHNAME then [70] else [])
     else if is_octet fl then [37, 66] else []) @ [34]"

fun concat_results :: "'a list result list \<Rightarrow> 'a list result" where
  "concat_results [] = Inr []"
| "concat_results (r # rs) = bind_result r (\<lambda>xs. map_result (\<lambda>ys. xs @ ys) (concat_results rs))"

text \<open>
  \<^verbatim>\<open>idio_utf8_string\<close>, where \<open>prec\<close> is the print conversion precision, or 0. The last byte is
  a zero that is not counted.
\<close>

definition idio_utf8_string :: "(nat \<Rightarrow> bool) \<Rightarrow> int \<Rightarrow> str \<Rightarrow> bool \<Rightarrow> bool \<Rightarrow> nat list result" where
  "idio_utf8_string isprint prec s escapes quoted =
    (let fl = str_flags (parent_string s);
         len = (if 0 < prec \<and> prec < int (idio_string_len s) then nat prec else idio_string_len s);
         cs = take len (codes s);
         n = sum_list (map (code_size isprint escapes fl) cs);
         bytes = n + 1 + (if quoted then 2 + (if is_pathname fl \<or> is_octet fl then 2 else 0) +
           (if fl = FLAG_FIFO_PATHNAME then 1 else 0) else 0)
     in bind_result (concat_results (map (code_bytes isprint escapes fl) cs)) (\<lambda>body.
        let r = (if quoted then quote_prefix fl else []) @ body @ (if quoted then [34] else [])
        in if bytes < length r + 1 then Inl Segmentation_fault else Inr r))"

text \<open>\<^verbatim>\<open>idio_string_as_C\<close>\<close>

definition idio_string_as_C :: "(nat \<Rightarrow> bool) \<Rightarrow> int \<Rightarrow> str \<Rightarrow> nat list result" where
  "idio_string_as_C isprint prec s = idio_utf8_string isprint prec s False False"

section \<open>Operations\<close>

text \<open>The bytes are counted in 64 bits, the code points that are written are not.\<close>

definition make_string :: "'c idio_num \<Rightarrow> nat option \<Rightarrow> idio_string comp" where
  "make_string sz fill =
    bind_comp (index_value sz) (\<lambda>cp_count.
      if cp_count < 0 then raise (String_error ''invalid'')
      else if \<not> (case fill of None \<Rightarrow> True | Some fillc \<Rightarrow> idio_unicode_valid_code_point fillc)
      then raise (Param_value_error ''make-string'' ''code point'')
      else let fillc = (case fill of None \<Rightarrow> 32 | Some fillc \<Rightarrow> fillc);
          fl = (if 0xffff < fillc then FLAG_4BYTE else if 0xff < fillc then FLAG_2BYTE else FLAG_1BYTE);
          reqd_bytes = nat cp_count * flag_width fl mod 18446744073709551616
        in if (reqd_bytes + 1) mod 18446744073709551616 < nat cp_count * flag_width fl then raise Segmentation_fault
           else ret \<lparr>str_const = False, str_blen = reqd_bytes, str_len = nat cp_count, str_flags = fl,
             str_s = stored fl (replicate (nat cp_count) fillc)\<rparr>)"

definition idio_substring_offset_len :: "str \<Rightarrow> nat \<Rightarrow> nat \<Rightarrow> str result" where
  "idio_substring_offset_len s offset len =
    (case s of
       Substring p ss_offset slen \<Rightarrow>
         if str_len p < offset then Inl (String_error ''starts beyond parent string'')
         else if str_len p < ss_offset + offset + len then Inl (String_error ''extends beyond parent substring'')
         else Inr (Substring p (ss_offset + offset) len)
     | String p \<Rightarrow>
         if str_len p < offset then Inl (String_error ''starts beyond parent string'')
         else if str_len p < offset + len then Inl (String_error ''extends beyond parent string'')
         else Inr (Substring p offset len))"

text \<open>A copy of a substring is another substring of the same parent.\<close>

definition idio_copy_string :: "str \<Rightarrow> str result" where
  "idio_copy_string s =
    (case s of
       String p \<Rightarrow> Inr (String (p\<lparr>str_const := False\<rparr>))
     | Substring p off len \<Rightarrow> idio_substring_offset_len (String p) off len)"

text \<open>An index from the end is allowed for, within the string.\<close>

definition from_end :: "int \<Rightarrow> nat \<Rightarrow> int" where
  "from_end i slen = (if i < 0 \<and> 0 \<le> i + int slen then i + int slen else i)"

definition idio_string_ref_C :: "str \<Rightarrow> int \<Rightarrow> nat result" where
  "idio_string_ref_C s i =
    (let i = from_end i (idio_string_len s)
     in if i < 0 \<or> int (idio_string_len s) \<le> i then Inl (String_error ''out of bounds'')
        else Inr (str_s (parent_string s) ! (offset_of s + nat i)))"

definition idio_string_ref :: "str \<Rightarrow> 'c idio_num \<Rightarrow> nat comp" where
  "idio_string_ref s index = bind_comp (index_value index) (\<lambda>i. Some (idio_string_ref_C s i))"

definition update_string :: "(idio_string \<Rightarrow> idio_string) \<Rightarrow> str \<Rightarrow> str" where
  "update_string f s = (case s of String p \<Rightarrow> String (f p) | Substring p off len \<Rightarrow> Substring (f p) off len)"

text \<open>The flag of a constant is the string's own: a substring has none.\<close>

definition const_string :: "str \<Rightarrow> bool" where
  "const_string s = (case s of String p \<Rightarrow> str_const p | Substring _ _ _ \<Rightarrow> False)"

definition idio_string_set_C :: "str \<Rightarrow> int \<Rightarrow> nat \<Rightarrow> str result" where
  "idio_string_set_C s i uc =
    (if \<not> idio_unicode_valid_code_point uc then Inl (Param_value_error ''string-set!'' ''code point'')
     else let cwidth = (if uc \<le> 0xff then 1 else if uc \<le> 0xffff then 2 else 4); slen = idio_string_len s
       in if idio_string_storage_size s < cwidth then Inl (String_error ''replacement char too wide'')
          else let i = from_end i slen
            in if i < 0 \<or> int slen \<le> i then Inl (String_error ''out of bounds'')
               else Inr (update_string (\<lambda>p. p\<lparr>str_s := (str_s p)[offset_of s + nat i := take_bit (8 * flag_width (str_flags p)) uc]\<rparr>) s))"

definition idio_string_set :: "str \<Rightarrow> 'c idio_num \<Rightarrow> nat \<Rightarrow> str comp" where
  "idio_string_set s index uc =
    (if const_string s then raise (Const_param_error ''string'')
     else bind_comp (index_value index) (\<lambda>i. Some (idio_string_set_C s i uc)))"

definition string_fill :: "str \<Rightarrow> nat \<Rightarrow> str result" where
  "string_fill s uc =
    (if const_string s then Inl (Const_param_error ''string'')
     else fold_result (\<lambda>i s. idio_string_set_C s (int i) uc) [0..<idio_string_len s] s)"

definition substring_C :: "str \<Rightarrow> int \<Rightarrow> int \<Rightarrow> str result" where
  "substring_C s ip0 ipn =
    (let l = int (idio_string_len s); ip0 = (if ip0 < 0 then ip0 + l else ip0); ipn = (if ipn < 0 then ipn + l else ipn)
     in if ip0 < 0 \<or> l < ip0 \<or> ipn < 0 \<or> l < ipn \<or> ipn < ip0 then Inl (String_error ''out of bounds'')
        else if ipn - ip0 \<noteq> 0 then idio_substring_offset_len s (nat ip0) (nat (ipn - ip0))
        else Inr (String (idio_string_C_len 0 [])))"

definition substring :: "str \<Rightarrow> 'c idio_num \<Rightarrow> 'c idio_num option \<Rightarrow> str comp" where
  "substring s p0 pn =
    bind_comp (index_value p0) (\<lambda>ip0.
    bind_comp (case pn of None \<Rightarrow> ret (int (idio_string_len s)) | Some n \<Rightarrow> index_value n) (\<lambda>ipn.
      Some (substring_C s ip0 ipn)))"

fun index_loop :: "str \<Rightarrow> nat \<Rightarrow> bool \<Rightarrow> nat list \<Rightarrow> nat option result" where
  "index_loop s c backwards [] = Inr None"
| "index_loop s c backwards (i # is) =
    (let index = (if backwards then idio_string_len s - 1 - i else i)
     in bind_result (idio_string_ref_C s (int index)) (\<lambda>sc.
       if sc = c then Inr (Some index) else index_loop s c backwards is))"

definition idio_string_index :: "str \<Rightarrow> nat \<Rightarrow> bool \<Rightarrow> nat option result" where
  "idio_string_index s c backwards = index_loop s c backwards [0..<idio_string_len s]"

fun equal_units :: "str \<Rightarrow> str \<Rightarrow> nat list \<Rightarrow> bool" where
  "equal_units s1 s2 [] = True"
| "equal_units s1 s2 (i # is) =
    (if str_s (parent_string s1) ! (offset_of s1 + i) \<noteq> str_s (parent_string s2) ! (offset_of s2 + i) then False
     else equal_units s1 s2 is)"

definition idio_string_equal :: "str \<Rightarrow> str \<Rightarrow> bool" where
  "idio_string_equal s1 s2 =
    (if idio_string_len s1 \<noteq> idio_string_len s2 then False else equal_units s1 s2 [0..<idio_string_len s1])"

definition string2octet_string :: "(nat \<Rightarrow> bool) \<Rightarrow> int \<Rightarrow> str \<Rightarrow> str result" where
  "string2octet_string isprint prec s =
    map_result (\<lambda>bs. String (idio_octet_string_C_len bs)) (idio_string_as_C isprint prec s)"

definition octet_string2string :: "nat \<Rightarrow> str \<Rightarrow> str result" where
  "octet_string2string codepoint s =
    (if is_octet (str_flags (parent_string s)) then Inr (String (idio_string_C_len codepoint (codes s)))
     else Inl (Param_type_error ''octet_string''))"

end
