(* ===== verification/String_Props.thy ===== *)
theory String_Props
  imports Idio_String
begin

text \<open>
  UTF-8 is decoded to the code points it was encoded from, every string that is made is
  well formed, and the operations on strings are those on sequences of code points.
\<close>

section \<open>The tables\<close>

definition byte_class :: "nat \<Rightarrow> nat" where
  "byte_class b =
    (if b < 128 then 0 else if b < 144 then 1 else if b < 160 then 9 else if b < 192 then 7 else if b < 194 then 8
     else if b < 224 then 2 else if b < 225 then 10 else if b < 237 then 3 else if b < 238 then 4 else if b < 240 then 3
     else if b < 241 then 11 else if b < 244 then 6 else if b < 245 then 5 else 8)"

definition next_state :: "nat \<Rightarrow> nat \<Rightarrow> nat" where
  "next_state s b =
    (if s = 24 then (if 128 \<le> b \<and> b < 192 then 0 else 12)
     else if s = 36 then (if 128 \<le> b \<and> b < 192 then 24 else 12)
     else if s = 48 then (if 160 \<le> b \<and> b < 192 then 24 else 12)
     else if s = 60 then (if 128 \<le> b \<and> b < 160 then 24 else 12)
     else if s = 72 then (if 144 \<le> b \<and> b < 192 then 36 else 12)
     else if s = 84 then (if 128 \<le> b \<and> b < 192 then 36 else 12)
     else if s = 96 then (if 128 \<le> b \<and> b < 144 then 36 else 12)
     else 12)"

definition lead_state :: "nat \<Rightarrow> nat" where
  "lead_state b =
    (if b < 128 then 0 else if 194 \<le> b \<and> b < 224 then 24 else if b = 224 then 48 else if b = 237 then 60
     else if 225 \<le> b \<and> b < 240 then 36 else if b = 240 then 72 else if 241 \<le> b \<and> b < 244 then 84
     else if b = 244 then 96 else 12)"

definition lead_value :: "nat \<Rightarrow> nat" where
  "lead_value b = (if b < 128 then b else if b < 224 then b - 192 else if b < 240 then b - 224 else b - 240)"

definition transitions :: "nat list" where
  "transitions =
   [0,12,24,36,60,96,84,12,12,12,48,72, 12,12,12,12,12,12,12,12,12,12,12,12,
    12,0,12,12,12,12,12,0,12,0,12,12, 12,24,12,12,12,12,12,24,12,24,12,12,
    12,12,12,12,12,12,12,24,12,12,12,12, 12,24,12,12,12,12,12,12,12,24,12,12,
    12,12,12,12,12,12,12,36,12,36,12,12, 12,36,12,12,12,12,12,36,12,36,12,12,
    12,36,12,12,12,12,12,12,12,12,12,12]"

lemma replicate_rows:
  "replicate 16 x = [x,x,x,x,x,x,x,x,x,x,x,x,x,x,x,x]" "replicate 14 x = [x,x,x,x,x,x,x,x,x,x,x,x,x,x]"
  "replicate 12 x = [x,x,x,x,x,x,x,x,x,x,x,x]" "replicate 11 x = [x,x,x,x,x,x,x,x,x,x,x]"
  "replicate 3 x = [x,x,x]" "replicate 2 x = [x,x]"
  by (simp_all add: eval_nat_numeral)

lemma replicate_blocks:
  "replicate 128 x = replicate 16 x @ replicate 16 x @ replicate 16 x @ replicate 16 x @
     replicate 16 x @ replicate 16 x @ replicate 16 x @ replicate 16 x"
  "replicate 32 x = replicate 16 x @ replicate 16 x" "replicate 30 x = replicate 16 x @ replicate 14 x"
  unfolding replicate_add [symmetric] by simp_all

lemma utf8d_split:
  "idio_utf8d = replicate 128 0 @ replicate 16 1 @ replicate 16 9 @ replicate 32 7 @ replicate 2 8 @ replicate 30 2 @ [10] @
    replicate 12 3 @ [4] @ replicate 2 3 @ [11] @ replicate 3 6 @ [5] @ replicate 11 8 @ transitions"
  unfolding idio_utf8d_def transitions_def replicate_blocks replicate_rows append.simps by (rule refl)

lemma run: "(replicate n x @ xs) ! b = (if b < n then x else xs ! (b - n))" "([x] @ xs) ! b = (if b < 1 then x else xs ! (b - 1))"
  by (simp_all add: nth_append nth_Cons')

lemma less_after: "(b - m < n) = (b < m + n)" if "0 < n" for b m n :: nat
  using that by arith

lemma class_table: "b < 256 \<Longrightarrow> idio_utf8d ! b = byte_class b"
  unfolding utf8d_split run byte_class_def
  by (simp add: less_after cong: if_cong)

lemma transition: "idio_utf8d ! (256 + n) = transitions ! n"
  unfolding utf8d_split by (simp add: nth_append)

lemma and_bits: "(b :: nat) AND 63 = b mod 64" "(b :: nat) AND 127 = b mod 128"
  using take_bit_eq_mask [of 6 b] take_bit_eq_mask [of 7 b] by (simp_all add: mask_eq_exp_minus_1 take_bit_eq_mod)

lemma lead_bits: "n \<le> 8 \<Longrightarrow> drop_bit n 255 AND b = b mod 2 ^ (8 - n)" for b :: nat
proof -
  assume "n \<le> 8"
  have "(255 :: nat) = mask 8" by (simp add: mask_eq_exp_minus_1)
  then have "drop_bit n 255 AND b = take_bit (8 - n) b"
    by (simp only: drop_bit_mask_eq take_bit_eq_mask and.commute)
  then show ?thesis by (simp add: take_bit_eq_mod)
qed

lemma or_low: "(x :: nat) < 2 ^ n \<Longrightarrow> x OR push_bit n a = x + a * 2 ^ n" "(x :: nat) < 2 ^ n \<Longrightarrow> push_bit n a OR x = x + a * 2 ^ n"
proof -
  assume x: "x < 2 ^ n"
  have "x AND push_bit n a = 0"
  proof (rule bit_eqI)
    fix i
    have "bit x i \<Longrightarrow> i < n" using x bit_take_bit_iff [of n x i] by (simp add: take_bit_nat_eq_self)
    then show "bit (x AND push_bit n a) i = bit 0 i" by (auto simp: bit_simps)
  qed
  then have s: "x OR push_bit n a = x + a * 2 ^ n" by (simp add: disjunctive_add_eq_or [symmetric] push_bit_eq_mult)
  then show "x OR push_bit n a = x + a * 2 ^ n" .
  show "push_bit n a OR x = x + a * 2 ^ n" using s by (simp add: or.commute)
qed

lemma next_step:
  assumes "b < 256" "s \<noteq> 0"
  shows "idio_utf8_decode s cp b = (transitions ! (s + byte_class b), cp * 64 + b mod 64)"
  using assms or_low(1) [of "b mod 64" 6 cp]
  by (simp add: idio_utf8_decode_def IDIO_UTF8_ACCEPT_def class_table and_bits add.assoc transition)

lemma lead_step:
  assumes "b < 256"
  shows "idio_utf8_decode 0 cp b = (transitions ! byte_class b, drop_bit (byte_class b) 255 AND b)"
  using assms by (simp add: idio_utf8_decode_def IDIO_UTF8_ACCEPT_def class_table transition Let_def)

text \<open>The classes a byte of the encoding can have, and the state that follows for each.\<close>

lemma class_bound: "byte_class b < 12"
  by (simp add: byte_class_def)

lemma below_12: "k < 12 \<longleftrightarrow> k = 0 \<or> k = 1 \<or> k = 2 \<or> k = 3 \<or> k = 4 \<or> k = 5 \<or> k = 6 \<or> k = 7 \<or> k = 8 \<or> k = 9 \<or> k = 10 \<or> k = (11 :: nat)"
  by arith

lemma rows:
  assumes "k < 12"
  shows "transitions ! (24 + k) = (if k = 1 \<or> k = 7 \<or> k = 9 then 0 else 12)"
    "transitions ! (36 + k) = (if k = 1 \<or> k = 7 \<or> k = 9 then 24 else 12)"
    "transitions ! (48 + k) = (if k = 7 then 24 else 12)"
    "transitions ! (60 + k) = (if k = 1 \<or> k = 9 then 24 else 12)"
    "transitions ! (72 + k) = (if k = 7 \<or> k = 9 then 36 else 12)"
    "transitions ! (84 + k) = (if k = 1 \<or> k = 7 \<or> k = 9 then 36 else 12)"
    "transitions ! (96 + k) = (if k = 1 then 36 else 12)"
  using assms unfolding below_12 by (elim disjE; simp add: transitions_def)+

lemma row_0:
  "transitions ! 0 = 0" "transitions ! Suc 0 = 12" "transitions ! 2 = 24" "transitions ! 3 = 36" "transitions ! 4 = 60"
  "transitions ! 5 = 96" "transitions ! 6 = 84" "transitions ! 7 = 12" "transitions ! 8 = 12" "transitions ! 9 = 12"
  "transitions ! 10 = 48" "transitions ! 11 = 72"
  by (simp_all add: transitions_def)

lemma row_12: "k < 24 \<Longrightarrow> 12 \<le> k \<Longrightarrow> transitions ! k = 12"
  by (drule le_Suc_ex) (auto simp: transitions_def less_Suc_eq numeral_eq_Suc)

lemma follow_class:
  "byte_class b = 1 \<longleftrightarrow> 128 \<le> b \<and> b < 144" "byte_class b = 9 \<longleftrightarrow> 144 \<le> b \<and> b < 160" "byte_class b = 7 \<longleftrightarrow> 160 \<le> b \<and> b < 192"
  by (simp_all add: byte_class_def)

lemma lead_next: "transitions ! byte_class b = lead_state b"
  by (simp add: byte_class_def lead_state_def row_0)

definition inner :: "nat set" where "inner = {24, 36, 48, 60, 72, 84, 96}"

lemma inner_next: "s \<in> inner \<Longrightarrow> transitions ! (s + byte_class b) = next_state s b"
  unfolding inner_def insert_iff empty_iff
  by (elim disjE; auto simp: rows [OF class_bound] follow_class follow_class(1) [simplified] next_state_def)

lemma inner_decode: "b < 256 \<Longrightarrow> s \<in> inner \<Longrightarrow> idio_utf8_decode s cp b = (next_state s b, cp * 64 + b mod 64)"
  by (subst next_step) (auto simp: inner_next, auto simp: inner_def)

lemma mod_off: "m * k \<le> b \<Longrightarrow> b < m * k + k \<Longrightarrow> b mod k = b - m * k" for b :: nat
  by (drule le_Suc_ex) (auto simp: mult.commute)

lemma lead_value_bits: "lead_state b \<noteq> 12 \<Longrightarrow> b < 256 \<Longrightarrow> drop_bit (byte_class b) 255 AND b = lead_value b"
proof -
  assume b: "lead_state b \<noteq> 12" "b < 256"
  have z: "drop_bit 10 (255 :: nat) = 0" "drop_bit 11 (255 :: nat) = 0" by (simp_all add: drop_bit_eq_div)
  have "b < 128 \<or> (194 \<le> b \<and> b < 224) \<or> b = 224 \<or> (225 \<le> b \<and> b < 237) \<or> b = 237 \<or> (238 \<le> b \<and> b < 240) \<or>
    b = 240 \<or> (241 \<le> b \<and> b < 244) \<or> b = 244"
    using b unfolding lead_state_def by presburger
  then show ?thesis
    using z lead_bits [of 0 b] lead_bits [of 2 b] lead_bits [of 3 b] lead_bits [of 6 b] mod_off [of 3 64 b] mod_off [of 7 32 b] mod_off [of 60 4 b]
    by (elim disjE conjE; simp add: byte_class_def lead_value_def lead_bits)
qed

lemma lead_decode:
  assumes "b < 256"
  shows "fst (idio_utf8_decode 0 cp b) = lead_state b"
    "lead_state b \<noteq> 12 \<Longrightarrow> snd (idio_utf8_decode 0 cp b) = lead_value b"
  using assms by (simp_all add: lead_step lead_next lead_value_bits)

section \<open>One code point\<close>

text \<open>What the bits read so far can be in each state.\<close>

definition partial :: "nat \<Rightarrow> nat \<Rightarrow> bool" where
  "partial s cp \<longleftrightarrow>
    (s = 0 \<and> cp \<le> 0x10FFFF) \<or> (s = 24 \<and> cp \<le> 0x43FF) \<or> (s = 36 \<and> cp \<le> 0x10F) \<or> (s = 48 \<and> cp = 0) \<or>
    (s = 60 \<and> cp = 13) \<or> (s = 72 \<and> cp = 0) \<or> (s = 84 \<and> cp \<le> 3) \<or> (s = 96 \<and> cp = 4)"

lemma partial_lead: "b < 256 \<Longrightarrow> lead_state b \<noteq> 12 \<Longrightarrow> partial (lead_state b) (lead_value b)"
  by (auto simp: partial_def lead_state_def lead_value_def split: if_splits)

lemma partial_next:
  assumes "partial s cp" "s \<noteq> 0" "next_state s b \<noteq> 12" "b < 256"
  shows "partial (next_state s b) (cp * 64 + b mod 64)"
proof -
  have m: "b mod 64 \<le> 63" by (simp add: less_Suc_eq_le [symmetric])
  have w: "128 \<le> b \<Longrightarrow> b < 192 \<Longrightarrow> b mod 64 = b - 128" using mod_off [of 2 64 b] by simp
  from assms(1) show ?thesis unfolding partial_def [of s]
    using assms(2,3) m w
    by (elim disjE conjE; simp add: next_state_def partial_def split: if_split_asm)
qed

lemma partial_cp: "partial s cp \<Longrightarrow> cp \<le> 0x10FFFF" "partial s cp \<Longrightarrow> s \<noteq> 0 \<Longrightarrow> s \<in> inner"
  by (auto simp: partial_def inner_def)

lemma decode_partial:
  assumes "s = 0 \<or> partial s cp" "b < 256"
  shows "fst (idio_utf8_decode s cp b) = 12 \<or> partial (fst (idio_utf8_decode s cp b)) (snd (idio_utf8_decode s cp b))"
proof (cases "s = 0")
  case True
  then show ?thesis using assms lead_decode [of b cp] partial_lead [of b] by (cases "lead_state b = 12") simp_all
next
  case False
  then have "partial s cp" "s \<in> inner" using assms(1) partial_cp(2) by auto
  then show ?thesis using False assms(2) partial_next [of s cp b] by (auto simp: inner_decode)
qed

lemma decode_one_bound:
  "bs \<noteq> [] \<or> cp \<le> 0x10FFFF \<Longrightarrow> s = 0 \<or> partial s cp \<Longrightarrow> list_all (\<lambda>b. b < 256) bs \<Longrightarrow>
    fst (snd (decode_one s cp bs)) \<le> 0x10FFFF \<and> list_all (\<lambda>b. b < 256) (snd (snd (decode_one s cp bs)))"
proof (induction bs arbitrary: s cp)
  case (Cons b bs)
  obtain s' cp' where d: "idio_utf8_decode s cp b = (s', cp')" by fastforce
  have p: "s' = 12 \<or> partial s' cp'" using decode_partial [of s cp b] Cons.prems d by simp
  show ?case
  proof (cases "s' = 12 \<or> s' = 0")
    case True
    then show ?thesis using Cons.prems p partial_cp(1) [of s' cp']
      by (auto simp: d IDIO_UTF8_ACCEPT_def IDIO_UTF8_REJECT_def)
  next
    case False
    then have "partial s' cp'" using p by simp
    then show ?thesis using False Cons.prems Cons.IH [of cp' s'] partial_cp(1) [of s' cp']
      by (simp add: d IDIO_UTF8_ACCEPT_def IDIO_UTF8_REJECT_def)
  qed
qed simp

lemma decode_all_bound:
  "list_all (\<lambda>b. b < 256) bs \<Longrightarrow> list_all (\<lambda>c. c \<le> 0x10FFFF) (decode_all cp bs)"
proof (induction cp bs rule: decode_all.induct)
  case (2 cp b bs)
  obtain s' cp' rest where d: "decode_one IDIO_UTF8_ACCEPT cp (b # bs) = (s', cp', rest)" by (metis prod.collapse)
  have "cp' \<le> 0x10FFFF \<and> list_all (\<lambda>b. b < 256) rest"
    using decode_one_bound [of "b # bs" cp 0] "2.prems" d by (simp add: IDIO_UTF8_ACCEPT_def)
  then show ?case using "2.IH" d by (simp del: decode_one.simps)
qed simp

section \<open>Encoding and decoding\<close>

definition scalar :: "nat \<Rightarrow> bool" where
  "scalar c \<longleftrightarrow> c \<le> 0x10FFFF \<and> \<not> (0xD800 \<le> c \<and> c \<le> 0xDFFF)"

definition utf8 :: "nat \<Rightarrow> nat list" where
  "utf8 c =
    (if c < 0x80 then [c]
     else if c < 0x800 then [192 + c div 64, 128 + c mod 64]
     else if c < 0x10000 then [224 + c div 4096, 128 + c div 64 mod 64, 128 + c mod 64]
     else [240 + c div 262144, 128 + c div 4096 mod 64, 128 + c div 64 mod 64, 128 + c mod 64])"

lemma field_bits: "drop_bit n ((c :: nat) AND push_bit n (mask m)) = c div 2 ^ n mod 2 ^ m"
proof -
  have "drop_bit n (c AND push_bit n (mask m)) = take_bit m (drop_bit n c)"
    by (rule bit_eqI) (auto simp: bit_simps)
  then show ?thesis by (simp add: take_bit_eq_mod drop_bit_eq_div)
qed

lemma fields:
  "drop_bit 18 ((c :: nat) AND push_bit 18 7) = c div 262144 mod 8" "drop_bit 12 (c AND push_bit 12 63) = c div 4096 mod 64"
  "drop_bit 6 (c AND push_bit 6 63) = c div 64 mod 64" "drop_bit 12 (c AND push_bit 12 15) = c div 4096 mod 16"
  "drop_bit 6 (c AND push_bit 6 31) = c div 64 mod 32"
proof -
  have m: "(7 :: nat) = mask 3" "(15 :: nat) = mask 4" "(31 :: nat) = mask 5" "(63 :: nat) = mask 6"
    by (simp_all add: mask_eq_exp_minus_1)
  show "drop_bit 18 ((c :: nat) AND push_bit 18 7) = c div 262144 mod 8" unfolding m field_bits by simp
  show "drop_bit 12 (c AND push_bit 12 63) = c div 4096 mod 64" unfolding m field_bits by simp
  show "drop_bit 6 (c AND push_bit 6 63) = c div 64 mod 64" unfolding m field_bits by simp
  show "drop_bit 12 (c AND push_bit 12 15) = c div 4096 mod 16" unfolding m field_bits by simp
  show "drop_bit 6 (c AND push_bit 6 31) = c div 64 mod 32" unfolding m field_bits by simp
qed

lemma or_marks:
  "(x :: nat) < 64 \<Longrightarrow> 0x80 OR x = 128 + x" "(x :: nat) < 32 \<Longrightarrow> 0xc0 OR x = 192 + x"
  "(x :: nat) < 16 \<Longrightarrow> 0xe0 OR x = 224 + x" "(x :: nat) < 8 \<Longrightarrow> 0xf0 OR x = 240 + x"
  using or_low(2) [of x 6 2] or_low(2) [of x 5 6] or_low(2) [of x 4 14] or_low(2) [of x 3 30] by simp_all

lemma encode: "idio_unicode_valid_code_point c \<Longrightarrow> idio_utf8_code_point c = Inr (utf8 c)"
proof -
  assume v: "idio_unicode_valid_code_point c"
  then have m: "c div 262144 mod 8 = c div 262144" "c div 262144 < 8"
    by (simp_all add: idio_unicode_valid_code_point_def)
  have m2: "c div 4096 mod 16 = c div 4096" "c div 4096 < 16" if "c < 0x10000" using that by simp_all
  have m3: "c div 64 mod 32 = c div 64" "c div 64 < 32" if "c < 0x800" using that by simp_all
  have m4: "c mod 64 < 64" for c :: nat by simp
  note f = idio_utf8_code_point_def utf8_def fields and_bits
  consider "c < 0x80" | "0x80 \<le> c" "c < 0x800" | "0x800 \<le> c" "c < 0x10000" | "0x10000 \<le> c" by linarith
  then show ?thesis
  proof cases
    case 1
    then show ?thesis unfolding f using v by simp
  next
    case 2
    then show ?thesis unfolding f using v or_marks(1) [OF m4] or_marks(2) [OF m3(2)] m3 by simp
  next
    case 3
    then show ?thesis unfolding f using v or_marks(1) [OF m4] or_marks(3) [OF m2(2)] m2 by simp
  next
    case 4
    then show ?thesis unfolding f using v or_marks(1) [OF m4] or_marks(4) [OF m(2)] m by simp
  qed
qed

lemma utf8_bytes: "c \<le> 0x10FFFF \<Longrightarrow> list_all (\<lambda>b. b < 256) (utf8 c)" "utf8 c \<noteq> []"
  by (auto simp: utf8_def)

lemma decode_one_lead:
  assumes "b < 256" "lead_state b \<noteq> 12"
  shows "decode_one 0 cp (b # bs) =
    (if lead_state b = 0 then (0, lead_value b, bs) else decode_one (lead_state b) (lead_value b) bs)"
  using lead_decode [OF assms(1), of cp] assms(2)
  by (cases "idio_utf8_decode 0 cp b") (simp add: IDIO_UTF8_ACCEPT_def IDIO_UTF8_REJECT_def)

lemma decode_one_inner:
  assumes "c < 64" "s \<in> inner" "next_state s (128 + c) \<noteq> 12"
  shows "decode_one s cp ((128 + c) # bs) =
    (if next_state s (128 + c) = 0 then (0, cp * 64 + c, bs) else decode_one (next_state s (128 + c)) (cp * 64 + c) bs)"
proof -
  have "(128 + c) mod 64 = c" using assms(1) by (simp add: mod_if)
  then show ?thesis using inner_decode [of "128 + c" s cp] assms
    by (simp add: IDIO_UTF8_ACCEPT_def IDIO_UTF8_REJECT_def)
qed

lemma digits:
  "c div 4096 * 64 + c div 64 mod 64 = c div 64" "c div 262144 * 64 + c div 4096 mod 64 = c div 4096"
  "c div 64 * 64 + c mod 64 = (c :: nat)"
  using div_mult_mod_eq [of "c div 64" 64] div_mult_mod_eq [of "c div 4096" 64] by (simp_all add: div_mult2_eq [symmetric])

lemma decode_utf8_2:
  assumes "0x80 \<le> c" "c < 0x800"
  shows "decode_one 0 cp (utf8 c @ rest) = (0, c, rest)"
proof -
  have h: "2 \<le> c div 64" "c div 64 < 32" using assms by simp_all
  then have l: "lead_state (192 + c div 64) = 24" "lead_value (192 + c div 64) = c div 64"
    by (simp_all add: lead_state_def lead_value_def)
  have "next_state 24 (128 + c mod 64) = 0" by (simp add: next_state_def)
  then show ?thesis
    using assms h l decode_one_lead [of "192 + c div 64" cp "(128 + c mod 64) # rest"] decode_one_inner [of "c mod 64" 24 "c div 64" rest]
    by (simp add: utf8_def inner_def digits)
qed

lemma decode_utf8_3:
  assumes "0x800 \<le> c" "c < 0x10000" "\<not> (0xD800 \<le> c \<and> c \<le> 0xDFFF)"
  shows "decode_one 0 cp (utf8 c @ rest) = (0, c, rest)"
proof -
  define h m where "h = c div 4096" and "m = c div 64 mod 64"
  have c: "c div 64 = h * 64 + m" by (simp add: h_def m_def digits)
  have h: "h < 16" using assms by (simp add: h_def)
  have m: "m < 64" by (simp add: m_def)
  have z: "h = 0 \<Longrightarrow> 32 \<le> m"
    using assms(1) c by arith
  have "c < 864 * 64 \<or> 896 * 64 \<le> c" using assms(3) by auto
  then have "c div 64 < 864 \<or> 896 \<le> c div 64"
    by (elim disjE) (simp_all add: less_mult_imp_div_less div_le_mono [of "896 * 64" c 64, simplified])
  then have t: "h = 13 \<Longrightarrow> m < 32" unfolding c using m by linarith
  have l: "lead_value (224 + h) = h" "lead_state (224 + h) \<in> inner" "lead_state (224 + h) \<noteq> 0" "lead_state (224 + h) \<noteq> 12"
    using h by (auto simp: lead_state_def lead_value_def inner_def)
  have n1: "next_state (lead_state (224 + h)) (128 + m) = 24"
    using h m z t by (auto simp: lead_state_def next_state_def)
  have n2: "next_state 24 (128 + c mod 64) = 0" by (simp add: next_state_def)
  have "decode_one 24 (c div 64) ((128 + c mod 64) # rest) = (0, c, rest)"
    using n2 decode_one_inner [of "c mod 64" 24 "c div 64" rest] by (simp add: inner_def digits)
  then have "decode_one (lead_state (224 + h)) h ((128 + m) # (128 + c mod 64) # rest) = (0, c, rest)"
    using m n1 c decode_one_inner [OF _ l(2), of m h "(128 + c mod 64) # rest"] by simp
  then have "decode_one 0 cp ((224 + h) # (128 + m) # (128 + c mod 64) # rest) = (0, c, rest)"
    using h l decode_one_lead [of "224 + h" cp "(128 + m) # (128 + c mod 64) # rest"] by simp
  then show ?thesis using assms by (simp add: utf8_def h_def m_def)
qed

lemma decode_utf8_4:
  assumes "0x10000 \<le> c" "c \<le> 0x10FFFF"
  shows "decode_one 0 cp (utf8 c @ rest) = (0, c, rest)"
proof -
  define h m where "h = c div 262144" and "m = c div 4096 mod 64"
  have c: "c div 4096 = h * 64 + m" by (simp add: h_def m_def digits)
  have h: "h \<le> 4" using assms by (simp add: h_def)
  have m: "m < 64" by (simp add: m_def)
  have z: "h = 0 \<Longrightarrow> 16 \<le> m" using assms(1) c by arith
  have t: "h = 4 \<Longrightarrow> m < 16" using assms(2) c by arith
  have l: "lead_value (240 + h) = h" "lead_state (240 + h) \<in> inner" "lead_state (240 + h) \<noteq> 0" "lead_state (240 + h) \<noteq> 12"
    using h by (auto simp: lead_state_def lead_value_def inner_def)
  have n1: "next_state (lead_state (240 + h)) (128 + m) = 36"
    using h m z t by (auto simp: lead_state_def next_state_def)
  have n2: "next_state 36 (128 + c div 64 mod 64) = 24" "next_state 24 (128 + c mod 64) = 0"
    by (simp_all add: next_state_def)
  let ?rest = "(128 + c div 64 mod 64) # (128 + c mod 64) # rest"
  have "decode_one 36 (h * 64 + m) ?rest = (0, c, rest)"
    using n2 decode_one_inner [of "c div 64 mod 64" 36 "c div 4096" "(128 + c mod 64) # rest"]
      decode_one_inner [of "c mod 64" 24 "c div 64" rest]
    by (simp add: inner_def c [symmetric] digits)
  then have "decode_one (lead_state (240 + h)) h ((128 + m) # ?rest) = (0, c, rest)"
    using m n1 decode_one_inner [OF _ l(2), of m h ?rest] by simp
  then have "decode_one 0 cp ((240 + h) # (128 + m) # ?rest) = (0, c, rest)"
    using h l decode_one_lead [of "240 + h" cp "(128 + m) # ?rest"] by simp
  then show ?thesis using assms by (simp add: utf8_def h_def m_def)
qed

lemma decode_utf8: "scalar c \<Longrightarrow> decode_one 0 cp (utf8 c @ rest) = (0, c, rest)"
proof -
  assume s: "scalar c"
  consider "c < 0x80" | "0x80 \<le> c" "c < 0x800" | "0x800 \<le> c" "c < 0x10000" | "0x10000 \<le> c" by linarith
  then show ?thesis
  proof cases
    case 1
    then show ?thesis using decode_one_lead [of c cp rest] by (simp add: utf8_def lead_state_def lead_value_def)
  qed (use s in \<open>simp_all add: scalar_def decode_utf8_2 decode_utf8_3 decode_utf8_4\<close>)
qed

lemma decode_all_step:
  "bs \<noteq> [] \<Longrightarrow> decode_one 0 cp bs = (s, c, rest) \<Longrightarrow> decode_all cp bs = c # decode_all c rest"
  by (cases bs) (simp_all add: IDIO_UTF8_ACCEPT_def del: decode_one.simps)

lemma decode_all_utf8: "list_all scalar cs \<Longrightarrow> decode_all cp (concat (map utf8 cs)) = cs"
proof (induction cs arbitrary: cp)
  case (Cons c cs)
  then show ?case
    using decode_all_step [of "utf8 c @ concat (map utf8 cs)" cp 0 c "concat (map utf8 cs)"] decode_utf8 [of c cp] utf8_bytes(2)
    by simp
qed simp

section \<open>Strings\<close>

definition fits :: "string_flag \<Rightarrow> nat \<Rightarrow> bool" where
  "fits fl c \<longleftrightarrow> c \<le> 0x10FFFF \<and> c < 2 ^ (8 * flag_width fl)"

definition string_ok :: "idio_string \<Rightarrow> bool" where
  "string_ok p \<longleftrightarrow>
    length (str_s p) = str_len p \<and> str_blen p = str_len p * flag_width (str_flags p) \<and> list_all (fits (str_flags p)) (str_s p)"

definition str_ok :: "str \<Rightarrow> bool" where
  "str_ok s \<longleftrightarrow> string_ok (parent_string s) \<and> offset_of s + idio_string_len s \<le> str_len (parent_string s)"

lemma str_ok_String [simp]: "str_ok (String p) \<longleftrightarrow> string_ok p"
  by (simp add: str_ok_def parent_string_def offset_of_def idio_string_len_def)

lemma codes_String: "string_ok p \<Longrightarrow> codes (String p) = str_s p"
  by (simp add: codes_def string_ok_def parent_string_def offset_of_def idio_string_len_def)

lemma codes_length: "str_ok s \<Longrightarrow> length (codes s) = idio_string_len s"
  by (auto simp: codes_def str_ok_def string_ok_def)

lemma codes_nth:
  "str_ok s \<Longrightarrow> i < idio_string_len s \<Longrightarrow> codes s ! i = str_s (parent_string s) ! (offset_of s + i)"
  by (simp add: codes_def str_ok_def string_ok_def)

lemma codes_fit: "str_ok s \<Longrightarrow> list_all (fits (str_flags (parent_string s))) (codes s)"
  by (auto simp: codes_def str_ok_def string_ok_def list_all_iff dest!: in_set_takeD in_set_dropD)

definition plain :: "string_flag \<Rightarrow> bool" where "plain fl \<longleftrightarrow> fl = FLAG_1BYTE \<or> fl = FLAG_2BYTE \<or> fl = FLAG_4BYTE"

lemma widen_width:
  assumes "plain fl"
  shows "plain (widen fl c)" "flag_width fl \<le> flag_width (widen fl c)" "c \<le> 0x10FFFF \<Longrightarrow> fits (widen fl c) c"
  using assms by (auto simp: widen_def flag_width_def fits_def plain_def split: string_flag.splits)

lemma fits_mono: "fits fl c \<Longrightarrow> flag_width fl \<le> flag_width fl' \<Longrightarrow> fits fl' c"
  unfolding fits_def by (elim conjE, intro conjI, assumption, erule less_le_trans, rule power_increasing) simp_all

lemma fold_widen:
  "list_all (\<lambda>c. c \<le> 0x10FFFF) cs \<Longrightarrow> plain fl \<Longrightarrow>
    list_all (fits (fold (\<lambda>c fl. widen fl c) cs fl)) cs \<and> flag_width fl \<le> flag_width (fold (\<lambda>c fl. widen fl c) cs fl) \<and>
    plain (fold (\<lambda>c fl. widen fl c) cs fl)"
proof (induction cs arbitrary: fl)
  case (Cons c cs)
  note w = widen_width [OF Cons.prems(2), of c]
  have "list_all (fits (fold (\<lambda>c fl. widen fl c) cs (widen fl c))) cs"
    "flag_width (widen fl c) \<le> flag_width (fold (\<lambda>c fl. widen fl c) cs (widen fl c))"
    "plain (fold (\<lambda>c fl. widen fl c) cs (widen fl c))"
    using Cons w(1) by auto
  moreover have "fits (widen fl c) c" using w(3) Cons.prems by simp
  ultimately show ?case using w(2) fits_mono [of "widen fl c" c] by auto
qed simp

lemma stored_fits: "list_all (fits fl) cs \<Longrightarrow> stored fl cs = cs"
  by (induction cs) (simp_all add: stored_def fits_def take_bit_nat_eq_self)

lemma C_len_ok:
  assumes "list_all (\<lambda>b. b < 256) bs"
  shows "string_ok (idio_string_C_len cp bs)" "codes (String (idio_string_C_len cp bs)) = decode_all cp bs"
proof -
  let ?cs = "decode_all cp bs"
  let ?fl = "fold (\<lambda>c fl. widen fl c) ?cs FLAG_1BYTE"
  have f: "list_all (fits ?fl) ?cs" using fold_widen [OF decode_all_bound [OF assms]] by (simp add: plain_def)
  then show ok: "string_ok (idio_string_C_len cp bs)"
    by (simp add: string_ok_def idio_string_C_len_def Let_def stored_fits)
  show "codes (String (idio_string_C_len cp bs)) = ?cs"
    using f unfolding codes_String [OF ok] by (simp add: idio_string_C_len_def Let_def stored_fits)
qed

lemma octet_ok: "list_all (\<lambda>b. b < 256) bs \<Longrightarrow> string_ok (idio_octet_string_C_len bs)"
  by (auto simp: string_ok_def idio_octet_string_C_len_def flag_width_def fits_def list_all_iff)

section \<open>The operations and the sequence of code points\<close>

definition index_in :: "int \<Rightarrow> nat \<Rightarrow> nat option" where
  "index_in i n = (if 0 \<le> i \<and> i < int n then Some (nat i) else if - int n \<le> i \<and> i < 0 then Some (nat (i + int n)) else None)"

lemma index_in_less: "index_in i n = Some k \<Longrightarrow> k < n"
  by (auto simp: index_in_def split: if_splits)

lemma from_end_in:
  "(from_end i n < 0 \<or> int n \<le> from_end i n) = (index_in i n = None)" "index_in i n = Some k \<Longrightarrow> nat (from_end i n) = k"
  by (auto simp: from_end_def index_in_def split: if_splits)

lemma ref_codes:
  assumes "str_ok s"
  shows "idio_string_ref_C s i =
    (case index_in i (length (codes s)) of None \<Rightarrow> Inl (String_error ''out of bounds'') | Some k \<Rightarrow> Inr (codes s ! k))"
  using assms by (auto simp: idio_string_ref_C_def Let_def codes_length codes_nth from_end_in index_in_less split: option.split)

lemma update_shape [simp]:
  "idio_string_len (update_string (\<lambda>p. p\<lparr>str_s := f p\<rparr>) s) = idio_string_len s" "offset_of (update_string g s) = offset_of s"
  "parent_string (update_string g s) = g (parent_string s)"
  by (cases s; simp add: update_string_def idio_string_len_def offset_of_def parent_string_def)+

lemma width_fits:
  assumes "idio_unicode_valid_code_point c" "\<not> flag_width fl < (if c \<le> 0xff then 1 else if c \<le> 0xffff then 2 else 4)"
  shows "fits fl c"
  using assms by (auto simp: fits_def idio_unicode_valid_code_point_def flag_width_def split: string_flag.splits if_splits)

lemma set_unit:
  assumes "str_ok s" "fits (str_flags (parent_string s)) c" "k < idio_string_len s"
  defines "t \<equiv> update_string (\<lambda>p. p\<lparr>str_s := (str_s p)[offset_of s + k := take_bit (8 * flag_width (str_flags p)) c]\<rparr>) s"
  shows "str_ok t" "codes t = (codes s)[k := c]"
proof -
  have c: "take_bit (8 * flag_width (str_flags (parent_string s))) c = c"
    using assms(2) by (simp add: fits_def take_bit_nat_eq_self)
  show "str_ok t"
    using assms(1,2) unfolding t_def
    by (auto simp: str_ok_def string_ok_def c list_all_iff dest!: set_update_subset_insert [THEN subsetD])
  show "codes t = (codes s)[k := c]"
    using assms(1,3) unfolding t_def by (simp add: codes_def c drop_update_swap take_update_swap)
qed

lemma set_codes:
  assumes "str_ok s"
  shows "idio_string_set_C s i c =
    (if \<not> c \<le> 0x10FFFF then Inl (Param_value_error ''string-set!'' ''code point'')
     else if idio_string_storage_size s < (if c \<le> 0xff then 1 else if c \<le> 0xffff then 2 else 4)
     then Inl (String_error ''replacement char too wide'')
     else case index_in i (length (codes s)) of None \<Rightarrow> Inl (String_error ''out of bounds'')
       | Some k \<Rightarrow> Inr (update_string (\<lambda>p. p\<lparr>str_s := (str_s p)[offset_of s + k := take_bit (8 * flag_width (str_flags p)) c]\<rparr>) s))"
  using assms by (auto simp: idio_string_set_C_def idio_unicode_valid_code_point_def Let_def codes_length from_end_in not_less split: option.split)

lemma set_ok:
  assumes "str_ok s" "idio_string_set_C s i c = Inr t"
  shows "str_ok t \<and> idio_string_len t = idio_string_len s \<and> (\<exists>k. index_in i (length (codes s)) = Some k \<and> codes t = (codes s)[k := c])"
proof -
  obtain k where k: "index_in i (length (codes s)) = Some k" "fits (str_flags (parent_string s)) c"
    "t = update_string (\<lambda>p. p\<lparr>str_s := (str_s p)[offset_of s + k := take_bit (8 * flag_width (str_flags p)) c]\<rparr>) s"
    using assms width_fits [of c "str_flags (parent_string s)"]
    by (auto simp: set_codes idio_string_storage_size_def idio_unicode_valid_code_point_def split: if_split_asm option.splits)
  have "k < idio_string_len s" using index_in_less [OF k(1)] assms(1) by (simp add: codes_length)
  then show ?thesis using set_unit [OF assms(1) k(2)] k by auto
qed

lemma offset_len_codes:
  assumes "str_ok s" "offset + len \<le> idio_string_len s"
  shows "\<exists>t. idio_substring_offset_len s offset len = Inr t \<and> str_ok t \<and> codes t = take len (drop offset (codes s))"
  using assms
  by (cases s) (auto simp: idio_substring_offset_len_def str_ok_def offset_of_def idio_string_len_def parent_string_def codes_def
    string_ok_def min_def add.commute drop_take)

lemma empty_string: "string_ok (idio_string_C_len 0 [])" "codes (String (idio_string_C_len 0 [])) = []"
  using C_len_ok [of "[]" 0] by simp_all

text \<open>An end that counts from the string's end may be the end itself.\<close>

definition bound_in :: "int \<Rightarrow> nat \<Rightarrow> nat option" where
  "bound_in i n = (if 0 \<le> i \<and> i \<le> int n then Some (nat i) else if - int n \<le> i \<and> i < 0 then Some (nat (i + int n)) else None)"

definition slice :: "int \<Rightarrow> int \<Rightarrow> nat list \<Rightarrow> nat list option" where
  "slice i j cs =
    (case (bound_in i (length cs), bound_in j (length cs)) of
       (Some a, Some b) \<Rightarrow> if a \<le> b then Some (take (b - a) (drop a cs)) else None
     | _ \<Rightarrow> None)"

lemma bound_in_iff:
  "bound_in i n = (let i = (if i < 0 then i + int n else i) in if i < 0 \<or> int n < i then None else Some (nat i))"
  by (simp add: bound_in_def Let_def)

lemma substring_codes:
  assumes "str_ok s"
  shows "case slice i j (codes s) of None \<Rightarrow> substring_C s i j = Inl (String_error ''out of bounds'')
    | Some cs \<Rightarrow> \<exists>t. substring_C s i j = Inr t \<and> str_ok t \<and> codes t = cs"
proof -
  define l where "l = int (idio_string_len s)"
  define a where "a = (if i < 0 then i + l else i)"
  define b where "b = (if j < 0 then j + l else j)"
  have ia: "bound_in i (length (codes s)) = (if a < 0 \<or> l < a then None else Some (nat a))"
    and jb: "bound_in j (length (codes s)) = (if b < 0 \<or> l < b then None else Some (nat b))"
    by (simp_all only: bound_in_iff Let_def codes_length [OF assms] a_def b_def l_def)
  have sl: "slice i j (codes s) = (if a < 0 \<or> l < a \<or> b < 0 \<or> l < b \<or> b < a then None else Some (take (nat (b - a)) (drop (nat a) (codes s))))"
    by (simp add: slice_def ia jb nat_diff_distrib nat_le_eq_zle)
  have sub: "substring_C s i j = (if a < 0 \<or> l < a \<or> b < 0 \<or> l < b \<or> b < a then Inl (String_error ''out of bounds'')
      else if b - a \<noteq> 0 then idio_substring_offset_len s (nat a) (nat (b - a)) else Inr (String (idio_string_C_len 0 [])))"
    by (simp add: substring_C_def Let_def a_def b_def l_def)
  show ?thesis
  proof (cases "a < 0 \<or> l < a \<or> b < 0 \<or> l < b \<or> b < a")
    case True
    then show ?thesis by (simp add: sl sub)
  next
    case False
    then have "nat a + nat (b - a) \<le> idio_string_len s" by (auto simp: l_def)
    then show ?thesis
      using False offset_len_codes [OF assms, of "nat a" "nat (b - a)"] empty_string by (auto simp: sl sub)
  qed
qed

lemma fill_ok: "str_ok s \<Longrightarrow> fold_result (\<lambda>i s. idio_string_set_C s (int i) c) xs s = Inr t \<Longrightarrow> str_ok t"
proof (induction xs arbitrary: s)
  case (Cons x xs)
  then show ?case using set_ok [OF Cons.prems(1)] by (auto simp: bind_result_def split: sum.splits)
qed simp

lemma equal_units_iff:
  "equal_units s t xs \<longleftrightarrow> (\<forall>i \<in> set xs. str_s (parent_string s) ! (offset_of s + i) = str_s (parent_string t) ! (offset_of t + i))"
  by (induction xs) auto

lemma equal_codes: "str_ok s \<Longrightarrow> str_ok t \<Longrightarrow> idio_string_equal s t \<longleftrightarrow> codes s = codes t"
  by (auto simp: idio_string_equal_def equal_units_iff list_eq_iff_nth_eq codes_length codes_nth)

text \<open>The first or the last index of a code point.\<close>

lemma index_loop_codes:
  assumes "str_ok s" "list_all (\<lambda>i. i < idio_string_len s) xs"
  shows "index_loop s c backwards xs =
    Inr (List.find (\<lambda>i. codes s ! i = c) (map (\<lambda>i. if backwards then idio_string_len s - 1 - i else i) xs))"
  using assms(2)
proof (induction xs)
  case (Cons i xs)
  define k where "k = (if backwards then idio_string_len s - 1 - i else i)"
  have "k < idio_string_len s" using Cons.prems by (auto simp: k_def)
  then have "idio_string_ref_C s (int k) = Inr (codes s ! k)"
    by (simp add: ref_codes [OF assms(1)] index_in_def codes_length [OF assms(1)])
  then show ?case using Cons by (simp add: k_def [symmetric] Let_def)
qed simp

lemma rev_upt_map: "map (\<lambda>i. n - 1 - i) [0..<n] = rev [0..<n]"
  by (rule nth_equalityI) (simp_all add: rev_nth)

lemma index_codes:
  assumes "str_ok s"
  shows "idio_string_index s c backwards =
    Inr (List.find (\<lambda>i. codes s ! i = c) ((if backwards then rev else (\<lambda>xs. xs)) [0..<length (codes s)]))"
proof -
  have "idio_string_index s c backwards =
    Inr (List.find (\<lambda>i. codes s ! i = c) (map (\<lambda>i. if backwards then idio_string_len s - 1 - i else i) [0..<idio_string_len s]))"
    unfolding idio_string_index_def by (rule index_loop_codes [OF assms]) (simp add: list_all_iff)
  then show ?thesis by (cases backwards) (simp_all add: rev_upt_map [simplified] codes_length [OF assms])
qed

lemma copy_string_ok:
  assumes "str_ok s"
  shows "\<exists>t. idio_copy_string s = Inr t \<and> str_ok t \<and> codes t = codes s"
proof (cases s)
  case (String p)
  then show ?thesis using assms
    by (simp add: idio_copy_string_def string_ok_def codes_def parent_string_def offset_of_def idio_string_len_def)
next
  case (Substring p off len)
  have p: "str_ok (String p)" "off + len \<le> idio_string_len (String p)"
    using assms by (simp_all add: Substring str_ok_def parent_string_def offset_of_def idio_string_len_def)
  have "take len (drop off (codes (String p))) = codes s"
    using assms
    by (simp add: Substring codes_def str_ok_def string_ok_def parent_string_def offset_of_def idio_string_len_def drop_take min_def)
  then show ?thesis using offset_len_codes [OF p] by (simp add: Substring idio_copy_string_def)
qed

lemma make_ok: "make_string sz fill = ret p \<Longrightarrow> string_ok p"
proof -
  assume m: "make_string sz fill = ret p"
  obtain n where "index_value sz = ret n" using bind_comp_ret_cases [OF m [unfolded make_string_def]] by blast
  then show ?thesis using m
    by (auto simp: make_string_def string_ok_def stored_def fits_def list_all_iff flag_width_def idio_unicode_valid_code_point_def
      take_bit_nat_eq_self Let_def split: if_split_asm option.splits)
qed

text \<open>With less than \<open>2 ^ 62\<close> code points it is made; wide ones from there on are written past the memory.\<close>

lemma make_string_ints:
  assumes "index_value sz = ret i" "0 \<le> i" "c \<le> 0x10FFFF"
  shows "i < 2 ^ 62 \<Longrightarrow> \<exists>p. make_string sz (Some c) = ret p \<and> codes (String p) = replicate (nat i) c"
    "2 ^ 62 \<le> i \<Longrightarrow> i < 2 ^ 63 \<Longrightarrow> 0xffff < c \<Longrightarrow> make_string sz (Some c) = raise Segmentation_fault"
proof -
  define fl where "fl = (if 0xffff < c then FLAG_4BYTE else if 0xff < c then FLAG_2BYTE else FLAG_1BYTE)"
  define n where "n = nat i * flag_width fl"
  have m: "make_string sz (Some c) =
    (if (n mod 18446744073709551616 + 1) mod 18446744073709551616 < n then raise Segmentation_fault
     else ret \<lparr>str_const = False, str_blen = n mod 18446744073709551616, str_len = nat i, str_flags = fl,
       str_s = stored fl (replicate (nat i) c)\<rparr>)"
    using assms unfolding n_def fl_def by (simp add: make_string_def idio_unicode_valid_code_point_def Let_def)
  have w: "flag_width fl \<le> 4" by (simp add: flag_width_def fl_def)
  show "\<exists>p. make_string sz (Some c) = ret p \<and> codes (String p) = replicate (nat i) c" if "i < 2 ^ 62"
  proof -
    have "nat i \<le> 2 ^ 62 - 1" using that by simp
    then have "n \<le> (2 ^ 62 - 1) * 4" using w unfolding n_def by (rule mult_le_mono)
    then have "n + 1 < 18446744073709551616" by simp
    then have "\<not> (n mod 18446744073709551616 + 1) mod 18446744073709551616 < n" by simp
    moreover have "fits fl c" using assms(3) by (simp add: fits_def flag_width_def fl_def)
    then have "stored fl (replicate (nat i) c) = replicate (nat i) c"
      by (intro stored_fits) (simp add: list_all_iff)
    ultimately show ?thesis unfolding m
      by (simp only: if_False) (simp add: codes_def parent_string_def idio_string_len_def offset_of_def)
  qed
  show "make_string sz (Some c) = raise Segmentation_fault" if "2 ^ 62 \<le> i" "i < 2 ^ 63" "0xffff < c"
  proof -
    have n: "n = nat i * 4" using that(3) by (simp add: flag_width_def n_def fl_def)
    have "18446744073709551616 \<le> nat i * 4" using that(1) by simp
    moreover have "(n mod 18446744073709551616 + 1) mod 18446744073709551616 < 18446744073709551616" by simp
    ultimately have "(n mod 18446744073709551616 + 1) mod 18446744073709551616 < n" unfolding n by linarith
    then show ?thesis unfolding m by simp
  qed
qed

text \<open>Strings of well-formed bytes are joined to the string of all their code points.\<close>

lemma decode_on_utf8: "list_all scalar cs \<Longrightarrow> decode_on 0 cp (concat (map utf8 cs)) = cs"
proof (induction cs arbitrary: cp)
  case (Cons c cs)
  then obtain b bs where "utf8 c = b # bs" using utf8_bytes(2) [of c] by (cases "utf8 c") (auto simp: scalar_def)
  moreover from this Cons.prems have "decode_one 0 cp (b # bs @ concat (map utf8 cs)) = (0, c, concat (map utf8 cs))"
    using decode_utf8 [of c cp "concat (map utf8 cs)"] by simp
  ultimately show ?case using Cons by (simp del: decode_one.simps)
qed simp

lemma joined_ok:
  assumes "list_all (list_all scalar) css"
  shows "\<exists>p. idio_string_C_array_lens cp (map (\<lambda>cs. concat (map utf8 cs)) css) = Inr p \<and> string_ok p \<and>
    codes (String p) = concat css"
proof -
  let ?fl = "fold (\<lambda>c fl. widen fl c) (concat css) FLAG_1BYTE"
  have all: "map (decode_all cp) (map (\<lambda>cs. concat (map utf8 cs)) css) = css"
    "map (decode_on IDIO_UTF8_ACCEPT cp) (map (\<lambda>cs. concat (map utf8 cs)) css) = css"
    using assms by (induction css) (simp_all add: decode_all_utf8 decode_on_utf8 IDIO_UTF8_ACCEPT_def)
  have "list_all (\<lambda>c. c \<le> 0x10FFFF) (concat css)" using assms by (auto simp: list_all_iff scalar_def)
  from fold_widen [OF this, of FLAG_1BYTE] have f: "list_all (fits ?fl) (concat css)" by (simp add: plain_def)
  have "idio_string_C_array_lens cp (map (\<lambda>cs. concat (map utf8 cs)) css) =
    Inr \<lparr>str_const = False, str_blen = length (concat css) * flag_width ?fl, str_len = length (concat css), str_flags = ?fl,
      str_s = concat css\<rparr>"
    unfolding idio_string_C_array_lens_def all Let_def using f by (simp add: stored_fits)
  then show ?thesis using f
    by (simp add: string_ok_def codes_def parent_string_def idio_string_len_def offset_of_def)
qed

text \<open>The bytes of a printed code point are no more than were reserved.\<close>

lemma code_bytes_fit:
  assumes "fits fl c"
  shows "\<exists>bs. code_bytes isprint escapes fl c = Inr bs \<and> length bs \<le> code_size isprint escapes fl c"
proof -
  have v: "idio_unicode_valid_code_point c" using assms by (simp add: fits_def idio_unicode_valid_code_point_def)
  have "length (utf8 c) \<le> (if 0x10000 \<le> c then 4 else if 0x0800 \<le> c then 3 else if 0x0080 \<le> c then 2 else 1)"
    by (simp add: utf8_def)
  then show ?thesis by (auto simp: code_bytes_def code_size_def encode [OF v] split: option.split)
qed

lemma printed_fit:
  "list_all (fits fl) cs \<Longrightarrow>
    \<exists>bs. concat_results (map (code_bytes isprint escapes fl) cs) = Inr bs \<and> length bs \<le> sum_list (map (code_size isprint escapes fl) cs)"
proof (induction cs)
  case (Cons c cs)
  then obtain bs where "concat_results (map (code_bytes isprint escapes fl) cs) = Inr bs"
    "length bs \<le> sum_list (map (code_size isprint escapes fl) cs)" by auto
  then show ?case using code_bytes_fit [of fl c isprint escapes] Cons.prems by auto
qed simp

lemma utf8_string_fits: "str_ok s \<Longrightarrow> \<exists>bs. idio_utf8_string isprint prec s escapes quoted = Inr bs"
proof -
  assume s: "str_ok s"
  define cs where "cs = take (if 0 < prec \<and> prec < int (idio_string_len s) then nat prec else idio_string_len s) (codes s)"
  have "list_all (fits (str_flags (parent_string s))) cs"
    using codes_fit [OF s] by (auto simp: cs_def list_all_iff dest!: in_set_takeD)
  from printed_fit [OF this, of isprint escapes] obtain bs where
    bs: "concat_results (map (code_bytes isprint escapes (str_flags (parent_string s))) cs) = Inr bs"
    "length bs \<le> sum_list (map (code_size isprint escapes (str_flags (parent_string s))) cs)" by blast
  have "(if quoted then length (quote_prefix (str_flags (parent_string s))) + 1 else 0) \<le>
    (if quoted then 2 + (if is_pathname (str_flags (parent_string s)) \<or> is_octet (str_flags (parent_string s)) then 2 else 0) +
      (if str_flags (parent_string s) = FLAG_FIFO_PATHNAME then 1 else 0) else 0)"
    by (simp add: quote_prefix_def is_pathname_def is_octet_def)
  then show ?thesis
    using bs(2) unfolding idio_utf8_string_def Let_def cs_def [symmetric] bs(1) bind_result_simps
    by (cases quoted) (simp_all add: not_less)
qed

lemma plain_code_bytes:
  "\<not> is_pathname fl \<Longrightarrow> \<not> is_octet fl \<Longrightarrow> list_all scalar cs \<Longrightarrow>
    concat_results (map (code_bytes isprint False fl) cs) = Inr (concat (map utf8 cs))"
  by (induction cs) (simp_all add: code_bytes_def encode scalar_def idio_unicode_valid_code_point_def)

lemma as_C_utf8:
  assumes "str_ok s" "\<not> is_pathname (str_flags (parent_string s))" "\<not> is_octet (str_flags (parent_string s))" "list_all scalar (codes s)"
  shows "idio_string_as_C isprint 0 s = Inr (concat (map utf8 (codes s)))"
proof -
  have "take (idio_string_len s) (codes s) = codes s" using codes_length [OF assms(1)] by simp
  then show ?thesis
    using utf8_string_fits [OF assms(1), of isprint 0 False False] plain_code_bytes [OF assms(2-4), of isprint]
    by (auto simp: idio_string_as_C_def idio_utf8_string_def Let_def split: if_split_asm)
qed

lemma as_C_octets:
  assumes "str_ok s" "is_pathname (str_flags (parent_string s)) \<or> is_octet (str_flags (parent_string s))"
  shows "idio_string_as_C isprint 0 s = Inr (codes s)"
proof -
  let ?fl = "str_flags (parent_string s)"
  have w: "flag_width ?fl = 1" using assms(2) by (auto simp: flag_width_def is_pathname_def is_octet_def)
  have "list_all (fits ?fl) cs \<Longrightarrow> concat_results (map (code_bytes isprint False ?fl) cs) = Inr cs" for cs
    using assms(2) by (induction cs) (auto simp: code_bytes_def fits_def w take_bit_nat_eq_self)
  then have "concat_results (map (code_bytes isprint False ?fl) (codes s)) = Inr (codes s)"
    using codes_fit [OF assms(1)] by blast
  moreover have "take (idio_string_len s) (codes s) = codes s" using codes_length [OF assms(1)] by simp
  ultimately show ?thesis using utf8_string_fits [OF assms(1), of isprint 0 False False]
    by (auto simp: idio_string_as_C_def idio_utf8_string_def Let_def split: if_split_asm)
qed

section \<open>Two examples\<close>

text \<open>
  A code point that may be in a string but that the decoder refuses, and a list of strings
  that are joined beyond the memory reserved for them.
\<close>

lemma surrogate_refused:
  "idio_unicode_valid_code_point 0xD800" "idio_utf8_code_point 0xD800 = Inr (utf8 0xD800)" "decode_all 0 (utf8 0xD800) \<noteq> [0xD800]"
proof -
  show v: "idio_unicode_valid_code_point 0xD800" by (simp add: idio_unicode_valid_code_point_def)
  show "idio_utf8_code_point 0xD800 = Inr (utf8 0xD800)" by (rule encode [OF v])
  show "decode_all 0 (utf8 0xD800) \<noteq> [0xD800]"
    by (simp add: utf8_def IDIO_UTF8_ACCEPT_def IDIO_UTF8_REJECT_def lead_step inner_decode byte_class_def row_0 inner_def next_state_def)
qed

lemma joined_overrun: "idio_string_C_array_lens cp [[255, 195, 169, 195, 169]] = Inl Segmentation_fault"
proof -
  note steps = lead_step inner_decode next_step byte_class_def row_0 row_12 inner_def next_state_def IDIO_UTF8_ACCEPT_def IDIO_UTF8_REJECT_def
  have "decode_all cp [255, 195, 169, 195, 169] = [0xFFFD, 0xE9, 0xE9]" by (simp add: steps)
  moreover have "decode_on 0 cp [255, 195, 169, 195, 169] = [0xFFFD, 0xFFFD, 0xFFFD, 0xFFFD, 0xFFFD]" by (simp add: steps)
  ultimately show ?thesis by (simp add: idio_string_C_array_lens_def IDIO_UTF8_ACCEPT_def widen_def flag_width_def)
qed

end
