(* ===== verification/Spec2Isabelle.thy ===== *)
theory Spec2Isabelle
  imports Meaning_Correct Bignum_Prims Fixnum Idio_Array Hash_Props Bitset_Props Vm_Control Code_Align Gc_Alloc String_Props
begin

text \<open>
  A verification library of the core of Idio, a Scheme-like shell language written in C
  under \<^verbatim>\<open>src/src\<close>.

  \<^bold>\<open>The program.\<close> A reader turns text into values, an evaluator turns values into
  intermediate code, the code generator (\<^verbatim>\<open>codegen.c\<close>) turns that into byte code and the
  virtual machine (\<^verbatim>\<open>vm.c\<close>) runs it. A value is a tagged word (\<^verbatim>\<open>gc.h\<close>): a fixnum, a
  constant or a pointer to an object that the garbage collector (\<^verbatim>\<open>gc.c\<close>) allocates and
  frees. Numbers that are no fixnums are bignums (\<^verbatim>\<open>bignum.c\<close>); arrays, hash tables,
  bitsets and strings are the containers, used by the program and by the language
  alike. The primitives of the language are C functions that check the types of their
  arguments and raise conditions.

  \<^bold>\<open>The theories\<close>, in the order of their imports.
  \<^item> \<^verbatim>\<open>Idio_Prelude\<close>: the errors, results (an error or a value) and C arithmetic of 64 and
    32 bits, with the lemmas that the components share.
  \<^item> \<^verbatim>\<open>Bignum_Sig\<close>, \<^verbatim>\<open>Bignum_Mul_Div\<close>, \<^verbatim>\<open>Bignum_Num\<close>, \<^verbatim>\<open>Bignum_Real\<close>,
    \<^verbatim>\<open>Bignum_Real_Props\<close>, \<^verbatim>\<open>Bignum_Conv\<close>, \<^verbatim>\<open>Bignum_Prims\<close>: \<^verbatim>\<open>bignum.c\<close>, from the array of
    segments of 18 digits to the primitives; \<^verbatim>\<open>Fixnum\<close>: \<^verbatim>\<open>fixnum.c\<close> and the arithmetic
    of both kinds. An integer \<open>i\<close> has one representation \<open>canonical i\<close>, and the operations
    are shown to be those of the integers on it. A real has the value \<open>bn_val\<close>.
  \<^item> \<^verbatim>\<open>Idio_Array\<close> (\<^verbatim>\<open>array.c\<close>), \<^verbatim>\<open>Idio_Hash\<close> and \<^verbatim>\<open>Hash_Props\<close> (\<^verbatim>\<open>hash.c\<close>),
    \<^verbatim>\<open>Idio_Bitset\<close> and \<^verbatim>\<open>Bitset_Props\<close> (\<^verbatim>\<open>bitset.c\<close>), \<^verbatim>\<open>Idio_String\<close> and \<^verbatim>\<open>String_Props\<close>
    (\<^verbatim>\<open>unicode.c\<close>, \<^verbatim>\<open>string.c\<close>): each a record as the C structure has it, one definition for
    each function, an invariant, and the sequence (\<open>elems\<close>, \<open>codes\<close>), map (\<open>hash_lookup\<close>)
    or set (\<open>bits_of\<close>) that it stands for, which the operations refine.
  \<^item> \<^verbatim>\<open>Idio_Value\<close>: the tags. \<^verbatim>\<open>Byte_Code\<close>, \<^verbatim>\<open>Vm_Asm\<close>, \<^verbatim>\<open>Codegen\<close>: code buffers, the
    numbers in them, the instruction format and the code generator (\<^verbatim>\<open>codegen.c\<close>,
    \<^verbatim>\<open>vm-asm.h\<close>).
  \<^item> \<^verbatim>\<open>Vm_State\<close>, \<^verbatim>\<open>Vm_Frame\<close>, \<^verbatim>\<open>Vm_Tables\<close>, \<^verbatim>\<open>Vm_Stack\<close>, \<^verbatim>\<open>Vm_Run\<close>, \<^verbatim>\<open>Vm_Run1\<close>: the
    machine (\<^verbatim>\<open>vm.c\<close>, \<^verbatim>\<open>frame.c\<close>, \<^verbatim>\<open>closure.c\<close>, \<^verbatim>\<open>continuation.c\<close>, \<^verbatim>\<open>module.c\<close>): the
    registers and the heap in the record \<open>vm\<close>, a state monad with errors, the frames of
    arguments, the tables that code refers to by index, the markers on the stack
    (bindings, traps, escapers, saved registers) and every instruction of
    \<^verbatim>\<open>idio_vm_run1\<close>. \<^verbatim>\<open>Vm_Stack_Props\<close> and \<^verbatim>\<open>Vm_Steady\<close> say what the instructions keep.
    \<^verbatim>\<open>Vm_Pure\<close>: code that calls no C function does the same whatever these are.
  \<^item> \<^verbatim>\<open>Compile_Sem\<close>, \<^verbatim>\<open>Compile_Correct\<close>: a meaning of the intermediate code without code
    addresses, and the proof that the emitted bytes do the same on the machine, for the
    instructions of \<open>straight\<close>; and when the generator raises an error. \<^verbatim>\<open>Code_Align\<close>: the generated code is a
    sequence of whole instructions and its jumps lead to instructions.
    \<^verbatim>\<open>Vm_Control\<close>: calls, escapers, continuations, conditions and the creation of closures.
  \<^item> \<^verbatim>\<open>Idio_Meaning\<close>: the evaluator (\<^verbatim>\<open>evaluate.c\<close>): its tables of symbols, the tree of the
    names in scope and one definition for the meaning of each kind of form. \<^verbatim>\<open>Meaning_Scope\<close>: a
    tree of names stands for the list \<open>visible\<close> of names with their places, and names in scope
    have places of their own. \<^verbatim>\<open>Meaning_Run\<close>: the value \<open>eval f\<close> of a form with the values of
    the names before and after it, the frames on the machine that hold these values (\<open>holds\<close>),
    and what each instruction does to them (\<open>acts\<close>). \<^verbatim>\<open>Meaning_Correct\<close>: for the forms of a fragment
    (\<open>lexical_form\<close>: plain constants, arguments and local names, assignments to them,
    conditionals, sequences and functions called where they stand; not in tail position),
    evaluator, code generator and machine together compute \<open>eval\<close>.
  \<^item> \<^verbatim>\<open>Idio_Gc\<close>, \<^verbatim>\<open>Gc_Props\<close>, \<^verbatim>\<open>Gc_Collect\<close>, \<^verbatim>\<open>Gc_Safe\<close>, \<^verbatim>\<open>Gc_Alloc\<close>: the collector: the
    invariant of the three colours, a whole collection with weak tables and
    finalizers, what it keeps and what it frees, and allocation.

  \<^bold>\<open>Interfaces\<close> are locales. \<open>hash_key\<close> has the laws of a comparison and a hash function
  and gives the interface \<open>map_table\<close>; \<open>deque\<close> is what an array promises; \<open>bitwise\<close> is an
  operation on the words of two bitsets; \<open>int_operation\<close> and \<open>value_order\<close> are the
  arithmetic that the primitives with many arguments fold; \<open>binding_stack\<close> is the stack
  of dynamic and of environ variables; \<open>allocator\<close> is what a user of the heap relies on.
  The machine's model does not collect: its addresses grow and are not used again.
  \<open>allocator\<close> is interpreted on it and on the collector's lists, so code that relies on
  this interface alone runs on either.

  \<^bold>\<open>Loops.\<close> A loop of the code that ends by the size of what it walks is a recursive
  function with its termination proof. A loop that may not end is a partial function
  or takes fuel: twice the number of cells and the length of the grey list for the grey
  loop, which is enough; two levels for a resizing that puts entries again, which is
  enough as the new size has room for them; twice the size of the stack and a few more for
  the searches on it; and the number of instructions for \<open>run_loop\<close>, where some number is
  shown to be enough for compiled code. Running out of it is the error \<open>Diverges\<close>, or \<open>None\<close>.

  \<^bold>\<open>The build\<close> that is modelled is the release build on an LP64 system, where the
  assertions of \<^verbatim>\<open>idio.h\<close> are empty; the plain \<^verbatim>\<open>assert\<close> is not, and its failure is \<open>Process_exit 134\<close>.
  Indices into a frame are C numbers of 32 bits (\<open>idio_fi\<close>). There is one thread and one generation of objects.
  An access beyond an array or to an object of another type is \<open>Segmentation_fault\<close>.

  \<^bold>\<open>Arguments of the model\<close> are the C functions of primitives and the like (\<open>vm_ctx\<close>), C numbers in
  arithmetic (\<open>c_prim\<close>), equality of keys, \<^verbatim>\<open>isprint\<close>, what the code generator asks of the
  values in its lists and of symbols (\<open>codegen_ctx\<close>), and what the evaluator knows of values and primitives
  (\<open>meaning_ctx\<close>). Where both run, \<open>reads_lists\<close> says that the code generator finds a list of
  \<open>n\<close> values in the heap to have length \<open>n\<close>. The theorems on compiled code that may call
  primitives assume that the C functions are steady (\<open>ctx_steady\<close>): they leave the counter, the index of the
  execution environment, its byte code and the constants it has as they are, so they are
  not \<^verbatim>\<open>apply\<close>, \<^verbatim>\<open>load\<close> or \<^verbatim>\<open>eval\<close>.

  \<^bold>\<open>Not modelled.\<close> Of the evaluator: telling a form's kind from the list that it is, with the
  syntax errors (here a form is a datatype that keeps the list's value), the rewriting of
  bodies and of \<^verbatim>\<open>cond\<close>, quasi-quotation, traps, escapes, modules, included files, and the
  definition and expansion of templates and operators (also \<^verbatim>\<open>expander.c\<close>), which runs code
  written in the language on the whole system. The reader and handles
  (\<^verbatim>\<open>read.c\<close>, \<^verbatim>\<open>handle.c\<close>, \<^verbatim>\<open>file-handle.c\<close>), which are driven by files; job control,
  commands and the wrappers of the C library (\<^verbatim>\<open>job-control.c\<close>, \<^verbatim>\<open>command.c\<close>,
  \<^verbatim>\<open>libc-wrap.c\<close>), which are system calls; printing (\<^verbatim>\<open>util.c\<close>); the types of C
  (\<^verbatim>\<open>c-type.c\<close>); method tables and structures, but for the question
  whether a condition has a type (\<^verbatim>\<open>vtable.c\<close>, \<^verbatim>\<open>struct.c\<close>); the tables of
  symbols and keywords; \<^verbatim>\<open>libc-api.c\<close> and \<^verbatim>\<open>usi.c\<close>, which are generated; and of the machine
  signals, the queue of threads, tracing, the disassembler and saved state.
\<close>

section \<open>The numbers\<close>

text \<open>
  C11: the binary \<^verbatim>\<open>+\<close>, \<^verbatim>\<open>-\<close> and \<^verbatim>\<open>*\<close> that the VM and the infix operators call
  compute the exact integer for any two integers, fixnum or bignum, and return it as
  a fixnum exactly when it is in the fixnum range.
\<close>

theorem binary_arithmetic_exact:
  fixes n1 n2 :: "'c idio_num"
  assumes "num_int n1 = Some i" "num_int n2 = Some j"
  shows "binary_add c_prim n1 n2 = ret (canonical (i + j)) \<and>
    binary_subtract c_prim n1 n2 = ret (canonical (i - j)) \<and>
    binary_multiply c_prim n1 n2 = ret (canonical (i * j))"
  using binary_arith_ints [OF assms] by simp

theorem binary_arithmetic_exact_witness:
  "num_int (Fixnum FIXNUM_MAX :: unit idio_num) = Some FIXNUM_MAX \<and>
   binary_multiply (\<lambda>_ _. None) (Fixnum FIXNUM_MAX) (Fixnum 2) =
     (ret (canonical (FIXNUM_MAX * 2)) :: unit idio_num comp)"
  using binary_arithmetic_exact [of "Fixnum FIXNUM_MAX :: unit idio_num" FIXNUM_MAX "Fixnum 2" 2 "\<lambda>_ _. None"]
  by (simp add: in_fixnum_iff FIXNUM_bounds)

text \<open>
  C12: \<^verbatim>\<open>quotient\<close> and \<^verbatim>\<open>remainder\<close> truncate towards zero for any two integers and
  raise the divide-by-zero condition on a zero divisor; the quotient of the least
  fixnum by -1 is a fixnum conversion error.
\<close>

theorem integer_division_exact:
  fixes a b :: "'c idio_num"
  assumes "num_int a = Some i" "num_int b = Some j"
  shows "idio_quotient a b =
      (if j = 0 then raise Divide_by_zero_error
       else if a = Fixnum FIXNUM_MIN \<and> b = Fixnum (- 1) then raise (Fixnum_conversion_error (- FIXNUM_MIN))
       else ret (canonical (i sdiv j))) \<and>
    idio_remainder a b = (if j = 0 then raise Divide_by_zero_error else ret (canonical (i smod j)))"
  using idio_quotient_ints [OF assms] idio_remainder_ints [OF assms] by simp

theorem integer_division_exact_witness:
  "num_int (Fixnum (- 7) :: unit idio_num) = Some (- 7) \<and>
   idio_quotient (Fixnum (- 7)) (Fixnum 2) = (ret (Fixnum (- 3)) :: unit idio_num comp)"
  using integer_division_exact [of "Fixnum (- 7) :: unit idio_num" "- 7" "Fixnum 2" 2]
  by (simp add: in_fixnum_iff canonical_def)

text \<open>
  C25: \<^verbatim>\<open>+\<close>, \<^verbatim>\<open>-\<close> and \<^verbatim>\<open>*\<close> on any number of integers return the exact sum,
  difference and product, however the fixnum computation overflows on the way.
\<close>

theorem variadic_arithmetic_exact:
  fixes n :: "'c idio_num"
  assumes "ints (n # ns) (i # is)"
  shows "(\<exists>r. idio_add (n # ns) = ret r \<and> num_int r = Some (i + sum_list is)) \<and>
    (\<exists>r. idio_subtract n ns = ret r \<and> num_int r = Some (if is = [] then - i else i - sum_list is)) \<and>
    (\<exists>r. idio_multiply (n # ns) = ret r \<and> num_int r = Some (i * prod_list is))"
  using idio_add_ints [OF assms] idio_subtract_ints [OF assms] idio_multiply_ints [OF assms] by simp

theorem variadic_arithmetic_exact_witness:
  "ints [Fixnum FIXNUM_MAX, Fixnum 1, Bignum (bn_of (- 2)) :: unit idio_num] [FIXNUM_MAX, 1, - 2] \<and>
   (\<exists>r. idio_add [Fixnum FIXNUM_MAX, Fixnum 1, Bignum (bn_of (- 2))] = ret (r :: unit idio_num) \<and>
      num_int r = Some (FIXNUM_MAX - 1))"
  using variadic_arithmetic_exact
    [of "Fixnum FIXNUM_MAX :: unit idio_num" "[Fixnum 1, Bignum (bn_of (- 2))]" FIXNUM_MAX "[1, - 2]"]
  by (simp add: in_fixnum_iff FIXNUM_bounds)

text \<open>
  C26: the six comparisons of a list of integers hold exactly when they hold of each
  adjacent pair of the integers.
\<close>

theorem comparisons_exact:
  fixes n :: "'c idio_num"
  assumes "ints (n # ns) is"
  shows "idio_lt n ns = ret (successively (<) is) \<and> idio_le n ns = ret (successively (\<le>) is) \<and>
    idio_eq n ns = ret (successively (=) is) \<and> idio_ne n ns = ret (successively (\<noteq>) is) \<and>
    idio_ge n ns = ret (successively (\<ge>) is) \<and> idio_gt n ns = ret (successively (>) is)"
  using idio_cmp_ints [OF assms] by simp

theorem comparisons_exact_witness:
  "ints [Fixnum 1, Fixnum 5 :: unit idio_num, Bignum (bn_of 7)] [1, 5, 7] \<and>
   idio_lt (Fixnum 1 :: unit idio_num) [Fixnum 5, Bignum (bn_of 7)] = ret True"
  using comparisons_exact [of "Fixnum 1 :: unit idio_num" "[Fixnum 5, Bignum (bn_of 7)]" "[1, 5, 7]"]
  by (simp add: in_fixnum_iff)


text \<open>
  C24: the sum, difference, product and quotient of two normalised reals whose exponents
  are between \<open>- 10 ^ 9\<close> and \<open>10 ^ 9\<close>, well inside the 32 bits they have, are normalised
  reals (at most 18 digits, no trailing zero) within a factor of \<open>1 + 10 ^ -17\<close> of the exact
  value, and sums, differences and products that fit in 18 digits are exact.
\<close>

theorem real_arithmetic_rounding:
  assumes "real_normal a" "real_normal b" "\<bar>bn_exp a\<bar> \<le> 10 ^ 9" "\<bar>bn_exp b\<bar> \<le> 10 ^ 9"
  shows "(\<exists>r. real_add a b = ret r \<and> real_normal r \<and> close (bn_val a + bn_val b) (bn_val r) \<and>
      (\<bar>sum_sig a b\<bar> < INT_SEG_LIMIT \<longrightarrow> bn_val r = bn_val a + bn_val b)) \<and>
    (\<exists>r. real_subtract a b = ret r \<and> real_normal r \<and> close (bn_val a - bn_val b) (bn_val r) \<and>
      (\<bar>sum_sig a (real_negate b)\<bar> < INT_SEG_LIMIT \<longrightarrow> bn_val r = bn_val a - bn_val b)) \<and>
    (\<exists>r. real_multiply a b = ret r \<and> real_normal r \<and> close (bn_val a * bn_val b) (bn_val r) \<and>
      (mant a * mant b < INT_SEG_LIMIT \<longrightarrow> bn_val r = bn_val a * bn_val b)) \<and>
    (bn_val b \<noteq> 0 \<longrightarrow>
      (\<exists>r. real_divide a b = ret (Some r) \<and> real_normal r \<and> close (bn_val a / bn_val b) (bn_val r)))"
proof -
  have "exp_ok a" "exp_ok b" using assms(3,4) by (simp_all add: exp_ok_def)
  note n = assms(1,2) this
  show ?thesis using real_add_normal [OF n] real_subtract_normal [OF n] real_multiply_normal [OF n] real_divide_normal [OF n] by simp
qed

theorem real_arithmetic_rounding_witness:
  "\<exists>r. real_divide (bignum_real FLAG_NONE 0 [1]) (bignum_real FLAG_NONE 0 [3]) = ret (Some r) \<and>
    real_normal r \<and> close (1 / 3) (bn_val r)"
proof -
  have "real_normal (bignum_real FLAG_NONE 0 [1])" "real_normal (bignum_real FLAG_NONE 0 [3])"
    "bn_val (bignum_real FLAG_NONE 0 [1]) = 1" "bn_val (bignum_real FLAG_NONE 0 [3]) = 3"
    by (simp_all add: real_normal_def bn_val_def sig_val_def real_negative_p_def FLAG_NONE_def)
  then show ?thesis
    using real_arithmetic_rounding [of "bignum_real FLAG_NONE 0 [1]" "bignum_real FLAG_NONE 0 [3]"] by simp
qed

text \<open>
  C27: two normalised reals are equal exactly when their values are and they are both
  exact or both inexact, and less exactly when their values are.
\<close>

theorem real_comparison_exact:
  assumes "real_normal a" "real_normal b"
  shows "real_equal_p a b = ret (real_inexact_p a = real_inexact_p b \<and> bn_val a = bn_val b) \<and>
    real_lt_p a b = ret (bn_val a < bn_val b)"
  using real_equal_p_normal [OF assms] real_lt_p_normal [OF assms] by simp

theorem real_comparison_exact_witness:
  "real_lt_p (bignum_real FLAG_NONE (- 1) [25]) (bignum_real FLAG_NONE 0 [3]) = ret True"
proof -
  have "real_normal (bignum_real FLAG_NONE (- 1) [25])" "real_normal (bignum_real FLAG_NONE 0 [3])"
    "bn_val (bignum_real FLAG_NONE (- 1) [25]) = 5 / 2" "bn_val (bignum_real FLAG_NONE 0 [3]) = 3"
    by (simp_all add: real_normal_def bn_val_def sig_val_def real_negative_p_def FLAG_NONE_def)
  then show ?thesis
    using real_comparison_exact [of "bignum_real FLAG_NONE (- 1) [25]" "bignum_real FLAG_NONE 0 [3]"] by simp
qed

text \<open>
  C28: the floor of a normalised real is the greatest integer below it, except that for a
  negative real with an exponent below -18 it is one more, 0 where -1 is meant.
\<close>

theorem floor_exact:
  assumes "real_normal r"
  shows "\<exists>r'. bignum_primitive_floor r = ret r' \<and> real_normal r' \<and>
    bn_val r' = of_int (if bn_exp r < - 18 \<and> bn_val r < 0 then \<lfloor>bn_val r\<rfloor> + 1 else \<lfloor>bn_val r\<rfloor>)"
  using bignum_primitive_floor_all [OF assms] .

theorem floor_exact_witness:
  "\<exists>r'. bignum_primitive_floor (bignum_real FLAG_NONE (- 1) [25]) = ret r' \<and> bn_val r' = 2"
proof -
  have "real_normal (bignum_real FLAG_NONE (- 1) [25])" "bn_val (bignum_real FLAG_NONE (- 1) [25]) = 5 / 2"
    by (simp_all add: real_normal_def bn_val_def sig_val_def real_negative_p_def FLAG_NONE_def)
  moreover obtain r' where "bignum_primitive_floor (bignum_real FLAG_NONE (- 1) [25]) = ret r'"
    "bn_val r' = of_int \<lfloor>bn_val (bignum_real FLAG_NONE (- 1) [25])\<rfloor>"
    using floor_exact [of "bignum_real FLAG_NONE (- 1) [25]"] calculation(1) by auto
  moreover have "\<lfloor>5 / 2 :: rat\<rfloor> = 2" by (simp add: floor_divide_of_int_eq [of 5 2, simplified])
  ultimately show ?thesis by (metis of_int_numeral)
qed

text \<open>
  C38: a bignum becomes a fixnum exactly in the fixnum range, a signed C integer for
  every magnitude up to that of the largest one and an error otherwise; the conversion to an
  unsigned one wraps negative values silently.
\<close>

theorem bignum_conversions_bounded:
  "bignum_to_fixnum (bn_of i) = (if in_fixnum i then Some i else None) \<and>
   bignum_C_value (bn_of i) =
     (if \<bar>i\<bar> \<le> INTPTR_MAX then ret i
      else raise (Bignum_conversion_error
        (if \<bar>i\<bar> < 10 * INT_SEG_LIMIT then ''significand overflow'' else ''too large''))) \<and>
   bignum_C_uvalue (bn_of i) =
     (if \<bar>i\<bar> < INT_SEG_LIMIT \<or> in_fixnum i \<or> 0 \<le> i \<and> i < 19 * INT_SEG_LIMIT then ret (wrapu64 i)
      else raise (Bignum_conversion_error ''too large''))"
  using bignum_to_fixnum_bn_of bignum_C_value_bn_of bignum_C_uvalue_bn_of by simp

section \<open>Values\<close>

text \<open>
  C35: the tagged word of a fixnum, a constant, a code point or an aligned pointer is
  read back as the same value, so C's comparison of words is equality of values.
\<close>

theorem value_tags_roundtrip:
  assumes "value_ok v" "value_ok w"
  shows "decode_value (encode_value v) = Some v \<and> (encode_value v = encode_value w \<longleftrightarrow> v = w)"
  using decode_encode [OF assms(1)] encode_inject [OF assms] by simp

theorem value_tags_roundtrip_witness:
  "decode_value (encode_value (V_fixnum (- 3))) = Some (V_fixnum (- 3)) \<and>
   encode_value (V_fixnum (- 3)) \<noteq> encode_value (V_unicode 65)"
  using value_tags_roundtrip [of "V_fixnum (- 3)" "V_unicode 65"]
  by (simp add: value_ok_def in_fixnum_iff FIXNUM_bounds in_constant_def)

section \<open>Arrays\<close>

text \<open>
  C8: on the sequence of its elements a mutable array's push, pop, shift and unshift
  work at the two ends, an index reads from the front or, negative, from the back, and an
  index out of range is an error; the array's invariant is kept.
\<close>

theorem array_refines_sequence:
  assumes "mutable_ok a"
  shows "(\<exists>a'. idio_array_push a v = Inr a' \<and> mutable_ok a' \<and> elems a' = elems a @ [v]) \<and>
    (\<exists>a'. idio_array_pop S_nil a = Inr (if elems a = [] then S_nil else last (elems a), a') \<and>
      mutable_ok a' \<and> elems a' = butlast (elems a)) \<and>
    (\<exists>a'. idio_array_unshift a v = Inr a' \<and> mutable_ok a' \<and> elems a' = v # elems a) \<and>
    (\<exists>a'. idio_array_shift S_nil a = Inr (if elems a = [] then S_nil else hd (elems a), a') \<and>
      mutable_ok a' \<and> elems a' = tl (elems a)) \<and>
    idio_array_ref_index a i =
      (if 0 \<le> i \<and> i < int (length (elems a)) then Inr (elems a ! nat i)
       else if - int (length (elems a)) \<le> i \<and> i < 0 then Inr (elems a ! nat (i + int (length (elems a))))
       else Inl (Array_bounds_error i (length (elems a))))"
  using assms
proof (cases rule: mutable_ok_cases)
  case (1 fresh dv xs k)
  note a = 1(1) and n = 1(2)
  have "\<exists>a'. idio_array_pop S_nil a = Inr (if elems a = [] then S_nil else last (elems a), a') \<and>
      mutable_ok a' \<and> elems a' = butlast (elems a)"
    using n by (cases xs rule: rev_cases) (simp_all add: a)
  moreover have "\<exists>a'. idio_array_shift S_nil a = Inr (if elems a = [] then S_nil else hd (elems a), a') \<and>
      mutable_ok a' \<and> elems a' = tl (elems a)"
    using n by (cases xs) (simp_all add: a)
  ultimately show ?thesis using n spare_push_pos [OF n] by (simp add: a ref_index_cases)
qed

theorem array_refines_sequence_witness:
  "mutable_ok (array_of False (\<lambda>_. 0) (0 :: nat) [7, 8] 0) \<and>
   (\<exists>a'. idio_array_shift 0 (array_of False (\<lambda>_. 0) (0 :: nat) [7, 8] 0) = Inr (7, a') \<and> elems a' = [8])"
  using array_refines_sequence [of "array_of False (\<lambda>_. 0) (0 :: nat) [7, 8] 0" 0 0] by auto

text \<open>
  C34: \<^verbatim>\<open>array-ref\<close> and \<^verbatim>\<open>array-set!\<close> of an integer index: counted from the end if
  negative, \<^verbatim>\<open>array-set!\<close> one past the end appends, and any other index is a bounds error.
\<close>

theorem array_index_bounds:
  fixes n :: "'c idio_num"
  assumes "num_int n = Some i" "\<bar>i\<bar> \<le> INTPTR_MAX" "0 < length xs + k"
  shows "idio_array_ref (array_of False fresh dv xs k) n =
      (if 0 \<le> i \<and> i < int (length xs) then ret (xs ! nat i)
       else if - int (length xs) \<le> i \<and> i < 0 then ret (xs ! nat (i + int (length xs)))
       else raise (Array_bounds_error i (length xs))) \<and>
    idio_array_set (array_of False fresh dv xs k) n v =
      (if 0 \<le> i \<and> i < int (length xs) then ret (array_of False fresh dv (xs[nat i := v]) k)
       else if - int (length xs) \<le> i \<and> i < 0
       then ret (array_of False fresh dv (xs[nat (i + int (length xs)) := v]) k)
       else if i = int (length xs) then ret (array_of False fresh dv (xs @ [v]) (spare_push (length xs) k))
       else raise (Array_bounds_error i (length xs)))"
  by (intro conjI idio_array_ref_eq [OF assms(1,2)] idio_array_set_eq [OF assms(1-3)])

theorem array_index_bounds_witness:
  "idio_array_ref (array_of False (\<lambda>_. 0) (0 :: nat) [7, 8] 1) (Fixnum (- 1) :: unit idio_num) = ret 8 \<and>
   idio_array_set (array_of False (\<lambda>_. 0) (0 :: nat) [7, 8] 1) (Fixnum 3 :: unit idio_num) 5 =
     raise (Array_bounds_error 3 2)"
  using array_index_bounds [of "Fixnum (- 1) :: unit idio_num" "- 1" "[7, 8 :: nat]" 1 "\<lambda>_. 0" 0]
    array_index_bounds [of "Fixnum 3 :: unit idio_num" 3 "[7, 8 :: nat]" 1 "\<lambda>_. 0" 0 5]
  by (simp add: in_fixnum_iff FIXNUM_bounds INTPTR_MAX_def)

text \<open>Values pushed to an array are popped in the reverse order and, with what was there, shifted off in order.\<close>

theorem array_stack_and_queue:
  assumes "mutable_ok a"
  shows "\<exists>a1 a2 a3. fold_result (\<lambda>v a. idio_array_push a v) vs a = Inr a1 \<and>
    take_out (idio_array_pop S_nil) (length vs) a1 = Inr (rev vs, a2) \<and> mutable_ok a2 \<and> elems a2 = elems a \<and>
    take_out (idio_array_shift S_nil) (length (elems a)) a1 = Inr (elems a, a3) \<and> mutable_ok a3 \<and> elems a3 = vs"
  using ad.stack_lifo [OF assms, of vs S_nil] ad.queue_fifo [OF assms, of vs S_nil] by auto

theorem array_stack_and_queue_witness:
  "\<exists>a1 a2 a3. fold_result (\<lambda>v a. idio_array_push a v) [1, 2, 3] (idio_array_dv (\<lambda>_. 0) 1 (0 :: nat)) = Inr a1 \<and>
    take_out (idio_array_pop 0) (length [1, 2, 3 :: nat]) a1 = Inr (rev [1, 2, 3], a2) \<and> elems a2 = [] \<and>
    take_out (idio_array_shift 0) (length ([] :: nat list)) a1 = Inr ([], a3) \<and> elems a3 = [1, 2, 3]"
proof -
  let ?a = "idio_array_dv (\<lambda>_. 0) 1 (0 :: nat)"
  have a: "mutable_ok ?a" "elems ?a = []" by simp_all
  show ?thesis using array_stack_and_queue [OF a(1), of "[1, 2, 3]" 0] unfolding a(2) by blast
qed

section \<open>Hash tables\<close>

text \<open>
  C5: a hash table is a map on its keys: after \<^verbatim>\<open>hash-set!\<close> and \<^verbatim>\<open>hash-delete!\<close>, resizing
  included, every key is found with the value it should have and the count is right;
  \<^verbatim>\<open>hash-ref\<close> reads that map. The invariant that each entry is in the bucket of its hash,
  with no two equal keys and a bounded load, is kept.
\<close>

theorem hash_refines_map:
  assumes "hash_ok K eqk hv h" "k \<in> K" "0 < hash_room h"
    and equiv: "hash_key K eqk hv"
  shows "(\<exists>h'. idio_hash_put h (Some k) v = ret h' \<and> hash_ok K eqk hv h' \<and>
      hs_count h' = (if hash_lookup eqk hv h k = None then Suc (hs_count h) else hs_count h) \<and>
      (\<forall>k' \<in> K. hash_lookup eqk hv h' k' = (if eqk k' k then Some v else hash_lookup eqk hv h k'))) \<and>
    (\<exists>h'. idio_hash_delete h (Some k) = ret (h', hash_lookup eqk hv h k \<noteq> None) \<and> hash_ok K eqk hv h' \<and>
      hs_count h' = (if hash_lookup eqk hv h k = None then hs_count h else hs_count h - 1) \<and>
      (\<forall>k' \<in> K. hash_lookup eqk hv h' k' = (if eqk k' k then None else hash_lookup eqk hv h k'))) \<and>
    idio_hash_ref S_unspec h (Some k) = ret (case hash_lookup eqk hv h k of None \<Rightarrow> S_unspec | Some v \<Rightarrow> v)"
proof -
  have ok: "table_ok K eqk hv h" using assms(1) by (simp add: hash_ok_def)
  obtain h1 where "idio_hash_put h (Some k) v = ret h1" "hash_ok K eqk hv h1"
    "hs_count h1 = (if hash_lookup eqk hv h k = None then Suc (hs_count h) else hs_count h)"
    "\<And>k'. k' \<in> K \<Longrightarrow> hash_lookup eqk hv h1 k' = (if eqk k' k then Some v else hash_lookup eqk hv h k')"
    using hash_key.put_ok [OF equiv assms(1-3), of v] by blast
  moreover obtain h2 where "idio_hash_delete h (Some k) = ret (h2, hash_lookup eqk hv h k \<noteq> None)" "hash_ok K eqk hv h2"
    "hs_count h2 = (if hash_lookup eqk hv h k = None then hs_count h else hs_count h - 1)"
    "\<And>k'. k' \<in> K \<Longrightarrow> hash_lookup eqk hv h2 k' = (if eqk k' k then None else hash_lookup eqk hv h k')"
    using hash_key.delete_ok [OF equiv assms(1,2)] by blast
  ultimately show ?thesis using hash_key.hash_ref_eq [OF equiv ok assms(2), of S_unspec] by auto
qed

theorem hash_refines_map_witness:
  "\<exists>h h'. idio_hash_make_hash basic_functions Equiv_nil None (None :: unit idio_num option) = ret h \<and>
    idio_hash_put h (Some (Immediate 5)) (7 :: nat) = ret h' \<and> hs_count h' = 1 \<and>
    hash_lookup key_equalp hash_default h' (Immediate 5) = Some 7"
proof -
  obtain h :: "(basic_key, nat) idio_hash" where h: "idio_hash_make_hash basic_functions Equiv_nil None (None :: unit idio_num option) = ret h"
    "hash_ok basic_keys key_equalp hash_default h" "\<And>k. hash_lookup key_equalp hash_default h k = None" "hs_count h = 0"
    using make_hash_ok [of None] by blast
  have k: "Immediate 5 \<in> basic_keys" by (simp add: basic_keys_def)
  have r: "0 < hash_room h" using h(4) by (simp add: hash_room_def)
  obtain h' where "idio_hash_put h (Some (Immediate 5)) 7 = ret h'"
    "hs_count h' = (if hash_lookup key_equalp hash_default h (Immediate 5) = None then Suc (hs_count h) else hs_count h)"
    "\<forall>k' \<in> basic_keys. hash_lookup key_equalp hash_default h' k' =
      (if key_equalp k' (Immediate 5) then Some 7 else hash_lookup key_equalp hash_default h k')"
    using hash_refines_map [OF h(2) k r bk.hash_key_axioms, of 7] by blast
  moreover have "key_equalp (Immediate 5) (Immediate 5)" by (simp add: key_equalp_def)
  ultimately show ?thesis using h(1) k h(3,4) by auto
qed

text \<open>
  Merging two tables gives the second one's values where it has any, and a copy
  has the same values.
\<close>

theorem hash_merge_and_copy:
  fixes h1 h2 :: "('k, 'v) idio_hash"
  assumes "hash_ok K eqk hv h1" "hash_ok K eqk hv h2" "hs_count h2 \<le> hash_room h1" "hs_count h2 \<le> 2 ^ 60"
    and equiv: "hash_key K eqk hv"
  shows "(\<exists>h'. idio_merge_hash h1 h2 = ret h' \<and> hash_ok K eqk hv h' \<and>
      (\<forall>k \<in> K. hash_lookup eqk hv h' k =
        (case hash_lookup eqk hv h2 k of Some v \<Rightarrow> Some v | None \<Rightarrow> hash_lookup eqk hv h1 k))) \<and>
    (\<exists>h'. idio_copy_hash idio_copy h2 False = ret h' \<and> hash_ok K eqk hv h' \<and>
      (\<forall>k \<in> K. hash_lookup eqk hv h' k = hash_lookup eqk hv h2 k))"
proof -
  have ok: "table_ok K eqk hv h2" using assms(2) by (simp add: hash_ok_def)
  obtain h' where "idio_merge_hash h1 h2 = ret h'" "hash_ok K eqk hv h'"
    "\<And>k. k \<in> K \<Longrightarrow> hash_lookup eqk hv h' k =
      (case hash_lookup eqk hv h2 k of Some v \<Rightarrow> Some v | None \<Rightarrow> hash_lookup eqk hv h1 k)"
    using hash_key.merge_ok [OF equiv assms(1) ok assms(3)] by blast
  moreover obtain h'' where "idio_copy_hash idio_copy h2 False = ret h''" "hash_ok K eqk hv h''"
    "\<And>k. k \<in> K \<Longrightarrow> hash_lookup eqk hv h'' k = hash_lookup eqk hv h2 k"
    using hash_key.copy_ok [OF equiv ok assms(4), of idio_copy] by blast
  ultimately show ?thesis by blast
qed

theorem hash_merge_and_copy_witness:
  "\<exists>h h' :: (basic_key, nat) idio_hash. idio_hash_make_hash basic_functions Equiv_nil None (None :: unit idio_num option) = ret h \<and>
    idio_merge_hash h h = ret h' \<and> hash_lookup key_equalp hash_default h' (Immediate 5) = None"
proof -
  obtain h :: "(basic_key, nat) idio_hash" where h: "idio_hash_make_hash basic_functions Equiv_nil None (None :: unit idio_num option) = ret h"
    "hash_ok basic_keys key_equalp hash_default h" "\<And>k. hash_lookup key_equalp hash_default h k = None" "hs_count h = 0"
    using make_hash_ok [of None] by blast
  have k: "Immediate 5 \<in> basic_keys" by (simp add: basic_keys_def)
  have r: "hs_count h \<le> hash_room h" "hs_count h \<le> 2 ^ 60" using h(4) by simp_all
  obtain h' where "idio_merge_hash h h = ret h'"
    "\<forall>k \<in> basic_keys. hash_lookup key_equalp hash_default h' k = None"
    using hash_merge_and_copy [OF h(2) h(2) r bk.hash_key_axioms] h(3) by fastforce
  then show ?thesis using h(1) k by blast
qed

section \<open>Bitsets\<close>

text \<open>
  C32: the primitives on bitsets of one size above 0 are the operations of sets on the bits
  below the size, whatever the unused bits of the arguments; two bitsets are equal when the bits
  below the size are. The five operations set no unused bit when the arguments have none
  set, but \<^verbatim>\<open>not-bitset\<close> does unless the size is a multiple of 32. On bitsets of size 0
  the copy that they start with reads a word that was never allocated.
\<close>

theorem bitset_primitives_are_set_operations:
  assumes "\<forall>bs \<in> set (b # bss). bitset_ok bs \<and> bs_size bs = bs_size b"
  shows "(0 < bs_size b \<longrightarrow>
      bitset_result (ior_bitset (map Some (b # bss))) (b # bss) (\<Union>bs \<in> set (b # bss). bits_of bs) \<and>
      bitset_result (merge_bitset (map Some (b # bss))) (b # bss) (\<Union>bs \<in> set (b # bss). bits_of bs) \<and>
      bitset_result (and_bitset (map Some (b # bss))) (b # bss) (\<Inter>bs \<in> set (b # bss). bits_of bs) \<and>
      bitset_result (subtract_bitset (map Some (b # bss))) (b # bss) (bits_of b - (\<Union>bs \<in> set bss. bits_of bs)) \<and>
      bitset_result (xor_bitset (map Some (b # bss))) (b # bss)
        {k. odd (length (filter (\<lambda>bs. k \<in> bits_of bs) (b # bss)))} \<and>
      (\<exists>r. idio_not_bitset b = Inr r \<and> bitset_ok r \<and> bs_size r = bs_size b \<and> bits_of r = {..<bs_size b} - bits_of b \<and>
        (clean b \<longrightarrow> (clean r \<longleftrightarrow> bs_size b mod 32 = 0)))) \<and>
    (bs_size b = 0 \<longrightarrow> (\<forall>f \<in> {ior_bitset, merge_bitset, and_bitset, subtract_bitset, xor_bitset}.
        f (map Some (b # bss)) = Inl Segmentation_fault) \<and> idio_not_bitset b = Inl Segmentation_fault) \<and>
    idio_equal_bitsetp (map Some (b # bss)) = Inr (\<forall>c \<in> set bss. bits_of c = bits_of b)"
proof -
  have ok: "\<forall>bs \<in> set (b # bss). bitset_ok bs" using assms by blast
  then have b: "bitset_ok b" by simp
  have n: "\<exists>r. idio_not_bitset b = Inr r \<and> bitset_ok r \<and> bs_size r = bs_size b \<and> bits_of r = {..<bs_size b} - bits_of b \<and>
      (clean b \<longrightarrow> (clean r \<longleftrightarrow> bs_size b mod 32 = 0))" if s: "0 < bs_size b"
  proof (rule not_bitset_ok [OF b s])
    fix r assume r: "idio_not_bitset b = Inr r" "bitset_ok r" "bs_size r = bs_size b" "bits_of r = {..<bs_size b} - bits_of b"
    show ?thesis using not_bitset_clean [OF b s _ r(1)] r by (intro exI [of _ r] conjI impI)
  qed
  have e: "(\<forall>f \<in> {ior_bitset, merge_bitset, and_bitset, subtract_bitset, xor_bitset}.
      f (map Some (b # bss)) = Inl Segmentation_fault) \<and> idio_not_bitset b = Inl Segmentation_fault" if "bs_size b = 0"
    using bitset_primitives_empty [OF b that]
    by (simp add: ior_bitset_def merge_bitset_def and_bitset_def subtract_bitset_def xor_bitset_def)
  have "(\<forall>c \<in> set bss. bs_size c = bs_size b \<and> bits_of c = bits_of b) = (\<forall>c \<in> set bss. bits_of c = bits_of b)"
    using assms by simp
  then have "idio_equal_bitsetp (map Some (b # bss)) = Inr (\<forall>c \<in> set bss. bits_of c = bits_of b)"
    using equal_bitsetp_ok [OF ok] by (simp only:)
  then show ?thesis using n conjunct1 [OF e] conjunct2 [OF e] bitset_primitives_ok [OF assms] by (intro conjI impI)
qed

theorem bitset_primitives_are_set_operations_witness:
  "\<exists>r x. idio_not_bitset \<lparr>bs_size = 3, bs_words = [2]\<rparr> = Inr r \<and> bits_of r = {0, 2} \<and> \<not> clean r \<and>
     xor_bitset [Some r, Some \<lparr>bs_size = 3, bs_words = [1]\<rparr>] = Inr (Some x) \<and> bits_of x = {2}"
proof -
  let ?b = "\<lparr>bs_size = 3, bs_words = [2]\<rparr>" and ?c = "\<lparr>bs_size = 3, bs_words = [1]\<rparr>"
  have three: "{..<3} = {0, 1, 2 :: nat}" by (auto simp: lessThan_def)
  have c: "bitset_ok ?b" "bitset_ok ?c" by (simp_all add: bitset_ok_def)
  have d: "clean ?b" unfolding clean_def
  proof (intro allI impI)
    fix k assume k: "raw_bit ?b k"
    then have z: "k div 32 = 0" by (simp add: raw_bit_def)
    have "k mod 32 = 1" using k unfolding raw_bit_def z by (simp add: bit_2_iff)
    then show "k < bs_size ?b" using z div_mult_mod_eq [of k 32] by simp
  qed
  have b: "bits_of ?b = {1}" "bits_of ?c = {0}" by (auto simp: bits_of_def raw_bit_def bit_2_iff bit_1_iff)
  have minus: "{..<3} - {1} = {0, 2 :: nat}" unfolding three by (simp add: insert_Diff_if)
  have "\<exists>r. idio_not_bitset ?b = Inr r \<and> bitset_ok r \<and> bs_size r = 3 \<and> bits_of r = {..<3} - bits_of ?b \<and> (True \<longrightarrow> (clean r \<longleftrightarrow> False))"
    using conjunct1 [OF bitset_primitives_are_set_operations [of ?b "[]"], THEN mp] c(1) d by simp
  then obtain r where r: "idio_not_bitset ?b = Inr r" "bitset_ok r" "bs_size r = 3" "bits_of r = {0, 2}" "\<not> clean r"
    unfolding b minus by blast
  have x: "bitset_result (xor_bitset (map Some [r, ?c])) [r, ?c] {k. odd (length (filter (\<lambda>bs. k \<in> bits_of bs) [r, ?c]))}"
    using conjunct1 [OF bitset_primitives_are_set_operations [of r "[?c]"], THEN mp] r(2,3) c(2) by simp
  have "{k. odd (length (filter (\<lambda>bs. k \<in> bits_of bs) [r, ?c]))} = {2}"
  proof (rule set_eqI)
    show "k \<in> {k. odd (length (filter (\<lambda>bs. k \<in> bits_of bs) [r, ?c]))} \<longleftrightarrow> k \<in> {2}" for k
      unfolding mem_Collect_eq filter.simps r(4) b by simp
  qed
  then obtain x where "xor_bitset [Some r, Some ?c] = Inr (Some x)" "bits_of x = {2}"
    using x by (auto simp: bitset_result_def)
  then show ?thesis using r(1,4,5) by blast
qed

text \<open>
  C33: setting, clearing and testing a bit below the size change and read that bit
  alone; a bit from the size on is a bounds error.
\<close>

theorem bitset_bits:
  assumes "bitset_ok bs"
  shows "if k < bs_size bs
    then (\<exists>bs'. idio_bitset_set bs k = Inr bs' \<and> bitset_ok bs' \<and> bits_of bs' = insert k (bits_of bs)) \<and>
      (\<exists>bs'. idio_bitset_clear bs k = Inr bs' \<and> bitset_ok bs' \<and> bits_of bs' = bits_of bs - {k}) \<and>
      idio_bitset_ref bs k = Inr (k \<in> bits_of bs)
    else idio_bitset_set bs k = Inl (Bitset_bounds_error k (bs_size bs)) \<and>
      idio_bitset_clear bs k = Inl (Bitset_bounds_error k (bs_size bs)) \<and>
      idio_bitset_ref bs k = Inl (Bitset_bounds_error k (bs_size bs))"
proof (cases "k < bs_size bs")
  case True
  obtain b1 where "idio_bitset_set bs k = Inr b1" "bitset_ok b1" "bs_size b1 = bs_size bs"
    "raw_bit b1 = (raw_bit bs)(k := True)" by (rule bitset_set_ok [OF assms True])
  moreover obtain b2 where "idio_bitset_clear bs k = Inr b2" "bitset_ok b2" "bs_size b2 = bs_size bs"
    "raw_bit b2 = (raw_bit bs)(k := False)" by (rule bitset_clear_ok [OF assms True])
  ultimately show ?thesis using True bitset_ref_eq [OF assms True] by (auto simp: bits_of_def)
next
  case False
  then show ?thesis using out_of_bounds [of bs k] by simp
qed

theorem bitset_bits_witness:
  "(\<exists>bs'. idio_bitset_set (idio_bitset 40) 33 = Inr bs' \<and> bits_of bs' = {33}) \<and>
   idio_bitset_ref (idio_bitset 40) 40 = Inl (Bitset_bounds_error 40 40)"
  using bitset_bits [of "idio_bitset 40" 33] bitset_bits [of "idio_bitset 40" 40] by auto

text \<open>\<^verbatim>\<open>bitset-for-each-set\<close> calls the function for the bits that are set, in increasing order.\<close>

theorem bitset_visits_in_order:
  assumes "\<And>k w w'. f k w = ret w' \<Longrightarrow> bs w' = bs w" "bitset_ok (bs w)" "clean (bs w)"
  shows "bitset_for_each_set bs f w = fold_comp f (sorted_list_of_set (bits_of (bs w))) w"
  using for_each_ok [of f bs w, OF assms(1,2)] visited_clean [OF assms(2,3)] by simp

theorem bitset_visits_in_order_witness:
  "bitset_for_each_set fst (\<lambda>k (bs, ks). ret (bs, ks @ [k])) (idio_bitset 40, []) = ret (idio_bitset 40, [])"
  using bitset_visits_in_order [of "\<lambda>k (bs, ks). ret (bs, ks @ [k])" fst "(idio_bitset 40, [] :: nat list)"]
  by (auto simp: split_beta)

section \<open>Byte code\<close>

text \<open>
  C23: a 64-bit number written with variable length is read back from wherever it
  stands in the code, and the reader stops right behind it.
\<close>

theorem varuint_reads_back:
  assumes "n < 2 ^ 64"
  shows "idio_vm_get_varuint (pre @ idio_ia_compute_varuint n @ post) (length pre) =
    Inr (n, length pre + length (idio_ia_compute_varuint n))"
  using readsD [OF varuint_roundtrip [OF assms]] .

theorem varuint_reads_back_witness:
  "idio_vm_get_varuint ([0] @ idio_ia_compute_varuint 2288 @ [7]) 1 =
    Inr (2288, 1 + length (idio_ia_compute_varuint 2288))"
  using varuint_reads_back [of 2288 "[0]" "[7]"] by simp

text \<open>
  C36: a code buffer of at least two bytes never writes beyond its allocation: pushing
  and appending always succeed and keep what was there; one of a single byte overflows.
\<close>

theorem code_buffer_safe:
  assumes "ia_ok ia" "ia_ok ia2"
  shows "(\<exists>ia'. idio_ia_push ia b = Inr ia' \<and> ia_ok ia' \<and> ia_ae ia' = ia_ae ia @ [b]) \<and>
    (\<exists>ia'. idio_ia_append ia (Some ia2) = Inr ia' \<and> ia_ok ia' \<and> ia_ae ia' = ia_ae ia @ ia_ae ia2)"
  using ia_push_ok [OF assms(1), of b] ia_append_ok [OF assms] by metis

theorem code_buffer_safe_witness:
  "\<exists>ia'. idio_ia_push \<lparr>ia_asize = 2, ia_ae = [1, 2]\<rparr> 3 = Inr ia' \<and> ia_ae ia' = [1, 2, 3]"
  using code_buffer_safe [of "\<lparr>ia_asize = 2, ia_ae = [1, 2]\<rparr>" "\<lparr>ia_asize = 2, ia_ae = []\<rparr>" 3]
  by (auto simp: ia_ok_def ia_usize_def)

section \<open>The evaluator\<close>

text \<open>
  C15: a name is found where it was introduced last, arguments and local names that are in
  scope together never share a slot, each slot is one of those its function has in use,
  and the list of names given to a frame has a place for each of them.
\<close>

theorem names_have_own_slots:
  assumes "nt_ok nt"
  shows "idio_meaning_lexical_lookup nt x = map_of (visible nt 0) x \<and>
    distinct (map slot_of (filter in_frame (visible nt 0))) \<and>
    (\<forall>e \<in> set (filter in_frame (visible nt 0)). 0 \<le> fst (slot_of e) \<and> nat (fst (slot_of e)) < length (slots nt) \<and>
      0 \<le> snd (slot_of e) \<and> snd (slot_of e) < int (slots nt ! nat (fst (slot_of e)))) \<and>
    (in_function nt \<longrightarrow> hd (slots nt) \<le> length (names_loop nt []))"
  using lexical_distinct [OF assms, of 0] lexical_slot [OF assms, of _ 0] names_loop_room [OF assms, of "[]"]
  by (simp add: idio_meaning_lexical_lookup_def lookup_visible)

theorem names_have_own_slots_witness:
  "let nt = idio_meaning_nametree_extend_local (idio_meaning_nametree_extend_params [] [V_pointer 4]) (V_pointer 4)
   in idio_meaning_lexical_lookup nt (V_pointer 4) = Some (NT_local, 0, 2) \<and> distinct (map slot_of (filter in_frame (visible nt 0)))"
proof -
  let ?p = "idio_meaning_nametree_extend_params [] [V_pointer 4]"
  have p: "nt_ok ?p" unfolding idio_meaning_nametree_extend_params_def by (rule nt_ok.params [OF nt_ok.empty]) simp
  have "in_function ?p" by (simp add: idio_meaning_nametree_extend_params_def)
  from names_have_own_slots [OF nt_ok.local [OF p this], of "V_pointer 4" "V_pointer 4"] show ?thesis
    by (simp add: Let_def) (simp add: idio_meaning_lexical_lookup_def idio_meaning_nametree_extend_local_def
        idio_meaning_nametree_extend_params_def idio_meaning_nametree_extend_vparams_def enumerate_eq_zip)
qed

text \<open>
  C1: the evaluator, the code generator and the machine together are correct for the forms of
  \<open>lexical_form\<close>: constants that are no pointers, names of arguments and local names in scope,
  assignments to them, escapes, \<^verbatim>\<open>not\<close>, \<^verbatim>\<open>if\<close>, \<^verbatim>\<open>and\<close>, \<^verbatim>\<open>or\<close>, \<^verbatim>\<open>begin\<close>, definitions of local
  names and functions called where they stand with exactly their arguments; not in tail
  position, and with less than \<open>2 ^ 31\<close> names. There are no other calls, no functions as
  values, no rest arguments and no names outside the frames. Such a form has intermediate code; its bytes,
  followed by \<^verbatim>\<open>FINISH\<close>, run to the end from any state whose frames hold the values of the
  names, on a machine with any primitives, leave the value that the form has by \<open>eval\<close>,
  the names with the values they have then, and the stack as it was.
\<close>

theorem evaluated_code_correct:
  assumes "lexical_form f xs" "lexical_tree nt xs" "length xs < 2 ^ 31" "\<not> fl_tailp fl"
  shows "\<exists>c s'. idio_meaning m f src nt fl me s = (Inr (c, me), s') \<and>
    (\<forall>gx ee. reads_lists gx s' \<longrightarrow> constants_ok ee \<longrightarrow>
      (\<exists>bs ee'. idio_codegen_compile gx c ee = Inr (bs, ee') \<and>
        (length (ee_cs ee') < 2 ^ 64 \<longrightarrow> length bs < 2 ^ 64 \<longrightarrow>
         (\<forall>t as b env. code_at t (vm_pc t) (bs @ asm IDIO_A_FINISH []) \<longrightarrow> constants_at t (ee_cs ee') \<longrightarrow> holds t nt as b env \<longrightarrow>
           (\<exists>t' n. (\<forall>fuel \<ge> n. run_loop fuel cx t = Some (Inr (), t')) \<and> vm_val t' = fst (eval f env) \<and>
             vm_stack t' = vm_stack t \<and> holds t' nt as b (snd (eval f env)))))))"
proof -
  have "emits (without_C cx) nt (idio_meaning m f) (eval f)" using evaluator_emits [OF assms(1,2)] assms(3) by simp
  then show ?thesis by (rule evaluated_code_runs [OF _ assms(4)]) blast
qed

theorem evaluated_code_correct_witness:
  "\<exists>t' n. idio_meaning plain_mc sample_form idio_S_nil [] MEANING_FLAG_NONE plain_me (plain_vm [] []) =
      (Inr (sample_form_icode, plain_me), names_vm) \<and>
    idio_codegen_compile names_gx sample_form_icode plain_ee = Inr (sample_form_code, sample_form_ee) \<and>
    run_loop n plain_ctx (plain_vm (sample_form_code @ asm IDIO_A_FINISH []) [V_pointer 8]) = Some (Inr (), t') \<and>
    vm_val t' = idio_S_true"
proof -
  have fl: "\<not> fl_tailp MEANING_FLAG_NONE" by (simp add: MEANING_FLAG_NONE_def)
  have h: "holds (plain_vm (sample_form_code @ asm IDIO_A_FINISH []) [V_pointer 8]) [] [] idio_S_nil []"
    by (simp add: holds_def frames_fit_def arities_def bound_def plain_vm_def)
  have "\<forall>gx ee. reads_lists gx names_vm \<longrightarrow> constants_ok ee \<longrightarrow>
      (\<exists>bs ee'. idio_codegen_compile gx sample_form_icode ee = Inr (bs, ee') \<and>
        (length (ee_cs ee') < 2 ^ 64 \<longrightarrow> length bs < 2 ^ 64 \<longrightarrow>
         (\<forall>t as b env. code_at t (vm_pc t) (bs @ asm IDIO_A_FINISH []) \<longrightarrow> constants_at t (ee_cs ee') \<longrightarrow> holds t [] as b env \<longrightarrow>
           (\<exists>t' n. (\<forall>fuel \<ge> n. run_loop fuel plain_ctx t = Some (Inr (), t')) \<and> vm_val t' = fst (eval sample_form env) \<and>
             vm_stack t' = vm_stack t \<and> holds t' [] as b (snd (eval sample_form env))))))"
    using evaluated_code_correct [OF sample_form_lexical lexical_tree_Nil _ fl,
      of plain_mc idio_S_nil plain_me "plain_vm [] []" plain_ctx]
    unfolding sample_form_meaning by simp
  from this [rule_format, OF names_gx_reads plain_ee_ok] have
    "\<forall>t as b env. code_at t (vm_pc t) (sample_form_code @ asm IDIO_A_FINISH []) \<longrightarrow> constants_at t [V_pointer 8] \<longrightarrow>
       holds t [] as b env \<longrightarrow>
       (\<exists>t' n. (\<forall>fuel \<ge> n. run_loop fuel plain_ctx t = Some (Inr (), t')) \<and> vm_val t' = fst (eval sample_form env) \<and>
         vm_stack t' = vm_stack t \<and> holds t' [] as b (snd (eval sample_form env)))"
    unfolding sample_form_compiles by simp
  from this [rule_format, OF _ _ h] obtain t' n where
    "\<forall>fuel \<ge> n. run_loop fuel plain_ctx (plain_vm (sample_form_code @ asm IDIO_A_FINISH []) [V_pointer 8]) = Some (Inr (), t')"
    "vm_val t' = idio_S_true"
    by auto
  then show ?thesis by auto
qed

section \<open>Compiled code on the virtual machine\<close>

text \<open>
  C2: the code generator is correct. For intermediate code of the fragment that
  \<^verbatim>\<open>straight\<close> names, the bytes \<^verbatim>\<open>idio_codegen_compile\<close> emits make the machine do what the
  intermediate code means, from the first byte to behind the last, wherever they
  stand in the byte code and whatever machine has the constants.
\<close>

theorem compiled_code_correct:
  assumes "ctx_steady cx" "straight m" "meaning cx gx m ee = Inr (a, ee')" "constants_ok ee"
    "length (ee_cs ee') < 2 ^ 64"
  shows "\<exists>bs. idio_codegen_compile gx m ee = Inr (bs, ee') \<and>
    (length bs < 2 ^ 64 \<longrightarrow> (\<forall>s s'. code_at s (vm_pc s) bs \<longrightarrow> constants_at s (ee_cs ee') \<longrightarrow> a s = (Inr (), s') \<longrightarrow>
      vm_steps cx s (s'\<lparr>vm_pc := vm_pc s + length bs\<rparr>)))"
proof -
  obtain bs where "idio_codegen_compile gx m ee = Inr (bs, ee')" "steady a"
    "length (ee_cs ee') < 2 ^ 64 \<longrightarrow> length bs < 2 ^ 64 \<longrightarrow> runs cx (ee_cs ee') bs a"
    by (rule compile_correct [OF assms(1-4)])
  then show ?thesis using assms(5) unfolding runs_def by blast
qed

theorem compiled_code_correct_witness:
  "vm_steps plain_ctx (plain_vm sample_code []) ((plain_vm sample_code [])\<lparr>vm_val := V_fixnum 7, vm_pc := 10\<rparr>)"
proof -
  have "\<forall>s s'. code_at s (vm_pc s) sample_code \<longrightarrow> constants_at s [] \<longrightarrow> sample_action s = (Inr (), s') \<longrightarrow>
      vm_steps plain_ctx s (s'\<lparr>vm_pc := vm_pc s + 10\<rparr>)"
    using compiled_code_correct [of plain_ctx sample plain_gx plain_ee sample_action plain_ee] by simp
  from spec [OF this, of "plain_vm sample_code []"] show ?thesis by simp
qed

text \<open>
  C6: such code followed by \<^verbatim>\<open>FINISH\<close> ends: with enough steps the run loop returns, in the
  state the meaning of the code gives, where this is no error; the C functions it calls are
  steady as above.
\<close>

theorem compiled_code_terminates:
  assumes "ctx_steady cx" "straight m" "meaning cx gx m ee = Inr (a, ee')" "constants_ok ee"
    "length (ee_cs ee') < 2 ^ 64"
  shows "\<exists>bs. idio_codegen_compile gx m ee = Inr (bs, ee') \<and>
    (length bs < 2 ^ 64 \<longrightarrow> (\<forall>s s'. code_at s (vm_pc s) (bs @ asm IDIO_A_FINISH []) \<longrightarrow> constants_at s (ee_cs ee') \<longrightarrow>
      a s = (Inr (), s') \<longrightarrow>
      (\<exists>n. \<forall>fuel \<ge> n. run_loop fuel cx s = Some (Inr (), s'\<lparr>vm_pc := vm_pc s + length bs + 1\<rparr>))))"
proof -
  obtain bs where "idio_codegen_compile gx m ee = Inr (bs, ee')" "steady a"
    "length (ee_cs ee') < 2 ^ 64 \<longrightarrow> length bs < 2 ^ 64 \<longrightarrow> runs cx (ee_cs ee') bs a"
    by (rule compile_correct [OF assms(1-4)])
  then show ?thesis using compiled_code_finishes assms(5) by blast
qed

theorem compiled_code_terminates_witness:
  "\<exists>n. run_loop n plain_ctx (plain_vm (sample_code @ asm IDIO_A_FINISH []) []) =
    Some (Inr (), (plain_vm (sample_code @ asm IDIO_A_FINISH []) [])\<lparr>vm_val := V_fixnum 7, vm_pc := 11\<rparr>)"
proof -
  have "\<forall>s s'. code_at s (vm_pc s) (sample_code @ asm IDIO_A_FINISH []) \<longrightarrow> constants_at s [] \<longrightarrow>
      sample_action s = (Inr (), s') \<longrightarrow>
      (\<exists>n. \<forall>fuel \<ge> n. run_loop fuel plain_ctx s = Some (Inr (), s'\<lparr>vm_pc := vm_pc s + 10 + 1\<rparr>))"
    using compiled_code_terminates [of plain_ctx sample plain_gx plain_ee sample_action plain_ee] by simp
  from spec [OF this, of "plain_vm (sample_code @ asm IDIO_A_FINISH []) []"] show ?thesis by auto
qed

text \<open>
  C20: compilation only adds to the tables of the evaluation environment, and keeps the
  invariant that a constant found in the table of indexes is at its index: the
  constants compiled code refers to stay where they are.
\<close>

theorem constants_table_invariant:
  assumes "constants_ok ee" "idio_codegen_compile gx m ee = Inr (bs, ee')"
  shows "constants_ok ee' \<and> prefix (ee_cs ee) (ee_cs ee') \<and> prefix (ee_ses ee) (ee_ses ee') \<and>
    (\<forall>v ci ee''. idio_codegen_constants_lookup_or_extend ee' v = (ci, ee'') \<longrightarrow>
      constants_ok ee'' \<and> prefix (ee_cs ee') (ee_cs ee'') \<and> ci < length (ee_cs ee'') \<and> ee_cs ee'' ! ci = v)"
proof -
  have g: "ee_grows ee ee'" by (rule growsD [OF compile_grows assms(2)])
  then have "constants_ok ee'" using assms(1) by (simp add: ee_grows_def)
  then show ?thesis using g lookup_or_extend_ok [of ee'] unfolding ee_grows_def by blast
qed

theorem constants_table_invariant_witness:
  "\<exists>bs ee. idio_codegen_compile plain_gx (I_CONSTANT_REF (V_pointer 8)) plain_ee = Inr (bs, ee) \<and>
    constants_ok ee \<and> ee_cs ee = [V_pointer 8]"
proof -
  obtain bs ee where c: "idio_codegen_compile plain_gx (I_CONSTANT_REF (V_pointer 8)) plain_ee = Inr (bs, ee)"
    "ee_cs ee = [V_pointer 8]"
    by (simp add: cg_constant_def with_constant_def idio_codegen_constants_lookup_or_extend_def emit_def
        idio_codegen_constants_lookup_def idio_codegen_extend_constants_def plain_ee_def Let_def)
  then show ?thesis using constants_table_invariant [OF plain_ee_ok c(1)] by blast
qed

text \<open>
  C21: whatever the environment, the code generator succeeds on intermediate code without an
  error, and on other code raises the error of its first instruction that has one. Such
  instructions are references to values by index, which it does not know (\<open>bad instruction\<close>),
  constants of a kind that no code denotes, definitions whose name is no symbol or whose kind is
  none of the five scopes, a \<^verbatim>\<open>begin\<close> without instructions, an empty list of
  instructions and one that starts with such a list. The number and the types of the other operands hold by the
  datatype of intermediate code.
\<close>

theorem generator_errors_exact:
  "case first_error gx m of
     None \<Rightarrow> \<exists>bs ee'. idio_codegen_compile gx m ee = Inr (bs, ee')
   | Some e \<Rightarrow> idio_codegen_compile gx m ee = Inl e"
  using compile_decides [of gx m] by (auto simp: decides_def verdict_def split: option.splits)

theorem generator_errors_exact_witness:
  "(\<exists>bs ee'. idio_codegen_compile plain_gx (I_SEQUENCE I_NOP I_RETURN) plain_ee = Inr (bs, ee')) \<and>
   idio_codegen_compile plain_gx (I_SEQUENCE I_NOP I_VAL_REF) plain_ee = Inl (Coding_error ''bad instruction'') \<and>
   idio_codegen_compile plain_gx (I_SEQUENCE (I_BEGIN []) I_VAL_REF) plain_ee = Inl (Coding_error ''BEGIN tail? m+'') \<and>
   idio_codegen_compile plain_gx (I_SYM_DEF (V_fixnum 1) idio_S_nil 0) plain_ee = Inl (Param_type_error ''symbol'')"
  using generator_errors_exact [of plain_gx "I_SEQUENCE I_NOP I_RETURN" plain_ee]
    generator_errors_exact [of plain_gx "I_SEQUENCE I_NOP I_VAL_REF" plain_ee]
    generator_errors_exact [of plain_gx "I_SEQUENCE (I_BEGIN []) I_VAL_REF" plain_ee]
    generator_errors_exact [of plain_gx "I_SYM_DEF (V_fixnum 1) idio_S_nil 0" plain_ee] by (simp add: plain_gx_def)



section \<open>Variables, calls and control\<close>

text \<open>
  C18: a binding of a dynamic or environ variable shadows the ones below it, can be
  assigned to, leaves the other variables of both kinds as they are, and when it is taken off the
  machine is as it was before.
\<close>

theorem bindings_shadow:
  assumes "binds idio_SM_dynamic (vm_stack s) ds" "binds idio_SM_environ (vm_stack s) es"
    "v \<notin> {idio_SM_dynamic, idio_SM_environ, idio_S_undef}" "v' \<notin> {idio_SM_dynamic, idio_SM_environ, idio_S_undef}"
  shows "(\<exists>t. idio_vm_push_dynamic gvi v s = (Inr (), t) \<and>
      binds idio_SM_dynamic (vm_stack t) ((gvi, v) # ds) \<and> binds idio_SM_environ (vm_stack t) es \<and>
      idio_vm_dynamic_ref cx gvi d t = (Inr v, t) \<and>
      (\<forall>g w. g \<noteq> gvi \<longrightarrow> map_of ds g = Some w \<longrightarrow> w \<noteq> idio_S_undef \<longrightarrow> idio_vm_dynamic_ref cx g d t = (Inr w, t)) \<and>
      (\<exists>t'. idio_vm_dynamic_set gvi v' t = (Inr (), t') \<and> idio_vm_dynamic_ref cx gvi d t' = (Inr v', t') \<and>
        idio_vm_pop_dynamic t' = (Inr (), s)) \<and>
      idio_vm_pop_dynamic t = (Inr (), s)) \<and>
    (\<exists>t. idio_vm_push_environ gvi v s = (Inr (), t) \<and>
      binds idio_SM_environ (vm_stack t) ((gvi, v) # es) \<and> binds idio_SM_dynamic (vm_stack t) ds \<and>
      idio_vm_environ_ref cx gvi d t = (Inr v, t) \<and>
      (\<forall>g w. g \<noteq> gvi \<longrightarrow> map_of es g = Some w \<longrightarrow> w \<noteq> idio_S_undef \<longrightarrow> idio_vm_environ_ref cx g d t = (Inr w, t)) \<and>
      (\<exists>t'. idio_vm_environ_set gvi v' t = (Inr (), t') \<and> idio_vm_environ_ref cx gvi d t' = (Inr v', t') \<and>
        idio_vm_pop_environ t' = (Inr (), s)) \<and>
      idio_vm_pop_environ t = (Inr (), s))"
proof -
  have v: "v \<noteq> idio_SM_dynamic" "v \<noteq> idio_SM_environ" "v \<noteq> idio_S_undef" "v' \<noteq> idio_SM_dynamic" "v' \<noteq> idio_SM_environ"
    "v' \<noteq> idio_S_undef" using assms(3,4) by auto
  note defs = idio_vm_push_dynamic_def idio_vm_dynamic_ref_def idio_vm_dynamic_set_def idio_vm_pop_dynamic_def
    idio_vm_push_environ_def idio_vm_environ_ref_def idio_vm_environ_set_def idio_vm_pop_environ_def
  have other: "binds idio_SM_environ (vm_stack s @ binding idio_SM_dynamic (vm_stack s) gvi v) es"
    "binds idio_SM_dynamic (vm_stack s @ binding idio_SM_environ (vm_stack s) gvi v) ds"
    using binding_other [OF assms(2)] binding_other [OF assms(1)] v by simp_all
  show ?thesis unfolding defs
    using dyn.shadows [OF assms(1) v(1,3,4,6), where gvi = gvi and cx = cx and unbound = Dynamic_unbound_error and d = d and msg = "''iv-pop-dynamic: unexpected stack marker''"]
      envi.shadows [OF assms(2) v(2,3,5,6), where gvi = gvi and cx = cx and unbound = Environ_unbound_error and d = d and msg = "''iv-pop-environ: unexpected stack marker''"] other
    by (elim exE conjE; intro conjI exI; (assumption | simp only:))
qed

theorem bindings_shadow_witness:
  "\<exists>t. idio_vm_push_dynamic 5 (V_fixnum 1) (plain_vm [] []) = (Inr (), t) \<and>
    idio_vm_dynamic_ref plain_ctx 5 None t = (Inr (V_fixnum 1), t) \<and> idio_vm_pop_dynamic t = (Inr (), plain_vm [] [])"
proof -
  have "vm_stack (plain_vm [] []) = []" by (simp add: plain_vm_def)
  then show ?thesis
    using bindings_shadow [of "plain_vm [] []" "[]" "[]" "V_fixnum 1" "V_fixnum 2" 5 plain_ctx None]
      binds.empty [of idio_SM_dynamic] binds.empty [of idio_SM_environ] by auto
qed

text \<open>
  C19: the registers saved by \<^verbatim>\<open>PRESERVE-STATE\<close> or before an interrupt come back, with
  the stack as it was, whatever the other registers are by then; another marker on the
  stack makes the machine panic.
\<close>

theorem saved_registers_restored:
  assumes "vm_stack t = vm_stack (snd (idio_vm_preserve_state s))" "env_ok t (vm_env s)"
    "vm_stack u = vm_stack (snd (idio_vm_preserve_all_state s))" "env_ok u (vm_env s)"
    "cx_interactive cx \<or> idio_isa_function u (vm_func s)"
    "vm_stack w = st @ [v]" "v \<noteq> idio_SM_preserve_state"
  shows "idio_vm_restore_state t = (Inr (), t\<lparr>vm_stack := vm_stack s, vm_env := vm_env s, vm_frame := vm_frame s\<rparr>) \<and>
    idio_vm_restore_all_state cx u = (Inr (), u\<lparr>vm_stack := vm_stack s, vm_val := vm_val s, vm_func := vm_func s,
      vm_expr := vm_expr s, vm_reg2 := vm_reg2 s, vm_reg1 := vm_reg1 s, vm_env := vm_env s, vm_frame := vm_frame s\<rparr>) \<and>
    idio_vm_restore_state w = (Inl (Vm_panic ''iv_restore_state: unexpected stack marker''), w)"
  using restore_state_eq [OF _ assms(2), of "vm_stack s"] restore_all_state_eq [OF _ assms(4,5), of "vm_stack s"]
    restore_state_panic [OF assms(6,7)] assms(1,3) by simp

theorem saved_registers_restored_witness:
  "idio_vm_restore_state ((plain_vm [] [])\<lparr>vm_stack := [V_fixnum 3, idio_S_nil, idio_SM_preserve_state], vm_frame := V_fixnum 8\<rparr>) =
    (Inr (), (plain_vm [] [])\<lparr>vm_frame := V_fixnum 3\<rparr>)"
  using saved_registers_restored [of
      "(plain_vm [] [])\<lparr>vm_stack := [V_fixnum 3, idio_S_nil, idio_SM_preserve_state], vm_frame := V_fixnum 8\<rparr>"
      "(plain_vm [] [])\<lparr>vm_frame := V_fixnum 3\<rparr>"
      "(plain_vm [] [])\<lparr>vm_stack := [V_fixnum 3, idio_S_nil, idio_SM_preserve_state, idio_S_nil, idio_S_nil, idio_S_nil,
        idio_S_nil, idio_S_unspec, idio_SM_preserve_all_state]\<rparr>"
      "plain_ctx\<lparr>cx_interactive := True\<rparr>" "(plain_vm [] [])\<lparr>vm_stack := [V_fixnum 1]\<rparr>" "[]" "V_fixnum 1"]
  by (simp add: plain_vm_def env_ok_def)

text \<open>
  C17: calling a closure goes to its code in its frame, environment and byte code;
  a return with the stack as the call left it comes back behind the call with the caller's
  stack. A tail call leaves the stack alone, so that the callee's return is the caller's.
\<close>

theorem call_and_return:
  assumes "obj_at s f = Some (O_closure c)"
  shows "(\<exists>t. idio_vm_invoke cx f False s = (Inr (), t) \<and> vm_frame t = cl_frame c \<and> vm_env t = cl_env c \<and>
      vm_xi t = cl_xi c \<and> vm_pc t = cl_code_pc c \<and> vm_val t = vm_val s \<and>
      (\<forall>u. vm_stack u = vm_stack t \<longrightarrow> returnable u (vm_xi s) (vm_pc s) \<longrightarrow>
        return_to u = (Inr (), u\<lparr>vm_stack := vm_stack s, vm_xi := vm_xi s, vm_pc := vm_pc s\<rparr>))) \<and>
    (\<exists>t. idio_vm_invoke cx f True s = (Inr (), t) \<and> vm_stack t = vm_stack s \<and> vm_frame t = cl_frame c \<and>
      vm_env t = cl_env c \<and> vm_xi t = cl_xi c \<and> vm_pc t = cl_code_pc c)"
  using return_to_eq [of _ "vm_stack s" "vm_pc s" "vm_xi s"]
  by (simp add: idio_vm_invoke_closure [OF assms] invoke_closure_eq returnable_def)

theorem call_and_return_witness:
  "\<exists>t. idio_vm_invoke plain_ctx (V_pointer 8) True ((plain_vm [] [])\<lparr>vm_heap := [8 \<mapsto> O_closure
      \<lparr>cl_xi = 0, cl_code_pc = 9, cl_code_len = 1, cl_name = idio_S_nil, cl_frame = idio_S_nil, cl_env = idio_S_nil,
       cl_sigstr = idio_S_nil, cl_docstr = idio_S_nil, cl_sei = 0\<rparr>]\<rparr>) = (Inr (), t) \<and> vm_pc t = 9"
  using call_and_return [of "(plain_vm [] [])\<lparr>vm_heap := [8 \<mapsto> O_closure
      \<lparr>cl_xi = 0, cl_code_pc = 9, cl_code_len = 1, cl_name = idio_S_nil, cl_frame = idio_S_nil, cl_env = idio_S_nil,
       cl_sigstr = idio_S_nil, cl_docstr = idio_S_nil, cl_sei = 0\<rparr>]\<rparr>" "V_pointer 8"
      "\<lparr>cl_xi = 0, cl_code_pc = 9, cl_code_len = 1, cl_name = idio_S_nil, cl_frame = idio_S_nil, cl_env = idio_S_nil,
       cl_sigstr = idio_S_nil, cl_docstr = idio_S_nil, cl_sei = 0\<rparr>" plain_ctx]
  by (auto simp: obj_at_def)

text \<open>
  C16: \<^verbatim>\<open>ESCAPER-LABEL-REF\<close> leaves to the innermost escaper of the label: the stack is cut
  back to where it was pushed, the frame comes back, and the run goes on at the counter
  behind its block; a label that no escaper has is an unbound variable condition.
\<close>

theorem escapers_unwind:
  assumes "escapes (vm_stack s) es"
  shows "(map_of es l = Some (st, pc, fr) \<longrightarrow>
      idio_vm_escaper_label_ref l s = (Inr (), s\<lparr>vm_stack := st, vm_frame := fr, vm_pc := pc\<rparr>)) \<and>
    (map_of es l = None \<longrightarrow>
      idio_vm_escaper_label_ref l s = (Inl (Runtime_unbound_error (u64 (fixnum_of l))), s)) \<and>
    (vm_frame s \<noteq> idio_SM_escaper \<longrightarrow> l \<noteq> idio_SM_escaper \<longrightarrow>
      (\<exists>t. idio_vm_push_escaper l offset s = (Inr (), t) \<and>
        escapes (vm_stack t) ((l, vm_stack s, vm_pc s + offset + 1, vm_frame s) # es) \<and>
        idio_vm_pop_escaper t = (Inr (), s)))"
proof -
  let ?e = "[V_fixnum (int (vm_pc s + offset + 1)), vm_frame s, l, idio_SM_escaper]"
  have "idio_vm_push_escaper l offset s = (Inr (), s\<lparr>vm_stack := vm_stack s @ ?e\<rparr>)"
    by (simp add: idio_vm_push_escaper_def del: push_n.simps)
  moreover have "idio_vm_pop_escaper (s\<lparr>vm_stack := vm_stack s @ ?e\<rparr>) = (Inr (), s)"
    using pop_four [of "s\<lparr>vm_stack := vm_stack s @ ?e\<rparr>" "vm_stack s"] by (simp add: idio_vm_pop_escaper_def)
  ultimately show ?thesis using escaper_label_ref_eq [OF assms, of l] escapes.escaper [OF assms, of "vm_frame s" l "vm_pc s + offset + 1"]
    by auto
qed

theorem escapers_unwind_witness:
  "idio_vm_escaper_label_ref (V_fixnum 4) ((plain_vm [] [])\<lparr>vm_stack := [V_fixnum 30, idio_S_nil, V_fixnum 4, idio_SM_escaper, V_fixnum 1]\<rparr>) =
    (Inr (), (plain_vm [] [])\<lparr>vm_stack := [], vm_frame := idio_S_nil, vm_pc := 30\<rparr>)"
proof -
  have "escapes (([] @ [V_fixnum (int 30), idio_S_nil, V_fixnum 4, idio_SM_escaper]) @ [V_fixnum 1]) [(V_fixnum 4, [], 30, idio_S_nil)]"
    by (intro escapes.intros) simp_all
  then show ?thesis
    using escapers_unwind [of "(plain_vm [] [])\<lparr>vm_stack := [V_fixnum 30, idio_S_nil, V_fixnum 4, idio_SM_escaper, V_fixnum 1]\<rparr>"
      "[(V_fixnum 4, [], 30, idio_S_nil)]" "V_fixnum 4" "[]" 30 idio_S_nil 0]
    by simp
qed

text \<open>
  C14: a continuation that was captured and is reinstated later gives the thread back as it
  was at the capture, counter, stack and registers, with the value it is given, and
  starts the run loop again.
\<close>

theorem continuation_reinstates:
  assumes "idio_continuation False s = (Inr k, s')" "obj_at u k = obj_at s' k"
  shows "idio_vm_restore_continuation_data k v u = (Inr (), u\<lparr>vm_pc := vm_pc s, vm_xi := vm_xi s,
      vm_stack := vm_stack s, vm_frame := vm_frame s, vm_env := vm_env s, vm_module := vm_module s, vm_val := v\<rparr>) \<and>
    idio_vm_restore_continuation k v u = (Inl Siglongjmp :: unit result, u\<lparr>vm_pc := vm_pc s, vm_xi := vm_xi s,
      vm_stack := vm_stack s, vm_frame := vm_frame s, vm_env := vm_env s, vm_module := vm_module s, vm_val := v\<rparr>)"
proof -
  have "obj_at u k = Some (O_continuation (captured s))" using assms by (auto simp: capture_eq obj_at_def)
  from reinstate_eq [OF this] show ?thesis by (simp add: idio_vm_restore_continuation_def seq_vm_Inr)
qed

theorem continuation_reinstates_witness:
  "idio_vm_restore_continuation_data (V_pointer 4) (V_fixnum 6)
      ((snd (idio_continuation False (plain_vm [] [])))\<lparr>vm_stack := [V_fixnum 1], vm_pc := 40\<rparr>) =
    (Inr (), (snd (idio_continuation False (plain_vm [] [])))\<lparr>vm_val := V_fixnum 6\<rparr>)"
proof -
  let ?s = "plain_vm [] []"
  have k: "idio_continuation False ?s = (Inr (V_pointer 4), snd (idio_continuation False ?s))"
    by (simp add: capture_eq plain_vm_def)
  show ?thesis
    using continuation_reinstates [OF k, of "(snd (idio_continuation False ?s))\<lparr>vm_stack := [V_fixnum 1], vm_pc := 40\<rparr>" "V_fixnum 6"]
    by (simp add: capture_eq plain_vm_def obj_at_def)
qed

text \<open>
  C39: a delimited continuation is lost: it holds the size of the stack, but the flag that
  says so is overwritten, and reinstating it takes the size for the stack.
\<close>

theorem delimited_continuation_fails:
  "\<exists>k. fst (idio_continuation True s) = Inr k \<and>
    fst (idio_vm_restore_continuation_data k v (snd (idio_continuation True s))) = Inl Segmentation_fault"
  by (rule delimited_eq)



text \<open>
  C37: the code of a function, when it is run, makes a closure that starts where the
  function's body stands in the byte code, with the names the constants give and the frame
  and environment of the moment, and goes on behind the body.
\<close>

theorem function_code_creates_closure:
  fixes nci fci dsci sei :: nat and tf :: "byte list"
  assumes "length tf < 2 ^ 64" "nci < 2 ^ 64" "fci < 2 ^ 64" "dsci < 2 ^ 64" "sei < 2 ^ 64"
    "code_at s (vm_pc s) (function_code tf (int nci) (int fci) (int dsci) (int sei))"
    "\<forall>ci \<in> {nci, fci, dsci}. ci < length (xe_cs (vm_xenvs s ! vm_xi s))"
  shows "\<exists>t c. vm_steps cx s t \<and> vm_pc t = vm_pc s + length (function_code tf (int nci) (int fci) (int dsci) (int sei)) \<and>
    obj_at t (vm_val t) = Some (O_closure c) \<and> code_at t (cl_code_pc c) tf \<and> cl_code_len c = length tf \<and>
    cl_frame c = vm_frame s \<and> cl_env c = vm_env s \<and> cl_xi c = vm_xi s \<and>
    cl_name c = xe_cs (vm_xenvs s ! vm_xi s) ! nci \<and> vm_stack t = vm_stack s"
proof -
  let ?code = "function_code tf (int nci) (int fci) (int dsci) (int sei)"
  let ?c = "created s (vm_pc s + (length ?code - length tf)) (length tf) nci fci dsci sei"
  let ?t = "s\<lparr>vm_heap := (vm_heap s)(vm_next s \<mapsto> O_closure ?c), vm_next := vm_next s + 4,
    vm_val := V_pointer (vm_next s), vm_pc := vm_pc s + length ?code\<rparr>"
  have "code_at ?t (vm_pc s + (length ?code - length tf)) tf"
    using function_code_runs(2) [OF assms] by (simp add: code_at_def)
  then show ?thesis using function_code_runs(1) [OF assms, of cx]
    by (intro exI [of _ ?t] exI [of _ ?c]) (simp add: obj_at_def, simp add: created_def Let_def)
qed

theorem function_code_creates_closure_witness:
  "\<exists>t c. vm_steps plain_ctx (plain_vm (function_code [IDIO_I IDIO_A_RETURN] 0 0 0 0) [V_fixnum 5]) t \<and>
    obj_at t (vm_val t) = Some (O_closure c) \<and> cl_name c = V_fixnum 5 \<and> cl_code_len c = 1"
  using function_code_creates_closure [of "[IDIO_I IDIO_A_RETURN]" 0 0 0 0
      "plain_vm (function_code [IDIO_I IDIO_A_RETURN] 0 0 0 0) [V_fixnum 5]" plain_ctx]
  by (auto simp: plain_vm_def code_at_def)



section \<open>The garbage collector\<close>

text \<open>
  C7: whatever the program does, the collector's lists hold every object once, the used
  and weak ones are those that have a type, the count of free objects is right and no object
  is left grey between collections.
\<close>

theorem collector_invariant:
  assumes "gc_run g"
  shows "heap_ok g \<and> (\<forall>a. \<not> is_grey g a) \<and> (\<forall>a \<in> set (gc_free g). \<not> live g a)"
  using gc_run_inv [OF assms] by (auto simp: gc_inv_def heap_ok_def)

theorem collector_invariant_witness:
  "\<exists>g. gc_run g \<and> gc_used g = [999] \<and> length (gc_free g) = 999 \<and> heap_ok g"
proof -
  have get: "Idio_Gc.idio_gc_get G_string idio_gc_obj_new = (a, g) \<Longrightarrow> a = 999 \<and> gc_used g = [999] \<and> length (gc_free g) = 999" for a g
    by (auto simp: idio_gc_get_eq obtain_cell_def idio_gc_get_alloc_def pool_shape idio_gc_obj_new_def Let_def)
  obtain a g where g: "Idio_Gc.idio_gc_get G_string idio_gc_obj_new = (a, g)" by fastforce
  have r: "gc_run g" by (rule run_get [OF run_new _ g]) simp
  show ?thesis using collector_invariant [OF r] get [OF g] r by blast
qed

text \<open>
  C3: a collection loses no object that it should keep. Every object that can be reached, as
  the collector follows objects, from the roots or from the key or the value of an entry
  that a weak table still has afterwards and whose key is an object, without going through a weak
  table itself, survives unchanged; a weak table that can be reached so survives too, and may lose entries.
  Nothing is said of the values under keys that are no objects: these are not marked, so that
  such a value may be freed while the table has it (\<^verbatim>\<open>gc.c\<close>, \<open>weak_value_dangles\<close>). Nor is the function
  of a frame or the name of a closure followed (\<open>contents\<close>).
\<close>

theorem collection_safe:
  assumes "heap_ok g" "idio_gc_collect g = Inr g'"
    "reach (set (gc_weak g)) g (roots g \<union> weak_held g g') a"
  shows "live g' a \<and> (a \<notin> set (gc_weak g) \<longrightarrow> c_obj (cell_at g' a) = c_obj (cell_at g a))"
  using reachable_kept [OF assms] .

theorem collection_safe_witness:
  "\<exists>g'. idio_gc_collect (weak_sample [(V_pointer 1, V_pointer 2)]) = Inr g' \<and>
    weak_entries g' 0 = Some [[(V_pointer 1, V_pointer 2)]] \<and> live g' 2 \<and> c_obj (cell_at g' 2) = G_string"
proof -
  let ?g = "weak_sample [(V_pointer 1, V_pointer 2)]"
  have "after (idio_gc_collect ?g) (\<lambda>g. weak_entries g 0) = Some (Some [[(V_pointer 1, V_pointer 2)]])" by code_simp
  then obtain g' where g': "idio_gc_collect ?g = Inr g'" "weak_entries g' 0 = Some [[(V_pointer 1, V_pointer 2)]]"
    by (auto simp: after_def split: sum.splits)
  have s: "gc_weak ?g = [0]" by (simp add: weak_sample_def)
  have "V_pointer 2 \<in> weak_held ?g g'" unfolding weak_held_def s using g'(2) by auto
  moreover have "live ?g 2" by (simp add: live_def weak_sample_cell plain_cell_def)
  ultimately have "reach (set (gc_weak ?g)) ?g (roots ?g \<union> weak_held ?g g') 2" by (intro reach_root) auto
  from collection_safe [OF weak_sample_ok g'(1) this] show ?thesis using g' s by (simp add: weak_sample_cell plain_cell_def)
qed

text \<open>
  C4: with no weak tables a collection returns, and keeps exactly the objects that can be
  reached from the roots, as the collector follows objects, and the sticky ones, unchanged.
  The running program has weak tables, for the properties and the finalizers, until it
  collects for the last time.
\<close>

theorem collection_exact:
  assumes "heap_ok g" "gc_weak g = []" "gc_pause g = 0" "gc_finalizer_hash g = idio_S_nil"
  shows "\<exists>g'. idio_gc_collect g = Inr g' \<and> heap_ok g' \<and>
    (\<forall>a. live g' a \<longleftrightarrow> live g a \<and> (reach {} g (roots g) a \<or> c_sticky (cell_at g a))) \<and>
    (\<forall>a. live g' a \<longrightarrow> c_obj (cell_at g' a) = c_obj (cell_at g a))"
proof -
  obtain g' where "idio_gc_collect g = Inr g'"
    "\<And>a. live g' a \<longleftrightarrow> live g a \<and> (reach {} g (roots g) a \<or> c_sticky (cell_at g a))"
    "\<And>a. live g' a \<Longrightarrow> c_obj (cell_at g' a) = c_obj (cell_at g a)"
    by (rule collect_exact [OF assms], rule that)
  then show ?thesis using heap_ok_collect [OF assms(1)] by blast
qed

theorem collection_exact_witness:
  "\<exists>g'. idio_gc_collect (pair_sample) = Inr g' \<and> live g' 0 \<and> live g' 1 \<and> \<not> live g' 2"
proof -
  have c: "heap_ok pair_sample" "gc_weak pair_sample = []" "gc_pause pair_sample = 0" "gc_finalizer_hash pair_sample = idio_S_nil"
    using pair_sample_ok by (simp_all add: pair_sample_def idio_gc_obj_new_def)
  show ?thesis using collection_exact [OF c] pair_sample_reach by auto
qed

text \<open>
  C30: marking ends: twice the number of objects and the length of the grey list are
  turns enough for the grey loop, from any state in which black objects hold marked ones
  only; a whole collection ends too, weak tables included. A finalizer is a C function that is
  recorded as run, its own run is not modelled.
\<close>

theorem collection_ends:
  assumes "heap_ok g" "tricolour S h"
  shows "(\<exists>h'. process_all_grey h = Inr h' \<and> gc_grey h' = [] \<and> tricolour S h') \<and> idio_gc_collect g \<noteq> Inl Diverges"
proof -
  obtain h' where "process_all_grey h = Inr h'" "tricolour S h'" "gc_grey h' = []" using process_all_grey_ends [OF assms(2)] by blast
  then show ?thesis using collect_ends [OF assms(1)] by blast
qed

theorem collection_ends_witness:
  "heap_ok pair_sample \<and> tricolour {} (whiten (gc_used pair_sample) pair_sample) \<and>
   idio_gc_collect pair_sample \<noteq> Inl Diverges"
  using collection_ends [OF pair_sample_ok whiten_tricolour(1) [OF pair_sample_ok]]
    whiten_tricolour(1) [OF pair_sample_ok] pair_sample_ok by (simp add: pair_sample_def idio_gc_obj_new_def)

text \<open>
  C31: objects allocated one after another, from the free list or from a new pool, are at
  addresses of their own where no object was, hold what they were made with, and leave
  the objects that were there alone.
\<close>

theorem allocation_fresh:
  assumes "heap_ok g" "list_all (\<lambda>ob. ob \<noteq> G_none) obs" "alloc_list Idio_Gc.idio_gc_get obs g = (as, g')"
  shows "heap_ok g' \<and> distinct as \<and> length as = length obs \<and> (\<forall>a \<in> set as. \<not> live g a) \<and>
    (\<forall>i < length obs. obj_of g' (as ! i) = Some (obs ! i)) \<and> (\<forall>b. live g b \<longrightarrow> obj_of g' b = obj_of g b)"
proof -
  note r = collector.alloc_list_ok [OF assms] and s = collector.alloc_list_apart [OF assms]
  have "\<not> live g a" if "a \<in> set as" for a
  proof -
    have "obj_of g a = None" using s(2) that by auto
    then show ?thesis by (simp add: obj_of_def split: if_splits)
  qed
  moreover have "obj_of g' b = obj_of g b" if "live g b" for b using s(4) [of b] that by (simp add: obj_of_def)
  ultimately show ?thesis using r s(1,3) by blast
qed

theorem allocation_fresh_witness:
  "\<exists>a b g'. alloc_list Idio_Gc.idio_gc_get [G_string, G_pair idio_S_nil idio_S_nil] idio_gc_obj_new = ([a, b], g') \<and> a \<noteq> b \<and>
    obj_of g' a = Some G_string"
proof -
  have ok: "heap_ok idio_gc_obj_new" using gc_run_inv [OF run_new] by (simp add: gc_inv_def)
  obtain as g' where g: "alloc_list Idio_Gc.idio_gc_get [G_string, G_pair idio_S_nil idio_S_nil] idio_gc_obj_new = (as, g')" by fastforce
  have f: "heap_ok g' \<and> distinct as \<and> length as = length [G_string, G_pair idio_S_nil idio_S_nil] \<and> (\<forall>a \<in> set as. \<not> live idio_gc_obj_new a) \<and>
    (\<forall>i < length [G_string, G_pair idio_S_nil idio_S_nil]. obj_of g' (as ! i) = Some ([G_string, G_pair idio_S_nil idio_S_nil] ! i)) \<and>
    (\<forall>b. live idio_gc_obj_new b \<longrightarrow> obj_of g' b = obj_of idio_gc_obj_new b)"
    by (rule allocation_fresh [OF ok _ g]) simp
  then obtain a b where "as = [a, b]" by (auto simp: length_Suc_conv)
  then show ?thesis using f g by auto
qed

section \<open>Strings\<close>

text \<open>
  C10: every well-formed string, pathnames and octet strings too, is printed, with or without
  escapes and quotes, in the memory reserved for it. For one without surrogates that is neither a
  pathname nor an octet string, the plain bytes are decoded to its code points again; the
  plain bytes of a pathname and of an octet string are its units.
\<close>

theorem utf8_roundtrip:
  assumes "str_ok s"
  shows "(\<exists>bs. idio_utf8_string isprint prec s with_escapes quoted = Inr bs) \<and>
    (\<not> is_pathname (str_flags (parent_string s)) \<longrightarrow> \<not> is_octet (str_flags (parent_string s)) \<longrightarrow> list_all scalar (codes s) \<longrightarrow>
      (\<exists>bs. idio_string_as_C isprint 0 s = Inr bs \<and> codes (String (idio_string_C_len cp bs)) = codes s)) \<and>
    (is_pathname (str_flags (parent_string s)) \<or> is_octet (str_flags (parent_string s)) \<longrightarrow>
      idio_string_as_C isprint 0 s = Inr (codes s))"
proof (intro conjI impI)
  show "\<exists>bs. idio_utf8_string isprint prec s with_escapes quoted = Inr bs" by (rule utf8_string_fits [OF assms])
  show "\<exists>bs. idio_string_as_C isprint 0 s = Inr bs \<and> codes (String (idio_string_C_len cp bs)) = codes s"
    if p: "\<not> is_pathname (str_flags (parent_string s))" "\<not> is_octet (str_flags (parent_string s))" and c: "list_all scalar (codes s)"
  proof -
    let ?bs = "concat (map utf8 (codes s))"
    have "list_all (\<lambda>b. b < 256) ?bs" using c utf8_bytes(1) by (fastforce simp: list_all_iff scalar_def)
    then have "codes (String (idio_string_C_len cp ?bs)) = codes s" using decode_all_utf8 [OF c] by (simp add: C_len_ok)
    then show ?thesis using as_C_utf8 [OF assms p c] by auto
  qed
qed (rule as_C_octets [OF assms])

theorem utf8_roundtrip_witness:
  "\<exists>bs. idio_string_as_C (\<lambda>_. True) 0 (String (idio_string_C_len 0 [104, 195, 169])) = Inr bs \<and>
     codes (String (idio_string_C_len 0 bs)) = [104, 233]"
proof -
  let ?s = "String (idio_string_C_len 0 [104, 195, 169])"
  have d: "decode_all 0 [104, 195, 169] = [104, 233]"
    using decode_all_utf8 [of "[104, 233]" 0] by (simp add: scalar_def utf8_def)
  have "str_ok ?s" "codes ?s = [104, 233]" using C_len_ok [of "[104, 195, 169]" 0] unfolding d by simp_all
  moreover have "str_flags (parent_string ?s) = FLAG_1BYTE"
    unfolding idio_string_C_len_def d by (simp add: parent_string_def Let_def widen_def)
  ultimately show ?thesis
    using utf8_roundtrip [of ?s "\<lambda>_. True" 0 False False 0] by (simp add: is_pathname_def is_octet_def scalar_def)
qed

text \<open>
  C29: a string made from any bytes is well formed: as many units as its length says, each of
  them a code point that fits the width. \<^verbatim>\<open>string-set!\<close>, \<^verbatim>\<open>string-fill!\<close>, \<^verbatim>\<open>substring\<close>
  and \<^verbatim>\<open>copy-string\<close> keep it so or raise a condition, and joining texts of well-formed UTF-8 gives
  the string of all their code points. What \<^verbatim>\<open>make-string\<close> returns is well formed, and for less
  than \<open>2 ^ 62\<close> code points it returns; for more of the wide ones the number of bytes
  overflows and it writes past its memory.
\<close>

theorem strings_well_formed:
  assumes "str_ok s" "list_all (\<lambda>b. b < 256) bs" "list_all (list_all scalar) css"
    "index_value n = ret k" "0 \<le> k" "k < 2 ^ 63" "c \<le> 0x10FFFF"
  shows "string_ok (idio_string_C_len cp bs) \<and> string_ok (idio_octet_string_C_len bs) \<and>
    (\<exists>p. idio_string_C_array_lens cp (map (\<lambda>cs. concat (map utf8 cs)) css) = Inr p \<and> string_ok p \<and>
      codes (String p) = concat css) \<and>
    (\<forall>p. make_string n (Some c) = ret p \<longrightarrow> string_ok p) \<and>
    (k < 2 ^ 62 \<longrightarrow> (\<exists>p. make_string n (Some c) = ret p \<and> codes (String p) = replicate (nat k) c)) \<and>
    (2 ^ 62 \<le> k \<longrightarrow> 0xffff < c \<longrightarrow> make_string n (Some c) = raise Segmentation_fault) \<and>
    (\<forall>t. idio_string_set_C s i uc = Inr t \<longrightarrow> str_ok t \<and> idio_string_len t = idio_string_len s) \<and>
    (\<forall>t. string_fill s uc = Inr t \<longrightarrow> str_ok t) \<and>
    (\<forall>t. substring_C s i j = Inr t \<longrightarrow> str_ok t) \<and>
    (\<forall>t. idio_copy_string s = Inr t \<longrightarrow> str_ok t \<and> codes t = codes s)"
proof (intro conjI)
  show "string_ok (idio_string_C_len cp bs)" "string_ok (idio_octet_string_C_len bs)"
    using C_len_ok(1) [OF assms(2)] octet_ok [OF assms(2)] by simp_all
  show "\<exists>p. idio_string_C_array_lens cp (map (\<lambda>cs. concat (map utf8 cs)) css) = Inr p \<and> string_ok p \<and>
      codes (String p) = concat css" by (rule joined_ok [OF assms(3)])
  show "\<forall>p. make_string n (Some c) = ret p \<longrightarrow> string_ok p" using make_ok by blast
  show "k < 2 ^ 62 \<longrightarrow> (\<exists>p. make_string n (Some c) = ret p \<and> codes (String p) = replicate (nat k) c)"
    "2 ^ 62 \<le> k \<longrightarrow> 0xffff < c \<longrightarrow> make_string n (Some c) = raise Segmentation_fault"
    using make_string_ints [OF assms(4,5,7)] assms(6) by blast+
  show "\<forall>t. idio_string_set_C s i uc = Inr t \<longrightarrow> str_ok t \<and> idio_string_len t = idio_string_len s"
    using set_ok [OF assms(1)] by blast
  show "\<forall>t. string_fill s uc = Inr t \<longrightarrow> str_ok t"
    using fill_ok [OF assms(1)] by (auto simp: string_fill_def split: if_split_asm)
  show "\<forall>t. substring_C s i j = Inr t \<longrightarrow> str_ok t"
    using substring_codes [OF assms(1), of i j] by (auto split: option.splits)
  show "\<forall>t. idio_copy_string s = Inr t \<longrightarrow> str_ok t \<and> codes t = codes s"
    using copy_string_ok [OF assms(1)] by auto
qed

theorem strings_well_formed_witness:
  "string_ok (idio_string_C_len 0 [255, 195, 169]) \<and>
   (\<exists>p. idio_string_C_array_lens 0 [[195, 169], [97]] = Inr p \<and> codes (String p) = [233, 97]) \<and>
   make_string (Bignum (bn_of (2 ^ 62)) :: unit idio_num) (Some 0x10000) = raise Segmentation_fault"
proof -
  let ?n = "Bignum (bn_of (2 ^ 62)) :: unit idio_num"
  have o: "str_ok (String (idio_octet_string_C_len [255]))" using octet_ok [of "[255]"] by simp
  have b: "list_all (\<lambda>b. b < 256) [255, 195, 169 :: nat]" "list_all (list_all scalar) [[233], [97]]" by (simp_all add: scalar_def)
  have n: "index_value ?n = ret (2 ^ 62)" by (rule index_value_ints) (simp_all add: INTPTR_MAX_def)
  have u: "map (\<lambda>cs. concat (map utf8 cs)) [[233], [97]] = [[195, 169], [97]]" by (simp add: utf8_def)
  note w = strings_well_formed [OF o b n, of "0x10000" 0, unfolded u]
  from w have "string_ok (idio_string_C_len 0 [255, 195, 169])" by simp
  moreover from w have "\<exists>p. idio_string_C_array_lens 0 [[195, 169], [97]] = Inr p \<and> codes (String p) = [233, 97]" by fastforce
  moreover from w have "make_string ?n (Some 0x10000) = raise Segmentation_fault" by simp
  ultimately show ?thesis by blast
qed

text \<open>
  C9: a string or a substring stands for the sequence of its code points. \<^verbatim>\<open>string-ref\<close> and
  \<^verbatim>\<open>string-set!\<close> read and update it at an index, which may count from the end,
  \<^verbatim>\<open>substring\<close> takes the part between two, \<^verbatim>\<open>string-index\<close> and \<^verbatim>\<open>string-rindex\<close> find the
  first and the last place of a code point, and strings are equal exactly when their
  sequences are; an index that is out of bounds raises the condition.
\<close>

theorem strings_refine_sequences:
  assumes "str_ok s" "str_ok t"
  shows "idio_string_ref_C s i =
      (case index_in i (length (codes s)) of None \<Rightarrow> Inl (String_error ''out of bounds'') | Some k \<Rightarrow> Inr (codes s ! k)) \<and>
    map_result codes (idio_string_set_C s i c) =
      (if \<not> c \<le> 0x10FFFF then Inl (Param_value_error ''string-set!'' ''code point'')
       else if idio_string_storage_size s < (if c \<le> 0xff then 1 else if c \<le> 0xffff then 2 else 4)
       then Inl (String_error ''replacement char too wide'')
       else case index_in i (length (codes s)) of None \<Rightarrow> Inl (String_error ''out of bounds'')
         | Some k \<Rightarrow> Inr ((codes s)[k := c])) \<and>
    map_result codes (substring_C s i j) =
      (case slice i j (codes s) of None \<Rightarrow> Inl (String_error ''out of bounds'') | Some cs \<Rightarrow> Inr cs) \<and>
    idio_string_index s c backwards =
      Inr (List.find (\<lambda>i. codes s ! i = c) ((if backwards then rev else (\<lambda>xs. xs)) [0..<length (codes s)])) \<and>
    idio_string_equal s t = (codes s = codes t)"
proof -
  have "map_result codes (idio_string_set_C s i c) =
      (if \<not> c \<le> 0x10FFFF then Inl (Param_value_error ''string-set!'' ''code point'')
       else if idio_string_storage_size s < (if c \<le> 0xff then 1 else if c \<le> 0xffff then 2 else 4)
       then Inl (String_error ''replacement char too wide'')
       else case index_in i (length (codes s)) of None \<Rightarrow> Inl (String_error ''out of bounds'')
         | Some k \<Rightarrow> Inr ((codes s)[k := c]))"
    using set_ok [OF assms(1), of i c] unfolding set_codes [OF assms(1)] by (auto split: option.split)
  moreover have "map_result codes (substring_C s i j) =
      (case slice i j (codes s) of None \<Rightarrow> Inl (String_error ''out of bounds'') | Some cs \<Rightarrow> Inr cs)"
    using substring_codes [OF assms(1), of i j] by (auto split: option.splits)
  ultimately show ?thesis
    using ref_codes [OF assms(1)] index_codes [OF assms(1)] equal_codes [OF assms] by blast
qed

theorem strings_refine_sequences_witness:
  "idio_string_ref_C (String (idio_octet_string_C_len [97, 98, 99])) (- 1) = Inr 99 \<and>
   map_result codes (substring_C (String (idio_octet_string_C_len [97, 98, 99])) 1 (- 1)) = Inr [98]"
proof -
  let ?s = "String (idio_octet_string_C_len [97, 98, 99])"
  have o: "string_ok (idio_octet_string_C_len [97, 98, 99])" by (rule octet_ok) simp
  have c: "codes ?s = [97, 98, 99]" unfolding codes_String [OF o] by (simp add: idio_octet_string_C_len_def)
  show ?thesis
    using strings_refine_sequences [of ?s ?s "- 1" 97 0 False] strings_refine_sequences [of ?s ?s 1 97 "- 1" False] o
    by (simp add: c index_in_def slice_def bound_in_def)
qed

end
